(* ===== verification/Prelude.thy ===== *)
theory Prelude
  imports Main "HOL-Library.Word" "HOL-Library.Multiset" "HOL-Library.List_Lexorder"
begin

text \<open>
  Shared vocabulary of the development: bytes and byte strings, the \<open>u64\<close> arithmetic
  the Rust sources use (saturating, wrapping in release builds), results as sums with
  the error on the left, and the lemmas on lists, big-endian integers and strictly
  sorted lists that several components need.
\<close>

section \<open>Types and collections\<close>

type_synonym byte = "8 word"
type_synonym bytes = "byte list"

named_theorems res_simps \<open>inversion of successful result chains\<close>
named_theorems u64_simps \<open>unfolding of the machine arithmetic\<close>

section \<open>Machine arithmetic on u64\<close>

text \<open>
  A \<open>u64\<close> is a natural number below \<open>2^64\<close>. The release profile has no overflow checks,
  so a bare \<open>+\<close>, \<open>-\<close> or \<open>*\<close> wraps; \<open>saturating_*\<close> clamps.
\<close>

definition u64_max :: nat where
  "u64_max = 18446744073709551615"

definition is_u64 :: "nat \<Rightarrow> bool" where
  "is_u64 n \<longleftrightarrow> n \<le> u64_max"

definition sat_add :: "nat \<Rightarrow> nat \<Rightarrow> nat" where
  "sat_add a b = min (a + b) u64_max"

definition sat_sub :: "nat \<Rightarrow> nat \<Rightarrow> nat" where
  "sat_sub a b = a - b"

definition sat_mul :: "nat \<Rightarrow> nat \<Rightarrow> nat" where
  "sat_mul a b = min (a * b) u64_max"

definition wrap64 :: "nat \<Rightarrow> nat" where
  "wrap64 n = n mod (u64_max + 1)"

definition wrap_sub :: "nat \<Rightarrow> nat \<Rightarrow> nat" where
  "wrap_sub a b = wrap64 (a + (u64_max + 1 - b))"

definition wrap32 :: "nat \<Rightarrow> nat" where
  "wrap32 n = n mod 4294967296"

section \<open>Results\<close>

type_synonym ('e, 'a) result = "'e + 'a"

definition rbind :: "('e, 'a) result \<Rightarrow> ('a \<Rightarrow> ('e, 'b) result) \<Rightarrow> ('e, 'b) result" where
  "rbind m f = (case m of Inl e \<Rightarrow> Inl e | Inr x \<Rightarrow> f x)"

definition map_err :: "('e \<Rightarrow> 'f) \<Rightarrow> ('e, 'a) result \<Rightarrow> ('f, 'a) result" where
  "map_err g m = (case m of Inl e \<Rightarrow> Inl (g e) | Inr x \<Rightarrow> Inr x)"

definition map_ok :: "('a \<Rightarrow> 'b) \<Rightarrow> ('e, 'a) result \<Rightarrow> ('e, 'b) result" where
  "map_ok g m = (case m of Inl e \<Rightarrow> Inl e | Inr x \<Rightarrow> Inr (g x))"

definition is_ok :: "('e, 'a) result \<Rightarrow> bool" where
  "is_ok m = (case m of Inl e \<Rightarrow> False | Inr x \<Rightarrow> True)"

text \<open>\<open>collect::<Result<Vec<_>, _>>\<close>: the first error, or all values in order.\<close>

fun rmapM :: "('a \<Rightarrow> ('e, 'b) result) \<Rightarrow> 'a list \<Rightarrow> ('e, 'b list) result" where
  "rmapM f [] = Inr []"
| "rmapM f (x # xs) = rbind (f x) (\<lambda>y. rbind (rmapM f xs) (\<lambda>ys. Inr (y # ys)))"

text \<open>\<open>Option<T>\<close> mapped to a fallible conversion and \<open>transpose\<close>d.\<close>

definition ropt :: "('a \<Rightarrow> ('e, 'b) result) \<Rightarrow> 'a option \<Rightarrow> ('e, 'b option) result" where
  "ropt f m = (case m of None \<Rightarrow> Inr None | Some x \<Rightarrow> map_ok Some (f x))"

section \<open>Byte strings and big-endian integers\<close>

fun to_be_bytes :: "nat \<Rightarrow> nat \<Rightarrow> bytes" where
  "to_be_bytes 0 n = []"
| "to_be_bytes (Suc k) n = to_be_bytes k (n div 256) @ [word_of_nat n]"

definition be_nat :: "bytes \<Rightarrow> nat" where
  "be_nat bs = foldl (\<lambda>n b. n * 256 + unat b) 0 bs"

text \<open>\<open>v = (v << 8) | b\<close> over a \<open>u64\<close>: the shift drops the high byte.\<close>

definition be_u64 :: "bytes \<Rightarrow> nat" where
  "be_u64 bs = foldl (\<lambda>n b. wrap64 (n * 256) + unat b) 0 bs"

text \<open>\<open>be[start..]\<close> from the first non-zero byte on.\<close>

definition strip_zeros :: "bytes \<Rightarrow> bytes" where
  "strip_zeros bs = dropWhile (\<lambda>b. b = 0) bs"

text \<open>\<open>&xs[a..b]\<close>, used only where the bounds have been checked.\<close>

definition subslice :: "nat \<Rightarrow> nat \<Rightarrow> 'a list \<Rightarrow> 'a list" where
  "subslice a b xs = take (b - a) (drop a xs)"

text \<open>\<open>str::eq_ignore_ascii_case\<close>\<close>

definition ascii_lower :: "char \<Rightarrow> char" where
  "ascii_lower c =
     (let n = (of_char c :: nat) in if 65 \<le> n \<and> n \<le> 90 then char_of (n + 32) else c)"

definition eq_ignore_ascii_case :: "string \<Rightarrow> string \<Rightarrow> bool" where
  "eq_ignore_ascii_case a b \<longleftrightarrow> map ascii_lower a = map ascii_lower b"

definition zeros :: "nat \<Rightarrow> bytes" where
  "zeros n = replicate n 0"

section \<open>Lemmas on arithmetic\<close>

lemma is_u64_iff: "is_u64 n \<longleftrightarrow> n < 2 ^ 64"
  by (auto simp: is_u64_def u64_max_def)

lemma sat_add_le [simp]: "sat_add a b \<le> u64_max"
  by (simp add: sat_add_def)

lemma sat_add_ge: "is_u64 a \<Longrightarrow> a \<le> sat_add a b"
  by (simp add: sat_add_def is_u64_def)

lemma wrap64_id [simp]: "is_u64 n \<Longrightarrow> wrap64 n = n"
  by (simp add: wrap64_def is_u64_def)

lemma wrap64_u64 [simp]: "is_u64 (wrap64 n)"
  by (simp add: wrap64_def is_u64_def flip: less_Suc_eq_le)

declare sat_add_def [u64_simps] sat_sub_def [u64_simps] sat_mul_def [u64_simps]
declare wrap_sub_def [u64_simps] wrap64_def [u64_simps] is_u64_def [u64_simps] u64_max_def [u64_simps]

section \<open>Lemmas on results\<close>

lemma rbind_simps [simp]: "rbind (Inl e) f = Inl e" "rbind (Inr x) f = f x"
  by (simp_all add: rbind_def)

lemma map_err_simps [simp]: "map_err g (Inl e) = Inl (g e)" "map_err g (Inr x) = Inr x"
  by (simp_all add: map_err_def)

lemma map_ok_simps [simp]: "map_ok g (Inl e) = Inl e" "map_ok g (Inr x) = Inr (g x)"
  by (simp_all add: map_ok_def)

lemma is_ok_simps [simp]: "is_ok (Inl e) = False" "is_ok (Inr x) = True"
  by (simp_all add: is_ok_def)

lemma rbind_Inr_iff [res_simps]: "rbind m f = Inr y \<longleftrightarrow> (\<exists>x. m = Inr x \<and> f x = Inr y)"
  by (cases m) auto

lemma rbind_Inl_iff: "rbind m f = Inl e \<longleftrightarrow> m = Inl e \<or> (\<exists>x. m = Inr x \<and> f x = Inl e)"
  by (cases m) auto

lemma map_err_Inr_iff [res_simps]: "map_err g m = Inr y \<longleftrightarrow> m = Inr y"
  by (cases m) auto

lemma map_ok_Inr_iff [res_simps]: "map_ok g m = Inr y \<longleftrightarrow> (\<exists>x. m = Inr x \<and> y = g x)"
  by (cases m) auto

lemma if_Inl_Inr_iff [res_simps]:
  "(if b then Inl e else m) = Inr y \<longleftrightarrow> \<not> b \<and> m = Inr y"
  "(if b then m else Inl e) = Inr y \<longleftrightarrow> b \<and> m = Inr y"
  by auto

lemma rmapM_length: "rmapM f xs = Inr ys \<Longrightarrow> length ys = length xs"
  by (induction xs arbitrary: ys) (auto simp: res_simps)

lemma rmapM_Inr_iff: "rmapM f xs = Inr ys \<longleftrightarrow> list_all2 (\<lambda>x y. f x = Inr y) xs ys"
proof (induction xs arbitrary: ys)
  case Nil
  show ?case by auto
next
  case (Cons x xs)
  show ?case by (cases ys) (auto simp: res_simps Cons.IH)
qed

lemma rmapM_map: "rmapM f (map g xs) = rmapM (\<lambda>x. f (g x)) xs"
  by (induction xs) simp_all

lemma rmapM_all_ok: "(\<And>x. x \<in> set xs \<Longrightarrow> f x = Inr (g x)) \<Longrightarrow> rmapM f xs = Inr (map g xs)"
  by (induction xs) simp_all

section \<open>Lemmas on big-endian integers\<close>

lemma unat_byte_less: "unat (b :: byte) < 256"
  using unsigned_less [of b, where ?'a = nat] by simp

lemma unat_word_of_nat_byte: "n < 256 \<Longrightarrow> unat (word_of_nat n :: byte) = n"
  unfolding unsigned_of_nat by (simp add: take_bit_eq_mod)

lemma byte_of_unat: "(word_of_nat (unat b) :: byte) = b"
  by simp

lemma length_to_be_bytes [simp]: "length (to_be_bytes k n) = k"
  by (induction k arbitrary: n) auto

lemma be_nat_Nil [simp]: "be_nat [] = 0"
  by (simp add: be_nat_def)

lemma be_nat_snoc [simp]: "be_nat (bs @ [b]) = be_nat bs * 256 + unat b"
  by (simp add: be_nat_def)

lemma be_nat_Cons: "be_nat (b # bs) = unat b * 256 ^ length bs + be_nat bs"
proof (induction bs rule: rev_induct)
  case Nil
  show ?case by (simp add: be_nat_def)
next
  case (snoc c bs)
  have "be_nat (b # bs @ [c]) = be_nat (b # bs) * 256 + unat c"
    using be_nat_snoc [of "b # bs" c] by simp
  then show ?case by (simp add: snoc algebra_simps)
qed

lemma be_nat_bound: "be_nat bs < 256 ^ length bs"
proof (induction bs rule: rev_induct)
  case Nil
  show ?case by simp
next
  case (snoc b bs)
  have "unat b < 256" by (rule unat_byte_less)
  with snoc show ?case by simp
qed

lemma be_nat_to_be_bytes: "be_nat (to_be_bytes k n) = n mod 256 ^ k"
proof (induction k arbitrary: n)
  case 0
  show ?case by simp
next
  case (Suc k)
  have "unat (word_of_nat n :: byte) = n mod 256"
    by (simp add: unsigned_of_nat take_bit_eq_mod)
  then have "be_nat (to_be_bytes (Suc k) n) = (n div 256) mod 256 ^ k * 256 + n mod 256"
    by (simp add: Suc)
  also have "\<dots> = n mod (256 * 256 ^ k)"
    by (simp add: mod_mult2_eq)
  finally show ?case by simp
qed

lemma to_be_bytes_be_nat: "to_be_bytes (length bs) (be_nat bs) = bs"
proof (induction bs rule: rev_induct)
  case Nil
  show ?case by simp
next
  case (snoc b bs)
  have b: "unat b < 256" by (rule unat_byte_less)
  have "unat (word_of_nat (be_nat bs * 256 + unat b) :: byte) = unat b"
    using b unfolding unsigned_of_nat by (simp add: take_bit_eq_mod)
  then have "(word_of_nat (be_nat bs * 256 + unat b) :: byte) = b"
    by (rule word_unat_eq_iff [THEN iffD2])
  then show ?case using snoc b by simp
qed

lemma be_nat_inj: "length as = length bs \<Longrightarrow> be_nat as = be_nat bs \<Longrightarrow> as = bs"
  by (metis to_be_bytes_be_nat)

lemma be_nat_strip_zeros [simp]: "be_nat (strip_zeros bs) = be_nat bs"
  by (induction bs) (auto simp: strip_zeros_def be_nat_Cons)

lemma length_strip_zeros: "length (strip_zeros bs) \<le> length bs"
  by (simp add: strip_zeros_def length_dropWhile_le)

lemma strip_zeros_hd: "strip_zeros bs = b # cs \<Longrightarrow> b \<noteq> 0"
  by (induction bs) (auto simp: strip_zeros_def split: if_splits)

lemma strip_zeros_id: "bs = [] \<or> hd bs \<noteq> 0 \<Longrightarrow> strip_zeros bs = bs"
  by (cases bs) (auto simp: strip_zeros_def)

lemma strip_zeros_idem [simp]: "strip_zeros (strip_zeros bs) = strip_zeros bs"
  by (cases "strip_zeros bs") (simp_all add: strip_zeros_id strip_zeros_hd)

lemma be_nat_lower: "b \<noteq> 0 \<Longrightarrow> 256 ^ length bs \<le> be_nat (b # bs)"
proof -
  assume "b \<noteq> 0"
  then have "1 \<le> unat b" by (simp add: unat_gt_0 Suc_leI)
  then show ?thesis by (simp add: be_nat_Cons trans_le_add1)
qed

lemma be_nat_eq_0_iff: "be_nat bs = 0 \<longleftrightarrow> strip_zeros bs = []"
proof
  assume z: "be_nat bs = 0"
  show "strip_zeros bs = []"
  proof (cases "strip_zeros bs")
    case (Cons b cs)
    then have "256 ^ length cs \<le> be_nat (strip_zeros bs)"
      using be_nat_lower strip_zeros_hd by metis
    with z show ?thesis by simp
  qed
next
  assume "strip_zeros bs = []"
  then show "be_nat bs = 0" using be_nat_strip_zeros [of bs] by simp
qed

text \<open>A byte string without leading zeros is determined by its value.\<close>

lemma be_nat_inj_stripped:
  assumes "be_nat as = be_nat bs" "strip_zeros as = as" "strip_zeros bs = bs"
  shows "as = bs"
proof -
  have len: "length xs \<le> length ys"
    if "be_nat xs = be_nat ys" "strip_zeros xs = xs" for xs ys :: bytes
  proof (cases xs)
    case (Cons x xs')
    then have "256 ^ length xs' \<le> be_nat ys"
      using that be_nat_lower strip_zeros_hd by metis
    also have "\<dots> < 256 ^ length ys" by (rule be_nat_bound)
    finally show ?thesis using Cons by simp
  qed simp
  have "length as = length bs"
    using len [of as bs] len [of bs as] assms by simp
  then show ?thesis using assms(1) by (rule be_nat_inj)
qed

lemma strip_zeros_eq_iff: "strip_zeros as = strip_zeros bs \<longleftrightarrow> be_nat as = be_nat bs"
  by (metis be_nat_inj_stripped be_nat_strip_zeros strip_zeros_idem)

lemma be_u64_eq: "length bs \<le> 8 \<Longrightarrow> be_u64 bs = be_nat bs"
proof (induction bs rule: rev_induct)
  case Nil
  show ?case by (simp add: be_u64_def)
next
  case (snoc b bs)
  have "be_nat bs < 256 ^ length bs" by (rule be_nat_bound)
  also have "\<dots> \<le> 256 ^ 7" using snoc.prems by (intro power_increasing) auto
  finally have "is_u64 (be_nat bs * 256)" by (simp add: u64_simps)
  then show ?case using snoc by (simp add: be_u64_def)
qed

lemma length_zeros [simp]: "length (zeros n) = n"
  by (simp add: zeros_def)

lemma of_char_ascii_lower:
  "(of_char (ascii_lower c) :: nat) =
     (if 65 \<le> (of_char c :: nat) \<and> of_char c \<le> (90 :: nat) then of_char c + 32 else of_char c)"
  by (simp add: ascii_lower_def Let_def of_char_of)

section \<open>Lemmas on slices\<close>

lemma length_slice [simp]: "length (subslice a b xs) = min (b - a) (length xs - a)"
  by (simp add: subslice_def min.commute)

lemma slice_append: "a \<le> b \<Longrightarrow> b \<le> c \<Longrightarrow> subslice a b xs @ subslice b c xs = subslice a c xs"
proof -
  assume ab: "a \<le> b" and bc: "b \<le> c"
  have "c - a = (b - a) + (c - b)" using ab bc by simp
  then have "take (c - a) (drop a xs) = take (b - a) (drop a xs) @ take (c - b) (drop (b - a) (drop a xs))"
    by (metis take_add)
  then show ?thesis using ab by (simp add: subslice_def)
qed

lemma slice_refl [simp]: "subslice a a xs = []"
  by (simp add: subslice_def)

lemma slice_0 [simp]: "subslice 0 b xs = take b xs"
  by (simp add: subslice_def)

lemma slice_Suc_Cons [simp]: "subslice (Suc a) (Suc b) (x # xs) = subslice a b xs"
  by (simp add: subslice_def)

lemma subslice_Cons: "0 < a \<Longrightarrow> 0 < b \<Longrightarrow> subslice a b (x # xs) = subslice (a - 1) (b - 1) xs"
  by (cases a; cases b) simp_all

lemma take_slice: "k \<le> b - a \<Longrightarrow> take k (subslice a b xs) = subslice a (a + k) xs"
  by (simp add: subslice_def min_absorb1)

lemma drop_slice: "drop k (subslice a b xs) = subslice (a + k) b xs"
  by (simp add: subslice_def drop_take add.commute)

text \<open>Cutting a byte string into \<open>n\<close> records of \<open>k\<close> bytes loses nothing.\<close>

lemma concat_slices:
  "concat (map (\<lambda>i. subslice (s + i * k) (s + i * k + k) xs) [0..<n]) = subslice s (s + n * k) xs"
proof (induction n)
  case (Suc n)
  have "subslice s (s + n * k) xs @ subslice (s + n * k) (s + n * k + k) xs = subslice s (s + Suc n * k) xs"
    using slice_append [of s "s + n * k" "s + n * k + k" xs] by (simp add: algebra_simps)
  then show ?case using Suc by simp
qed simp

lemma slice_concat:
  assumes "\<And>x. x \<in> set xs \<Longrightarrow> length (f x) = k" "i < length xs"
  shows "subslice (i * k) (i * k + k) (concat (map f xs) @ ys) = f (xs ! i)"
  using assms
proof (induction xs arbitrary: i)
  case (Cons x xs)
  show ?case
  proof (cases i)
    case 0
    then show ?thesis using Cons.prems by simp
  next
    case (Suc j)
    then show ?thesis using Cons by (simp add: subslice_def)
  qed
qed simp

section \<open>Lemmas on strictly sorted lists\<close>

lemma sorted_wrt_less_sort: "distinct xs \<Longrightarrow> sorted_wrt (<) (sort (xs :: 'a::linorder list))"
  by (simp add: strict_sorted_iff)

lemma sort_key_map_fst: "map f (sort_key f xs) = sort (map f xs)"
proof -
  have "mset (map f (sort_key f xs)) = mset (map f xs)" by simp
  moreover have "sorted (map f (sort_key f xs))" by simp
  ultimately show ?thesis by (metis properties_for_sort)
qed

end
