(* ===== verification/Externals.thy ===== *)
theory Externals
  imports Prelude
begin

text \<open>
  The third-party code the crates call, as parameters of the model: the \<open>hex\<close> codec,
  Keccak-256 (\<open>tiny_keccak\<close>), ECDSA public-key recovery (\<open>secp256k1\<close>) and BLS12-381
  signatures (\<open>blst\<close>). They travel together in one record, which every definition that
  reaches them takes as its first argument. What the crates document and the theorems
  rely on is stated as named predicates on that record.
\<close>

record ('pk, 'sg) ext =
  hex_decode :: "string \<Rightarrow> (string, bytes) result"
    \<comment> \<open>\<open>hex::decode\<close>; the left value is the \<open>Display\<close> text of \<open>FromHexError\<close>\<close>
  hex_encode :: "bytes \<Rightarrow> string"
  keccak :: "bytes \<Rightarrow> bytes"
    \<comment> \<open>\<open>Keccak::v256\<close>, \<open>update\<close>, \<open>finalize\<close> into a 32-byte array\<close>
  rec_id_ok :: "nat \<Rightarrow> bool"
    \<comment> \<open>\<open>RecoveryId::try_from\<close> accepts the value\<close>
  secp_recover :: "bytes \<Rightarrow> bytes \<Rightarrow> nat \<Rightarrow> (string, bytes) result"
    \<comment> \<open>digest, compact signature, recovery id: \<open>from_compact\<close>, \<open>recover_ecdsa\<close>,
        \<open>serialize_uncompressed\<close>; the left value is the error text of either failure\<close>
  bls_key_validate :: "bytes \<Rightarrow> 'pk option"
  bls_aggregate :: "'pk list \<Rightarrow> 'pk option"
    \<comment> \<open>\<open>AggregatePublicKey::aggregate(.., false)\<close> and \<open>to_public_key\<close>\<close>
  bls_sig_validate :: "bytes \<Rightarrow> 'sg option"
  bls_verify :: "'sg \<Rightarrow> bytes \<Rightarrow> bytes \<Rightarrow> 'pk \<Rightarrow> bool"
    \<comment> \<open>signature, message, domain tag, key: \<open>BLST_SUCCESS\<close> or not\<close>

text \<open>Documented behaviour of \<open>hex\<close>: two digits per byte, and decoding inverts encoding.\<close>

definition hex_lower :: "char \<Rightarrow> bool" where
  "hex_lower c \<longleftrightarrow> c \<in> set ''0123456789abcdef''"

definition hex_ok :: "('pk, 'sg) ext \<Rightarrow> bool" where
  "hex_ok X \<longleftrightarrow>
     (\<forall>b. hex_decode X (hex_encode X b) = Inr b) \<and>
     (\<forall>b. length (hex_encode X b) = 2 * length b \<and> (\<forall>c \<in> set (hex_encode X b). hex_lower c)) \<and>
     (\<forall>s b. hex_decode X s = Inr b \<longrightarrow> length s = 2 * length b)"

text \<open>Documented behaviour of \<open>hex::decode\<close>: upper and lower case digits are both valid.\<close>

definition hex_case_ok :: "('pk, 'sg) ext \<Rightarrow> bool" where
  "hex_case_ok X \<longleftrightarrow> (\<forall>s b. hex_decode X s = Inr b \<longleftrightarrow> hex_decode X (map ascii_lower s) = Inr b)"

text \<open>Keccak-256 returns 32 bytes.\<close>

definition keccak_ok :: "('pk, 'sg) ext \<Rightarrow> bool" where
  "keccak_ok X \<longleftrightarrow> (\<forall>b. length (keccak X b) = 32)"

text \<open>A pair of distinct inputs with one digest.\<close>

definition collision :: "('pk, 'sg) ext \<Rightarrow> bytes \<Rightarrow> bytes \<Rightarrow> bool" where
  "collision X a b \<longleftrightarrow> a \<noteq> b \<and> keccak X a = keccak X b"

lemma hex_okD:
  assumes "hex_ok X"
  shows "hex_decode X (hex_encode X b) = Inr b"
    and "length (hex_encode X b) = 2 * length b"
    and "c \<in> set (hex_encode X b) \<Longrightarrow> hex_lower c"
    and "hex_decode X s = Inr b' \<Longrightarrow> length s = 2 * length b'"
  using assms by (auto simp: hex_ok_def)

lemma hex_encode_not_x:
  assumes "hex_ok X"
  shows "CHR ''x'' \<notin> set (hex_encode X b)" "CHR ''X'' \<notin> set (hex_encode X b)"
  using hex_okD(3) [OF assms] by (auto simp: hex_lower_def)

lemma keccak_okD: "keccak_ok X \<Longrightarrow> length (keccak X b) = 32"
  by (simp add: keccak_ok_def)

end
