(* ===== verification/Types.thy ===== *)
theory Types
  imports Externals
begin

text \<open>
  The crate \<open>helios-bsc-types\<close>: hex and quantity decoding (\<open>hexutil.rs\<close>), the JSON-RPC
  header (\<open>rpc_header.rs\<close>), the weak-subjectivity checkpoint with its validation, and the
  confirmation threshold (\<open>lib.rs\<close>). Strings are byte strings, as \<open>len()\<close> counts them.
\<close>

section \<open>Errors and data\<close>

datatype types_error =
    UnsupportedChainId nat
  | EmptySealingSet
  | BadSealingAddress
  | DuplicateSealingAddress
  | BadCheckpointHash string
  | VoteKeyCountMismatch nat nat
  | BadVoteKey
  | DuplicateVoteKey
  | InvalidHex string
  | InvalidHexLength nat nat

datatype trust_class = TrustVerified | TrustUnverified | TrustUnsupported

definition BSC_MAINNET_CHAIN_ID :: nat where
  "BSC_MAINNET_CHAIN_ID = 56"

record rpc_block_header =
  h_hash :: string
  h_parent_hash :: string
  h_sha3_uncles :: string
  h_miner :: string
  h_state_root :: string
  h_transactions_root :: string
  h_receipts_root :: string
  h_logs_bloom :: string
  h_difficulty :: string
  h_number :: string
  h_gas_limit :: string
  h_gas_used :: string
  h_timestamp :: string
  h_extra_data :: string
  h_mix_hash :: string
  h_nonce :: string
  h_base_fee_per_gas :: "string option"
  h_withdrawals_root :: "string option"
  h_blob_gas_used :: "string option"
  h_excess_blob_gas :: "string option"
  h_parent_beacon_block_root :: "string option"
  h_requests_hash :: "string option"

record checkpoint =
  cp_chain_id :: nat
  cp_number :: nat
  cp_hash :: string
  cp_parent_hash :: string
  cp_state_root :: string
  cp_timestamp :: nat
  cp_fork_id :: string
  cp_sealing_set :: "string list"
  cp_vote_keys :: "string list option"
  cp_attestation :: "string option"

record safe_head =
  sh_number :: nat
  sh_hash :: string
  sh_state_root :: string
  sh_distinct_sealers :: nat
  sh_required_sealers :: nat

section \<open>hexutil.rs\<close>

fun show_nat :: "nat \<Rightarrow> string" where
  "show_nat n =
     (if n < 10 then [char_of (48 + n)] else show_nat (n div 10) @ [char_of (48 + n mod 10)])"

declare show_nat.simps [simp del]

text \<open>\<open>Display\<close> of \<open>TypesError\<close>, from its \<open>#[error(..)]\<close> attributes.\<close>

fun show_types_error :: "types_error \<Rightarrow> string" where
  "show_types_error (UnsupportedChainId n) =
     ''unsupported chain id '' @ show_nat n @ '' (expected BSC mainnet 56)''"
| "show_types_error EmptySealingSet = ''checkpoint sealing set is empty''"
| "show_types_error BadSealingAddress = ''checkpoint sealing set address is not 20 bytes''"
| "show_types_error DuplicateSealingAddress = ''checkpoint sealing set has a duplicate address''"
| "show_types_error (BadCheckpointHash field) = ''checkpoint '' @ field @ '' is not a 32-byte hash''"
| "show_types_error (VoteKeyCountMismatch keys validators) =
     ''checkpoint has '' @ show_nat keys @ '' BLS vote keys for '' @ show_nat validators @ '' sealing addresses''"
| "show_types_error BadVoteKey = ''checkpoint BLS vote key is not 48 bytes''"
| "show_types_error DuplicateVoteKey = ''checkpoint has a duplicate BLS vote key''"
| "show_types_error (InvalidHex e) = ''invalid hex: '' @ e"
| "show_types_error (InvalidHexLength expected got) =
     ''invalid hex length: expected '' @ show_nat expected @ '' bytes, got '' @ show_nat got"

fun strip_0x :: "string \<Rightarrow> string" where
  "strip_0x (CHR ''0'' # CHR ''x'' # s) = s"
| "strip_0x (CHR ''0'' # CHR ''X'' # s) = s"
| "strip_0x s = s"

definition decode_hex :: "('pk, 'sg) ext \<Rightarrow> string \<Rightarrow> (types_error, bytes) result" where
  "decode_hex X s =
     (let raw = strip_0x s
      in if length raw mod 2 \<noteq> 0
         then Inl (InvalidHex (''odd-length hex ('' @ show_nat (length raw) @ '')''))
         else map_err InvalidHex (hex_decode X raw))"

definition decode_hex_fixed ::
    "('pk, 'sg) ext \<Rightarrow> nat \<Rightarrow> string \<Rightarrow> (types_error, bytes) result" where
  "decode_hex_fixed X n s =
     rbind (decode_hex X s) (\<lambda>v.
       if length v \<noteq> n then Inl (InvalidHexLength n (length v)) else Inr v)"

text \<open>\<open>char::to_digit(16)\<close> and \<open>u64::from_str_radix(_, 16)\<close> of the standard library: a
  leading plus sign is skipped, a bad digit is reported before an overflow at the same
  place, and a lone sign is a bad digit.\<close>

definition to_digit16 :: "char \<Rightarrow> nat option" where
  "to_digit16 c =
     (let n = (of_char c :: nat)
      in if 48 \<le> n \<and> n \<le> 57 then Some (n - 48)
         else if 97 \<le> n \<and> n \<le> 102 then Some (n - 87)
         else if 65 \<le> n \<and> n \<le> 70 then Some (n - 55)
         else None)"

fun radix16_loop :: "nat \<Rightarrow> string \<Rightarrow> (string, nat) result" where
  "radix16_loop acc [] = Inr acc"
| "radix16_loop acc (c # cs) =
     (case to_digit16 c of
        None \<Rightarrow> Inl ''invalid digit found in string''
      | Some x \<Rightarrow>
          if u64_max < acc * 16 + x then Inl ''number too large to fit in target type''
          else radix16_loop (acc * 16 + x) cs)"

definition from_str_radix16 :: "string \<Rightarrow> (string, nat) result" where
  "from_str_radix16 s =
     (if s = [] then Inl ''cannot parse integer from empty string''
      else if s = ''+'' \<or> s = ''-'' then Inl ''invalid digit found in string''
      else if hd s = CHR ''+'' then radix16_loop 0 (tl s)
      else radix16_loop 0 s)"

definition decode_u64 :: "string \<Rightarrow> (types_error, nat) result" where
  "decode_u64 s =
     (let raw = strip_0x s
      in if raw = [] then Inr 0 else map_err InvalidHex (from_str_radix16 raw))"

definition address_from_pubkey_uncompressed ::
    "('pk, 'sg) ext \<Rightarrow> bytes \<Rightarrow> (types_error, bytes) result" where
  "address_from_pubkey_uncompressed X pubkey65 =
     (if length pubkey65 \<noteq> 65 \<or> hd pubkey65 \<noteq> 4
      then Inl (InvalidHex ''expected uncompressed secp256k1 pubkey (65 bytes, 0x04 prefix)'')
      else Inr (drop 12 (keccak X (drop 1 pubkey65))))"

definition hex0x :: "('pk, 'sg) ext \<Rightarrow> bytes \<Rightarrow> string" where
  "hex0x X b = ''0x'' @ hex_encode X b"

definition format_address :: "('pk, 'sg) ext \<Rightarrow> bytes \<Rightarrow> string" where
  "format_address X addr = hex0x X addr"

section \<open>lib.rs: the checkpoint and the threshold\<close>

text \<open>The \<open>HashSet\<close> loop over the sealing set, and the same loop over the vote keys.\<close>

fun decode_distinct ::
    "(string \<Rightarrow> (types_error, bytes) result) \<Rightarrow> types_error \<Rightarrow> types_error \<Rightarrow> bytes list \<Rightarrow>
     string list \<Rightarrow> (types_error, unit) result" where
  "decode_distinct dec bad dup seen [] = Inr ()"
| "decode_distinct dec bad dup seen (a # as) =
     rbind (map_err (\<lambda>_. bad) (dec a)) (\<lambda>x.
       if x \<in> set seen then Inl dup else decode_distinct dec bad dup (x # seen) as)"

definition check_hash_field ::
    "('pk, 'sg) ext \<Rightarrow> string \<Rightarrow> string \<Rightarrow> (types_error, unit) result" where
  "check_hash_field X field v =
     map_err (\<lambda>_. BadCheckpointHash field) (map_ok (\<lambda>_. ()) (decode_hex_fixed X 32 v))"

definition validate_basic :: "('pk, 'sg) ext \<Rightarrow> checkpoint \<Rightarrow> (types_error, unit) result" where
  "validate_basic X cp =
     (if cp_chain_id cp \<noteq> BSC_MAINNET_CHAIN_ID then Inl (UnsupportedChainId (cp_chain_id cp))
      else if cp_sealing_set cp = [] then Inl EmptySealingSet
      else
        rbind (decode_distinct (decode_hex_fixed X 20) BadSealingAddress DuplicateSealingAddress
                 [] (cp_sealing_set cp)) (\<lambda>_.
        rbind (check_hash_field X ''hash'' (cp_hash cp)) (\<lambda>_.
        rbind (check_hash_field X ''parentHash'' (cp_parent_hash cp)) (\<lambda>_.
        rbind (check_hash_field X ''stateRoot'' (cp_state_root cp)) (\<lambda>_.
        case cp_vote_keys cp of
          None \<Rightarrow> Inr ()
        | Some keys \<Rightarrow>
            if length keys \<noteq> length (cp_sealing_set cp)
            then Inl (VoteKeyCountMismatch (length keys) (length (cp_sealing_set cp)))
            else decode_distinct (decode_hex_fixed X 48) BadVoteKey DuplicateVoteKey [] keys)))))"

definition with_vote_keys :: "checkpoint \<Rightarrow> string list \<Rightarrow> checkpoint" where
  "with_vote_keys cp keys = cp\<lparr>cp_vote_keys := Some keys\<rparr>"

definition from_rpc_header ::
    "rpc_block_header \<Rightarrow> string list \<Rightarrow> string \<Rightarrow> string option \<Rightarrow>
     (types_error, checkpoint) result" where
  "from_rpc_header h sealing_set fork_id attestation =
     rbind (decode_u64 (h_number h)) (\<lambda>number.
     rbind (decode_u64 (h_timestamp h)) (\<lambda>timestamp.
       Inr \<lparr>cp_chain_id = BSC_MAINNET_CHAIN_ID, cp_number = number, cp_hash = h_hash h,
            cp_parent_hash = h_parent_hash h, cp_state_root = h_state_root h,
            cp_timestamp = timestamp, cp_fork_id = fork_id, cp_sealing_set = sealing_set,
            cp_vote_keys = None, cp_attestation = attestation\<rparr>))"

text \<open>\<open>u32\<close> arithmetic: the doubling wraps.\<close>

definition min_distinct_sealers :: "nat \<Rightarrow> nat" where
  "min_distinct_sealers n_seal =
     (if n_seal = 0 then 0 else wrap32 (2 * n_seal) div 3 + 1)"

section \<open>Facts the other components use\<close>

lemma strip_0x_prefix [simp]: "strip_0x (''0x'' @ s) = s"
  by simp

lemma strip_0x_cases: "strip_0x s = s \<or> (\<exists>r. s = ''0x'' @ r \<or> s = ''0X'' @ r)"
  by (induction s rule: strip_0x.induct) auto

lemma decode_hex_fixed_length: "decode_hex_fixed X n s = Inr v \<Longrightarrow> length v = n"
  by (auto simp: decode_hex_fixed_def res_simps)

lemma decode_hex_fixed_Inr_iff:
  "decode_hex_fixed X n s = Inr v \<longleftrightarrow> decode_hex X s = Inr v \<and> length v = n"
  by (auto simp: decode_hex_fixed_def res_simps)

lemma decode_hex_hex0x: "hex_ok X \<Longrightarrow> decode_hex X (hex0x X b) = Inr b"
  by (simp add: decode_hex_def hex0x_def hex_okD)

lemma decode_hex_fixed_hex0x: "hex_ok X \<Longrightarrow> length b = n \<Longrightarrow> decode_hex_fixed X n (hex0x X b) = Inr b"
  by (simp add: decode_hex_fixed_def decode_hex_hex0x)

lemma radix16_loop_bound: "acc \<le> u64_max \<Longrightarrow> radix16_loop acc s = Inr n \<Longrightarrow> n \<le> u64_max"
  by (induction acc s rule: radix16_loop.induct) (auto split: option.splits if_splits)

lemma decode_u64_is_u64: "decode_u64 s = Inr n \<Longrightarrow> is_u64 n"
  by (auto simp: decode_u64_def from_str_radix16_def is_u64_def res_simps Let_def u64_max_def
      split: if_splits dest: radix16_loop_bound [of 0, simplified])

lemma decode_distinct_Inr_iff:
  "decode_distinct dec bad dup seen as = Inr () \<longleftrightarrow>
     (\<exists>xs. rmapM dec as = Inr xs \<and> distinct xs \<and> set xs \<inter> set seen = {})"
proof (induction as arbitrary: seen)
  case (Cons a as)
  show ?case
  proof (cases "dec a")
    case (Inr x)
    then show ?thesis by (cases "rmapM dec as") (auto simp: Cons.IH)
  qed simp
qed simp

lemma min_distinct_sealers_eq:
  "n < 2147483648 \<Longrightarrow> min_distinct_sealers n = (if n = 0 then 0 else 2 * n div 3 + 1)"
  by (simp add: min_distinct_sealers_def wrap32_def)

end
