(* ===== verification/Config.thy ===== *)
theory Config
  imports Types
begin

text \<open>
  The crate \<open>helios-bsc-config\<close>: the fork schedule of BSC mainnet, the Parlia parameters
  in force at a header (\<open>params_at\<close>), the ancestor window of a vote attestation, the
  activation delay of an epoch, and the operator's lag arithmetic (\<open>lib.rs\<close>).
\<close>

section \<open>Constants\<close>

definition LONDON_BLOCK :: nat where "LONDON_BLOCK = 31302048"
definition LUBAN_BLOCK :: nat where "LUBAN_BLOCK = 29020050"
definition PLATO_BLOCK :: nat where "PLATO_BLOCK = 30720096"
definition BOHR_TIME :: nat where "BOHR_TIME = 1727317200"
definition LORENTZ_TIME :: nat where "LORENTZ_TIME = 1745903100"
definition MAXWELL_TIME :: nat where "MAXWELL_TIME = 1751250600"
definition FERMI_TIME :: nat where "FERMI_TIME = 1768357800"
definition PASTEUR_TIME :: nat where "PASTEUR_TIME = 1787625000"
definition CANCUN_TIME :: nat where "CANCUN_TIME = 1718863500"
definition PRAGUE_TIME :: nat where "PRAGUE_TIME = 1742436600"
definition OSAKA_MENDEL_TIME :: nat where "OSAKA_MENDEL_TIME = 1777343400"
definition MAX_TX_GAS :: nat where "MAX_TX_GAS = 16777216"
definition DEFAULT_EPOCH_LENGTH :: nat where "DEFAULT_EPOCH_LENGTH = 200"
definition LORENTZ_EPOCH_LENGTH :: nat where "LORENTZ_EPOCH_LENGTH = 500"
definition MAXWELL_EPOCH_LENGTH :: nat where "MAXWELL_EPOCH_LENGTH = 1000"
definition DEFAULT_BLOCK_INTERVAL_MS :: nat where "DEFAULT_BLOCK_INTERVAL_MS = 3000"
definition LORENTZ_BLOCK_INTERVAL_MS :: nat where "LORENTZ_BLOCK_INTERVAL_MS = 1500"
definition MAXWELL_BLOCK_INTERVAL_MS :: nat where "MAXWELL_BLOCK_INTERVAL_MS = 750"
definition FERMI_BLOCK_INTERVAL_MS :: nat where "FERMI_BLOCK_INTERVAL_MS = 450"
definition EXTRA_VANITY :: nat where "EXTRA_VANITY = 32"
definition EXTRA_SEAL :: nat where "EXTRA_SEAL = 65"
definition NEXT_FORK_HASH_SIZE :: nat where "NEXT_FORK_HASH_SIZE = 4"
definition VALIDATOR_BYTES :: nat where "VALIDATOR_BYTES = 68"
definition VALIDATOR_NUMBER_SIZE :: nat where "VALIDATOR_NUMBER_SIZE = 1"
definition MAX_TURN_LENGTH :: nat where "MAX_TURN_LENGTH = 64"
definition DIFF_IN_TURN :: nat where "DIFF_IN_TURN = 2"
definition DIFF_NO_TURN :: nat where "DIFF_NO_TURN = 1"
definition K_ANCESTOR_GENERATION_DEPTH :: nat where "K_ANCESTOR_GENERATION_DEPTH = 3"
definition PROVIDER_PROOF_LOOKBACK :: nat where "PROVIDER_PROOF_LOOKBACK = 112"
definition DEFAULT_LOOKBACK :: nat where "DEFAULT_LOOKBACK = 130"
definition DEFAULT_MAX_SYNC :: nat where "DEFAULT_MAX_SYNC = 16000"

lemmas fork_times = LONDON_BLOCK_def LUBAN_BLOCK_def PLATO_BLOCK_def BOHR_TIME_def
  LORENTZ_TIME_def MAXWELL_TIME_def FERMI_TIME_def PASTEUR_TIME_def

lemmas fork_lengths = DEFAULT_EPOCH_LENGTH_def LORENTZ_EPOCH_LENGTH_def MAXWELL_EPOCH_LENGTH_def
  DEFAULT_BLOCK_INTERVAL_MS_def LORENTZ_BLOCK_INTERVAL_MS_def MAXWELL_BLOCK_INTERVAL_MS_def
  FERMI_BLOCK_INTERVAL_MS_def

lemmas layout_sizes = EXTRA_VANITY_def EXTRA_SEAL_def NEXT_FORK_HASH_SIZE_def
  VALIDATOR_BYTES_def VALIDATOR_NUMBER_SIZE_def

section \<open>Fork parameters\<close>

datatype extra_data_version = PreLuban | Luban | Bohr

record fork_params =
  fp_name :: string
  fp_activation_block :: "nat option"
  fp_activation_time :: "nat option"
  fp_epoch_length :: nat
  fp_turn_length :: nat
  fp_block_interval_ms :: nat
  fp_extra_data_version :: extra_data_version

definition fermi_family :: "string \<Rightarrow> nat \<Rightarrow> fork_params" where
  "fermi_family name activation_time =
     \<lparr>fp_name = name, fp_activation_block = None, fp_activation_time = Some activation_time,
      fp_epoch_length = MAXWELL_EPOCH_LENGTH, fp_turn_length = 8,
      fp_block_interval_ms = FERMI_BLOCK_INTERVAL_MS, fp_extra_data_version = Bohr\<rparr>"

definition ancestor_generation_depth :: "nat \<Rightarrow> nat \<Rightarrow> nat" where
  "ancestor_generation_depth number timestamp =
     (if LONDON_BLOCK \<le> number \<and> FERMI_TIME \<le> timestamp then K_ANCESTOR_GENERATION_DEPTH else 1)"

text \<open>The bounds of the inclusive range.\<close>

definition attestation_target_window :: "nat \<Rightarrow> nat \<Rightarrow> nat \<times> nat" where
  "attestation_target_window number timestamp =
     (let parent = sat_sub number 1;
          depth = ancestor_generation_depth number timestamp
      in (sat_sub parent (sat_sub depth 1), parent))"

definition mainnet_current_fork :: fork_params where
  "mainnet_current_fork = fermi_family ''fermi'' FERMI_TIME"

definition params_at :: "nat \<Rightarrow> nat \<Rightarrow> fork_params" where
  "params_at number timestamp =
     (if PASTEUR_TIME \<le> timestamp then fermi_family ''pasteur'' PASTEUR_TIME
      else if FERMI_TIME \<le> timestamp then fermi_family ''fermi'' FERMI_TIME
      else if MAXWELL_TIME \<le> timestamp then
        \<lparr>fp_name = ''maxwell'', fp_activation_block = None,
         fp_activation_time = Some MAXWELL_TIME, fp_epoch_length = MAXWELL_EPOCH_LENGTH,
         fp_turn_length = 8, fp_block_interval_ms = MAXWELL_BLOCK_INTERVAL_MS,
         fp_extra_data_version = Bohr\<rparr>
      else if LORENTZ_TIME \<le> timestamp then
        \<lparr>fp_name = ''lorentz'', fp_activation_block = None,
         fp_activation_time = Some LORENTZ_TIME, fp_epoch_length = LORENTZ_EPOCH_LENGTH,
         fp_turn_length = 8, fp_block_interval_ms = LORENTZ_BLOCK_INTERVAL_MS,
         fp_extra_data_version = Bohr\<rparr>
      else if BOHR_TIME \<le> timestamp then
        \<lparr>fp_name = ''bohr'', fp_activation_block = None,
         fp_activation_time = Some BOHR_TIME, fp_epoch_length = DEFAULT_EPOCH_LENGTH,
         fp_turn_length = 4, fp_block_interval_ms = DEFAULT_BLOCK_INTERVAL_MS,
         fp_extra_data_version = Bohr\<rparr>
      else if LUBAN_BLOCK \<le> number then
        \<lparr>fp_name = (if PLATO_BLOCK \<le> number then ''plato'' else ''luban''),
         fp_activation_block = Some (if PLATO_BLOCK \<le> number then PLATO_BLOCK else LUBAN_BLOCK),
         fp_activation_time = None, fp_epoch_length = DEFAULT_EPOCH_LENGTH,
         fp_turn_length = 1, fp_block_interval_ms = DEFAULT_BLOCK_INTERVAL_MS,
         fp_extra_data_version = Luban\<rparr>
      else
        \<lparr>fp_name = ''legacy'', fp_activation_block = Some 0, fp_activation_time = None,
         fp_epoch_length = DEFAULT_EPOCH_LENGTH, fp_turn_length = 1,
         fp_block_interval_ms = DEFAULT_BLOCK_INTERVAL_MS, fp_extra_data_version = PreLuban\<rparr>)"

section \<open>Sealing set and lag arithmetic\<close>

definition mainnet_n_seal :: nat where
  "mainnet_n_seal = 21"

definition max_reorg_depth :: nat where
  "max_reorg_depth = mainnet_n_seal"

definition mainnet_min_distinct_sealers :: nat where
  "mainnet_min_distinct_sealers = min_distinct_sealers mainnet_n_seal"

definition miner_history_check_len :: "nat \<Rightarrow> nat \<Rightarrow> nat" where
  "miner_history_check_len n_seal turn_length =
     (if n_seal = 0 \<or> turn_length = 0 then 0
      else wrap_sub (wrap64 ((n_seal div 2 + 1) * turn_length)) 1)"

definition expected_safe_lag_blocks :: nat where
  "expected_safe_lag_blocks =
     wrap64 (mainnet_min_distinct_sealers * fp_turn_length mainnet_current_fork)"

definition safe_lag_seconds :: "nat \<Rightarrow> nat \<Rightarrow> nat" where
  "safe_lag_seconds lag_blocks block_interval_ms = sat_mul lag_blocks block_interval_ms div 1000"

definition expected_safe_lag_seconds :: nat where
  "expected_safe_lag_seconds =
     safe_lag_seconds expected_safe_lag_blocks (fp_block_interval_ms mainnet_current_fork)"

definition slo_safe_lag_blocks_max :: nat where
  "slo_safe_lag_blocks_max = expected_safe_lag_blocks"

definition safe_lag_within_slo :: "nat \<Rightarrow> bool" where
  "safe_lag_within_slo lag_blocks \<longleftrightarrow> lag_blocks \<le> slo_safe_lag_blocks_max"

definition pasteur_is_live :: "nat \<Rightarrow> bool" where
  "pasteur_is_live now_unix \<longleftrightarrow> PASTEUR_TIME \<le> now_unix"

section \<open>Facts the other components use\<close>

lemma epoch_length_pos [simp]: "0 < fp_epoch_length (params_at n t)"
  by (simp add: params_at_def fermi_family_def fork_lengths)

lemma turn_length_bounds: "0 < fp_turn_length (params_at n t)" "fp_turn_length (params_at n t) \<le> 8"
  by (simp_all add: params_at_def fermi_family_def)

lemma miner_history_check_len_eq:
  assumes "0 < n" "0 < t" "n < 2 ^ 32" "t \<le> 255"
  shows "miner_history_check_len n t = (n div 2 + 1) * t - 1"
proof -
  have "(n div 2 + 1) * t \<le> 2 ^ 32 * 255" using assms by (intro mult_mono) auto
  then have small: "(n div 2 + 1) * t < u64_max" by (simp add: u64_max_def)
  then have w: "wrap64 ((n div 2 + 1) * t) = (n div 2 + 1) * t"
    by (simp add: is_u64_def)
  have pos: "0 < (n div 2 + 1) * t" using assms by simp
  have "wrap_sub ((n div 2 + 1) * t) 1 = ((n div 2 + 1) * t + u64_max) mod (u64_max + 1)"
    by (simp add: wrap_sub_def wrap64_def)
  also have "(n div 2 + 1) * t + u64_max = ((n div 2 + 1) * t - 1) + (u64_max + 1)"
    using pos by linarith
  also have "\<dots> mod (u64_max + 1) = (n div 2 + 1) * t - 1"
    using small by (simp only: mod_add_self2) simp
  finally show ?thesis using assms w by (simp add: miner_history_check_len_def)
qed

lemma is_u64_miner_history_check_len: "is_u64 (miner_history_check_len n t)"
  by (simp add: miner_history_check_len_def wrap_sub_def) (simp add: is_u64_def)

lemma mainnet_min_distinct_sealers_eq [simp]: "mainnet_min_distinct_sealers = 15"
  by (simp add: mainnet_min_distinct_sealers_def mainnet_n_seal_def min_distinct_sealers_def wrap32_def)

end
