(* ===== verification/Extra.thy ===== *)
theory Extra
  imports Config
begin

text \<open>
  The Parlia \<open>extraData\<close> codec (\<open>helios-bsc-config/src/extra.rs\<close>): vanity, the epoch's
  validator records and turn length, the raw vote attestation, and the seal. The layout
  is specified by a printer, \<open>print_extra\<close>, and the parser is shown to be its inverse.
\<close>

section \<open>Definitions\<close>

datatype extra_error = TooShort | InvalidEpochValidators | MissingTurnLength

record sealing_validator =
  sv_address :: bytes
  sv_vote_key :: bytes

record parsed_extra =
  pe_vanity :: bytes
  pe_next_fork_hash :: bytes
  pe_validators :: "sealing_validator list"
  pe_turn_length :: "byte option"
  pe_attestation :: bytes
  pe_seal :: bytes

definition parse_pre_luban_epoch ::
    "bytes \<Rightarrow> bytes \<Rightarrow> bytes \<Rightarrow> bytes \<Rightarrow> (extra_error, parsed_extra) result" where
  "parse_pre_luban_epoch vanity next_fork_hash mid seal =
     (if length mid mod 20 \<noteq> 0 then Inl InvalidEpochValidators
      else
        let n = length mid div 20;
            validators = map (\<lambda>i. \<lparr>sv_address = subslice (i * 20) ((i + 1) * 20) mid,
                                    sv_vote_key = zeros 48\<rparr>) [0..<n]
        in Inr \<lparr>pe_vanity = vanity, pe_next_fork_hash = next_fork_hash,
                pe_validators = validators, pe_turn_length = None,
                pe_attestation = [], pe_seal = seal\<rparr>)"

definition parse_extra ::
    "bytes \<Rightarrow> extra_data_version \<Rightarrow> bool \<Rightarrow> (extra_error, parsed_extra) result" where
  "parse_extra extra version is_epoch =
     (if length extra < EXTRA_VANITY + EXTRA_SEAL then Inl TooShort
      else
        let vanity = take EXTRA_VANITY extra;
            next_fork_hash = drop (EXTRA_VANITY - NEXT_FORK_HASH_SIZE) vanity;
            seal = drop (length extra - EXTRA_SEAL) extra;
            mid = subslice EXTRA_VANITY (length extra - EXTRA_SEAL) extra
        in
        if \<not> is_epoch \<or> version = PreLuban then
          (if version = PreLuban \<and> is_epoch
           then parse_pre_luban_epoch vanity next_fork_hash mid seal
           else Inr \<lparr>pe_vanity = vanity, pe_next_fork_hash = next_fork_hash,
                     pe_validators = [], pe_turn_length = None,
                     pe_attestation = mid, pe_seal = seal\<rparr>)
        else if mid = [] then Inl InvalidEpochValidators
        else
          let n = unat (hd mid);
              start = VALIDATOR_NUMBER_SIZE;
              vals_end = start + n * VALIDATOR_BYTES;
              need = (if version = Bohr then vals_end + 1 else vals_end)
          in
          if n = 0 \<or> length mid < need then Inl InvalidEpochValidators
          else
            let validators =
                  map (\<lambda>i. let off = start + i * VALIDATOR_BYTES
                           in \<lparr>sv_address = subslice off (off + 20) mid,
                               sv_vote_key = subslice (off + 20) (off + VALIDATOR_BYTES) mid\<rparr>)
                      [0..<n];
                (turn_length, att_off) =
                  (if version = Bohr then (Some (mid ! vals_end), vals_end + 1)
                   else (None, vals_end))
            in Inr \<lparr>pe_vanity = vanity, pe_next_fork_hash = next_fork_hash,
                    pe_validators = validators, pe_turn_length = turn_length,
                    pe_attestation = drop att_off mid, pe_seal = seal\<rparr>)"

text \<open>The layout as a printer: the specification the parser is checked against.\<close>

definition print_validator :: "sealing_validator \<Rightarrow> bytes" where
  "print_validator v = sv_address v @ sv_vote_key v"

definition print_mid :: "extra_data_version \<Rightarrow> bool \<Rightarrow> parsed_extra \<Rightarrow> bytes" where
  "print_mid version is_epoch pe =
     (if \<not> is_epoch then pe_attestation pe
      else case version of
        PreLuban \<Rightarrow> concat (map sv_address (pe_validators pe))
      | Luban \<Rightarrow> word_of_nat (length (pe_validators pe))
                  # concat (map print_validator (pe_validators pe)) @ pe_attestation pe
      | Bohr \<Rightarrow> word_of_nat (length (pe_validators pe))
                  # concat (map print_validator (pe_validators pe))
                  @ (case pe_turn_length pe of None \<Rightarrow> [] | Some t \<Rightarrow> [t]) @ pe_attestation pe)"

definition print_extra :: "extra_data_version \<Rightarrow> bool \<Rightarrow> parsed_extra \<Rightarrow> bytes" where
  "print_extra version is_epoch pe =
     pe_vanity pe @ print_mid version is_epoch pe @ pe_seal pe"

text \<open>The values a layout can carry.\<close>

definition wf_extra :: "extra_data_version \<Rightarrow> bool \<Rightarrow> parsed_extra \<Rightarrow> bool" where
  "wf_extra version is_epoch pe \<longleftrightarrow>
     length (pe_vanity pe) = 32 \<and> pe_next_fork_hash pe = drop 28 (pe_vanity pe) \<and>
     length (pe_seal pe) = 65 \<and>
     list_all (\<lambda>v. length (sv_address v) = 20 \<and> length (sv_vote_key v) = 48) (pe_validators pe) \<and>
     (if \<not> is_epoch then pe_validators pe = [] \<and> pe_turn_length pe = None
      else case version of
        PreLuban \<Rightarrow> pe_turn_length pe = None \<and> pe_attestation pe = [] \<and>
                     list_all (\<lambda>v. sv_vote_key v = zeros 48) (pe_validators pe)
      | Luban \<Rightarrow> pe_turn_length pe = None \<and>
                  0 < length (pe_validators pe) \<and> length (pe_validators pe) < 256
      | Bohr \<Rightarrow> pe_turn_length pe \<noteq> None \<and>
                  0 < length (pe_validators pe) \<and> length (pe_validators pe) < 256)"

section \<open>Parsing inverts printing\<close>

lemma validators_of_print:
  assumes "list_all (\<lambda>v. length (sv_address v) = 20 \<and> length (sv_vote_key v) = 48) vs"
  shows "map (\<lambda>i. \<lparr>sv_address = subslice (1 + i * 68) (1 + i * 68 + 20) (c # concat (map print_validator vs) @ ys),
              sv_vote_key = subslice (1 + i * 68 + 20) (1 + i * 68 + 68) (c # concat (map print_validator vs) @ ys)\<rparr>)
           [0..<length vs] = vs"
proof (rule nth_equalityI)
  let ?mid = "c # concat (map print_validator vs) @ ys"
  fix i assume "i < length (map (\<lambda>i. \<lparr>sv_address = subslice (1 + i * 68) (1 + i * 68 + 20) ?mid,
              sv_vote_key = subslice (1 + i * 68 + 20) (1 + i * 68 + 68) ?mid\<rparr>) [0..<length vs])"
  then have i: "i < length vs" by simp
  have v: "length (sv_address (vs ! i)) = 20" "length (sv_vote_key (vs ! i)) = 48"
    using assms i by (simp_all add: list_all_length)
  have s: "subslice (i * 68) (i * 68 + 68) (concat (map print_validator vs) @ ys) = print_validator (vs ! i)"
    using assms i by (intro slice_concat) (auto simp: print_validator_def list_all_iff)
  have a: "subslice (1 + i * 68) (1 + i * 68 + 20) ?mid = take 20 (print_validator (vs ! i))"
    unfolding s [symmetric] by (simp add: take_slice subslice_Cons add.commute)
  have "subslice (1 + i * 68 + 20) (1 + i * 68 + 68) ?mid = drop 20 (print_validator (vs ! i))"
    unfolding s [symmetric] by (simp add: drop_slice subslice_Cons add.commute)
  with a v i show "map (\<lambda>i. \<lparr>sv_address = subslice (1 + i * 68) (1 + i * 68 + 20) ?mid,
              sv_vote_key = subslice (1 + i * 68 + 20) (1 + i * 68 + 68) ?mid\<rparr>) [0..<length vs] ! i = vs ! i"
    by (simp add: print_validator_def)
qed simp

lemma addresses_of_print:
  assumes "list_all (\<lambda>v. length (sv_address v) = 20) vs" "list_all (\<lambda>v. sv_vote_key v = zeros 48) vs"
  shows "map (\<lambda>i. \<lparr>sv_address = subslice (i * 20) ((i + 1) * 20) (concat (map sv_address vs)),
              sv_vote_key = zeros 48\<rparr>) [0..<length vs] = vs"
proof (rule nth_equalityI)
  fix i assume "i < length (map (\<lambda>i. \<lparr>sv_address = subslice (i * 20) ((i + 1) * 20) (concat (map sv_address vs)),
              sv_vote_key = zeros 48\<rparr>) [0..<length vs])"
  then have i: "i < length vs" by simp
  have "subslice (i * 20) (i * 20 + 20) (concat (map sv_address vs) @ []) = sv_address (vs ! i)"
    using assms i by (intro slice_concat) (auto simp: list_all_iff)
  moreover have "sv_vote_key (vs ! i) = zeros 48" using assms i by (simp add: list_all_length)
  ultimately show "map (\<lambda>i. \<lparr>sv_address = subslice (i * 20) ((i + 1) * 20) (concat (map sv_address vs)),
              sv_vote_key = zeros 48\<rparr>) [0..<length vs] ! i = vs ! i"
    using i by (simp add: add.commute)
qed simp

lemma length_concat_const: "(\<And>x. x \<in> set xs \<Longrightarrow> length (f x) = k) \<Longrightarrow> length (concat (map f xs)) = length xs * k"
  by (induction xs) simp_all

lemma length_print_validators:
  "list_all (\<lambda>v. length (sv_address v) = 20 \<and> length (sv_vote_key v) = 48) vs \<Longrightarrow>
     length (concat (map print_validator vs)) = length vs * 68"
  by (rule length_concat_const) (simp add: print_validator_def list_all_iff)

text \<open>The parser applied to vanity, a middle part and a seal.\<close>

lemma parse_extra_split:
  assumes "length v = 32" "length s = 65"
  shows "length (v @ m @ s) \<ge> EXTRA_VANITY + EXTRA_SEAL"
    and "take EXTRA_VANITY (v @ m @ s) = v"
    and "drop (length (v @ m @ s) - EXTRA_SEAL) (v @ m @ s) = s"
    and "subslice EXTRA_VANITY (length (v @ m @ s) - EXTRA_SEAL) (v @ m @ s) = m"
  using assms by (simp_all add: layout_sizes subslice_def)

lemma parse_mid:
  assumes "length v = 32" "length s = 65"
  shows "parse_extra (v @ m @ s) version is_epoch =
    (if \<not> is_epoch \<or> version = PreLuban then
       (if version = PreLuban \<and> is_epoch then parse_pre_luban_epoch v (drop 28 v) m s
        else Inr \<lparr>pe_vanity = v, pe_next_fork_hash = drop 28 v, pe_validators = [],
                  pe_turn_length = None, pe_attestation = m, pe_seal = s\<rparr>)
     else if m = [] then Inl InvalidEpochValidators
     else
       let n = unat (hd m); vals_end = 1 + n * 68
       in if n = 0 \<or> length m < (if version = Bohr then vals_end + 1 else vals_end)
          then Inl InvalidEpochValidators
          else Inr \<lparr>pe_vanity = v, pe_next_fork_hash = drop 28 v,
                 pe_validators = map (\<lambda>i. \<lparr>sv_address = subslice (1 + i * 68) (1 + i * 68 + 20) m,
                    sv_vote_key = subslice (1 + i * 68 + 20) (1 + i * 68 + 68) m\<rparr>) [0..<n],
                 pe_turn_length = (if version = Bohr then Some (m ! vals_end) else None),
                 pe_attestation = drop (if version = Bohr then vals_end + 1 else vals_end) m,
                 pe_seal = s\<rparr>)"
proof -
  note split = parse_extra_split [OF assms]
  have "\<not> length (v @ m @ s) < EXTRA_VANITY + EXTRA_SEAL" using split(1) [of m] by linarith
  then show ?thesis
    unfolding parse_extra_def Let_def split(2-4)
    by (simp add: layout_sizes)
qed

lemma parse_extra_decompose:
  assumes "parse_extra b version is_epoch = Inr pe"
  obtains v m s where "b = v @ m @ s" "length v = 32" "length s = 65"
proof
  have len: "97 \<le> length b"
    using assms by (auto simp: parse_extra_def layout_sizes Let_def split: if_splits)
  show "b = take 32 b @ subslice 32 (length b - 65) b @ drop (length b - 65) b"
    using len slice_append [of 0 32 "length b - 65" b] by (simp flip: append_assoc)
  show "length (take 32 b) = 32" "length (drop (length b - 65) b) = 65" using len by simp_all
qed

lemma concat_print_validators:
  assumes "1 + n * 68 \<le> length m"
  shows "concat (map print_validator (map (\<lambda>i. \<lparr>sv_address = subslice (1 + i * 68) (1 + i * 68 + 20) m,
           sv_vote_key = subslice (1 + i * 68 + 20) (1 + i * 68 + 68) m\<rparr>) [0..<n]))
         = subslice 1 (1 + n * 68) m"
  using concat_slices [of 1 68 m n]
  by (simp add: print_validator_def comp_def slice_append)

lemma wf_validators:
  assumes "1 + n * 68 \<le> length m"
  shows "list_all (\<lambda>v. length (sv_address v) = 20 \<and> length (sv_vote_key v) = 48)
     (map (\<lambda>i. \<lparr>sv_address = subslice (1 + i * 68) (1 + i * 68 + 20) m,
           sv_vote_key = subslice (1 + i * 68 + 20) (1 + i * 68 + 68) m\<rparr>) [0..<n])"
proof -
  have "20 \<le> length m - Suc (i * 68) \<and> 48 \<le> length m - (21 + i * 68)" if "i < n" for i
  proof -
    have "(i + 1) * 68 \<le> n * 68" using that by (intro mult_right_mono) auto
    with assms show ?thesis by arith
  qed
  then show ?thesis by (auto simp: list_all_iff)
qed

lemma mid_reassemble:
  assumes "m \<noteq> []" "k \<le> length m" "1 \<le> k"
  shows "hd m # subslice 1 k m @ drop k m = m"
proof -
  have "subslice 0 1 m @ subslice 1 k m = subslice 0 k m" using assms by (intro slice_append) auto
  moreover have "subslice 0 1 m = [hd m]" using assms by (cases m) auto
  ultimately have "hd m # subslice 1 k m @ drop k m = take k m @ drop k m" by (metis append_Cons append_Nil append_assoc slice_0)
  then show ?thesis by simp
qed

text \<open>
  One direction of the \<open>extraData\<close> codec: for every version and for epoch
  and ordinary blocks alike, parsing what the layout prints gives back the vanity, the
  validator records in order, the turn length, the attestation bytes and the seal.
\<close>

lemma parse_extra_print:
  assumes wf: "wf_extra version is_epoch pe"
  shows "parse_extra (print_extra version is_epoch pe) version is_epoch = Inr pe"
proof -
  have len: "length (pe_vanity pe) = 32" "length (pe_seal pe) = 65"
    and vals: "list_all (\<lambda>v. length (sv_address v) = 20 \<and> length (sv_vote_key v) = 48) (pe_validators pe)"
    and nfh: "pe_next_fork_hash pe = drop 28 (pe_vanity pe)"
    using wf by (simp_all add: wf_extra_def)
  note lenv = length_print_validators [OF vals]
  show ?thesis
  proof (cases is_epoch)
    case False
    then show ?thesis
      using wf nfh unfolding print_extra_def parse_mid [OF len] by (simp add: print_mid_def wf_extra_def)
  next
    case True
    show ?thesis
    proof (cases version)
      case PreLuban
      have la: "length (concat (map sv_address (pe_validators pe))) = length (pe_validators pe) * 20"
        using vals by (intro length_concat_const) (auto simp: list_all_iff)
      have "list_all (\<lambda>v. length (sv_address v) = 20) (pe_validators pe)"
        using vals by (simp add: list_all_iff)
      from addresses_of_print [OF this] show ?thesis
        using PreLuban True wf nfh la
        unfolding print_extra_def parse_mid [OF len] by (simp add: print_mid_def wf_extra_def
            parse_pre_luban_epoch_def)
    next
      case Luban
      show ?thesis
        using Luban True wf nfh lenv validators_of_print [OF vals]
        unfolding print_extra_def parse_mid [OF len] by (simp add: print_mid_def wf_extra_def
            unat_word_of_nat_byte Let_def)
    next
      case Bohr
      then obtain t where t: "pe_turn_length pe = Some t" using True wf by (auto simp: wf_extra_def)
      show ?thesis
        using Bohr True wf nfh lenv validators_of_print [OF vals] t
        unfolding print_extra_def parse_mid [OF len] by (simp add: print_mid_def wf_extra_def
            unat_word_of_nat_byte Let_def nth_append)
    qed
  qed
qed

text \<open>An epoch header with one validator and turn length 8.\<close>

definition sample_extra :: parsed_extra where
  "sample_extra = \<lparr>pe_vanity = zeros 32, pe_next_fork_hash = zeros 4,
     pe_validators = [\<lparr>sv_address = zeros 20, sv_vote_key = zeros 48\<rparr>],
     pe_turn_length = Some 8, pe_attestation = [], pe_seal = zeros 65\<rparr>"

lemma wf_sample_extra: "wf_extra Bohr True sample_extra"
  by (simp add: wf_extra_def sample_extra_def) (simp add: zeros_def)

lemma parse_sample_extra:
  "wf_extra Bohr True sample_extra \<and>
   parse_extra (print_extra Bohr True sample_extra) Bohr True = Inr sample_extra"
  using wf_sample_extra parse_extra_print [OF wf_sample_extra] by simp

lemma parse_extra_reprint:
  assumes ok: "parse_extra b version is_epoch = Inr pe"
  shows "print_extra version is_epoch pe = b \<and> wf_extra version is_epoch pe"
proof -
  obtain v m s where b: "b = v @ m @ s" and len: "length v = 32" "length s = 65"
    using ok by (rule parse_extra_decompose)
  note pm = ok [unfolded b parse_mid [OF len]]
  let ?vs = "\<lambda>n. map (\<lambda>i. \<lparr>sv_address = subslice (1 + i * 68) (1 + i * 68 + 20) m,
           sv_vote_key = subslice (1 + i * 68 + 20) (1 + i * 68 + 68) m\<rparr>) [0..<n]"
  have "print_extra version is_epoch pe = b \<and> wf_extra version is_epoch pe"
  proof (cases "is_epoch \<and> version \<noteq> PreLuban")
    case False
    show ?thesis
    proof (cases is_epoch)
      case True
      with False pm have m: "length m mod 20 = 0"
        and pe: "pe = \<lparr>pe_vanity = v, pe_next_fork_hash = drop 28 v,
          pe_validators = map (\<lambda>i. \<lparr>sv_address = subslice (i * 20) ((i + 1) * 20) m, sv_vote_key = zeros 48\<rparr>)
             [0..<length m div 20], pe_turn_length = None, pe_attestation = [], pe_seal = s\<rparr>"
        by (auto simp: parse_pre_luban_epoch_def Let_def split: if_splits)
      have k: "length m div 20 * 20 = length m" using m by auto
      have "concat (map sv_address (pe_validators pe)) = m"
        using concat_slices [of 0 20 m "length m div 20"] k by (simp add: pe comp_def add.commute)
      moreover have "(i + 1) * 20 \<le> length m" if "i < length m div 20" for i
        using that k by (metis Suc_eq_plus1 Suc_leI mult_le_mono1)
      ultimately show ?thesis using True False len b
        by (auto simp: print_extra_def print_mid_def wf_extra_def pe list_all_iff min_def)
    next
      case False
      with pm len b show ?thesis
        by (auto simp: print_extra_def print_mid_def wf_extra_def)
    qed
  next
    case True
    let ?n = "unat (hd m)" and ?k = "1 + unat (hd m) * 68"
    let ?e = "if version = Bohr then ?k + 1 else ?k"
    have m: "m \<noteq> []" "?n \<noteq> 0" "?e \<le> length m"
      and pe: "pe = \<lparr>pe_vanity = v, pe_next_fork_hash = drop 28 v, pe_validators = ?vs ?n,
         pe_turn_length = (if version = Bohr then Some (m ! ?k) else None),
         pe_attestation = drop ?e m, pe_seal = s\<rparr>"
      using pm True by (auto simp: Let_def split: if_splits)
    have km: "?k \<le> length m" using m(3) by (simp split: if_splits)
    have r: "hd m # subslice 1 ?k m @ drop ?k m = m"
      using m km by (intro mid_reassemble) auto
    have d: "(if version = Bohr then [m ! ?k] else []) @ drop ?e m = drop ?k m"
      using m(3) by (auto simp: Cons_nth_drop_Suc)
    have n: "?n < 256" by (rule unat_byte_less)
    have "print_mid version is_epoch pe = hd m # subslice 1 ?k m @ (if version = Bohr then [m ! ?k] else []) @ drop ?e m"
      using True concat_print_validators [OF km]
      by (cases version) (simp_all add: print_mid_def pe)
    also have "\<dots> = m" using r d by simp
    finally have pr: "print_extra version is_epoch pe = b"
      by (simp add: print_extra_def pe b)
    have "wf_extra version is_epoch pe"
      using True len wf_validators [OF km] n m(2) by (cases version) (auto simp: wf_extra_def pe)
    with pr show ?thesis by simp
  qed
  then show ?thesis by simp
qed

text \<open>
  C40. The \<open>extraData\<close> codec is lossless both ways: the parser accepts exactly the printed forms of
  well-formed results (record sizes, one to 255 validators on an epoch block, a turn length
  exactly from Bohr on) and returns the result that was printed, for every version and for
  epoch and ordinary blocks alike. So two byte strings with the same parse are equal and no byte
  of a header is ignored.
\<close>

theorem parse_extra_iff:
  "parse_extra b version is_epoch = Inr pe \<longleftrightarrow> wf_extra version is_epoch pe \<and> print_extra version is_epoch pe = b"
  using parse_extra_reprint parse_extra_print by blast

end
