(* ===== verification/Rlp_Util.thy ===== *)
theory Rlp_Util
  imports Prelude
begin

text \<open>
  The RLP encoder of the consensus crate (\<open>rlp_util.rs\<close>), RLP items as a datatype, and the
  interface \<open>rlp_decoder\<close> that both decoders of the program (the strict reader of vote
  attestations and the reader of trie nodes) implement: reading back an encoding and
  accepting nothing but encodings are proved once, from the laws of the interface.
\<close>

section \<open>The encoder\<close>

definition len_be :: "nat \<Rightarrow> bytes" where
  "len_be len =
     (let be = to_be_bytes 8 len
      in if list_all (\<lambda>b. b = 0) be then drop 7 be else strip_zeros be)"

definition encode_string :: "bytes \<Rightarrow> bytes" where
  "encode_string data =
     (if length data \<le> 55 then (0x80 + word_of_nat (length data)) # data
      else let lenb = len_be (length data)
           in (0xb7 + word_of_nat (length lenb)) # lenb @ data)"

definition encode_bytes :: "bytes \<Rightarrow> bytes" where
  "encode_bytes data =
     (if length data = 1 \<and> hd data < 0x80 then [hd data] else encode_string data)"

text \<open>The argument is a \<open>u128\<close>; the callers pass widened \<open>u64\<close> values.\<close>

definition encode_uint :: "nat \<Rightarrow> bytes" where
  "encode_uint n =
     (if n = 0 then [0x80] else encode_bytes (strip_zeros (to_be_bytes 16 n)))"

definition encode_list :: "bytes list \<Rightarrow> bytes" where
  "encode_list items =
     (let payload = concat items
      in if length payload \<le> 55 then (0xc0 + word_of_nat (length payload)) # payload
         else let lenb = len_be (length payload)
              in (0xf7 + word_of_nat (length lenb)) # lenb @ payload)"

section \<open>Items\<close>

datatype rlp = RBytes bytes | RList "rlp list"

fun rlp_encode :: "rlp \<Rightarrow> bytes" where
  "rlp_encode (RBytes b) = encode_bytes b"
| "rlp_encode (RList xs) = encode_list (map rlp_encode xs)"

fun rlp_depth :: "rlp \<Rightarrow> nat" where
  "rlp_depth (RBytes b) = 0"
| "rlp_depth (RList xs) = Suc (foldr (\<lambda>x n. max (rlp_depth x) n) xs 0)"

text \<open>Payloads whose length fits the eight-byte length prefix.\<close>

fun rlp_small :: "rlp \<Rightarrow> bool" where
  "rlp_small (RBytes b) \<longleftrightarrow> is_u64 (length b)"
| "rlp_small (RList xs) \<longleftrightarrow>
     is_u64 (length (concat (map rlp_encode xs))) \<and> list_all rlp_small xs"

text \<open>What a header names: the payload and whether it is a list.\<close>

definition frame :: "bool \<Rightarrow> bytes \<Rightarrow> bytes" where
  "frame is_list payload = (if is_list then encode_list [payload] else encode_bytes payload)"

section \<open>Facts about the encoder\<close>

lemma encode_list_frame: "encode_list items = frame True (concat items)"
  by (simp add: frame_def encode_list_def)

lemma rlp_encode_RList: "rlp_encode (RList xs) = frame True (concat (map rlp_encode xs))"
  by (simp add: encode_list_frame)

lemma rlp_encode_RBytes: "rlp_encode (RBytes b) = frame False b"
  by (simp add: frame_def)

lemma len_be_pos:
  assumes "0 < n" "is_u64 n"
  shows "len_be n = strip_zeros (to_be_bytes 8 n)" "be_nat (len_be n) = n"
    "len_be n \<noteq> []" "length (len_be n) \<le> 8" "hd (len_be n) \<noteq> 0"
proof -
  have n: "n < 256 ^ 8" using assms by (simp add: is_u64_iff)
  then have val: "be_nat (to_be_bytes 8 n) = n" by (simp add: be_nat_to_be_bytes)
  have "\<not> list_all (\<lambda>b. b = 0) (to_be_bytes 8 n)"
  proof
    assume "list_all (\<lambda>b. b = 0) (to_be_bytes 8 n)"
    then have "strip_zeros (to_be_bytes 8 n) = []"
      by (simp add: strip_zeros_def list_all_iff)
    with val assms show False by (simp add: be_nat_eq_0_iff [symmetric])
  qed
  then show eq: "len_be n = strip_zeros (to_be_bytes 8 n)" by (simp add: len_be_def Let_def)
  show "be_nat (len_be n) = n" by (simp add: eq val)
  then show ne: "len_be n \<noteq> []" using assms by auto
  show "length (len_be n) \<le> 8" using length_strip_zeros [of "to_be_bytes 8 n"] by (simp add: eq)
  show "hd (len_be n) \<noteq> 0" using ne strip_zeros_hd unfolding eq by (metis list.exhaust_sel)
qed

lemma len_be_of_canonical:
  assumes "bs \<noteq> []" "hd bs \<noteq> 0" "length bs \<le> 8"
  shows "len_be (be_nat bs) = bs" "is_u64 (be_nat bs)" "0 < be_nat bs"
proof -
  have sz: "strip_zeros bs = bs" using assms by (simp add: strip_zeros_id)
  have "be_nat bs < 256 ^ length bs" by (rule be_nat_bound)
  also have "\<dots> \<le> 256 ^ 8" using assms by (intro power_increasing) auto
  finally show u: "is_u64 (be_nat bs)" by (simp add: is_u64_iff)
  show pos: "0 < be_nat bs" using sz assms(1) be_nat_eq_0_iff [of bs] by auto
  have "strip_zeros (len_be (be_nat bs)) = len_be (be_nat bs)"
    using len_be_pos(5) [OF pos u] by (intro strip_zeros_id) simp
  from be_nat_inj_stripped [OF len_be_pos(2) [OF pos u] this sz]
  show "len_be (be_nat bs) = bs" .
qed

text \<open>The minimal big-endian bytes of a \<open>u64\<close>.\<close>

definition uint_bytes :: "nat \<Rightarrow> bytes" where
  "uint_bytes n = strip_zeros (to_be_bytes 8 n)"

lemma uint_bytes:
  assumes "is_u64 n"
  shows "be_nat (uint_bytes n) = n" "length (uint_bytes n) \<le> 8"
    "strip_zeros (uint_bytes n) = uint_bytes n"
  using assms length_strip_zeros [of "to_be_bytes 8 n"]
  by (simp_all add: uint_bytes_def be_nat_to_be_bytes is_u64_iff)

lemma uint_bytes_be_nat:
  assumes "length bs \<le> 8" "strip_zeros bs = bs"
  shows "uint_bytes (be_nat bs) = bs" "is_u64 (be_nat bs)"
proof -
  have "be_nat bs < 256 ^ length bs" by (rule be_nat_bound)
  also have "\<dots> \<le> 256 ^ 8" using assms by (intro power_increasing) auto
  finally show u: "is_u64 (be_nat bs)" by (simp add: is_u64_iff)
  show "uint_bytes (be_nat bs) = bs"
    using be_nat_inj_stripped [OF _ uint_bytes(3) [OF u] assms(2)] uint_bytes(1) [OF u] by simp
qed

lemma encode_uint_eq:
  assumes "is_u64 n"
  shows "encode_uint n = encode_bytes (uint_bytes n)"
proof -
  have "n < 256 ^ 8" using assms by (simp add: is_u64_iff)
  then have "n < 256 ^ 16" by (rule less_le_trans) simp
  then have "strip_zeros (to_be_bytes 16 n) = uint_bytes n"
    using assms by (simp add: uint_bytes_def strip_zeros_eq_iff be_nat_to_be_bytes is_u64_iff)
  moreover have "uint_bytes 0 = []"
    using be_nat_eq_0_iff [of "to_be_bytes 8 0"] by (simp add: uint_bytes_def be_nat_to_be_bytes)
  ultimately show ?thesis
    by (auto simp: encode_uint_def encode_bytes_def encode_string_def)
qed

text \<open>The four shapes of a frame, with the prefix byte as a number.\<close>

lemma prefix_byte: "k + n < 256 \<Longrightarrow> unat (word_of_nat k + word_of_nat n :: byte) = k + n"
proof -
  assume "k + n < 256"
  have "word_of_nat k + word_of_nat n = (word_of_nat (k + n) :: byte)" by simp
  with \<open>k + n < 256\<close> show ?thesis using unat_word_of_nat_byte [of "k + n"] by simp
qed

lemma frame_cases:
  assumes "is_u64 (length p)"
  obtains
    (byte) b where "\<not> l" "p = [b]" "unat b < 0x80" "frame l p = [b]"
  | (short) c where "\<not> (\<not> l \<and> length p = 1 \<and> unat (hd p) < 0x80)" "length p \<le> 55"
      "unat c = (if l then 0xc0 else 0x80) + length p" "frame l p = c # p"
  | (long) c bs where "55 < length p" "bs = len_be (length p)"
      "unat c = (if l then 0xf7 else 0xb7) + length bs" "frame l p = c # bs @ p"
proof (cases "\<not> l \<and> length p = 1 \<and> unat (hd p) < 0x80")
  case True
  then obtain b where p: "p = [b]" by (auto simp: length_Suc_conv)
  with True have "frame l p = [b]" "unat b < 0x80"
    by (simp_all add: frame_def encode_bytes_def word_less_nat_alt)
  with True p that(1) show thesis by blast
next
  case False
  then have f: "frame l p = (if l then encode_list [p] else encode_string p)"
    by (auto simp: frame_def encode_bytes_def word_less_nat_alt)
  show thesis
  proof (cases "length p \<le> 55")
    case True
    let ?k = "if l then 0xc0 else 0x80 :: nat"
    have "unat (word_of_nat ?k + word_of_nat (length p) :: byte) = ?k + length p"
      using True by (intro prefix_byte) auto
    moreover have "frame l p = (word_of_nat ?k + word_of_nat (length p)) # p"
      using True by (auto simp: f encode_list_def encode_string_def)
    ultimately show thesis using that(2) False True by blast
  next
    case long: False
    let ?bs = "len_be (length p)" and ?k = "if l then 0xf7 else 0xb7 :: nat"
    have "0 < length p" using long by linarith
    then have "length ?bs \<le> 8" using assms by (rule len_be_pos(4))
    then have "unat (word_of_nat ?k + word_of_nat (length ?bs) :: byte) = ?k + length ?bs"
      by (intro prefix_byte) auto
    moreover have "frame l p = (word_of_nat ?k + word_of_nat (length ?bs)) # ?bs @ p"
      using long by (auto simp: f encode_list_def encode_string_def Let_def)
    ultimately show thesis using that(3) long by force
  qed
qed

lemma frame_length: "is_u64 (length p) \<Longrightarrow> length p \<le> length (frame l p) \<and> 0 < length (frame l p)"
  by (erule frame_cases [of p l]) auto

lemma frame_list_length: "is_u64 (length p) \<Longrightarrow> length p < length (frame True p)"
  by (erule frame_cases [of p True]) auto

lemma foldr_max_le: "foldr (\<lambda>x n. max (f x) n) xs 0 \<le> (k :: nat) \<longleftrightarrow> list_all (\<lambda>x. f x \<le> k) xs"
  by (induction xs) auto

lemma rlp_depth_RList:
  "rlp_depth (RList xs) + d \<le> m \<longleftrightarrow> Suc d \<le> m \<and> list_all (\<lambda>x. rlp_depth x + Suc d \<le> m) xs"
proof -
  have "rlp_depth (RList xs) + d \<le> m \<longleftrightarrow>
      Suc d \<le> m \<and> foldr (\<lambda>x n. max (rlp_depth x) n) xs 0 \<le> m - Suc d"
    by auto
  also have "\<dots> \<longleftrightarrow> Suc d \<le> m \<and> list_all (\<lambda>x. rlp_depth x \<le> m - Suc d) xs"
    by (simp only: foldr_max_le)
  also have "\<dots> \<longleftrightarrow> Suc d \<le> m \<and> list_all (\<lambda>x. rlp_depth x + Suc d \<le> m) xs"
    by (auto simp: list_all_iff)
  finally show ?thesis .
qed

section \<open>The interface of the two decoders\<close>

text \<open>
  \<open>header\<close> splits the first item off a buffer without descending into it; \<open>dlist\<close> reads a
  list payload at a nesting depth; \<open>top\<close> reads exactly one item.
\<close>

locale rlp_decoder =
  fixes header :: "bytes \<Rightarrow> ('e, bool \<times> bytes \<times> bytes) result"
    and dlist :: "bytes \<Rightarrow> nat \<Rightarrow> ('e, rlp list) result"
    and max_depth :: nat
  assumes header_frame: "is_u64 (length p) \<Longrightarrow> header (frame l p @ rest) = Inr (l, p, rest)"
    and header_sound: "header bs = Inr (l, p, rest) \<Longrightarrow> bs = frame l p @ rest \<and> is_u64 (length p)"
    and dlist_deep: "max_depth < d \<Longrightarrow> \<not> is_ok (dlist bs d)"
    and dlist_Nil: "d \<le> max_depth \<Longrightarrow> dlist [] d = Inr []"
    and dlist_step: "d \<le> max_depth \<Longrightarrow> bs \<noteq> [] \<Longrightarrow>
      dlist bs d =
        rbind (header bs) (\<lambda>(l, p, rest).
        rbind (if l then map_ok RList (dlist p (Suc d)) else Inr (RBytes p)) (\<lambda>x.
        map_ok (\<lambda>xs. x # xs) (dlist rest d)))"
begin

lemma dlist_depth: "dlist bs d = Inr xs \<Longrightarrow> d \<le> max_depth"
  using dlist_deep [of d bs] by (cases "max_depth < d") auto

lemma dlist_sound:
  "dlist bs d = Inr xs \<Longrightarrow>
     concat (map rlp_encode xs) = bs \<and> list_all rlp_small xs \<and>
     list_all (\<lambda>x. rlp_depth x + d \<le> max_depth) xs"
proof (induction "length bs" arbitrary: bs d xs rule: less_induct)
  case less
  have d: "d \<le> max_depth" using less.prems by (rule dlist_depth)
  show ?case
  proof (cases "bs = []")
    case True
    then show ?thesis using less.prems dlist_Nil [OF d] by simp
  next
    case False
    then obtain l p rest x ys where h: "header bs = Inr (l, p, rest)"
      and x: "(if l then map_ok RList (dlist p (Suc d)) else Inr (RBytes p)) = Inr x"
      and ys: "dlist rest d = Inr ys" and xs: "xs = x # ys"
      using less.prems dlist_step [OF d False] by (auto simp: res_simps)
    have bs: "bs = frame l p @ rest" and small: "is_u64 (length p)"
      using header_sound [OF h] by auto
    have lp: "length p \<le> length (frame l p)" "0 < length (frame l p)"
      using frame_length [OF small] by auto
    have tail: "concat (map rlp_encode ys) = rest \<and> list_all rlp_small ys \<and>
        list_all (\<lambda>x. rlp_depth x + d \<le> max_depth) ys"
      using lp ys by (intro less.hyps) (simp_all add: bs)
    have "rlp_encode x = frame l p \<and> rlp_small x \<and> rlp_depth x + d \<le> max_depth"
    proof (cases l)
      case True
      then obtain zs where zs: "dlist p (Suc d) = Inr zs" and xz: "x = RList zs"
        using x by (auto simp: res_simps)
      have "length p < length bs" using frame_list_length [OF small] True by (simp add: bs)
      from less.hyps [OF this zs] show ?thesis
        using True small dlist_depth [OF zs]
        by (simp add: xz encode_list_frame rlp_depth_RList del: rlp_depth.simps)
    next
      case False
      then show ?thesis using x small d by (auto simp: frame_def)
    qed
    with tail show ?thesis by (simp add: xs bs)
  qed
qed

lemma dlist_complete:
  "d \<le> max_depth \<Longrightarrow> list_all rlp_small xs \<Longrightarrow> list_all (\<lambda>x. rlp_depth x + d \<le> max_depth) xs \<Longrightarrow>
     dlist (concat (map rlp_encode xs)) d = Inr xs"
proof (induction "length (concat (map rlp_encode xs))" arbitrary: xs d rule: less_induct)
  case less
  show ?case
  proof (cases xs)
    case Nil
    then show ?thesis using less.prems dlist_Nil by simp
  next
    case (Cons x ys)
    obtain l p where xp: "rlp_encode x = frame l p" and small: "is_u64 (length p)"
      and px: "(if l then map_ok RList (dlist p (Suc d)) else Inr (RBytes p)) = Inr x"
    proof (cases x)
      case (RBytes b)
      then show thesis using that [of False b] less.prems Cons by (simp add: frame_def)
    next
      case (RList zs)
      let ?p = "concat (map rlp_encode zs)"
      have u: "is_u64 (length ?p)" using less.prems Cons RList by simp
      have "length ?p < length (concat (map rlp_encode xs))"
        using frame_list_length [OF u] by (simp add: Cons RList encode_list_frame)
      moreover have "Suc d \<le> max_depth" "list_all (\<lambda>x. rlp_depth x + Suc d \<le> max_depth) zs"
        using less.prems Cons RList rlp_depth_RList [of zs d max_depth]
        by (auto simp del: rlp_depth.simps)
      ultimately have "dlist ?p (Suc d) = Inr zs"
        using less.prems Cons RList by (intro less.hyps) auto
      then show thesis using that [of True ?p] u by (simp add: RList encode_list_frame)
    qed
    have ne: "rlp_encode x \<noteq> []" using frame_length [OF small, of l] xp by auto
    have "length (concat (map rlp_encode ys)) < length (concat (map rlp_encode xs))"
      using ne by (simp add: Cons)
    then have "dlist (concat (map rlp_encode ys)) d = Inr ys"
      using less.prems Cons by (intro less.hyps) auto
    then show ?thesis
      using dlist_step [OF less.prems(1), of "concat (map rlp_encode xs)"] ne
      by (simp add: Cons xp header_frame [OF small] px)
  qed
qed

end

locale rlp_reader = rlp_decoder +
  fixes top :: "bytes \<Rightarrow> ('e, rlp) result"
    and top_depth :: nat
    and trailing :: 'e
  assumes top_depth: "top_depth \<le> max_depth"
    and top_eq: "top bs =
      rbind (header bs) (\<lambda>(l, p, rest).
      rbind (if l then map_ok RList (dlist p top_depth) else Inr (RBytes p)) (\<lambda>x.
      if rest = [] then Inr x else Inl trailing))"
begin

text \<open>The reader accepts exactly the canonical encodings of items within its depth.\<close>

lemma top_iff:
  "top bs = Inr x \<longleftrightarrow>
     rlp_encode x = bs \<and> rlp_small x \<and> rlp_depth x + top_depth \<le> Suc max_depth"
proof
  assume "top bs = Inr x"
  then obtain l p where h: "header bs = Inr (l, p, [])"
    and px: "(if l then map_ok RList (dlist p top_depth) else Inr (RBytes p)) = Inr x"
    by (auto simp: top_eq res_simps split: if_splits)
  have bs: "bs = frame l p" and small: "is_u64 (length p)" using header_sound [OF h] by auto
  show "rlp_encode x = bs \<and> rlp_small x \<and> rlp_depth x + top_depth \<le> Suc max_depth"
  proof (cases l)
    case True
    then obtain zs where zs: "dlist p top_depth = Inr zs" and xz: "x = RList zs"
      using px by (auto simp: res_simps)
    from dlist_sound [OF zs] show ?thesis
      using True small top_depth
      by (simp add: xz bs encode_list_frame rlp_depth_RList del: rlp_depth.simps)
  next
    case False
    then show ?thesis using px small top_depth by (auto simp: bs frame_def)
  qed
next
  assume enc: "rlp_encode x = bs \<and> rlp_small x \<and> rlp_depth x + top_depth \<le> Suc max_depth"
  show "top bs = Inr x"
  proof (cases x)
    case (RBytes b)
    then show ?thesis using enc header_frame [of b False "[]"] by (auto simp: top_eq frame_def)
  next
    case (RList zs)
    let ?p = "concat (map rlp_encode zs)"
    have u: "is_u64 (length ?p)" using enc RList by simp
    have "dlist ?p top_depth = Inr zs"
      using enc RList top_depth rlp_depth_RList [of zs top_depth "Suc max_depth"]
      by (intro dlist_complete) (auto simp del: rlp_depth.simps)
    then show ?thesis
      using enc RList header_frame [OF u, of True "[]"] by (auto simp: top_eq encode_list_frame)
  qed
qed

lemma top_inj: "top as = Inr x \<Longrightarrow> top bs = Inr x \<Longrightarrow> as = bs"
  by (simp add: top_iff)

lemma encode_inj:
  assumes "rlp_encode x = rlp_encode y" "rlp_small x" "rlp_small y"
    and "rlp_depth x + top_depth \<le> Suc max_depth" "rlp_depth y + top_depth \<le> Suc max_depth"
  shows "x = y"
proof -
  have "top (rlp_encode x) = Inr x" "top (rlp_encode x) = Inr y"
    using assms by (simp_all add: top_iff)
  then show ?thesis by simp
qed

end

end
