(* ===== verification/Rlp.thy ===== *)
theory Rlp
  imports Rlp_Util
begin

text \<open>
  The RLP codec of the execution crate (\<open>helios-bsc-execution/src/rlp.rs\<close>): the decoder of
  trie nodes, account leaves and transactions, with its nesting cap, and the crate's own
  encoder. The decoder implements \<open>rlp_reader\<close>; the encoder agrees with the one of the
  consensus crate.

  The recursion of \<open>decode_one\<close> and \<open>decode_list\<close> is cut at the item header:
  \<open>decode_header\<close> holds the prefix arithmetic and the bounds checks of \<open>decode_one\<close>, which
  do not recurse, so that \<open>decode_list\<close> terminates on the length of its input.
\<close>

section \<open>Decoder\<close>

datatype rlp_error = Truncated | Trailing | Invalid | TooDeep | NonCanonical

definition MAX_RLP_DEPTH :: nat where
  "MAX_RLP_DEPTH = 32"

text \<open>\<open>checked_shl(8)\<close> only fails for a shift of 64 or more; bits shifted out are lost.\<close>

fun be_len_loop :: "nat \<Rightarrow> bytes \<Rightarrow> (rlp_error, nat) result" where
  "be_len_loop n [] = Inr n"
| "be_len_loop n (x # xs) =
     (let m = wrap64 (n * 256)
      in if u64_max < m + unat x then Inl Invalid else be_len_loop (m + unat x) xs)"

definition be_len :: "bytes \<Rightarrow> (rlp_error, nat) result" where
  "be_len b = (if b = [] \<or> hd b = 0 \<and> 1 < length b then Inl Invalid else be_len_loop 0 b)"

definition split_payload :: "bytes \<Rightarrow> nat \<Rightarrow> (rlp_error, bytes \<times> bytes) result" where
  "split_payload rest len =
     (if length rest < len then Inl Truncated else Inr (take len rest, drop len rest))"

definition long_payload :: "bytes \<Rightarrow> nat \<Rightarrow> (rlp_error, bytes \<times> bytes) result" where
  "long_payload rest ll =
     rbind (split_payload rest ll) (\<lambda>(lb, after).
     rbind (be_len lb) (\<lambda>len.
       if len \<le> 55 then Inl NonCanonical else split_payload after len))"

definition decode_header :: "bytes \<Rightarrow> (rlp_error, bool \<times> bytes \<times> bytes) result" where
  "decode_header input =
     (case input of
        [] \<Rightarrow> Inl Truncated
      | prefix # rest \<Rightarrow>
          let p = unat prefix in
          if p \<le> 0x7f then Inr (False, [prefix], rest)
          else if p \<le> 0xb7 then
            rbind (split_payload rest (p - 0x80)) (\<lambda>(b, tail).
              if p - 0x80 = 1 \<and> hd b < 0x80 then Inl NonCanonical else Inr (False, b, tail))
          else if p \<le> 0xbf then
            rbind (long_payload rest (p - 0xb7)) (\<lambda>(b, tail). Inr (False, b, tail))
          else if p \<le> 0xf7 then
            rbind (split_payload rest (p - 0xc0)) (\<lambda>(payload, tail). Inr (True, payload, tail))
          else
            rbind (long_payload rest (p - 0xf7)) (\<lambda>(payload, tail). Inr (True, payload, tail)))"

lemma split_payload_shorter:
  "split_payload rest n = Inr (a, b) \<Longrightarrow> rest = a @ b \<and> length a = n"
  by (auto simp: split_payload_def split: if_splits)

lemma long_payload_shorter:
  "long_payload rest n = Inr (a, b) \<Longrightarrow> \<exists>lb. rest = lb @ a @ b"
  by (auto simp: long_payload_def res_simps dest!: split_payload_shorter)

lemma decode_header_shorter:
  "decode_header input = Inr (l, p, rest) \<Longrightarrow>
     length p \<le> length input \<and> (l \<longrightarrow> length p < length input) \<and> length rest < length input"
  by (auto simp: decode_header_def res_simps Let_def split: list.splits if_splits
      dest!: split_payload_shorter long_payload_shorter)

function decode_list :: "bytes \<Rightarrow> nat \<Rightarrow> (rlp_error, rlp list) result" where
  "decode_list payload depth =
     (if MAX_RLP_DEPTH < depth then Inl TooDeep
      else if payload = [] then Inr []
      else case decode_header payload of
        Inl e \<Rightarrow> Inl e
      | Inr (is_list, p, rest) \<Rightarrow>
          (case (if is_list then map_ok RList (decode_list p (depth + 1)) else Inr (RBytes p)) of
             Inl e \<Rightarrow> Inl e
           | Inr item \<Rightarrow> map_ok (\<lambda>items. item # items) (decode_list rest depth)))"
  by pat_completeness auto
termination
  by (relation "measure (\<lambda>(payload, depth). length payload)")
     (auto dest: decode_header_shorter)

declare decode_list.simps [simp del]

definition decode_one :: "bytes \<Rightarrow> nat \<Rightarrow> (rlp_error, rlp \<times> bytes) result" where
  "decode_one input depth =
     rbind (decode_header input) (\<lambda>(is_list, p, rest).
     rbind (if is_list then map_ok RList (decode_list p (depth + 1)) else Inr (RBytes p)) (\<lambda>item.
       Inr (item, rest)))"

definition decode :: "bytes \<Rightarrow> (rlp_error, rlp) result" where
  "decode input =
     rbind (decode_one input 0) (\<lambda>(item, rest). if rest \<noteq> [] then Inl Trailing else Inr item)"

fun as_bytes :: "rlp \<Rightarrow> (rlp_error, bytes) result" where
  "as_bytes (RBytes b) = Inr b"
| "as_bytes (RList v) = Inl Invalid"

fun as_list :: "rlp \<Rightarrow> (rlp_error, rlp list) result" where
  "as_list (RList v) = Inr v"
| "as_list (RBytes b) = Inl Invalid"

section \<open>Encoder\<close>

definition exec_len_be :: "nat \<Rightarrow> bytes" where
  "exec_len_be len =
     (let be = to_be_bytes 8 len
      in if list_all (\<lambda>b. b = 0) be then drop 7 be else strip_zeros be)"

definition exec_encode_string :: "bytes \<Rightarrow> bytes" where
  "exec_encode_string data =
     (if length data \<le> 55 then (0x80 + word_of_nat (length data)) # data
      else let lenb = exec_len_be (length data)
           in (0xb7 + word_of_nat (length lenb)) # lenb @ data)"

definition exec_encode_bytes :: "bytes \<Rightarrow> bytes" where
  "exec_encode_bytes data =
     (if length data = 1 \<and> hd data < 0x80 then [hd data] else exec_encode_string data)"

text \<open>Here the argument is a \<open>u64\<close>.\<close>

definition exec_encode_uint :: "nat \<Rightarrow> bytes" where
  "exec_encode_uint n =
     (if n = 0 then [0x80] else exec_encode_bytes (strip_zeros (to_be_bytes 8 n)))"

definition exec_encode_list :: "bytes list \<Rightarrow> bytes" where
  "exec_encode_list items =
     (let payload = concat items
      in if length payload \<le> 55 then (0xc0 + word_of_nat (length payload)) # payload
         else let lenb = exec_len_be (length payload)
              in (0xf7 + word_of_nat (length lenb)) # lenb @ payload)"

section \<open>The decoder implements the interface\<close>

lemma be_len_loop_eq: "n * 256 ^ length b + be_nat b \<le> u64_max \<Longrightarrow>
    be_len_loop n b = Inr (n * 256 ^ length b + be_nat b)"
proof (induction b arbitrary: n)
  case (Cons x xs)
  have le: "(n * 256 + unat x) * 256 ^ length xs + be_nat xs \<le> u64_max"
    using Cons.prems by (simp add: be_nat_Cons algebra_simps)
  have "n * 256 + unat x \<le> (n * 256 + unat x) * 256 ^ length xs" by simp
  then have "n * 256 + unat x \<le> u64_max"
    using add_leD1 [OF le] by (rule order_trans)
  moreover from this have "wrap64 (n * 256) = n * 256" by (simp add: is_u64_def)
  ultimately show ?case
    using Cons.IH [OF le] by (simp add: Let_def be_nat_Cons algebra_simps)
qed simp

lemma be_len_eq:
  assumes "length b \<le> 8" "b \<noteq> []" "hd b \<noteq> 0"
  shows "be_len b = Inr (be_nat b)"
proof -
  have "be_nat b \<le> u64_max" using len_be_of_canonical(2) [OF assms(2,3,1)] by (simp add: is_u64_def)
  then show ?thesis using assms be_len_loop_eq [of 0 b] by (simp add: be_len_def)
qed

lemma be_len_long:
  assumes "be_len b = Inr n" "55 < n" "length b \<le> 8"
  shows "b \<noteq> []" "hd b \<noteq> 0" "n = be_nat b"
proof -
  show ne: "b \<noteq> []" using assms by (auto simp: be_len_def)
  show hd: "hd b \<noteq> 0"
  proof
    assume "hd b = 0"
    then have "b = [0]" using assms(1) ne by (cases b) (auto simp: be_len_def split: if_splits)
    with assms show False by (simp add: be_len_def wrap64_def)
  qed
  show "n = be_nat b" using be_len_eq [OF assms(3) ne hd] assms(1) by simp
qed

lemma long_payload_eq:
  assumes "55 < length p" "is_u64 (length p)"
  shows "long_payload (len_be (length p) @ p @ rest) (length (len_be (length p))) = Inr (p, rest)"
proof -
  have "0 < length p" using assms by linarith
  note lb = len_be_pos [OF this assms(2)]
  have "be_len (len_be (length p)) = Inr (length p)"
    using be_len_eq [OF lb(4) lb(3) lb(5)] lb(2) by simp
  then show ?thesis using assms by (simp add: long_payload_def split_payload_def)
qed

lemma long_payload_sound:
  assumes "long_payload rest ll = Inr (p, tail)" "ll \<le> 8"
  shows "55 < length p" "is_u64 (length p)" "rest = len_be (length p) @ p @ tail"
    "ll = length (len_be (length p))"
proof -
  obtain lb after len where s1: "split_payload rest ll = Inr (lb, after)" and bl: "be_len lb = Inr len"
    and long: "55 < len" and s2: "split_payload after len = Inr (p, tail)"
    using assms(1) by (auto simp: long_payload_def res_simps)
  have r: "rest = lb @ p @ tail" "length lb = ll" "length p = len"
    using split_payload_shorter [OF s1] split_payload_shorter [OF s2] by auto
  have lb: "lb \<noteq> []" "hd lb \<noteq> 0" "len = be_nat lb"
    using be_len_long [OF bl long] r assms(2) by auto
  have c: "len_be len = lb" "is_u64 len"
    using len_be_of_canonical [of lb] lb r assms(2) by auto
  show "55 < length p" "is_u64 (length p)" "rest = len_be (length p) @ p @ tail"
    "ll = length (len_be (length p))"
    using long r c by auto
qed

lemma byte_prefix_eq: "unat c = k + n \<Longrightarrow> c = word_of_nat k + word_of_nat n" for c :: byte
  by (metis of_nat_add byte_of_unat)

lemma decode_header_frame:
  assumes "is_u64 (length p)"
  shows "decode_header (frame l p @ rest) = Inr (l, p, rest)"
  using assms
proof (cases rule: frame_cases [where l = l])
  case (byte b)
  then show ?thesis by (simp add: decode_header_def)
next
  case (short c)
  have "split_payload (p @ rest) (length p) = Inr (p, rest)" by (simp add: split_payload_def)
  with short show ?thesis
    by (auto simp: decode_header_def Let_def word_less_nat_alt)
next
  case (long c bs)
  have "0 < length p" using long by linarith
  then have "length bs \<le> 8" "0 < length bs" using long len_be_pos [of "length p"] assms by auto
  with long long_payload_eq [OF long(1) assms] show ?thesis
    by (auto simp: decode_header_def Let_def)
qed

lemma decode_header_sound:
  assumes "decode_header bs = Inr (l, p, rest)"
  shows "bs = frame l p @ rest \<and> is_u64 (length p)"
proof -
  obtain c tl where bs: "bs = c # tl" using assms by (cases bs) (auto simp: decode_header_def)
  let ?p = "unat c"
  have c256: "?p < 256" by (rule unat_byte_less)
  consider (byte) "?p \<le> 0x7f" | (short) "0x7f < ?p" "?p \<le> 0xb7" | (long) "0xb7 < ?p" "?p \<le> 0xbf"
    | (slist) "0xbf < ?p" "?p \<le> 0xf7" | (llist) "0xf7 < ?p" by linarith
  then show ?thesis
  proof cases
    case byte
    then show ?thesis using assms
      by (auto simp: decode_header_def bs frame_def encode_bytes_def word_less_nat_alt u64_simps)
  next
    case short
    then have sp: "split_payload tl (?p - 0x80) = Inr (p, rest)" and l: "\<not> l"
      and nc: "\<not> (?p - 0x80 = 1 \<and> hd p < 0x80)"
      using assms by (auto simp: decode_header_def bs res_simps Let_def)
    have r: "tl = p @ rest" "length p = ?p - 0x80" using split_payload_shorter [OF sp] by auto
    have "c = 0x80 + word_of_nat (length p)" using byte_prefix_eq [of c "0x80" "length p"] r short by simp
    moreover have le: "length p \<le> 55" using short r by simp
    moreover have "\<not> (length p = 1 \<and> hd p < 0x80)" using nc r(2) by simp
    ultimately have "c # p = frame l p"
      using l by (auto simp: frame_def encode_bytes_def encode_string_def)
    moreover have "is_u64 (length p)" using le by (simp add: u64_simps)
    ultimately show ?thesis using bs r(1) by (metis append_Cons)
  next
    case long
    then have lp: "long_payload tl (?p - 0xb7) = Inr (p, rest)" and l: "\<not> l"
      using assms by (auto simp: decode_header_def bs res_simps Let_def)
    have "?p - 0xb7 \<le> 8" using long by simp
    note s = long_payload_sound [OF lp this]
    have "c = 0xb7 + word_of_nat (length (len_be (length p)))"
      using byte_prefix_eq [of c "0xb7" "length (len_be (length p))"] s long by simp
    then have "c # len_be (length p) @ p = frame l p"
      using s(1) l by (simp add: frame_def encode_bytes_def encode_string_def Let_def)
    then show ?thesis using s(2,3) bs by (metis append_Cons append_assoc)
  next
    case slist
    then have sp: "split_payload tl (?p - 0xc0) = Inr (p, rest)" and l: "l"
      using assms by (auto simp: decode_header_def bs res_simps Let_def)
    have r: "tl = p @ rest" "length p = ?p - 0xc0" using split_payload_shorter [OF sp] by auto
    have "c = 0xc0 + word_of_nat (length p)" using byte_prefix_eq [of c "0xc0" "length p"] r slist by simp
    moreover have le: "length p \<le> 55" using slist r by simp
    ultimately have "c # p = frame l p" using l by (simp add: frame_def encode_list_def)
    moreover have "is_u64 (length p)" using le by (simp add: u64_simps)
    ultimately show ?thesis using bs r(1) by (metis append_Cons)
  next
    case llist
    then have lp: "long_payload tl (?p - 0xf7) = Inr (p, rest)" and l: "l"
      using assms by (auto simp: decode_header_def bs res_simps Let_def)
    have "?p - 0xf7 \<le> 8" using c256 by simp
    note s = long_payload_sound [OF lp this]
    have "c = 0xf7 + word_of_nat (length (len_be (length p)))"
      using byte_prefix_eq [of c "0xf7" "length (len_be (length p))"] s llist by simp
    then have "c # len_be (length p) @ p = frame l p"
      using s(1) l by (simp add: frame_def encode_list_def Let_def)
    then show ?thesis using s(2,3) bs by (metis append_Cons append_assoc)
  qed
qed

interpretation exec_rlp: rlp_reader decode_header decode_list MAX_RLP_DEPTH decode 1 Trailing
proof (unfold_locales, goal_cases)
  case (1 p l rest)
  then show ?case by (rule decode_header_frame)
next
  case (2 bs l p rest)
  then show ?case by (rule decode_header_sound)
next
  case (3 d bs)
  then show ?case by (simp add: decode_list.simps)
next
  case (4 d)
  then show ?case by (simp add: decode_list.simps)
next
  case (5 d bs)
  then show ?case
    by (subst decode_list.simps) (auto simp: rbind_def split: sum.splits prod.splits)
next
  case 6
  show ?case by (simp add: MAX_RLP_DEPTH_def)
next
  case (7 bs)
  show ?case
    by (cases "decode_header bs")
       (auto simp: decode_def decode_one_def rbind_def split: sum.splits prod.splits)
qed

text \<open>The loop of the source, over \<open>decode_one\<close>.\<close>

lemma decode_list_loop:
  "decode_list payload depth =
     (if MAX_RLP_DEPTH < depth then Inl TooDeep
      else if payload = [] then Inr []
      else rbind (decode_one payload depth) (\<lambda>(item, rest).
             map_ok (\<lambda>items. item # items) (decode_list rest depth)))"
  by (subst decode_list.simps)
     (auto simp: decode_one_def rbind_def split: sum.splits prod.splits)

lemma exec_len_be_eq [simp]: "exec_len_be n = len_be n"
  by (simp add: exec_len_be_def len_be_def)

lemma exec_encode_string_eq [simp]: "exec_encode_string b = encode_string b"
  by (simp add: exec_encode_string_def encode_string_def)

lemma exec_encode_bytes_eq [simp]: "exec_encode_bytes b = encode_bytes b"
  by (simp add: exec_encode_bytes_def encode_bytes_def)

lemma exec_encode_list_eq [simp]: "exec_encode_list xs = encode_list xs"
  by (simp add: exec_encode_list_def encode_list_def Let_def)

lemma exec_encode_uint_eq: "is_u64 n \<Longrightarrow> exec_encode_uint n = encode_uint n"
  by (simp add: encode_uint_eq exec_encode_uint_def uint_bytes_def [symmetric])
     (simp add: encode_uint_eq [symmetric] encode_uint_def is_u64_def)

text \<open>
  C38. The RLP decoder of trie nodes accepts a byte string exactly when it is the canonical
  encoding of an item nested at most 32 deep, and then returns that item. Hence decoding
  inverts encoding, two byte strings never decode to one item, and malleable spellings
  (wrapped single bytes, long forms for short payloads, leading zeros in a length,
  trailing bytes) are all refused.
\<close>

theorem decode_iff:
  "decode bs = Inr x \<longleftrightarrow> rlp_encode x = bs \<and> rlp_small x \<and> rlp_depth x \<le> 32"
  using exec_rlp.top_iff [of bs x] by (simp add: MAX_RLP_DEPTH_def)

text \<open>
  The two RLP encoders of the program agree: byte strings and lists always, integers on
  the \<open>u64\<close> range both crates use, although one works on a 128-bit and the other on a
  64-bit big-endian array.
\<close>

lemma encoders_agree:
  "exec_encode_bytes b = encode_bytes b \<and> exec_encode_list items = encode_list items \<and>
   (is_u64 n \<longrightarrow> exec_encode_uint n = encode_uint n)"
  by (simp add: exec_encode_uint_eq)

end
