(* ===== verification/Reference.thy ===== *)
theory Reference
  imports Types
begin

text \<open>
  One concrete instance of the third-party parameters, used only to show that the
  hypotheses of theorems can hold together: the usual lower-case hex codec, a stand-in
  for Keccak with 32-byte output, and stand-ins for signature recovery and BLS that accept.
  No theorem about the program is about this instance.
\<close>

section \<open>Hex\<close>

definition hex_char :: "nat \<Rightarrow> char" where
  "hex_char n = ''0123456789abcdef'' ! n"

fun ref_hex_encode :: "bytes \<Rightarrow> string" where
  "ref_hex_encode [] = []"
| "ref_hex_encode (b # bs) = hex_char (unat b div 16) # hex_char (unat b mod 16) # ref_hex_encode bs"

fun ref_hex_decode :: "string \<Rightarrow> (string, bytes) result" where
  "ref_hex_decode [] = Inr []"
| "ref_hex_decode [c] = Inl ''Odd number of digits''"
| "ref_hex_decode (c # d # s) =
     (case (to_digit16 c, to_digit16 d) of
        (Some x, Some y) \<Rightarrow> map_ok (\<lambda>bs. word_of_nat (x * 16 + y) # bs) (ref_hex_decode s)
      | _ \<Rightarrow> Inl ''Invalid character'')"

definition ref_keccak :: "bytes \<Rightarrow> bytes" where
  "ref_keccak b = take 32 (b @ zeros 32)"

definition refX :: "(bytes, bytes) ext" where
  "refX = \<lparr>hex_decode = ref_hex_decode, hex_encode = ref_hex_encode, keccak = ref_keccak,
     rec_id_ok = (\<lambda>v. v < 4), secp_recover = (\<lambda>digest sig v. Inr (4 # zeros 64)),
     bls_key_validate = Some, bls_aggregate = (\<lambda>ks. Some (concat ks)),
     bls_sig_validate = Some, bls_verify = (\<lambda>sig msg dst pk. True)\<rparr>"

lemma refX_simps [simp]:
  "hex_decode refX = ref_hex_decode" "hex_encode refX = ref_hex_encode"
  "keccak refX = ref_keccak" "rec_id_ok refX = (\<lambda>v. v < 4)"
  "secp_recover refX = (\<lambda>digest sig v. Inr (4 # zeros 64))"
  "bls_key_validate refX = Some" "bls_aggregate refX = (\<lambda>ks. Some (concat ks))"
  "bls_sig_validate refX = Some" "bls_verify refX = (\<lambda>sig msg dst pk. True)"
  by (simp_all add: refX_def)

lemma hex_char_facts: "list_all (\<lambda>n. to_digit16 (hex_char n) = Some n \<and> hex_lower (hex_char n)) [0..<16]"
  by code_simp

lemma to_digit16_hex_char: "n < 16 \<Longrightarrow> to_digit16 (hex_char n) = Some n"
  using hex_char_facts by (simp add: list_all_iff)

lemma hex_lower_hex_char: "n < 16 \<Longrightarrow> hex_lower (hex_char n)"
  using hex_char_facts by (simp add: list_all_iff)

lemma ref_hex_decode_encode: "ref_hex_decode (ref_hex_encode b) = Inr b"
proof (induction b)
  case (Cons x b)
  have "unat x div 16 < 16" using unat_byte_less [of x] by (simp add: less_mult_imp_div_less)
  moreover have "unat x div 16 * 16 + unat x mod 16 = unat x" by simp
  ultimately show ?case using Cons byte_of_unat [of x] by (simp add: to_digit16_hex_char)
qed simp

lemma ref_hex_encode_lower: "c \<in> set (ref_hex_encode b) \<Longrightarrow> hex_lower c"
proof (induction b)
  case (Cons x b)
  have "unat x div 16 < 16" using unat_byte_less [of x] by (simp add: less_mult_imp_div_less)
  with Cons show ?case by (auto simp: hex_lower_hex_char)
qed simp

lemma ref_hex_decode_length: "ref_hex_decode s = Inr b \<Longrightarrow> length s = 2 * length b"
  by (induction s arbitrary: b rule: ref_hex_decode.induct)
     (auto simp: res_simps split: option.splits)

lemma length_ref_hex_encode: "length (ref_hex_encode b) = 2 * length b"
  by (induction b) auto

lemma hex_ok_refX [simp]: "hex_ok refX"
  using ref_hex_encode_lower
  by (auto simp: hex_ok_def ref_hex_decode_encode length_ref_hex_encode dest: ref_hex_decode_length)

lemma keccak_ok_refX [simp]: "keccak_ok refX"
  by (auto simp: keccak_ok_def ref_keccak_def simp del: take_append)

text \<open>Hex strings of equal bytes decode without evaluation digit by digit.\<close>

lemma ref_hex_decode_zeros: "ref_hex_decode (replicate (2 * n) (CHR ''0'')) = Inr (zeros n)"
  by (induction n) (auto simp: zeros_def to_digit16_def)

lemma to_digit16_ascii_lower: "to_digit16 (ascii_lower c) = to_digit16 c"
  unfolding to_digit16_def of_char_ascii_lower Let_def by auto

lemma hex_case_ok_refX [simp]: "hex_case_ok refX"
proof -
  have "ref_hex_decode (map ascii_lower s) = ref_hex_decode s" for s
    by (induction s rule: ref_hex_decode.induct) (auto simp: to_digit16_ascii_lower split: option.splits)
  then show ?thesis by (simp add: hex_case_ok_def)
qed

end
