(* ===== verification/Vote.thy ===== *)
theory Vote
  imports Extra Rlp Reference
begin

text \<open>
  Fast-finality vote attestations (\<open>helios-bsc-consensus/src/vote.rs\<close>): the strict RLP
  reader, the attestation itself, the voter bit set, and the aggregated BLS signature
  check. The reader implements \<open>rlp_reader\<close> with two levels of nesting.
\<close>

unbundle bit_operations_syntax

section \<open>Data\<close>

definition BLS_SIGNATURE_LEN :: nat where "BLS_SIGNATURE_LEN = 96"
definition MAX_ATTESTATION_EXTRA_LEN :: nat where "MAX_ATTESTATION_EXTRA_LEN = 256"
definition VOTE_MAX_RLP_DEPTH :: nat where "VOTE_MAX_RLP_DEPTH = 2"

definition DST :: bytes where
  "DST = map of_char ''BLS_SIG_BLS12381G2_XMD:SHA-256_SSWU_RO_POP_''"

datatype vote_error =
    VoteRlp string
  | VoteExtraTooLong nat
  | SourceNotBelowTarget nat nat
  | VoteNumberLargerThanValidators nat nat
  | BitOutOfRange nat nat
  | NoVotes
  | NotEnoughVotes nat nat
  | InvalidVoteKey nat
  | InvalidSignature
  | AggregateFailed
  | SignatureVerifyFailed

record vote_data =
  vd_source_number :: nat
  vd_source_hash :: bytes
  vd_target_number :: nat
  vd_target_hash :: bytes

record vote_attestation =
  va_vote_address_set :: "64 word"
  va_agg_signature :: bytes
  va_data :: vote_data
  va_extra :: bytes

definition source_below_target :: "vote_data \<Rightarrow> (vote_error, unit) result" where
  "source_below_target d =
     (if vd_target_number d \<le> vd_source_number d
      then Inl (SourceNotBelowTarget (vd_source_number d) (vd_target_number d)) else Inr ())"

definition vote_data_hash :: "('pk, 'sg) ext \<Rightarrow> vote_data \<Rightarrow> bytes" where
  "vote_data_hash X d =
     keccak X (encode_list [encode_uint (vd_source_number d), encode_bytes (vd_source_hash d),
                            encode_uint (vd_target_number d), encode_bytes (vd_target_hash d)])"

text \<open>\<open>saturating_mul(2).div_ceil(3)\<close>.\<close>

definition min_votes_for_finality :: "nat \<Rightarrow> nat" where
  "min_votes_for_finality n = (sat_mul n 2 + 2) div 3"

section \<open>Strict RLP reader\<close>

definition vote_take :: "bytes \<Rightarrow> nat \<Rightarrow> (vote_error, bytes \<times> bytes) result" where
  "vote_take buf n =
     (if length buf < n then Inl (VoteRlp ''payload overruns the buffer'')
      else Inr (take n buf, drop n buf))"

text \<open>\<open>checked_mul(256)\<close> and \<open>checked_add\<close>, left to right.\<close>

fun long_len_loop :: "nat \<Rightarrow> bytes \<Rightarrow> (vote_error, nat) result" where
  "long_len_loop len [] = Inr len"
| "long_len_loop len (b # bs) =
     (if u64_max < len * 256 \<or> u64_max < len * 256 + unat b
      then Inl (VoteRlp ''length prefix overflows usize'')
      else long_len_loop (len * 256 + unat b) bs)"

definition long_len :: "bytes \<Rightarrow> nat \<Rightarrow> (vote_error, nat \<times> bytes) result" where
  "long_len buf len_of_len =
     rbind (vote_take buf len_of_len) (\<lambda>(raw, rest).
       if raw \<noteq> [] \<and> hd raw = 0 then Inl (VoteRlp ''length prefix has a leading zero byte'')
       else rbind (long_len_loop 0 raw) (\<lambda>len.
         if len \<le> 55 then Inl (VoteRlp ''long form used where the short form fits'')
         else Inr (len, rest)))"

text \<open>\<open>decode_item\<close> up to the payload of a list.\<close>

definition vote_item_header :: "bytes \<Rightarrow> (vote_error, bool \<times> bytes \<times> bytes) result" where
  "vote_item_header buf =
     (case buf of
        [] \<Rightarrow> Inl (VoteRlp ''unexpected end of input'')
      | prefix # tail \<Rightarrow>
          let p = unat prefix in
          if p \<le> 0x7f then Inr (False, [prefix], tail)
          else if p \<le> 0xb7 then
            rbind (vote_take tail (p - 0x80)) (\<lambda>(payload, rest).
              if p - 0x80 = 1 \<and> hd payload < 0x80
              then Inl (VoteRlp ''single byte < 0x80 wrapped as a string'')
              else Inr (False, payload, rest))
          else if p \<le> 0xbf then
            rbind (long_len tail (p - 0xb7)) (\<lambda>(len, rest).
            rbind (vote_take rest len) (\<lambda>(payload, rest'). Inr (False, payload, rest')))
          else if p \<le> 0xf7 then
            rbind (vote_take tail (p - 0xc0)) (\<lambda>(payload, rest). Inr (True, payload, rest))
          else
            rbind (long_len tail (p - 0xf7)) (\<lambda>(len, rest).
            rbind (vote_take rest len) (\<lambda>(payload, rest'). Inr (True, payload, rest'))))"

lemma vote_take_Inr: "vote_take buf n = Inr (a, b) \<longleftrightarrow> buf = a @ b \<and> length a = n"
  by (auto simp: vote_take_def)

lemma long_len_Inr: "long_len buf n = Inr (len, rest) \<Longrightarrow> \<exists>raw. buf = raw @ rest"
  by (auto simp: long_len_def res_simps vote_take_Inr)

lemma vote_item_header_shorter:
  "vote_item_header buf = Inr (l, p, rest) \<Longrightarrow>
     (l \<longrightarrow> length p < length buf) \<and> length rest < length buf"
  by (auto simp: vote_item_header_def res_simps Let_def vote_take_Inr split: list.splits if_splits
      dest!: long_len_Inr)

function vote_decode_list :: "bytes \<Rightarrow> nat \<Rightarrow> (vote_error, rlp list) result" where
  "vote_decode_list payload depth =
     (if VOTE_MAX_RLP_DEPTH \<le> depth
      then Inl (VoteRlp ''RLP nested deeper than a vote attestation'')
      else if payload = [] then Inr []
      else case vote_item_header payload of
        Inl e \<Rightarrow> Inl e
      | Inr (is_list, p, rest) \<Rightarrow>
          (case (if is_list then map_ok RList (vote_decode_list p (depth + 1)) else Inr (RBytes p)) of
             Inl e \<Rightarrow> Inl e
           | Inr item \<Rightarrow> map_ok (\<lambda>items. item # items) (vote_decode_list rest depth)))"
  by pat_completeness auto
termination
  by (relation "measure (\<lambda>(payload, depth). length payload)")
     (auto dest: vote_item_header_shorter)

declare vote_decode_list.simps [simp del]

definition vote_decode_item :: "bytes \<Rightarrow> nat \<Rightarrow> (vote_error, rlp \<times> bytes) result" where
  "vote_decode_item buf depth =
     rbind (vote_item_header buf) (\<lambda>(is_list, p, rest).
     rbind (if is_list then map_ok RList (vote_decode_list p depth) else Inr (RBytes p)) (\<lambda>item.
       Inr (item, rest)))"

definition decode_top :: "bytes \<Rightarrow> (vote_error, rlp) result" where
  "decode_top buf =
     rbind (vote_decode_item buf 0) (\<lambda>(item, rest).
       if rest \<noteq> [] then Inl (VoteRlp ''trailing bytes after the top-level item'') else Inr item)"

fun str_of :: "rlp \<Rightarrow> (vote_error, bytes) result" where
  "str_of (RBytes s) = Inr s"
| "str_of (RList l) = Inl (VoteRlp ''expected a string, found a list'')"

fun list_of :: "rlp \<Rightarrow> (vote_error, rlp list) result" where
  "list_of (RList l) = Inr l"
| "list_of (RBytes s) = Inl (VoteRlp ''expected a list, found a string'')"

definition uint_of :: "bytes \<Rightarrow> (vote_error, nat) result" where
  "uint_of raw =
     (if 8 < length raw then Inl (VoteRlp ''integer longer than 8 bytes'')
      else if raw \<noteq> [] \<and> hd raw = 0 then Inl (VoteRlp ''integer has a leading zero byte'')
      else Inr (be_u64 raw))"

definition fixed_str :: "nat \<Rightarrow> bytes \<Rightarrow> string \<Rightarrow> (vote_error, bytes) result" where
  "fixed_str n raw what = (if length raw = n then Inr raw else Inl (VoteRlp what))"

definition decode_vote_attestation ::
    "bytes \<Rightarrow> (vote_error, vote_attestation option) result" where
  "decode_vote_attestation raw =
     (if raw = [] then Inr None
      else
        rbind (decode_top raw) (\<lambda>top.
        rbind (list_of top) (\<lambda>fields.
        if length fields \<noteq> 4 then Inl (VoteRlp ''vote attestation must be a 4-item list'')
        else
          rbind (rbind (str_of (fields ! 0)) uint_of) (\<lambda>vote_address_set.
          rbind (rbind (str_of (fields ! 1)) (\<lambda>s. fixed_str BLS_SIGNATURE_LEN s
                   ''aggregated signature is not 96 bytes'')) (\<lambda>agg_signature.
          rbind (list_of (fields ! 2)) (\<lambda>data_fields.
          if length data_fields \<noteq> 4 then Inl (VoteRlp ''vote data must be a 4-item list'')
          else
            rbind (rbind (str_of (data_fields ! 0)) uint_of) (\<lambda>source_number.
            rbind (rbind (str_of (data_fields ! 1)) (\<lambda>s. fixed_str 32 s
                     ''source hash is not 32 bytes'')) (\<lambda>source_hash.
            rbind (rbind (str_of (data_fields ! 2)) uint_of) (\<lambda>target_number.
            rbind (rbind (str_of (data_fields ! 3)) (\<lambda>s. fixed_str 32 s
                     ''target hash is not 32 bytes'')) (\<lambda>target_hash.
            rbind (str_of (fields ! 3)) (\<lambda>extra.
              Inr (Some \<lparr>va_vote_address_set = word_of_nat vote_address_set,
                         va_agg_signature = agg_signature,
                         va_data = \<lparr>vd_source_number = source_number, vd_source_hash = source_hash,
                                    vd_target_number = target_number, vd_target_hash = target_hash\<rparr>,
                         va_extra = extra\<rparr>))))))))))))"

section \<open>Voters and signature\<close>

text \<open>\<open>trailing_zeros\<close> of a non-zero word.\<close>

fun trailing_zeros_from :: "nat \<Rightarrow> 64 word \<Rightarrow> nat" where
  "trailing_zeros_from 0 w = 0"
| "trailing_zeros_from (Suc k) w = (if bit w 0 then 0 else Suc (trailing_zeros_from k (drop_bit 1 w)))"

definition trailing_zeros :: "64 word \<Rightarrow> nat" where
  "trailing_zeros w = trailing_zeros_from 64 w"

definition count_ones :: "64 word \<Rightarrow> nat" where
  "count_ones w = length (filter (\<lambda>i. bit w i) [0..<64])"

definition voted_indices :: "64 word \<Rightarrow> nat \<Rightarrow> (vote_error, nat list) result" where
  "voted_indices vset n =
     (let voted = count_ones vset in
      if n < voted then Inl (VoteNumberLargerThanValidators voted n)
      else
        let high = (if 64 \<le> n then 0 else drop_bit n vset) in
        if high \<noteq> 0 then Inl (BitOutOfRange (n + trailing_zeros high) n)
        else Inr (filter (\<lambda>i. (drop_bit i vset) AND 1 = 1) [0..<min n 64]))"

definition voted_validators ::
    "vote_attestation \<Rightarrow> sealing_validator list \<Rightarrow> (vote_error, bytes list) result" where
  "voted_validators att validators =
     map_ok (map (\<lambda>i. sv_address (validators ! i)))
       (voted_indices (va_vote_address_set att) (length validators))"

definition validate_key ::
    "('pk, 'sg) ext \<Rightarrow> sealing_validator list \<Rightarrow> nat \<Rightarrow> (vote_error, 'pk) result" where
  "validate_key X validators i =
     (case bls_key_validate X (sv_vote_key (validators ! i)) of
        None \<Rightarrow> Inl (InvalidVoteKey i) | Some k \<Rightarrow> Inr k)"

definition verify_attestation_signature ::
    "('pk, 'sg) ext \<Rightarrow> vote_attestation \<Rightarrow> sealing_validator list \<Rightarrow> (vote_error, unit) result" where
  "verify_attestation_signature X att validators =
     (if MAX_ATTESTATION_EXTRA_LEN < length (va_extra att)
      then Inl (VoteExtraTooLong (length (va_extra att)))
      else
        rbind (voted_indices (va_vote_address_set att) (length validators)) (\<lambda>indices.
        if indices = [] then Inl NoVotes
        else
          rbind (rmapM (validate_key X validators) indices) (\<lambda>keys.
          let need = min_votes_for_finality (length validators) in
          if length keys < need then Inl (NotEnoughVotes (length keys) need)
          else
            case bls_aggregate X keys of
              None \<Rightarrow> Inl AggregateFailed
            | Some pk \<Rightarrow>
                (case bls_sig_validate X (va_agg_signature att) of
                   None \<Rightarrow> Inl InvalidSignature
                 | Some sig \<Rightarrow>
                     if bls_verify X sig (vote_data_hash X (va_data att)) DST pk then Inr ()
                     else Inl SignatureVerifyFailed))))"

section \<open>The reader implements the interface\<close>

lemma long_len_loop_eq:
  "n * 256 ^ length b + be_nat b \<le> u64_max \<Longrightarrow> long_len_loop n b = Inr (n * 256 ^ length b + be_nat b)"
proof (induction b arbitrary: n)
  case (Cons x xs)
  have le: "(n * 256 + unat x) * 256 ^ length xs + be_nat xs \<le> u64_max"
    using Cons.prems by (simp add: be_nat_Cons algebra_simps)
  have "n * 256 + unat x \<le> (n * 256 + unat x) * 256 ^ length xs" by simp
  then have "n * 256 + unat x \<le> u64_max"
    using add_leD1 [OF le] by (rule order_trans)
  then show ?case
    using Cons.IH [OF le] by (simp add: be_nat_Cons algebra_simps)
qed simp

lemma be_nat_u64: "length b \<le> 8 \<Longrightarrow> be_nat b \<le> u64_max"
  by (metis be_nat_strip_zeros is_u64_def length_strip_zeros order_trans strip_zeros_idem
      uint_bytes_be_nat(2))

lemma long_form_iff:
  assumes "n \<le> 8" "0 < n"
  shows "rbind (long_len buf n) (\<lambda>(len, rest). vote_take rest len) = Inr (p, r) \<longleftrightarrow>
         long_payload buf n = Inr (p, r)"
proof -
  have be: "be_len raw = (if hd raw = 0 \<and> 1 < length raw then Inl Invalid else Inr (be_nat raw))"
    and ll: "long_len_loop 0 raw = Inr (be_nat raw)" if "length raw = n" for raw
    using be_len_loop_eq [of 0 raw] long_len_loop_eq [of 0 raw] be_nat_u64 [of raw] that assms
    by (auto simp: be_len_def)
  have z: "be_nat raw = 0" if "hd raw = 0" "length raw = 1" for raw
    using that by (cases raw) (auto simp: be_nat_Cons)
  show ?thesis
  proof (cases "length buf < n")
    case True
    then show ?thesis by (simp add: long_len_def long_payload_def vote_take_def split_payload_def)
  next
    case False
    let ?raw = "take n buf"
    have raw: "length ?raw = n" "?raw \<noteq> []" using False assms by auto
    have "hd ?raw = 0 \<Longrightarrow> \<not> 1 < n \<Longrightarrow> be_nat ?raw \<le> 55"
      using z [of ?raw] raw(1) assms by simp
    then show ?thesis
      using False raw be [OF raw(1)] ll [OF raw(1)] assms
      by (auto simp: long_len_def long_payload_def vote_take_def split_payload_def res_simps)
  qed
qed

lemma vote_item_header_iff:
  "vote_item_header bs = Inr (l, p, rest) \<longleftrightarrow> decode_header bs = Inr (l, p, rest)"
proof (cases bs)
  case (Cons c tl)
  have c: "unat c < 256" by (rule unat_byte_less)
  have long: "rbind (long_len tl n) (\<lambda>(len, rest). rbind (vote_take rest len) (\<lambda>(a, b). Inr (k, a, b))) = Inr (l, p, rest)
      \<longleftrightarrow> rbind (long_payload tl n) (\<lambda>(a, b). Inr (k, a, b)) = Inr (l, p, rest)" if "n \<le> 8" "0 < n" for n k
    using long_form_iff [OF that, of tl p rest] by (auto simp: res_simps)
  show ?thesis
    using c long [of "unat c - 0xb7" False] long [of "unat c - 0xf7" True]
    by (auto simp: Cons vote_item_header_def decode_header_def Let_def vote_take_def
        split_payload_def)
qed (simp add: vote_item_header_def decode_header_def)

interpretation vote_rlp: rlp_reader vote_item_header vote_decode_list 1 decode_top 0
  "VoteRlp ''trailing bytes after the top-level item''"
proof (unfold_locales, goal_cases)
  case (1 p l rest)
  then show ?case by (simp add: vote_item_header_iff decode_header_frame)
next
  case (2 bs l p rest)
  then show ?case by (simp add: vote_item_header_iff decode_header_sound)
next
  case (3 d bs)
  then show ?case by (simp add: vote_decode_list.simps VOTE_MAX_RLP_DEPTH_def)
next
  case (4 d)
  then show ?case by (simp add: vote_decode_list.simps VOTE_MAX_RLP_DEPTH_def)
next
  case (5 d bs)
  then show ?case
    by (subst vote_decode_list.simps)
       (auto simp: VOTE_MAX_RLP_DEPTH_def rbind_def split: sum.splits prod.splits)
next
  case 6
  show ?case by simp
next
  case (7 bs)
  show ?case
    by (cases "vote_item_header bs")
       (auto simp: decode_top_def vote_decode_item_def rbind_def split: sum.splits prod.splits)
qed

section \<open>The attestation codec\<close>

text \<open>The wire form of an attestation, and the values that have one.\<close>

definition attestation_rlp :: "vote_attestation \<Rightarrow> rlp" where
  "attestation_rlp att =
     RList [RBytes (uint_bytes (unat (va_vote_address_set att))), RBytes (va_agg_signature att),
       RList [RBytes (uint_bytes (vd_source_number (va_data att))), RBytes (vd_source_hash (va_data att)),
              RBytes (uint_bytes (vd_target_number (va_data att))), RBytes (vd_target_hash (va_data att))],
       RBytes (va_extra att)]"

definition wf_attestation :: "vote_attestation \<Rightarrow> bool" where
  "wf_attestation att \<longleftrightarrow>
     length (va_agg_signature att) = 96 \<and>
     is_u64 (vd_source_number (va_data att)) \<and> length (vd_source_hash (va_data att)) = 32 \<and>
     is_u64 (vd_target_number (va_data att)) \<and> length (vd_target_hash (va_data att)) = 32 \<and>
     rlp_small (attestation_rlp att)"

lemma str_of_iff [res_simps]: "str_of x = Inr b \<longleftrightarrow> x = RBytes b"
  by (cases x) auto

lemma list_of_iff [res_simps]: "list_of x = Inr l \<longleftrightarrow> x = RList l"
  by (cases x) auto

lemma uint_of_iff: "uint_of raw = Inr n \<longleftrightarrow> is_u64 n \<and> raw = uint_bytes n"
proof
  assume a: "uint_of raw = Inr n"
  then have r: "length raw \<le> 8" "raw = [] \<or> hd raw \<noteq> 0" and n: "n = be_nat raw"
    by (auto simp: uint_of_def be_u64_eq split: if_splits)
  then show "is_u64 n \<and> raw = uint_bytes n"
    using uint_bytes_be_nat [OF r(1) strip_zeros_id [OF r(2)]] by simp
next
  assume "is_u64 n \<and> raw = uint_bytes n"
  then have u: "is_u64 n" and r: "raw = uint_bytes n" by auto
  have "raw = [] \<or> hd raw \<noteq> 0"
    using uint_bytes(3) [OF u] strip_zeros_hd [of raw] r by (metis list.exhaust_sel)
  then show "uint_of raw = Inr n"
    using uint_bytes [OF u] r by (auto simp: uint_of_def be_u64_eq)
qed

lemma uint_of_uint_bytes: "is_u64 n \<Longrightarrow> uint_of (uint_bytes n) = Inr n"
  by (simp add: uint_of_iff)

lemma fixed_str_iff: "fixed_str n raw w = Inr v \<longleftrightarrow> length raw = n \<and> v = raw"
  by (auto simp: fixed_str_def)

lemma unat_word64: "is_u64 n \<Longrightarrow> unat (word_of_nat n :: 64 word) = n"
  unfolding unsigned_of_nat by (simp add: take_bit_eq_mod is_u64_iff)

lemma length4: "length xs = 4 \<longleftrightarrow> (\<exists>a b c d. xs = [a, b, c, d])"
  by (auto simp: length_Suc_conv eval_nat_numeral)

lemma unat_u64: "is_u64 (unat (w :: 64 word))"
  using unsigned_less [of w, where ?'a = nat] by (simp add: is_u64_iff)

lemma decode_some_iff:
  "decode_vote_attestation raw = Inr (Some att) \<longleftrightarrow>
     wf_attestation att \<and> raw = rlp_encode (attestation_rlp att)"
proof
  assume "decode_vote_attestation raw = Inr (Some att)"
  then obtain fields dfields where top: "decode_top raw = Inr (RList fields)"
    and f: "length fields = 4" "fields ! 2 = RList dfields" "length dfields = 4"
      "fields ! 0 = RBytes (uint_bytes (unat (va_vote_address_set att)))"
      "fields ! 1 = RBytes (va_agg_signature att)" "length (va_agg_signature att) = 96"
      "fields ! 3 = RBytes (va_extra att)"
    and d: "dfields ! 0 = RBytes (uint_bytes (vd_source_number (va_data att)))"
      "dfields ! 1 = RBytes (vd_source_hash (va_data att))"
      "dfields ! 2 = RBytes (uint_bytes (vd_target_number (va_data att)))"
      "dfields ! 3 = RBytes (vd_target_hash (va_data att))"
    and u: "is_u64 (vd_source_number (va_data att))" "is_u64 (vd_target_number (va_data att))"
      "length (vd_source_hash (va_data att)) = 32" "length (vd_target_hash (va_data att)) = 32"
    by (auto simp: decode_vote_attestation_def res_simps uint_of_iff fixed_str_iff unat_word64
        BLS_SIGNATURE_LEN_def split: if_splits)
  have "RList fields = attestation_rlp att"
    using f d by (auto simp: attestation_rlp_def length4)
  then have "decode_top raw = Inr (attestation_rlp att)" using top by simp
  then show "wf_attestation att \<and> raw = rlp_encode (attestation_rlp att)"
    using f u vote_rlp.top_iff [of raw] by (auto simp: wf_attestation_def)
next
  assume a: "wf_attestation att \<and> raw = rlp_encode (attestation_rlp att)"
  have depth: "rlp_depth (attestation_rlp att) \<le> 2" by (simp add: attestation_rlp_def)
  then have top: "decode_top raw = Inr (attestation_rlp att)"
    using a vote_rlp.top_iff [of raw] by (auto simp: wf_attestation_def)
  have ne: "raw \<noteq> []"
    using a by (auto simp: attestation_rlp_def encode_list_def Let_def)
  have ua: "is_u64 (unat (va_vote_address_set att))" by (rule unat_u64)
  show "decode_vote_attestation raw = Inr (Some att)"
    using ne top a ua
    by (simp add: decode_vote_attestation_def attestation_rlp_def wf_attestation_def
        uint_of_uint_bytes fixed_str_def BLS_SIGNATURE_LEN_def)
qed

text \<open>
  C39. The strict reader of the vote-attestation field, verdict by verdict. It answers no attestation on the
  empty field and on nothing else, and it answers an attestation exactly on that attestation's canonical RLP encoding,
  with a 96-byte signature, 32-byte hashes and 64-bit numbers; every other field is an error. So a malformed
  field is never read as no attestation, and two different fields never decode to one attestation.
\<close>

theorem decode_vote_attestation_iff:
  "decode_vote_attestation raw = Inr v \<longleftrightarrow>
     (case v of
        None \<Rightarrow> raw = []
      | Some att \<Rightarrow> wf_attestation att \<and> raw = rlp_encode (attestation_rlp att))"
proof (cases v)
  case None
  then show ?thesis by (auto simp: decode_vote_attestation_def res_simps split: if_splits)
next
  case (Some att)
  then show ?thesis by (simp add: decode_some_iff)
qed

section \<open>Voters\<close>

definition voters :: "64 word \<Rightarrow> nat set" where
  "voters w = {i. bit w i}"

lemma bit_lt_64: "bit (w :: 64 word) i \<Longrightarrow> i < 64"
  by (drule bit_imp_le_length) simp

lemma voters_subset: "voters w \<subseteq> {..<64}"
  by (auto simp: voters_def bit_lt_64)

lemma finite_voters [simp]: "finite (voters w)"
  using voters_subset finite_lessThan by (rule finite_subset)

lemma set_filter_voters: "set (filter (\<lambda>i. bit w i) [0..<64]) = voters w" for w :: "64 word"
  by (auto simp: voters_def bit_lt_64)

lemma count_ones_voters: "count_ones w = card (voters w)"
proof -
  have "card (voters w) = length (filter (\<lambda>i. bit w i) [0..<64])"
    using set_filter_voters [of w] by (metis distinct_card distinct_filter distinct_upt)
  then show ?thesis by (simp add: count_ones_def)
qed

lemma shifted_bit: "(drop_bit i w AND 1 = 1) = bit w i" for w :: "64 word"
  by (simp add: bit_iff_odd_drop_bit and_one_eq odd_iff_mod_2_eq_one)

lemma drop_bit_eq_0_iff: "drop_bit n w = 0 \<longleftrightarrow> (\<forall>i. bit w i \<longrightarrow> i < n)" for w :: "64 word"
proof
  assume z: "drop_bit n w = 0"
  show "\<forall>i. bit w i \<longrightarrow> i < n"
  proof (intro allI impI)
    fix i assume b: "bit w i"
    show "i < n"
    proof (rule ccontr)
      assume "\<not> i < n"
      then have "bit (drop_bit n w) (i - n)" using b by (simp add: bit_drop_bit_eq)
      with z show False by simp
    qed
  qed
next
  assume "\<forall>i. bit w i \<longrightarrow> i < n"
  then show "drop_bit n w = 0" by (intro bit_eqI) (auto simp: bit_drop_bit_eq)
qed

lemma voted_indices_iff:
  "voted_indices w n = Inr is \<longleftrightarrow>
     (\<forall>i. bit w i \<longrightarrow> i < n) \<and> is = filter (\<lambda>i. bit w i) [0..<64]"
proof -
  have card: "count_ones w \<le> n" if "\<forall>i. bit w i \<longrightarrow> i < n"
    using card_mono [of "{..<n}" "voters w"] that by (auto simp: count_ones_voters voters_def)
  have f: "filter (\<lambda>i. bit w i) [0..<min n 64] = filter (\<lambda>i. bit w i) [0..<64]"
    if "\<forall>i. bit w i \<longrightarrow> i < n"
  proof -
    have "[0..<64] = [0..<min n 64] @ [min n 64..<64]"
      using upt_add_eq_append [of 0 "min n 64" "64 - min n 64"] by simp
    moreover have "filter (\<lambda>i. bit w i) [min n 64..<64] = []" using that by (fastforce simp: filter_empty_conv)
    ultimately show ?thesis by (metis append_Nil2 filter_append)
  qed
  have hi: "(if 64 \<le> n then 0 else drop_bit n w) = 0 \<longleftrightarrow> (\<forall>i. bit w i \<longrightarrow> i < n)"
    using bit_lt_64 [of w] by (auto simp: drop_bit_eq_0_iff intro: less_le_trans)
  show ?thesis
    using card f by (auto simp: voted_indices_def Let_def shifted_bit hi)
qed

text \<open>
  The voter bit set is read exactly: it is accepted if and only if every set bit names one
  of the \<open>n\<close> validators (so a bit above the range is refused even when the population count
  alone would pass), and the returned indices are the set bits in increasing order.
\<close>

lemma voted_indices_spec:
  "voted_indices w n = Inr is \<longleftrightarrow>
     voters w \<subseteq> {..<n} \<and> is = sorted_list_of_set (voters w)"
proof -
  have "filter (\<lambda>i. bit w i) [0..<64] = sorted_list_of_set (voters w)"
    using set_filter_voters [of w]
    by (intro sorted_distinct_set_unique) (auto simp: sorted_wrt_filter)
  then show ?thesis by (auto simp: voted_indices_iff voters_def)
qed

lemma signature_ok_voters:
  assumes "verify_attestation_signature X att vs = Inr ()"
  shows "voters (va_vote_address_set att) \<subseteq> {..<length vs}"
    and "2 * length vs \<le> 3 * card (voters (va_vote_address_set att))"
    and "0 < card (voters (va_vote_address_set att))"
proof -
  let ?w = "va_vote_address_set att"
  obtain "is" keys where i: "voted_indices ?w (length vs) = Inr is" and ne: "is \<noteq> []"
    and k: "rmapM (validate_key X vs) is = Inr keys" "min_votes_for_finality (length vs) \<le> length keys"
    using assms by (auto simp: verify_attestation_signature_def res_simps Let_def split: if_splits)
  have eq: "\<forall>i. bit ?w i \<longrightarrow> i < length vs" "is = filter (\<lambda>i. bit ?w i) [0..<64]"
    using i by (auto simp: voted_indices_iff)
  have len: "length is = card (voters ?w)" using eq count_ones_voters [of ?w] by (simp add: count_ones_def)
  then have need: "min_votes_for_finality (length vs) \<le> card (voters ?w)"
    using rmapM_length [OF k(1)] k(2) by simp
  show "voters ?w \<subseteq> {..<length vs}" using eq(1) by (auto simp: voters_def)
  have "card (voters ?w) \<le> 64" using card_mono [OF _ voters_subset [of ?w]] by simp
  with need show "2 * length vs \<le> 3 * card (voters ?w)"
    by (auto simp: min_votes_for_finality_def sat_mul_def u64_max_def min_def split: if_splits)
  show "0 < card (voters ?w)" using ne len [symmetric] by simp
qed

text \<open>
  C21. Quorum intersection of fast finality: two attestations accepted against one validator
  set share at least a third of that set. With fewer than a third of the validators
  faulty, some honest validator signed both, which is what makes conflicting finality
  impossible.
\<close>

theorem quorum_intersection:
  assumes "verify_attestation_signature X a vs = Inr ()"
    and "verify_attestation_signature X b vs = Inr ()"
  shows "length vs \<le> 3 * card (voters (va_vote_address_set a) \<inter> voters (va_vote_address_set b))"
proof -
  let ?A = "voters (va_vote_address_set a)" and ?B = "voters (va_vote_address_set b)"
  note A = signature_ok_voters [OF assms(1)] and B = signature_ok_voters [OF assms(2)]
  have "card (?A \<union> ?B) \<le> length vs"
    using card_mono [of "{..<length vs}" "?A \<union> ?B"] A(1) B(1) by simp
  moreover have "card ?A + card ?B = card (?A \<union> ?B) + card (?A \<inter> ?B)"
    by (rule card_Un_Int) simp_all
  ultimately show ?thesis using A(2) B(2) by linarith
qed

definition sample_validators :: "sealing_validator list" where
  "sample_validators = replicate 3 \<lparr>sv_address = zeros 20, sv_vote_key = zeros 48\<rparr>"

definition sample_att :: "64 word \<Rightarrow> vote_attestation" where
  "sample_att w = \<lparr>va_vote_address_set = w, va_agg_signature = zeros 96,
     va_data = \<lparr>vd_source_number = 1, vd_source_hash = zeros 32,
                vd_target_number = 2, vd_target_hash = zeros 32\<rparr>, va_extra = []\<rparr>"

lemma sample_att_ok:
  "verify_attestation_signature refX (sample_att 3) sample_validators = Inr ()"
  "verify_attestation_signature refX (sample_att 6) sample_validators = Inr ()"
proof -
  have v: "voted_indices 3 3 = Inr [0, 1]" "voted_indices 6 3 = Inr [1, 2]" by code_simp+
  show "verify_attestation_signature refX (sample_att 3) sample_validators = Inr ()"
    "verify_attestation_signature refX (sample_att 6) sample_validators = Inr ()"
    by (simp_all add: verify_attestation_signature_def sample_att_def sample_validators_def v
        validate_key_def min_votes_for_finality_def sat_mul_def u64_max_def)
qed

theorem quorum_intersection_witness:
  "verify_attestation_signature refX (sample_att 3) sample_validators = Inr () \<and>
   verify_attestation_signature refX (sample_att 6) sample_validators = Inr () \<and>
   length sample_validators \<le> 3 * card (voters 3 \<inter> voters 6)"
  using quorum_intersection [OF sample_att_ok] sample_att_ok by (simp add: sample_att_def)

end
