(* ===== verification/Seal.thy ===== *)
theory Seal
  imports Extra Rlp Reference
begin

text \<open>
  Header hashing, ECDSA seal recovery and the header checks that need no snapshot
  (\<open>helios-bsc-consensus/src/seal.rs\<close>). The wall clock the source reads in
  \<open>verify_unsealed_fields\<close> is the argument \<open>now\<close>.
\<close>

section \<open>Errors and constants\<close>

datatype seal_error =
    SealTypes types_error
  | SealExtraTooShort
  | BadRecoveryId nat
  | Recover string
  | CoinbaseMismatch string string
  | SealBadDifficulty nat
  | InvalidUncles
  | InvalidGasUsed nat nat
  | InvalidBaseFee string
  | MissingBaseFee nat
  | UnexpectedBaseFee nat
  | InvalidGasLimit nat
  | InvalidMixDigest
  | InvalidParentBeaconRoot
  | HashMismatch
  | SealExtraTooLong
  | InvalidWithdrawalsRoot
  | TimestampTooEarly nat nat nat
  | OutOfTurnTooEarly nat nat nat nat
  | GasLimitBound nat nat nat
  | FutureBlock nat nat
  | InvalidNonce
  | SealExtra extra_error
  | SealMissingEpochExtra
  | InvalidTurnLength
  | DuplicateValidator

definition EMPTY_UNCLE_HASH :: bytes where
  "EMPTY_UNCLE_HASH =
     [0x1d, 0xcc, 0x4d, 0xe8, 0xde, 0xc7, 0x5d, 0x7a, 0xab, 0x85, 0xb5, 0x67, 0xb6, 0xcc, 0xd4, 0x1a,
      0xd3, 0x12, 0x45, 0x1b, 0x94, 0x8a, 0x74, 0x13, 0xf0, 0xa1, 0x42, 0xfd, 0x40, 0xd4, 0x93, 0x47]"

definition EMPTY_WITHDRAWALS_HASH :: bytes where
  "EMPTY_WITHDRAWALS_HASH =
     [0x56, 0xe8, 0x1f, 0x17, 0x1b, 0xcc, 0x55, 0xa6, 0xff, 0x83, 0x45, 0xe6, 0x92, 0xc0, 0xf8, 0x6e,
      0x5b, 0x48, 0xe0, 0x1b, 0x99, 0x6c, 0xad, 0xc0, 0x01, 0x62, 0x2f, 0xb5, 0xe3, 0x63, 0xb4, 0x21]"

definition GAS_LIMIT_MAX :: nat where "GAS_LIMIT_MAX = 9223372036854775807"
definition MIN_GAS_LIMIT :: nat where "MIN_GAS_LIMIT = 5000"
definition GAS_LIMIT_BOUND_DIVISOR :: nat where "GAS_LIMIT_BOUND_DIVISOR = 1024"
definition GAS_LIMIT_BOUND_DIVISOR_PRE_LORENTZ :: nat where "GAS_LIMIT_BOUND_DIVISOR_PRE_LORENTZ = 256"
definition EXTRA_MAX :: nat where "EXTRA_MAX = 102400"
definition MAX_FUTURE_SKEW_SECS :: nat where "MAX_FUTURE_SKEW_SECS = 15"
definition LORENTZ_INITIAL_BACKOFF_MS :: nat where "LORENTZ_INITIAL_BACKOFF_MS = 2000"
definition DEFAULT_INITIAL_BACKOFF_MS :: nat where "DEFAULT_INITIAL_BACKOFF_MS = 1000"

text \<open>The decoders with \<open>?\<close> into \<open>SealError\<close>.\<close>

definition s_hex :: "('pk, 'sg) ext \<Rightarrow> string \<Rightarrow> (seal_error, bytes) result" where
  "s_hex X s = map_err SealTypes (decode_hex X s)"

definition s_fixed :: "('pk, 'sg) ext \<Rightarrow> nat \<Rightarrow> string \<Rightarrow> (seal_error, bytes) result" where
  "s_fixed X n s = map_err SealTypes (decode_hex_fixed X n s)"

definition s_u64 :: "string \<Rightarrow> (seal_error, nat) result" where
  "s_u64 s = map_err SealTypes (decode_u64 s)"

section \<open>Hashes\<close>

definition seal_hash ::
    "('pk, 'sg) ext \<Rightarrow> rpc_block_header \<Rightarrow> nat \<Rightarrow> (seal_error, bytes) result" where
  "seal_hash X h chain_id =
     rbind (s_hex X (h_extra_data h)) (\<lambda>extra.
     if length extra < EXTRA_VANITY + EXTRA_SEAL then Inl SealExtraTooShort
     else
     let extra_wo_seal = take (length extra - EXTRA_SEAL) extra in
     rbind (s_fixed X 32 (h_parent_hash h)) (\<lambda>parent.
     rbind (s_fixed X 32 (h_sha3_uncles h)) (\<lambda>uncle.
     rbind (s_fixed X 20 (h_miner h)) (\<lambda>coinbase.
     rbind (s_fixed X 32 (h_state_root h)) (\<lambda>root.
     rbind (s_fixed X 32 (h_transactions_root h)) (\<lambda>tx_hash.
     rbind (s_fixed X 32 (h_receipts_root h)) (\<lambda>receipt.
     rbind (s_hex X (h_logs_bloom h)) (\<lambda>bloom.
     rbind (s_u64 (h_difficulty h)) (\<lambda>difficulty.
     rbind (s_u64 (h_number h)) (\<lambda>number.
     rbind (s_u64 (h_gas_limit h)) (\<lambda>gas_limit.
     rbind (s_u64 (h_gas_used h)) (\<lambda>gas_used.
     rbind (s_u64 (h_timestamp h)) (\<lambda>time.
     rbind (s_fixed X 32 (h_mix_hash h)) (\<lambda>mix.
     rbind (s_fixed X 8 (h_nonce h)) (\<lambda>nonce.
     let items =
       [encode_uint chain_id, encode_bytes parent, encode_bytes uncle, encode_bytes coinbase,
        encode_bytes root, encode_bytes tx_hash, encode_bytes receipt, encode_bytes bloom,
        encode_uint difficulty, encode_uint number, encode_uint gas_limit, encode_uint gas_used,
        encode_uint time, encode_bytes extra_wo_seal, encode_bytes mix, encode_bytes nonce]
     in
     case h_parent_beacon_block_root h of
       None \<Rightarrow> Inr (keccak X (encode_list items))
     | Some beacon_s \<Rightarrow>
         rbind (ropt s_u64 (h_base_fee_per_gas h)) (\<lambda>base_fee.
         rbind (ropt (s_fixed X 32) (h_withdrawals_root h)) (\<lambda>withdrawals.
         rbind (ropt s_u64 (h_blob_gas_used h)) (\<lambda>blob_gas.
         rbind (ropt s_u64 (h_excess_blob_gas h)) (\<lambda>excess.
         rbind (s_fixed X 32 beacon_s) (\<lambda>beacon.
         let items2 = items @
           [encode_uint (case base_fee of None \<Rightarrow> 0 | Some n \<Rightarrow> n),
            encode_bytes (case withdrawals of None \<Rightarrow> zeros 32 | Some w \<Rightarrow> w),
            encode_uint (case blob_gas of None \<Rightarrow> 0 | Some n \<Rightarrow> n),
            encode_uint (case excess of None \<Rightarrow> 0 | Some n \<Rightarrow> n),
            encode_bytes beacon]
         in
         case h_requests_hash h of
           None \<Rightarrow> Inr (keccak X (encode_list items2))
         | Some req \<Rightarrow>
             rbind (s_fixed X 32 req) (\<lambda>r.
               Inr (keccak X (encode_list (items2 @ [encode_bytes r]))))))))))))))))))))))))"

definition encode_opt_uint :: "string option \<Rightarrow> (seal_error, bytes) result" where
  "encode_opt_uint s =
     (case s of None \<Rightarrow> Inr [0x80] | Some x \<Rightarrow> map_ok encode_uint (s_u64 x))"

definition encode_opt_hash :: "('pk, 'sg) ext \<Rightarrow> string option \<Rightarrow> (seal_error, bytes) result" where
  "encode_opt_hash X s =
     (case s of None \<Rightarrow> Inr [0x80] | Some x \<Rightarrow> map_ok encode_bytes (s_fixed X 32 x))"

text \<open>\<open>if b { items.push(x?) }\<close>\<close>

definition push_if ::
    "bool \<Rightarrow> (seal_error, bytes) result \<Rightarrow> bytes list \<Rightarrow> (seal_error, bytes list) result" where
  "push_if b x items = (if b then map_ok (\<lambda>y. items @ [y]) x else Inr items)"

text \<open>The fields every header has, decoded in the order of the source.\<close>

definition header_items :: "('pk, 'sg) ext \<Rightarrow> rpc_block_header \<Rightarrow> (seal_error, bytes list) result" where
  "header_items X h =
     rbind (s_fixed X 32 (h_parent_hash h)) (\<lambda>parent.
     rbind (s_fixed X 32 (h_sha3_uncles h)) (\<lambda>uncle.
     rbind (s_fixed X 20 (h_miner h)) (\<lambda>coinbase.
     rbind (s_fixed X 32 (h_state_root h)) (\<lambda>root.
     rbind (s_fixed X 32 (h_transactions_root h)) (\<lambda>tx_hash.
     rbind (s_fixed X 32 (h_receipts_root h)) (\<lambda>receipt.
     rbind (s_fixed X 256 (h_logs_bloom h)) (\<lambda>bloom.
     rbind (s_u64 (h_difficulty h)) (\<lambda>difficulty.
     rbind (s_u64 (h_number h)) (\<lambda>number.
     rbind (s_u64 (h_gas_limit h)) (\<lambda>gas_limit.
     rbind (s_u64 (h_gas_used h)) (\<lambda>gas_used.
     rbind (s_u64 (h_timestamp h)) (\<lambda>time.
     rbind (s_hex X (h_extra_data h)) (\<lambda>extra.
     rbind (s_fixed X 32 (h_mix_hash h)) (\<lambda>mix.
     rbind (s_fixed X 8 (h_nonce h)) (\<lambda>nonce.
       Inr [encode_bytes parent, encode_bytes uncle, encode_bytes coinbase, encode_bytes root,
            encode_bytes tx_hash, encode_bytes receipt, encode_bytes bloom, encode_uint difficulty,
            encode_uint number, encode_uint gas_limit, encode_uint gas_used, encode_uint time,
            encode_bytes extra, encode_bytes mix, encode_bytes nonce])))))))))))))))"

text \<open>The RLP encoding that is hashed: an optional field is written, empty if absent, as soon as a
  later one is present.\<close>

definition header_encoding :: "('pk, 'sg) ext \<Rightarrow> rpc_block_header \<Rightarrow> (seal_error, bytes) result" where
  "header_encoding X h =
     rbind (header_items X h) (\<lambda>items.
     let has_base = h_base_fee_per_gas h \<noteq> None;
         has_wd = h_withdrawals_root h \<noteq> None;
         has_blob = h_blob_gas_used h \<noteq> None;
         has_excess = h_excess_blob_gas h \<noteq> None;
         has_beacon = h_parent_beacon_block_root h \<noteq> None;
         has_req = h_requests_hash h \<noteq> None
     in
     rbind (push_if (has_base \<or> has_wd \<or> has_blob \<or> has_excess \<or> has_beacon \<or> has_req)
              (encode_opt_uint (h_base_fee_per_gas h)) items) (\<lambda>items.
     rbind (push_if (has_wd \<or> has_blob \<or> has_excess \<or> has_beacon \<or> has_req)
              (encode_opt_hash X (h_withdrawals_root h)) items) (\<lambda>items.
     rbind (push_if (has_blob \<or> has_excess \<or> has_beacon \<or> has_req)
              (encode_opt_uint (h_blob_gas_used h)) items) (\<lambda>items.
     rbind (push_if (has_excess \<or> has_beacon \<or> has_req)
              (encode_opt_uint (h_excess_blob_gas h)) items) (\<lambda>items.
     rbind (push_if (has_beacon \<or> has_req)
              (encode_opt_hash X (h_parent_beacon_block_root h)) items) (\<lambda>items.
     rbind (push_if has_req (encode_opt_hash X (h_requests_hash h)) items) (\<lambda>items.
       Inr (encode_list items))))))))"

definition header_hash :: "('pk, 'sg) ext \<Rightarrow> rpc_block_header \<Rightarrow> (seal_error, bytes) result" where
  "header_hash X h = map_ok (keccak X) (header_encoding X h)"

definition verify_header_hash :: "('pk, 'sg) ext \<Rightarrow> rpc_block_header \<Rightarrow> (seal_error, bytes) result" where
  "verify_header_hash X h =
     rbind (header_hash X h) (\<lambda>computed.
     rbind (s_fixed X 32 (h_hash h)) (\<lambda>claimed.
       if computed \<noteq> claimed then Inl HashMismatch else Inr computed))"

section \<open>Seal\<close>

definition ecrecover :: "('pk, 'sg) ext \<Rightarrow> bytes \<Rightarrow> bytes \<Rightarrow> (seal_error, bytes) result" where
  "ecrecover X digest seal =
     (if length seal \<noteq> EXTRA_SEAL then Inl SealExtraTooShort
      else
        let raw = unat (seal ! 64); v = (if 27 \<le> raw then raw - 27 else raw) in
        if \<not> rec_id_ok X v then Inl (BadRecoveryId raw)
        else
          rbind (map_err Recover (secp_recover X digest (take 64 seal) v)) (\<lambda>pk.
            map_err SealTypes (address_from_pubkey_uncompressed X pk)))"

definition recover_signer ::
    "('pk, 'sg) ext \<Rightarrow> rpc_block_header \<Rightarrow> nat \<Rightarrow> (seal_error, bytes) result" where
  "recover_signer X h chain_id =
     rbind (s_hex X (h_extra_data h)) (\<lambda>extra.
     if length extra < EXTRA_SEAL then Inl SealExtraTooShort
     else
       let seal = drop (length extra - EXTRA_SEAL) extra in
       rbind (seal_hash X h chain_id) (\<lambda>digest. ecrecover X digest seal))"

section \<open>Header checks\<close>

definition verify_timestamp_not_future :: "rpc_block_header \<Rightarrow> nat \<Rightarrow> (seal_error, unit) result" where
  "verify_timestamp_not_future h now_unix =
     rbind (s_u64 (h_timestamp h)) (\<lambda>time.
       if sat_add now_unix MAX_FUTURE_SKEW_SECS < time then Inl (FutureBlock time now_unix) else Inr ())"

definition milli_timestamp :: "('pk, 'sg) ext \<Rightarrow> rpc_block_header \<Rightarrow> (seal_error, nat) result" where
  "milli_timestamp X h =
     rbind (s_u64 (h_timestamp h)) (\<lambda>time.
     rbind (s_fixed X 32 (h_mix_hash h)) (\<lambda>mix.
       if time < LORENTZ_TIME then Inr (sat_mul time 1000)
       else
         let ms = be_nat [mix ! 30, mix ! 31]
         in Inr (sat_add (sat_mul time 1000) ms)))"

definition verify_base_fee :: "rpc_block_header \<Rightarrow> (seal_error, unit) result" where
  "verify_base_fee h =
     rbind (s_u64 (h_number h)) (\<lambda>number.
       case h_base_fee_per_gas h of
         None \<Rightarrow> if LONDON_BLOCK \<le> number then Inl (MissingBaseFee number) else Inr ()
       | Some raw \<Rightarrow>
           if number < LONDON_BLOCK then Inl (UnexpectedBaseFee number)
           else (case decode_u64 raw of
                   Inr 0 \<Rightarrow> Inr ()
                 | _ \<Rightarrow> Inl (InvalidBaseFee raw)))"

definition verify_extra_layout :: "('pk, 'sg) ext \<Rightarrow> rpc_block_header \<Rightarrow> (seal_error, unit) result" where
  "verify_extra_layout X h =
     rbind (s_hex X (h_extra_data h)) (\<lambda>extra.
     rbind (s_u64 (h_number h)) (\<lambda>number.
     rbind (s_u64 (h_timestamp h)) (\<lambda>time.
     let p = params_at number time;
         is_epoch = (number mod fp_epoch_length p = 0)
     in
     rbind (map_err SealExtra (parse_extra extra (fp_extra_data_version p) is_epoch)) (\<lambda>parsed.
       if \<not> is_epoch then Inr ()
       else if pe_validators parsed = [] then Inl SealMissingEpochExtra
       else if \<not> distinct (map sv_address (pe_validators parsed)) then Inl DuplicateValidator
       else if fp_extra_data_version p = Bohr then
         (case pe_turn_length parsed of
            Some t \<Rightarrow> if 0 < t \<and> unat t \<le> MAX_TURN_LENGTH then Inr () else Inl InvalidTurnLength
          | None \<Rightarrow> Inl InvalidTurnLength)
       else Inr ()))))"

definition verify_mix_digest :: "('pk, 'sg) ext \<Rightarrow> rpc_block_header \<Rightarrow> nat \<Rightarrow> bytes \<Rightarrow> (seal_error, unit) result" where
  "verify_mix_digest X h time mix =
     (if time < LORENTZ_TIME then (if mix \<noteq> zeros 32 then Inl InvalidMixDigest else Inr ())
      else
        rbind (milli_timestamp X h) (\<lambda>milli.
          if milli div 1000 \<noteq> time then Inl InvalidMixDigest else Inr ()))"

definition verify_beacon_root :: "('pk, 'sg) ext \<Rightarrow> rpc_block_header \<Rightarrow> nat \<Rightarrow> (seal_error, unit) result" where
  "verify_beacon_root X h time =
     (if BOHR_TIME \<le> time then
        (case h_parent_beacon_block_root h of
           None \<Rightarrow> Inl InvalidParentBeaconRoot
         | Some root \<Rightarrow>
             rbind (s_fixed X 32 root) (\<lambda>got.
               if got \<noteq> zeros 32 then Inl InvalidParentBeaconRoot else Inr ()))
      else Inr ())"

definition verify_withdrawals :: "('pk, 'sg) ext \<Rightarrow> rpc_block_header \<Rightarrow> (seal_error, unit) result" where
  "verify_withdrawals X h =
     (case h_withdrawals_root h of
        None \<Rightarrow> Inr ()
      | Some w \<Rightarrow>
          rbind (s_fixed X 32 w) (\<lambda>got.
            if got \<noteq> EMPTY_WITHDRAWALS_HASH then Inl InvalidWithdrawalsRoot else Inr ()))"

definition verify_unsealed_fields ::
    "('pk, 'sg) ext \<Rightarrow> nat \<Rightarrow> rpc_block_header \<Rightarrow> (seal_error, unit) result" where
  "verify_unsealed_fields X now h =
     rbind (s_hex X (h_extra_data h)) (\<lambda>extra.
     if EXTRA_MAX < length extra then Inl SealExtraTooLong
     else
     rbind (s_fixed X 32 (h_sha3_uncles h)) (\<lambda>uncles.
     if uncles \<noteq> EMPTY_UNCLE_HASH then Inl InvalidUncles
     else
     rbind (s_u64 (h_gas_limit h)) (\<lambda>gas_limit.
     if GAS_LIMIT_MAX < gas_limit then Inl (InvalidGasLimit gas_limit)
     else
     rbind (s_u64 (h_gas_used h)) (\<lambda>gas_used.
     if gas_limit < gas_used then Inl (InvalidGasUsed gas_used gas_limit)
     else
     rbind (verify_base_fee h) (\<lambda>_.
     rbind (s_u64 (h_timestamp h)) (\<lambda>time.
     rbind (s_fixed X 32 (h_mix_hash h)) (\<lambda>mix.
     rbind (verify_mix_digest X h time mix) (\<lambda>_.
     rbind (verify_beacon_root X h time) (\<lambda>_.
     rbind (verify_withdrawals X h) (\<lambda>_.
     rbind (s_fixed X 8 (h_nonce h)) (\<lambda>nonce.
     if nonce \<noteq> zeros 8 then Inl InvalidNonce
     else
     rbind (verify_timestamp_not_future h now) (\<lambda>_. verify_extra_layout X h))))))))))))"

definition verify_cascading_vs_parent ::
    "('pk, 'sg) ext \<Rightarrow> nat \<Rightarrow> nat \<Rightarrow> rpc_block_header \<Rightarrow> (seal_error, unit) result" where
  "verify_cascading_vs_parent X parent_milli parent_gas_limit h =
     (if parent_gas_limit = 0 then Inr ()
      else
        rbind (s_u64 (h_number h)) (\<lambda>number.
        rbind (s_u64 (h_timestamp h)) (\<lambda>time.
        let interval = fp_block_interval_ms (params_at number time) in
        rbind (milli_timestamp X h) (\<lambda>got_milli.
        let min_milli = sat_add parent_milli interval in
        if got_milli < min_milli then Inl (TimestampTooEarly got_milli parent_milli interval)
        else
        rbind (s_u64 (h_gas_limit h)) (\<lambda>gas.
        if gas < MIN_GAS_LIMIT then Inl (InvalidGasLimit gas)
        else
          let divisor = (if LORENTZ_TIME \<le> time then GAS_LIMIT_BOUND_DIVISOR
                         else GAS_LIMIT_BOUND_DIVISOR_PRE_LORENTZ);
              bound = parent_gas_limit div divisor;
              diff = (parent_gas_limit - gas) + (gas - parent_gas_limit)
          in if bound \<le> diff then Inl (GasLimitBound gas parent_gas_limit bound) else Inr ())))))"

record backoff_context =
  bc_parent_milli :: nat
  bc_known :: bool
  bc_in_turn_signed_recently :: bool

definition verify_out_of_turn_backoff ::
    "('pk, 'sg) ext \<Rightarrow> backoff_context \<Rightarrow> rpc_block_header \<Rightarrow> (seal_error, unit) result" where
  "verify_out_of_turn_backoff X ctx h =
     (if \<not> bc_known ctx \<or> bc_in_turn_signed_recently ctx then Inr ()
      else
        rbind (s_u64 (h_difficulty h)) (\<lambda>difficulty.
        if difficulty \<noteq> DIFF_NO_TURN then Inr ()
        else
          let parent_time = bc_parent_milli ctx div 1000;
              backoff = (if LORENTZ_TIME \<le> parent_time then LORENTZ_INITIAL_BACKOFF_MS
                         else DEFAULT_INITIAL_BACKOFF_MS)
          in
          rbind (s_u64 (h_number h)) (\<lambda>number.
          rbind (s_u64 (h_timestamp h)) (\<lambda>time.
          let interval = fp_block_interval_ms (params_at number time) in
          rbind (milli_timestamp X h) (\<lambda>got.
          let floor = sat_add (sat_add (bc_parent_milli ctx) interval) backoff
          in if got < floor then Inl (OutOfTurnTooEarly got (bc_parent_milli ctx) interval backoff)
             else Inr ())))))"

definition assert_difficulty_range :: "nat \<Rightarrow> (seal_error, unit) result" where
  "assert_difficulty_range difficulty =
     (if difficulty \<noteq> DIFF_NO_TURN \<and> difficulty \<noteq> DIFF_IN_TURN
      then Inl (SealBadDifficulty difficulty) else Inr ())"

definition verify_seal_coinbase ::
    "('pk, 'sg) ext \<Rightarrow> nat \<Rightarrow> rpc_block_header \<Rightarrow> (seal_error, bytes) result" where
  "verify_seal_coinbase X now h =
     rbind (verify_unsealed_fields X now h) (\<lambda>_.
     rbind (s_u64 (h_difficulty h)) (\<lambda>difficulty.
     rbind (assert_difficulty_range difficulty) (\<lambda>_.
     rbind (recover_signer X h BSC_MAINNET_CHAIN_ID) (\<lambda>recovered.
     rbind (s_fixed X 20 (h_miner h)) (\<lambda>miner.
     if recovered \<noteq> miner
     then Inl (CoinbaseMismatch (format_address X recovered) (format_address X miner))
     else
     rbind (verify_header_hash X h) (\<lambda>_. Inr recovered))))))"

section \<open>What a header hash commits to\<close>

text \<open>The decoded values of the fifteen fields every header carries.\<close>

definition byte_view :: "('pk, 'sg) ext \<Rightarrow> rpc_block_header \<Rightarrow> (types_error, bytes) result list" where
  "byte_view X h =
     [decode_hex_fixed X 32 (h_parent_hash h), decode_hex_fixed X 32 (h_sha3_uncles h),
      decode_hex_fixed X 20 (h_miner h), decode_hex_fixed X 32 (h_state_root h),
      decode_hex_fixed X 32 (h_transactions_root h), decode_hex_fixed X 32 (h_receipts_root h),
      decode_hex_fixed X 256 (h_logs_bloom h), decode_hex X (h_extra_data h),
      decode_hex_fixed X 32 (h_mix_hash h), decode_hex_fixed X 8 (h_nonce h)]"

definition quantity_view :: "rpc_block_header \<Rightarrow> (types_error, nat) result list" where
  "quantity_view h =
     [decode_u64 (h_difficulty h), decode_u64 (h_number h), decode_u64 (h_gas_limit h),
      decode_u64 (h_gas_used h), decode_u64 (h_timestamp h)]"

text \<open>
  The optional fields. The encoding writes an absent quantity like zero and an absent hash as the empty string, so that is
  how they are read; \<open>written\<close> is how many of the six are written at all.
\<close>

definition opt_u64 :: "string option \<Rightarrow> (types_error, nat) result" where
  "opt_u64 v = (case v of None \<Rightarrow> Inr 0 | Some t \<Rightarrow> decode_u64 t)"

definition opt_hash :: "('pk, 'sg) ext \<Rightarrow> string option \<Rightarrow> (types_error, bytes) result" where
  "opt_hash X v = (case v of None \<Rightarrow> Inr [] | Some t \<Rightarrow> decode_hex_fixed X 32 t)"

definition written :: "rpc_block_header \<Rightarrow> nat" where
  "written h =
     (if h_requests_hash h \<noteq> None then 6 else if h_parent_beacon_block_root h \<noteq> None then 5
      else if h_excess_blob_gas h \<noteq> None then 4 else if h_blob_gas_used h \<noteq> None then 3
      else if h_withdrawals_root h \<noteq> None then 2 else if h_base_fee_per_gas h \<noteq> None then 1 else 0)"

definition optional_quantities :: "rpc_block_header \<Rightarrow> (types_error, nat) result list" where
  "optional_quantities h = [opt_u64 (h_base_fee_per_gas h), opt_u64 (h_blob_gas_used h), opt_u64 (h_excess_blob_gas h)]"

definition optional_hashes :: "('pk, 'sg) ext \<Rightarrow> rpc_block_header \<Rightarrow> (types_error, bytes) result list" where
  "optional_hashes X h =
     [opt_hash X (h_withdrawals_root h), opt_hash X (h_parent_beacon_block_root h), opt_hash X (h_requests_hash h)]"

lemmas s_defs = s_hex_def s_fixed_def s_u64_def

lemma s_u64_iff [res_simps]: "s_u64 s = Inr n \<longleftrightarrow> decode_u64 s = Inr n"
  by (simp add: s_u64_def res_simps)

lemma s_hex_iff [res_simps]: "s_hex X s = Inr b \<longleftrightarrow> decode_hex X s = Inr b"
  by (simp add: s_hex_def res_simps)

lemma s_fixed_iff [res_simps]: "s_fixed X n s = Inr b \<longleftrightarrow> decode_hex_fixed X n s = Inr b"
  by (simp add: s_fixed_def res_simps)

lemma encode_bytes_Nil: "encode_bytes [] = [0x80]"
  by (simp add: encode_bytes_def encode_string_def)

lemma header_items_fields:
  assumes "header_items X h = Inr items"
  obtains bs ns where "byte_view X h = map Inr bs" "quantity_view h = map Inr ns"
    "list_all is_u64 ns" "length bs = 10" "length ns = 5"
    "items = map encode_bytes (take 7 bs @ map uint_bytes ns @ drop 7 bs)"
proof -
  obtain parent uncle coinbase root tx_hash receipt bloom difficulty number gas_limit gas_used time extra mix nonce
    where d: "decode_hex_fixed X 32 (h_parent_hash h) = Inr parent" "decode_hex_fixed X 32 (h_sha3_uncles h) = Inr uncle"
      "decode_hex_fixed X 20 (h_miner h) = Inr coinbase" "decode_hex_fixed X 32 (h_state_root h) = Inr root"
      "decode_hex_fixed X 32 (h_transactions_root h) = Inr tx_hash"
      "decode_hex_fixed X 32 (h_receipts_root h) = Inr receipt" "decode_hex_fixed X 256 (h_logs_bloom h) = Inr bloom"
      "decode_hex X (h_extra_data h) = Inr extra" "decode_hex_fixed X 32 (h_mix_hash h) = Inr mix"
      "decode_hex_fixed X 8 (h_nonce h) = Inr nonce"
    and n: "decode_u64 (h_difficulty h) = Inr difficulty" "decode_u64 (h_number h) = Inr number"
      "decode_u64 (h_gas_limit h) = Inr gas_limit" "decode_u64 (h_gas_used h) = Inr gas_used"
      "decode_u64 (h_timestamp h) = Inr time"
    and items: "items = [encode_bytes parent, encode_bytes uncle, encode_bytes coinbase, encode_bytes root,
            encode_bytes tx_hash, encode_bytes receipt, encode_bytes bloom, encode_uint difficulty,
            encode_uint number, encode_uint gas_limit, encode_uint gas_used, encode_uint time,
            encode_bytes extra, encode_bytes mix, encode_bytes nonce]"
    using assms unfolding header_items_def by (auto simp: res_simps)
  note u = n [THEN decode_u64_is_u64]
  show thesis
    by (rule that [of "[parent, uncle, coinbase, root, tx_hash, receipt, bloom, extra, mix, nonce]"
          "[difficulty, number, gas_limit, gas_used, time]"])
       (simp_all add: byte_view_def quantity_view_def d n u items encode_uint_eq)
qed

lemma uint_bytes_zero: "uint_bytes 0 = []"
  by code_simp

lemma encode_opt_uint_Inr:
  assumes "encode_opt_uint v = Inr e"
  shows "\<exists>n. opt_u64 v = Inr n \<and> is_u64 n \<and> e = encode_bytes (uint_bytes n)"
proof (cases v)
  case (Some t)
  then obtain n where n: "decode_u64 t = Inr n" "e = encode_uint n" using assms by (auto simp: encode_opt_uint_def res_simps)
  then show ?thesis using Some decode_u64_is_u64 [OF n(1)] encode_uint_eq by (simp add: opt_u64_def)
qed (use assms in \<open>simp add: encode_opt_uint_def opt_u64_def uint_bytes_zero encode_bytes_Nil is_u64_def\<close>)

lemma encode_opt_hash_Inr:
  assumes "encode_opt_hash X v = Inr e"
  shows "\<exists>b. opt_hash X v = Inr b \<and> length b \<le> 32 \<and> e = encode_bytes b"
proof (cases v)
  case (Some t)
  then obtain b where b: "decode_hex_fixed X 32 t = Inr b" "e = encode_bytes b" using assms by (auto simp: encode_opt_hash_def res_simps)
  then show ?thesis using Some decode_hex_fixed_length [OF b(1)] by (simp add: opt_hash_def)
qed (use assms in \<open>simp add: encode_opt_hash_def opt_hash_def encode_bytes_Nil\<close>)

lemma encode_opt_None: "encode_opt_uint None = Inr [0x80]" "encode_opt_hash X None = Inr [0x80]"
  by (simp_all add: encode_opt_uint_def encode_opt_hash_def)

text \<open>The strings of the optional fields in the order of the encoding, of which the first \<open>written\<close> are written.\<close>

definition optional_bytes :: "nat list \<Rightarrow> bytes list \<Rightarrow> bytes list" where
  "optional_bytes ns bs = [uint_bytes (ns ! 0), bs ! 0, uint_bytes (ns ! 1), uint_bytes (ns ! 2), bs ! 1, bs ! 2]"

lemma header_hash_fields:
  assumes "header_hash X h = Inr d"
  obtains items ns bs where "header_items X h = Inr items" "optional_quantities h = map Inr ns" "optional_hashes X h = map Inr bs"
    "length ns = 3" "length bs = 3" "list_all is_u64 ns" "list_all (\<lambda>b. length b \<le> 32) bs"
    "header_encoding X h = Inr (encode_list (items @ map encode_bytes (take (written h) (optional_bytes ns bs))))"
    "d = keccak X (encode_list (items @ map encode_bytes (take (written h) (optional_bytes ns bs))))"
proof -
  note opt = encode_opt_uint_def encode_opt_hash_def
  obtain items e1 e2 e3 e4 e5 e6 where i: "header_items X h = Inr items"
    and e: "encode_opt_uint (h_base_fee_per_gas h) = Inr e1" "encode_opt_hash X (h_withdrawals_root h) = Inr e2"
      "encode_opt_uint (h_blob_gas_used h) = Inr e3" "encode_opt_uint (h_excess_blob_gas h) = Inr e4"
      "encode_opt_hash X (h_parent_beacon_block_root h) = Inr e5" "encode_opt_hash X (h_requests_hash h) = Inr e6"
    and enc: "header_encoding X h = Inr (encode_list (items @ take (written h) [e1, e2, e3, e4, e5, e6]))"
  proof -
    consider "h_requests_hash h \<noteq> None" | "h_requests_hash h = None" "h_parent_beacon_block_root h \<noteq> None"
      | "h_requests_hash h = None" "h_parent_beacon_block_root h = None" "h_excess_blob_gas h \<noteq> None"
      | "h_requests_hash h = None" "h_parent_beacon_block_root h = None" "h_excess_blob_gas h = None" "h_blob_gas_used h \<noteq> None"
      | "h_requests_hash h = None" "h_parent_beacon_block_root h = None" "h_excess_blob_gas h = None" "h_blob_gas_used h = None"
        "h_withdrawals_root h \<noteq> None"
      | "h_requests_hash h = None" "h_parent_beacon_block_root h = None" "h_excess_blob_gas h = None" "h_blob_gas_used h = None"
        "h_withdrawals_root h = None"
      by blast
    then show thesis
    proof cases
      case 6
      then show thesis using assms that [where ?e2.0 = "[0x80]"]
        by (cases "h_base_fee_per_gas h") (auto simp: header_hash_def header_encoding_def push_if_def written_def opt res_simps Let_def)
    qed (use assms that in \<open>auto simp: header_hash_def header_encoding_def push_if_def written_def res_simps Let_def encode_opt_None\<close>)
  qed
  obtain n1 where n1: "opt_u64 (h_base_fee_per_gas h) = Inr n1" "is_u64 n1" "e1 = encode_bytes (uint_bytes n1)" using encode_opt_uint_Inr [OF e(1)] by blast
  obtain n2 where n2: "opt_u64 (h_blob_gas_used h) = Inr n2" "is_u64 n2" "e3 = encode_bytes (uint_bytes n2)" using encode_opt_uint_Inr [OF e(3)] by blast
  obtain n3 where n3: "opt_u64 (h_excess_blob_gas h) = Inr n3" "is_u64 n3" "e4 = encode_bytes (uint_bytes n3)" using encode_opt_uint_Inr [OF e(4)] by blast
  obtain b1 where b1: "opt_hash X (h_withdrawals_root h) = Inr b1" "length b1 \<le> 32" "e2 = encode_bytes b1" using encode_opt_hash_Inr [OF e(2)] by blast
  obtain b2 where b2: "opt_hash X (h_parent_beacon_block_root h) = Inr b2" "length b2 \<le> 32" "e5 = encode_bytes b2" using encode_opt_hash_Inr [OF e(5)] by blast
  obtain b3 where b3: "opt_hash X (h_requests_hash h) = Inr b3" "length b3 \<le> 32" "e6 = encode_bytes b3" using encode_opt_hash_Inr [OF e(6)] by blast
  have "[e1, e2, e3, e4, e5, e6] = map encode_bytes (optional_bytes [n1, n2, n3] [b1, b2, b3])"
    by (simp add: optional_bytes_def n1 n2 n3 b1 b2 b3)
  then have "header_encoding X h = Inr (encode_list (items @ map encode_bytes (take (written h) (optional_bytes [n1, n2, n3] [b1, b2, b3]))))"
    using enc by (simp add: take_map)
  then show thesis using i n1 n2 n3 b1 b2 b3 assms
    by (intro that [of items "[n1, n2, n3]" "[b1, b2, b3]"]) (simp_all add: optional_quantities_def optional_hashes_def header_hash_def)
qed

lemma written_le: "written h \<le> 6"
  by (simp add: written_def)

lemma length_optional_bytes [simp]: "length (optional_bytes ns bs) = 6"
  by (simp add: optional_bytes_def)

lemma unwritten_empty:
  assumes "optional_quantities h = map Inr ns" "optional_hashes X h = map Inr bs" "length ns = 3" "length bs = 3"
  shows "drop (written h) (optional_bytes ns bs) = replicate (6 - written h) []"
  using assms
  by (auto simp: written_def optional_bytes_def optional_quantities_def optional_hashes_def opt_u64_def opt_hash_def uint_bytes_zero
      eval_nat_numeral length_Suc_conv)

text \<open>What is written determines the optional fields.\<close>

lemma optional_bytes_determined:
  assumes "take (written h) (optional_bytes ns bs) = take (written h') (optional_bytes ms cs)"
    and "optional_quantities h = map Inr ns" "optional_hashes X h = map Inr bs" "length ns = 3" "length bs = 3" "list_all is_u64 ns"
    and "optional_quantities h' = map Inr ms" "optional_hashes X h' = map Inr cs" "length ms = 3" "length cs = 3" "list_all is_u64 ms"
  shows "written h = written h'" "ns = ms" "bs = cs"
proof -
  show w: "written h = written h'"
    using arg_cong [OF assms(1), of length] written_le [of h] written_le [of h'] by simp
  have "optional_bytes ns bs = optional_bytes ms cs"
    using assms(1) unwritten_empty [OF assms(2-5)] unwritten_empty [OF assms(7-10)] w by (metis append_take_drop_id)
  moreover have "uint_bytes n = uint_bytes m \<Longrightarrow> n = m" if "is_u64 n" "is_u64 m" for n m
    using uint_bytes(1) that by metis
  ultimately show "ns = ms" "bs = cs"
    using assms(4,5,6,9,10,11) by (auto simp: optional_bytes_def eval_nat_numeral length_Suc_conv)
qed

lemma optional_bytes_small:
  assumes "list_all is_u64 ns" "list_all (\<lambda>b. length b \<le> 32) bs" "length ns = 3" "length bs = 3"
  shows "list_all (\<lambda>b. length b \<le> 32) (take w (optional_bytes ns bs))" "length (take w (optional_bytes ns bs)) \<le> 6"
proof -
  have "length (uint_bytes n) \<le> 32" if "is_u64 n" for n using uint_bytes(2) [OF that] by simp
  then have "list_all (\<lambda>b. length b \<le> 32) (optional_bytes ns bs)"
    using assms by (auto simp: optional_bytes_def eval_nat_numeral length_Suc_conv)
  then show "list_all (\<lambda>b. length b \<le> 32) (take w (optional_bytes ns bs))" by (auto simp: list_all_iff dest: in_set_takeD)
qed simp

lemma bytes_list_small:
  assumes "sum_list (map (\<lambda>b. length b + 9) bs) \<le> u64_max"
  shows "rlp_small (RList (map RBytes bs))"
proof -
  have each: "is_u64 (length b)" if "b \<in> set bs" for b
    using member_le_sum_list [of "length b + 9" "map (\<lambda>b. length b + 9) bs"] that assms
    by (auto simp: is_u64_def)
  have enc: "length (encode_bytes b) \<le> length b + 9" if "b \<in> set bs" for b
    using each [OF that]
  proof (cases rule: frame_cases [where l = False])
    case (long c lb)
    have "0 < length b" using long by linarith
    then have "length lb \<le> 8" using len_be_pos(4) [of "length b"] each [OF that] long by simp
    with long show ?thesis by (simp add: frame_def)
  qed (auto simp: frame_def)
  have "length (concat (map encode_bytes bs)) = sum_list (map (\<lambda>b. length (encode_bytes b)) bs)"
    by (simp add: length_concat comp_def)
  also have "\<dots> \<le> sum_list (map (\<lambda>b. length b + 9) bs)"
    using enc by (intro sum_list_mono)
  finally have "is_u64 (length (concat (map encode_bytes bs)))" using assms by (simp add: is_u64_def)
  with each show ?thesis by (simp add: list_all_iff comp_def)
qed

lemma encode_bytes_list_inj:
  assumes "encode_list (map encode_bytes as) = encode_list (map encode_bytes bs)"
    and "sum_list (map (\<lambda>b. length b + 9) as) \<le> u64_max" "sum_list (map (\<lambda>b. length b + 9) bs) \<le> u64_max"
  shows "as = bs"
proof -
  have d: "rlp_depth (RList (map RBytes xs)) + 1 \<le> Suc MAX_RLP_DEPTH" for xs
    by (induction xs) (auto simp: MAX_RLP_DEPTH_def)
  have "RList (map RBytes as) = RList (map RBytes bs)"
    using assms by (intro exec_rlp.encode_inj bytes_list_small d) (simp_all add: comp_def)
  then show ?thesis by (simp add: inj_map_eq_map inj_def)
qed

lemma accepted_items_small:
  assumes "byte_view X h = map Inr bs" "length bs = 10" "list_all is_u64 ns" "length ns = 5"
    and "length (bs ! 7) \<le> EXTRA_MAX" "list_all (\<lambda>b. length b \<le> 32) es" "length es \<le> 6"
  shows "sum_list (map (\<lambda>b. length b + 9) ((take 7 bs @ map uint_bytes ns @ drop 7 bs) @ es)) \<le> u64_max"
proof -
  have b: "length b \<le> 102400" if "b \<in> set bs" for b
  proof -
    obtain i where i: "i < 10" "b = bs ! i" using \<open>b \<in> set bs\<close> assms(2) by (auto simp: in_set_conv_nth)
    have "byte_view X h ! i = Inr b" using assms(1) i assms(2) by simp
    moreover have "i = 0 \<or> i = 1 \<or> i = 2 \<or> i = 3 \<or> i = 4 \<or> i = 5 \<or> i = 6 \<or> i = 7 \<or> i = 8 \<or> i = 9"
      using i(1) by arith
    ultimately show ?thesis
      using assms(5) i(2) by (auto simp: byte_view_def EXTRA_MAX_def dest!: decode_hex_fixed_length)
  qed
  have le: "sum_list (map (\<lambda>b. length b + 9) xs) \<le> length xs * 102409"
    if "\<forall>b \<in> set xs. length b \<le> 102400" for xs :: "bytes list"
    using that by (induction xs) auto
  have "length (uint_bytes n) \<le> 102400" if "n \<in> set ns" for n
    using assms(3) that uint_bytes(2) [of n] by (auto simp: list_all_iff)
  then have "\<forall>b \<in> set ((take 7 bs @ map uint_bytes ns @ drop 7 bs) @ es). length b \<le> 102400"
    using b assms(6) by (auto simp: list_all_iff dest!: in_set_takeD in_set_dropD)
  from le [OF this] assms(2,4,7) show ?thesis by (simp add: u64_max_def)
qed

lemma verify_seal_coinbase_Inr:
  assumes "verify_seal_coinbase X now h = Inr signer"
  shows "verify_unsealed_fields X now h = Inr ()" "recover_signer X h BSC_MAINNET_CHAIN_ID = Inr signer"
    "decode_hex_fixed X 20 (h_miner h) = Inr signer"
    "\<exists>d. header_hash X h = Inr d \<and> decode_hex_fixed X 32 (h_hash h) = Inr d"
    "\<exists>n. decode_u64 (h_difficulty h) = Inr n \<and> (n = DIFF_NO_TURN \<or> n = DIFF_IN_TURN)"
  using assms
  by (auto simp: verify_seal_coinbase_def verify_header_hash_def assert_difficulty_range_def res_simps
      split: if_splits)

lemma verify_unsealed_extra:
  "verify_unsealed_fields X now h = Inr () \<Longrightarrow>
     \<exists>e. decode_hex X (h_extra_data h) = Inr e \<and> length e \<le> EXTRA_MAX"
  by (auto simp: verify_unsealed_fields_def res_simps)

text \<open>The encodings of the two headers are a Keccak collision.\<close>

definition header_collision :: "('pk, 'sg) ext \<Rightarrow> rpc_block_header \<Rightarrow> rpc_block_header \<Rightarrow> bool" where
  "header_collision X h h' \<longleftrightarrow>
     (case (header_encoding X h, header_encoding X h') of
        (Inr a, Inr b) \<Rightarrow> collision X a b
      | _ \<Rightarrow> False)"

definition same_fields :: "('pk, 'sg) ext \<Rightarrow> rpc_block_header \<Rightarrow> rpc_block_header \<Rightarrow> bool" where
  "same_fields X h h' \<longleftrightarrow>
     byte_view X h = byte_view X h' \<and> quantity_view h = quantity_view h' \<and> written h = written h' \<and>
     optional_quantities h = optional_quantities h' \<and> optional_hashes X h = optional_hashes X h'"

lemma sealed_headers_agree:
  assumes "verify_seal_coinbase X now h = Inr signer" "verify_seal_coinbase X now' h' = Inr signer'"
    and "decode_hex X (h_hash h) = decode_hex X (h_hash h')"
  shows "same_fields X h h' \<or> header_collision X h h'"
proof -
  note A = verify_seal_coinbase_Inr [OF assms(1)] and B = verify_seal_coinbase_Inr [OF assms(2)]
  obtain d where d: "header_hash X h = Inr d" "header_hash X h' = Inr d"
    using A(4) B(4) assms(3) by (auto simp: decode_hex_fixed_Inr_iff)
  obtain i on ob where i: "header_items X h = Inr i" and o1: "optional_quantities h = map Inr on" "optional_hashes X h = map Inr ob"
    "length on = 3" "length ob = 3" "list_all is_u64 on" "list_all (\<lambda>b. length b \<le> 32) ob"
    and e1: "header_encoding X h = Inr (encode_list (i @ map encode_bytes (take (written h) (optional_bytes on ob))))"
      "d = keccak X (encode_list (i @ map encode_bytes (take (written h) (optional_bytes on ob))))"
    using d(1) by (rule header_hash_fields)
  obtain j pn pb where j: "header_items X h' = Inr j" and o2: "optional_quantities h' = map Inr pn" "optional_hashes X h' = map Inr pb"
    "length pn = 3" "length pb = 3" "list_all is_u64 pn" "list_all (\<lambda>b. length b \<le> 32) pb"
    and e2: "header_encoding X h' = Inr (encode_list (j @ map encode_bytes (take (written h') (optional_bytes pn pb))))"
      "d = keccak X (encode_list (j @ map encode_bytes (take (written h') (optional_bytes pn pb))))"
    using d(2) by (rule header_hash_fields)
  obtain bs ns where bs: "byte_view X h = map Inr bs" "quantity_view h = map Inr ns"
    "list_all is_u64 ns" "length bs = 10" "length ns = 5"
    "i = map encode_bytes (take 7 bs @ map uint_bytes ns @ drop 7 bs)"
    using i by (rule header_items_fields)
  obtain cs ms where cs: "byte_view X h' = map Inr cs" "quantity_view h' = map Inr ms"
    "list_all is_u64 ms" "length cs = 10" "length ms = 5"
    "j = map encode_bytes (take 7 cs @ map uint_bytes ms @ drop 7 cs)"
    using j by (rule header_items_fields)
  have x7: "length (bs ! 7) \<le> EXTRA_MAX" "length (cs ! 7) \<le> EXTRA_MAX"
    using verify_unsealed_extra [OF A(1)] verify_unsealed_extra [OF B(1)]
      arg_cong [OF bs(1), of "\<lambda>l. l ! 7"] arg_cong [OF cs(1), of "\<lambda>l. l ! 7"] bs(4) cs(4)
    by (auto simp: byte_view_def)
  define es where "es = take (written h) (optional_bytes on ob)"
  define fs where "fs = take (written h') (optional_bytes pn pb)"
  note small = optional_bytes_small [OF o1(5,6,3,4), of "written h", folded es_def]
    optional_bytes_small [OF o2(5,6,3,4), of "written h'", folded fs_def]
  show ?thesis
  proof (cases "encode_list (i @ map encode_bytes es) = encode_list (j @ map encode_bytes fs)")
    case False
    then have "collision X (encode_list (i @ map encode_bytes es)) (encode_list (j @ map encode_bytes fs))"
      using e1(2) e2(2) by (simp add: collision_def es_def fs_def)
    then show ?thesis using e1(1) e2(1) by (simp add: header_collision_def es_def fs_def)
  next
    case True
    have "(take 7 bs @ map uint_bytes ns @ drop 7 bs) @ es = (take 7 cs @ map uint_bytes ms @ drop 7 cs) @ fs"
      using True accepted_items_small [OF bs(1,4,3,5) x7(1) small(1,2)] accepted_items_small [OF cs(1,4,3,5) x7(2) small(3,4)]
      by (intro encode_bytes_list_inj) (simp_all add: bs(6) cs(6))
    then have eq: "take 7 bs = take 7 cs" "map uint_bytes ns = map uint_bytes ms" "drop 7 bs = drop 7 cs" "es = fs"
      using bs(4,5) cs(4,5) by auto
    have "bs = cs" using eq(1,3) by (metis append_take_drop_id)
    moreover have "ns = ms"
      using eq(2) bs(3) cs(3) uint_bytes(1)
      by (metis (no_types, lifting) list_all_iff map_eq_conv map_idI map_map comp_apply)
    moreover note optional_bytes_determined [OF eq(4) [unfolded es_def fs_def] o1(1-5) o2(1-5)]
    ultimately show ?thesis by (simp add: same_fields_def bs cs o1 o2)
  qed
qed

text \<open>
  C22. A sealed header commits to every field that is hashed. If two headers that pass \<open>verify_seal_coinbase\<close> claim one
  block hash, then the fifteen fields every header has decode to the same values; the same number of the six optional
  fields (base fee, withdrawals root, blob gas used, excess blob gas, beacon root, requests hash) is written, and
  they decode to the same values, where an absent quantity counts as zero, which is how it is
  written; or the two header encodings are a Keccak collision.
\<close>

theorem sealed_header_commits:
  assumes "verify_seal_coinbase X now h = Inr signer" "verify_seal_coinbase X now' h' = Inr signer'"
    and "decode_hex X (h_hash h) = decode_hex X (h_hash h')"
  shows "same_fields X h h' \<or> header_collision X h h'"
  using assms by (rule sealed_headers_agree)

section \<open>A sample header\<close>

text \<open>
  A legacy-era header on top of \<open>parent\<close> that the reference instance accepts; the spelling of
  its number is a parameter.
\<close>

definition sample_body :: "string \<Rightarrow> bytes \<Rightarrow> rpc_block_header" where
  "sample_body number parent =
     \<lparr>h_hash = [], h_parent_hash = hex0x refX parent, h_sha3_uncles = hex0x refX EMPTY_UNCLE_HASH,
      h_miner = hex0x refX (zeros 20), h_state_root = hex0x refX (zeros 32),
      h_transactions_root = hex0x refX (zeros 32), h_receipts_root = hex0x refX (zeros 32),
      h_logs_bloom = hex0x refX (zeros 256), h_difficulty = ''0x2'', h_number = number,
      h_gas_limit = ''0x1388'', h_gas_used = ''0x0'', h_timestamp = ''0x0'',
      h_extra_data = hex0x refX (zeros 97), h_mix_hash = hex0x refX (zeros 32),
      h_nonce = hex0x refX (zeros 8), h_base_fee_per_gas = None, h_withdrawals_root = None,
      h_blob_gas_used = None, h_excess_blob_gas = None, h_parent_beacon_block_root = None,
      h_requests_hash = None\<rparr>"

definition sample_hash :: "nat \<Rightarrow> bytes \<Rightarrow> bytes" where
  "sample_hash n parent = ref_keccak (encode_list
     [encode_bytes parent, encode_bytes EMPTY_UNCLE_HASH, encode_bytes (zeros 20),
      encode_bytes (zeros 32), encode_bytes (zeros 32), encode_bytes (zeros 32),
      encode_bytes (zeros 256), encode_uint 2, encode_uint n, encode_uint 5000, encode_uint 0,
      encode_uint 0, encode_bytes (zeros 97), encode_bytes (zeros 32), encode_bytes (zeros 8)])"

definition sample_header :: "string \<Rightarrow> nat \<Rightarrow> bytes \<Rightarrow> rpc_block_header" where
  "sample_header number n parent = (sample_body number parent)\<lparr>h_hash := hex0x refX (sample_hash n parent)\<rparr>"

lemma decode_u64_samples [simp]:
  "decode_u64 ''0x0'' = Inr 0" "decode_u64 ''0x1'' = Inr 1" "decode_u64 ''0x01'' = Inr 1"
  "decode_u64 ''0x2'' = Inr 2" "decode_u64 ''0x1388'' = Inr 5000"
  by (simp_all add: decode_u64_def from_str_radix16_def to_digit16_def u64_max_def)

lemma length_sample_hash [simp]: "length (sample_hash n parent) = 32"
  using keccak_ok_refX by (simp add: sample_hash_def keccak_ok_def)

lemma length_EMPTY_UNCLE_HASH [simp]: "length EMPTY_UNCLE_HASH = 32"
  by (simp add: EMPTY_UNCLE_HASH_def)

lemma sample_header_ok_at:
  assumes "length parent = 32" "decode_u64 number = Inr n" "n < LUBAN_BLOCK" "n mod 200 \<noteq> 0"
  shows "verify_seal_coinbase refX now (sample_header number n parent) = Inr (zeros 20)"
proof -
  let ?h = "sample_header number n parent"
  have p: "params_at n 0 = \<lparr>fp_name = ''legacy'', fp_activation_block = Some 0, fp_activation_time = None,
         fp_epoch_length = 200, fp_turn_length = 1, fp_block_interval_ms = 3000,
         fp_extra_data_version = PreLuban\<rparr>"
    using assms(3) by (simp add: params_at_def fork_times fork_lengths)
  have london: "n < LONDON_BLOCK" using assms(3) by (simp add: LUBAN_BLOCK_def LONDON_BLOCK_def)
  have layout: "verify_extra_layout refX ?h = Inr ()"
    using assms by (simp add: verify_extra_layout_def sample_header_def sample_body_def s_defs
        decode_hex_hex0x p parse_extra_def layout_sizes Let_def)
  have unsealed: "verify_unsealed_fields refX now ?h = Inr ()"
    unfolding verify_unsealed_fields_def layout
    using assms london
    by (simp add: sample_header_def sample_body_def s_defs decode_hex_hex0x decode_hex_fixed_hex0x
        EXTRA_MAX_def GAS_LIMIT_MAX_def verify_base_fee_def verify_mix_digest_def
        LORENTZ_TIME_def verify_beacon_root_def BOHR_TIME_def verify_withdrawals_def
        verify_timestamp_not_future_def)
  have signer: "recover_signer refX ?h BSC_MAINNET_CHAIN_ID = Inr (zeros 20)"
    using assms
    by (simp add: recover_signer_def seal_hash_def sample_header_def sample_body_def s_defs
        decode_hex_hex0x decode_hex_fixed_hex0x layout_sizes ecrecover_def Let_def
        address_from_pubkey_uncompressed_def ref_keccak_def)
       (simp add: zeros_def)
  have hash: "verify_header_hash refX ?h = Inr (sample_hash n parent)"
    using assms
    by (simp add: verify_header_hash_def header_hash_def header_encoding_def header_items_def push_if_def sample_header_def
        sample_body_def s_defs decode_hex_hex0x decode_hex_fixed_hex0x Let_def)
       (simp add: sample_hash_def)
  show ?thesis
    unfolding verify_seal_coinbase_def unsealed signer hash
    by (simp add: sample_header_def sample_body_def s_defs decode_hex_fixed_hex0x
        assert_difficulty_range_def DIFF_NO_TURN_def DIFF_IN_TURN_def)
qed

lemma sample_header_ok:
  assumes "length parent = 32" "decode_u64 number = Inr 1"
  shows "verify_seal_coinbase refX now (sample_header number 1 parent) = Inr (zeros 20)"
  using assms by (intro sample_header_ok_at) (simp_all add: LUBAN_BLOCK_def)

theorem sealed_header_commits_witness:
  "verify_seal_coinbase refX 0 (sample_header ''0x1'' 1 (zeros 32)) = Inr (zeros 20) \<and>
   verify_seal_coinbase refX 7 (sample_header ''0x01'' 1 (zeros 32)) = Inr (zeros 20) \<and>
   (same_fields refX (sample_header ''0x1'' 1 (zeros 32)) (sample_header ''0x01'' 1 (zeros 32)) \<or>
    header_collision refX (sample_header ''0x1'' 1 (zeros 32)) (sample_header ''0x01'' 1 (zeros 32)))"
proof -
  have a: "verify_seal_coinbase refX 0 (sample_header ''0x1'' 1 (zeros 32)) = Inr (zeros 20)"
    by (rule sample_header_ok) simp_all
  have b: "verify_seal_coinbase refX 7 (sample_header ''0x01'' 1 (zeros 32)) = Inr (zeros 20)"
    by (rule sample_header_ok) simp_all
  have "decode_hex refX (h_hash (sample_header ''0x1'' 1 (zeros 32))) =
      decode_hex refX (h_hash (sample_header ''0x01'' 1 (zeros 32)))"
    by (simp add: sample_header_def)
  from sealed_header_commits [OF a b this] a b show ?thesis by simp
qed

end
