(* ===== verification/Snapshot.thy ===== *)
theory Snapshot
  imports Vote Seal "HOL-Library.AList"
begin

text \<open>
  The sealing-set snapshot and its state machine
  (\<open>helios-bsc-consensus/src/snapshot.rs\<close>): construction from a checkpoint, the epoch
  seed, the recent-sealer map, in-turn difficulty, attestation checks, the scheduling and
  activation of validator sets, and \<open>apply_verified\<close> / \<open>apply_header\<close>.

  A method on \<open>&mut self\<close> that can fail returns the result together with the snapshot as it
  is left behind, also on the error paths. The \<open>HashMap\<close> of recent sealers is an
  association list with distinct keys.
\<close>

section \<open>Data\<close>

datatype snapshot_error =
    SnapSeal seal_error
  | SnapExtra extra_error
  | SnapTypes types_error
  | NumberMismatch nat nat
  | ParentHashMismatch
  | Unauthorized string
  | SnapMissingEpochExtra nat
  | SnapBadDifficulty nat
  | DifficultyMismatch nat nat
  | RecentlySigned string
  | SnapVote vote_error
  | AttestationTarget nat nat
  | AttestationTargetHash
  | AttestationSource nat nat
  | AttestationSourceHash
  | NotEpochBoundary nat nat
  | EpochHeadersNotAdjacent nat nat nat
  | SeedEpochMismatch nat nat
  | SeedAfterWalk nat

record pending_epoch =
  pn_epoch_block :: nat
  pn_activate_at :: nat
  pn_validators :: "bytes list"
  pn_vote_keys :: "bytes list"
  pn_turn_length :: nat

datatype epoch_seed =
    SeedActive nat nat
  | SeedPendingActivation nat nat

record snapshot =
  sn_number :: nat
  sn_hash :: bytes
  sn_epoch_length :: nat
  sn_turn_length :: nat
  sn_validators :: "bytes list"
  sn_pending :: "pending_epoch option"
  sn_enforce_inturn :: bool
  sn_recents :: "(nat \<times> bytes) list"
  sn_vote_set :: "sealing_validator list"
  sn_prev_vote_set :: "sealing_validator list"
  sn_set_changed_at :: nat
  sn_attestation :: "vote_data option"
  sn_last_milli :: "nat option"
  sn_walk_start :: nat
  sn_ancestors :: "(nat \<times> bytes) list"

definition RECENT_EPOCH_SENTINEL :: bytes where
  "RECENT_EPOCH_SENTINEL = zeros 20"

definition n_u64 :: "string \<Rightarrow> (snapshot_error, nat) result" where
  "n_u64 s = map_err SnapTypes (decode_u64 s)"

definition n_fixed :: "('pk, 'sg) ext \<Rightarrow> nat \<Rightarrow> string \<Rightarrow> (snapshot_error, bytes) result" where
  "n_fixed X n s = map_err SnapTypes (decode_hex_fixed X n s)"

definition n_hex :: "('pk, 'sg) ext \<Rightarrow> string \<Rightarrow> (snapshot_error, bytes) result" where
  "n_hex X s = map_err SnapTypes (decode_hex X s)"

section \<open>Epoch seed\<close>

definition turn_or :: "byte option \<Rightarrow> nat \<Rightarrow> nat" where
  "turn_or t d = (case t of None \<Rightarrow> d | Some b \<Rightarrow> unat b)"

definition epoch_records ::
    "('pk, 'sg) ext \<Rightarrow> rpc_block_header \<Rightarrow> (snapshot_error, sealing_validator list \<times> nat) result" where
  "epoch_records X h =
     rbind (n_u64 (h_number h)) (\<lambda>number.
     rbind (n_u64 (h_timestamp h)) (\<lambda>timestamp.
     let fork = params_at number timestamp in
     if fp_epoch_length fork = 0 \<or> number mod fp_epoch_length fork \<noteq> 0
     then Inl (NotEpochBoundary number (fp_epoch_length fork))
     else
       rbind (n_hex X (h_extra_data h)) (\<lambda>extra.
       rbind (map_err SnapExtra (parse_extra extra (fp_extra_data_version fork) True)) (\<lambda>parsed.
       if pe_validators parsed = [] then Inl (SnapMissingEpochExtra number)
       else Inr (sort_key sv_address (pe_validators parsed),
                 turn_or (pe_turn_length parsed) (fp_turn_length fork))))))"

definition epoch_seed_at ::
    "('pk, 'sg) ext \<Rightarrow> nat \<Rightarrow> nat \<Rightarrow> rpc_block_header \<Rightarrow> rpc_block_header \<Rightarrow>
     (snapshot_error, epoch_seed) result" where
  "epoch_seed_at X checkpoint_number epoch_length epoch_header prev_epoch_header =
     rbind (n_u64 (h_number epoch_header)) (\<lambda>epoch_block.
     rbind (n_u64 (h_number prev_epoch_header)) (\<lambda>prev_block.
     if epoch_length = 0 \<or> epoch_block < prev_block \<or> epoch_block - prev_block \<noteq> epoch_length
     then Inl (EpochHeadersNotAdjacent epoch_block prev_block epoch_length)
     else if checkpoint_number < epoch_block \<or> epoch_length \<le> checkpoint_number - epoch_block
     then Inl (SeedEpochMismatch checkpoint_number epoch_block)
     else
       rbind (epoch_records X epoch_header) (\<lambda>(_, turn_length).
       rbind (epoch_records X prev_epoch_header) (\<lambda>(prev_vals, prev_turn).
       let activate_at = sat_add epoch_block
             (miner_history_check_len (wrap32 (length prev_vals)) prev_turn)
       in if activate_at \<le> checkpoint_number then Inr (SeedActive epoch_block turn_length)
          else Inr (SeedPendingActivation epoch_block activate_at)))))"

section \<open>Construction\<close>

definition checkpoint_vote_set ::
    "('pk, 'sg) ext \<Rightarrow> bytes list \<Rightarrow> string list option \<Rightarrow>
     (snapshot_error, sealing_validator list) result" where
  "checkpoint_vote_set X validators vote_keys =
     (case vote_keys of
        Some keys \<Rightarrow>
          if length keys = length validators then
            rbind (rmapM (\<lambda>(addr, key).
                     map_ok (\<lambda>k. \<lparr>sv_address = addr, sv_vote_key = k\<rparr>) (n_fixed X 48 key))
                     (zip validators keys)) (\<lambda>pairs. Inr (sort_key sv_address pairs))
          else Inr []
      | None \<Rightarrow> Inr [])"

definition from_checkpoint ::
    "('pk, 'sg) ext \<Rightarrow> checkpoint \<Rightarrow> (snapshot_error, snapshot) result" where
  "from_checkpoint X cp =
     rbind (rmapM (n_fixed X 20) (cp_sealing_set cp)) (\<lambda>validators.
     rbind (checkpoint_vote_set X validators (cp_vote_keys cp)) (\<lambda>vote_set.
     let fork = params_at (cp_number cp) (cp_timestamp cp) in
     rbind (n_fixed X 32 (cp_hash cp)) (\<lambda>hash.
       Inr \<lparr>sn_number = cp_number cp, sn_hash = hash, sn_epoch_length = fp_epoch_length fork,
            sn_turn_length = fp_turn_length fork, sn_validators = sort validators,
            sn_pending = None, sn_enforce_inturn = True, sn_recents = [],
            sn_vote_set = vote_set, sn_prev_vote_set = [], sn_set_changed_at = 0,
            sn_attestation = None, sn_last_milli = None,
            sn_walk_start = sat_add (cp_number cp) 1,
            sn_ancestors = [(cp_number cp, hash)]\<rparr>)))"

definition seed_turn_length :: "nat \<Rightarrow> snapshot \<Rightarrow> (snapshot_error, unit) result \<times> snapshot" where
  "seed_turn_length turn_length s =
     (if sn_walk_start s \<le> sn_number s then (Inl (SeedAfterWalk (sn_number s)), s)
      else (Inr (), if 0 < turn_length then s\<lparr>sn_turn_length := turn_length\<rparr> else s))"

section \<open>Queries\<close>

definition vote_keys_hex :: "('pk, 'sg) ext \<Rightarrow> snapshot \<Rightarrow> string list option" where
  "vote_keys_hex X s =
     (if sn_vote_set s = [] then None
      else Some (map (\<lambda>v. hex0x X (sv_vote_key v)) (sn_vote_set s)))"

definition fast_finality_available :: "snapshot \<Rightarrow> bool" where
  "fast_finality_available s \<longleftrightarrow> sn_vote_set s \<noteq> []"

definition justified :: "snapshot \<Rightarrow> (nat \<times> bytes) option" where
  "justified s = map_option (\<lambda>a. (vd_target_number a, vd_target_hash a)) (sn_attestation s)"

definition finalized :: "snapshot \<Rightarrow> (nat \<times> bytes) option" where
  "finalized s = map_option (\<lambda>a. (vd_source_number a, vd_source_hash a)) (sn_attestation s)"

definition finalized_number :: "snapshot \<Rightarrow> nat" where
  "finalized_number s = (case sn_attestation s of None \<Rightarrow> 0 | Some a \<Rightarrow> vd_source_number a)"

definition attestation_set :: "snapshot \<Rightarrow> nat \<Rightarrow> sealing_validator list" where
  "attestation_set s target_number =
     (if sat_sub target_number 1 < sn_set_changed_at s then sn_prev_vote_set s else sn_vote_set s)"

definition ancestor_hash :: "snapshot \<Rightarrow> nat \<Rightarrow> bytes option" where
  "ancestor_hash s number = map_option snd (find (\<lambda>(n, _). n = number) (rev (sn_ancestors s)))"

definition n_seal :: "snapshot \<Rightarrow> nat" where
  "n_seal s = wrap32 (length (sn_validators s))"

definition delay :: "snapshot \<Rightarrow> nat" where
  "delay s = miner_history_check_len (n_seal s) (sn_turn_length s)"

text \<open>\<open>slice::binary_search\<close> of the standard library: halve, keep the lower half only when the
  probe is greater, compare once at the end.\<close>

fun bsearch_loop :: "bytes list \<Rightarrow> bytes \<Rightarrow> nat \<Rightarrow> nat \<Rightarrow> nat" where
  "bsearch_loop xs a base sz =
     (if 1 < sz then
        let half = sz div 2; mid = base + half
        in bsearch_loop xs a (if a < xs ! mid then base else mid) (sz - half)
      else base)"

declare bsearch_loop.simps [simp del]

definition contains :: "snapshot \<Rightarrow> bytes \<Rightarrow> bool" where
  "contains s addr \<longleftrightarrow>
     (let xs = sn_validators s
      in xs \<noteq> [] \<and> xs ! bsearch_loop xs addr 0 (length xs) = addr)"

definition inturn_validator :: "snapshot \<Rightarrow> bytes option" where
  "inturn_validator s =
     (let n = length (sn_validators s) in
      if n = 0 \<or> sn_turn_length s = 0 then None
      else
        let offset = (sat_add (sn_number s) 1 div sn_turn_length s) mod n
        in if offset < n then Some (sn_validators s ! offset) else None)"

definition expected_difficulty :: "snapshot \<Rightarrow> bytes \<Rightarrow> nat" where
  "expected_difficulty s signer =
     (case inturn_validator s of
        Some v \<Rightarrow> if v = signer then DIFF_IN_TURN else DIFF_NO_TURN
      | None \<Rightarrow> DIFF_NO_TURN)"

text \<open>The loop over the map, with the saturating \<open>u8\<close> counter and the early return.\<close>

fun sign_recently_loop :: "nat \<Rightarrow> nat \<Rightarrow> bytes \<Rightarrow> nat \<Rightarrow> (nat \<times> bytes) list \<Rightarrow> bool" where
  "sign_recently_loop left_bound turn signer seen [] = False"
| "sign_recently_loop left_bound turn signer seen ((block, recent) # rs) =
     (if block \<le> left_bound \<or> recent = RECENT_EPOCH_SENTINEL
      then sign_recently_loop left_bound turn signer seen rs
      else if recent = signer then
        (if turn \<le> min (seen + 1) 255 then True
         else sign_recently_loop left_bound turn signer (min (seen + 1) 255) rs)
      else sign_recently_loop left_bound turn signer seen rs)"

definition sign_recently :: "snapshot \<Rightarrow> bytes \<Rightarrow> bool" where
  "sign_recently s signer =
     sign_recently_loop (sat_sub (sn_number s) (delay s)) (sn_turn_length s) signer 0 (sn_recents s)"

definition recents_window_walked :: "snapshot \<Rightarrow> bool" where
  "recents_window_walked s \<longleftrightarrow>
     sn_walk_start s \<le> sat_add (sat_sub (sn_number s) (delay s)) 1"

definition backoff_context_of :: "snapshot \<Rightarrow> backoff_context" where
  "backoff_context_of s =
     \<lparr>bc_parent_milli = (case sn_last_milli s of None \<Rightarrow> 0 | Some m \<Rightarrow> m),
      bc_known = (sn_enforce_inturn s \<and> 0 < sn_turn_length s \<and> sn_validators s \<noteq> [] \<and>
                  sn_last_milli s \<noteq> None \<and> recents_window_walked s),
      bc_in_turn_signed_recently =
        (case inturn_validator s of None \<Rightarrow> True | Some v \<Rightarrow> sign_recently s v)\<rparr>"

definition sealing_set_hex :: "('pk, 'sg) ext \<Rightarrow> snapshot \<Rightarrow> string list" where
  "sealing_set_hex X s = map (format_address X) (sn_validators s)"

definition check_attestation ::
    "('pk, 'sg) ext \<Rightarrow> snapshot \<Rightarrow> bytes \<Rightarrow> nat \<Rightarrow> nat \<Rightarrow>
     (snapshot_error, vote_data option) result" where
  "check_attestation X s raw number timestamp =
     rbind (map_err SnapVote (decode_vote_attestation raw)) (\<lambda>decoded.
     case decoded of
       None \<Rightarrow> Inr None
     | Some att \<Rightarrow>
         rbind (map_err SnapVote (source_below_target (va_data att))) (\<lambda>_.
         let target = vd_target_number (va_data att);
             vset = attestation_set s target
         in
         if vset = [] then Inr None
         else
           let (lo, hi) = attestation_target_window number timestamp in
           if \<not> (lo \<le> target \<and> target \<le> hi) then Inl (AttestationTarget hi target)
           else
             case ancestor_hash s target of
               None \<Rightarrow> Inr None
             | Some hsh \<Rightarrow>
                 if hsh \<noteq> vd_target_hash (va_data att) then Inl AttestationTargetHash
                 else
                   rbind (case sn_attestation s of
                            None \<Rightarrow> Inr ()
                          | Some j \<Rightarrow>
                              if vd_source_number (va_data att) \<noteq> vd_target_number j
                              then Inl (AttestationSource (vd_target_number j)
                                          (vd_source_number (va_data att)))
                              else if vd_source_hash (va_data att) \<noteq> vd_target_hash j
                              then Inl AttestationSourceHash
                              else Inr ()) (\<lambda>_.
                   rbind (map_err SnapVote (verify_attestation_signature X att vset)) (\<lambda>_.
                     Inr (Some (va_data att))))))"

section \<open>Updates\<close>

definition adopt_attestation :: "vote_data \<Rightarrow> snapshot \<Rightarrow> snapshot" where
  "adopt_attestation d s =
     (case sn_attestation s of
        Some cur \<Rightarrow>
          if sat_add (vd_source_number d) 1 \<noteq> vd_target_number d
          then s\<lparr>sn_attestation := Some (cur\<lparr>vd_target_number := vd_target_number d,
                                           vd_target_hash := vd_target_hash d\<rparr>)\<rparr>
          else s\<lparr>sn_attestation := Some d\<rparr>
      | None \<Rightarrow> s\<lparr>sn_attestation := Some d\<rparr>)"

definition prune_recents_to_finalized :: "snapshot \<Rightarrow> snapshot" where
  "prune_recents_to_finalized s =
     s\<lparr>sn_recents := filter (\<lambda>(block, _). finalized_number s < block) (sn_recents s)\<rparr>"

definition advance_epoch_length :: "nat \<Rightarrow> nat \<Rightarrow> snapshot \<Rightarrow> snapshot" where
  "advance_epoch_length number time s =
     (let next = sat_add number 1;
          s1 = (if sn_epoch_length s = DEFAULT_EPOCH_LENGTH \<and> LORENTZ_TIME \<le> time \<and>
                   next mod LORENTZ_EPOCH_LENGTH = 0
                then s\<lparr>sn_epoch_length := LORENTZ_EPOCH_LENGTH\<rparr> else s)
      in if sn_epoch_length s1 = LORENTZ_EPOCH_LENGTH \<and> MAXWELL_TIME \<le> time \<and>
            next mod MAXWELL_EPOCH_LENGTH = 0
         then s1\<lparr>sn_epoch_length := MAXWELL_EPOCH_LENGTH\<rparr> else s1)"

text \<open>
  \<open>apply_verified\<close>, cut where its state changes. \<open>check_link\<close> is everything up to the first
  write; \<open>drop_expired\<close> is the removal from \<open>recents\<close>, which happens even when a later check
  rejects the header; \<open>check_seal\<close> is every check after it; \<open>commit_block\<close> is the rest, and
  its last statement can still fail after the state has moved.
\<close>

definition next_number :: "snapshot \<Rightarrow> nat" where
  "next_number s = wrap64 (sn_number s + 1)"

definition check_link ::
    "('pk, 'sg) ext \<Rightarrow> rpc_block_header \<Rightarrow> bytes \<Rightarrow> snapshot \<Rightarrow>
     (snapshot_error, nat \<times> nat \<times> bytes) result" where
  "check_link X h signer s =
     rbind (n_u64 (h_number h)) (\<lambda>number.
     rbind (n_u64 (h_timestamp h)) (\<lambda>time.
     rbind (n_fixed X 32 (h_parent_hash h)) (\<lambda>parent.
     rbind (n_fixed X 32 (h_hash h)) (\<lambda>hash.
     if number \<noteq> next_number s then Inl (NumberMismatch (next_number s) number)
     else if parent \<noteq> sn_hash s then Inl ParentHashMismatch
     else if \<not> contains s signer then Inl (Unauthorized (format_address X signer))
     else
     rbind (n_u64 (h_difficulty h)) (\<lambda>difficulty.
     if difficulty \<noteq> DIFF_NO_TURN \<and> difficulty \<noteq> DIFF_IN_TURN then Inl (SnapBadDifficulty difficulty)
     else if sn_enforce_inturn s \<and> difficulty \<noteq> expected_difficulty s signer
     then Inl (DifficultyMismatch difficulty (expected_difficulty s signer))
     else Inr (number, time, hash))))))"

definition drop_expired :: "nat \<Rightarrow> snapshot \<Rightarrow> snapshot" where
  "drop_expired number s =
     (let limit = sat_add (delay s) 1
      in if limit \<le> number then s\<lparr>sn_recents := AList.delete (number - limit) (sn_recents s)\<rparr> else s)"

definition is_epoch_block :: "nat \<Rightarrow> snapshot \<Rightarrow> bool" where
  "is_epoch_block number s \<longleftrightarrow> number mod sn_epoch_length s = 0"

definition check_seal ::
    "('pk, 'sg) ext \<Rightarrow> rpc_block_header \<Rightarrow> bytes \<Rightarrow> nat \<Rightarrow> nat \<Rightarrow> snapshot \<Rightarrow>
     (snapshot_error, parsed_extra \<times> vote_data option) result" where
  "check_seal X h signer number time s =
     (if sign_recently s signer then Inl (RecentlySigned (format_address X signer))
      else
        rbind (map_err SnapSeal (verify_out_of_turn_backoff X (backoff_context_of s) h)) (\<lambda>_.
        rbind (n_hex X (h_extra_data h)) (\<lambda>extra.
        rbind (map_err SnapExtra (parse_extra extra Bohr (is_epoch_block number s))) (\<lambda>parsed.
        rbind (check_attestation X s (pe_attestation parsed) number time) (\<lambda>adopted.
        if is_epoch_block number s \<and> pe_validators parsed = [] then Inl (SnapMissingEpochExtra number)
        else Inr (parsed, adopted))))))"

definition schedule_epoch :: "nat \<Rightarrow> parsed_extra \<Rightarrow> snapshot \<Rightarrow> snapshot" where
  "schedule_epoch number parsed s =
     (if is_epoch_block number s then
        let vals = sort_key sv_address (pe_validators parsed)
        in s\<lparr>sn_pending := Some
               \<lparr>pn_epoch_block = number,
                pn_activate_at = wrap64 (number + miner_history_check_len (n_seal s) (sn_turn_length s)),
                pn_validators = map sv_address vals, pn_vote_keys = map sv_vote_key vals,
                pn_turn_length = turn_or (pe_turn_length parsed) (sn_turn_length s)\<rparr>\<rparr>
      else s)"

definition record_sealer :: "nat \<Rightarrow> nat \<Rightarrow> bytes \<Rightarrow> vote_data option \<Rightarrow> snapshot \<Rightarrow> snapshot" where
  "record_sealer number time signer adopted s =
     (let s1 = (case adopted of None \<Rightarrow> s | Some d \<Rightarrow> adopt_attestation d s);
          s2 = s1\<lparr>sn_recents := AList.update number signer (sn_recents s1)\<rparr>
      in if MAXWELL_TIME \<le> time then prune_recents_to_finalized s2 else s2)"

definition switch_set :: "nat \<Rightarrow> snapshot \<Rightarrow> snapshot" where
  "switch_set number s =
     (case sn_pending s of
        None \<Rightarrow> s
      | Some p \<Rightarrow>
          if number = pn_activate_at p then
            s\<lparr>sn_prev_vote_set := sn_vote_set s,
              sn_vote_set :=
                (if length (pn_vote_keys p) = length (pn_validators p)
                 then map (\<lambda>(a, k). \<lparr>sv_address = a, sv_vote_key = k\<rparr>) (zip (pn_validators p) (pn_vote_keys p))
                 else []),
              sn_set_changed_at := number, sn_validators := pn_validators p,
              sn_turn_length := pn_turn_length p, sn_pending := None,
              sn_recents :=
                (if sn_epoch_length s = 0 then []
                 else [(u64_max - number div sn_epoch_length s, RECENT_EPOCH_SENTINEL)])\<rparr>
          else s)"

definition push_block :: "nat \<Rightarrow> bytes \<Rightarrow> snapshot \<Rightarrow> snapshot" where
  "push_block number hash s =
     (let ancestors = sn_ancestors s @ [(number, hash)]
      in s\<lparr>sn_number := number, sn_hash := hash,
           sn_ancestors :=
             (if K_ANCESTOR_GENERATION_DEPTH < length ancestors
              then drop (length ancestors - K_ANCESTOR_GENERATION_DEPTH) ancestors else ancestors)\<rparr>)"

definition move_block ::
    "nat \<Rightarrow> nat \<Rightarrow> bytes \<Rightarrow> bytes \<Rightarrow> parsed_extra \<Rightarrow> vote_data option \<Rightarrow> snapshot \<Rightarrow> snapshot" where
  "move_block number time hash signer parsed adopted s =
     push_block number hash
       (switch_set number
         (advance_epoch_length number time
           (record_sealer number time signer adopted
             (schedule_epoch number parsed s))))"

definition commit_block ::
    "('pk, 'sg) ext \<Rightarrow> rpc_block_header \<Rightarrow> snapshot \<Rightarrow> (snapshot_error, unit) result \<times> snapshot" where
  "commit_block X h s =
     (case milli_timestamp X h of
        Inl e \<Rightarrow> (Inl (SnapSeal e), s)
      | Inr milli \<Rightarrow> (Inr (), s\<lparr>sn_last_milli := Some milli\<rparr>))"

definition apply_verified ::
    "('pk, 'sg) ext \<Rightarrow> rpc_block_header \<Rightarrow> bytes \<Rightarrow> snapshot \<Rightarrow>
     (snapshot_error, unit) result \<times> snapshot" where
  "apply_verified X h signer s =
     (case check_link X h signer s of
        Inl e \<Rightarrow> (Inl e, s)
      | Inr (number, time, hash) \<Rightarrow>
          let s1 = drop_expired number s in
          case check_seal X h signer number time s1 of
            Inl e \<Rightarrow> (Inl e, s1)
          | Inr (parsed, adopted) \<Rightarrow>
              commit_block X h (move_block number time hash signer parsed adopted s1))"

definition apply_header ::
    "('pk, 'sg) ext \<Rightarrow> nat \<Rightarrow> rpc_block_header \<Rightarrow> snapshot \<Rightarrow>
     (snapshot_error, bytes) result \<times> snapshot" where
  "apply_header X now h s =
     (case verify_seal_coinbase X now h of
        Inl e \<Rightarrow> (Inl (SnapSeal e), s)
      | Inr signer \<Rightarrow>
          case apply_verified X h signer s of
            (Inl e, s') \<Rightarrow> (Inl e, s')
          | (Inr _, s') \<Rightarrow> (Inr signer, s'))"

definition current_epoch_length :: nat where
  "current_epoch_length = MAXWELL_EPOCH_LENGTH"

end
