(* ===== verification/Machine.thy ===== *)
theory Machine
  imports Prelude
begin

text \<open>
  The contract that the snapshot and the engine share: a machine that is fed inputs, accepts or
  rejects each, counts its height by the accepted ones, keeps an invariant, and on which a rejected
  input has no observable effect. What follows for whole input logs is proved once here, under
  the contract, and instantiated where the machines are defined.
\<close>

fun drive :: "('i \<Rightarrow> 's \<Rightarrow> ('e, 'o) result \<times> 's) \<Rightarrow> 'i list \<Rightarrow> 's \<Rightarrow> ('e, 'o) result list \<times> 's" where
  "drive step [] s = ([], s)"
| "drive step (i # is) s =
     (let (r, s1) = step i s; (rs, s2) = drive step is s1 in (r # rs, s2))"

text \<open>The inputs of a log that got the verdict \<open>Ok\<close>.\<close>

definition accepted :: "('i \<Rightarrow> 's \<Rightarrow> ('e, 'o) result \<times> 's) \<Rightarrow> 'i list \<Rightarrow> 's \<Rightarrow> 'i list" where
  "accepted step is s = map fst (filter (\<lambda>(i, r). is_ok r) (zip is (fst (drive step is s))))"

definition same_future :: "('i \<Rightarrow> 's \<Rightarrow> ('e, 'o) result \<times> 's) \<Rightarrow> 's \<Rightarrow> 's \<Rightarrow> bool" where
  "same_future step s t \<longleftrightarrow>
     (\<forall>i. fst (step i s) = fst (step i t) \<and> (is_ok (fst (step i t)) \<longrightarrow> snd (step i s) = snd (step i t)))"

lemma same_future_refl [simp]: "same_future step s s"
  by (simp add: same_future_def)

lemma same_future_trans: "same_future step s t \<Longrightarrow> same_future step t u \<Longrightarrow> same_future step s u"
  by (simp add: same_future_def)

lemma drive_Cons: "drive step (i # is) s =
    (fst (step i s) # fst (drive step is (snd (step i s))), snd (drive step is (snd (step i s))))"
  by (simp add: Let_def case_prod_beta)

lemma accepted_Nil [simp]: "accepted step [] s = []"
  by (simp add: accepted_def)

lemma accepted_Cons:
  "accepted step (i # is) s =
     (if is_ok (fst (step i s)) then [i] else []) @ accepted step is (snd (step i s))"
  by (simp add: accepted_def drive_Cons del: drive.simps)

declare drive.simps(2) [simp del]

locale ledger =
  fixes step :: "'i \<Rightarrow> 's \<Rightarrow> ('e, 'o) result \<times> 's"
    and inv :: "'s \<Rightarrow> bool"
    and height :: "'s \<Rightarrow> nat"
  assumes step_inv: "inv s \<Longrightarrow> height s < u64_max \<Longrightarrow> inv (snd (step i s))"
    and accept_height: "inv s \<Longrightarrow> height s < u64_max \<Longrightarrow> step i s = (Inr v, s') \<Longrightarrow> height s' = Suc (height s)"
    and reject_height: "step i s = (Inl e, s') \<Longrightarrow> height s' = height s"
    and reject_harmless: "step i s = (Inl e, s') \<Longrightarrow> same_future step s' s"
begin

lemma drive_inv:
  "inv s \<Longrightarrow> height s + length is \<le> u64_max \<Longrightarrow>
     inv (snd (drive step is s)) \<and> height (snd (drive step is s)) = height s + length (accepted step is s)"
proof (induction "is" arbitrary: s)
  case (Cons i "is")
  obtain r s1 where st: "step i s = (r, s1)" by (cases "step i s")
  have h: "height s < u64_max" using Cons.prems by simp
  then have i1: "inv s1" using step_inv [OF Cons.prems(1), of i] st by simp
  have h1: "height s1 = height s + (if is_ok r then 1 else 0)"
    using st accept_height [OF Cons.prems(1) h] reject_height by (cases r) auto
  then have "height s1 + length is \<le> u64_max" using Cons.prems(2) by (simp split: if_splits)
  then show ?case using Cons.IH [OF i1] st h1 by (simp add: drive_Cons accepted_Cons)
qed simp

text \<open>Deleting the rejected inputs from a log changes no verdict and no later behaviour.\<close>

lemma replay_accepted:
  "same_future step s t \<Longrightarrow>
     list_all is_ok (fst (drive step (accepted step is s) t)) \<and>
     same_future step (snd (drive step is s)) (snd (drive step (accepted step is s) t))"
proof (induction "is" arbitrary: s t)
  case (Cons i "is")
  obtain r s1 where st: "step i s = (r, s1)" by (cases "step i s")
  show ?case
  proof (cases r)
    case (Inl e)
    have "same_future step s1 t"
      using reject_harmless [OF st [unfolded Inl]] Cons.prems by (rule same_future_trans)
    then show ?thesis using Cons.IH st Inl by (simp add: drive_Cons accepted_Cons)
  next
    case (Inr v)
    have "fst (step i s) = fst (step i t) \<and> (is_ok (fst (step i t)) \<longrightarrow> snd (step i s) = snd (step i t))"
      using Cons.prems unfolding same_future_def by blast
    then have "step i t = (r, s1)" using st Inr by (cases "step i t") auto
    then show ?thesis using Cons.IH [of s1 s1] st Inr by (simp add: drive_Cons accepted_Cons)
  qed
qed simp

end

end
