(* ===== verification/Snapshot_Inv.thy ===== *)
theory Snapshot_Inv
  imports Snapshot Machine
begin

text \<open>
  Correctness of the snapshot state machine: membership by binary search, the recent-sealer
  count, the representation invariant and its preservation, what an accepted header
  guarantees, that a rejected header has no observable effect, and the walk from a checkpoint as
  a reachability relation with its safety properties.
\<close>

section \<open>Membership in the sealing set\<close>

lemma bsearch_loop_range:
  "0 < sz \<Longrightarrow> base \<le> bsearch_loop xs a base sz \<and> bsearch_loop xs a base sz < base + sz"
proof (induction xs a base sz rule: bsearch_loop.induct)
  case (1 xs a base sz)
  show ?case
  proof (cases "1 < sz")
    case True
    then have "0 < sz - sz div 2" by auto
    from 1(1) [OF True refl refl this] True show ?thesis
      unfolding bsearch_loop.simps [of xs a base sz] Let_def by (auto split: if_splits)
  next
    case False
    then show ?thesis using 1(2) by (simp add: bsearch_loop.simps [of xs a base sz])
  qed
qed

lemma bsearch_loop_finds:
  "sorted xs \<Longrightarrow> \<exists>i. base \<le> i \<and> i < base + sz \<and> base + sz \<le> length xs \<and> xs ! i = a \<Longrightarrow>
         xs ! bsearch_loop xs a base sz = a"
proof (induction xs a base sz rule: bsearch_loop.induct)
  case (1 xs a base sz)
  then obtain i where i: "base \<le> i" "i < base + sz" "base + sz \<le> length xs" "xs ! i = a" by blast
  note srt = 1(2) and IH = 1(1) [OF _ refl refl \<open>sorted xs\<close>]
  show ?case
  proof (cases "1 < sz")
    case False
    then have "i = base" using i by linarith
    then have "xs ! base = a" using i(4) by simp
    then show ?thesis using False by (simp add: bsearch_loop.simps [of xs a base sz])
  next
    case True
    let ?half = "sz div 2"
    show ?thesis
    proof (cases "a < xs ! (base + ?half)")
      case lt: True
      have "i < base + ?half"
      proof (rule ccontr)
        assume "\<not> i < base + ?half"
        then have "xs ! (base + ?half) \<le> xs ! i" using i srt by (intro sorted_nth_mono) auto
        then show False using lt i(4) by simp
      qed
      then have "\<exists>i. base \<le> i \<and> i < base + (sz - ?half) \<and> base + (sz - ?half) \<le> length xs \<and> xs ! i = a"
        using i by (intro exI [of _ i]) auto
      then show ?thesis
        using IH [OF True] lt True by (simp add: bsearch_loop.simps [of xs a base sz] Let_def)
    next
      case ge: False
      have "\<exists>j. base + ?half \<le> j \<and> j < base + sz \<and> xs ! j = a"
      proof (cases "base + ?half \<le> i")
        case True
        then show ?thesis using i by blast
      next
        case False
        then have "xs ! i \<le> xs ! (base + ?half)" using i srt True by (intro sorted_nth_mono) auto
        then have "xs ! (base + ?half) = a" using ge i(4) by auto
        then show ?thesis using True by (intro exI [of _ "base + ?half"]) auto
      qed
      moreover have "base + ?half + (sz - ?half) = base + sz" by simp
      ultimately have "\<exists>j. base + ?half \<le> j \<and> j < base + ?half + (sz - ?half) \<and>
          base + ?half + (sz - ?half) \<le> length xs \<and> xs ! j = a" using i by simp
      then show ?thesis
        using IH [OF True] ge True by (simp add: bsearch_loop.simps [of xs a base sz] Let_def)
    qed
  qed
qed

lemma contains_iff: "sorted (sn_validators s) \<Longrightarrow> contains s a \<longleftrightarrow> a \<in> set (sn_validators s)"
proof
  assume "contains s a"
  then have "sn_validators s \<noteq> []" and eq: "sn_validators s ! bsearch_loop (sn_validators s) a 0 (length (sn_validators s)) = a"
    by (auto simp: contains_def Let_def)
  then have "bsearch_loop (sn_validators s) a 0 (length (sn_validators s)) < length (sn_validators s)"
    using bsearch_loop_range [of "length (sn_validators s)" 0] by simp
  then show "a \<in> set (sn_validators s)" using eq nth_mem by metis
next
  assume srt: "sorted (sn_validators s)" and a: "a \<in> set (sn_validators s)"
  then obtain i where "i < length (sn_validators s)" "sn_validators s ! i = a" by (auto simp: in_set_conv_nth)
  then show "contains s a"
    using bsearch_loop_finds [OF srt, of 0 "length (sn_validators s)" a] a
    by (auto simp: contains_def Let_def)
qed

section \<open>Recent sealers\<close>

text \<open>Blocks of the window \<open>(left, \<infinity>)\<close> that the map attributes to \<open>a\<close>.\<close>

definition sealed_in :: "nat \<Rightarrow> bytes \<Rightarrow> (nat \<times> bytes) list \<Rightarrow> nat" where
  "sealed_in left a rs = length (filter (\<lambda>(b, r). left < b \<and> r = a) rs)"

lemma sealed_in_mset: "mset rs = mset rs' \<Longrightarrow> sealed_in left a rs = sealed_in left a rs'"
  unfolding sealed_in_def by (metis mset_filter size_mset)

lemma sealed_in_Cons:
  "sealed_in left a ((b, r) # rs) = (if left < b \<and> r = a then 1 else 0) + sealed_in left a rs"
  by (simp add: sealed_in_def)

lemma sign_recently_loop_eq:
  "seen \<le> 255 \<Longrightarrow> seen < turn \<or> seen = 0 \<Longrightarrow>
   sign_recently_loop left turn a seen rs \<longleftrightarrow>
     a \<noteq> RECENT_EPOCH_SENTINEL \<and> 0 < sealed_in left a rs \<and> turn \<le> min 255 (seen + sealed_in left a rs)"
proof (induction rs arbitrary: seen)
  case Nil
  show ?case by (simp add: sealed_in_def)
next
  case (Cons p rs)
  obtain b r where p: "p = (b, r)" by (cases p)
  show ?case
  proof (cases "left < b \<and> r = a \<and> r \<noteq> RECENT_EPOCH_SENTINEL")
    case False
    then show ?thesis using Cons by (auto simp: p sealed_in_Cons)
  next
    case True
    show ?thesis
    proof (cases "turn \<le> min (seen + 1) 255")
      case turn: True
      then show ?thesis using True by (auto simp: p sealed_in_Cons)
    next
      case turn: False
      have *: "sealed_in left a (p # rs) = Suc (sealed_in left a rs)" using True by (simp add: p sealed_in_Cons)
      have "sign_recently_loop left turn a seen (p # rs) = sign_recently_loop left turn a (min (seen + 1) 255) rs"
        using True turn by (cases "a = RECENT_EPOCH_SENTINEL") (simp_all add: p)
      also have "\<dots> \<longleftrightarrow> a \<noteq> RECENT_EPOCH_SENTINEL \<and> 0 < sealed_in left a rs \<and>
          turn \<le> min 255 (min (seen + 1) 255 + sealed_in left a rs)"
        using turn by (intro Cons.IH) auto
      also have "\<dots> \<longleftrightarrow> a \<noteq> RECENT_EPOCH_SENTINEL \<and> 0 < sealed_in left a (p # rs) \<and>
          turn \<le> min 255 (seen + sealed_in left a (p # rs))"
        using turn Cons.prems(1) True unfolding * by auto
      finally show ?thesis .
    qed
  qed
qed

lemma sign_recently_iff:
  "sign_recently s a \<longleftrightarrow>
     a \<noteq> RECENT_EPOCH_SENTINEL \<and>
     (let n = sealed_in (sat_sub (sn_number s) (delay s)) a (sn_recents s)
      in 0 < n \<and> sn_turn_length s \<le> min 255 n)"
  unfolding sign_recently_def by (subst sign_recently_loop_eq) (auto simp: Let_def)

section \<open>Representation invariant\<close>

text \<open>
  The active set is sorted and its vote keys, when known, are aligned with it; so is a
  pending set. The newest ancestor is the head, the kept ancestors are consecutive and at most
  three. The map of recent sealers has one entry per block, none above the head except the
  epoch sentinel. The attestation spans a positive distance and ends at or below the head.
\<close>

definition pending_inv :: "pending_epoch \<Rightarrow> bool" where
  "pending_inv p \<longleftrightarrow> pn_validators p \<noteq> [] \<and> sorted (pn_validators p) \<and>
     length (pn_vote_keys p) = length (pn_validators p) \<and>
     list_all (\<lambda>a. length a = 20) (pn_validators p) \<and> list_all (\<lambda>k. length k = 48) (pn_vote_keys p)"

definition set_inv :: "snapshot \<Rightarrow> bool" where
  "set_inv s \<longleftrightarrow>
     sorted (sn_validators s) \<and> list_all (\<lambda>a. length a = 20) (sn_validators s) \<and>
     list_all (\<lambda>v. length (sv_vote_key v) = 48) (sn_vote_set s) \<and>
     (sn_vote_set s = [] \<or> map sv_address (sn_vote_set s) = sn_validators s) \<and>
     sorted (map sv_address (sn_prev_vote_set s)) \<and>
     pred_option pending_inv (sn_pending s) \<and>
     sn_epoch_length s \<in> {DEFAULT_EPOCH_LENGTH, LORENTZ_EPOCH_LENGTH, MAXWELL_EPOCH_LENGTH}"

definition chain_inv :: "snapshot \<Rightarrow> bool" where
  "chain_inv s \<longleftrightarrow>
     is_u64 (sn_number s) \<and> length (sn_hash s) = 32 \<and> sn_ancestors s \<noteq> [] \<and>
     length (sn_ancestors s) \<le> K_ANCESTOR_GENERATION_DEPTH \<and>
     last (sn_ancestors s) = (sn_number s, sn_hash s) \<and>
     length (sn_ancestors s) \<le> Suc (sn_number s) \<and>
     map fst (sn_ancestors s) = [Suc (sn_number s) - length (sn_ancestors s) ..< Suc (sn_number s)]"

definition recents_inv :: "nat \<Rightarrow> snapshot \<Rightarrow> bool" where
  "recents_inv n s \<longleftrightarrow>
     distinct (map fst (sn_recents s)) \<and>
     (\<forall>(b, a) \<in> set (sn_recents s). b \<le> n \<or> a = RECENT_EPOCH_SENTINEL)"

definition vote_inv :: "nat \<Rightarrow> snapshot \<Rightarrow> bool" where
  "vote_inv n s \<longleftrightarrow>
     pred_option (\<lambda>a. vd_source_number a < vd_target_number a \<and> vd_target_number a \<le> n) (sn_attestation s)"

definition snapshot_inv :: "snapshot \<Rightarrow> bool" where
  "snapshot_inv s \<longleftrightarrow> set_inv s \<and> chain_inv s \<and> recents_inv (sn_number s) s \<and> vote_inv (sn_number s) s"

lemmas inv_defs = set_inv_def chain_inv_def recents_inv_def vote_inv_def

text \<open>The decoders of this file succeed exactly when the ones of the types crate do.\<close>

lemma n_iffs [res_simps]:
  "n_u64 t = Inr n \<longleftrightarrow> decode_u64 t = Inr n"
  "n_hex X t = Inr b \<longleftrightarrow> decode_hex X t = Inr b"
  "n_fixed X k t = Inr b \<longleftrightarrow> decode_hex_fixed X k t = Inr b"
  by (simp_all add: n_u64_def n_hex_def n_fixed_def res_simps)

subsection \<open>What the steps touch\<close>

lemma drop_expired_same [simp]:
  "sn_number (drop_expired n s) = sn_number s" "sn_hash (drop_expired n s) = sn_hash s"
  "sn_epoch_length (drop_expired n s) = sn_epoch_length s"
  "sn_turn_length (drop_expired n s) = sn_turn_length s"
  "sn_validators (drop_expired n s) = sn_validators s" "sn_pending (drop_expired n s) = sn_pending s"
  "sn_enforce_inturn (drop_expired n s) = sn_enforce_inturn s"
  "sn_vote_set (drop_expired n s) = sn_vote_set s" "sn_prev_vote_set (drop_expired n s) = sn_prev_vote_set s"
  "sn_set_changed_at (drop_expired n s) = sn_set_changed_at s"
  "sn_attestation (drop_expired n s) = sn_attestation s" "sn_last_milli (drop_expired n s) = sn_last_milli s"
  "sn_walk_start (drop_expired n s) = sn_walk_start s" "sn_ancestors (drop_expired n s) = sn_ancestors s"
  by (simp_all add: drop_expired_def Let_def)

lemma schedule_epoch_same [simp]:
  "sn_number (schedule_epoch n p s) = sn_number s" "sn_hash (schedule_epoch n p s) = sn_hash s"
  "sn_epoch_length (schedule_epoch n p s) = sn_epoch_length s"
  "sn_turn_length (schedule_epoch n p s) = sn_turn_length s"
  "sn_validators (schedule_epoch n p s) = sn_validators s"
  "sn_vote_set (schedule_epoch n p s) = sn_vote_set s" "sn_prev_vote_set (schedule_epoch n p s) = sn_prev_vote_set s"
  "sn_attestation (schedule_epoch n p s) = sn_attestation s" "sn_recents (schedule_epoch n p s) = sn_recents s"
  "sn_ancestors (schedule_epoch n p s) = sn_ancestors s" "sn_walk_start (schedule_epoch n p s) = sn_walk_start s"
  "sn_set_changed_at (schedule_epoch n p s) = sn_set_changed_at s"
  by (simp_all add: schedule_epoch_def Let_def)

lemma adopt_attestation_same [simp]:
  "sn_number (adopt_attestation d s) = sn_number s" "sn_hash (adopt_attestation d s) = sn_hash s"
  "sn_epoch_length (adopt_attestation d s) = sn_epoch_length s"
  "sn_turn_length (adopt_attestation d s) = sn_turn_length s"
  "sn_validators (adopt_attestation d s) = sn_validators s" "sn_pending (adopt_attestation d s) = sn_pending s"
  "sn_vote_set (adopt_attestation d s) = sn_vote_set s" "sn_prev_vote_set (adopt_attestation d s) = sn_prev_vote_set s"
  "sn_recents (adopt_attestation d s) = sn_recents s" "sn_ancestors (adopt_attestation d s) = sn_ancestors s"
  "sn_walk_start (adopt_attestation d s) = sn_walk_start s"
  "sn_set_changed_at (adopt_attestation d s) = sn_set_changed_at s"
  by (simp_all add: adopt_attestation_def split: option.splits)

lemma record_sealer_same [simp]:
  "sn_number (record_sealer n t a d s) = sn_number s" "sn_hash (record_sealer n t a d s) = sn_hash s"
  "sn_epoch_length (record_sealer n t a d s) = sn_epoch_length s"
  "sn_turn_length (record_sealer n t a d s) = sn_turn_length s"
  "sn_validators (record_sealer n t a d s) = sn_validators s" "sn_pending (record_sealer n t a d s) = sn_pending s"
  "sn_vote_set (record_sealer n t a d s) = sn_vote_set s" "sn_prev_vote_set (record_sealer n t a d s) = sn_prev_vote_set s"
  "sn_ancestors (record_sealer n t a d s) = sn_ancestors s" "sn_walk_start (record_sealer n t a d s) = sn_walk_start s"
  "sn_set_changed_at (record_sealer n t a d s) = sn_set_changed_at s"
  "sn_attestation (record_sealer n t a d s) =
     (case d of None \<Rightarrow> sn_attestation s | Some x \<Rightarrow> sn_attestation (adopt_attestation x s))"
  by (auto simp: record_sealer_def prune_recents_to_finalized_def Let_def split: option.splits)

lemma advance_epoch_length_same [simp]:
  "sn_number (advance_epoch_length n t s) = sn_number s" "sn_hash (advance_epoch_length n t s) = sn_hash s"
  "sn_turn_length (advance_epoch_length n t s) = sn_turn_length s"
  "sn_validators (advance_epoch_length n t s) = sn_validators s" "sn_pending (advance_epoch_length n t s) = sn_pending s"
  "sn_vote_set (advance_epoch_length n t s) = sn_vote_set s"
  "sn_prev_vote_set (advance_epoch_length n t s) = sn_prev_vote_set s"
  "sn_attestation (advance_epoch_length n t s) = sn_attestation s" "sn_recents (advance_epoch_length n t s) = sn_recents s"
  "sn_ancestors (advance_epoch_length n t s) = sn_ancestors s" "sn_walk_start (advance_epoch_length n t s) = sn_walk_start s"
  "sn_set_changed_at (advance_epoch_length n t s) = sn_set_changed_at s"
  by (simp_all add: advance_epoch_length_def Let_def)

lemma switch_set_same [simp]:
  "sn_number (switch_set n s) = sn_number s" "sn_hash (switch_set n s) = sn_hash s"
  "sn_epoch_length (switch_set n s) = sn_epoch_length s"
  "sn_attestation (switch_set n s) = sn_attestation s"
  "sn_ancestors (switch_set n s) = sn_ancestors s" "sn_walk_start (switch_set n s) = sn_walk_start s"
  by (simp_all add: switch_set_def split: option.splits)

lemma push_block_same [simp]:
  "sn_number (push_block n h s) = n" "sn_hash (push_block n h s) = h"
  "sn_epoch_length (push_block n h s) = sn_epoch_length s"
  "sn_turn_length (push_block n h s) = sn_turn_length s"
  "sn_validators (push_block n h s) = sn_validators s" "sn_pending (push_block n h s) = sn_pending s"
  "sn_vote_set (push_block n h s) = sn_vote_set s" "sn_prev_vote_set (push_block n h s) = sn_prev_vote_set s"
  "sn_attestation (push_block n h s) = sn_attestation s" "sn_recents (push_block n h s) = sn_recents s"
  "sn_walk_start (push_block n h s) = sn_walk_start s" "sn_set_changed_at (push_block n h s) = sn_set_changed_at s"
  by (simp_all add: push_block_def Let_def)

lemma next_number_eq: "sn_number s < u64_max \<Longrightarrow> next_number s = Suc (sn_number s)"
  by (simp add: next_number_def is_u64_def)

subsection \<open>Preservation\<close>

lemma set_inv_drop_expired [simp]: "set_inv (drop_expired n s) = set_inv s"
  by (simp add: set_inv_def)

lemma sort_key_eq_Nil [simp]: "sort_key f xs = [] \<longleftrightarrow> xs = []"
  by (metis length_0_conv length_sort)

lemma set_inv_schedule_epoch:
  assumes "set_inv s" "\<not> (is_epoch_block n s \<and> pe_validators p = [])"
    and p: "parse_extra extra Bohr (is_epoch_block n s) = Inr p"
  shows "set_inv (schedule_epoch n p s)"
proof (cases "is_epoch_block n s")
  case True
  have "wf_extra Bohr (is_epoch_block n s) p" using parse_extra_reprint [OF p] by simp
  then have "list_all (\<lambda>v. length (sv_address v) = 20 \<and> length (sv_vote_key v) = 48) (pe_validators p)"
    by (simp add: wf_extra_def)
  then have "pred_option pending_inv (sn_pending (schedule_epoch n p s))"
    using assms(2) True
    by (simp add: schedule_epoch_def pending_inv_def Let_def sort_key_map_fst) (simp add: list_all_iff)
  then show ?thesis using assms(1) by (simp add: set_inv_def)
next
  case False
  then show ?thesis using assms(1) by (simp add: schedule_epoch_def)
qed

lemma set_inv_record_sealer [simp]: "set_inv (record_sealer n t a d s) = set_inv s"
  by (simp add: set_inv_def)

lemma advance_epoch_length_cases:
  "sn_epoch_length (advance_epoch_length n t s)
     \<in> {sn_epoch_length s, LORENTZ_EPOCH_LENGTH, MAXWELL_EPOCH_LENGTH}"
  by (simp add: advance_epoch_length_def Let_def)

lemma set_inv_advance: "set_inv s \<Longrightarrow> set_inv (advance_epoch_length n t s)"
  using advance_epoch_length_cases [of n t s] by (auto simp: set_inv_def)

lemma set_inv_switch_set:
  assumes "set_inv s"
  shows "set_inv (switch_set n s)"
proof (cases "sn_pending s")
  case None
  then show ?thesis using assms by (simp add: switch_set_def)
next
  case (Some p)
  have "sorted (map sv_address (sn_vote_set s))" using assms by (auto simp: set_inv_def)
  then show ?thesis using assms Some
    by (auto simp: switch_set_def set_inv_def pending_inv_def comp_def case_prod_beta list_all_iff
        dest: set_zip_rightD)
qed

lemma set_inv_push_block [simp]: "set_inv (push_block n h s) = set_inv s"
  by (simp add: set_inv_def)

lemma chain_inv_push_block:
  assumes inv: "chain_inv s" and n: "n = Suc (sn_number s)" "is_u64 n" and h: "length h = 32"
  shows "chain_inv (push_block n h s)"
proof -
  let ?a = "sn_ancestors s @ [(n, h)]" and ?k = "length (sn_ancestors s)"
  have fst: "map fst ?a = [Suc (sn_number s) - ?k ..< Suc n]"
    using inv n by (simp add: chain_inv_def)
  have "?k \<le> 3" "?k \<le> n" "0 < ?k" using inv n by (auto simp: chain_inv_def K_ANCESTOR_GENERATION_DEPTH_def)
  then show ?thesis
    using n h fst
    by (auto simp: chain_inv_def push_block_def Let_def K_ANCESTOR_GENERATION_DEPTH_def drop_map [symmetric]
        last_drop)
qed

lemma recents_inv_filter:
  "recents_inv n s \<Longrightarrow> recents_inv n (s\<lparr>sn_recents := filter P (sn_recents s)\<rparr>)"
  by (auto simp: recents_inv_def distinct_map_filter)

lemma recents_inv_drop_expired: "recents_inv m s \<Longrightarrow> recents_inv m (drop_expired n s)"
  by (simp add: drop_expired_def Let_def AList.delete_eq recents_inv_filter)

lemma recents_inv_record_sealer:
  assumes "recents_inv m s" "m \<le> n"
  shows "recents_inv n (record_sealer n t a d s)"
proof -
  have upd: "set (AList.update n a rs) \<subseteq> insert (n, a) (set rs)" for rs :: "(nat \<times> bytes) list"
    by (induction rs) auto
  let ?rs = "AList.update n a (sn_recents s)"
  have "distinct (map fst ?rs)" using assms by (simp add: recents_inv_def distinct_update)
  moreover have "\<forall>(b, r) \<in> set ?rs. b \<le> n \<or> r = RECENT_EPOCH_SENTINEL"
    using upd [of "sn_recents s"] assms by (fastforce simp: recents_inv_def)
  moreover have "\<exists>P. sn_recents (record_sealer n t a d s) = filter P ?rs"
    by (auto simp: record_sealer_def prune_recents_to_finalized_def Let_def split: option.splits
        intro: exI [of _ "\<lambda>_. True"])
  ultimately show ?thesis
    by (auto simp: recents_inv_def distinct_map_filter)
qed

lemma recents_inv_switch_set: "recents_inv n s \<Longrightarrow> recents_inv n (switch_set n' s)"
  by (auto simp: recents_inv_def switch_set_def split: option.splits)

lemma check_attestation_Some:
  assumes "check_attestation X s raw number time = Inr (Some d)"
  obtains att where
    "decode_vote_attestation raw = Inr (Some att)" "va_data att = d"
    "vd_source_number d < vd_target_number d"
    "fst (attestation_target_window number time) \<le> vd_target_number d"
    "vd_target_number d \<le> number - 1"
    "ancestor_hash s (vd_target_number d) = Some (vd_target_hash d)"
    "\<And>j. sn_attestation s = Some j \<Longrightarrow>
       vd_source_number d = vd_target_number j \<and> vd_source_hash d = vd_target_hash j"
    "verify_attestation_signature X att (attestation_set s (vd_target_number d)) = Inr ()"
proof -
  obtain att where att: "decode_vote_attestation raw = Inr (Some att)"
    using assms by (auto simp: check_attestation_def res_simps split: option.splits)
  obtain lo hi where w: "attestation_target_window number time = (lo, hi)"
    by (cases "attestation_target_window number time")
  then have hi: "hi = number - 1" by (auto simp: attestation_target_window_def Let_def sat_sub_def)
  have data: "va_data att = d" "source_below_target d = Inr ()"
    using assms att by (auto simp: check_attestation_def res_simps Let_def w split: option.splits if_splits)
  have rest: "lo \<le> vd_target_number d" "vd_target_number d \<le> hi"
      "ancestor_hash s (vd_target_number d) = Some (vd_target_hash d)"
      "verify_attestation_signature X att (attestation_set s (vd_target_number d)) = Inr ()"
    using assms att by (auto simp: check_attestation_def res_simps Let_def w data(1) split: option.splits if_splits)
  have src: "vd_source_number d = vd_target_number j \<and> vd_source_hash d = vd_target_hash j"
    if "sn_attestation s = Some j" for j
    using assms att that by (auto simp: check_attestation_def res_simps Let_def w data(1) split: option.splits if_splits)
  show ?thesis
    using that [OF att data(1) _ _ _ rest(3) src rest(4)] data(2) rest(1,2) w hi
    by (simp add: source_below_target_def split: if_splits)
qed

lemma vote_inv_record_sealer:
  assumes "vote_inv m s" "m \<le> n"
    and d: "\<And>x. d = Some x \<Longrightarrow> vd_source_number x < vd_target_number x \<and> vd_target_number x \<le> n \<and>
           (\<forall>j. sn_attestation s = Some j \<longrightarrow> vd_source_number x = vd_target_number j)"
  shows "vote_inv n (record_sealer n' t a d s)"
proof (cases d)
  case None
  then show ?thesis using assms(1,2) by (cases "sn_attestation s") (simp_all add: vote_inv_def)
next
  case (Some x)
  show ?thesis
  proof (cases "sn_attestation s")
    case None
    then show ?thesis using d [OF Some] by (simp add: vote_inv_def adopt_attestation_def Some)
  next
    case (Some j)
    then have "vd_source_number j < vd_target_number x"
      using d [OF \<open>d = Some x\<close>] assms(1) by (simp add: vote_inv_def)
    then show ?thesis using d [OF \<open>d = Some x\<close>] Some
      by (simp add: vote_inv_def adopt_attestation_def \<open>d = Some x\<close>)
  qed
qed

section \<open>Accepted and rejected headers\<close>

lemma check_link_Inr:
  assumes "check_link X h signer s = Inr (number, time, hash)"
  shows "decode_u64 (h_number h) = Inr number" "decode_u64 (h_timestamp h) = Inr time"
    "decode_hex_fixed X 32 (h_parent_hash h) = Inr (sn_hash s)" "decode_hex_fixed X 32 (h_hash h) = Inr hash"
    "number = next_number s" "contains s signer" "length hash = 32"
    "sn_enforce_inturn s \<Longrightarrow> decode_u64 (h_difficulty h) = Inr (expected_difficulty s signer)"
  using assms by (auto simp: check_link_def res_simps split: if_splits dest: decode_hex_fixed_length)

lemma check_seal_Inr:
  assumes "check_seal X h signer number time s = Inr (parsed, adopted)"
  obtains extra where
    "\<not> sign_recently s signer" "verify_out_of_turn_backoff X (backoff_context_of s) h = Inr ()"
    "decode_hex X (h_extra_data h) = Inr extra" "parse_extra extra Bohr (is_epoch_block number s) = Inr parsed"
    "check_attestation X s (pe_attestation parsed) number time = Inr adopted"
    "\<not> (is_epoch_block number s \<and> pe_validators parsed = [])"
  using assms by (auto simp: check_seal_def res_simps split: if_splits)

lemma apply_verified_cases:
  obtains (link) e where "check_link X h signer s = Inl e" "apply_verified X h signer s = (Inl e, s)"
  | (seal) number time hash e where "check_link X h signer s = Inr (number, time, hash)"
      "check_seal X h signer number time (drop_expired number s) = Inl e"
      "apply_verified X h signer s = (Inl e, drop_expired number s)"
  | (move) number time hash parsed adopted where "check_link X h signer s = Inr (number, time, hash)"
      "check_seal X h signer number time (drop_expired number s) = Inr (parsed, adopted)"
      "apply_verified X h signer s =
         commit_block X h (move_block number time hash signer parsed adopted (drop_expired number s))"
proof (cases "check_link X h signer s")
  case (Inl e)
  then show ?thesis using link by (simp add: apply_verified_def)
next
  case (Inr v)
  obtain number time hash where v: "v = (number, time, hash)" by (cases v)
  show ?thesis
  proof (cases "check_seal X h signer number time (drop_expired number s)")
    case (Inl e)
    then show ?thesis using Inr v seal by (simp add: apply_verified_def)
  next
    case (Inr w)
    then show ?thesis using \<open>check_link X h signer s = Inr v\<close> v move
      by (cases w) (simp add: apply_verified_def)
  qed
qed

lemma commit_block_snd: "snd (commit_block X h s) = s \<or> (\<exists>m. snd (commit_block X h s) = s\<lparr>sn_last_milli := Some m\<rparr>)"
  by (cases "milli_timestamp X h") (auto simp: commit_block_def)

lemma snapshot_inv_last_milli [simp]: "snapshot_inv (s\<lparr>sn_last_milli := m\<rparr>) = snapshot_inv s"
  by (simp add: snapshot_inv_def inv_defs)

lemma snapshot_inv_commit_block [simp]: "snapshot_inv (snd (commit_block X h s)) = snapshot_inv s"
  using commit_block_snd [of X h s] by auto

lemma snapshot_inv_drop_expired: "snapshot_inv s \<Longrightarrow> snapshot_inv (drop_expired n s)"
  using recents_inv_drop_expired [of "sn_number s" s n]
  by (simp add: snapshot_inv_def chain_inv_def vote_inv_def)

lemma next_number_drop_expired [simp]: "next_number (drop_expired n s) = next_number s"
  by (simp add: next_number_def)

lemma move_block_inv:
  assumes inv: "snapshot_inv s" and n: "number = Suc (sn_number s)" "is_u64 number" and hash: "length hash = 32"
    and seal: "check_seal X h signer number time s = Inr (parsed, adopted)"
  shows "snapshot_inv (move_block number time hash signer parsed adopted s)"
proof -
  let ?s1 = "schedule_epoch number parsed s"
  let ?s2 = "record_sealer number time signer adopted ?s1"
  let ?s3 = "switch_set number (advance_epoch_length number time ?s2)"
  obtain extra where ep: "\<not> (is_epoch_block number s \<and> pe_validators parsed = [])"
    and px: "parse_extra extra Bohr (is_epoch_block number s) = Inr parsed"
    and att: "check_attestation X s (pe_attestation parsed) number time = Inr adopted"
    using seal by (rule check_seal_Inr)
  have i: "set_inv s" "chain_inv s" "recents_inv (sn_number s) s" "vote_inv (sn_number s) s"
    using inv by (simp_all add: snapshot_inv_def)
  have "set_inv ?s1" using i(1) ep px by (rule set_inv_schedule_epoch)
  then have "set_inv ?s3" by (intro set_inv_switch_set set_inv_advance) simp
  moreover have "chain_inv ?s3" using i(2) by (simp add: chain_inv_def)
  then have "chain_inv (push_block number hash ?s3)"
    using n hash by (intro chain_inv_push_block) simp_all
  moreover have "recents_inv (sn_number s) ?s1" using i(3) by (simp add: recents_inv_def)
  then have "recents_inv number ?s2" using n by (intro recents_inv_record_sealer) auto
  then have "recents_inv number (advance_epoch_length number time ?s2)" by (simp add: recents_inv_def)
  then have "recents_inv number ?s3" by (rule recents_inv_switch_set)
  moreover have "vote_inv number ?s2"
  proof (rule vote_inv_record_sealer)
    show "vote_inv (sn_number s) ?s1" using i(4) by (simp add: vote_inv_def)
    show "sn_number s \<le> number" using n by simp
    fix x assume "adopted = Some x"
    with att show "vd_source_number x < vd_target_number x \<and> vd_target_number x \<le> number \<and>
        (\<forall>j. sn_attestation ?s1 = Some j \<longrightarrow> vd_source_number x = vd_target_number j)"
      by (auto elim!: check_attestation_Some)
  qed
  then have "vote_inv number ?s3" by (simp add: vote_inv_def)
  ultimately show ?thesis
    by (simp add: move_block_def snapshot_inv_def recents_inv_def vote_inv_def)
qed

lemma apply_verified_inv:
  assumes inv: "snapshot_inv s" and n: "sn_number s < u64_max"
  shows "snapshot_inv (snd (apply_verified X h signer s))"
proof (cases rule: apply_verified_cases [of X h signer s])
  case link
  then show ?thesis using inv by simp
next
  case (seal number time hash e)
  then show ?thesis using snapshot_inv_drop_expired [OF inv] by simp
next
  case (move number time hash parsed adopted)
  have "snapshot_inv (move_block number time hash signer parsed adopted (drop_expired number s))"
    using snapshot_inv_drop_expired [OF inv] check_link_Inr(5,7) [OF move(1)] n move(2)
    by (intro move_block_inv) (auto simp: next_number_eq is_u64_def)
  then show ?thesis using move(3) by simp
qed

lemma apply_header_snd:
  "snd (apply_header X now h s) = (case verify_seal_coinbase X now h of
     Inl e \<Rightarrow> s | Inr signer \<Rightarrow> snd (apply_verified X h signer s))"
  by (auto simp: apply_header_def split: sum.splits prod.splits)

lemma apply_header_inv:
  "snapshot_inv s \<Longrightarrow> sn_number s < u64_max \<Longrightarrow> snapshot_inv (snd (apply_header X now h s))"
  by (auto simp: apply_header_snd intro: apply_verified_inv split: sum.splits)

text \<open>An accepted header, with everything the checks established about it.\<close>

lemma apply_header_Inr:
  assumes "apply_header X now h s = (Inr signer, s')"
  obtains number time hash parsed adopted milli where
    "verify_seal_coinbase X now h = Inr signer"
    "check_link X h signer s = Inr (number, time, hash)"
    "check_seal X h signer number time (drop_expired number s) = Inr (parsed, adopted)"
    "milli_timestamp X h = Inr milli"
    "s' = (move_block number time hash signer parsed adopted (drop_expired number s))\<lparr>sn_last_milli := Some milli\<rparr>"
proof -
  have v: "verify_seal_coinbase X now h = Inr signer" "apply_verified X h signer s = (Inr (), s')"
    using assms by (auto simp: apply_header_def split: sum.splits prod.splits)
  show ?thesis
  proof (cases rule: apply_verified_cases [of X h signer s])
    case (move number time hash parsed adopted)
    with v show ?thesis
      by (auto simp: commit_block_def split: sum.splits intro: that)
  qed (use v in simp_all)
qed

text \<open>The seal checks decode every field the last statement of \<open>apply_verified\<close> decodes.\<close>

lemma sealed_milli_ok:
  assumes "verify_seal_coinbase X now h = Inr signer"
  shows "\<exists>m. milli_timestamp X h = Inr m"
proof -
  obtain t mix where "decode_u64 (h_timestamp h) = Inr t" "decode_hex_fixed X 32 (h_mix_hash h) = Inr mix"
    using verify_seal_coinbase_Inr(1) [OF assms] by (auto simp: verify_unsealed_fields_def res_simps)
  then show ?thesis by (simp add: milli_timestamp_def s_defs Let_def)
qed

lemma apply_header_Inl:
  assumes "apply_header X now h s = (Inl e, s')"
  shows "s' = s \<or> s' = drop_expired (next_number s) s"
proof (cases "verify_seal_coinbase X now h")
  case (Inl e)
  then show ?thesis using assms by (simp add: apply_header_def)
next
  case (Inr signer)
  then have v: "apply_verified X h signer s = (Inl e, s')"
    using assms by (auto simp: apply_header_def split: sum.splits prod.splits)
  show ?thesis
  proof (cases rule: apply_verified_cases [of X h signer s])
    case (seal number time hash e)
    then show ?thesis using v check_link_Inr(5) [OF seal(1)] by simp
  next
    case (move number time hash parsed adopted)
    then show ?thesis using v sealed_milli_ok [OF Inr] by (auto simp: commit_block_def)
  qed (use v in simp)
qed

lemma drop_expired_idem: "drop_expired n (drop_expired n s) = drop_expired n s"
proof -
  have "delay (drop_expired n s) = delay s" by (simp add: delay_def n_seal_def)
  moreover have "AList.delete k (AList.delete k rs) = AList.delete k rs" for k and rs :: "(nat \<times> bytes) list"
    by (induction rs) (auto simp: AList.delete_eq)
  ultimately show ?thesis by (auto simp: drop_expired_def Let_def)
qed

lemma check_link_drop_expired: "check_link X h signer (drop_expired n s) = check_link X h signer s"
proof -
  have "contains (drop_expired n s) a = contains s a" "expected_difficulty (drop_expired n s) a = expected_difficulty s a" for a
    by (simp_all add: contains_def expected_difficulty_def inturn_validator_def Let_def)
  then show ?thesis by (simp only: check_link_def next_number_drop_expired drop_expired_same)
qed

lemma apply_verified_drop_expired:
  assumes "n = next_number s"
  shows "fst (apply_verified X h signer (drop_expired n s)) = fst (apply_verified X h signer s)"
    and "is_ok (fst (apply_verified X h signer s)) \<Longrightarrow>
         snd (apply_verified X h signer (drop_expired n s)) = snd (apply_verified X h signer s)"
proof -
  have "drop_expired number (drop_expired n s) = drop_expired number s"
    if "check_link X h signer s = Inr (number, time, hash)" for number time hash
    using check_link_Inr(5) [OF that] assms drop_expired_idem by simp
  then show "fst (apply_verified X h signer (drop_expired n s)) = fst (apply_verified X h signer s)"
    "is_ok (fst (apply_verified X h signer s)) \<Longrightarrow>
         snd (apply_verified X h signer (drop_expired n s)) = snd (apply_verified X h signer s)"
    unfolding apply_verified_def check_link_drop_expired
    by (auto simp: Let_def split: sum.splits prod.splits)
qed

lemma apply_header_harmless:
  assumes "apply_header X now h s = (Inl e, s1)"
  shows "fst (apply_header X now' h' s1) = fst (apply_header X now' h' s) \<and>
     (is_ok (fst (apply_header X now' h' s)) \<longrightarrow>
      snd (apply_header X now' h' s1) = snd (apply_header X now' h' s))"
proof (cases "verify_seal_coinbase X now' h'")
  case (Inl e)
  then show ?thesis by (simp add: apply_header_def)
next
  case (Inr signer)
  have "s1 = s \<or> s1 = drop_expired (next_number s) s" using assms by (rule apply_header_Inl)
  then show ?thesis
    using apply_verified_drop_expired [OF refl, of X h' signer s] Inr
    by (cases "apply_verified X h' signer s"; cases "apply_verified X h' signer (drop_expired (next_number s) s)")
       (auto simp: apply_header_def split: sum.splits)
qed

text \<open>
  C23. A rejected header has no lasting effect. \<open>apply_header\<close> may already have removed an entry
  from \<open>recents\<close> when a later check fails, but the next header, whatever it is, gets the
  verdict it would have got without the rejected one, and an accepted one leads to the same state.
\<close>

theorem rejected_header_harmless:
  assumes "apply_header X now h s = (Inl e, s1)"
  shows "fst (apply_header X now' h' s1) = fst (apply_header X now' h' s) \<and>
     (is_ok (fst (apply_header X now' h' s)) \<longrightarrow>
      snd (apply_header X now' h' s1) = snd (apply_header X now' h' s))"
  using assms by (rule apply_header_harmless)

lemma sign_recently_drop_expired:
  assumes "sn_number s < u64_max"
  shows "sign_recently (drop_expired (Suc (sn_number s)) s) a = sign_recently s a"
proof -
  have d: "delay (drop_expired n s) = delay s" for n by (simp add: delay_def n_seal_def)
  have u: "is_u64 (delay s)" by (simp add: delay_def is_u64_miner_history_check_len)
  have "Suc (sn_number s) - sat_add (delay s) 1 \<le> sat_sub (sn_number s) (delay s)"
    using assms u by (simp add: sat_add_def sat_sub_def is_u64_def)
  then have "sealed_in (sat_sub (sn_number s) (delay s)) a (sn_recents (drop_expired (Suc (sn_number s)) s)) =
      sealed_in (sat_sub (sn_number s) (delay s)) a (sn_recents s)"
    by (auto simp: sealed_in_def drop_expired_def Let_def AList.delete_eq intro!: arg_cong [of _ _ length]
        filter_cong)
  then show ?thesis by (simp add: sign_recently_iff d)
qed

lemma move_block_head [simp]:
  "sn_number (move_block number time hash signer parsed adopted s) = number"
  "sn_hash (move_block number time hash signer parsed adopted s) = hash"
  by (simp_all add: move_block_def)

lemma accepted_head:
  assumes "apply_header X now h s = (Inr signer, s')"
  shows "sn_number s' = next_number s" "decode_hex_fixed X 32 (h_hash h) = Inr (sn_hash s')"
    "decode_hex_fixed X 32 (h_parent_hash h) = Inr (sn_hash s)" "decode_u64 (h_number h) = Inr (next_number s)"
  using assms by (auto elim!: apply_header_Inr dest: check_link_Inr)

text \<open>The snapshot fulfils the contract of a ledger.\<close>

interpretation snapshot_ledger: ledger "\<lambda>(now, h). apply_header X now h" snapshot_inv sn_number
  for X :: "('pk, 'sg) ext"
proof unfold_locales
  fix s :: snapshot and i :: "nat \<times> rpc_block_header"
  obtain now h where i: "i = (now, h)" by (cases i)
  show "snapshot_inv (snd ((case i of (now, h) \<Rightarrow> apply_header X now h) s))"
    if "snapshot_inv s" "sn_number s < u64_max"
    using that by (simp add: i apply_header_inv)
  fix s'
  show "sn_number s' = Suc (sn_number s)"
    if "snapshot_inv s" "sn_number s < u64_max" "(case i of (now, h) \<Rightarrow> apply_header X now h) s = (Inr v, s')" for v
    using accepted_head(1) [of X now h s v s'] next_number_eq [OF that(2)] that(3) by (simp add: i)
  show "sn_number s' = sn_number s" if "(case i of (now, h) \<Rightarrow> apply_header X now h) s = (Inl e, s')" for e
    using apply_header_Inl [of X now h s e s'] that by (auto simp: i)
  show "same_future (\<lambda>(now, h). apply_header X now h) s' s"
    if "(case i of (now, h) \<Rightarrow> apply_header X now h) s = (Inl e, s')" for e
    using apply_header_harmless [of X now h s e s'] that by (auto simp: i same_future_def)
qed

text \<open>
  C3. What acceptance means. On a well-formed snapshot that enforces turns, a header is accepted
  only if it links to the head by number and hash, its block hash is the Keccak hash of its
  own fields, it is signed by its coinbase, the signer is in the active set, its difficulty
  is 2 exactly when the signer is in turn, and the signer sealed fewer than \<open>turn_length\<close>
  (at most 255) of the recorded blocks of the recency window.
\<close>

theorem accepted_header_sound:
  assumes inv: "snapshot_inv s" "sn_number s < u64_max" "sn_enforce_inturn s" "0 < sn_turn_length s" "sn_turn_length s \<le> 255"
    and ok: "apply_header X now h s = (Inr signer, s')"
  shows "decode_u64 (h_number h) = Inr (Suc (sn_number s)) \<and>
     decode_hex_fixed X 32 (h_parent_hash h) = Inr (sn_hash s) \<and>
     header_hash X h = Inr (sn_hash s') \<and>
     recover_signer X h BSC_MAINNET_CHAIN_ID = Inr signer \<and>
     decode_hex_fixed X 20 (h_miner h) = Inr signer \<and>
     signer \<in> set (sn_validators s) \<and>
     decode_u64 (h_difficulty h) = Inr (if inturn_validator s = Some signer then 2 else 1) \<and>
     (signer \<noteq> RECENT_EPOCH_SENTINEL \<longrightarrow>
      sealed_in (sn_number s - delay s) signer (sn_recents s) < sn_turn_length s)"
proof -
  obtain number time hash parsed adopted milli where
    v: "verify_seal_coinbase X now h = Inr signer"
    and l: "check_link X h signer s = Inr (number, time, hash)"
    and c: "check_seal X h signer number time (drop_expired number s) = Inr (parsed, adopted)"
    using ok by (rule apply_header_Inr)
  have n: "number = Suc (sn_number s)" using check_link_Inr(5) [OF l] next_number_eq [OF inv(2)] by simp
  have "\<not> sign_recently (drop_expired number s) signer" using c by (rule check_seal_Inr)
  then have "\<not> sign_recently s signer" using sign_recently_drop_expired [OF inv(2)] n by simp
  then have r: "signer \<noteq> RECENT_EPOCH_SENTINEL \<longrightarrow>
      sealed_in (sn_number s - delay s) signer (sn_recents s) < sn_turn_length s"
    using inv(4,5) by (auto simp: sign_recently_iff Let_def sat_sub_def)
  have m: "signer \<in> set (sn_validators s)"
    using check_link_Inr(6) [OF l] inv(1) contains_iff by (simp add: snapshot_inv_def set_inv_def)
  have d: "decode_u64 (h_difficulty h) = Inr (if inturn_validator s = Some signer then 2 else 1)"
    using check_link_Inr(8) [OF l inv(3)]
    by (simp add: expected_difficulty_def DIFF_IN_TURN_def DIFF_NO_TURN_def split: option.splits)
  show ?thesis
    using verify_seal_coinbase_Inr(2,3,4) [OF v] accepted_head [OF ok] next_number_eq [OF inv(2)] r m d by auto
qed

lemma adopt_attestation_progress:
  assumes d: "check_attestation X s raw number time = Inr (Some d)" and inv: "vote_inv n s"
  shows "finalized_number s \<le> finalized_number (adopt_attestation d s)"
    "\<And>j. justified s = Some j \<Longrightarrow> fst j < vd_target_number d"
    "justified (adopt_attestation d s) = Some (vd_target_number d, vd_target_hash d)"
    "sn_attestation s \<noteq> None \<Longrightarrow>
       finalized (adopt_attestation d s) = finalized s \<or> finalized (adopt_attestation d s) = justified s"
  using d inv
  by (auto simp: adopt_attestation_def finalized_number_def justified_def finalized_def vote_inv_def
      elim!: check_attestation_Some split: option.splits)

lemma drop_expired_views [simp]:
  "justified (drop_expired n s) = justified s" "finalized (drop_expired n s) = finalized s"
  "finalized_number (drop_expired n s) = finalized_number s" "vote_inv m (drop_expired n s) = vote_inv m s"
  "ancestor_hash (drop_expired n s) k = ancestor_hash s k"
  by (simp_all add: justified_def finalized_def finalized_number_def vote_inv_def ancestor_hash_def)

lemma move_block_attestation:
  "sn_attestation (move_block number time hash signer parsed adopted s) =
     (case adopted of None \<Rightarrow> sn_attestation s | Some x \<Rightarrow> sn_attestation (adopt_attestation x s))"
  by (auto simp: move_block_def adopt_attestation_def split: option.splits)

lemma apply_header_attestation:
  assumes "apply_header X now h s = (Inr signer, s')"
  obtains "sn_attestation s' = sn_attestation s"
  | raw number time d where "check_attestation X (drop_expired (next_number s) s) raw number time = Inr (Some d)"
      "sn_attestation s' = sn_attestation (adopt_attestation d s)"
proof -
  obtain number time hash parsed adopted milli where
    l: "check_link X h signer s = Inr (number, time, hash)"
    and c: "check_seal X h signer number time (drop_expired number s) = Inr (parsed, adopted)"
    and s': "s' = (move_block number time hash signer parsed adopted (drop_expired number s))\<lparr>sn_last_milli := Some milli\<rparr>"
    using assms by (rule apply_header_Inr)
  have a: "check_attestation X (drop_expired number s) (pe_attestation parsed) number time = Inr adopted"
    using c by (rule check_seal_Inr)
  show ?thesis
  proof (cases adopted)
    case None
    then show ?thesis using that(1) by (simp add: s' move_block_attestation)
  next
    case (Some d)
    have "sn_attestation (adopt_attestation d (drop_expired number s)) = sn_attestation (adopt_attestation d s)"
      by (simp add: adopt_attestation_def split: option.splits)
    then show ?thesis
      using that(2) [of "pe_attestation parsed" number time d] a Some check_link_Inr(5) [OF l]
      by (simp add: s' move_block_attestation)
  qed
qed

text \<open>
  C24. Finality never moves back. Whatever header is applied, the finalized number does not
  decrease, the justified number does not decrease, and, once an attestation is held, the
  finalized block afterwards is either the old one or the block that was justified before. (The first
  attestation finalizes its own source, since nothing was justified before it.)
\<close>

theorem finality_monotone:
  assumes "snapshot_inv s" "apply_header X now h s = (r, s')"
  shows "finalized_number s \<le> finalized_number s' \<and>
     (\<forall>j. justified s = Some j \<longrightarrow> (\<exists>j'. justified s' = Some j' \<and> fst j \<le> fst j')) \<and>
     (sn_attestation s \<noteq> None \<longrightarrow> finalized s' = finalized s \<or> finalized s' = justified s)"
proof (cases r)
  case (Inl e)
  then show ?thesis using apply_header_Inl assms(2) by fastforce
next
  case (Inr signer)
  have inv: "vote_inv (sn_number s) s" using assms(1) by (simp add: snapshot_inv_def)
  from assms(2) [unfolded Inr] show ?thesis
  proof (cases rule: apply_header_attestation)
    case 1
    then show ?thesis by (auto simp: finalized_number_def justified_def finalized_def)
  next
    case (2 raw number time d)
    let ?s = "drop_expired (next_number s) s"
    have "sn_attestation s' = sn_attestation (adopt_attestation d ?s)"
      using 2(2) by (simp add: adopt_attestation_def split: option.splits)
    then have "finalized_number s' = finalized_number (adopt_attestation d ?s)"
      "justified s' = justified (adopt_attestation d ?s)" "finalized s' = finalized (adopt_attestation d ?s)"
      by (simp_all add: finalized_number_def justified_def finalized_def)
    then show ?thesis
      using adopt_attestation_progress [OF 2(1), of "sn_number s"] inv by (auto dest: less_imp_le)
  qed
qed

section \<open>The walk from a checkpoint\<close>

text \<open>
  Every state a client can bring a snapshot to: it starts from a checkpoint, may try to seed the
  turn length, and feeds headers that are accepted (and recorded in the history) or rejected.
\<close>

inductive walk :: "('pk, 'sg) ext \<Rightarrow> checkpoint \<Rightarrow> rpc_block_header list \<Rightarrow> snapshot \<Rightarrow> bool"
  for X cp where
  start: "from_checkpoint X cp = Inr s \<Longrightarrow> walk X cp [] s"
| seed: "walk X cp hs s \<Longrightarrow> seed_turn_length t s = (r, s') \<Longrightarrow> walk X cp hs s'"
| accept: "walk X cp hs s \<Longrightarrow> apply_header X now h s = (Inr signer, s') \<Longrightarrow> walk X cp (hs @ [h]) s'"
| reject: "walk X cp hs s \<Longrightarrow> apply_header X now h s = (Inl e, s') \<Longrightarrow> walk X cp hs s'"

fun linked :: "('pk, 'sg) ext \<Rightarrow> bytes \<Rightarrow> rpc_block_header list \<Rightarrow> bytes \<Rightarrow> bool" where
  "linked X parent [] head \<longleftrightarrow> parent = head"
| "linked X parent (h # hs) head \<longleftrightarrow>
     decode_hex_fixed X 32 (h_parent_hash h) = Inr parent \<and>
     (case decode_hex_fixed X 32 (h_hash h) of Inl _ \<Rightarrow> False | Inr d \<Rightarrow> linked X d hs head)"

text \<open>
  A set that an accepted epoch header announced: the header was accepted during the walk, its number is a multiple of
  the epoch length in force at that moment, and the set is the sorted list of the validators in its \<open>extraData\<close>.
\<close>

definition announces :: "('pk, 'sg) ext \<Rightarrow> snapshot \<Rightarrow> rpc_block_header \<Rightarrow> bytes list \<Rightarrow> bool" where
  "announces X s h vs \<longleftrightarrow>
     (\<exists>number extra parsed. decode_u64 (h_number h) = Inr number \<and> number mod sn_epoch_length s = 0 \<and>
        decode_hex X (h_extra_data h) = Inr extra \<and> parse_extra extra Bohr True = Inr parsed \<and>
        vs \<noteq> [] \<and> vs = sort (map sv_address (pe_validators parsed)))"

definition announced :: "('pk, 'sg) ext \<Rightarrow> checkpoint \<Rightarrow> rpc_block_header list \<Rightarrow> bytes list \<Rightarrow> bool" where
  "announced X cp hs vs \<longleftrightarrow>
     (\<exists>before h rest s now signer s'. hs = before @ h # rest \<and> walk X cp before s \<and>
        apply_header X now h s = (Inr signer, s') \<and> announces X s h vs)"

definition set_origin :: "('pk, 'sg) ext \<Rightarrow> checkpoint \<Rightarrow> rpc_block_header list \<Rightarrow> bytes list \<Rightarrow> bool" where
  "set_origin X cp hs vs \<longleftrightarrow>
     (\<exists>ds. rmapM (decode_hex_fixed X 20) (cp_sealing_set cp) = Inr ds \<and> vs = sort ds) \<or> announced X cp hs vs"

lemma linked_snoc:
  "linked X p hs d \<Longrightarrow> decode_hex_fixed X 32 (h_parent_hash h) = Inr d \<Longrightarrow>
   decode_hex_fixed X 32 (h_hash h) = Inr d' \<Longrightarrow> linked X p (hs @ [h]) d'"
  by (induction hs arbitrary: p) (auto split: sum.splits)

lemma rmapM_n_fixed: "rmapM (n_fixed X k) xs = Inr ys \<longleftrightarrow> rmapM (decode_hex_fixed X k) xs = Inr ys"
  by (simp add: rmapM_Inr_iff n_fixed_def res_simps)

lemma rmapM_fixed_lengths: "rmapM (decode_hex_fixed X k) xs = Inr ys \<Longrightarrow> list_all (\<lambda>y. length y = k) ys"
  by (induction xs arbitrary: ys) (auto simp: res_simps dest: decode_hex_fixed_length)

lemma checkpoint_vote_set_Inr:
  assumes "checkpoint_vote_set X vs keys = Inr ws"
  shows "ws = [] \<or> map sv_address ws = sort vs" "list_all (\<lambda>v. length (sv_vote_key v) = 48) ws"
proof -
  have pairs: "map sv_address ps = map fst zs" "list_all (\<lambda>v. length (sv_vote_key v) = 48) ps"
    if "rmapM (\<lambda>(addr, key). map_ok (\<lambda>k. \<lparr>sv_address = addr, sv_vote_key = k\<rparr>) (n_fixed X 48 key)) zs = Inr ps"
    for zs ps
    using that by (induction zs arbitrary: ps) (auto simp: res_simps decode_hex_fixed_Inr_iff)
  show "ws = [] \<or> map sv_address ws = sort vs" "list_all (\<lambda>v. length (sv_vote_key v) = 48) ws"
    using assms
    by (auto simp: checkpoint_vote_set_def res_simps sort_key_map_fst list_all_iff split: option.splits if_splits
        dest: pairs)
qed

lemma from_checkpoint_Inr:
  assumes "from_checkpoint X cp = Inr s"
  obtains ds where "rmapM (decode_hex_fixed X 20) (cp_sealing_set cp) = Inr ds"
    "sn_validators s = sort ds" "decode_hex_fixed X 32 (cp_hash cp) = Inr (sn_hash s)"
    "sn_number s = cp_number cp" "sn_pending s = None" "sn_attestation s = None" "sn_recents s = []"
    "sn_ancestors s = [(sn_number s, sn_hash s)]" "sn_walk_start s = sat_add (cp_number cp) 1"
    "sn_vote_set s = [] \<or> map sv_address (sn_vote_set s) = sn_validators s" "sn_prev_vote_set s = []"
    "list_all (\<lambda>v. length (sv_vote_key v) = 48) (sn_vote_set s)" "list_all (\<lambda>a. length a = 20) (sn_validators s)"
    "sn_epoch_length s = fp_epoch_length (params_at (cp_number cp) (cp_timestamp cp))"
    "sn_turn_length s = fp_turn_length (params_at (cp_number cp) (cp_timestamp cp))"
proof -
  obtain ds vset d where "rmapM (decode_hex_fixed X 20) (cp_sealing_set cp) = Inr ds"
    "checkpoint_vote_set X ds (cp_vote_keys cp) = Inr vset" "decode_hex_fixed X 32 (cp_hash cp) = Inr d"
    using assms by (auto simp: from_checkpoint_def res_simps Let_def rmapM_n_fixed)
  with assms show ?thesis
    using checkpoint_vote_set_Inr [of X ds "cp_vote_keys cp" vset] rmapM_fixed_lengths [of X 20 "cp_sealing_set cp" ds]
    by (intro that) (auto simp: from_checkpoint_def res_simps Let_def rmapM_n_fixed list_all_iff)
qed

lemma from_checkpoint_inv:
  assumes "from_checkpoint X cp = Inr s" "is_u64 (cp_number cp)"
  shows "snapshot_inv s"
proof -
  have "fp_epoch_length (params_at n t) \<in> {DEFAULT_EPOCH_LENGTH, LORENTZ_EPOCH_LENGTH, MAXWELL_EPOCH_LENGTH}"
    if "n = cp_number cp" "t = cp_timestamp cp" for n t
    by (simp add: params_at_def fermi_family_def)
  from this [OF refl refl] assms show ?thesis
    by (auto simp: snapshot_inv_def inv_defs K_ANCESTOR_GENERATION_DEPTH_def
        elim!: from_checkpoint_Inr dest!: decode_hex_fixed_length)
qed

lemma seed_turn_length_same:
  assumes "seed_turn_length t s = (r, s')"
  shows "sn_number s' = sn_number s" "sn_hash s' = sn_hash s" "sn_validators s' = sn_validators s"
    "sn_pending s' = sn_pending s" "sn_attestation s' = sn_attestation s" "sn_ancestors s' = sn_ancestors s"
    "snapshot_inv s' = snapshot_inv s"
proof -
  have "s' = s \<or> s' = s\<lparr>sn_turn_length := t\<rparr>"
    using assms by (auto simp: seed_turn_length_def split: if_splits)
  then show "sn_number s' = sn_number s" "sn_hash s' = sn_hash s" "sn_validators s' = sn_validators s"
    "sn_pending s' = sn_pending s" "sn_attestation s' = sn_attestation s" "sn_ancestors s' = sn_ancestors s"
    "snapshot_inv s' = snapshot_inv s"
    by (elim disjE; simp add: snapshot_inv_def inv_defs)+
qed

lemma apply_header_Inl_same:
  assumes "apply_header X now h s = (Inl e, s')"
  shows "sn_number s' = sn_number s" "sn_hash s' = sn_hash s" "sn_validators s' = sn_validators s"
    "sn_pending s' = sn_pending s" "sn_attestation s' = sn_attestation s" "sn_ancestors s' = sn_ancestors s"
  using apply_header_Inl [OF assms] by auto

lemma walk_facts:
  assumes "walk X cp hs s" "cp_number cp + length hs \<le> u64_max"
  shows "sn_number s = cp_number cp + length hs \<and> snapshot_inv s \<and>
     (\<exists>d. decode_hex_fixed X 32 (cp_hash cp) = Inr d \<and> linked X d hs (sn_hash s))"
  using assms
proof (induction rule: walk.induct)
  case (start s)
  then have "snapshot_inv s" by (intro from_checkpoint_inv) (auto simp: is_u64_def)
  with start show ?case by (auto elim!: from_checkpoint_Inr)
next
  case (seed hs s t r s')
  then show ?case using seed_turn_length_same [OF seed(2)] by simp
next
  case (accept hs s now h signer s')
  then have IH: "sn_number s = cp_number cp + length hs" "snapshot_inv s"
    "\<exists>d. decode_hex_fixed X 32 (cp_hash cp) = Inr d \<and> linked X d hs (sn_hash s)" by auto
  have n: "sn_number s < u64_max" using IH(1) accept.prems by simp
  have "snapshot_inv s'" using apply_header_inv [OF IH(2) n, of X now h] accept(2) by simp
  then show ?case
    using IH accepted_head [OF accept(2)] next_number_eq [OF n] by (auto intro: linked_snoc)
next
  case (reject hs s now h e s')
  then have "snapshot_inv s'"
    using apply_header_Inl [OF reject(2)] snapshot_inv_drop_expired by auto
  then show ?case using reject apply_header_Inl_same [OF reject(2)] by auto
qed

text \<open>
  C25. The walk stays on one chain. After any sequence of seeding attempts, accepted and rejected
  headers, the snapshot is well formed, its height is the checkpoint height plus the number of
  accepted headers, and its head hash is the end of a hash-linked chain of exactly those
  headers that starts at the checkpoint hash.
\<close>

theorem walk_linked:
  assumes "walk X cp hs s" "cp_number cp + length hs \<le> u64_max"
  shows "sn_number s = cp_number cp + length hs \<and> snapshot_inv s \<and>
     (\<exists>d. decode_hex_fixed X 32 (cp_hash cp) = Inr d \<and> linked X d hs (sn_hash s))"
  using assms by (rule walk_facts)

lemma move_block_sets:
  fixes hash :: bytes
  assumes "check_seal X h signer number time s = Inr (parsed, adopted)" "decode_u64 (h_number h) = Inr number"
  defines "s' \<equiv> move_block number time hash signer parsed adopted s"
  shows "sn_validators s' = sn_validators s \<or> announces X s h (sn_validators s') \<or>
           (\<exists>p. sn_pending s = Some p \<and> sn_validators s' = pn_validators p)"
    and "sn_pending s' = Some p \<Longrightarrow> announces X s h (pn_validators p) \<or> sn_pending s = Some p"
proof -
  obtain extra where e: "decode_hex X (h_extra_data h) = Inr extra"
      "parse_extra extra Bohr (is_epoch_block number s) = Inr parsed"
      "\<not> (is_epoch_block number s \<and> pe_validators parsed = [])"
    using assms(1) by (rule check_seal_Inr)
  have sch: "sn_pending (schedule_epoch number parsed s) = Some p \<Longrightarrow>
      announces X s h (pn_validators p) \<or> sn_pending s = Some p" for p
    using e assms(2)
    by (auto simp: schedule_epoch_def Let_def announces_def is_epoch_block_def sort_key_map_fst split: if_splits)
  have sw: "sn_validators (switch_set number u) = sn_validators u \<or>
      (\<exists>p. sn_pending u = Some p \<and> sn_validators (switch_set number u) = pn_validators p)"
    "sn_pending (switch_set number u) = Some p \<Longrightarrow> sn_pending u = Some p" for u p
    by (auto simp: switch_set_def split: option.splits if_splits)
  show "sn_validators s' = sn_validators s \<or> announces X s h (sn_validators s') \<or>
           (\<exists>p. sn_pending s = Some p \<and> sn_validators s' = pn_validators p)"
    using sch sw(1) [of "advance_epoch_length number time (record_sealer number time signer adopted (schedule_epoch number parsed s))"]
    by (auto simp: s'_def move_block_def)
  show "announces X s h (pn_validators p) \<or> sn_pending s = Some p" if "sn_pending s' = Some p"
  proof (rule sch)
    show "sn_pending (schedule_epoch number parsed s) = Some p"
      using sw(2) [of "advance_epoch_length number time (record_sealer number time signer adopted
        (schedule_epoch number parsed s))" p] that
      by (simp add: s'_def move_block_def)
  qed
qed

lemma announces_drop_expired [simp]: "announces X (drop_expired n s) h vs = announces X s h vs"
  by (simp add: announces_def)

lemma announced_mono: "announced X cp hs vs \<Longrightarrow> announced X cp (hs @ [h]) vs"
  unfolding announced_def by fastforce

lemma announced_last:
  "walk X cp hs s \<Longrightarrow> apply_header X now h s = (Inr signer, s') \<Longrightarrow> announces X s h vs \<Longrightarrow> announced X cp (hs @ [h]) vs"
  unfolding announced_def by fastforce

lemma walk_set_origin:
  "walk X cp hs s \<Longrightarrow> set_origin X cp hs (sn_validators s) \<and>
     (\<forall>p. sn_pending s = Some p \<longrightarrow> announced X cp hs (pn_validators p))"
proof (induction rule: walk.induct)
  case (start s)
  then show ?case by (auto simp: set_origin_def elim!: from_checkpoint_Inr)
next
  case (seed hs s t r s')
  then show ?case using seed_turn_length_same [OF seed(2)] by simp
next
  case (reject hs s now h e s')
  then show ?case using apply_header_Inl_same [OF reject(2)] by simp
next
  case (accept hs s now h signer s')
  obtain number time hash parsed adopted milli where
    l: "check_link X h signer s = Inr (number, time, hash)"
    and c: "check_seal X h signer number time (drop_expired number s) = Inr (parsed, adopted)"
    and s': "s' = (move_block number time hash signer parsed adopted (drop_expired number s))\<lparr>sn_last_milli := Some milli\<rparr>"
    using accept(2) by (rule apply_header_Inr)
  have n: "decode_u64 (h_number h) = Inr number" using l by (auto simp: check_link_def res_simps split: if_splits)
  have v: "sn_validators s' = sn_validators s \<or> announces X s h (sn_validators s') \<or>
           (\<exists>p. sn_pending s = Some p \<and> sn_validators s' = pn_validators p)"
    and p: "sn_pending s' = Some p \<Longrightarrow> announces X s h (pn_validators p) \<or> sn_pending s = Some p" for p
    using move_block_sets [OF c n, of hash] by (auto simp: s')
  note new = announced_last [OF accept(1,2)] and old = announced_mono [of X cp hs _ h]
  have "set_origin X cp (hs @ [h]) (sn_validators s')"
    using v accept.IH new old unfolding set_origin_def by metis
  then show ?case using p accept.IH new old by metis
qed

text \<open>
  C26. Sealing-set provenance. At every point of a walk the active validator set is the sorted checkpoint set, or
  the sorted set announced in the \<open>extraData\<close> of an epoch header: one that was itself accepted on the walk and whose number
  is a multiple of the epoch length then in force. A pending set is always of the second kind. No
  rejected header and no header off an epoch boundary contributes a validator.
\<close>

theorem sealing_set_provenance:
  assumes "walk X cp hs s"
  shows "set_origin X cp hs (sn_validators s) \<and>
     (\<forall>p. sn_pending s = Some p \<longrightarrow> announced X cp hs (pn_validators p))"
  using assms by (rule walk_set_origin)

text \<open>Blocks of the walk: the checkpoint and the accepted headers, by number and hash.\<close>

definition on_chain :: "('pk, 'sg) ext \<Rightarrow> checkpoint \<Rightarrow> rpc_block_header list \<Rightarrow> nat \<times> bytes \<Rightarrow> bool" where
  "on_chain X cp hs b \<longleftrightarrow>
     fst b = cp_number cp \<and> decode_hex_fixed X 32 (cp_hash cp) = Inr (snd b) \<or>
     (\<exists>h \<in> set hs. decode_u64 (h_number h) = Inr (fst b) \<and> decode_hex_fixed X 32 (h_hash h) = Inr (snd b))"

lemma on_chain_mono: "on_chain X cp hs b \<Longrightarrow> on_chain X cp (hs @ [h]) b"
  by (auto simp: on_chain_def)

lemma push_block_ancestors: "set (sn_ancestors (push_block n h s)) \<subseteq> insert (n, h) (set (sn_ancestors s))"
  by (auto simp: push_block_def Let_def dest: in_set_dropD)

lemma accepted_ancestors:
  assumes "apply_header X now h s = (Inr signer, s')"
  shows "set (sn_ancestors s') \<subseteq> insert (sn_number s', sn_hash s') (set (sn_ancestors s))"
proof -
  obtain number time hash parsed adopted milli where
    "s' = (move_block number time hash signer parsed adopted (drop_expired number s))\<lparr>sn_last_milli := Some milli\<rparr>"
    using assms by (rule apply_header_Inr)
  then show ?thesis
    using push_block_ancestors [of number hash "switch_set number (advance_epoch_length number time
      (record_sealer number time signer adopted (schedule_epoch number parsed (drop_expired number s))))"]
    by (simp add: move_block_def)
qed

lemma ancestor_hash_mem: "ancestor_hash s n = Some d \<Longrightarrow> (n, d) \<in> set (sn_ancestors s)"
  by (auto simp: ancestor_hash_def find_Some_iff) (metis length_rev nth_mem set_rev)

lemma walk_on_chain:
  "walk X cp hs s \<Longrightarrow>
     (\<forall>b \<in> set (sn_ancestors s). on_chain X cp hs b) \<and> (\<forall>b. justified s = Some b \<longrightarrow> on_chain X cp hs b)"
proof (induction rule: walk.induct)
  case (start s)
  then show ?case by (auto simp: on_chain_def justified_def elim!: from_checkpoint_Inr)
next
  case (seed hs s t r s')
  then show ?case using seed_turn_length_same [OF seed(2)] by (simp add: justified_def)
next
  case (reject hs s now h e s')
  then show ?case using apply_header_Inl_same [OF reject(2)] by (simp add: justified_def)
next
  case (accept hs s now h signer s')
  have "on_chain X cp (hs @ [h]) (sn_number s', sn_hash s')"
    using accepted_head [OF accept(2)] by (auto simp: on_chain_def)
  then have anc: "\<forall>b \<in> set (sn_ancestors s'). on_chain X cp (hs @ [h]) b"
    using accepted_ancestors [OF accept(2)] accept.IH on_chain_mono by blast
  from accept(2) have "\<forall>b. justified s' = Some b \<longrightarrow> on_chain X cp (hs @ [h]) b"
  proof (cases rule: apply_header_attestation)
    case 1
    then show ?thesis using accept.IH on_chain_mono by (auto simp: justified_def)
  next
    case (2 raw number time d)
    then have "ancestor_hash s (vd_target_number d) = Some (vd_target_hash d)"
      by (auto elim: check_attestation_Some)
    then have "on_chain X cp hs (vd_target_number d, vd_target_hash d)"
      using accept.IH ancestor_hash_mem by blast
    moreover have "justified s' = Some (vd_target_number d, vd_target_hash d)"
      using 2(2) by (auto simp: justified_def adopt_attestation_def split: option.splits)
    ultimately show ?thesis using on_chain_mono by auto
  qed
  with anc show ?case by blast
qed

text \<open>
  C27. The justified block is always a block of the walk: the checkpoint or an accepted header, with
  the hash this client verified for it. The ancestors kept for that check are blocks of the walk too.
\<close>

theorem justified_on_chain:
  assumes "walk X cp hs s"
  shows "(\<forall>b \<in> set (sn_ancestors s). on_chain X cp hs b) \<and> (\<forall>b. justified s = Some b \<longrightarrow> on_chain X cp hs b)"
  using assms by (rule walk_on_chain)

section \<open>Epoch scheduling and activation\<close>

definition scheduled :: "snapshot \<Rightarrow> parsed_extra \<Rightarrow> pending_epoch option" where
  "scheduled s parsed =
     (if is_epoch_block (next_number s) s then
        Some \<lparr>pn_epoch_block = next_number s, pn_activate_at = wrap64 (next_number s + delay s),
              pn_validators = sort (map sv_address (pe_validators parsed)),
              pn_vote_keys = map sv_vote_key (sort_key sv_address (pe_validators parsed)),
              pn_turn_length = turn_or (pe_turn_length parsed) (sn_turn_length s)\<rparr>
      else sn_pending s)"

lemma sn_pending_schedule_epoch:
  "sn_pending (schedule_epoch (next_number s) parsed s) = scheduled s parsed"
  by (simp add: schedule_epoch_def scheduled_def Let_def delay_def sort_key_map_fst)

lemma scheduled_drop_expired [simp]: "scheduled (drop_expired n s) parsed = scheduled s parsed"
  by (simp add: scheduled_def is_epoch_block_def delay_def n_seal_def)

text \<open>Everything an activation would change.\<close>

definition same_set :: "snapshot \<Rightarrow> snapshot \<Rightarrow> bool" where
  "same_set s s' \<longleftrightarrow>
     sn_validators s' = sn_validators s \<and> sn_turn_length s' = sn_turn_length s \<and> sn_vote_set s' = sn_vote_set s \<and>
     sn_prev_vote_set s' = sn_prev_vote_set s \<and> sn_set_changed_at s' = sn_set_changed_at s"

definition activation :: "snapshot \<Rightarrow> parsed_extra \<Rightarrow> snapshot \<Rightarrow> bool" where
  "activation s parsed s' \<longleftrightarrow>
     (case scheduled s parsed of
        Some p \<Rightarrow>
          if next_number s = pn_activate_at p
          then sn_validators s' = pn_validators p \<and> sn_turn_length s' = pn_turn_length p \<and>
               sn_pending s' = None \<and> map sv_address (sn_vote_set s') = pn_validators p \<and>
               map sv_vote_key (sn_vote_set s') = pn_vote_keys p \<and> sn_prev_vote_set s' = sn_vote_set s \<and>
               sn_set_changed_at s' = next_number s
          else same_set s s' \<and> sn_pending s' = Some p
      | None \<Rightarrow> same_set s s' \<and> sn_pending s' = None)"

lemma activation_cong [simp]:
  "activation (drop_expired n s) parsed s' = activation s parsed s'"
  "activation s parsed (s'\<lparr>sn_last_milli := m\<rparr>) = activation s parsed s'"
  by (simp_all add: activation_def same_set_def split: option.splits)

lemma switch_set_active:
  assumes "sn_pending u = Some p" "n = pn_activate_at p" "length (pn_vote_keys p) = length (pn_validators p)"
  shows "sn_validators (switch_set n u) = pn_validators p" "sn_turn_length (switch_set n u) = pn_turn_length p"
    "sn_pending (switch_set n u) = None" "map sv_address (sn_vote_set (switch_set n u)) = pn_validators p"
    "map sv_vote_key (sn_vote_set (switch_set n u)) = pn_vote_keys p"
    "sn_prev_vote_set (switch_set n u) = sn_vote_set u" "sn_set_changed_at (switch_set n u) = n"
  using assms by (simp_all add: switch_set_def comp_def case_prod_beta)

lemma move_block_activation:
  assumes "pred_option pending_inv (scheduled s parsed)"
  shows "activation s parsed (move_block (next_number s) time hash signer parsed adopted s)"
proof (cases "scheduled s parsed")
  case None
  then show ?thesis by (simp add: activation_def same_set_def move_block_def switch_set_def sn_pending_schedule_epoch)
next
  case (Some p)
  then have len: "length (pn_vote_keys p) = length (pn_validators p)" using assms by (simp add: pending_inv_def)
  show ?thesis
  proof (cases "next_number s = pn_activate_at p")
    case True
    let ?u = "advance_epoch_length (next_number s) time
      (record_sealer (next_number s) time signer adopted (schedule_epoch (next_number s) parsed s))"
    have "sn_pending ?u = Some p" using Some by (simp add: sn_pending_schedule_epoch)
    from switch_set_active [OF this True len] True show ?thesis
      unfolding activation_def move_block_def Some by simp
  next
    case False
    then show ?thesis using Some
      by (simp add: activation_def same_set_def move_block_def switch_set_def sn_pending_schedule_epoch)
  qed
qed

text \<open>
  C28. The validator set changes at the scheduled height and at no other. An accepted epoch header
  schedules its announced set for \<open>delay\<close> blocks later, in place of a set that was pending; an accepted header whose number
  is the activation height installs the pending set, its aligned vote keys and its turn length, and keeps
  the outgoing vote set as the previous one; every other accepted header leaves the validators, the turn
  length, both vote sets and the height of the last change as they were.
\<close>

theorem epoch_activation:
  assumes inv: "snapshot_inv s" and ok: "apply_header X now h s = (Inr signer, s')"
  shows "\<exists>extra parsed. decode_hex X (h_extra_data h) = Inr extra \<and>
     parse_extra extra Bohr (is_epoch_block (next_number s) s) = Inr parsed \<and>
     activation s parsed s'"
proof -
  obtain number time hash parsed adopted milli where
    l: "check_link X h signer s = Inr (number, time, hash)"
    and c: "check_seal X h signer number time (drop_expired number s) = Inr (parsed, adopted)"
    and s': "s' = (move_block number time hash signer parsed adopted (drop_expired number s))\<lparr>sn_last_milli := Some milli\<rparr>"
    using ok by (rule apply_header_Inr)
  have n: "number = next_number s" using l by (rule check_link_Inr)
  obtain extra where e: "decode_hex X (h_extra_data h) = Inr extra"
      "parse_extra extra Bohr (is_epoch_block number (drop_expired number s)) = Inr parsed"
      "\<not> (is_epoch_block number (drop_expired number s) \<and> pe_validators parsed = [])"
    using c by (rule check_seal_Inr)
  have "set_inv (schedule_epoch number parsed (drop_expired number s))"
    using inv e(2,3) by (intro set_inv_schedule_epoch) (auto simp: snapshot_inv_def)
  then have "pred_option pending_inv (scheduled (drop_expired number s) parsed)"
    using sn_pending_schedule_epoch [of "drop_expired number s" parsed] by (simp add: set_inv_def n)
  from move_block_activation [OF this, of time hash signer adopted] have "activation s parsed s'"
    by (simp add: s' n)
  with e(1,2) show ?thesis by (auto simp: n is_epoch_block_def)
qed

section \<open>A sample walk\<close>

definition sample_cp :: checkpoint where
  "sample_cp =
     \<lparr>cp_chain_id = BSC_MAINNET_CHAIN_ID, cp_number = 0, cp_hash = hex0x refX (zeros 32),
      cp_parent_hash = hex0x refX (zeros 32), cp_state_root = hex0x refX (zeros 32), cp_timestamp = 0,
      cp_fork_id = [], cp_sealing_set = [hex0x refX (zeros 20)], cp_vote_keys = None, cp_attestation = None\<rparr>"

definition sample_snap :: snapshot where
  "sample_snap =
     \<lparr>sn_number = 0, sn_hash = zeros 32, sn_epoch_length = 200, sn_turn_length = 1,
      sn_validators = [zeros 20], sn_pending = None, sn_enforce_inturn = True, sn_recents = [],
      sn_vote_set = [], sn_prev_vote_set = [], sn_set_changed_at = 0, sn_attestation = None,
      sn_last_milli = None, sn_walk_start = 1, sn_ancestors = [(0, zeros 32)]\<rparr>"

definition sample_next :: snapshot where
  "sample_next = snd (apply_header refX 0 (sample_header ''0x1'' 1 (zeros 32)) sample_snap)"

lemma from_checkpoint_sample: "from_checkpoint refX sample_cp = Inr sample_snap"
proof -
  have "params_at 0 0 = \<lparr>fp_name = ''legacy'', fp_activation_block = Some 0, fp_activation_time = None,
         fp_epoch_length = 200, fp_turn_length = 1, fp_block_interval_ms = 3000,
         fp_extra_data_version = PreLuban\<rparr>"
    by (simp add: params_at_def fork_times fork_lengths)
  then show ?thesis
    by (simp add: from_checkpoint_def sample_cp_def sample_snap_def checkpoint_vote_set_def n_fixed_def
        decode_hex_fixed_hex0x sat_add_def u64_max_def)
qed

lemma sample_snap_facts [simp]:
  "next_number sample_snap = 1" "delay sample_snap = 0" "contains sample_snap (zeros 20)"
  "expected_difficulty sample_snap (zeros 20) = 2" "drop_expired (Suc 0) sample_snap = sample_snap"
  "sn_hash sample_snap = zeros 32" "sn_enforce_inturn sample_snap" "sn_number sample_snap = 0"
proof -
  show d: "delay sample_snap = 0"
    by (simp add: delay_def n_seal_def sample_snap_def wrap32_def miner_history_check_len_eq)
  show "drop_expired (Suc 0) sample_snap = sample_snap"
    unfolding drop_expired_def Let_def d by (simp add: sample_snap_def sat_add_def u64_max_def)
  show "next_number sample_snap = 1" by (simp add: next_number_def sample_snap_def is_u64_def u64_max_def)
  show "contains sample_snap (zeros 20)" by (simp add: contains_def sample_snap_def bsearch_loop.simps)
  show "expected_difficulty sample_snap (zeros 20) = 2"
    by (simp add: expected_difficulty_def inturn_validator_def sample_snap_def sat_add_def u64_max_def
        DIFF_IN_TURN_def)
qed (simp_all add: sample_snap_def)

lemma sample_apply: "apply_header refX 0 (sample_header ''0x1'' 1 (zeros 32)) sample_snap = (Inr (zeros 20), sample_next)"
proof -
  define h where "h = sample_header ''0x1'' 1 (zeros 32)"
  have v: "verify_seal_coinbase refX 0 h = Inr (zeros 20)" unfolding h_def by (rule sample_header_ok) simp_all
  have h: "h_number h = ''0x1''" "h_timestamp h = ''0x0''" "h_difficulty h = ''0x2''"
    "decode_hex_fixed refX 32 (h_parent_hash h) = Inr (zeros 32)"
    "decode_hex_fixed refX 32 (h_hash h) = Inr (sample_hash 1 (zeros 32))"
    "decode_hex refX (h_extra_data h) = Inr (zeros 97)"
    by (simp_all add: h_def sample_header_def sample_body_def decode_hex_fixed_hex0x decode_hex_hex0x)
  have l: "check_link refX h (zeros 20) sample_snap = Inr (1, 0, sample_hash 1 (zeros 32))"
    by (simp add: check_link_def h n_u64_def n_fixed_def DIFF_IN_TURN_def)
  have c: "\<exists>p. check_seal refX h (zeros 20) 1 0 sample_snap = Inr (p, None)"
    by (simp add: check_seal_def sign_recently_iff RECENT_EPOCH_SENTINEL_def verify_out_of_turn_backoff_def
        backoff_context_of_def n_hex_def h is_epoch_block_def parse_extra_def layout_sizes Let_def
        check_attestation_def decode_vote_attestation_def subslice_def)
       (simp add: sample_snap_def)
  obtain m where "milli_timestamp refX h = Inr m" using sealed_milli_ok [OF v] by blast
  then have "fst (apply_header refX 0 h sample_snap) = Inr (zeros 20)"
    using c by (auto simp: apply_header_def v apply_verified_def l commit_block_def Let_def split: prod.splits)
  then show ?thesis by (simp add: sample_next_def h_def prod_eq_iff)
qed

lemma sample_walk: "walk refX sample_cp [sample_header ''0x1'' 1 (zeros 32)] sample_next"
  using walk.accept [OF walk.start [OF from_checkpoint_sample] sample_apply] by simp

lemma sample_reject:
  "apply_header refX 0 (sample_header ''0x1'' 1 (replicate 32 1)) sample_snap = (Inl ParentHashMismatch, sample_snap)"
proof -
  let ?h = "sample_header ''0x1'' 1 (replicate 32 1)"
  have v: "verify_seal_coinbase refX 0 ?h = Inr (zeros 20)" by (rule sample_header_ok) simp_all
  have ne: "(zeros 32 = replicate 32 1) = False" "(replicate 32 1 = zeros 32) = False"
    by (simp_all add: zeros_def)
  have "check_link refX ?h (zeros 20) sample_snap = Inl ParentHashMismatch"
    by (simp add: check_link_def sample_header_def sample_body_def decode_hex_fixed_hex0x n_u64_def n_fixed_def ne)
  then show ?thesis unfolding apply_header_def v by (simp add: apply_verified_def)
qed

theorem rejected_header_harmless_witness:
  "apply_header refX 0 (sample_header ''0x1'' 1 (replicate 32 1)) sample_snap = (Inl ParentHashMismatch, sample_snap) \<and>
   fst (apply_header refX 0 (sample_header ''0x1'' 1 (zeros 32)) sample_snap) = Inr (zeros 20)"
  using rejected_header_harmless [OF sample_reject, of 0 "sample_header ''0x1'' 1 (zeros 32)"]
    sample_reject sample_apply by simp

theorem accepted_header_sound_witness:
  "header_hash refX (sample_header ''0x1'' 1 (zeros 32)) = Inr (sn_hash sample_next) \<and>
   zeros 20 \<in> set (sn_validators sample_snap)"
proof -
  have inv: "snapshot_inv sample_snap"
    using from_checkpoint_inv [OF from_checkpoint_sample] by (simp add: sample_cp_def is_u64_def)
  have "sn_turn_length sample_snap = 1" by (simp add: sample_snap_def)
  then show ?thesis
    using accepted_header_sound [OF inv _ _ _ _ sample_apply] by (simp add: u64_max_def)
qed

theorem walk_linked_witness: "sn_number sample_next = 1 \<and> snapshot_inv sample_next"
  using walk_linked [OF sample_walk] by (simp add: sample_cp_def u64_max_def)

theorem sealing_set_provenance_witness:
  "set_origin refX sample_cp [sample_header ''0x1'' 1 (zeros 32)] (sn_validators sample_next)"
  using sealing_set_provenance [OF sample_walk] by simp

theorem justified_on_chain_witness:
  "list_all (on_chain refX sample_cp [sample_header ''0x1'' 1 (zeros 32)]) (sn_ancestors sample_next)"
  using justified_on_chain [OF sample_walk] by (simp add: list_all_iff)

text \<open>A snapshot that holds an attestation and a set to be activated at the next block, and a header that follows it.\<close>

definition held :: vote_data where
  "held = \<lparr>vd_source_number = 7, vd_source_hash = zeros 32, vd_target_number = 8, vd_target_hash = zeros 32\<rparr>"

definition due :: pending_epoch where
  "due = \<lparr>pn_epoch_block = 5, pn_activate_at = 10, pn_validators = [replicate 20 1], pn_vote_keys = [replicate 48 2], pn_turn_length = 4\<rparr>"

definition due_snap :: snapshot where
  "due_snap = sample_snap\<lparr>sn_number := 9, sn_walk_start := 6, sn_ancestors := [(9, zeros 32)], sn_attestation := Some held, sn_pending := Some due\<rparr>"

definition due_header :: rpc_block_header where
  "due_header = sample_header ''0xa'' 10 (zeros 32)"

definition due_next :: snapshot where
  "due_next = snd (apply_header refX 0 due_header due_snap)"

lemma due_snap_inv: "snapshot_inv due_snap"
  by (simp add: snapshot_inv_def inv_defs due_snap_def sample_snap_def held_def due_def pending_inv_def is_u64_def u64_max_def
      DEFAULT_EPOCH_LENGTH_def K_ANCESTOR_GENERATION_DEPTH_def)

lemma due_snap_facts [simp]:
  "next_number due_snap = 10" "delay due_snap = 0" "contains due_snap (zeros 20)"
  "expected_difficulty due_snap (zeros 20) = 2" "drop_expired 10 due_snap = due_snap"
  "sn_hash due_snap = zeros 32" "sn_enforce_inturn due_snap"
proof -
  show d: "delay due_snap = 0"
    by (simp add: delay_def n_seal_def due_snap_def sample_snap_def wrap32_def miner_history_check_len_eq)
  show "drop_expired 10 due_snap = due_snap"
    unfolding drop_expired_def Let_def d by (simp add: due_snap_def sample_snap_def sat_add_def u64_max_def)
  show "next_number due_snap = 10" by (simp add: next_number_def due_snap_def sample_snap_def is_u64_def u64_max_def)
  show "contains due_snap (zeros 20)" by (simp add: contains_def due_snap_def sample_snap_def bsearch_loop.simps)
  show "expected_difficulty due_snap (zeros 20) = 2"
    by (simp add: expected_difficulty_def inturn_validator_def due_snap_def sample_snap_def sat_add_def u64_max_def DIFF_IN_TURN_def)
qed (simp_all add: due_snap_def sample_snap_def)

lemma due_apply: "apply_header refX 0 due_header due_snap = (Inr (zeros 20), due_next)"
proof -
  have n: "decode_u64 ''0xa'' = Inr 10" by (simp add: decode_u64_def from_str_radix16_def to_digit16_def u64_max_def)
  have v: "verify_seal_coinbase refX 0 due_header = Inr (zeros 20)"
    unfolding due_header_def by (rule sample_header_ok_at) (simp_all add: n LUBAN_BLOCK_def)
  have h: "h_number due_header = ''0xa''" "h_timestamp due_header = ''0x0''" "h_difficulty due_header = ''0x2''"
    "decode_hex_fixed refX 32 (h_parent_hash due_header) = Inr (zeros 32)"
    "decode_hex_fixed refX 32 (h_hash due_header) = Inr (sample_hash 10 (zeros 32))"
    "decode_hex refX (h_extra_data due_header) = Inr (zeros 97)"
    by (simp_all add: due_header_def sample_header_def sample_body_def decode_hex_fixed_hex0x decode_hex_hex0x)
  have l: "check_link refX due_header (zeros 20) due_snap = Inr (10, 0, sample_hash 10 (zeros 32))"
    by (simp add: check_link_def h n n_u64_def n_fixed_def DIFF_IN_TURN_def)
  have c: "\<exists>p. check_seal refX due_header (zeros 20) 10 0 due_snap = Inr (p, None)"
    by (simp add: check_seal_def sign_recently_iff RECENT_EPOCH_SENTINEL_def verify_out_of_turn_backoff_def
        backoff_context_of_def n_hex_def h is_epoch_block_def parse_extra_def layout_sizes Let_def
        check_attestation_def decode_vote_attestation_def subslice_def)
       (simp add: due_snap_def sample_snap_def)
  obtain m where "milli_timestamp refX due_header = Inr m" using sealed_milli_ok [OF v] by blast
  then have "fst (apply_header refX 0 due_header due_snap) = Inr (zeros 20)"
    using c by (auto simp: apply_header_def v apply_verified_def l commit_block_def Let_def split: prod.splits)
  then show ?thesis by (simp add: due_next_def prod_eq_iff)
qed

theorem finality_monotone_witness:
  "7 \<le> finalized_number due_next \<and> (\<exists>j. justified due_next = Some j \<and> 8 \<le> fst j) \<and>
   (finalized due_next = Some (7, zeros 32) \<or> finalized due_next = Some (8, zeros 32))"
  using finality_monotone [OF due_snap_inv due_apply]
  by (auto simp: finalized_number_def finalized_def justified_def due_snap_def held_def)

theorem epoch_activation_witness:
  "sn_validators due_next = [replicate 20 1] \<and> map sv_vote_key (sn_vote_set due_next) = [replicate 48 2] \<and>
   sn_turn_length due_next = 4 \<and> sn_pending due_next = None \<and> sn_set_changed_at due_next = 10"
proof -
  have "scheduled due_snap parsed = Some due" for parsed
    by (simp add: scheduled_def is_epoch_block_def) (simp add: due_snap_def sample_snap_def)
  then show ?thesis using epoch_activation [OF due_snap_inv due_apply] by (auto simp: activation_def due_def)
qed

end
