(* ===== verification/Finality.thy ===== *)
theory Finality
  imports Config Reference
begin

text \<open>
  Confirmation-depth finality (\<open>helios-bsc-consensus/src/finality.rs\<close>): the newest block
  buried under enough distinct subsequent sealers, and the provider proof window.
\<close>

section \<open>Model\<close>

record verified_block =
  vb_number :: nat
  vb_hash :: bytes
  vb_state_root :: bytes
  vb_miner :: bytes
  vb_milli_timestamp :: nat
  vb_gas_limit :: nat
  vb_header :: "rpc_block_header option"

text \<open>The loop over \<open>chain.iter().enumerate().rev()\<close>; \<open>Suc i\<close> is the number of blocks not yet
  visited.\<close>

fun newest_safe_loop ::
    "('pk, 'sg) ext \<Rightarrow> verified_block list \<Rightarrow> nat \<Rightarrow> bytes list \<Rightarrow> nat \<Rightarrow> safe_head option" where
  "newest_safe_loop X chain threshold seen 0 = None"
| "newest_safe_loop X chain threshold seen (Suc i) =
     (let m = vb_miner (chain ! i);
          seen' = (if m \<in> set seen then seen else seen @ [m])
      in if threshold \<le> wrap32 (length seen') then
           (if i = 0 then None
            else
              let s = chain ! (i - 1)
              in Some \<lparr>sh_number = vb_number s, sh_hash = hex0x X (vb_hash s),
                       sh_state_root = hex0x X (vb_state_root s),
                       sh_distinct_sealers = wrap32 (length seen'), sh_required_sealers = threshold\<rparr>)
         else newest_safe_loop X chain threshold seen' i)"

definition newest_safe ::
    "('pk, 'sg) ext \<Rightarrow> verified_block list \<Rightarrow> nat \<Rightarrow> safe_head option" where
  "newest_safe X chain n =
     (if length chain < 2 then None
      else newest_safe_loop X chain (min_distinct_sealers n) [] (length chain))"

definition proof_lag :: "nat \<Rightarrow> nat \<Rightarrow> nat" where
  "proof_lag tip safe = sat_sub tip safe"

definition within_proof_window :: "nat \<Rightarrow> nat \<Rightarrow> bool" where
  "within_proof_window tip safe \<longleftrightarrow> proof_lag tip safe \<le> PROVIDER_PROOF_LOOKBACK"

definition sealer_hex :: "('pk, 'sg) ext \<Rightarrow> bytes \<Rightarrow> string" where
  "sealer_hex X addr = format_address X addr"

section \<open>Correctness of newest-safe\<close>

text \<open>Distinct sealers of the blocks from index \<open>i\<close> to the tip.\<close>

definition distinct_sealers :: "verified_block list \<Rightarrow> nat \<Rightarrow> nat" where
  "distinct_sealers chain i = card (set (map vb_miner (drop i chain)))"

definition safe_at :: "('pk, 'sg) ext \<Rightarrow> verified_block list \<Rightarrow> nat \<Rightarrow> nat \<Rightarrow> safe_head" where
  "safe_at X chain i threshold =
     \<lparr>sh_number = vb_number (chain ! (i - 1)), sh_hash = hex0x X (vb_hash (chain ! (i - 1))),
      sh_state_root = hex0x X (vb_state_root (chain ! (i - 1))),
      sh_distinct_sealers = distinct_sealers chain i, sh_required_sealers = threshold\<rparr>"

lemma distinct_sealers_mono: "i \<le> j \<Longrightarrow> distinct_sealers chain j \<le> distinct_sealers chain i"
  unfolding distinct_sealers_def by (intro card_mono) (auto dest: set_drop_subset_set_drop [THEN subsetD])

lemma distinct_sealers_le: "distinct_sealers chain i \<le> length chain"
  unfolding distinct_sealers_def by (metis card_length diff_le_self le_trans length_drop length_map)

lemma seen_step:
  assumes "distinct seen" "set seen = set (map vb_miner (drop (Suc i) chain))" "i < length chain"
  defines "seen' \<equiv> (if vb_miner (chain ! i) \<in> set seen then seen else seen @ [vb_miner (chain ! i)])"
  shows "distinct seen'" "set seen' = set (map vb_miner (drop i chain))" "length seen' = distinct_sealers chain i"
proof -
  show d: "distinct seen'" "set seen' = set (map vb_miner (drop i chain))"
    using assms by (auto simp: Cons_nth_drop_Suc [symmetric])
  show "length seen' = distinct_sealers chain i"
    using d distinct_card [of seen'] by (simp add: distinct_sealers_def)
qed

lemma newest_safe_loop_eq:
  assumes "length chain < 2 ^ 32"
  shows "distinct seen \<Longrightarrow> set seen = set (map vb_miner (drop k chain)) \<Longrightarrow> k \<le> length chain \<Longrightarrow>
     (case newest_safe_loop X chain t seen k of
        Some sh \<Rightarrow> \<exists>i. 0 < i \<and> i < k \<and> t \<le> distinct_sealers chain i \<and>
                    (\<forall>j. i < j \<and> j < k \<longrightarrow> distinct_sealers chain j < t) \<and> sh = safe_at X chain i t
      | None \<Rightarrow> \<forall>i. 0 < i \<and> i < k \<longrightarrow> distinct_sealers chain i < t)"
proof (induction k arbitrary: seen)
  case 0
  show ?case by simp
next
  case (Suc k)
  define seen' where "seen' = (if vb_miner (chain ! k) \<in> set seen then seen else seen @ [vb_miner (chain ! k)])"
  have s: "distinct seen'" "set seen' = set (map vb_miner (drop k chain))" "length seen' = distinct_sealers chain k"
    using seen_step [of seen k chain] Suc.prems by (simp_all add: seen'_def)
  have w: "wrap32 (length seen') = distinct_sealers chain k"
    using s(3) distinct_sealers_le [of chain k] assms by (simp add: wrap32_def)
  show ?case
  proof (cases "t \<le> distinct_sealers chain k")
    case True
    then have "newest_safe_loop X chain t seen (Suc k) = (if k = 0 then None else Some (safe_at X chain k t))"
      using w by (simp add: Let_def seen'_def [symmetric] safe_at_def)
    then show ?thesis using True by (auto intro!: exI [of _ k])
  next
    case False
    then have eq: "newest_safe_loop X chain t seen (Suc k) = newest_safe_loop X chain t seen' k"
      using w by (simp add: Let_def seen'_def [symmetric])
    have "case newest_safe_loop X chain t seen' k of
        Some sh \<Rightarrow> \<exists>i. 0 < i \<and> i < k \<and> t \<le> distinct_sealers chain i \<and>
                    (\<forall>j. i < j \<and> j < k \<longrightarrow> distinct_sealers chain j < t) \<and> sh = safe_at X chain i t
      | None \<Rightarrow> \<forall>i. 0 < i \<and> i < k \<longrightarrow> distinct_sealers chain i < t"
      using s(1,2) Suc.prems(3) by (intro Suc.IH) auto
    then show ?thesis using False unfolding eq
      by (auto simp: less_Suc_eq split: option.splits)
  qed
qed

lemma newest_safe_cases:
  assumes "length chain < 2 ^ 32"
  shows "case newest_safe X chain n of
      Some sh \<Rightarrow> \<exists>i. 0 < i \<and> i < length chain \<and> min_distinct_sealers n \<le> distinct_sealers chain i \<and>
                  (\<forall>j. i < j \<and> j < length chain \<longrightarrow> distinct_sealers chain j < min_distinct_sealers n) \<and>
                  sh = safe_at X chain i (min_distinct_sealers n)
    | None \<Rightarrow> \<forall>i. 0 < i \<and> i < length chain \<longrightarrow> distinct_sealers chain i < min_distinct_sealers n"
proof (cases "length chain < 2")
  case True
  then show ?thesis by (auto simp: newest_safe_def)
next
  case False
  then show ?thesis
    using newest_safe_loop_eq [OF assms, where seen = "[]" and k = "length chain" and X = X and t = "min_distinct_sealers n"]
    by (simp add: newest_safe_def)
qed

text \<open>
  C29. The confirmation-depth rule picks the highest safe block. \<open>newest_safe\<close> returns the parent of
  the shortest suffix of the chain that holds at least \<open>floor(2N/3)+1\<close> distinct sealers, with the
  exact number of them, and returns nothing only when no block of the chain but the oldest is
  buried that deep.
\<close>

theorem newest_safe_correct:
  assumes "length chain < 2 ^ 32"
  shows "case newest_safe X chain n of
      Some sh \<Rightarrow> \<exists>i. 0 < i \<and> i < length chain \<and> min_distinct_sealers n \<le> distinct_sealers chain i \<and>
                  (\<forall>j. i < j \<and> j < length chain \<longrightarrow> distinct_sealers chain j < min_distinct_sealers n) \<and>
                  sh = safe_at X chain i (min_distinct_sealers n)
    | None \<Rightarrow> \<forall>i. 0 < i \<and> i < length chain \<longrightarrow> distinct_sealers chain i < min_distinct_sealers n"
  using assms by (rule newest_safe_cases)

definition sample_chain :: "verified_block list" where
  "sample_chain = map (\<lambda>i. \<lparr>vb_number = i, vb_hash = zeros 32, vb_state_root = zeros 32,
     vb_miner = [word_of_nat i], vb_milli_timestamp = 0, vb_gas_limit = 0, vb_header = None\<rparr>) [0..<4]"

theorem newest_safe_correct_witness:
  "newest_safe refX sample_chain 3 = Some (safe_at refX sample_chain 1 3)"
proof -
  have m: "min_distinct_sealers 3 = 3" by (simp add: min_distinct_sealers_def wrap32_def)
  have d: "distinct_sealers sample_chain 1 = 3" "distinct_sealers sample_chain 2 = 2"
    by (simp_all add: distinct_sealers_def sample_chain_def numeral_nat upt_rec)
  have *: "length sample_chain = 4" by (simp add: sample_chain_def)
  show ?thesis
  proof (cases "newest_safe refX sample_chain 3")
    case None
    then show ?thesis using newest_safe_correct [where chain = sample_chain and X = refX and n = 3] d m * by auto
  next
    case (Some sh)
    then obtain i where i: "0 < i" "i < 4" "3 \<le> distinct_sealers sample_chain i" "sh = safe_at refX sample_chain i 3"
      using newest_safe_correct [where chain = sample_chain and X = refX and n = 3] m * by auto
    have "i < 2" using distinct_sealers_mono [of 2 i sample_chain] d(2) i(3) by force
    then show ?thesis using i Some by (simp add: less_2_cases_iff)
  qed
qed

end
