(* ===== verification/Engine.thy ===== *)
theory Engine
  imports Snapshot_Inv Finality
begin

text \<open>
  The light engine (\<open>helios-bsc-consensus/src/lib.rs\<close>): checkpoint age and matching, the
  sealing set of an activated epoch, checkpoints written for a restart, and \<open>LightEngine\<close>,
  which couples the snapshot with the verified chain, the safe head and the proof window.
\<close>

section \<open>Errors, constants and checkpoint age\<close>

definition CHECKPOINT_WARN_AGE_SECS :: nat where "CHECKPOINT_WARN_AGE_SECS = 6 * 3600"
definition DEFAULT_MAX_CHECKPOINT_AGE_SECS :: nat where "DEFAULT_MAX_CHECKPOINT_AGE_SECS = 24 * 3600"

definition checkpoint_slo_label :: "nat \<Rightarrow> string" where
  "checkpoint_slo_label age_secs =
     (if DEFAULT_MAX_CHECKPOINT_AGE_SECS < age_secs then ''fail''
      else if CHECKPOINT_WARN_AGE_SECS < age_secs then ''warn'' else ''ok'')"

datatype consensus_error =
    NotImplemented string
  | InvalidCheckpoint string
  | CheckpointMismatch string
  | CheckpointTooOld nat nat
  | CheckpointTooFar nat nat
  | EngSeal seal_error
  | EngSnapshot snapshot_error
  | EngTypes types_error
  | NotSafe nat nat
  | ProofWindowExceeded nat nat
  | NotEpoch nat nat
  | EmptyEpochValidators nat
  | EpochSetNotActivated nat nat nat
  | EngExtra extra_error

definition c_u64 :: "string \<Rightarrow> (consensus_error, nat) result" where
  "c_u64 s = map_err EngTypes (decode_u64 s)"

definition c_fixed :: "('pk, 'sg) ext \<Rightarrow> nat \<Rightarrow> string \<Rightarrow> (consensus_error, bytes) result" where
  "c_fixed X n s = map_err EngTypes (decode_hex_fixed X n s)"

definition checkpoint_age_secs :: "nat \<Rightarrow> nat \<Rightarrow> nat" where
  "checkpoint_age_secs timestamp now = sat_sub now timestamp"

definition assert_checkpoint_age :: "nat \<Rightarrow> nat \<Rightarrow> nat \<Rightarrow> (consensus_error, nat) result" where
  "assert_checkpoint_age timestamp now max_age_secs =
     (let age = checkpoint_age_secs timestamp now
      in if 0 < max_age_secs \<and> max_age_secs < age then Inl (CheckpointTooOld age max_age_secs) else Inr age)"

section \<open>Sealing set of an activated epoch\<close>

definition validators_from_activated_epoch ::
    "('pk, 'sg) ext \<Rightarrow> rpc_block_header \<Rightarrow> nat \<Rightarrow> (consensus_error, sealing_validator list) result" where
  "validators_from_activated_epoch X h checkpoint_number =
     rbind (c_u64 (h_number h)) (\<lambda>number.
     rbind (c_u64 (h_timestamp h)) (\<lambda>timestamp.
     let fork = params_at number timestamp in
     if number mod fp_epoch_length fork \<noteq> 0 then Inl (NotEpoch number (fp_epoch_length fork))
     else
     rbind (map_err EngTypes (decode_hex X (h_extra_data h))) (\<lambda>extra.
     rbind (map_err EngExtra (parse_extra extra Bohr True)) (\<lambda>parsed.
     if pe_validators parsed = [] then Inl (EmptyEpochValidators number)
     else
       let n = wrap32 (length (pe_validators parsed));
           turn = turn_or (pe_turn_length parsed) (fp_turn_length fork);
           activate_at = sat_add number (miner_history_check_len n turn)
       in if checkpoint_number < activate_at
          then Inl (EpochSetNotActivated number activate_at checkpoint_number)
          else Inr (pe_validators parsed)))))"

definition sealing_set_from_activated_epoch ::
    "('pk, 'sg) ext \<Rightarrow> rpc_block_header \<Rightarrow> nat \<Rightarrow> (consensus_error, string list) result" where
  "sealing_set_from_activated_epoch X h checkpoint_number =
     map_ok (map (\<lambda>v. format_address X (sv_address v)))
       (validators_from_activated_epoch X h checkpoint_number)"

definition vote_keys_from_activated_epoch ::
    "('pk, 'sg) ext \<Rightarrow> rpc_block_header \<Rightarrow> nat \<Rightarrow> (consensus_error, string list) result" where
  "vote_keys_from_activated_epoch X h checkpoint_number =
     map_ok (map (\<lambda>v. hex0x X (sv_vote_key v))) (validators_from_activated_epoch X h checkpoint_number)"

section \<open>Checkpoints\<close>

definition checkpoint_at_snapshot ::
    "('pk, 'sg) ext \<Rightarrow> rpc_block_header \<Rightarrow> snapshot \<Rightarrow> string \<Rightarrow> string option \<Rightarrow>
     (consensus_error, checkpoint) result" where
  "checkpoint_at_snapshot X h s fork_id attestation =
     rbind (c_u64 (h_number h)) (\<lambda>number.
     if number \<noteq> sn_number s then Inl (CheckpointMismatch ''number'')
     else
     rbind (map_err EngSeal (header_hash X h)) (\<lambda>got.
     if got \<noteq> sn_hash s then Inl (CheckpointMismatch ''hash'')
     else
       let h' = h\<lparr>h_hash := hex0x X got\<rparr> in
       rbind (map_err EngTypes (from_rpc_header h' (sealing_set_hex X s) fork_id attestation)) (\<lambda>cp.
         Inr (case vote_keys_hex X s of
                Some keys \<Rightarrow> with_vote_keys cp keys
              | None \<Rightarrow> cp))))"

text \<open>\<open>trim_start_matches\<close> removes every repetition of the prefix; the comparison folds ASCII case.\<close>

fun trim_0x :: "string \<Rightarrow> string" where
  "trim_0x (CHR ''0'' # CHR ''x'' # s) = trim_0x s"
| "trim_0x s = s"

fun trim_0X :: "string \<Rightarrow> string" where
  "trim_0X (CHR ''0'' # CHR ''X'' # s) = trim_0X s"
| "trim_0X s = s"

definition hex_eq :: "string \<Rightarrow> string \<Rightarrow> bool" where
  "hex_eq a b \<longleftrightarrow> eq_ignore_ascii_case (trim_0X (trim_0x a)) (trim_0X (trim_0x b))"

definition header_matches_checkpoint ::
    "('pk, 'sg) ext \<Rightarrow> checkpoint \<Rightarrow> rpc_block_header \<Rightarrow> (consensus_error, unit) result" where
  "header_matches_checkpoint X cp h =
     rbind (c_u64 (h_number h)) (\<lambda>number.
     if number \<noteq> cp_number cp then Inl (CheckpointMismatch ''number'')
     else
     rbind (map_err EngSeal (header_hash X h)) (\<lambda>computed.
     rbind (c_fixed X 32 (cp_hash cp)) (\<lambda>want.
     if computed \<noteq> want then Inl (CheckpointMismatch ''hash'')
     else if \<not> hex_eq (h_parent_hash h) (cp_parent_hash cp) then Inl (CheckpointMismatch ''parentHash'')
     else if \<not> hex_eq (h_state_root h) (cp_state_root cp) then Inl (CheckpointMismatch ''stateRoot'')
     else Inr ())))"

section \<open>LightEngine\<close>

record engine =
  eg_checkpoint :: checkpoint
  eg_snapshot :: snapshot
  eg_chain :: "verified_block list"
  eg_safe :: "safe_head option"
  eg_proof_lookback :: nat

definition KEEP :: nat where "KEEP = 512"

definition engine_from_checkpoint ::
    "('pk, 'sg) ext \<Rightarrow> checkpoint \<Rightarrow> (consensus_error, engine) result" where
  "engine_from_checkpoint X cp =
     rbind (map_err (\<lambda>e. InvalidCheckpoint (show_types_error e)) (validate_basic X cp)) (\<lambda>_.
     rbind (map_err EngSnapshot (from_checkpoint X cp)) (\<lambda>s.
     rbind (c_fixed X 32 (cp_hash cp)) (\<lambda>hash.
     rbind (c_fixed X 32 (cp_state_root cp)) (\<lambda>root.
       Inr \<lparr>eg_checkpoint = cp, eg_snapshot = s,
            eg_chain = [\<lparr>vb_number = cp_number cp, vb_hash = hash, vb_state_root = root,
                         vb_miner = zeros 20, vb_milli_timestamp = 0, vb_gas_limit = 0, vb_header = None\<rparr>],
            eg_safe = None, eg_proof_lookback = PROVIDER_PROOF_LOOKBACK\<rparr>))))"

definition engine_from_checkpoint_and_header ::
    "('pk, 'sg) ext \<Rightarrow> nat \<Rightarrow> checkpoint \<Rightarrow> rpc_block_header \<Rightarrow> (consensus_error, engine) result" where
  "engine_from_checkpoint_and_header X now cp h =
     rbind (map_err (\<lambda>e. InvalidCheckpoint (show_types_error e)) (validate_basic X cp)) (\<lambda>_.
     rbind (header_matches_checkpoint X cp h) (\<lambda>_.
     rbind (map_err EngSeal (verify_seal_coinbase X now h)) (\<lambda>miner.
     rbind (map_err EngSnapshot (from_checkpoint X cp)) (\<lambda>s.
     rbind (c_fixed X 32 (cp_hash cp)) (\<lambda>hash.
     rbind (c_fixed X 32 (cp_state_root cp)) (\<lambda>root.
     rbind (map_err EngSeal (milli_timestamp X h)) (\<lambda>milli.
     rbind (c_u64 (h_gas_limit h)) (\<lambda>gas.
       Inr \<lparr>eg_checkpoint = cp, eg_snapshot = s,
            eg_chain = [\<lparr>vb_number = cp_number cp, vb_hash = hash, vb_state_root = root,
                         vb_miner = miner, vb_milli_timestamp = milli, vb_gas_limit = gas, vb_header = Some h\<rparr>],
            eg_safe = None, eg_proof_lookback = PROVIDER_PROOF_LOOKBACK\<rparr>))))))))"

text \<open>The block an accepted header becomes; each field is decoded once more.\<close>

definition verified_block_of ::
    "('pk, 'sg) ext \<Rightarrow> rpc_block_header \<Rightarrow> bytes \<Rightarrow> nat \<Rightarrow> (consensus_error, verified_block) result" where
  "verified_block_of X h signer number =
     rbind (c_fixed X 32 (h_hash h)) (\<lambda>hash.
     rbind (c_fixed X 32 (h_state_root h)) (\<lambda>root.
     rbind (map_err EngSeal (milli_timestamp X h)) (\<lambda>milli.
     rbind (c_u64 (h_gas_limit h)) (\<lambda>gas.
       Inr \<lparr>vb_number = number, vb_hash = hash, vb_state_root = root, vb_miner = signer,
            vb_milli_timestamp = milli, vb_gas_limit = gas, vb_header = Some h\<rparr>))))"

definition cascade_check ::
    "('pk, 'sg) ext \<Rightarrow> rpc_block_header \<Rightarrow> engine \<Rightarrow> (consensus_error, unit) result" where
  "cascade_check X h e =
     (if eg_chain e = [] then Inr ()
      else
        let prev = last (eg_chain e)
        in map_err EngSeal (verify_cascading_vs_parent X (vb_milli_timestamp prev) (vb_gas_limit prev) h))"

definition push_verified :: "('pk, 'sg) ext \<Rightarrow> verified_block \<Rightarrow> engine \<Rightarrow> engine" where
  "push_verified X b e =
     (let chain = eg_chain e @ [b];
          kept = (if KEEP < length chain then drop (length chain - KEEP) chain else chain)
      in e\<lparr>eg_chain := kept, eg_safe := newest_safe X kept (n_seal (eg_snapshot e))\<rparr>)"

definition engine_apply_header ::
    "('pk, 'sg) ext \<Rightarrow> nat \<Rightarrow> rpc_block_header \<Rightarrow> engine \<Rightarrow> (consensus_error, unit) result \<times> engine" where
  "engine_apply_header X now h e =
     (case rbind (c_u64 (h_number h)) (\<lambda>number. rbind (cascade_check X h e) (\<lambda>_. Inr number)) of
        Inl er \<Rightarrow> (Inl er, e)
      | Inr number \<Rightarrow>
          case apply_header X now h (eg_snapshot e) of
            (Inl er, s') \<Rightarrow> (Inl (EngSnapshot er), e\<lparr>eg_snapshot := s'\<rparr>)
          | (Inr signer, s') \<Rightarrow>
              let e1 = e\<lparr>eg_snapshot := s'\<rparr> in
              case verified_block_of X h signer number of
                Inl er \<Rightarrow> (Inl er, e1)
              | Inr b \<Rightarrow> (Inr (), push_verified X b e1))"

fun apply_headers ::
    "('pk, 'sg) ext \<Rightarrow> (nat \<times> rpc_block_header) list \<Rightarrow> engine \<Rightarrow> (consensus_error, unit) result \<times> engine" where
  "apply_headers X [] e = (Inr (), e)"
| "apply_headers X ((now, h) # hs) e =
     (case engine_apply_header X now h e of
        (Inl er, e') \<Rightarrow> (Inl er, e')
      | (Inr _, e') \<Rightarrow> apply_headers X hs e')"

definition engine_apply_verified ::
    "('pk, 'sg) ext \<Rightarrow> rpc_block_header \<Rightarrow> bytes \<Rightarrow> engine \<Rightarrow> (consensus_error, unit) result \<times> engine" where
  "engine_apply_verified X h signer e =
     (case apply_verified X h signer (eg_snapshot e) of
        (Inl er, s') \<Rightarrow> (Inl (EngSnapshot er), e\<lparr>eg_snapshot := s'\<rparr>)
      | (Inr _, s') \<Rightarrow>
          let e1 = e\<lparr>eg_snapshot := s'\<rparr> in
          case rbind (c_u64 (h_number h)) (verified_block_of X h signer) of
            Inl er \<Rightarrow> (Inl er, e1)
          | Inr b \<Rightarrow>
              let chain = eg_chain e @ [b]
              in (Inr (), e1\<lparr>eg_chain := chain, eg_safe := newest_safe X chain (n_seal s')\<rparr>))"

definition last_verified_checkpoint ::
    "('pk, 'sg) ext \<Rightarrow> rpc_block_header \<Rightarrow> engine \<Rightarrow> (consensus_error, checkpoint) result" where
  "last_verified_checkpoint X h e =
     checkpoint_at_snapshot X h (eg_snapshot e) (cp_fork_id (eg_checkpoint e))
       (Some ''helios-bsc last-verified'')"

definition engine_n_seal :: "engine \<Rightarrow> nat" where
  "engine_n_seal e = n_seal (eg_snapshot e)"

definition required_sealers :: "engine \<Rightarrow> nat" where
  "required_sealers e = mainnet_min_distinct_sealers"

definition engine_expected_safe_lag_blocks :: "engine \<Rightarrow> nat" where
  "engine_expected_safe_lag_blocks e = expected_safe_lag_blocks"

definition tip_number :: "engine \<Rightarrow> nat" where
  "tip_number e = sn_number (eg_snapshot e)"

fun distinct_tail_loop :: "bytes list \<Rightarrow> verified_block list \<Rightarrow> bytes list" where
  "distinct_tail_loop seen [] = seen"
| "distinct_tail_loop seen (b # bs) =
     distinct_tail_loop (if vb_miner b \<in> set seen then seen else seen @ [vb_miner b]) bs"

definition distinct_tail :: "verified_block list \<Rightarrow> nat" where
  "distinct_tail chain = wrap32 (length (distinct_tail_loop [] (rev chain)))"

definition proof_target :: "engine \<Rightarrow> (consensus_error, safe_head) result" where
  "proof_target e =
     (case eg_safe e of
        None \<Rightarrow> Inl (NotSafe (required_sealers e) (distinct_tail (eg_chain e)))
      | Some safe \<Rightarrow>
          let lag = proof_lag (tip_number e) (sh_number safe)
          in if eg_proof_lookback e < lag then Inl (ProofWindowExceeded lag (eg_proof_lookback e))
             else Inr safe)"

definition epoch_delay_mainnet :: nat where
  "epoch_delay_mainnet = miner_history_check_len 21 8"

section \<open>Invariant of the engine\<close>

lemma c_iffs [res_simps]:
  "c_u64 t = Inr n \<longleftrightarrow> decode_u64 t = Inr n" "c_fixed X k t = Inr b \<longleftrightarrow> decode_hex_fixed X k t = Inr b"
  by (simp_all add: c_u64_def c_fixed_def res_simps)

text \<open>A block of the chain on top of its predecessor: its sealed header names the predecessor's hash,
  hashes to its own, and was signed by the recorded miner.\<close>

definition block_link :: "('pk, 'sg) ext \<Rightarrow> verified_block \<Rightarrow> verified_block \<Rightarrow> bool" where
  "block_link X b c \<longleftrightarrow>
     (case vb_header c of
        None \<Rightarrow> False
      | Some h \<Rightarrow>
          decode_hex_fixed X 32 (h_parent_hash h) = Inr (vb_hash b) \<and> header_hash X h = Inr (vb_hash c) \<and>
          recover_signer X h BSC_MAINNET_CHAIN_ID = Inr (vb_miner c) \<and>
          decode_u64 (h_number h) = Inr (vb_number c) \<and>
          decode_hex_fixed X 32 (h_state_root h) = Inr (vb_state_root c))"

definition engine_inv :: "('pk, 'sg) ext \<Rightarrow> engine \<Rightarrow> bool" where
  "engine_inv X e \<longleftrightarrow>
     (let s = eg_snapshot e; chain = eg_chain e in
      snapshot_inv s \<and> chain \<noteq> [] \<and> length chain \<le> KEEP \<and> length chain \<le> Suc (sn_number s) \<and>
      vb_hash (last chain) = sn_hash s \<and>
      map vb_number chain = [Suc (sn_number s) - length chain ..< Suc (sn_number s)] \<and>
      (\<forall>i. Suc i < length chain \<longrightarrow> block_link X (chain ! i) (chain ! Suc i)) \<and>
      eg_safe e = newest_safe X chain (n_seal s))"

lemma sealed_block_ok:
  assumes "verify_seal_coinbase X now h = Inr signer"
  obtains b where "verified_block_of X h signer number = Inr b" "vb_number b = number" "vb_miner b = signer"
    "vb_header b = Some h" "decode_hex_fixed X 32 (h_hash h) = Inr (vb_hash b)" "header_hash X h = Inr (vb_hash b)"
    "decode_hex_fixed X 32 (h_state_root h) = Inr (vb_state_root b)"
proof -
  obtain d where d: "header_hash X h = Inr d" "decode_hex_fixed X 32 (h_hash h) = Inr d"
    using verify_seal_coinbase_Inr(4) [OF assms] by blast
  obtain root where r: "decode_hex_fixed X 32 (h_state_root h) = Inr root"
    using d(1) by (auto simp: header_hash_def header_encoding_def header_items_def res_simps Let_def)
  obtain gas where g: "decode_u64 (h_gas_limit h) = Inr gas"
    using verify_seal_coinbase_Inr(1) [OF assms] by (auto simp: verify_unsealed_fields_def res_simps)
  obtain m where "milli_timestamp X h = Inr m" using sealed_milli_ok [OF assms] by blast
  then show ?thesis using d r g by (intro that) (auto simp: verified_block_of_def c_u64_def c_fixed_def)
qed

lemma engine_apply_header_cases:
  obtains (guard) er where "engine_apply_header X now h e = (Inl er, e)"
  | (reject) er s' where "apply_header X now h (eg_snapshot e) = (Inl er, s')"
      "engine_apply_header X now h e = (Inl (EngSnapshot er), e\<lparr>eg_snapshot := s'\<rparr>)"
  | (accept) number signer s' b where "decode_u64 (h_number h) = Inr number"
      "apply_header X now h (eg_snapshot e) = (Inr signer, s')" "verified_block_of X h signer number = Inr b"
      "vb_number b = number" "vb_miner b = signer" "vb_header b = Some h"
      "decode_hex_fixed X 32 (h_hash h) = Inr (vb_hash b)" "header_hash X h = Inr (vb_hash b)"
      "decode_hex_fixed X 32 (h_state_root h) = Inr (vb_state_root b)"
      "recover_signer X h BSC_MAINNET_CHAIN_ID = Inr signer"
      "engine_apply_header X now h e = (Inr (), push_verified X b (e\<lparr>eg_snapshot := s'\<rparr>))"
proof (cases "rbind (c_u64 (h_number h)) (\<lambda>number. rbind (cascade_check X h e) (\<lambda>_. Inr number))")
  case (Inl er)
  then show ?thesis using guard by (simp add: engine_apply_header_def)
next
  case (Inr number)
  then have n: "decode_u64 (h_number h) = Inr number" by (auto simp: res_simps)
  obtain r s' where ap: "apply_header X now h (eg_snapshot e) = (r, s')" by (cases "apply_header X now h (eg_snapshot e)")
  show ?thesis
  proof (cases r)
    case (Inl er)
    then show ?thesis using reject ap \<open>rbind _ _ = Inr number\<close> by (simp add: engine_apply_header_def)
  next
    case (Inr signer)
    obtain now' where v: "verify_seal_coinbase X now h = Inr signer"
      using ap [unfolded Inr] by (rule apply_header_Inr)
    obtain b where "verified_block_of X h signer number = Inr b" "vb_number b = number" "vb_miner b = signer"
      "vb_header b = Some h" "decode_hex_fixed X 32 (h_hash h) = Inr (vb_hash b)" "header_hash X h = Inr (vb_hash b)"
      "decode_hex_fixed X 32 (h_state_root h) = Inr (vb_state_root b)"
      using v by (rule sealed_block_ok)
    then show ?thesis using accept [OF n] ap Inr verify_seal_coinbase_Inr(2) [OF v] \<open>rbind _ _ = Inr number\<close>
      by (simp add: engine_apply_header_def Let_def)
  qed
qed

lemma engine_apply_header_Inl:
  assumes "engine_apply_header X now h e = (Inl er, e')"
  shows "e' = e \<or> (\<exists>er' s'. apply_header X now h (eg_snapshot e) = (Inl er', s') \<and> e' = e\<lparr>eg_snapshot := s'\<rparr>)"
  using assms by (cases rule: engine_apply_header_cases [of X now h e]) auto

lemma engine_harmless:
  assumes "engine_apply_header X now h e = (Inl er, e')"
  shows "same_future (\<lambda>(now, h). engine_apply_header X now h) e' e"
  using engine_apply_header_Inl [OF assms]
proof (elim disjE exE conjE)
  assume "e' = e"
  then show ?thesis by simp
next
  fix er' s' assume ap: "apply_header X now h (eg_snapshot e) = (Inl er', s')" and e': "e' = e\<lparr>eg_snapshot := s'\<rparr>"
  have "fst (engine_apply_header X now2 h2 e') = fst (engine_apply_header X now2 h2 e) \<and>
      (is_ok (fst (engine_apply_header X now2 h2 e)) \<longrightarrow>
       snd (engine_apply_header X now2 h2 e') = snd (engine_apply_header X now2 h2 e))" for now2 h2
  proof -
    have c: "cascade_check X h2 (e\<lparr>eg_snapshot := s'\<rparr>) = cascade_check X h2 e" by (simp add: cascade_check_def)
    have "fst (apply_header X now2 h2 s') = fst (apply_header X now2 h2 (eg_snapshot e)) \<and>
        (is_ok (fst (apply_header X now2 h2 (eg_snapshot e))) \<longrightarrow>
         snd (apply_header X now2 h2 s') = snd (apply_header X now2 h2 (eg_snapshot e)))"
      using ap by (rule apply_header_harmless)
    then show ?thesis
      by (cases "apply_header X now2 h2 s'"; cases "apply_header X now2 h2 (eg_snapshot e)")
         (auto simp: engine_apply_header_def c e' Let_def split: sum.splits)
  qed
  then show ?thesis by (auto simp: same_future_def)
qed

lemma eg_push_verified [simp]:
  "eg_snapshot (push_verified X b e) = eg_snapshot e" "eg_checkpoint (push_verified X b e) = eg_checkpoint e"
  "eg_proof_lookback (push_verified X b e) = eg_proof_lookback e"
  by (simp_all add: push_verified_def Let_def)

lemma engine_inv_push:
  assumes inv: "engine_inv X e" and s': "snapshot_inv s'" "sn_number s' = Suc (sn_number (eg_snapshot e))"
    and b: "vb_number b = sn_number s'" "vb_hash b = sn_hash s'" "block_link X (last (eg_chain e)) b"
  shows "engine_inv X (push_verified X b (e\<lparr>eg_snapshot := s'\<rparr>))"
proof -
  let ?n = "sn_number (eg_snapshot e)" and ?c = "eg_chain e @ [b]"
  define k where "k = (if KEEP < length ?c then length ?c - KEEP else 0)"
  have e: "eg_chain e \<noteq> []" "length (eg_chain e) \<le> KEEP" "length (eg_chain e) \<le> Suc ?n"
      "map vb_number (eg_chain e) = [Suc ?n - length (eg_chain e) ..< Suc ?n]"
      "Suc i < length (eg_chain e) \<Longrightarrow> block_link X (eg_chain e ! i) (eg_chain e ! Suc i)" for i
    using inv by (simp_all add: engine_inv_def Let_def)
  have kept: "eg_chain (push_verified X b (e\<lparr>eg_snapshot := s'\<rparr>)) = drop k ?c"
    by (simp add: push_verified_def k_def Let_def)
  have k: "k < length ?c" "length (drop k ?c) \<le> KEEP"
    using e(1,2) by (auto simp: k_def KEEP_def)
  have num: "map vb_number ?c = [Suc ?n - length (eg_chain e) ..< Suc (sn_number s')]"
    using e(3,4) b(1) s'(2) by simp
  have numk: "map vb_number (drop k ?c) = [Suc (sn_number s') - length (drop k ?c) ..< Suc (sn_number s')]"
  proof -
    have "map vb_number (drop k ?c) = drop k [Suc ?n - length (eg_chain e) ..< Suc (sn_number s')]"
      using num by (metis drop_map)
    also have "\<dots> = [Suc ?n - length (eg_chain e) + k ..< Suc (sn_number s')]" by (rule drop_upt)
    also have "Suc ?n - length (eg_chain e) + k = Suc (sn_number s') - length (drop k ?c)"
      using k(1) e(3) s'(2) by simp
    finally show ?thesis .
  qed
  have link: "block_link X (?c ! i) (?c ! Suc i)" if "Suc i < length ?c" for i
  proof (cases "Suc i < length (eg_chain e)")
    case True
    then show ?thesis using e(5) by (simp add: nth_append)
  next
    case False
    then have i: "Suc i = length (eg_chain e)" using that by simp
    then have "eg_chain e ! i = last (eg_chain e)" using e(1) by (metis diff_Suc_1 last_conv_nth)
    then show ?thesis using b(3) i by (simp add: nth_append)
  qed
  have linkk: "block_link X (drop k ?c ! i) (drop k ?c ! Suc i)" if "Suc i < length (drop k ?c)" for i
  proof -
    have "Suc (k + i) < length ?c" using that k(1) by simp
    from link [OF this] show ?thesis using k(1) by (simp add: nth_drop del: drop_append)
  qed
  define c where "c = drop k ?c"
  have "eg_safe (push_verified X b (e\<lparr>eg_snapshot := s'\<rparr>)) = newest_safe X c (n_seal s')"
    by (simp add: push_verified_def k_def Let_def c_def)
  moreover have "vb_hash (last c) = sn_hash s'" using k(1) b(2) by (simp add: last_drop c_def)
  moreover have "length c \<le> Suc (sn_number s')" using e(3) s'(2) by (simp add: c_def)
  moreover have "c \<noteq> []" using k(1) by (simp add: c_def)
  ultimately show ?thesis
    unfolding engine_inv_def Let_def kept
    using s'(1) k(2) numk linkk by (fold c_def) (simp del: upt_Suc)
qed

lemma engine_inv_apply_header:
  assumes inv: "engine_inv X e" and n: "tip_number e < u64_max"
  shows "engine_inv X (snd (engine_apply_header X now h e))"
proof -
  have si: "snapshot_inv (eg_snapshot e)" and lst: "vb_hash (last (eg_chain e)) = sn_hash (eg_snapshot e)"
    using inv by (simp_all add: engine_inv_def Let_def)
  note n' = n [unfolded tip_number_def]
  have si': "snapshot_inv (snd (apply_header X now h (eg_snapshot e)))" using si n' by (rule apply_header_inv)
  show ?thesis
  proof (cases rule: engine_apply_header_cases [of X now h e])
    case guard
    then show ?thesis using inv by simp
  next
    case (reject er s')
    have "n_seal s' = n_seal (eg_snapshot e)" "sn_number s' = sn_number (eg_snapshot e)" "sn_hash s' = sn_hash (eg_snapshot e)"
      using apply_header_Inl_same [OF reject(1)] by (simp_all add: n_seal_def)
    then show ?thesis using inv reject si' by (simp add: engine_inv_def Let_def)
  next
    case (accept number signer s' b)
    note hd = accepted_head [OF accept(2)] next_number_eq [OF n']
    have "vb_hash b = sn_hash s'" using hd(2) accept(7) by simp
    moreover have "vb_number b = sn_number s'" using hd(1,4) accept(1,4) by simp
    moreover have "block_link X (last (eg_chain e)) b"
      using accept hd(3) lst by (simp add: block_link_def)
    ultimately show ?thesis
      using engine_inv_push [OF inv _ _ ] si' accept(2,11) hd(1,5) by simp
  qed
qed

text \<open>The engine fulfils the contract of a ledger, resting on the snapshot's.\<close>

interpretation engine_ledger: ledger "\<lambda>(now, h). engine_apply_header X now h" "engine_inv X" tip_number
  for X :: "('pk, 'sg) ext"
proof unfold_locales
  fix e :: engine and i :: "nat \<times> rpc_block_header"
  obtain now h where i: "i = (now, h)" by (cases i)
  show "engine_inv X (snd ((case i of (now, h) \<Rightarrow> engine_apply_header X now h) e))"
    if "engine_inv X e" "tip_number e < u64_max"
    using that by (simp add: i engine_inv_apply_header)
  fix e'
  show "tip_number e' = Suc (tip_number e)"
    if "engine_inv X e" "tip_number e < u64_max" "(case i of (now, h) \<Rightarrow> engine_apply_header X now h) e = (Inr v, e')" for v
    using that(3) accepted_head(1) [of X now h "eg_snapshot e"] next_number_eq [of "eg_snapshot e"] that(2)
    by (cases rule: engine_apply_header_cases [of X now h e]) (auto simp: i tip_number_def)
  show "tip_number e' = tip_number e" if "(case i of (now, h) \<Rightarrow> engine_apply_header X now h) e = (Inl er, e')" for er
    using that engine_apply_header_Inl [of X now h e er e'] apply_header_Inl_same(1) [of X now h "eg_snapshot e"]
    by (auto simp: i tip_number_def)
  show "same_future (\<lambda>(now, h). engine_apply_header X now h) e' e"
    if "(case i of (now, h) \<Rightarrow> engine_apply_header X now h) e = (Inl er, e')" for er
    using that engine_harmless [of X now h e er e'] by (simp add: i)
qed

section \<open>Properties of the engine\<close>

abbreviation engine_step ::
    "('pk, 'sg) ext \<Rightarrow> nat \<times> rpc_block_header \<Rightarrow> engine \<Rightarrow> (consensus_error, unit) result \<times> engine" where
  "engine_step X \<equiv> (\<lambda>(now, h). engine_apply_header X now h)"

lemma engine_from_checkpoint_inv:
  assumes "engine_from_checkpoint X cp = Inr e" "is_u64 (cp_number cp)"
  shows "engine_inv X e" "tip_number e = cp_number cp"
proof -
  obtain s hash root where s: "from_checkpoint X cp = Inr s" "decode_hex_fixed X 32 (cp_hash cp) = Inr hash"
    and e: "eg_snapshot e = s" "eg_chain e = [\<lparr>vb_number = cp_number cp, vb_hash = hash, vb_state_root = root,
        vb_miner = zeros 20, vb_milli_timestamp = 0, vb_gas_limit = 0, vb_header = None\<rparr>]" "eg_safe e = None"
    using assms(1) by (auto simp: engine_from_checkpoint_def res_simps)
  have f: "sn_number s = cp_number cp" "sn_hash s = hash" using s by (auto elim!: from_checkpoint_Inr)
  show "engine_inv X e"
    using from_checkpoint_inv [OF s(1) assms(2)] f
    by (simp add: engine_inv_def e newest_safe_def KEEP_def)
  show "tip_number e = cp_number cp" using f by (simp add: tip_number_def e)
qed

text \<open>
  C2. The engine stays consistent under any input. Started from a valid checkpoint and fed any log
  of headers with any clock readings, the engine keeps its invariant: the kept chain is
  consecutive, hash-linked, signed block by block and ends at the snapshot's head, the safe head
  is the one \<open>newest_safe\<close> computes for it, and the tip is the checkpoint height plus the
  number of accepted headers.
\<close>

theorem engine_run_inv:
  assumes "engine_from_checkpoint X cp = Inr e" "cp_number cp + length log \<le> u64_max"
  shows "engine_inv X (snd (drive (engine_step X) log e)) \<and>
     tip_number (snd (drive (engine_step X) log e)) = cp_number cp + length (accepted (engine_step X) log e)"
proof -
  have "is_u64 (cp_number cp)" using assms(2) by (simp add: is_u64_def)
  from engine_from_checkpoint_inv [OF assms(1) this] assms(2) show ?thesis
    using engine_ledger.drive_inv [of X e log] by simp
qed

text \<open>
  C20. Rejected headers leave no trace. Deleting from a log every header the engine rejected, the rest
  is accepted in full, and the engine then treats every further header exactly as the one that saw the
  whole log: no rejection can wedge the client.
\<close>

theorem engine_replay:
  "list_all is_ok (fst (drive (engine_step X) (accepted (engine_step X) log e) e)) \<and>
   same_future (engine_step X) (snd (drive (engine_step X) log e))
     (snd (drive (engine_step X) (accepted (engine_step X) log e) e))"
  by (rule engine_ledger.replay_accepted) simp

text \<open>
  C1. What a proof target guarantees. A safe head handed out by \<open>proof_target\<close> is a block of the
  kept chain that at least \<open>floor(2N/3)+1\<close> distinct signers have built on, every one of the blocks
  above it linked and signed, no newer block of the chain is buried that deep, and the head lies
  within the proof window of the tip.
\<close>

theorem proof_target_sound:
  assumes inv: "engine_inv X e" and ok: "proof_target e = Inr sh"
  shows "\<exists>i. 0 < i \<and> i < length (eg_chain e) \<and>
     sh = safe_at X (eg_chain e) i (min_distinct_sealers (n_seal (eg_snapshot e))) \<and>
     min_distinct_sealers (n_seal (eg_snapshot e)) \<le> distinct_sealers (eg_chain e) i \<and>
     (\<forall>j. i < j \<and> j < length (eg_chain e) \<longrightarrow>
        distinct_sealers (eg_chain e) j < min_distinct_sealers (n_seal (eg_snapshot e))) \<and>
     (\<forall>j. i \<le> j \<and> j < length (eg_chain e) \<longrightarrow> block_link X (eg_chain e ! (j - 1)) (eg_chain e ! j)) \<and>
     tip_number e - sh_number sh \<le> eg_proof_lookback e"
proof -
  have safe: "eg_safe e = Some sh" "tip_number e - sh_number sh \<le> eg_proof_lookback e"
    using ok by (auto simp: proof_target_def proof_lag_def sat_sub_def Let_def split: option.splits if_splits)
  have i: "eg_safe e = newest_safe X (eg_chain e) (n_seal (eg_snapshot e))" "length (eg_chain e) < 2 ^ 32"
      "Suc j < length (eg_chain e) \<Longrightarrow> block_link X (eg_chain e ! j) (eg_chain e ! Suc j)" for j
    using inv by (simp_all add: engine_inv_def Let_def KEEP_def)
  have link: "block_link X (eg_chain e ! (j - 1)) (eg_chain e ! j)" if "0 < j" "j < length (eg_chain e)" for j
    using i(3) [of "j - 1"] that by simp
  obtain k where "0 < k" "k < length (eg_chain e)"
      "min_distinct_sealers (n_seal (eg_snapshot e)) \<le> distinct_sealers (eg_chain e) k"
      "\<forall>j. k < j \<and> j < length (eg_chain e) \<longrightarrow>
         distinct_sealers (eg_chain e) j < min_distinct_sealers (n_seal (eg_snapshot e))"
      "sh = safe_at X (eg_chain e) k (min_distinct_sealers (n_seal (eg_snapshot e)))"
    using newest_safe_cases [OF i(2), where X = X and n = "n_seal (eg_snapshot e)"] safe(1) i(1) by auto
  then show ?thesis using safe(2) link by (intro exI [of _ k]) simp
qed

subsection \<open>Restart from a written checkpoint\<close>

lemma sort_key_sorted: "sorted (map f xs) \<Longrightarrow> sort_key f xs = xs"
  by (induction xs) (auto simp: insort_is_Cons)

lemma rmapM_format:
  assumes "hex_ok X" "list_all (\<lambda>a. length a = k) as"
  shows "rmapM (n_fixed X k) (map (hex0x X) as) = Inr as"
  using assms by (induction as) (auto simp: n_fixed_def decode_hex_fixed_hex0x)

lemma rmapM_vote_keys:
  assumes "hex_ok X" "list_all (\<lambda>v. length (sv_vote_key v) = 48) ws"
  shows "rmapM (\<lambda>(addr, key). map_ok (\<lambda>k. \<lparr>sv_address = addr, sv_vote_key = k\<rparr>) (n_fixed X 48 key))
     (zip (map sv_address ws) (map (\<lambda>v. hex0x X (sv_vote_key v)) ws)) = Inr ws"
  using assms by (induction ws) (auto simp: n_fixed_def decode_hex_fixed_hex0x)

lemma checkpoint_at_snapshot_Inr:
  assumes "checkpoint_at_snapshot X h s fork_id att = Inr cp"
  shows "cp_number cp = sn_number s" "cp_hash cp = hex0x X (sn_hash s)"
    "cp_sealing_set cp = map (hex0x X) (sn_validators s)" "cp_vote_keys cp = vote_keys_hex X s"
    "header_hash X h = Inr (sn_hash s)"
  using assms
  by (auto simp: checkpoint_at_snapshot_def res_simps Let_def from_rpc_header_def with_vote_keys_def
      sealing_set_hex_def format_address_def vote_keys_hex_def split: if_splits)

text \<open>
  C30. Restart loses nothing that a checkpoint can carry. A checkpoint written from a well-formed
  snapshot loads into a snapshot with the same number, hash, validator set and vote set (addresses
  paired with their own keys).
\<close>

theorem restart_roundtrip:
  assumes cp: "checkpoint_at_snapshot X h s fork_id att = Inr cp" and inv: "snapshot_inv s" and X: "hex_ok X"
  shows "\<exists>s'. from_checkpoint X cp = Inr s' \<and> sn_number s' = sn_number s \<and> sn_hash s' = sn_hash s \<and>
     sn_validators s' = sn_validators s \<and> sn_vote_set s' = sn_vote_set s"
proof -
  note c = checkpoint_at_snapshot_Inr [OF cp]
  have i: "sorted (sn_validators s)" "list_all (\<lambda>a. length a = 20) (sn_validators s)" "length (sn_hash s) = 32"
      "list_all (\<lambda>v. length (sv_vote_key v) = 48) (sn_vote_set s)"
      "sn_vote_set s = [] \<or> map sv_address (sn_vote_set s) = sn_validators s"
    using inv by (simp_all add: snapshot_inv_def set_inv_def chain_inv_def)
  have v: "rmapM (n_fixed X 20) (cp_sealing_set cp) = Inr (sn_validators s)"
    using rmapM_format [OF X i(2)] by (simp add: c)
  have ws: "checkpoint_vote_set X (sn_validators s) (cp_vote_keys cp) = Inr (sn_vote_set s)"
  proof (cases "sn_vote_set s = []")
    case True
    then show ?thesis by (simp add: c checkpoint_vote_set_def vote_keys_hex_def)
  next
    case False
    then have a: "map sv_address (sn_vote_set s) = sn_validators s" using i(5) by simp
    then have "sort_key sv_address (sn_vote_set s) = sn_vote_set s" using i(1) by (intro sort_key_sorted) simp
    moreover have "length (sn_vote_set s) = length (sn_validators s)" using a by (metis length_map)
    ultimately show ?thesis using False rmapM_vote_keys [OF X i(4)] a
      by (simp add: c checkpoint_vote_set_def vote_keys_hex_def)
  qed
  have "n_fixed X 32 (cp_hash cp) = Inr (sn_hash s)"
    using X i(3) by (simp add: c n_fixed_def decode_hex_fixed_hex0x)
  then show ?thesis using i(1) by (simp add: from_checkpoint_def v ws Let_def c(1) sorted_sort_id)
qed

section \<open>A sample engine\<close>

definition sample_engine :: engine where
  "sample_engine =
     \<lparr>eg_checkpoint = sample_cp, eg_snapshot = sample_snap,
      eg_chain = [\<lparr>vb_number = 0, vb_hash = zeros 32, vb_state_root = zeros 32, vb_miner = zeros 20,
                   vb_milli_timestamp = 0, vb_gas_limit = 0, vb_header = None\<rparr>],
      eg_safe = None, eg_proof_lookback = PROVIDER_PROOF_LOOKBACK\<rparr>"

lemma engine_from_checkpoint_sample: "engine_from_checkpoint refX sample_cp = Inr sample_engine"
  unfolding engine_from_checkpoint_def from_checkpoint_sample
  by (simp add: sample_engine_def c_fixed_def)
     (simp add: sample_cp_def validate_basic_def decode_hex_fixed_hex0x check_hash_field_def)

theorem engine_run_inv_witness:
  "engine_inv refX (snd (drive (engine_step refX) [(0, sample_header ''0x1'' 1 (zeros 32))] sample_engine))"
  using engine_run_inv [OF engine_from_checkpoint_sample, of "[(0, sample_header ''0x1'' 1 (zeros 32))]"]
  by (simp add: sample_cp_def u64_max_def)

lemma sample_next_facts:
  "sn_number sample_next = 1" "header_hash refX (sample_header ''0x1'' 1 (zeros 32)) = Inr (sn_hash sample_next)"
  "n_seal sample_next = 1" "snapshot_inv sample_next"
proof -
  let ?h = "sample_header ''0x1'' 1 (zeros 32)"
  show n: "sn_number sample_next = 1" using accepted_head(1) [OF sample_apply] by simp
  have v: "verify_seal_coinbase refX 0 ?h = Inr (zeros 20)" by (rule sample_header_ok) simp_all
  show "header_hash refX ?h = Inr (sn_hash sample_next)"
    using verify_seal_coinbase_Inr(4) [OF v] accepted_head(2) [OF sample_apply] by auto
  have inv: "snapshot_inv sample_snap"
    using from_checkpoint_inv [OF from_checkpoint_sample] by (simp add: sample_cp_def is_u64_def)
  show "snapshot_inv sample_next"
    using apply_header_inv [OF inv, of refX 0 ?h] sample_apply by (simp add: u64_max_def)
  obtain number time hash parsed adopted milli where
    l: "check_link refX ?h (zeros 20) sample_snap = Inr (number, time, hash)"
    and s': "sample_next = (move_block number time hash (zeros 20) parsed adopted (drop_expired number sample_snap))\<lparr>sn_last_milli := Some milli\<rparr>"
    using sample_apply by (rule apply_header_Inr)
  have sch: "scheduled sample_snap parsed = None"
    by (simp add: scheduled_def is_epoch_block_def) (simp add: sample_snap_def)
  have "number = Suc 0" using check_link_Inr(5) [OF l] by simp
  then have "activation sample_snap parsed sample_next"
    using move_block_activation [of sample_snap parsed time hash "zeros 20" adopted] by (simp add: s' sch)
  then have "sn_validators sample_next = sn_validators sample_snap" by (simp add: activation_def same_set_def sch)
  then show "n_seal sample_next = 1" by (simp add: n_seal_def sample_snap_def wrap32_def)
qed

definition sample_engine2 :: engine where
  "sample_engine2 = snd (engine_apply_header refX 0 (sample_header ''0x1'' 1 (zeros 32)) sample_engine)"

lemma sample_engine2_facts:
  "engine_inv refX sample_engine2" "tip_number sample_engine2 = 1" "eg_proof_lookback sample_engine2 = 112"
  "\<exists>sh. eg_safe sample_engine2 = Some sh"
proof -
  let ?h = "sample_header ''0x1'' 1 (zeros 32)"
  have inv: "engine_inv refX sample_engine" "tip_number sample_engine = 0"
    using engine_from_checkpoint_inv [OF engine_from_checkpoint_sample] by (simp_all add: sample_cp_def is_u64_def)
  show "engine_inv refX sample_engine2"
    using engine_inv_apply_header [OF inv(1), of 0 ?h] inv(2) by (simp add: sample_engine2_def u64_max_def)
  have num: "decode_u64 (h_number ?h) = Inr 1" by (simp add: sample_header_def sample_body_def)
  have casc: "cascade_check refX ?h sample_engine = Inr ()"
    by (simp add: cascade_check_def sample_engine_def verify_cascading_vs_parent_def)
  have snap: "eg_snapshot sample_engine = sample_snap" by (simp add: sample_engine_def)
  have guard: "rbind (c_u64 (h_number ?h)) (\<lambda>number. rbind (cascade_check refX ?h sample_engine) (\<lambda>_. Inr number)) = Inr 1"
    unfolding casc c_u64_def num by simp
  obtain b where b: "verified_block_of refX ?h (zeros 20) 1 = Inr b"
  proof -
    have v: "verify_seal_coinbase refX 0 ?h = Inr (zeros 20)" by (rule sample_header_ok) simp_all
    show ?thesis using v by (rule sealed_block_ok) (rule that)
  qed
  have e2: "sample_engine2 = push_verified refX b (sample_engine\<lparr>eg_snapshot := sample_next\<rparr>)"
    unfolding sample_engine2_def engine_apply_header_def guard snap sample_apply using b by simp
  show "tip_number sample_engine2 = 1" by (simp add: e2 tip_number_def sample_next_facts)
  show "eg_proof_lookback sample_engine2 = 112" by (simp add: e2 sample_engine_def PROVIDER_PROOF_LOOKBACK_def)
  have t: "min_distinct_sealers 1 = 1" by (simp add: min_distinct_sealers_def wrap32_def)
  show "\<exists>sh. eg_safe sample_engine2 = Some sh"
    using t by (simp add: e2 push_verified_def sample_engine_def KEEP_def sample_next_facts newest_safe_def
        numeral_2_eq_2 Let_def wrap32_def)
qed

theorem proof_target_sound_witness: "\<exists>sh. proof_target sample_engine2 = Inr sh \<and> tip_number sample_engine2 - sh_number sh \<le> 112"
proof -
  obtain sh where "eg_safe sample_engine2 = Some sh" using sample_engine2_facts(4) by blast
  then have ok: "proof_target sample_engine2 = Inr sh"
    using sample_engine2_facts(2,3) by (simp add: proof_target_def proof_lag_def sat_sub_def Let_def)
  from proof_target_sound [OF sample_engine2_facts(1) ok] ok sample_engine2_facts(3) show ?thesis by auto
qed

theorem restart_roundtrip_witness:
  "\<exists>cp s'. checkpoint_at_snapshot refX (sample_header ''0x1'' 1 (zeros 32)) sample_next [] None = Inr cp \<and>
     from_checkpoint refX cp = Inr s' \<and> sn_validators s' = sn_validators sample_next"
proof -
  let ?h = "sample_header ''0x1'' 1 (zeros 32)"
  have "h_number ?h = ''0x1''" "h_timestamp ?h = ''0x0''" by (simp_all add: sample_header_def sample_body_def)
  then obtain cp where cp: "checkpoint_at_snapshot refX ?h sample_next [] None = Inr cp"
    using sample_next_facts(2)
    by (simp add: checkpoint_at_snapshot_def c_u64_def sample_next_facts(1) from_rpc_header_def Let_def)
  from restart_roundtrip [OF cp sample_next_facts(4)] cp show ?thesis by auto
qed

end
