(* ===== verification/Errors.thy ===== *)
theory Errors
  imports Engine
begin

text \<open>
  Error texts. The binary decides whether a failed sync is a reorganisation by searching the
  texts of an error chain, so the \<open>Display\<close> output of the error types, as
  their \<open>#[error(..)]\<close> attributes give it, is part of the behaviour. An \<open>anyhow\<close> error is the
  list of texts of its chain, outermost context first; a \<open>transparent\<close> variant shows as its
  inner error and adds no link. Texts are UTF-8 bytes.
\<close>

type_synonym err = "string list"

definition context_err :: "string \<Rightarrow> err \<Rightarrow> err" where
  "context_err c e = c # e"

section \<open>Display\<close>

fun show_extra_error :: "extra_error \<Rightarrow> string" where
  "show_extra_error TooShort = ''extraData shorter than vanity+seal (32+65)''"
| "show_extra_error InvalidEpochValidators = ''epoch extraData missing validator count / records''"
| "show_extra_error MissingTurnLength = ''epoch extraData missing turnLength byte''"

fun show_vote_error :: "vote_error \<Rightarrow> string" where
  "show_vote_error (VoteRlp m) = ''malformed vote attestation RLP: '' @ m"
| "show_vote_error (VoteExtraTooLong n) =
     ''too large extra length: '' @ show_nat n @ '' > '' @ show_nat MAX_ATTESTATION_EXTRA_LEN"
| "show_vote_error (SourceNotBelowTarget s t) =
     ''attestation source '' @ show_nat s @ '' is not below its target '' @ show_nat t"
| "show_vote_error (VoteNumberLargerThanValidators v n) =
     ''vote number larger than validators number: '' @ show_nat v @ '' > '' @ show_nat n"
| "show_vote_error (BitOutOfRange i n) =
     ''vote address set has bit '' @ show_nat i @ '' set but only '' @ show_nat n @ '' validators exist''"
| "show_vote_error NoVotes = ''vote address set is empty''"
| "show_vote_error (NotEnoughVotes got need) =
     ''not enough validators voted: '' @ show_nat got @ '' < '' @ show_nat need"
| "show_vote_error (InvalidVoteKey i) = ''validator '' @ show_nat i @ '' has an invalid BLS vote key''"
| "show_vote_error InvalidSignature = ''aggregated signature is not a valid BLS signature''"
| "show_vote_error AggregateFailed = ''BLS public key aggregation failed''"
| "show_vote_error SignatureVerifyFailed = ''vote attestation signature verify fail''"

fun show_seal_error :: "seal_error \<Rightarrow> string" where
  "show_seal_error (SealTypes e) = show_types_error e"
| "show_seal_error SealExtraTooShort = ''extraData too short for vanity+seal''"
| "show_seal_error (BadRecoveryId n) = ''invalid recovery id '' @ show_nat n"
| "show_seal_error (Recover m) = ''secp256k1 recover failed: '' @ m"
| "show_seal_error (CoinbaseMismatch r m) = ''coinbase mismatch: recovered '' @ r @ '', miner '' @ m"
| "show_seal_error (SealBadDifficulty g) =
     ''Parlia difficulty '' @ show_nat g @ '' is not '' @ show_nat DIFF_NO_TURN @ '' (out-of-turn) or '' @
     show_nat DIFF_IN_TURN @ '' (in-turn)''"
| "show_seal_error InvalidUncles = ''non-empty uncle hash (Parlia forbids uncles)''"
| "show_seal_error (InvalidGasUsed u l) = ''gasUsed '' @ show_nat u @ '' exceeds gasLimit '' @ show_nat l"
| "show_seal_error (InvalidBaseFee g) = ''baseFeePerGas '' @ g @ '' must be 0 on a Parlia chain''"
| "show_seal_error (MissingBaseFee n) = ''baseFeePerGas missing after London (block '' @ show_nat n @ '')''"
| "show_seal_error (UnexpectedBaseFee n) = ''baseFeePerGas present before London (block '' @ show_nat n @ '')''"
| "show_seal_error (InvalidGasLimit g) = ''gasLimit '' @ show_nat g @ '' exceeds 2^63-1''"
| "show_seal_error InvalidMixDigest = ''invalid mixDigest (Lorentz milliseconds / pre-Lorentz zero)''"
| "show_seal_error InvalidParentBeaconRoot = ''invalid parentBeaconRoot (Bohr+ expects the zero hash)''"
| "show_seal_error HashMismatch = ''header hash mismatch (geth Header.Hash())''"
| "show_seal_error SealExtraTooLong = ''header extraData exceeds 100KiB''"
| "show_seal_error InvalidWithdrawalsRoot = ''withdrawalsRoot is not the empty trie hash''"
| "show_seal_error (TimestampTooEarly g p i) =
     ''block MilliTimestamp '' @ show_nat g @ '' < parent '' @ show_nat p @ '' + interval '' @ show_nat i @ ''ms''"
| "show_seal_error (OutOfTurnTooEarly g p i b) =
     ''out-of-turn block MilliTimestamp '' @ show_nat g @ '' < parent '' @ show_nat p @ '' + interval '' @
     show_nat i @ ''ms + backoff '' @ show_nat b @ ''ms''"
| "show_seal_error (GasLimitBound g p b) =
     ''gasLimit '' @ show_nat g @ '' outside parent '' @ show_nat p @ '' '' @ [CHR 0xC2, CHR 0xB1] @
     '' bound '' @ show_nat b"
| "show_seal_error (FutureBlock t now) =
     ''header timestamp '' @ show_nat t @ '' is in the future (now '' @ show_nat now @ '')''"
| "show_seal_error InvalidNonce = ''Parlia nonce must be the empty 8-byte nonce''"
| "show_seal_error (SealExtra e) = show_extra_error e"
| "show_seal_error SealMissingEpochExtra = ''epoch extraData has no validators''"
| "show_seal_error InvalidTurnLength =
     ''epoch extraData turnLength is out of range 1..='' @ show_nat MAX_TURN_LENGTH"
| "show_seal_error DuplicateValidator = ''epoch extraData has a duplicate validator address''"

fun show_snapshot_error :: "snapshot_error \<Rightarrow> string" where
  "show_snapshot_error (SnapSeal e) = show_seal_error e"
| "show_snapshot_error (SnapExtra e) = show_extra_error e"
| "show_snapshot_error (SnapTypes e) = show_types_error e"
| "show_snapshot_error (NumberMismatch want got) =
     ''header '' @ show_nat got @ '' does not follow parent '' @ show_nat want"
| "show_snapshot_error ParentHashMismatch = ''parent hash mismatch''"
| "show_snapshot_error (Unauthorized a) = ''signer '' @ a @ '' not in active sealing set''"
| "show_snapshot_error (SnapMissingEpochExtra n) = ''epoch extraData missing at boundary '' @ show_nat n"
| "show_snapshot_error (SnapBadDifficulty g) = ''Parlia difficulty '' @ show_nat g @ '' is not 1 or 2''"
| "show_snapshot_error (DifficultyMismatch g w) =
     ''difficulty '' @ show_nat g @ '' does not match in-turn (want '' @ show_nat w @ '')''"
| "show_snapshot_error (RecentlySigned a) = ''signer '' @ a @ '' signed too recently (seenTimes >= turnLength)''"
| "show_snapshot_error (SnapVote e) = show_vote_error e"
| "show_snapshot_error (AttestationTarget w g) =
     ''attestation targets block '' @ show_nat g @ '', outside the ancestor window ending at parent '' @ show_nat w"
| "show_snapshot_error AttestationTargetHash = ''attestation target hash does not match the parent hash''"
| "show_snapshot_error (AttestationSource w g) =
     ''attestation source '' @ show_nat g @ '' is not the justified block '' @ show_nat w"
| "show_snapshot_error AttestationSourceHash = ''attestation source hash does not match the justified block''"
| "show_snapshot_error (NotEpochBoundary n l) =
     ''header '' @ show_nat n @ '' is not an epoch boundary (epochLength='' @ show_nat l @ '')''"
| "show_snapshot_error (EpochHeadersNotAdjacent a b l) =
     ''epoch headers '' @ show_nat a @ '' and '' @ show_nat b @ '' are not one epoch ('' @ show_nat l @ '') apart''"
| "show_snapshot_error (SeedEpochMismatch c e) =
     ''checkpoint '' @ show_nat c @ '' is not inside epoch '' @ show_nat e"
| "show_snapshot_error (SeedAfterWalk n) =
     ''epoch state can only be seeded before the first header is walked (at '' @ show_nat n @ '')''"

text \<open>The dash of two messages, in UTF-8.\<close>

definition em_dash :: string where
  "em_dash = [CHR 0xE2, CHR 0x80, CHR 0x94]"

fun show_consensus_error :: "consensus_error \<Rightarrow> string" where
  "show_consensus_error (NotImplemented m) = ''not implemented: '' @ m"
| "show_consensus_error (InvalidCheckpoint m) = ''invalid checkpoint: '' @ m"
| "show_consensus_error (CheckpointMismatch f) = ''checkpoint '' @ f @ '' mismatch vs header''"
| "show_consensus_error (CheckpointTooOld age mx) =
     ''checkpoint age '' @ show_nat age @ ''s exceeds max '' @ show_nat mx @ ''s '' @ em_dash @
     '' fail-closed (refresh checkpoint)''"
| "show_consensus_error (CheckpointTooFar lag limit) =
     ''checkpoint is '' @ show_nat lag @ '' blocks behind tip (limit '' @ show_nat limit @ '') '' @ em_dash @
     '' fail-closed (fresher checkpoint)''"
| "show_consensus_error (EngSeal e) = show_seal_error e"
| "show_consensus_error (EngSnapshot e) = show_snapshot_error e"
| "show_consensus_error (EngTypes e) = show_types_error e"
| "show_consensus_error (NotSafe need have) =
     ''no Safe head yet (need '' @ show_nat need @ '' distinct sealers, have '' @ show_nat have @ '')''"
| "show_consensus_error (ProofWindowExceeded lag limit) =
     ''Safe lag '' @ show_nat lag @ '' exceeds provider proof window '' @ show_nat limit @ '' '' @ em_dash @
     '' fail-closed (swap RPC key or wait)''"
| "show_consensus_error (NotEpoch n l) =
     ''header '' @ show_nat n @ '' is not an epoch boundary (epochLength='' @ show_nat l @ '')''"
| "show_consensus_error (EmptyEpochValidators n) = ''epoch extraData at '' @ show_nat n @ '' has no validators''"
| "show_consensus_error (EpochSetNotActivated e a c) =
     ''epoch extraData at '' @ show_nat e @ '' is the *next* sealing set; activates at '' @ show_nat a @
     '' (checkpoint '' @ show_nat c @ '' is too early)''"
| "show_consensus_error (EngExtra e) = show_extra_error e"

section \<open>Substring search\<close>

text \<open>\<open>str::contains\<close>\<close>

fun str_contains :: "string \<Rightarrow> string \<Rightarrow> bool" where
  "str_contains [] pat \<longleftrightarrow> pat = []"
| "str_contains (c # s) pat \<longleftrightarrow> take (length pat) (c # s) = pat \<or> str_contains s pat"

definition to_ascii_lowercase :: "string \<Rightarrow> string" where
  "to_ascii_lowercase s = map ascii_lower s"

lemma str_contains_iff: "str_contains s pat \<longleftrightarrow> (\<exists>a b. s = a @ pat @ b)"
proof (induction s)
  case (Cons c s)
  have "take (length pat) (c # s) = pat \<longleftrightarrow> (\<exists>b. c # s = pat @ b)"
    by (metis append_eq_conv_conj append_take_drop_id)
  moreover have "(\<exists>a b. c # s = a @ pat @ b) \<longleftrightarrow> (\<exists>b. c # s = pat @ b) \<or> (\<exists>a b. s = a @ pat @ b)"
    by (metis append_Cons append_Nil list.exhaust list.inject)
  ultimately show ?case using Cons by simp
qed simp

lemma str_contains_part: "str_contains (a @ pat @ b) pat"
  by (auto simp: str_contains_iff)

lemma str_contains_subset: "str_contains s pat \<Longrightarrow> set pat \<subseteq> set s"
  by (auto simp: str_contains_iff)

text \<open>A pattern free of the characters of a segment is not found across it.\<close>

lemma str_contains_across:
  assumes n: "n \<noteq> []" "set n \<inter> set pat = {}"
  shows "str_contains (a @ n @ b) pat \<longleftrightarrow> str_contains a pat \<or> str_contains b pat"
proof
  assume "str_contains (a @ n @ b) pat"
  then obtain u v where e: "a @ n @ b = u @ pat @ v" by (auto simp: str_contains_iff)
  show "str_contains a pat \<or> str_contains b pat"
  proof (rule ccontr)
    assume no: "\<not> (str_contains a pat \<or> str_contains b pat)"
    have pat: "pat \<noteq> []" using no str_contains_part [of "[]" "[]" a] by auto
    have 1: "length a < length (u @ pat)"
    proof (rule ccontr)
      assume "\<not> length a < length (u @ pat)"
      then obtain w where "a = (u @ pat) @ w"
        using e by (metis append_assoc append_eq_append_conv_if append_take_drop_id not_less)
      then show False using no by (auto simp: str_contains_iff)
    qed
    have 2: "length u < length (a @ n)"
    proof (rule ccontr)
      assume "\<not> length u < length (a @ n)"
      then obtain w where "u = (a @ n) @ w"
        using e by (metis append_assoc append_eq_append_conv_if append_take_drop_id not_less)
      then show False using no e by (auto simp: str_contains_iff)
    qed
    let ?j = "max (length a) (length u)"
    have "?j - length a < length n" "?j - length u < length pat" using 1 2 n(1) pat by (auto simp: max_def)
    moreover have "(a @ n @ b) ! ?j = n ! (?j - length a)" "(u @ pat @ v) ! ?j = pat ! (?j - length u)"
      using calculation by (auto simp: nth_append)
    ultimately show False using n(2) e by (metis disjoint_iff nth_mem)
  qed
next
  assume "str_contains a pat \<or> str_contains b pat"
  then show "str_contains (a @ n @ b) pat" unfolding str_contains_iff by (metis append_assoc)
qed

lemma to_ascii_lowercase_append [simp]: "to_ascii_lowercase (a @ b) = to_ascii_lowercase a @ to_ascii_lowercase b"
  by (simp add: to_ascii_lowercase_def)

definition digit_chars :: string where
  "digit_chars = ''0123456789''"

lemma set_show_nat: "set (show_nat n) \<subseteq> set digit_chars"
proof (induction n rule: show_nat.induct)
  case (1 n)
  have d: "char_of (48 + m) \<in> set digit_chars" if "m < 10" for m :: nat
  proof -
    have "\<forall>m \<in> set [0..<10]. char_of (48 + m) \<in> set digit_chars" by code_simp
    then show ?thesis using that by simp
  qed
  show ?case
    using 1 d [of n] d [of "n mod 10"] by (subst show_nat.simps) auto
qed

lemma show_nat_not_Nil: "show_nat n \<noteq> []"
  by (subst show_nat.simps) simp

lemma lowercase_digits: "set s \<subseteq> set digit_chars \<Longrightarrow> to_ascii_lowercase s = s"
proof (induction s)
  case (Cons c s)
  have "\<forall>c \<in> set digit_chars. ascii_lower c = c" by code_simp
  then show ?case using Cons by (simp add: to_ascii_lowercase_def)
qed (simp add: to_ascii_lowercase_def)

lemmas lowercase_show_nat [simp] = lowercase_digits [OF set_show_nat]

lemma str_contains_across_nat:
  assumes "set digit_chars \<inter> set pat = {}"
  shows "str_contains (a @ show_nat n @ b) pat \<longleftrightarrow> str_contains a pat \<or> str_contains b pat"
  by (rule str_contains_across [OF show_nat_not_Nil]) (use assms set_show_nat in blast)

end
