(* ===== verification/Sync.thy ===== *)
theory Sync
  imports Errors
begin

text \<open>
  Header synchronisation from an untrusted upstream (\<open>bin/helios-bsc/src/sync.rs\<close>): walking
  and appending headers with and without a snapshot, catching up to the live tip,
  recognising a reorganisation, bootstrapping from a checkpoint, and choosing the head that reads
  resolve to. The upstream is a parameter: a record of the answers it gives during one operation.
  A header arrives together with the clock reading at which it is checked. Operations return the
  chain and the snapshot also when they fail, since the source mutates both in place.
\<close>

section \<open>The upstream\<close>

text \<open>The methods of the \<open>RpcUpstream\<close> trait that synchronisation calls.\<close>

record upstream =
  up_block_number :: "(err, nat) result"
  up_header_by_number :: "nat \<Rightarrow> (err, nat \<times> rpc_block_header) result"
  up_header_by_hash :: "string \<Rightarrow> (err, rpc_block_header) result"
  up_headers_range :: "nat \<Rightarrow> nat \<Rightarrow> (err, (nat \<times> rpc_block_header) list) result"

definition context_res :: "string \<Rightarrow> (err, 'a) result \<Rightarrow> (err, 'a) result" where
  "context_res c m = map_err (context_err c) m"

definition seal_res :: "(seal_error, 'a) result \<Rightarrow> (err, 'a) result" where
  "seal_res m = map_err (\<lambda>e. [show_seal_error e]) m"

definition types_res :: "(types_error, 'a) result \<Rightarrow> (err, 'a) result" where
  "types_res m = map_err (\<lambda>e. [show_types_error e]) m"

definition snapshot_res :: "(snapshot_error, 'a) result \<Rightarrow> (err, 'a) result" where
  "snapshot_res m = map_err (\<lambda>e. [show_snapshot_error e]) m"

definition consensus_res :: "(consensus_error, 'a) result \<Rightarrow> (err, 'a) result" where
  "consensus_res m = map_err (\<lambda>e. [show_consensus_error e]) m"

section \<open>Walking headers\<close>

definition checkpoint_policy :: "bool \<Rightarrow> bool \<Rightarrow> (err, unit) result" where
  "checkpoint_policy require provided =
     (if require \<and> \<not> provided
      then Inl [''--require-checkpoint needs --checkpoint (sealing-set membership)''] else Inr ())"

definition link_ok :: "verified_block \<Rightarrow> bytes \<Rightarrow> bytes \<Rightarrow> nat \<Rightarrow> (err, unit) result" where
  "link_ok prev hash parent number =
     (let want = wrap64 (vb_number prev + 1) in
      if number \<noteq> want then Inl [''non-consecutive header '' @ show_nat number @ '' after '' @ show_nat want]
      else if parent \<noteq> vb_hash prev then Inl [''parent_hash mismatch at '' @ show_nat number]
      else Inr ())"

text \<open>\<open>chain.last().or(prev)\<close>\<close>

definition link_prev :: "verified_block list \<Rightarrow> verified_block option \<Rightarrow> verified_block option" where
  "link_prev chain prev = (if chain = [] then prev else Some (last chain))"

definition cascade_vs ::
    "('pk, 'sg) ext \<Rightarrow> rpc_block_header option \<Rightarrow> verified_block option \<Rightarrow> rpc_block_header \<Rightarrow> (err, unit) result" where
  "cascade_vs X parent_header prev h =
     (case parent_header of
        Some ph \<Rightarrow>
          rbind (seal_res (milli_timestamp X ph)) (\<lambda>p_milli.
          rbind (types_res (decode_u64 (h_gas_limit ph))) (\<lambda>p_gas.
            context_res (''cascading '' @ h_number h) (seal_res (verify_cascading_vs_parent X p_milli p_gas h))))
      | None \<Rightarrow>
          (case prev of
             Some p \<Rightarrow>
               context_res (''cascading '' @ h_number h)
                 (seal_res (verify_cascading_vs_parent X (vb_milli_timestamp p) (vb_gas_limit p) h))
           | None \<Rightarrow> Inr ()))"

definition block_fields ::
    "('pk, 'sg) ext \<Rightarrow> rpc_block_header \<Rightarrow> nat \<Rightarrow> bytes \<Rightarrow> bytes \<Rightarrow> (err, verified_block) result" where
  "block_fields X h number hash miner =
     rbind (types_res (decode_hex_fixed X 32 (h_state_root h))) (\<lambda>state_root.
     rbind (seal_res (milli_timestamp X h)) (\<lambda>milli.
     rbind (types_res (decode_u64 (h_gas_limit h))) (\<lambda>gas.
       Inr \<lparr>vb_number = number, vb_hash = hash, vb_state_root = state_root, vb_miner = miner,
            vb_milli_timestamp = milli, vb_gas_limit = gas, vb_header = Some h\<rparr>)))"

definition verify_next ::
    "('pk, 'sg) ext \<Rightarrow> verified_block option \<Rightarrow> rpc_block_header option \<Rightarrow> verified_block list \<Rightarrow>
     nat \<Rightarrow> rpc_block_header \<Rightarrow> (err, verified_block) result" where
  "verify_next X prev parent_header chain now h =
     rbind (context_res (''seal '' @ h_number h) (seal_res (verify_seal_coinbase X now h))) (\<lambda>signer.
     rbind (types_res (decode_u64 (h_number h))) (\<lambda>number.
     rbind (types_res (decode_hex_fixed X 32 (h_hash h))) (\<lambda>hash.
     rbind (types_res (decode_hex_fixed X 32 (h_parent_hash h))) (\<lambda>parent.
     rbind (case link_prev chain prev of Some p \<Rightarrow> link_ok p hash parent number | None \<Rightarrow> Inr ()) (\<lambda>_.
     rbind (cascade_vs X parent_header prev h) (\<lambda>_.
       block_fields X h number hash signer))))))"

fun verify_chain_loop ::
    "('pk, 'sg) ext \<Rightarrow> verified_block option \<Rightarrow> rpc_block_header option \<Rightarrow> verified_block list \<Rightarrow>
     (nat \<times> rpc_block_header) list \<Rightarrow> (err, verified_block list) result" where
  "verify_chain_loop X prev parent_header chain [] = Inr chain"
| "verify_chain_loop X prev parent_header chain ((now, h) # hs) =
     rbind (verify_next X prev parent_header chain now h) (\<lambda>b.
       verify_chain_loop X prev (Some h) (chain @ [b]) hs)"

definition verify_header_chain_from ::
    "('pk, 'sg) ext \<Rightarrow> (nat \<times> rpc_block_header) list \<Rightarrow> verified_block option \<Rightarrow> (err, verified_block list) result" where
  "verify_header_chain_from X headers prev = verify_chain_loop X prev None [] headers"

definition verify_header_chain ::
    "('pk, 'sg) ext \<Rightarrow> (nat \<times> rpc_block_header) list \<Rightarrow> (err, verified_block list) result" where
  "verify_header_chain X headers = verify_header_chain_from X headers None"

definition walk_headers ::
    "('pk, 'sg) ext \<Rightarrow> upstream \<Rightarrow> nat \<Rightarrow> nat \<Rightarrow> (err, verified_block list) result" where
  "walk_headers X up from to = rbind (up_headers_range up from to) (verify_header_chain X)"

section \<open>Reorganisations\<close>

definition LINK_ERR_PHRASES :: "string list" where
  "LINK_ERR_PHRASES =
     [''parent_hash mismatch'', ''non-consecutive header'', ''parent hash mismatch'', ''does not follow parent'']"

definition is_link_err :: "err \<Rightarrow> bool" where
  "is_link_err e \<longleftrightarrow> (\<exists>cause \<in> set e. \<exists>p \<in> set LINK_ERR_PHRASES. str_contains (to_ascii_lowercase cause) p)"

definition reorg_within_depth :: "verified_block list \<Rightarrow> verified_block list \<Rightarrow> nat \<Rightarrow> bool" where
  "reorg_within_depth old new depth \<longleftrightarrow>
     (if old = [] \<or> new = [] then True
      else
        let min_n = sat_sub (vb_number (last old)) depth in
        \<exists>b \<in> set (takeWhile (\<lambda>b. min_n \<le> vb_number b) (rev old)).
          \<exists>n \<in> set new. vb_hash n = vb_hash b \<and> vb_number n = vb_number b)"

definition accept_lookback_resync ::
    "verified_block list \<Rightarrow> verified_block list \<Rightarrow> (err, verified_block list) result" where
  "accept_lookback_resync old new =
     (if reorg_within_depth old new max_reorg_depth then Inr new
      else Inl [''reorg deeper than '' @ show_nat max_reorg_depth @ '' blocks '' @ em_dash @
                '' fail-closed (pass --checkpoint)''])"

section \<open>Appending\<close>

text \<open>The chain and the snapshot, which a failing operation may have advanced.\<close>

type_synonym sync_state = "verified_block list \<times> snapshot option"

definition snapshot_block ::
    "('pk, 'sg) ext \<Rightarrow> verified_block list \<Rightarrow> rpc_block_header \<Rightarrow> (err, verified_block) result" where
  "snapshot_block X chain h =
     rbind (if chain = [] then Inr ()
            else context_res (''cascading '' @ h_number h)
              (seal_res (verify_cascading_vs_parent X (vb_milli_timestamp (last chain)) (vb_gas_limit (last chain)) h))) (\<lambda>_.
     rbind (types_res (decode_u64 (h_number h))) (\<lambda>number.
     rbind (types_res (decode_hex_fixed X 32 (h_hash h))) (\<lambda>hash.
       block_fields X h number hash (zeros 20))))"

fun append_loop ::
    "('pk, 'sg) ext \<Rightarrow> (nat \<times> rpc_block_header) list \<Rightarrow> verified_block list \<Rightarrow> snapshot \<Rightarrow>
     (err, unit) result \<times> verified_block list \<times> snapshot" where
  "append_loop X [] chain snap = (Inr (), chain, snap)"
| "append_loop X ((now, h) # hs) chain snap =
     (case snapshot_block X chain h of
        Inl e \<Rightarrow> (Inl e, chain, snap)
      | Inr block \<Rightarrow>
          (case apply_header X now h snap of
             (Inl e, snap') \<Rightarrow> (Inl [''snapshot '' @ h_number h, show_snapshot_error e], chain, snap')
           | (Inr signer, snap') \<Rightarrow> append_loop X hs (chain @ [block\<lparr>vb_miner := signer\<rparr>]) snap'))"

definition trim_chain :: "verified_block list \<Rightarrow> verified_block list" where
  "trim_chain chain = (if KEEP < length chain then drop (length chain - KEEP) chain else chain)"

definition chain_tip :: "verified_block list \<Rightarrow> nat" where
  "chain_tip chain = (if chain = [] then 0 else vb_number (last chain))"

definition append_new_with_snapshot ::
    "('pk, 'sg) ext \<Rightarrow> upstream \<Rightarrow> nat \<Rightarrow> sync_state \<Rightarrow> (err, unit) result \<times> sync_state" where
  "append_new_with_snapshot X up new_tip st =
     (let chain = fst st; last_n = chain_tip chain in
      if new_tip \<le> last_n then (Inr (), st)
      else
        case up_headers_range up (wrap64 (last_n + 1)) new_tip of
          Inl e \<Rightarrow> (Inl e, st)
        | Inr headers \<Rightarrow>
            (case snd st of
               Some snap \<Rightarrow>
                 (case append_loop X headers chain snap of
                    (Inl e, chain', snap') \<Rightarrow> (Inl e, chain', Some snap')
                  | (Inr _, chain', snap') \<Rightarrow> (Inr (), trim_chain chain', Some snap'))
             | None \<Rightarrow>
                 (case verify_header_chain_from X headers (link_prev chain None) of
                    Inl e \<Rightarrow> (Inl e, st)
                  | Inr extra \<Rightarrow> (Inr (), trim_chain (chain @ extra), None))))"

definition append_new ::
    "('pk, 'sg) ext \<Rightarrow> upstream \<Rightarrow> nat \<Rightarrow> verified_block list \<Rightarrow> (err, unit) result \<times> verified_block list" where
  "append_new X up new_tip chain =
     (case append_new_with_snapshot X up new_tip (chain, None) of (r, chain', _) \<Rightarrow> (r, chain'))"

section \<open>Catching up\<close>

definition lookback_from :: "nat \<Rightarrow> nat \<Rightarrow> nat" where
  "lookback_from tip lookback = sat_sub tip (sat_sub lookback 1)"

text \<open>\<open>ups k\<close> is the upstream as it answers the \<open>k\<close>-th attempt to fetch headers: repeating a question may
  give another answer.\<close>

definition catch_up ::
    "('pk, 'sg) ext \<Rightarrow> (nat \<Rightarrow> upstream) \<Rightarrow> nat \<Rightarrow> nat \<Rightarrow> sync_state \<Rightarrow> (err, nat) result \<times> sync_state" where
  "catch_up X ups lookback max_sync st =
     (case context_res ''eth_blockNumber catch-up'' (up_block_number (ups 0)) of
        Inl e \<Rightarrow> (Inl e, st)
      | Inr tip \<Rightarrow>
          let chain = fst st; last_n = chain_tip chain in
          if snd st \<noteq> None then
            if sat_add last_n max_sync < tip then
              (Inl [''tip jumped '' @ show_nat (sat_sub tip last_n) @
                    '' blocks during walk; pass a fresh --checkpoint (max-sync '' @ show_nat max_sync @ '')''], st)
            else
              (case append_new_with_snapshot X (ups 0) tip st of (r, st') \<Rightarrow> (map_ok (\<lambda>_. tip) r, st'))
          else if sat_add last_n lookback < tip \<or> length chain < 16 then
            (case walk_headers X (ups 0) (lookback_from tip lookback) tip of
               Inl e \<Rightarrow> (Inl e, st)
             | Inr walked \<Rightarrow> (Inr tip, walked, None))
          else
            (case append_new X (ups 0) tip chain of
               (Inr _, chain') \<Rightarrow> (Inr tip, chain', None)
             | (Inl e, chain') \<Rightarrow>
                 if is_link_err e then
                   (case rbind (walk_headers X (ups 1) (lookback_from tip lookback) tip) (accept_lookback_resync chain') of
                      Inl e \<Rightarrow> (Inl e, chain', None)
                    | Inr walked \<Rightarrow> (Inr tip, walked, None))
                 else (Inl e, chain', None)))"

section \<open>Heads\<close>

definition safe_of :: "('pk, 'sg) ext \<Rightarrow> verified_block list \<Rightarrow> (err, safe_head) result" where
  "safe_of X chain =
     (case newest_safe X chain mainnet_n_seal of
        None \<Rightarrow> Inl [''no Safe head in lookback'']
      | Some safe \<Rightarrow> Inr safe)"

definition fast_finality_head ::
    "('pk, 'sg) ext \<Rightarrow> verified_block list \<Rightarrow> snapshot option \<Rightarrow> safe_head \<Rightarrow> safe_head" where
  "fast_finality_head X chain snap conf_safe =
     (case Option.bind snap finalized of
        None \<Rightarrow> conf_safe
      | Some (number, hash) \<Rightarrow>
          if number \<le> sh_number conf_safe then conf_safe
          else case find (\<lambda>b. vb_number b = number \<and> vb_hash b = hash) chain of
            None \<Rightarrow> conf_safe
          | Some block \<Rightarrow>
              \<lparr>sh_number = vb_number block, sh_hash = hex0x X (vb_hash block),
               sh_state_root = hex0x X (vb_state_root block),
               sh_distinct_sealers = sh_distinct_sealers conf_safe,
               sh_required_sealers = sh_required_sealers conf_safe\<rparr>)"

text \<open>
  One iteration per observation: the answers of the upstream and whether the deadline has
  passed when it is looked at. The result is \<open>None\<close> while no observation ends the loop.
\<close>

fun wait_until_in_window_with ::
    "('pk, 'sg) ext \<Rightarrow> nat \<Rightarrow> nat \<Rightarrow> nat \<Rightarrow> bool \<Rightarrow> ((nat \<Rightarrow> upstream) \<times> bool) list \<Rightarrow> sync_state \<Rightarrow>
     (err, nat \<times> safe_head) result option \<times> sync_state" where
  "wait_until_in_window_with X lookback max_sync timeout_secs fast [] st = (None, st)"
| "wait_until_in_window_with X lookback max_sync timeout_secs fast ((ups, expired) # obs) st =
     (case catch_up X ups lookback max_sync st of
        (Inl e, st') \<Rightarrow> (Some (Inl e), st')
      | (Inr tip, st') \<Rightarrow>
          (case safe_of X (fst st') of
             Inl e \<Rightarrow> (Some (Inl e), st')
           | Inr conf_safe \<Rightarrow>
               let safe = (if fast then fast_finality_head X (fst st') (snd st') conf_safe else conf_safe);
                   lag = proof_lag tip (sh_number safe)
               in if lag \<le> PROVIDER_PROOF_LOOKBACK then (Some (Inr (tip, safe)), st')
                  else if expired then
                    (Some (Inl [''Safe lag '' @ show_nat lag @ '' > proof window '' @
                       show_nat PROVIDER_PROOF_LOOKBACK @ '' after '' @ show_nat timeout_secs @ ''s '' @ em_dash @
                       '' swap RPC key'']), st')
                  else wait_until_in_window_with X lookback max_sync timeout_secs fast obs st'))"

definition wait_until_in_window ::
    "('pk, 'sg) ext \<Rightarrow> nat \<Rightarrow> nat \<Rightarrow> nat \<Rightarrow> ((nat \<Rightarrow> upstream) \<times> bool) list \<Rightarrow> sync_state \<Rightarrow>
     (err, nat \<times> safe_head) result option \<times> sync_state" where
  "wait_until_in_window X lookback max_sync timeout_secs obs st =
     wait_until_in_window_with X lookback max_sync timeout_secs False obs st"

section \<open>Bootstrap from a checkpoint\<close>

fun apply_seed :: "nat \<Rightarrow> epoch_seed \<Rightarrow> snapshot \<Rightarrow> (err, snapshot) result" where
  "apply_seed checkpoint_number (SeedActive _ turn_length) snap =
     (case seed_turn_length turn_length snap of
        (Inl e, _) \<Rightarrow> Inl [show_snapshot_error e]
      | (Inr _, snap') \<Rightarrow> Inr snap')"
| "apply_seed checkpoint_number (SeedPendingActivation epoch_block activate_at) snap =
     Inl [''checkpoint '' @ show_nat checkpoint_number @ '' sits inside epoch '' @ show_nat epoch_block @
          [CHR 0x27] @ ''s activation window '' @ em_dash @ '' the sealing set announced at '' @ show_nat epoch_block @
          '' takes effect at '' @ show_nat activate_at @
          '', which this client would miss. Use a checkpoint at block '' @ show_nat (sat_sub epoch_block 1) @
          '' or at or above '' @ show_nat activate_at @ ''.'']"

definition seed_epoch_state ::
    "('pk, 'sg) ext \<Rightarrow> upstream \<Rightarrow> nat \<Rightarrow> snapshot \<Rightarrow> (err, snapshot) result" where
  "seed_epoch_state X up checkpoint_number snap =
     (let epoch_length = sn_epoch_length snap in
      if epoch_length = 0 then Inr snap
      else
        let epoch_block = checkpoint_number div epoch_length * epoch_length in
        if epoch_block < epoch_length then Inr snap
        else
          let prev_block = epoch_block - epoch_length in
          rbind (context_res (''epoch header '' @ show_nat epoch_block @ '' (checkpoint turnLength)'')
                  (up_header_by_number up epoch_block)) (\<lambda>(_, epoch_header).
          rbind (context_res (''epoch header '' @ show_nat prev_block @ '' (checkpoint turnLength)'')
                  (up_header_by_number up prev_block)) (\<lambda>(_, prev_header).
          rbind (snapshot_res (epoch_seed_at X checkpoint_number epoch_length epoch_header prev_header)) (\<lambda>seed.
            apply_seed checkpoint_number seed snap))))"

definition walk_engine ::
    "('pk, 'sg) ext \<Rightarrow> upstream \<Rightarrow> nat \<Rightarrow> engine \<Rightarrow> (err, verified_block list \<times> snapshot) result" where
  "walk_engine X up to engine =
     (if tip_number engine < to then
        rbind (up_headers_range up (wrap64 (tip_number engine + 1)) to) (\<lambda>headers.
          case apply_headers X headers engine of
            (Inl e, _) \<Rightarrow> Inl [show_consensus_error e]
          | (Inr _, engine') \<Rightarrow> Inr (eg_chain engine', eg_snapshot engine'))
      else Inr (eg_chain engine, eg_snapshot engine))"

definition walk_from_checkpoint_inturn ::
    "('pk, 'sg) ext \<Rightarrow> upstream \<Rightarrow> checkpoint \<Rightarrow> nat \<Rightarrow> nat \<Rightarrow> bool \<Rightarrow> (err, verified_block list \<times> snapshot) result" where
  "walk_from_checkpoint_inturn X up cp to max_sync enforce_inturn =
     (let lag = sat_sub to (cp_number cp) in
      if max_sync < lag then Inl [show_consensus_error (CheckpointTooFar lag max_sync)]
      else
        rbind (up_header_by_number up (cp_number cp)) (\<lambda>(now, header).
        rbind (consensus_res (engine_from_checkpoint_and_header X now cp header)) (\<lambda>engine.
        let snap = (eg_snapshot engine)\<lparr>sn_enforce_inturn := enforce_inturn\<rparr> in
        rbind (if enforce_inturn then seed_epoch_state X up (cp_number cp) snap else Inr snap) (\<lambda>seeded.
          walk_engine X up to (engine\<lparr>eg_snapshot := seeded\<rparr>)))))"

definition walk_from_checkpoint ::
    "('pk, 'sg) ext \<Rightarrow> upstream \<Rightarrow> checkpoint \<Rightarrow> nat \<Rightarrow> nat \<Rightarrow> (err, verified_block list \<times> snapshot) result" where
  "walk_from_checkpoint X up cp to max_sync = walk_from_checkpoint_inturn X up cp to max_sync True"

definition confirm_checkpoint_with_oracle ::
    "('pk, 'sg) ext \<Rightarrow> checkpoint \<Rightarrow> upstream \<Rightarrow> (err, unit) result" where
  "confirm_checkpoint_with_oracle X cp oracle =
     rbind (context_res ''checkpoint oracle eth_getBlockByNumber'' (up_header_by_number oracle (cp_number cp))) (\<lambda>(_, by_number).
     rbind (context_res ''checkpoint oracle (by number)'' (consensus_res (header_matches_checkpoint X cp by_number))) (\<lambda>_.
     rbind (context_res ''checkpoint oracle eth_getBlockByHash'' (up_header_by_hash oracle (cp_hash cp))) (\<lambda>by_hash.
       context_res ''checkpoint oracle (by hash)'' (consensus_res (header_matches_checkpoint X cp by_hash)))))"

section \<open>The synchronisation invariant\<close>

text \<open>A block on top of its predecessor: linked, sealed and consecutive.\<close>

definition follows :: "('pk, 'sg) ext \<Rightarrow> verified_block \<Rightarrow> verified_block \<Rightarrow> bool" where
  "follows X b c \<longleftrightarrow> block_link X b c \<and> vb_number c = wrap64 (vb_number b + 1)"

abbreviation chain_ok :: "('pk, 'sg) ext \<Rightarrow> verified_block list \<Rightarrow> bool" where
  "chain_ok X chain \<equiv> successively (follows X) chain"

text \<open>With a snapshot, the numbers also increase and the chain ends at the snapshot's head.\<close>

definition sync_inv :: "('pk, 'sg) ext \<Rightarrow> sync_state \<Rightarrow> bool" where
  "sync_inv X st \<longleftrightarrow>
     chain_ok X (fst st) \<and>
     (case snd st of
        None \<Rightarrow> True
      | Some s \<Rightarrow> snapshot_inv s \<and> sorted_wrt (<) (map vb_number (fst st)) \<and> fst st \<noteq> [] \<and> vb_number (last (fst st)) = sn_number s \<and> vb_hash (last (fst st)) = sn_hash s)"

fun opt_list :: "'a option \<Rightarrow> 'a list" where
  "opt_list None = []"
| "opt_list (Some x) = [x]"

lemma sync_res_iffs [res_simps]:
  "context_res c m = Inr a \<longleftrightarrow> m = Inr a" "seal_res m' = Inr a' \<longleftrightarrow> m' = Inr a'"
  "types_res m'' = Inr a'' \<longleftrightarrow> m'' = Inr a''" "snapshot_res n = Inr b \<longleftrightarrow> n = Inr b" "consensus_res n' = Inr b' \<longleftrightarrow> n' = Inr b'"
  by (simp_all add: context_res_def seal_res_def types_res_def snapshot_res_def consensus_res_def res_simps)

lemma block_fields_Inr:
  assumes "block_fields X h number hash miner = Inr b"
  shows "vb_number b = number" "vb_hash b = hash" "vb_miner b = miner" "vb_header b = Some h"
    "decode_hex_fixed X 32 (h_state_root h) = Inr (vb_state_root b)"
  using assms by (auto simp: block_fields_def res_simps)

lemma verify_next_follows:
  assumes "verify_next X prev ph chain now h = Inr b" "link_prev chain prev = Some p"
  shows "follows X p b"
proof -
  obtain signer hash number where s: "verify_seal_coinbase X now h = Inr signer"
    and d: "decode_u64 (h_number h) = Inr number" "decode_hex_fixed X 32 (h_hash h) = Inr hash"
    and l: "\<exists>parent. decode_hex_fixed X 32 (h_parent_hash h) = Inr parent \<and> link_ok p hash parent number = Inr ()"
    and f: "block_fields X h number hash signer = Inr b"
    using assms by (auto simp: verify_next_def res_simps)
  have "header_hash X h = Inr hash" using verify_seal_coinbase_Inr(4) [OF s] d(2) by auto
  moreover have "decode_hex_fixed X 32 (h_parent_hash h) = Inr (vb_hash p)" "number = wrap64 (vb_number p + 1)"
    using l by (auto simp: link_ok_def Let_def split: if_splits)
  ultimately show ?thesis
    using block_fields_Inr [OF f] verify_seal_coinbase_Inr(2) [OF s] d(1) by (simp add: follows_def block_link_def)
qed

lemma verify_chain_loop_ok:
  assumes "verify_chain_loop X prev ph chain hs = Inr chain'" "chain_ok X (opt_list prev @ chain)"
  shows "chain_ok X (opt_list prev @ chain')"
  using assms
proof (induction hs arbitrary: ph chain)
  case (Cons i hs)
  obtain now h where i: "i = (now, h)" by (cases i)
  obtain b where b: "verify_next X prev ph chain now h = Inr b" "verify_chain_loop X prev (Some h) (chain @ [b]) hs = Inr chain'"
    using Cons.prems(1) by (auto simp: i res_simps)
  have "chain_ok X (opt_list prev @ chain @ [b])"
  proof (cases "opt_list prev @ chain = []")
    case False
    then obtain p where p: "link_prev chain prev = Some p" "last (opt_list prev @ chain) = p"
      by (cases prev; cases "chain = []") (auto simp: link_prev_def)
    have "follows X p b" using verify_next_follows [OF b(1) p(1)] .
    then show ?thesis
      using Cons.prems(2) False p(2) successively_append_iff [of "follows X" "opt_list prev @ chain" "[b]"] by simp
  qed auto
  then show ?case using Cons.IH [OF b(2)] by simp
qed simp

lemma verify_from_ok:
  "verify_header_chain_from X hs prev = Inr chain \<Longrightarrow> chain_ok X (opt_list prev @ chain)"
  unfolding verify_header_chain_from_def using verify_chain_loop_ok [of X prev None "[]" hs chain]
  by (cases prev) auto

lemma walk_headers_ok: "walk_headers X up a b = Inr chain \<Longrightarrow> chain_ok X chain"
  using verify_from_ok [of X _ None chain] by (auto simp: walk_headers_def verify_header_chain_def res_simps)

lemma sorted_last_max:
  assumes "sorted_wrt (<) (map vb_number chain)" "b \<in> set chain"
  shows "vb_number b \<le> vb_number (last chain)"
  using assms by (induction chain rule: rev_induct) (auto simp: sorted_wrt_append)

lemma sync_inv_append:
  assumes "sync_inv X (chain, Some snap)" "snapshot_block X chain h = Inr block"
    and ap: "apply_header X now h snap = (Inr signer, snap')" and n: "sn_number snap < u64_max"
  shows "sync_inv X (chain @ [block\<lparr>vb_miner := signer\<rparr>], Some snap')"
proof -
  let ?b = "block\<lparr>vb_miner := signer\<rparr>"
  have i: "chain_ok X chain" "snapshot_inv snap" "chain \<noteq> []" "vb_number (last chain) = sn_number snap" "vb_hash (last chain) = sn_hash snap"
    "sorted_wrt (<) (map vb_number chain)"
    using assms(1) by (simp_all add: sync_inv_def)
  note head = accepted_head [OF ap]
  obtain number hash where b: "decode_u64 (h_number h) = Inr number" "decode_hex_fixed X 32 (h_hash h) = Inr hash"
    "block_fields X h number hash (zeros 20) = Inr block"
    using assms(2) by (auto simp: snapshot_block_def res_simps)
  obtain "verify_seal_coinbase X now h = Inr signer" using ap by (rule apply_header_Inr)
  note seal = verify_seal_coinbase_Inr [OF this]
  note f = block_fields_Inr [OF b(3)]
  have hash: "hash = sn_hash snap'" "header_hash X h = Inr hash" "number = next_number snap"
    using head b seal(4) by auto
  have "follows X (last chain) ?b"
    using hash f head(3) i seal(2) b(1) by (simp add: follows_def block_link_def next_number_def)
  then have "chain_ok X (chain @ [?b])" using i by (simp add: successively_append_iff)
  moreover have "snapshot_inv snap'" using apply_header_inv [OF i(2) n, of X now h] ap by simp
  moreover have "vb_number b \<le> sn_number snap" if "b \<in> set chain" for b
    using sorted_last_max [OF i(6) that] i(4) by simp
  ultimately show ?thesis
    using hash f head(1) i(6) next_number_eq [OF n] by (auto simp: sync_inv_def sorted_wrt_append less_Suc_eq_le)
qed

lemma sync_inv_reject:
  assumes "sync_inv X (chain, Some snap)" "apply_header X now h snap = (Inl e, snap')" "sn_number snap < u64_max"
  shows "sync_inv X (chain, Some snap')"
  using assms apply_header_Inl_same [OF assms(2)] apply_header_inv [of snap X now h] by (simp add: sync_inv_def)

lemma append_loop_inv:
  assumes "append_loop X hs chain snap = (r, chain', snap')" "sync_inv X (chain, Some snap)"
    and "sn_number snap + length hs \<le> u64_max"
  shows "sync_inv X (chain', Some snap') \<and> sn_number snap' \<le> sn_number snap + length hs"
  using assms
proof (induction hs arbitrary: chain snap)
  case (Cons i hs)
  obtain now h where i: "i = (now, h)" by (cases i)
  show ?case
  proof (cases "snapshot_block X chain h")
    case (Inl e)
    then show ?thesis using Cons.prems by (simp add: i)
  next
    case block: (Inr block)
    obtain res snap1 where ap: "apply_header X now h snap = (res, snap1)" by (cases "apply_header X now h snap")
    have n: "sn_number snap < u64_max" using Cons.prems(3) by simp
    show ?thesis
    proof (cases res)
      case (Inl e)
      then show ?thesis
        using Cons.prems block ap sync_inv_reject [OF Cons.prems(2) _ n] apply_header_Inl_same(1) by (fastforce simp: i)
    next
      case (Inr signer)
      have inv: "sync_inv X (chain @ [block\<lparr>vb_miner := signer\<rparr>], Some snap1)"
        using sync_inv_append [OF Cons.prems(2) block _ n] ap Inr by simp
      have sn: "sn_number snap1 = Suc (sn_number snap)"
        using accepted_head(1) [of X now h snap signer snap1] ap Inr next_number_eq [OF n] by simp
      then show ?thesis
        using Cons.IH [OF _ inv] Cons.prems block ap Inr by (simp add: i)
    qed
  qed
qed simp

lemma successively_drop: "successively P xs \<Longrightarrow> successively P (drop n xs)"
  by (metis append_take_drop_id successively_append_iff)

lemma trim_chain_facts:
  "chain_ok X chain \<Longrightarrow> chain_ok X (trim_chain chain)" "trim_chain chain = [] \<longleftrightarrow> chain = []"
  "chain \<noteq> [] \<Longrightarrow> last (trim_chain chain) = last chain" "set (trim_chain chain) \<subseteq> set chain" "length (trim_chain chain) \<le> KEEP"
proof -
  have k: "0 < KEEP" by (simp add: KEEP_def)
  show "chain_ok X chain \<Longrightarrow> chain_ok X (trim_chain chain)" by (simp add: trim_chain_def successively_drop)
  show "trim_chain chain = [] \<longleftrightarrow> chain = []" using k by (auto simp: trim_chain_def)
  show "chain \<noteq> [] \<Longrightarrow> last (trim_chain chain) = last chain" using k by (auto simp: trim_chain_def)
  show "set (trim_chain chain) \<subseteq> set chain" by (auto simp: trim_chain_def dest: in_set_dropD)
  show "length (trim_chain chain) \<le> KEEP" by (simp add: trim_chain_def)
qed

lemma sync_inv_trim: "sync_inv X (chain, sn) \<Longrightarrow> sync_inv X (trim_chain chain, sn)"
  using trim_chain_facts(1) [of X chain] trim_chain_facts(2,3) [of chain]
  by (auto simp: sync_inv_def trim_chain_def drop_map [symmetric] sorted_wrt_drop split: option.splits)

text \<open>How many headers one answer may carry, and the height a state has reached.\<close>

definition serves_at_most :: "nat \<Rightarrow> upstream \<Rightarrow> bool" where
  "serves_at_most k up \<longleftrightarrow> (\<forall>a b hs. up_headers_range up a b = Inr hs \<longrightarrow> length hs \<le> k)"

definition height :: "sync_state \<Rightarrow> nat" where
  "height st = (case snd st of None \<Rightarrow> 0 | Some s \<Rightarrow> sn_number s)"

lemma append_cases:
  assumes "append_new_with_snapshot X up tip (chain, sn) = (r, st')"
  obtains (skip) "st' = (chain, sn)"
  | (snap) hs s res chain' s' where "up_headers_range up (wrap64 (chain_tip chain + 1)) tip = Inr hs"
      "sn = Some s" "append_loop X hs chain s = (res, chain', s')"
      "(case res of Inl e \<Rightarrow> r = Inl e \<and> st' = (chain', Some s') | Inr _ \<Rightarrow> r = Inr () \<and> st' = (trim_chain chain', Some s'))"
  | (plain) hs extra where "sn = None" "verify_header_chain_from X hs (link_prev chain None) = Inr extra"
      "st' = (trim_chain (chain @ extra), None)" "r = Inr ()"
proof (cases "tip \<le> chain_tip chain")
  case True
  then show thesis using assms skip by (simp add: append_new_with_snapshot_def)
next
  case False
  show thesis
  proof (cases "up_headers_range up (wrap64 (chain_tip chain + 1)) tip")
    case (Inl e)
    then show thesis using assms skip False by (simp add: append_new_with_snapshot_def)
  next
    case hs: (Inr hs)
    show thesis
    proof (cases sn)
      case None
      then show thesis using assms skip plain False hs
        by (cases "verify_header_chain_from X hs (link_prev chain None)") (simp_all add: append_new_with_snapshot_def)
    next
      case (Some s)
      obtain res chain' s' where l: "append_loop X hs chain s = (res, chain', s')" by (cases "append_loop X hs chain s")
      then show thesis using assms snap [OF hs Some l] False hs Some
        by (cases res) (simp_all add: append_new_with_snapshot_def)
    qed
  qed
qed

lemma extend_ok:
  assumes "verify_header_chain_from X hs (link_prev chain None) = Inr extra" "chain_ok X chain"
  shows "chain_ok X (chain @ extra)"
  using verify_from_ok [OF assms(1)] assms(2)
  by (cases "chain = []") (auto simp: link_prev_def successively_append_iff successively_Cons)

lemma append_new_with_snapshot_inv:
  assumes "sync_inv X st" "serves_at_most k up" "height st + k \<le> u64_max"
    and "append_new_with_snapshot X up tip st = (r, st')"
  shows "sync_inv X st' \<and> height st' \<le> height st + k \<and> (snd st' = None \<longleftrightarrow> snd st = None)"
proof -
  obtain chain sn where st: "st = (chain, sn)" by (cases st)
  from assms(4) [unfolded st] show ?thesis
  proof (cases rule: append_cases)
    case skip
    then show ?thesis using assms(1) st by simp
  next
    case (snap hs s res chain' s')
    then have k: "length hs \<le> k" using assms(2) by (auto simp: serves_at_most_def)
    have i: "sync_inv X (chain', Some s')" "sn_number s' \<le> sn_number s + length hs"
      using append_loop_inv [OF snap(3)] assms(1,3) snap(2) k by (simp_all add: st height_def)
    have "st' = (chain', Some s') \<or> st' = (trim_chain chain', Some s')" using snap(4) by (cases res) auto
    then show ?thesis using i k snap(2) sync_inv_trim [OF i(1)] by (auto simp: height_def st)
  next
    case (plain hs extra)
    then show ?thesis
      using extend_ok [OF plain(2)] assms(1) trim_chain_facts(1) by (simp add: st sync_inv_def height_def)
  qed
qed

lemma append_new_ok:
  assumes "append_new X up tip chain = (r, chain')" "chain_ok X chain"
  shows "chain_ok X chain'"
proof -
  obtain sn where a: "append_new_with_snapshot X up tip (chain, None) = (r, chain', sn)"
    using assms(1) by (auto simp: append_new_def split: prod.splits)
  then show ?thesis
  proof (cases rule: append_cases)
    case (plain hs extra)
    then show ?thesis using trim_chain_facts(1) [OF extend_ok [OF plain(2) assms(2)]] by simp
  qed (use assms(2) in simp_all)
qed

lemma accept_resync: "accept_lookback_resync old new = Inr chain \<Longrightarrow> chain = new"
  by (auto simp: accept_lookback_resync_def split: if_splits)

text \<open>Catching up keeps the invariant, whatever the upstream answers and whether or not it succeeds.\<close>

lemma catch_up_inv:
  assumes "sync_inv X st" "\<And>i. serves_at_most k (ups i)" "height st + k \<le> u64_max"
    and cu: "catch_up X ups lookback max_sync st = (r, st')"
  shows "sync_inv X st' \<and> height st' \<le> height st + k \<and> (snd st' = None \<longleftrightarrow> snd st = None)"
proof (cases "up_block_number (ups 0)")
  case (Inl e)
  then show ?thesis using cu assms(1) by (simp add: catch_up_def context_res_def)
next
  case tip: (Inr tip)
  show ?thesis
  proof (cases "snd st")
    case (Some s)
    then show ?thesis
      using cu tip assms(1) append_new_with_snapshot_inv [OF assms(1,2,3)]
      by (auto simp: catch_up_def context_res_def Let_def split: if_splits prod.splits)
  next
    case None
    then have c: "chain_ok X (fst st)" using assms(1) by (simp add: sync_inv_def)
    obtain res ch where a: "append_new X (ups 0) tip (fst st) = (res, ch)" by (cases "append_new X (ups 0) tip (fst st)")
    have ch: "chain_ok X ch" using append_new_ok [OF a c] .
    have "chain_ok X (fst st') \<and> snd st' = None"
      using cu tip None c ch a
      by (cases res) (auto simp: catch_up_def context_res_def Let_def res_simps
          dest!: accept_resync walk_headers_ok split: if_splits sum.splits)
    then show ?thesis using None by (simp add: sync_inv_def height_def)
  qed
qed

lemma wait_inv:
  assumes "sync_inv X st" "\<forall>(ups, x) \<in> set obs. \<forall>i. serves_at_most k (ups i)" "height st + k * length obs \<le> u64_max"
    and "wait_until_in_window_with X lookback max_sync timeout fast obs st = (r, st')"
  shows "sync_inv X st' \<and> height st' \<le> height st + k * length obs"
  using assms
proof (induction obs arbitrary: st)
  case (Cons o1 obs)
  obtain ups x where o1: "o1 = (ups, x)" by (cases o1)
  obtain res st1 where cu: "catch_up X ups lookback max_sync st = (res, st1)" by (cases "catch_up X ups lookback max_sync st")
  have i: "sync_inv X st1" "height st1 \<le> height st + k"
    using catch_up_inv [OF Cons.prems(1) _ _ cu, of k] Cons.prems(2,3) by (auto simp: o1)
  have IH: "sync_inv X st' \<and> height st' \<le> height st1 + k * length obs"
    if "wait_until_in_window_with X lookback max_sync timeout fast obs st1 = (r, st')"
    using Cons.IH [OF i(1)] that Cons.prems(2,3) i(2) by auto
  show ?case
    using Cons.prems(4) cu i IH by (auto simp: o1 Let_def split: sum.splits if_splits)
qed simp

section \<open>Bootstrap establishes the invariant\<close>

lemma engine_sync_inv:
  assumes "engine_inv X e" "tip_number e \<le> u64_max"
  shows "sync_inv X (eg_chain e, Some (eg_snapshot e))"
proof -
  let ?c = "eg_chain e" and ?n = "sn_number (eg_snapshot e)"
  have e: "?c \<noteq> []" "map vb_number ?c = [Suc ?n - length ?c ..< Suc ?n]" "length ?c \<le> Suc ?n"
    "\<forall>i. Suc i < length ?c \<longrightarrow> block_link X (?c ! i) (?c ! Suc i)" "snapshot_inv (eg_snapshot e)"
    "vb_hash (last ?c) = sn_hash (eg_snapshot e)"
    using assms(1) by (simp_all add: engine_inv_def Let_def)
  have nth: "vb_number (?c ! i) = Suc ?n - length ?c + i" if "i < length ?c" for i
    using e(2,3) that nth_map [OF that, of vb_number] by (simp del: upt_Suc)
  have "is_u64 (vb_number (?c ! i) + 1)" if "Suc i < length ?c" for i
    using nth [of i] that e(3) assms(2) by (simp add: is_u64_def tip_number_def)
  then have "chain_ok X ?c"
    using e(4) nth by (simp add: successively_conv_nth follows_def)
  moreover have "Suc n - l + (l - 1) = n" if "0 < l" "l \<le> Suc n" for n l :: nat using that by simp
  from this [of "length ?c" ?n] have "vb_number (?c ! (length ?c - 1)) = ?n"
    using nth [of "length ?c - 1"] e(1,3) by (metis One_nat_def Suc_pred length_greater_0_conv lessI)
  then have "vb_number (last ?c) = ?n" using last_conv_nth [OF e(1)] by metis
  moreover have "sorted_wrt (<) (map vb_number ?c)" unfolding e(2) by (rule sorted_wrt_upt)
  ultimately show ?thesis using e(1,5,6) by (simp add: sync_inv_def)
qed

lemma apply_headers_inv:
  assumes "apply_headers X hs e = (r, e')" "engine_inv X e" "tip_number e + length hs \<le> u64_max"
  shows "engine_inv X e' \<and> tip_number e' \<le> tip_number e + length hs"
  using assms
proof (induction hs arbitrary: e)
  case (Cons i hs)
  obtain now h where i: "i = (now, h)" by (cases i)
  obtain res e1 where a: "engine_apply_header X now h e = (res, e1)" by (cases "engine_apply_header X now h e")
  have inv: "engine_inv X e1" using engine_inv_apply_header [OF Cons.prems(2), of now h] Cons.prems(3) a by simp
  have tip: "tip_number e1 \<le> Suc (tip_number e)"
  proof (cases rule: engine_apply_header_cases [of X now h e])
    case (reject er s')
    then show ?thesis using a apply_header_Inl_same(1) [OF reject(1)] by (simp add: tip_number_def)
  next
    case (accept number signer s' b)
    have "sn_number (eg_snapshot e) < u64_max" using Cons.prems(3) by (simp add: tip_number_def)
    then show ?thesis using a accepted_head(1) [OF accept(2)] accept(11) next_number_eq
      by (auto simp: tip_number_def push_verified_def Let_def)
  qed (use a in auto)
  show ?case
    using Cons.IH [OF _ inv] Cons.prems(1,3) a inv tip by (cases res) (auto simp: i)
qed simp

lemma engine_from_header_inv:
  assumes "engine_from_checkpoint_and_header X now cp h = Inr e" "is_u64 (cp_number cp)"
  shows "engine_inv X e" "tip_number e = cp_number cp" "length (eg_chain e) = 1"
proof -
  obtain s hash b where s: "from_checkpoint X cp = Inr s" "decode_hex_fixed X 32 (cp_hash cp) = Inr hash"
    and e: "eg_snapshot e = s" "eg_chain e = [b]" "eg_safe e = None" and b: "vb_number b = cp_number cp" "vb_hash b = hash"
    using assms(1) by (auto simp: engine_from_checkpoint_and_header_def res_simps)
  have f: "sn_number s = cp_number cp" "sn_hash s = hash" using s by (auto elim!: from_checkpoint_Inr)
  then show "engine_inv X e"
    using from_checkpoint_inv [OF s(1) assms(2)] e b by (simp add: engine_inv_def newest_safe_def KEEP_def)
  show "tip_number e = cp_number cp" "length (eg_chain e) = 1" using e f by (simp_all add: tip_number_def)
qed

lemma seed_epoch_state_same:
  assumes "seed_epoch_state X up n s = Inr s'"
  shows "sn_number s' = sn_number s" "sn_hash s' = sn_hash s" "sn_validators s' = sn_validators s"
    "snapshot_inv s' = snapshot_inv s"
proof -
  have "\<exists>t r. seed_turn_length t s = (Inr r, s')" if "apply_seed n seed s = Inr s'" for seed
    using that by (cases seed) (auto split: prod.splits sum.splits)
  then have "s' = s \<or> (\<exists>t r. seed_turn_length t s = (Inr r, s'))"
    using assms by (auto simp: seed_epoch_state_def Let_def res_simps split: if_splits)
  then show "sn_number s' = sn_number s" "sn_hash s' = sn_hash s" "sn_validators s' = sn_validators s"
    "snapshot_inv s' = snapshot_inv s" using seed_turn_length_same by auto
qed

lemma engine_inv_reseed:
  assumes "engine_inv X e" "length (eg_chain e) = 1"
    and "sn_number s = sn_number (eg_snapshot e)" "sn_hash s = sn_hash (eg_snapshot e)" "snapshot_inv s"
  shows "engine_inv X (e\<lparr>eg_snapshot := s\<rparr>)"
  using assms by (simp add: engine_inv_def Let_def newest_safe_def)

lemma snapshot_inv_enforce: "snapshot_inv (s\<lparr>sn_enforce_inturn := b\<rparr>) = snapshot_inv s"
  by (simp add: snapshot_inv_def inv_defs)

lemma walk_from_checkpoint_inv:
  assumes "walk_from_checkpoint_inturn X up cp to max_sync enforce = Inr (chain, snap)"
    and "serves_at_most k up" "cp_number cp + k \<le> u64_max"
  shows "sync_inv X (chain, Some snap) \<and> sn_number snap \<le> cp_number cp + k"
proof -
  obtain now header e0 s1 where e0: "engine_from_checkpoint_and_header X now cp header = Inr e0"
    and s1: "(if enforce then seed_epoch_state X up (cp_number cp) ((eg_snapshot e0)\<lparr>sn_enforce_inturn := enforce\<rparr>)
        else Inr ((eg_snapshot e0)\<lparr>sn_enforce_inturn := enforce\<rparr>)) = Inr s1"
    and rest: "walk_engine X up to (e0\<lparr>eg_snapshot := s1\<rparr>) = Inr (chain, snap)"
    using assms(1) by (auto simp: walk_from_checkpoint_inturn_def Let_def res_simps)
  let ?e1 = "e0\<lparr>eg_snapshot := s1\<rparr>"
  have u: "is_u64 (cp_number cp)" using assms(3) by (simp add: is_u64_def)
  note i0 = engine_from_header_inv [OF e0 u]
  have s0: "snapshot_inv ((eg_snapshot e0)\<lparr>sn_enforce_inturn := enforce\<rparr>)"
    using i0(1) by (simp add: engine_inv_def Let_def snapshot_inv_enforce)
  have "sn_number s1 = sn_number (eg_snapshot e0)" "sn_hash s1 = sn_hash (eg_snapshot e0)" "snapshot_inv s1"
  proof (atomize (full), cases enforce)
    case True
    then have "seed_epoch_state X up (cp_number cp) ((eg_snapshot e0)\<lparr>sn_enforce_inturn := enforce\<rparr>) = Inr s1" using s1 by simp
    from seed_epoch_state_same [OF this] s0
    show "sn_number s1 = sn_number (eg_snapshot e0) \<and> sn_hash s1 = sn_hash (eg_snapshot e0) \<and> snapshot_inv s1" by simp
  qed (use s1 s0 in auto)
  then have i1: "engine_inv X ?e1" "tip_number ?e1 = cp_number cp"
    using engine_inv_reseed [OF i0(1,3)] i0(2) by (simp_all add: tip_number_def)
  show ?thesis
  proof (cases "tip_number ?e1 < to")
    case False
    then show ?thesis using rest engine_sync_inv [OF i1(1)] i1(2) assms(3) by (auto simp: walk_engine_def tip_number_def)
  next
    case True
    then obtain hs where hs0: "up_headers_range up (wrap64 (tip_number ?e1 + 1)) to = Inr hs"
      "(case apply_headers X hs ?e1 of (Inl e, _) \<Rightarrow> Inl [show_consensus_error e]
        | (Inr _, engine') \<Rightarrow> Inr (eg_chain engine', eg_snapshot engine')) = Inr (chain, snap)"
      using rest by (auto simp: walk_engine_def rbind_Inr_iff)
    obtain r e2 where ap: "apply_headers X hs ?e1 = (r, e2)" by (cases "apply_headers X hs ?e1")
    have "chain = eg_chain e2" "snap = eg_snapshot e2" using hs0(2) ap by (cases r; simp)+
    note hs = hs0(1) ap this
    have "length hs \<le> k" using assms(2) hs(1) unfolding serves_at_most_def by blast
    then have "engine_inv X e2" "tip_number e2 \<le> cp_number cp + k"
      using apply_headers_inv [OF hs(2) i1(1)] i1(2) assms(3) by auto
    moreover from this have "tip_number e2 \<le> u64_max" using assms(3) by (meson order_trans)
    ultimately show ?thesis using engine_sync_inv hs(3,4) by (simp add: tip_number_def)
  qed
qed

section \<open>Recognising a reorganisation\<close>

lemma phrase_facts: "\<forall>p \<in> set LINK_ERR_PHRASES. to_ascii_lowercase p = p \<and> set digit_chars \<inter> set p = {} \<and> CHR '' '' \<in> set p"
  by code_simp

lemma is_link_errI:
  assumes "t \<in> set e" "p \<in> set LINK_ERR_PHRASES" "t = a @ p @ b"
  shows "is_link_err e"
proof -
  have "str_contains (to_ascii_lowercase t) p" using assms phrase_facts str_contains_part by simp
  then show ?thesis using assms(1,2) by (auto simp: is_link_err_def)
qed

lemma link_ok_recognised:
  assumes "link_ok prev hash parent number = Inl e"
  shows "is_link_err e"
proof (cases "number = wrap64 (vb_number prev + 1)")
  case True
  then have "e = [''parent_hash mismatch at '' @ show_nat number]"
    using assms by (simp add: link_ok_def Let_def split: if_splits)
  then show ?thesis
    by (intro is_link_errI [of _ e "''parent_hash mismatch''" "[]" "'' at '' @ show_nat number"])
      (simp_all add: LINK_ERR_PHRASES_def)
next
  case False
  let ?t = "show_nat number @ '' after '' @ show_nat (wrap64 (vb_number prev + 1))"
  have "e = [''non-consecutive header '' @ ?t]" using assms False by (simp add: link_ok_def Let_def)
  then show ?thesis
    by (intro is_link_errI [of _ e "''non-consecutive header''" "[]" "'' '' @ ?t"]) (simp_all add: LINK_ERR_PHRASES_def)
qed

lemma snapshot_link_recognised:
  "is_link_err [c, show_snapshot_error ParentHashMismatch]"
  "is_link_err [c, show_snapshot_error (NumberMismatch want got)]"
proof -
  show "is_link_err [c, show_snapshot_error ParentHashMismatch]"
    by (intro is_link_errI [of _ _ "''parent hash mismatch''" "[]" "[]"]) (simp_all add: LINK_ERR_PHRASES_def)
  show "is_link_err [c, show_snapshot_error (NumberMismatch want got)]"
    by (intro is_link_errI [of _ _ "''does not follow parent''" "''header '' @ show_nat got @ '' ''" "'' '' @ show_nat want"])
      (simp_all add: LINK_ERR_PHRASES_def)
qed

text \<open>
  C7. A broken parent link is recognised as one, in both modes. With a snapshot, a well-formed,
  correctly signed header that does not carry the next number and the head's hash as its parent,
  but passes the timestamp and gas-limit checks against the local tip, which come first, is refused with an error that the
  reorganisation test recognises through the added context, and changes neither chain nor
  snapshot. Without one, every refusal by the link check is recognised.
\<close>

theorem broken_link_recognised:
  assumes "snapshot_block X chain h = Inr block" "verify_seal_coinbase X now h = Inr signer"
    and "decode_u64 (h_number h) = Inr number" "decode_u64 (h_timestamp h) = Inr time"
    and "decode_hex_fixed X 32 (h_parent_hash h) = Inr parent"
    and "number \<noteq> next_number snap \<or> parent \<noteq> sn_hash snap"
  shows "(\<exists>e. append_loop X ((now, h) # hs) chain snap = (Inl e, chain, snap) \<and> is_link_err e) \<and>
    (\<forall>prev hash e. link_ok prev hash parent number = Inl e \<longrightarrow> is_link_err e)"
proof -
  obtain hash where h: "decode_hex_fixed X 32 (h_hash h) = Inr hash"
    using assms(1) by (auto simp: snapshot_block_def res_simps)
  have "check_link X h signer snap = Inl (if number \<noteq> next_number snap then NumberMismatch (next_number snap) number else ParentHashMismatch)"
    using assms(3-6) h by (auto simp: check_link_def n_u64_def n_fixed_def)
  then obtain er where er: "apply_header X now h snap = (Inl er, snap)" "er = ParentHashMismatch \<or> er = NumberMismatch (next_number snap) number"
    using assms(2) by (auto simp: apply_header_def apply_verified_def)
  then have "is_link_err [''snapshot '' @ h_number h, show_snapshot_error er]" using snapshot_link_recognised by metis
  then show ?thesis using assms(1) er(1) link_ok_recognised by auto
qed

theorem broken_link_recognised_witness:
  "\<exists>e. append_loop refX [(0, sample_header ''0x1'' 1 (replicate 32 1))] [] sample_snap = (Inl e, [], sample_snap) \<and> is_link_err e"
proof -
  define h where "h = sample_header ''0x1'' 1 (replicate 32 1)"
  have v: "verify_seal_coinbase refX 0 h = Inr (zeros 20)" unfolding h_def by (rule sample_header_ok) simp_all
  obtain m where m: "milli_timestamp refX h = Inr m" using sealed_milli_ok [OF v] by blast
  have d: "decode_u64 (h_number h) = Inr 1" "decode_u64 (h_timestamp h) = Inr 0"
    "decode_hex_fixed refX 32 (h_parent_hash h) = Inr (replicate 32 1)" "decode_u64 (h_gas_limit h) = Inr 5000"
    "decode_hex_fixed refX 32 (h_hash h) = Inr (sample_hash 1 (replicate 32 1))" "decode_hex_fixed refX 32 (h_state_root h) = Inr (zeros 32)"
    by (simp_all add: h_def sample_header_def sample_body_def decode_hex_fixed_hex0x)
  obtain b where b: "snapshot_block refX [] h = Inr b"
    by (simp add: snapshot_block_def block_fields_def m d types_res_def seal_res_def)
  have "replicate 32 1 \<noteq> sn_hash sample_snap" by (simp add: zeros_def)
  from broken_link_recognised [OF b v d(1-3) disjI2 [OF this]] show ?thesis unfolding h_def by blast
qed

text \<open>A timestamp rejection is never taken for a broken link.\<close>

lemma not_link_parts:
  assumes "p \<in> set LINK_ERR_PHRASES"
  shows "\<not> str_contains (to_ascii_lowercase (show_seal_error (TimestampTooEarly g q i))) p"
proof -
  have d: "set digit_chars \<inter> set p = {}" using assms phrase_facts by blast
  have lit: "\<forall>p \<in> set LINK_ERR_PHRASES. \<not> str_contains (to_ascii_lowercase ''block MilliTimestamp '') p \<and>
      \<not> str_contains (to_ascii_lowercase '' < parent '') p \<and> \<not> str_contains (to_ascii_lowercase '' + interval '') p \<and>
      \<not> str_contains (to_ascii_lowercase ''ms'') p" by code_simp
  show ?thesis
    unfolding show_seal_error.simps to_ascii_lowercase_append lowercase_show_nat str_contains_across_nat [OF d]
    using lit assms by blast
qed

end
