(* ===== verification/Node.thy ===== *)
theory Node
  imports Sync
begin

text \<open>
  The node's sync path (\<open>bin/helios-bsc/src/rpc_server.rs\<close>): bootstrap, the read head, the
  rollback points, recovery from a reorganisation, publishing a sync and persisting the
  verified tip. Every mutex-guarded field is a field of one record and every operation passes it
  on; syncs are serialised by the chain lock, so an interleaving of worker threads is
  a sequence of these operations. The upstream is a function of the attempt, since asking twice may
  give different answers. Logging is left out.
\<close>

section \<open>State\<close>

datatype finality_mode = ConfirmationDepth | Fast

record finality_view =
  fv_head :: nat
  fv_available :: bool
  fv_justified :: "(nat \<times> bytes) option"
  fv_finalized :: "(nat \<times> bytes) option"
  fv_read_head :: "safe_head option"
  fv_read_head_is_fast :: bool
  fv_synced_at :: "nat option"

definition finality_view_default :: finality_view where
  "finality_view_default =
     \<lparr>fv_head = 0, fv_available = False, fv_justified = None, fv_finalized = None, fv_read_head = None,
      fv_read_head_is_fast = False, fv_synced_at = None\<rparr>"

definition NO_BLOCK :: nat where "NO_BLOCK = u64_max"

definition ROLLBACK_EVERY :: nat where "ROLLBACK_EVERY = 16"

definition ROLLBACK_KEEP :: nat where "ROLLBACK_KEEP = 16"

text \<open>The upstream, the locks and the filter store of the source's struct are not fields here.\<close>

record node =
  nd_lookback :: nat
  nd_max_sync :: nat
  nd_chain :: "verified_block list"
  nd_snapshot :: "snapshot option"
  nd_rollbacks :: "snapshot list"
  nd_checkpoint_store :: "string option"
  nd_fork_id :: string
  nd_origin :: "checkpoint option"
  nd_origin_checkpoint :: "nat option"
  nd_proof_ok :: nat
  nd_proof_fail :: nat
  nd_headers_verified :: nat
  nd_header_verify_fail :: nat
  nd_upstream_errors :: nat
  nd_panics :: nat
  nd_last_tip :: nat
  nd_last_safe :: nat
  nd_last_justified :: nat
  nd_last_finalized :: nat
  nd_finality :: finality_view
  nd_finality_mode :: finality_mode
  nd_allow_unverified_passthrough :: bool
  nd_backup_transport :: bool
  nd_metrics_enabled :: bool

definition map_or_no_block :: "(nat \<times> bytes) option \<Rightarrow> nat" where
  "map_or_no_block b = (case b of None \<Rightarrow> NO_BLOCK | Some (n, _) \<Rightarrow> n)"

section \<open>Bootstrap\<close>

definition node_bootstrap :: "('pk, 'sg) ext \<Rightarrow> upstream \<Rightarrow> nat \<Rightarrow> (err, node) result" where
  "node_bootstrap X up lookback =
     rbind (up_block_number up) (\<lambda>tip.
     rbind (walk_headers X up (lookback_from tip lookback) tip) (\<lambda>chain.
     rbind (safe_of X chain) (\<lambda>safe.
       Inr \<lparr>nd_lookback = lookback, nd_max_sync = lookback, nd_chain = chain, nd_snapshot = None,
            nd_rollbacks = [], nd_checkpoint_store = None, nd_fork_id = ''fermi'', nd_origin = None,
            nd_origin_checkpoint = None, nd_proof_ok = 0, nd_proof_fail = 0,
            nd_headers_verified = length chain, nd_header_verify_fail = 0, nd_upstream_errors = 0,
            nd_panics = 0, nd_last_tip = tip, nd_last_safe = sh_number safe,
            nd_last_justified = NO_BLOCK, nd_last_finalized = NO_BLOCK,
            nd_finality = finality_view_default, nd_finality_mode = ConfirmationDepth,
            nd_allow_unverified_passthrough = False, nd_backup_transport = False,
            nd_metrics_enabled = False\<rparr>)))"

text \<open>
  Waiting for a confirmation-depth head: one element of the list per turn of the loop, with
  the upstream's answers and whether the 180 seconds have passed. \<open>None\<close>: still waiting.
\<close>

fun wait_for_safe ::
    "('pk, 'sg) ext \<Rightarrow> (upstream \<times> bool) list \<Rightarrow> sync_state \<Rightarrow> (err, safe_head \<times> sync_state) result option" where
  "wait_for_safe X obs st =
     (case safe_of X (fst st) of
        Inr safe \<Rightarrow> Some (Inr (safe, st))
      | Inl e \<Rightarrow>
          (case obs of
             [] \<Rightarrow> None
           | (up, expired) # obs' \<Rightarrow>
               if expired then
                 Some (Inl (context_err (''no confirmation-depth head after 180s '' @ em_dash @
                   '' the checkpoint is too close to the tip for its sealing set to have produced enough distinct sealers'') e))
               else
                 (case up_block_number up of
                    Inl e' \<Rightarrow> Some (Inl e')
                  | Inr newer \<Rightarrow>
                      (case append_new_with_snapshot X up newer st of
                         (Inl e', _) \<Rightarrow> Some (Inl e')
                       | (Inr _, st') \<Rightarrow> wait_for_safe X obs' st'))))"

declare wait_for_safe.simps [simp del]

definition node_from_walk ::
    "nat \<Rightarrow> nat \<Rightarrow> checkpoint \<Rightarrow> nat \<Rightarrow> safe_head \<Rightarrow> verified_block list \<Rightarrow> snapshot \<Rightarrow> node" where
  "node_from_walk lookback max_sync cp tip safe chain snapshot =
     \<lparr>nd_lookback = lookback, nd_max_sync = max_sync, nd_chain = chain, nd_snapshot = Some snapshot,
      nd_rollbacks = [snapshot], nd_checkpoint_store = None, nd_fork_id = cp_fork_id cp,
      nd_origin = Some cp, nd_origin_checkpoint = Some (cp_number cp), nd_proof_ok = 0,
      nd_proof_fail = 0, nd_headers_verified = length chain, nd_header_verify_fail = 0,
      nd_upstream_errors = 0, nd_panics = 0, nd_last_tip = tip, nd_last_safe = sh_number safe,
      nd_last_justified = map_or_no_block (justified snapshot),
      nd_last_finalized = map_or_no_block (finalized snapshot),
      nd_finality = finality_view_default, nd_finality_mode = ConfirmationDepth,
      nd_allow_unverified_passthrough = False, nd_backup_transport = False,
      nd_metrics_enabled = False\<rparr>"

definition bootstrap_from_checkpoint ::
    "('pk, 'sg) ext \<Rightarrow> upstream \<Rightarrow> (upstream \<times> bool) list \<Rightarrow> nat \<Rightarrow> nat \<Rightarrow> checkpoint \<Rightarrow> (err, node) result option" where
  "bootstrap_from_checkpoint X up obs lookback max_sync cp =
     (case rbind (up_block_number up) (\<lambda>tip.
           rbind (walk_from_checkpoint X up cp tip max_sync) (\<lambda>(chain, snapshot). Inr (tip, chain, snapshot))) of
        Inl e \<Rightarrow> Some (Inl e)
      | Inr (tip, chain, snapshot) \<Rightarrow>
          map_option (\<lambda>r. rbind r (\<lambda>(safe, st').
             Inr (node_from_walk lookback max_sync cp tip safe (fst st') (the (snd st')))))
            (wait_for_safe X obs (chain, Some snapshot)))"

text \<open>Constructors for a chain that is already verified.\<close>

definition from_parts :: "nat \<Rightarrow> verified_block list \<Rightarrow> node" where
  "from_parts lookback chain =
     \<lparr>nd_lookback = lookback, nd_max_sync = lookback, nd_chain = chain, nd_snapshot = None,
      nd_rollbacks = [], nd_checkpoint_store = None, nd_fork_id = ''fermi'', nd_origin = None,
      nd_origin_checkpoint = None, nd_proof_ok = 0, nd_proof_fail = 0, nd_headers_verified = 0,
      nd_header_verify_fail = 0, nd_upstream_errors = 0, nd_panics = 0, nd_last_tip = NO_BLOCK,
      nd_last_safe = NO_BLOCK, nd_last_justified = NO_BLOCK, nd_last_finalized = NO_BLOCK,
      nd_finality = finality_view_default, nd_finality_mode = ConfirmationDepth,
      nd_allow_unverified_passthrough = False, nd_backup_transport = False,
      nd_metrics_enabled = False\<rparr>"

definition from_parts_with_snapshot :: "nat \<Rightarrow> verified_block list \<Rightarrow> snapshot \<Rightarrow> string \<Rightarrow> node" where
  "from_parts_with_snapshot lookback chain snapshot fork_id =
     (from_parts lookback chain)\<lparr>nd_rollbacks := [snapshot], nd_snapshot := Some snapshot,
        nd_fork_id := fork_id, nd_origin_checkpoint := Some (sn_number snapshot)\<rparr>"

section \<open>Setters and the read head\<close>

definition set_checkpoint_store :: "string \<Rightarrow> node \<Rightarrow> node" where
  "set_checkpoint_store path nd = nd\<lparr>nd_checkpoint_store := Some path\<rparr>"

definition set_allow_unverified_passthrough :: "bool \<Rightarrow> node \<Rightarrow> node" where
  "set_allow_unverified_passthrough yes nd = nd\<lparr>nd_allow_unverified_passthrough := yes\<rparr>"

definition set_backup_transport :: "bool \<Rightarrow> node \<Rightarrow> node" where
  "set_backup_transport yes nd = nd\<lparr>nd_backup_transport := yes\<rparr>"

definition set_metrics_enabled :: "bool \<Rightarrow> node \<Rightarrow> node" where
  "set_metrics_enabled yes nd = nd\<lparr>nd_metrics_enabled := yes\<rparr>"

definition set_finality_mode :: "finality_mode \<Rightarrow> node \<Rightarrow> node" where
  "set_finality_mode mode nd = nd\<lparr>nd_finality_mode := mode\<rparr>"

definition read_head ::
    "('pk, 'sg) ext \<Rightarrow> finality_mode \<Rightarrow> verified_block list \<Rightarrow> snapshot option \<Rightarrow> safe_head \<Rightarrow> safe_head" where
  "read_head X mode chain snap conf_safe =
     (if mode \<noteq> Fast then conf_safe else fast_finality_head X chain snap conf_safe)"

definition fast_finality_armed :: "node \<Rightarrow> bool" where
  "fast_finality_armed nd = (case nd_snapshot nd of None \<Rightarrow> False | Some s \<Rightarrow> fast_finality_available s)"

section \<open>Rollback points\<close>

definition chain_floor :: "verified_block list \<Rightarrow> nat" where
  "chain_floor chain = (if chain = [] then 0 else vb_number (hd chain))"

definition record_rollback :: "snapshot \<Rightarrow> nat \<Rightarrow> snapshot list \<Rightarrow> snapshot list" where
  "record_rollback s floor rb =
     (let rb1 = dropWhile (\<lambda>p. sn_number p < floor) rb;
          due = (rb1 = [] \<or> sat_add (sn_number (last rb1)) ROLLBACK_EVERY \<le> sn_number s)
      in if \<not> due then rb1
         else let rb2 = rb1 @ [s] in drop (length rb2 - ROLLBACK_KEEP) rb2)"

text \<open>What trying the rollback points, newest first, came to.\<close>

datatype recovery =
    Recovered "verified_block list" "snapshot option" nat
  | Other_failure err
  | No_point nat

fun try_rollbacks ::
    "('pk, 'sg) ext \<Rightarrow> (nat \<Rightarrow> upstream) \<Rightarrow> nat \<Rightarrow> verified_block list \<Rightarrow> nat \<Rightarrow> snapshot list \<Rightarrow> recovery" where
  "try_rollbacks X ups tip chain tried [] = No_point tried"
| "try_rollbacks X ups tip chain tried (p # ps) =
     (if sn_number p < chain_floor chain \<or> tip < sn_number p then try_rollbacks X ups tip chain tried ps
      else
        let candidate = takeWhile (\<lambda>b. vb_number b \<le> sn_number p) chain in
        if candidate = [] \<or> vb_number (last candidate) \<noteq> sn_number p then try_rollbacks X ups tip chain tried ps
        else
          (case append_new_with_snapshot X (ups (Suc tried)) tip (candidate, Some p) of
             (Inr _, chain', snap') \<Rightarrow> Recovered chain' snap' (sn_number p)
           | (Inl e, _) \<Rightarrow> if is_link_err e then try_rollbacks X ups tip chain (Suc tried) ps else Other_failure e))"

text \<open>\<open>{:#}\<close>: the whole error chain on one line.\<close>

fun show_alternate :: "err \<Rightarrow> string" where
  "show_alternate [] = []"
| "show_alternate [e] = e"
| "show_alternate (e # es) = e @ '': '' @ show_alternate es"

definition no_origin_text :: "nat \<Rightarrow> string" where
  "no_origin_text tried =
     ''reorg recovery: '' @ show_nat tried @ '' rollback point(s) tried and none was on the canonical chain, and this process booted without a --checkpoint to replay from''"

definition replay_failed_text :: "err \<Rightarrow> nat \<Rightarrow> nat \<Rightarrow> nat \<Rightarrow> string" where
  "replay_failed_text replay tried origin behind =
     ''reorg recovery failed: '' @ show_alternate replay @ ''. '' @ show_nat tried @
     '' rollback point(s) covering up to '' @ show_nat (sat_mul ROLLBACK_EVERY ROLLBACK_KEEP) @
     '' blocks were tried first and none was on the canonical chain. The fallback replays from the checkpoint this process booted from ('' @
     show_nat origin @ ''), now '' @ show_nat behind @
     '' blocks behind the tip; nothing recovers that in place. Write a fresh checkpoint and restart.''"

definition recover_from_link_break ::
    "('pk, 'sg) ext \<Rightarrow> (nat \<Rightarrow> upstream) \<Rightarrow> nat \<Rightarrow> err \<Rightarrow> node \<Rightarrow> (err, unit) result \<times> node" where
  "recover_from_link_break X ups tip err nd =
     (case try_rollbacks X ups tip (nd_chain nd) 0 (rev (nd_rollbacks nd)) of
        Recovered chain' snap' n \<Rightarrow>
          (Inr (), nd\<lparr>nd_chain := chain', nd_snapshot := snap',
                      nd_rollbacks := rev (dropWhile (\<lambda>s. n < sn_number s) (rev (nd_rollbacks nd)))\<rparr>)
      | Other_failure e \<Rightarrow> (Inl e, nd)
      | No_point tried \<Rightarrow>
          (case nd_origin nd of
             None \<Rightarrow> (Inl (context_err (no_origin_text tried) err), nd)
           | Some cp \<Rightarrow>
               (case walk_from_checkpoint X (ups (Suc tried)) cp tip (nd_max_sync nd) of
                  Inl replay \<Rightarrow>
                    (Inl [replay_failed_text replay tried (cp_number cp) (sat_sub tip (cp_number cp))], nd)
                | Inr (chain', snap') \<Rightarrow>
                    (Inr (), nd\<lparr>nd_chain := chain', nd_snapshot := Some snap', nd_rollbacks := []\<rparr>))))"

definition tip_jumped_text :: "nat \<Rightarrow> nat \<Rightarrow> string" where
  "tip_jumped_text jump max_sync =
     ''tip jumped '' @ show_nat jump @ '' blocks; pass a fresh --checkpoint (max-sync '' @ show_nat max_sync @ '')''"

section \<open>Syncing\<close>

definition set_sync :: "sync_state \<Rightarrow> node \<Rightarrow> node" where
  "set_sync st nd = nd\<lparr>nd_chain := fst st, nd_snapshot := snd st\<rparr>"

text \<open>The checkpoint branch of \<open>resync_locked\<close>: number of newly verified headers and whether the chain grew.\<close>

definition resync_snapshot ::
    "('pk, 'sg) ext \<Rightarrow> (nat \<Rightarrow> upstream) \<Rightarrow> nat \<Rightarrow> node \<Rightarrow> (err, nat \<times> bool) result \<times> node" where
  "resync_snapshot X ups tip nd =
     (let last_n = chain_tip (nd_chain nd) in
      if sat_add last_n (nd_max_sync nd) < tip then
        (Inl [tip_jumped_text (sat_sub tip last_n) (nd_max_sync nd)], nd)
      else
        (case append_new_with_snapshot X (ups 0) tip (nd_chain nd, nd_snapshot nd) of (r, st') \<Rightarrow>
         (case (case r of
                  Inr _ \<Rightarrow> (Inr (), set_sync st' nd)
                | Inl e \<Rightarrow>
                    if is_link_err e then recover_from_link_break X ups tip e (set_sync st' nd)
                    else (Inl e, set_sync st' nd)) of
            (Inl e, nd') \<Rightarrow> (Inl e, nd')
          | (Inr _, nd') \<Rightarrow>
              let nd2 = (case nd_snapshot nd' of
                           None \<Rightarrow> nd'
                         | Some s \<Rightarrow> nd'\<lparr>nd_rollbacks := record_rollback s (chain_floor (nd_chain nd')) (nd_rollbacks nd')\<rparr>);
                  new_last = chain_tip (nd_chain nd2)
              in (Inr (sat_sub new_last last_n, last_n < new_last), nd2))))"

text \<open>The lookback branches.\<close>

definition resync_lookback ::
    "('pk, 'sg) ext \<Rightarrow> (nat \<Rightarrow> upstream) \<Rightarrow> nat \<Rightarrow> node \<Rightarrow> (err, nat \<times> bool) result \<times> node" where
  "resync_lookback X ups tip nd =
     (let last_n = chain_tip (nd_chain nd); from = lookback_from tip (nd_lookback nd) in
      if sat_add last_n (nd_lookback nd) < tip \<or> length (nd_chain nd) < 16 then
        (case walk_headers X (ups 0) from tip of
           Inl e \<Rightarrow> (Inl e, nd)
         | Inr walked \<Rightarrow> (Inr (length walked, False), nd\<lparr>nd_chain := walked\<rparr>))
      else
        (case append_new X (ups 0) tip (nd_chain nd) of
           (Inl e, chain') \<Rightarrow>
             let nd' = nd\<lparr>nd_chain := chain'\<rparr> in
             if is_link_err e then
               (case rbind (walk_headers X (ups 1) from tip) (accept_lookback_resync chain') of
                  Inl e' \<Rightarrow> (Inl e', nd')
                | Inr walked \<Rightarrow> (Inr (length walked, False), nd'\<lparr>nd_chain := walked\<rparr>))
             else (Inl e, nd')
         | (Inr _, chain') \<Rightarrow>
             (Inr (if chain' = [] then 0 else sat_sub (vb_number (last chain')) last_n, False), nd\<lparr>nd_chain := chain'\<rparr>)))"

definition resync_locked ::
    "('pk, 'sg) ext \<Rightarrow> (nat \<Rightarrow> upstream) \<Rightarrow> nat \<Rightarrow> node \<Rightarrow>
     (err, safe_head \<times> safe_head \<times> nat \<times> bool) result \<times> node" where
  "resync_locked X ups tip nd =
     (case (if nd_snapshot nd \<noteq> None then resync_snapshot X ups tip nd else resync_lookback X ups tip nd) of
        (Inl e, nd') \<Rightarrow> (Inl e, nd')
      | (Inr (verified, grew), nd') \<Rightarrow>
          (case safe_of X (nd_chain nd') of
             Inl e \<Rightarrow> (Inl e, nd')
           | Inr conf_safe \<Rightarrow>
               (Inr (read_head X (nd_finality_mode nd') (nd_chain nd') (nd_snapshot nd') conf_safe,
                     conf_safe, verified, grew), nd')))"

definition persist_checkpoint :: "('pk, 'sg) ext \<Rightarrow> upstream \<Rightarrow> node \<Rightarrow> (string \<times> checkpoint) option" where
  "persist_checkpoint X up nd =
     (case (nd_checkpoint_store nd, nd_chain nd, nd_snapshot nd) of
        (Some path, b # bs, Some snap) \<Rightarrow>
          let tip = last (b # bs) in
          (case (case vb_header tip of Some h \<Rightarrow> Inr h | None \<Rightarrow> up_header_by_hash up (hex0x X (vb_hash tip))) of
             Inl _ \<Rightarrow> None
           | Inr h \<Rightarrow>
               if header_hash X h \<noteq> Inr (vb_hash tip) then None
               else if decode_u64 (h_number h) \<noteq> Inr (vb_number tip) then None
               else if decode_hex_fixed X 32 (h_state_root h) \<noteq> Inr (vb_state_root tip) then None
               else
                 (case checkpoint_at_snapshot X h snap (nd_fork_id nd) (Some ''helios-bsc last-verified'') of
                    Inl _ \<Rightarrow> None
                  | Inr cp \<Rightarrow> Some (path, cp)))
      | _ \<Rightarrow> None)"

definition bump_headers :: "nat \<Rightarrow> node \<Rightarrow> node" where
  "bump_headers n nd = nd\<lparr>nd_headers_verified := wrap64 (nd_headers_verified nd + n)\<rparr>"

text \<open>The view published after a sync, and the gauges stored with it.\<close>

definition publish :: "nat \<Rightarrow> nat \<Rightarrow> safe_head \<Rightarrow> safe_head \<Rightarrow> node \<Rightarrow> node" where
  "publish now head safe conf_safe nd =
     (let view = (case nd_snapshot nd of
            Some s \<Rightarrow> finality_view_default\<lparr>fv_head := head, fv_available := fast_finality_available s,
                        fv_justified := justified s, fv_finalized := finalized s\<rparr>
          | None \<Rightarrow> finality_view_default\<lparr>fv_head := head\<rparr>);
          view' = view\<lparr>fv_read_head_is_fast := (sh_number safe \<noteq> sh_number conf_safe),
                       fv_read_head := Some safe, fv_synced_at := Some now\<rparr>
      in nd\<lparr>nd_last_tip := head, nd_last_safe := sh_number conf_safe,
            nd_last_justified := map_or_no_block (fv_justified view'),
            nd_last_finalized := map_or_no_block (fv_finalized view'), nd_finality := view'\<rparr>)"

text \<open>
  A sync: its result, the checkpoint it writes (with the path), and the node after it.
  \<open>now\<close> is the clock in milliseconds.
\<close>

definition refresh_now ::
    "('pk, 'sg) ext \<Rightarrow> (nat \<Rightarrow> upstream) \<Rightarrow> nat \<Rightarrow> node \<Rightarrow>
     (err, nat \<times> safe_head) result \<times> (string \<times> checkpoint) option \<times> node" where
  "refresh_now X ups now nd =
     (case up_block_number (ups 0) of
        Inl e \<Rightarrow> (Inl e, None, nd\<lparr>nd_upstream_errors := wrap64 (nd_upstream_errors nd + 1)\<rparr>)
      | Inr tip \<Rightarrow>
          (case resync_locked X ups tip nd of
             (Inl e, nd') \<Rightarrow> (Inl e, None, nd'\<lparr>nd_header_verify_fail := wrap64 (nd_header_verify_fail nd' + 1)\<rparr>)
           | (Inr (safe, conf_safe, verified, grew), nd') \<Rightarrow>
               let head = (if nd_chain nd' = [] then tip else vb_number (last (nd_chain nd')));
                   nd2 = bump_headers verified (publish now head safe conf_safe nd')
               in (Inr (head, safe), (if grew then persist_checkpoint X (ups 0) nd2 else None), nd2)))"

definition published_if_fresh :: "nat \<Rightarrow> node \<Rightarrow> (nat \<times> safe_head) option" where
  "published_if_fresh now nd =
     (case fv_synced_at (nd_finality nd) of
        None \<Rightarrow> None
      | Some t \<Rightarrow>
          if fp_block_interval_ms mainnet_current_fork \<le> now - t then None
          else map_option (\<lambda>safe. (fv_head (nd_finality nd), safe)) (fv_read_head (nd_finality nd)))"

definition refresh ::
    "('pk, 'sg) ext \<Rightarrow> (nat \<Rightarrow> upstream) \<Rightarrow> nat \<Rightarrow> node \<Rightarrow>
     (err, nat \<times> safe_head) result \<times> (string \<times> checkpoint) option \<times> node" where
  "refresh X ups now nd =
     (case published_if_fresh now nd of
        Some fresh \<Rightarrow> (Inr fresh, None, nd)
      | None \<Rightarrow> refresh_now X ups now nd)"

section \<open>The node invariant\<close>

text \<open>
  A rollback point that the kept chain still reaches describes a block of it. Points the window
  has moved past are harmless: recovery skips them.
\<close>

definition rollback_ok :: "verified_block list \<Rightarrow> snapshot \<Rightarrow> bool" where
  "rollback_ok chain p \<longleftrightarrow>
     (chain_floor chain \<le> sn_number p \<longrightarrow> (\<exists>b \<in> set chain. vb_number b = sn_number p \<and> vb_hash b = sn_hash p))"

definition rollbacks_inv :: "verified_block list \<Rightarrow> snapshot \<Rightarrow> snapshot list \<Rightarrow> bool" where
  "rollbacks_inv chain s rb \<longleftrightarrow>
     sorted (map sn_number rb) \<and> length rb \<le> ROLLBACK_KEEP \<and>
     (\<forall>p \<in> set rb. snapshot_inv p \<and> sn_number p \<le> sn_number s \<and> rollback_ok chain p)"

definition node_inv :: "('pk, 'sg) ext \<Rightarrow> node \<Rightarrow> bool" where
  "node_inv X nd \<longleftrightarrow>
     sync_inv X (nd_chain nd, nd_snapshot nd) \<and>
     (case nd_snapshot nd of
        None \<Rightarrow> nd_rollbacks nd = []
      | Some s \<Rightarrow> rollbacks_inv (nd_chain nd) s (nd_rollbacks nd))"

abbreviation ascending :: "verified_block list \<Rightarrow> bool" where
  "ascending chain \<equiv> sorted_wrt (<) (map vb_number chain)"

lemma ascending_hd: "ascending (b # chain) \<Longrightarrow> c \<in> set (b # chain) \<Longrightarrow> vb_number b \<le> vb_number c"
  by (auto intro: less_imp_le)

lemma ascending_inj:
  "ascending chain \<Longrightarrow> b \<in> set chain \<Longrightarrow> c \<in> set chain \<Longrightarrow> vb_number b = vb_number c \<Longrightarrow> b = c"
  by (induction chain) auto

lemma rollback_ok_append: "chain \<noteq> [] \<Longrightarrow> rollback_ok chain p \<Longrightarrow> rollback_ok (chain @ ext) p"
  by (auto simp: rollback_ok_def chain_floor_def)

lemma rollback_ok_drop:
  assumes "ascending chain" "rollback_ok chain p" "drop m chain \<noteq> []"
  shows "rollback_ok (drop m chain) p"
  unfolding rollback_ok_def
proof
  assume f: "chain_floor (drop m chain) \<le> sn_number p"
  obtain d ds where d: "drop m chain = d # ds" using assms(3) by (cases "drop m chain") auto
  obtain ts where sp: "chain = ts @ d # ds" using d append_take_drop_id [of m chain] by metis
  have lt: "vb_number b < vb_number d" if "b \<in> set ts" for b
    using assms(1) that by (auto simp: sp sorted_wrt_append)
  have "chain_floor chain \<le> vb_number d"
    using lt by (cases ts) (auto simp: sp chain_floor_def intro: less_imp_le)
  then obtain b where b: "b \<in> set chain" "vb_number b = sn_number p" "vb_hash b = sn_hash p"
    using f assms(2) by (auto simp: d chain_floor_def rollback_ok_def)
  have "vb_number d \<le> vb_number b" using f b(2) by (simp add: d chain_floor_def)
  then have "b \<in> set (d # ds)" using lt [of b] b(1) by (auto simp: sp)
  then show "\<exists>b \<in> set (drop m chain). vb_number b = sn_number p \<and> vb_hash b = sn_hash p" using b d by auto
qed

lemma in_takeWhile_number:
  "ascending chain \<Longrightarrow> b \<in> set chain \<Longrightarrow> vb_number b \<le> n \<Longrightarrow> b \<in> set (takeWhile (\<lambda>b. vb_number b \<le> n) chain)"
  by (induction chain) (auto intro: less_imp_le order_trans)

lemma hd_takeWhile: "takeWhile P xs \<noteq> [] \<Longrightarrow> hd (takeWhile P xs) = hd xs"
  by (cases xs) auto

lemma rollback_ok_takeWhile:
  assumes "ascending chain" "rollback_ok chain p" "sn_number p \<le> n" "takeWhile (\<lambda>b. vb_number b \<le> n) chain \<noteq> []"
  shows "rollback_ok (takeWhile (\<lambda>b. vb_number b \<le> n) chain) p"
proof -
  have "chain \<noteq> []" using assms(4) by auto
  then show ?thesis
    using assms in_takeWhile_number [OF assms(1)] hd_takeWhile [OF assms(4)]
    by (auto simp: rollback_ok_def chain_floor_def)
qed

lemma append_loop_ext: "append_loop X hs chain snap = (r, chain', snap') \<Longrightarrow> \<exists>ext. chain' = chain @ ext"
proof (induction hs arbitrary: chain snap)
  case (Cons i hs)
  obtain now h where i: "i = (now, h)" by (cases i)
  show ?case
    using Cons.prems Cons.IH by (auto simp: i split: sum.splits prod.splits) (metis append_assoc)
qed simp

text \<open>Appending keeps the points of the chain it extends, also when it fails half-way.\<close>

lemma append_rollbacks:
  assumes inv: "sync_inv X (chain, Some s)" and up: "serves_at_most k up" "sn_number s + k \<le> u64_max"
    and ap: "append_new_with_snapshot X up tip (chain, Some s) = (r, chain', sn')"
  obtains s' where "sn' = Some s'" "sync_inv X (chain', Some s')" "sn_number s' \<le> sn_number s + k"
    "sn_number s \<le> sn_number s'" "\<And>p. rollback_ok chain p \<Longrightarrow> rollback_ok chain' p"
  using ap
proof (cases rule: append_cases)
  case skip
  then show thesis using that [of s] inv by simp
next
  case (snap hs s1 res c1 s')
  have k: "length hs \<le> k" using snap(1) up(1) by (auto simp: serves_at_most_def)
  have i: "sync_inv X (c1, Some s')" "sn_number s' \<le> sn_number s + length hs"
    using append_loop_inv [OF snap(3)] inv up(2) snap(2) k by simp_all
  obtain ext where ext: "c1 = chain @ ext" using append_loop_ext [OF snap(3)] by blast
  have c: "chain \<noteq> []" "vb_number (last chain) = sn_number s" "ascending c1" "vb_number (last c1) = sn_number s'"
    using inv i(1) by (simp_all add: sync_inv_def)
  have mono: "sn_number s \<le> sn_number s'" using sorted_last_max [OF c(3), of "last chain"] c ext by simp
  have st: "sn' = Some s'" "chain' = c1 \<or> chain' = trim_chain c1" using snap(4) by (cases res; simp)+
  have ok: "rollback_ok c1 p" if "rollback_ok chain p" for p using rollback_ok_append [OF c(1) that] ext by simp
  have "rollback_ok (trim_chain c1) p" if "rollback_ok c1 p" for p
    using that rollback_ok_drop [OF c(3) that, of "length c1 - KEEP"] by (auto simp: trim_chain_def KEEP_def)
  then show thesis using that [OF st(1) _ _ mono] st(2) i k sync_inv_trim [OF i(1)] ok by auto
qed simp

lemma rollbacks_inv_mono:
  assumes "rollbacks_inv chain s rb" "sn_number s \<le> sn_number s'" "\<And>p. rollback_ok chain p \<Longrightarrow> rollback_ok chain' p"
  shows "rollbacks_inv chain' s' rb"
  using assms by (force simp: rollbacks_inv_def)

section \<open>Recovery\<close>

lemma sync_inv_rewind:
  assumes inv: "sync_inv X (chain, Some s)" and p: "rollback_ok chain p" "snapshot_inv p" "chain_floor chain \<le> sn_number p"
    and c: "takeWhile (\<lambda>b. vb_number b \<le> sn_number p) chain = c" "c \<noteq> []" "vb_number (last c) = sn_number p"
  shows "sync_inv X (c, Some p)"
proof -
  have a: "chain_ok X chain" "ascending chain" using inv by (simp_all add: sync_inv_def)
  obtain d where d: "chain = c @ d" using c(1) takeWhile_dropWhile_id by metis
  obtain b where b: "b \<in> set chain" "vb_number b = sn_number p" "vb_hash b = sn_hash p"
    using p(1,3) by (auto simp: rollback_ok_def)
  have "last c = b" using ascending_inj [OF a(2) _ b(1)] c(2,3) b(2) d by simp
  moreover have "chain_ok X c" "ascending c" using a by (simp_all add: d successively_append_iff sorted_wrt_append)
  ultimately show ?thesis using p(2) c(2,3) b(3) by (simp add: sync_inv_def)
qed

text \<open>What a successful rewind is: a walk, from a retained point of the kept chain, that the checks accepted.\<close>

lemma try_rollbacks_Recovered:
  assumes "try_rollbacks X ups tip chain tried ps = Recovered chain' snap' n"
  obtains p c i where "p \<in> set ps" "n = sn_number p" "chain_floor chain \<le> sn_number p" "sn_number p \<le> tip"
    "takeWhile (\<lambda>b. vb_number b \<le> sn_number p) chain = c" "c \<noteq> []" "vb_number (last c) = sn_number p"
    "append_new_with_snapshot X (ups i) tip (c, Some p) = (Inr (), chain', snap')"
  using assms
proof (induction ps arbitrary: tried thesis)
  case (Cons p ps)
  let ?c = "takeWhile (\<lambda>b. vb_number b \<le> sn_number p) chain"
  obtain r st' where a: "append_new_with_snapshot X (ups (Suc tried)) tip (?c, Some p) = (r, st')"
    by (cases "append_new_with_snapshot X (ups (Suc tried)) tip (?c, Some p)")
  show ?case
  proof (cases "sn_number p < chain_floor chain \<or> tip < sn_number p \<or> ?c = [] \<or> vb_number (last ?c) \<noteq> sn_number p \<or> (\<exists>e. r = Inl e)")
    case True
    then obtain t where "try_rollbacks X ups tip chain t ps = Recovered chain' snap' n"
      using Cons.prems(2) a by (auto simp: Let_def split: if_splits prod.splits)
    then show ?thesis by (rule Cons.IH [rotated]) (rule Cons.prems(1), auto)
  next
    case False
    then obtain u where r: "r = Inr u" by (cases r) auto
    then have "chain' = fst st'" "snap' = snd st'" "n = sn_number p"
      using Cons.prems(2) a False by (auto simp: Let_def split: prod.splits)
    then show ?thesis using Cons.prems(1) [of p ?c "Suc tried"] a r False by (simp add: not_less)
  qed
qed simp

text \<open>The heights a node may walk on from: its snapshot's and its origin's.\<close>

definition node_below :: "nat \<Rightarrow> node \<Rightarrow> bool" where
  "node_below n nd \<longleftrightarrow>
     height (nd_chain nd, nd_snapshot nd) \<le> n \<and> (\<forall>cp. nd_origin nd = Some cp \<longrightarrow> cp_number cp \<le> n)"

lemma set_rev_dropWhile:
  fixes f :: "'a \<Rightarrow> nat"
  assumes "sorted (map f xs)"
  shows "set (rev (dropWhile (\<lambda>x. n < f x) (rev xs))) = {x \<in> set xs. f x \<le> n}"
    "sorted (map f (rev (dropWhile (\<lambda>x. n < f x) (rev xs))))"
  using assms by (induction xs rule: rev_induct) (auto simp: sorted_append)

lemma rollbacks_inv_pop:
  assumes "rollbacks_inv chain s rb"
  shows "rollbacks_inv chain s (rev (dropWhile (\<lambda>x. n < sn_number x) (rev rb)))"
    "\<forall>p \<in> set (rev (dropWhile (\<lambda>x. n < sn_number x) (rev rb))). sn_number p \<le> n"
proof -
  have s: "sorted (map sn_number rb)" using assms by (simp add: rollbacks_inv_def)
  note f = set_rev_dropWhile [OF s, of n]
  have "length (dropWhile (\<lambda>x. n < sn_number x) (rev rb)) \<le> length rb"
    using length_dropWhile_le [of "\<lambda>x. n < sn_number x" "rev rb"] by simp
  then show "rollbacks_inv chain s (rev (dropWhile (\<lambda>x. n < sn_number x) (rev rb)))"
    using assms f by (auto simp: rollbacks_inv_def)
  show "\<forall>p \<in> set (rev (dropWhile (\<lambda>x. n < sn_number x) (rev rb))). sn_number p \<le> n" using f(1) by auto
qed

lemma rewind_inv:
  assumes inv: "sync_inv X (chain, Some s)" "rollbacks_inv chain s rb" and up: "serves_at_most k up" "sn_number s + k \<le> u64_max"
    and p: "p \<in> set rb" "chain_floor chain \<le> sn_number p"
    and c: "takeWhile (\<lambda>b. vb_number b \<le> sn_number p) chain = c" "c \<noteq> []" "vb_number (last c) = sn_number p"
    and ap: "append_new_with_snapshot X up tip (c, Some p) = (r, chain', sn')"
  obtains s' where "sn' = Some s'" "sync_inv X (chain', Some s')" "sn_number s' \<le> sn_number s + k"
    "rollbacks_inv chain' s' (rev (dropWhile (\<lambda>x. sn_number p < sn_number x) (rev rb)))"
proof -
  have pp: "snapshot_inv p" "rollback_ok chain p" "sn_number p \<le> sn_number s" using inv(2) p(1) by (auto simp: rollbacks_inv_def)
  have asc: "ascending chain" using inv(1) by (simp add: sync_inv_def)
  have ci: "sync_inv X (c, Some p)" using sync_inv_rewind [OF inv(1) pp(2,1) p(2) c] .
  have b: "sn_number p + k \<le> u64_max" using pp(3) up(2) by simp
  from ci up(1) b ap obtain s' where s': "sn' = Some s'" "sync_inv X (chain', Some s')" "sn_number s' \<le> sn_number p + k"
    "sn_number p \<le> sn_number s'" and ok: "\<And>q. rollback_ok c q \<Longrightarrow> rollback_ok chain' q"
    by (rule append_rollbacks) blast
  note pop = rollbacks_inv_pop [OF inv(2), of "sn_number p"]
  have "rollback_ok chain' q" if "sn_number q \<le> sn_number p" "rollback_ok chain q" for q
    using ok rollback_ok_takeWhile [OF asc that(2,1)] c(1,2) by simp
  then have "rollbacks_inv chain' s' (rev (dropWhile (\<lambda>x. sn_number p < sn_number x) (rev rb)))"
    using pop s'(4) unfolding rollbacks_inv_def by (meson order_trans)
  then show thesis using that s' pp(3) by simp
qed

lemma recover_inv:
  assumes inv: "node_inv X nd" "nd_snapshot nd \<noteq> None" and up: "\<And>i. serves_at_most k (ups i)"
    and b: "node_below n nd" "n + k \<le> u64_max" and rc: "recover_from_link_break X ups tip e nd = (r, nd')"
  shows "node_inv X nd' \<and> nd_snapshot nd' \<noteq> None \<and> node_below (n + k) nd' \<and> nd_origin nd' = nd_origin nd"
proof -
  obtain s where s: "nd_snapshot nd = Some s" using inv(2) by blast
  have i: "sync_inv X (nd_chain nd, Some s)" "rollbacks_inv (nd_chain nd) s (nd_rollbacks nd)" "sn_number s \<le> n"
    using inv(1) b(1) by (simp_all add: node_inv_def s node_below_def height_def)
  have sk: "sn_number s + k \<le> u64_max" using i(3) b(2) by simp
  have same: ?thesis if "nd' = nd" using that inv b by (auto simp: node_below_def)
  show ?thesis
  proof (cases "try_rollbacks X ups tip (nd_chain nd) 0 (rev (nd_rollbacks nd))")
    case (Recovered chain' snap' m)
    from this obtain p c j where p: "p \<in> set (rev (nd_rollbacks nd))" "m = sn_number p" "chain_floor (nd_chain nd) \<le> sn_number p"
      and c: "takeWhile (\<lambda>b. vb_number b \<le> sn_number p) (nd_chain nd) = c" "c \<noteq> []" "vb_number (last c) = sn_number p"
      and ap: "append_new_with_snapshot X (ups j) tip (c, Some p) = (Inr (), chain', snap')"
      by (rule try_rollbacks_Recovered)
    have p': "p \<in> set (nd_rollbacks nd)" using p(1) by simp
    from i(1,2) up [of j] sk p' p(3) c ap obtain s' where "snap' = Some s'" "sync_inv X (chain', Some s')" "sn_number s' \<le> sn_number s + k"
        "rollbacks_inv chain' s' (rev (dropWhile (\<lambda>x. sn_number p < sn_number x) (rev (nd_rollbacks nd))))"
      by (rule rewind_inv)
    then show ?thesis using rc Recovered p(2) i(3) b(1)
      by (auto simp: recover_from_link_break_def node_inv_def node_below_def height_def)
  next
    case (Other_failure e')
    then show ?thesis using rc same by (simp add: recover_from_link_break_def)
  next
    case (No_point tried)
    show ?thesis
    proof (cases "nd_origin nd")
      case None
      then show ?thesis using rc No_point same by (simp add: recover_from_link_break_def)
    next
      case (Some cp)
      have cp: "cp_number cp + k \<le> u64_max" "cp_number cp \<le> n" using b Some by (auto simp: node_below_def)
      show ?thesis
      proof (cases "walk_from_checkpoint X (ups (Suc tried)) cp tip (nd_max_sync nd)")
        case (Inl replay)
        then have "nd' = nd" using rc No_point Some by (simp add: recover_from_link_break_def)
        then show ?thesis by (rule same)
      next
        case (Inr w)
        obtain chain' snap' where w: "w = (chain', snap')" by (cases w)
        have "walk_from_checkpoint_inturn X (ups (Suc tried)) cp tip (nd_max_sync nd) True = Inr (chain', snap')"
          using Inr w by (simp add: walk_from_checkpoint_def)
        from walk_from_checkpoint_inv [OF this up cp(1)]
        have wi: "sync_inv X (chain', Some snap')" "sn_number snap' \<le> n + k" using cp(2) by (meson add_le_mono order_refl order_trans)+
        have "nd' = nd\<lparr>nd_chain := chain', nd_snapshot := Some snap', nd_rollbacks := []\<rparr>"
          using rc No_point Some Inr w by (simp add: recover_from_link_break_def)
        then show ?thesis using wi Some cp(2) by (simp add: node_inv_def node_below_def height_def rollbacks_inv_def)
      qed
    qed
  qed
qed

section \<open>Every sync keeps the invariant\<close>

lemma rollbacks_inv_drop: "rollbacks_inv chain s rb \<Longrightarrow> rollbacks_inv chain s (drop m rb)"
  by (auto simp: rollbacks_inv_def sorted_wrt_drop drop_map [symmetric] dest: in_set_dropD)

lemma record_rollback_inv:
  assumes "rollbacks_inv chain s rb" "sync_inv X (chain, Some s)"
  shows "rollbacks_inv chain s (record_rollback s (chain_floor chain) rb)"
proof -
  let ?rb1 = "dropWhile (\<lambda>p. sn_number p < chain_floor chain) rb"
  have s: "snapshot_inv s" "rollback_ok chain s"
    using assms(2) by (auto simp: sync_inv_def rollback_ok_def intro: last_in_set)
  have 1: "rollbacks_inv chain s ?rb1" using rollbacks_inv_drop [OF assms(1)] by (metis dropWhile_eq_drop)
  let ?rb2 = "?rb1 @ [s]"
  have "sorted (map sn_number ?rb2)" using 1 by (auto simp: rollbacks_inv_def sorted_append)
  then have "sorted (map sn_number (drop m ?rb2))" for m by (metis drop_map sorted_wrt_drop)
  moreover have "\<forall>p \<in> set (drop m ?rb2). snapshot_inv p \<and> sn_number p \<le> sn_number s \<and> rollback_ok chain p" for m
    using 1 s by (auto simp: rollbacks_inv_def simp del: drop_append dest!: in_set_dropD)
  moreover have "length (drop (length ?rb2 - ROLLBACK_KEEP) ?rb2) \<le> ROLLBACK_KEEP" by simp
  ultimately have "rollbacks_inv chain s (drop (length ?rb2 - ROLLBACK_KEEP) ?rb2)"
    unfolding rollbacks_inv_def by blast
  then show ?thesis using 1 by (simp add: record_rollback_def Let_def)
qed

lemma node_inv_cong:
  assumes "nd_chain nd' = nd_chain nd" "nd_snapshot nd' = nd_snapshot nd" "nd_rollbacks nd' = nd_rollbacks nd" "nd_origin nd' = nd_origin nd"
  shows "node_inv X nd' = node_inv X nd" "node_below n nd' = node_below n nd"
  using assms by (simp_all add: node_inv_def node_below_def split: option.split)

lemma resync_snapshot_inv:
  assumes inv: "node_inv X nd" "nd_snapshot nd \<noteq> None" and up: "\<And>i. serves_at_most k (ups i)"
    and b: "node_below n nd" "n + 2 * k \<le> u64_max" and rs: "resync_snapshot X ups tip nd = (r, nd')"
  shows "node_inv X nd' \<and> nd_snapshot nd' \<noteq> None \<and> node_below (n + 2 * k) nd' \<and> nd_origin nd' = nd_origin nd"
proof (cases "sat_add (chain_tip (nd_chain nd)) (nd_max_sync nd) < tip")
  case True
  then show ?thesis using rs inv b by (auto simp: resync_snapshot_def node_below_def)
next
  case False
  obtain s where s: "nd_snapshot nd = Some s" using inv(2) by blast
  have i: "sync_inv X (nd_chain nd, Some s)" "rollbacks_inv (nd_chain nd) s (nd_rollbacks nd)" "sn_number s \<le> n"
    using inv(1) b(1) by (simp_all add: node_inv_def s node_below_def height_def)
  obtain r1 c1 sn1 where ap: "append_new_with_snapshot X (ups 0) tip (nd_chain nd, Some s) = (r1, c1, sn1)"
    by (cases "append_new_with_snapshot X (ups 0) tip (nd_chain nd, Some s)")
  have sk: "sn_number s + k \<le> u64_max" using i(3) b(2) by simp
  from i(1) up [of 0] sk ap obtain s1 where s1: "sn1 = Some s1" "sync_inv X (c1, Some s1)" "sn_number s1 \<le> sn_number s + k"
    "sn_number s \<le> sn_number s1" and ok: "\<And>p. rollback_ok (nd_chain nd) p \<Longrightarrow> rollback_ok c1 p"
    by (rule append_rollbacks) blast
  let ?nd1 = "set_sync (c1, sn1) nd"
  have i1: "node_inv X ?nd1" "nd_snapshot ?nd1 \<noteq> None" "nd_origin ?nd1 = nd_origin nd" "node_below (n + k) ?nd1"
    using s1 rollbacks_inv_mono [OF i(2) s1(4) ok] i(3) b(1)
    by (auto simp: node_inv_def set_sync_def node_below_def height_def)
  define stepped where "stepped = (case r1 of Inr _ \<Rightarrow> (Inr (), ?nd1)
      | Inl e \<Rightarrow> if is_link_err e then recover_from_link_break X ups tip e ?nd1 else (Inl e, ?nd1))"
  obtain r2 nd2 where st: "stepped = (r2, nd2)" by (cases stepped)
  have "n + k + k \<le> u64_max" using b(2) by simp
  note rc = recover_inv [OF i1(1,2) up i1(4) this]
  have i2: "node_inv X nd2 \<and> nd_snapshot nd2 \<noteq> None \<and> node_below (n + k + k) nd2 \<and> nd_origin nd2 = nd_origin nd"
    using st rc i1 by (auto simp: stepped_def node_below_def split: sum.splits if_splits)
  then obtain s2 where s2: "nd_snapshot nd2 = Some s2" by blast
  have "nd' = nd2 \<or> nd' = nd2\<lparr>nd_rollbacks := record_rollback s2 (chain_floor (nd_chain nd2)) (nd_rollbacks nd2)\<rparr>"
    using rs False s ap st s2 by (auto simp: resync_snapshot_def stepped_def [symmetric] Let_def split: sum.splits)
  moreover have "rollbacks_inv (nd_chain nd2) s2 (record_rollback s2 (chain_floor (nd_chain nd2)) (nd_rollbacks nd2))"
    using record_rollback_inv i2 s2 by (auto simp: node_inv_def)
  ultimately show ?thesis using i2 s2 by (auto simp: node_inv_def node_below_def mult_2 add.assoc)
qed

lemma resync_lookback_inv:
  assumes inv: "node_inv X nd" "nd_snapshot nd = None" and rs: "resync_lookback X ups tip nd = (r, nd')"
  shows "node_inv X nd' \<and> nd_snapshot nd' = None \<and> nd_origin nd' = nd_origin nd"
proof -
  have c: "chain_ok X (nd_chain nd)" "nd_rollbacks nd = []" using inv by (simp_all add: node_inv_def sync_inv_def)
  obtain r1 c1 where a: "append_new X (ups 0) tip (nd_chain nd) = (r1, c1)" by (cases "append_new X (ups 0) tip (nd_chain nd)")
  have c1: "chain_ok X c1" using append_new_ok [OF a c(1)] .
  have "chain_ok X (nd_chain nd') \<and> nd_rollbacks nd' = [] \<and> nd_snapshot nd' = None \<and> nd_origin nd' = nd_origin nd"
    using rs a c c1 inv(2)
    by (cases r1) (auto simp: resync_lookback_def Let_def res_simps dest!: accept_resync walk_headers_ok split: if_splits sum.splits)
  then show ?thesis by (simp add: node_inv_def sync_inv_def)
qed

lemma resync_locked_inv:
  assumes inv: "node_inv X nd" and up: "\<And>i. serves_at_most k (ups i)"
    and b: "node_below n nd" "n + 2 * k \<le> u64_max" and rs: "resync_locked X ups tip nd = (r, nd')"
  shows "node_inv X nd' \<and> node_below (n + 2 * k) nd' \<and> nd_origin nd' = nd_origin nd"
proof -
  obtain r1 where "(if nd_snapshot nd \<noteq> None then resync_snapshot X ups tip nd else resync_lookback X ups tip nd) = (r1, nd')"
    using rs by (auto simp: resync_locked_def split: sum.splits prod.splits if_splits)
  then show ?thesis
  proof (cases "nd_snapshot nd = None")
    case True
    then have "resync_lookback X ups tip nd = (r1, nd')" using \<open>_ = (r1, nd')\<close> by simp
    from resync_lookback_inv [OF inv True this] show ?thesis using b(1) by (auto simp: node_below_def height_def)
  next
    case False
    then have "resync_snapshot X ups tip nd = (r1, nd')" using \<open>_ = (r1, nd')\<close> by simp
    from resync_snapshot_inv [OF inv False up b this] show ?thesis by simp
  qed
qed

lemma refresh_now_cases:
  assumes "refresh_now X ups now nd = (r, w, nd')"
  obtains (transport) e where "r = Inl e" "w = None" "nd' = nd\<lparr>nd_upstream_errors := wrap64 (nd_upstream_errors nd + 1)\<rparr>"
  | (rejected) tip e nd1 where "resync_locked X ups tip nd = (Inl e, nd1)" "r = Inl e" "w = None"
      "nd' = nd1\<lparr>nd_header_verify_fail := wrap64 (nd_header_verify_fail nd1 + 1)\<rparr>"
  | (synced) tip safe conf_safe verified grew nd1 head where "resync_locked X ups tip nd = (Inr (safe, conf_safe, verified, grew), nd1)"
      "head = (if nd_chain nd1 = [] then tip else vb_number (last (nd_chain nd1)))"
      "nd' = bump_headers verified (publish now head safe conf_safe nd1)" "r = Inr (head, safe)"
      "w = (if grew then persist_checkpoint X (ups 0) nd' else None)"
proof (cases "up_block_number (ups 0)")
  case (Inl e)
  then show thesis using transport [of e] assms by (simp add: refresh_now_def)
next
  case (Inr tip)
  obtain res nd1 where rs: "resync_locked X ups tip nd = (res, nd1)" by (cases "resync_locked X ups tip nd")
  show thesis
  proof (cases res)
    case (Inl e)
    then show thesis using rejected [of tip e nd1] assms rs Inr by (simp add: refresh_now_def)
  next
    case ok: (Inr v)
    obtain safe conf_safe verified grew where v: "v = (safe, conf_safe, verified, grew)" by (cases v)
    show thesis
      by (rule synced [OF rs [unfolded ok v] refl]) (use assms rs Inr ok v in \<open>auto simp: refresh_now_def Let_def\<close>)
  qed
qed

lemma publish_fields [simp]:
  "nd_chain (publish now head safe conf_safe nd) = nd_chain nd" "nd_snapshot (publish now head safe conf_safe nd) = nd_snapshot nd"
  "nd_rollbacks (publish now head safe conf_safe nd) = nd_rollbacks nd" "nd_origin (publish now head safe conf_safe nd) = nd_origin nd"
  by (simp_all add: publish_def Let_def)

lemma bump_headers_fields [simp]:
  "nd_chain (bump_headers n nd) = nd_chain nd" "nd_snapshot (bump_headers n nd) = nd_snapshot nd"
  "nd_rollbacks (bump_headers n nd) = nd_rollbacks nd" "nd_origin (bump_headers n nd) = nd_origin nd"
  by (simp_all add: bump_headers_def)

lemma refresh_now_inv:
  assumes inv: "node_inv X nd" and up: "\<And>i. serves_at_most k (ups i)"
    and b: "node_below n nd" "n + 2 * k \<le> u64_max" and rf: "refresh_now X ups now nd = (r, w, nd')"
  shows "node_inv X nd' \<and> node_below (n + 2 * k) nd' \<and> nd_origin nd' = nd_origin nd"
  using rf
proof (cases rule: refresh_now_cases)
  case (transport e)
  have "node_below (n + 2 * k) nd" using b(1) by (auto simp: node_below_def)
  then show ?thesis using transport(3) inv node_inv_cong(1) [of nd' nd X] node_inv_cong(2) [of nd' nd] by simp
next
  case (rejected tip e nd1)
  from resync_locked_inv [OF inv up b rejected(1)] show ?thesis using rejected(4) node_inv_cong(1) [of nd' nd1 X] node_inv_cong(2) [of nd' nd1] by simp
next
  case (synced tip safe conf_safe verified grew nd1 head)
  from resync_locked_inv [OF inv up b synced(1)] show ?thesis using synced(3) node_inv_cong(1) [of nd' nd1 X] node_inv_cong(2) [of nd' nd1] by simp
qed

lemma refresh_inv:
  assumes "node_inv X nd" "\<And>i. serves_at_most k (ups i)" "node_below n nd" "n + 2 * k \<le> u64_max"
    and "refresh X ups now nd = (r, w, nd')"
  shows "node_inv X nd' \<and> node_below (n + 2 * k) nd' \<and> nd_origin nd' = nd_origin nd"
proof (cases "published_if_fresh now nd")
  case None
  then show ?thesis using refresh_now_inv [OF assms(1-4)] assms(5) by (simp add: refresh_def)
next
  case (Some f)
  then show ?thesis using assms by (auto simp: refresh_def node_below_def)
qed

section \<open>Reachable nodes\<close>

lemma wait_for_safe_inv:
  assumes "wait_for_safe X obs st = Some (Inr (safe, st'))" "sync_inv X st" "snd st \<noteq> None"
    and "\<forall>(up, x) \<in> set obs. serves_at_most k up" "height st + k * length obs \<le> u64_max"
  shows "sync_inv X st' \<and> snd st' \<noteq> None \<and> height st' \<le> height st + k * length obs"
  using assms
proof (induction obs arbitrary: st)
  case Nil
  then show ?case by (subst (asm) wait_for_safe.simps) (auto split: sum.splits)
next
  case (Cons o1 obs)
  obtain up x where o1: "o1 = (up, x)" by (cases o1)
  show ?case
  proof (cases "safe_of X (fst st)")
    case (Inr sf)
    then show ?thesis using Cons.prems by (subst (asm) wait_for_safe.simps) auto
  next
    case (Inl e)
    then obtain newer st1 where a: "append_new_with_snapshot X up newer st = (Inr (), st1)"
      and w: "wait_for_safe X obs st1 = Some (Inr (safe, st'))"
      using Cons.prems(1) by (subst (asm) wait_for_safe.simps) (auto simp: o1 split: if_splits sum.splits prod.splits)
    have up: "serves_at_most k up" and h: "height st + k \<le> u64_max" using Cons.prems(4,5) by (auto simp: o1)
    from append_new_with_snapshot_inv [OF Cons.prems(2) up h a]
    have i: "sync_inv X st1" "height st1 \<le> height st + k" "snd st1 \<noteq> None" using Cons.prems(3) by auto
    have "sync_inv X st' \<and> snd st' \<noteq> None \<and> height st' \<le> height st1 + k * length obs"
      using Cons.IH [OF w i(1,3)] Cons.prems(4,5) i(2) by auto
    then show ?thesis using i(2) by auto
  qed
qed

lemma seeded_node_inv:
  assumes "sync_inv X (nd_chain nd, Some s)" "nd_snapshot nd = Some s" "nd_rollbacks nd = [s]"
  shows "node_inv X nd"
proof -
  have "rollback_ok (nd_chain nd) s" using assms(1) by (auto simp: rollback_ok_def sync_inv_def intro: last_in_set)
  then show ?thesis using assms by (simp add: node_inv_def rollbacks_inv_def ROLLBACK_KEEP_def sync_inv_def)
qed

lemma bootstrap_from_checkpoint_inv:
  assumes bs: "bootstrap_from_checkpoint X up obs lookback max_sync cp = Some (Inr nd)"
    and up: "serves_at_most k up" "\<forall>(up, x) \<in> set obs. serves_at_most k up"
    and b: "cp_number cp + k * Suc (length obs) \<le> u64_max"
  shows "node_inv X nd \<and> node_below (cp_number cp + k * Suc (length obs)) nd"
proof -
  obtain tip chain snap safe st' where w: "walk_from_checkpoint X up cp tip max_sync = Inr (chain, snap)"
    and ws: "wait_for_safe X obs (chain, Some snap) = Some (Inr (safe, st'))"
    and nd: "nd = node_from_walk lookback max_sync cp tip safe (fst st') (the (snd st'))"
    using bs by (auto simp: bootstrap_from_checkpoint_def res_simps split: sum.splits)
  have cpk: "cp_number cp + k \<le> u64_max" using b by simp
  have i: "sync_inv X (chain, Some snap)" "sn_number snap \<le> cp_number cp + k"
    using walk_from_checkpoint_inv [OF w [unfolded walk_from_checkpoint_def] up(1) cpk] by simp_all
  have h: "height (chain, Some snap) + k * length obs \<le> u64_max" using i(2) b by (simp add: height_def)
  have st: "sync_inv X st'" "snd st' \<noteq> None" "height st' \<le> sn_number snap + k * length obs"
    using wait_for_safe_inv [OF ws i(1) _ up(2) h] by (simp_all add: height_def)
  then obtain c s where s: "st' = (c, Some s)" by (cases st') auto
  have "node_inv X nd" using seeded_node_inv [of X nd s] st(1) s by (simp add: nd node_from_walk_def)
  then show ?thesis using st(3) s i(2) by (simp add: nd node_from_walk_def node_below_def height_def)
qed

lemma node_bootstrap_inv: "node_bootstrap X up lookback = Inr nd \<Longrightarrow> node_inv X nd \<and> node_below n nd"
  by (auto simp: node_bootstrap_def res_simps node_inv_def node_below_def height_def sync_inv_def dest: walk_headers_ok)

text \<open>
  Nodes reachable from a start-up, from setters and from any number of syncs with whatever the
  upstream answers; \<open>n\<close> bounds the height reached when no answer holds more than \<open>k\<close> headers.
\<close>

inductive node_run :: "('pk, 'sg) ext \<Rightarrow> nat \<Rightarrow> nat \<Rightarrow> node \<Rightarrow> bool" for X :: "('pk, 'sg) ext" and k :: nat where
  lookback: "node_bootstrap X up lookback = Inr nd \<Longrightarrow> node_run X k 0 nd"
| checkpoint: "bootstrap_from_checkpoint X up obs lookback max_sync cp = Some (Inr nd) \<Longrightarrow> serves_at_most k up \<Longrightarrow>
    \<forall>(up, x) \<in> set obs. serves_at_most k up \<Longrightarrow> node_run X k (cp_number cp + k * Suc (length obs)) nd"
| parts: "chain_ok X chain \<Longrightarrow> node_run X k 0 (from_parts lookback chain)"
| parts_with_snapshot: "sync_inv X (chain, Some s) \<Longrightarrow> node_run X k (sn_number s) (from_parts_with_snapshot lookback chain s fork_id)"
| setter: "node_run X k n nd \<Longrightarrow> nd' \<in> {set_finality_mode m nd, set_checkpoint_store path nd,
    set_allow_unverified_passthrough yes nd, set_backup_transport yes nd, set_metrics_enabled yes nd} \<Longrightarrow> node_run X k n nd'"
| sync: "node_run X k n nd \<Longrightarrow> \<forall>i. serves_at_most k (ups i) \<Longrightarrow> refresh X ups now nd = (r, w, nd') \<Longrightarrow> node_run X k (n + 2 * k) nd'"
| poll: "node_run X k n nd \<Longrightarrow> \<forall>i. serves_at_most k (ups i) \<Longrightarrow> refresh_now X ups now nd = (r, w, nd') \<Longrightarrow> node_run X k (n + 2 * k) nd'"

lemma node_run_facts:
  assumes "node_run X k n nd" "n \<le> u64_max"
  shows "node_inv X nd \<and> node_below n nd"
  using assms
proof induction
  case (lookback up lb nd)
  then show ?case using node_bootstrap_inv by blast
next
  case (checkpoint up obs lb max_sync cp nd)
  then show ?case using bootstrap_from_checkpoint_inv by blast
next
  case (parts chain lb)
  then show ?case by (simp add: node_inv_def from_parts_def sync_inv_def node_below_def height_def)
next
  case (parts_with_snapshot chain s lb fork)
  then show ?case
    by (auto simp: from_parts_with_snapshot_def from_parts_def node_below_def height_def intro!: seeded_node_inv)
next
  case (setter n nd nd' m path yes)
  then show ?case
    using node_inv_cong(1) [of nd' nd X] node_inv_cong(2) [of nd' nd n]
    by (auto simp: set_finality_mode_def set_checkpoint_store_def set_allow_unverified_passthrough_def
        set_backup_transport_def set_metrics_enabled_def)
next
  case (sync n nd ups now r w nd')
  then show ?case using refresh_inv [of X nd k ups n now r w nd'] by simp
next
  case (poll n nd ups now r w nd')
  then show ?case using refresh_now_inv [of X nd k ups n now r w nd'] by simp
qed

text \<open>
  C5. Every reachable node is consistent. Whatever an untrusted upstream answers, and however many
  syncs fail half-way, the kept chain stays linked, signed and consecutive; with a checkpoint
  its numbers increase and it ends at the snapshot's head, so the snapshot is never
  stranded ahead of the chain; and every rollback point within the kept window is the verified
  state at a block of that chain, so recovery cannot rewind onto a branch the node did not verify.
\<close>

theorem node_run_inv:
  assumes "node_run X k n nd" "n \<le> u64_max"
  shows "node_inv X nd \<and> node_below n nd"
  using assms by (rule node_run_facts)

section \<open>The head reads resolve to\<close>

lemma resync_locked_Inr:
  assumes "resync_locked X ups tip nd = (Inr (safe, conf_safe, verified, grew), nd')"
  shows "safe_of X (nd_chain nd') = Inr conf_safe"
    "safe = read_head X (nd_finality_mode nd') (nd_chain nd') (nd_snapshot nd') conf_safe"
  using assms by (auto simp: resync_locked_def split: sum.splits prod.splits)

lemma mainnet_threshold: "min_distinct_sealers mainnet_n_seal = 15"
  by (simp add: min_distinct_sealers_def mainnet_n_seal_def wrap32_def)

lemma safe_of_Inr:
  assumes "safe_of X chain = Inr sh" "length chain < 2 ^ 32"
  obtains i where "0 < i" "i < length chain" "15 \<le> distinct_sealers chain i" "sh = safe_at X chain i 15"
    "\<forall>j. i < j \<and> j < length chain \<longrightarrow> distinct_sealers chain j < 15"
proof -
  have "newest_safe X chain mainnet_n_seal = Some sh" using assms(1) by (auto simp: safe_of_def split: option.splits)
  with newest_safe_cases [OF assms(2), where X = X and n = mainnet_n_seal] that show thesis
    unfolding mainnet_threshold by auto
qed

text \<open>A head that fast finality chose: newer than \<open>conf\<close>, finalized by the snapshot, in the chain.\<close>

definition fast_head :: "('pk, 'sg) ext \<Rightarrow> node \<Rightarrow> safe_head \<Rightarrow> safe_head \<Rightarrow> bool" where
  "fast_head X nd conf sh \<longleftrightarrow>
     nd_finality_mode nd = Fast \<and> sh_number conf < sh_number sh \<and>
     (\<exists>b \<in> set (nd_chain nd). sh_number sh = vb_number b \<and> sh_hash sh = hex0x X (vb_hash b) \<and>
        sh_state_root sh = hex0x X (vb_state_root b) \<and>
        Option.bind (nd_snapshot nd) finalized = Some (vb_number b, vb_hash b))"

lemma read_head_cases:
  "read_head X (nd_finality_mode nd) (nd_chain nd) (nd_snapshot nd) conf = conf \<or>
   fast_head X nd conf (read_head X (nd_finality_mode nd) (nd_chain nd) (nd_snapshot nd) conf)"
proof (cases "nd_finality_mode nd = Fast \<and> (\<exists>n h. Option.bind (nd_snapshot nd) finalized = Some (n, h) \<and> sh_number conf < n)")
  case True
  then obtain n h where f: "nd_finality_mode nd = Fast" "Option.bind (nd_snapshot nd) finalized = Some (n, h)" "sh_number conf < n" by blast
  show ?thesis
  proof (cases "find (\<lambda>b. vb_number b = n \<and> vb_hash b = h) (nd_chain nd)")
    case (Some b)
    then have "b \<in> set (nd_chain nd)" "vb_number b = n" "vb_hash b = h" by (auto simp: find_Some_iff)
    then show ?thesis using f Some by (auto simp: read_head_def fast_finality_head_def fast_head_def)
  qed (use f in \<open>simp add: read_head_def fast_finality_head_def\<close>)
qed (auto simp: read_head_def fast_finality_head_def split: option.splits)

text \<open>
  C4. What a successful sync hands out. The reported tip is the number of the last block of the
  verified chain. The head that reads resolve to either is the newest block of that chain with
  at least fifteen distinct sealers on top of it, with its own hash and state root, or,
  in fast mode only, a strictly newer block of that chain that the snapshot holds finalized; fast mode
  never moves reads backwards. What is published agrees with what is returned.
\<close>

theorem served_head_sound:
  assumes rf: "refresh_now X ups now nd = (Inr (head, safe), w, nd')" and len: "length (nd_chain nd') < 2 ^ 32"
  shows "\<exists>i conf. 0 < i \<and> i < length (nd_chain nd') \<and>
    conf = safe_at X (nd_chain nd') i 15 \<and> 15 \<le> distinct_sealers (nd_chain nd') i \<and>
    (\<forall>j. i < j \<and> j < length (nd_chain nd') \<longrightarrow> distinct_sealers (nd_chain nd') j < 15) \<and>
    head = vb_number (last (nd_chain nd')) \<and> (safe = conf \<or> fast_head X nd' conf safe) \<and>
    nd_last_tip nd' = head \<and> nd_last_safe nd' = sh_number conf \<and>
    fv_head (nd_finality nd') = head \<and> fv_read_head (nd_finality nd') = Some safe"
  using rf
proof (cases rule: refresh_now_cases)
  case (synced tip safe1 conf verified grew nd1 hd1)
  note l = resync_locked_Inr [OF synced(1)]
  have c: "nd_chain nd' = nd_chain nd1" "nd_snapshot nd' = nd_snapshot nd1" using synced(3) by simp_all
  have m: "nd_finality_mode nd' = nd_finality_mode nd1" "nd_last_tip nd' = hd1" "nd_last_safe nd' = sh_number conf"
    "fv_head (nd_finality nd') = hd1" "fv_read_head (nd_finality nd') = Some safe1"
    using synced(3) by (simp_all add: publish_def bump_headers_def Let_def split: option.split)
  from l(1) len [unfolded c(1)] obtain i where i: "0 < i" "i < length (nd_chain nd1)" "15 \<le> distinct_sealers (nd_chain nd1) i"
    "conf = safe_at X (nd_chain nd1) i 15" "\<forall>j. i < j \<and> j < length (nd_chain nd1) \<longrightarrow> distinct_sealers (nd_chain nd1) j < 15"
    by (rule safe_of_Inr)
  have "safe1 = conf \<or> fast_head X nd1 conf safe1" using read_head_cases [of X nd1 conf] l(2) by simp
  then have "safe1 = conf \<or> fast_head X nd' conf safe1" using c m(1) by (simp add: fast_head_def)
  moreover have "hd1 = vb_number (last (nd_chain nd1))" using synced(2) i(2) by auto
  ultimately show ?thesis using i c m synced(4) by (intro exI [of _ i] exI [of _ conf]) simp
qed simp_all

definition wide_chain :: "verified_block list" where
  "wide_chain = map (\<lambda>i. \<lparr>vb_number = i, vb_hash = zeros 32, vb_state_root = zeros 32,
     vb_miner = [word_of_nat i], vb_milli_timestamp = 0, vb_gas_limit = 0, vb_header = None\<rparr>) [0..<16]"

definition idle_upstream :: upstream where
  "idle_upstream = \<lparr>up_block_number = Inr 15, up_header_by_number = (\<lambda>_. Inl []),
     up_header_by_hash = (\<lambda>_. Inl []), up_headers_range = (\<lambda>_ _. Inl [])\<rparr>"

theorem served_head_sound_witness:
  "\<exists>safe w nd'. refresh_now refX (\<lambda>_. idle_upstream) 0 (from_parts 112 wide_chain) = (Inr (15, safe), w, nd') \<and>
     nd_last_tip nd' = 15"
proof -
  let ?nd = "from_parts 112 wide_chain"
  have l: "length wide_chain = 16" "chain_tip wide_chain = 15" "wide_chain \<noteq> []" "vb_number (last wide_chain) = 15"
    by (simp_all add: wide_chain_def chain_tip_def upt_rec)
  have "distinct_sealers wide_chain 1 = 15" by code_simp
  then have "newest_safe refX wide_chain mainnet_n_seal \<noteq> None"
    using newest_safe_cases [where chain = wide_chain and X = refX and n = mainnet_n_seal] l(1)
    unfolding mainnet_threshold by (cases "newest_safe refX wide_chain mainnet_n_seal") (auto dest: spec [of _ 1])
  then obtain sh where sh: "safe_of refX wide_chain = Inr sh" by (auto simp: safe_of_def)
  have a: "append_new refX idle_upstream 15 wide_chain = (Inr (), wide_chain)"
    using l by (simp add: append_new_def append_new_with_snapshot_def Let_def)
  have r: "\<exists>v. resync_locked refX (\<lambda>_. idle_upstream) 15 ?nd = (Inr (sh, sh, v, False), ?nd)"
    using l a sh by (simp add: resync_locked_def resync_lookback_def from_parts_def Let_def sat_add_def read_head_def u64_max_def)
  then obtain v where v: "resync_locked refX (\<lambda>_. idle_upstream) 15 ?nd = (Inr (sh, sh, v, False), ?nd)" ..
  define nd' where "nd' = bump_headers v (publish 0 15 sh sh ?nd)"
  have c: "nd_chain nd' = wide_chain" by (simp add: nd'_def) (simp add: from_parts_def)
  have "refresh_now refX (\<lambda>_. idle_upstream) 0 ?nd = (Inr (15, sh), None, nd')"
    using v l by (simp add: refresh_now_def idle_upstream_def nd'_def) (simp add: from_parts_def)
  with served_head_sound [OF this] l(1) c show ?thesis by auto
qed

section \<open>When recovery succeeds\<close>

text \<open>The walk that recovery tries from a rollback point.\<close>

definition walk_from_point ::
    "('pk, 'sg) ext \<Rightarrow> upstream \<Rightarrow> nat \<Rightarrow> verified_block list \<Rightarrow> snapshot \<Rightarrow> (err, unit) result \<times> sync_state" where
  "walk_from_point X up tip chain p =
     append_new_with_snapshot X up tip (takeWhile (\<lambda>b. vb_number b \<le> sn_number p) chain, Some p)"

definition in_window :: "nat \<Rightarrow> verified_block list \<Rightarrow> snapshot \<Rightarrow> bool" where
  "in_window tip chain p \<longleftrightarrow> chain_floor chain \<le> sn_number p \<and> sn_number p \<le> tip"

lemma candidate_ends:
  assumes "ascending chain" "rollback_ok chain p" "chain_floor chain \<le> sn_number p"
  shows "takeWhile (\<lambda>b. vb_number b \<le> sn_number p) chain \<noteq> []"
    "vb_number (last (takeWhile (\<lambda>b. vb_number b \<le> sn_number p) chain)) = sn_number p"
proof -
  let ?c = "takeWhile (\<lambda>b. vb_number b \<le> sn_number p) chain"
  obtain b where b: "b \<in> set chain" "vb_number b = sn_number p" using assms(2,3) by (auto simp: rollback_ok_def)
  then have in_c: "b \<in> set ?c" using in_takeWhile_number [OF assms(1)] by simp
  then show ne: "?c \<noteq> []" by auto
  have "chain = ?c @ dropWhile (\<lambda>b. vb_number b \<le> sn_number p) chain" by simp
  then have "ascending ?c" using assms(1) by (metis map_append sorted_wrt_append)
  from sorted_last_max [OF this in_c] b(2) have "sn_number p \<le> vb_number (last ?c)" by simp
  moreover have "vb_number (last ?c) \<le> sn_number p" using set_takeWhileD last_in_set [OF ne] by fastforce
  ultimately show "vb_number (last ?c) = sn_number p" by simp
qed

lemma try_rollbacks_complete:
  assumes asc: "ascending chain" and p: "p \<in> set ps" "in_window tip chain p" "walk_from_point X up tip chain p = (Inr (), st)"
    and ps: "sorted_wrt (\<ge>) (map sn_number ps)" "\<forall>q \<in> set ps. rollback_ok chain q"
    and link: "\<forall>q \<in> set ps. sn_number p \<le> sn_number q \<and> in_window tip chain q \<longrightarrow>
      (\<forall>e st. walk_from_point X up tip chain q = (Inl e, st) \<longrightarrow> is_link_err e)"
  shows "\<exists>q c s. q \<in> set ps \<and> sn_number p \<le> sn_number q \<and> walk_from_point X up tip chain q = (Inr (), c, s) \<and>
    try_rollbacks X (\<lambda>_. up) tip chain tried ps = Recovered c s (sn_number q)"
  using p(1) ps link
proof (induction ps arbitrary: tried)
  case (Cons q ps)
  have tail: ?case if in_ps: "p \<in> set ps" and skip: "\<exists>t. try_rollbacks X (\<lambda>_. up) tip chain tried (q # ps) = try_rollbacks X (\<lambda>_. up) tip chain t ps"
  proof -
    obtain t where t: "try_rollbacks X (\<lambda>_. up) tip chain tried (q # ps) = try_rollbacks X (\<lambda>_. up) tip chain t ps" using skip ..
    show ?thesis using Cons.IH [OF in_ps, of t] Cons.prems(2-4) t by (auto simp del: try_rollbacks.simps)
  qed
  show ?case
  proof (cases "in_window tip chain q")
    case False
    then have "p \<in> set ps" using p(2) Cons.prems(1) by auto
    then show ?thesis by (rule tail) (use False in \<open>auto simp: in_window_def\<close>)
  next
    case True
    have ge: "sn_number p \<le> sn_number q" using Cons.prems(1,2) by auto
    have e: "takeWhile (\<lambda>b. vb_number b \<le> sn_number q) chain \<noteq> []"
      "vb_number (last (takeWhile (\<lambda>b. vb_number b \<le> sn_number q) chain)) = sn_number q"
      using candidate_ends [OF asc] Cons.prems(3) True by (auto simp: in_window_def)
    obtain r c s where w: "walk_from_point X up tip chain q = (r, c, s)" by (cases "walk_from_point X up tip chain q")
    have step: "try_rollbacks X (\<lambda>_. up) tip chain tried (q # ps) =
        (case r of Inr _ \<Rightarrow> Recovered c s (sn_number q)
         | Inl er \<Rightarrow> if is_link_err er then try_rollbacks X (\<lambda>_. up) tip chain (Suc tried) ps else Other_failure er)"
      using True e w by (simp add: in_window_def walk_from_point_def Let_def split: sum.split)
    show ?thesis
    proof (cases r)
      case (Inl er)
      then have "p \<in> set ps" using w p(3) Cons.prems(1) by auto
      moreover have "is_link_err er" using Cons.prems(4) ge True w Inl by auto
      ultimately show ?thesis using tail step Inl by auto
    next
      case (Inr u)
      then show ?thesis using w step ge by (intro exI [of _ q] exI [of _ c] exI [of _ s]) simp
    qed
  qed
qed simp

text \<open>
  C6. Recovery from a reorganisation goes far enough back. Suppose that some retained
  rollback point within the window lies on the branch the upstream now serves, so that the walk from it to
  the tip is accepted, and that the walks from the points at or above it in the window fail, if at all, by a broken link
  (a walk that fails for another reason ends the recovery).
  Then recovery succeeds, from that point or a newer one, and the node ends with the chain and the
  snapshot of that walk.
\<close>

theorem reorg_recovered:
  assumes inv: "node_inv X nd" and p: "p \<in> set (nd_rollbacks nd)" "in_window tip (nd_chain nd) p"
    and walk: "walk_from_point X up tip (nd_chain nd) p = (Inr (), st)"
    and newer: "\<forall>q \<in> set (nd_rollbacks nd). sn_number p \<le> sn_number q \<and> in_window tip (nd_chain nd) q \<longrightarrow>
      (\<forall>e st. walk_from_point X up tip (nd_chain nd) q = (Inl e, st) \<longrightarrow> is_link_err e)"
  shows "\<exists>q nd'. q \<in> set (nd_rollbacks nd) \<and> sn_number p \<le> sn_number q \<and>
    recover_from_link_break X (\<lambda>_. up) tip err nd = (Inr (), nd') \<and>
    walk_from_point X up tip (nd_chain nd) q = (Inr (), nd_chain nd', nd_snapshot nd')"
proof -
  obtain s where s: "nd_snapshot nd = Some s" using inv p(1) by (cases "nd_snapshot nd") (auto simp: node_inv_def)
  have i: "ascending (nd_chain nd)" "sorted (map sn_number (nd_rollbacks nd))" "\<forall>q \<in> set (nd_rollbacks nd). rollback_ok (nd_chain nd) q"
    using inv by (auto simp: node_inv_def s sync_inv_def rollbacks_inv_def)
  have "sorted_wrt (\<ge>) (map sn_number (rev (nd_rollbacks nd)))" using i(2) by (simp add: rev_map [symmetric] sorted_wrt_rev)
  with try_rollbacks_complete [OF i(1), of p "rev (nd_rollbacks nd)" tip X up st 0] p walk i(3) newer
  obtain q c s' where q: "q \<in> set (nd_rollbacks nd)" "sn_number p \<le> sn_number q" "walk_from_point X up tip (nd_chain nd) q = (Inr (), c, s')"
    "try_rollbacks X (\<lambda>_. up) tip (nd_chain nd) 0 (rev (nd_rollbacks nd)) = Recovered c s' (sn_number q)" by auto
  then show ?thesis by (intro exI [of _ q]) (auto simp: recover_from_link_break_def)
qed

section \<open>A reorganisation that is not recognised\<close>

lemma ascii_lower_space: "ascii_lower c = CHR '' '' \<longleftrightarrow> c = CHR '' ''"
proof (cases "65 \<le> (of_char c :: nat) \<and> (of_char c :: nat) \<le> 90")
  case True
  then have "of_char (ascii_lower c) = (of_char c + 32 :: nat)" by (simp add: ascii_lower_def)
  then show ?thesis using True by auto
qed (auto simp: ascii_lower_def)

lemma radix16_loop_digits: "radix16_loop acc cs = Inr n \<Longrightarrow> c \<in> set cs \<Longrightarrow> to_digit16 c \<noteq> None"
  by (induction acc cs rule: radix16_loop.induct) (auto split: option.splits if_splits)

lemma hex_text_no_space:
  assumes "decode_u64 t = Inr n"
  shows "CHR '' '' \<notin> set (to_ascii_lowercase t)"
proof
  assume "CHR '' '' \<in> set (to_ascii_lowercase t)"
  then have "CHR '' '' \<in> set t" by (metis (no_types) imageE list.set_map ascii_lower_space to_ascii_lowercase_def)
  then have sp: "CHR '' '' \<in> set (strip_0x t)" by (cases t rule: strip_0x.cases) auto
  have no: "to_digit16 CHR '' '' = None" by code_simp
  obtain r where r: "from_str_radix16 (strip_0x t) = Inr r" using assms sp by (auto simp: decode_u64_def res_simps Let_def split: if_splits)
  show False
    using r sp radix16_loop_digits [of 0 "strip_0x t" r "CHR '' ''"] radix16_loop_digits [of 0 "tl (strip_0x t)" r "CHR '' ''"] no
    by (cases "strip_0x t") (auto simp: from_str_radix16_def split: if_splits)
qed

lemma cascading_not_link:
  assumes "decode_u64 (h_number h) = Inr n"
  shows "\<not> is_link_err [''cascading '' @ h_number h, show_seal_error (TimestampTooEarly g q i)]"
proof -
  let ?r = "to_ascii_lowercase (h_number h)"
  have c: "to_ascii_lowercase ''cascading '' = ''cascadin'' @ ''g'' @ '' ''" by code_simp
  have f: "\<forall>p \<in> set LINK_ERR_PHRASES. \<not> str_contains ''cascadin'' p \<and> CHR ''g'' \<notin> set p \<and> take 1 p \<noteq> '' '' \<and> p \<noteq> []" by code_simp
  have "\<not> str_contains (to_ascii_lowercase (''cascading '' @ h_number h)) p" if p: "p \<in> set LINK_ERR_PHRASES" for p
  proof -
    have r: "\<not> str_contains ?r p" using str_contains_subset [of ?r p] hex_text_no_space [OF assms] phrase_facts p by blast
    have "\<not> str_contains (CHR '' '' # ?r) p" using r f p by (cases p) auto
    moreover have "to_ascii_lowercase (''cascading '' @ h_number h) = ''cascadin'' @ ''g'' @ CHR '' '' # ?r"
      unfolding to_ascii_lowercase_append c by simp
    moreover have "set ''g'' \<inter> set p = {}" "\<not> str_contains ''cascadin'' p" using f p by (simp_all del: str_contains.simps)
    ultimately show ?thesis using str_contains_across [of "''g''" p "''cascadin''" "CHR '' '' # ?r"] by (metis list.distinct(1))
  qed
  then show ?thesis using not_link_parts by (auto simp: is_link_err_def)
qed

text \<open>
  C8. A reorganisation at the tip can go unrecognised. The timestamp of a new header is checked
  against the local tip before its parent hash is looked at. When the first header the upstream
  serves is earlier than the local tip plus the block interval, as on a winning branch whose
  block at the tip's height is older than the orphaned one, the sync fails
  with an error that is not taken for a broken link, whatever the header's parent: recovery does not run,
  no rollback point is tried, and the node stays as it was but for the failure counter, so the next sync
  meets the same header and fails the same way.
\<close>

theorem masked_reorg:
  assumes st: "nd_chain nd \<noteq> []" "nd_snapshot nd = Some s"
    and tip: "up_block_number (ups 0) = Inr tip" "chain_tip (nd_chain nd) < tip" "tip \<le> sat_add (chain_tip (nd_chain nd)) (nd_max_sync nd)"
    and hs: "up_headers_range (ups 0) (wrap64 (chain_tip (nd_chain nd) + 1)) tip = Inr ((t, h) # rest)"
    and early: "verify_cascading_vs_parent X (vb_milli_timestamp (last (nd_chain nd))) (vb_gas_limit (last (nd_chain nd))) h
      = Inl (TimestampTooEarly g q i)"
  shows "\<exists>e. \<not> is_link_err e \<and>
    refresh_now X ups now nd = (Inl e, None, nd\<lparr>nd_header_verify_fail := wrap64 (nd_header_verify_fail nd + 1)\<rparr>)"
proof -
  let ?e = "[''cascading '' @ h_number h, show_seal_error (TimestampTooEarly g q i)]"
  obtain n where n: "decode_u64 (h_number h) = Inr n"
    using early by (cases "decode_u64 (h_number h)") (auto simp: verify_cascading_vs_parent_def s_u64_def split: if_splits)
  have nl: "\<not> is_link_err ?e" by (rule cascading_not_link [OF n])
  have "snapshot_block X (nd_chain nd) h = Inl ?e"
    using st(1) early by (simp add: snapshot_block_def context_res_def seal_res_def context_err_def)
  then have "append_new_with_snapshot X (ups 0) tip (nd_chain nd, Some s) = (Inl ?e, nd_chain nd, Some s)"
    using tip(2) hs by (simp add: append_new_with_snapshot_def Let_def)
  then have "resync_locked X ups tip nd = (Inl ?e, nd)"
    using st(2) tip(3) nl by (simp add: resync_locked_def resync_snapshot_def Let_def set_sync_def not_less)
  then show ?thesis using nl tip(1) by (intro exI [of _ ?e]) (simp add: refresh_now_def)
qed

section \<open>A sample node\<close>

definition sample_block0 :: verified_block where
  "sample_block0 = \<lparr>vb_number = 0, vb_hash = zeros 32, vb_state_root = zeros 32, vb_miner = zeros 20,
     vb_milli_timestamp = 0, vb_gas_limit = 0, vb_header = None\<rparr>"

definition sample_up :: upstream where
  "sample_up = \<lparr>up_block_number = Inr 1, up_header_by_number = (\<lambda>_. Inl []), up_header_by_hash = (\<lambda>_. Inl []),
     up_headers_range = (\<lambda>_ _. Inr [(0, sample_header ''0x1'' 1 (zeros 32))])\<rparr>"

definition booted_node :: node where
  "booted_node = from_parts_with_snapshot 112 [sample_block0] sample_snap ''fermi''"

lemma sample_sync_inv: "sync_inv refX ([sample_block0], Some sample_snap)"
proof -
  have "snapshot_inv sample_snap"
    using from_checkpoint_inv [OF from_checkpoint_sample] by (simp add: sample_cp_def is_u64_def)
  then show ?thesis by (simp add: sync_inv_def sample_block0_def)
qed

lemma booted_node_run: "node_run refX 1 0 booted_node"
  using node_run.parts_with_snapshot [OF sample_sync_inv, of 1 112 "''fermi''"] by (simp add: booted_node_def)

theorem node_run_inv_witness: "node_inv refX (snd (snd (refresh_now refX (\<lambda>_. sample_up) 0 booted_node)))"
proof -
  have s: "\<forall>i::nat. serves_at_most 1 sample_up" by (simp add: serves_at_most_def sample_up_def)
  obtain r w nd where rf: "refresh_now refX (\<lambda>_. sample_up) 0 booted_node = (r, w, nd)"
    by (cases "refresh_now refX (\<lambda>_. sample_up) 0 booted_node")
  from node_run_inv [OF node_run.poll [OF booted_node_run s rf]] rf show ?thesis by (simp add: u64_max_def)
qed

lemma sample_walk_point:
  "\<exists>st. walk_from_point refX sample_up 1 [sample_block0] sample_snap = (Inr (), st)"
proof -
  define h where "h = sample_header ''0x1'' 1 (zeros 32)"
  have v: "verify_seal_coinbase refX 0 h = Inr (zeros 20)" unfolding h_def by (rule sample_header_ok) simp_all
  obtain m where m: "milli_timestamp refX h = Inr m" using sealed_milli_ok [OF v] by blast
  have d: "decode_u64 (h_number h) = Inr 1" "decode_u64 (h_gas_limit h) = Inr 5000"
    "decode_hex_fixed refX 32 (h_hash h) = Inr (sample_hash 1 (zeros 32))" "decode_hex_fixed refX 32 (h_state_root h) = Inr (zeros 32)"
    by (simp_all add: h_def sample_header_def sample_body_def decode_hex_fixed_hex0x)
  obtain b where b: "snapshot_block refX [sample_block0] h = Inr b"
    by (simp add: snapshot_block_def block_fields_def m d types_res_def seal_res_def context_res_def
        verify_cascading_vs_parent_def sample_block0_def)
  have up: "up_headers_range sample_up a c = Inr [(0, h)]" for a c by (simp add: sample_up_def h_def)
  have c0: "chain_tip [sample_block0] = 0" by (simp add: chain_tip_def sample_block0_def)
  have tw: "takeWhile (\<lambda>b. vb_number b \<le> sn_number sample_snap) [sample_block0] = [sample_block0]" by (simp add: sample_block0_def)
  show ?thesis unfolding walk_from_point_def tw
    using b sample_apply [folded h_def] by (simp add: append_new_with_snapshot_def c0 up)
qed

theorem reorg_recovered_witness:
  "\<exists>nd'. recover_from_link_break refX (\<lambda>_. sample_up) 1 [] booted_node = (Inr (), nd')"
proof -
  obtain st where w: "walk_from_point refX sample_up 1 [sample_block0] sample_snap = (Inr (), st)" using sample_walk_point by blast
  have inv: "node_inv refX booted_node"
    by (rule seeded_node_inv [of _ _ sample_snap]) (simp_all add: booted_node_def from_parts_with_snapshot_def from_parts_def sample_sync_inv)
  have f: "nd_rollbacks booted_node = [sample_snap]" "nd_chain booted_node = [sample_block0]"
    by (simp_all add: booted_node_def from_parts_with_snapshot_def from_parts_def)
  have "in_window 1 [sample_block0] sample_snap" by (simp add: in_window_def chain_floor_def sample_block0_def)
  then show ?thesis using reorg_recovered [OF inv, of sample_snap 1 sample_up st "[]"] w by (auto simp: f)
qed

definition late_node :: node where
  "late_node = from_parts_with_snapshot 112
     [sample_block0\<lparr>vb_milli_timestamp := 1000, vb_gas_limit := 5000\<rparr>] sample_snap ''fermi''"

theorem masked_reorg_witness:
  "\<exists>e. \<not> is_link_err e \<and> refresh_now refX (\<lambda>_. sample_up) 0 late_node = (Inl e, None, late_node\<lparr>nd_header_verify_fail := 1\<rparr>)"
proof -
  define h where "h = sample_header ''0x1'' 1 (zeros 32)"
  let ?b = "sample_block0\<lparr>vb_milli_timestamp := 1000, vb_gas_limit := 5000\<rparr>"
  have d: "decode_u64 (h_number h) = Inr 1" "decode_u64 (h_timestamp h) = Inr 0" "decode_hex_fixed refX 32 (h_mix_hash h) = Inr (zeros 32)"
    by (simp_all add: h_def sample_header_def sample_body_def decode_hex_fixed_hex0x)
  have m: "milli_timestamp refX h = Inr 0" using d by (simp add: milli_timestamp_def s_u64_def s_fixed_def sat_mul_def LORENTZ_TIME_def)
  have p: "fp_block_interval_ms (params_at 1 0) = 3000" by (simp add: params_at_def fork_times fork_lengths)
  have early: "verify_cascading_vs_parent refX (vb_milli_timestamp ?b) (vb_gas_limit ?b) h = Inl (TimestampTooEarly 0 1000 3000)"
    using d m p by (simp add: verify_cascading_vs_parent_def s_u64_def Let_def sat_add_def u64_max_def)
  have f: "nd_chain late_node = [?b]" "nd_snapshot late_node = Some sample_snap" "nd_max_sync late_node = 112" "nd_header_verify_fail late_node = 0"
    by (simp_all add: late_node_def from_parts_with_snapshot_def from_parts_def)
  have c0: "chain_tip [?b] = 0" by (simp add: chain_tip_def sample_block0_def)
  have up: "up_headers_range sample_up a c = Inr ((0, h) # [])" "up_block_number sample_up = Inr 1" for a c by (simp_all add: sample_up_def h_def)
  have tip: "chain_tip (nd_chain late_node) < 1" "1 \<le> sat_add (chain_tip (nd_chain late_node)) (nd_max_sync late_node)"
    by (simp_all add: f c0 sat_add_def u64_max_def)
  have "nd_chain late_node \<noteq> []" by (simp add: f)
  from masked_reorg [OF this f(2) up(2) tip up(1), of refX 0 1000 3000 0] early f show ?thesis
    by (simp add: is_u64_def u64_max_def)
qed

end
