(* ===== verification/Mpt.thy ===== *)
theory Mpt
  imports Rlp Reference
begin

text \<open>
  Merkle-Patricia proof verification (\<open>helios-bsc-execution/src/mpt.rs\<close>): the walk of a proof
  from a root along the nibbles of a key, inlined children included, the decoding of account
  and storage leaves, and the binding property that makes an accepted proof meaningful.

  The recursion passes the unread proof nodes and the unread nibbles explicitly. Indexing a branch
  by a nibble panics in the source when the nibble exceeds 16; the model reports that
  as \<open>IndexPanic\<close> and proves it cannot happen. The source fixes the key to 32 bytes; the
  model takes a key of any length, and every call of the program passes a 32-byte hash.
\<close>

section \<open>Nibbles and hex-prefix paths\<close>

datatype mpt_error =
    MptRlp rlp_error
  | MptHashMismatch
  | PathMismatch nat nat nat
  | EmptyChild
  | Exhausted
  | ExtraNodes
  | BadAccount
  | KeyLeftover
  | BadStorageLeaf
  | IndexPanic

record account =
  ac_nonce :: nat
  ac_balance :: bytes
  ac_storage_root :: bytes
  ac_code_hash :: bytes

definition EMPTY_CODE_HASH :: bytes where
  "EMPTY_CODE_HASH =
     [0xc5, 0xd2, 0x46, 0x01, 0x86, 0xf7, 0x23, 0x3c, 0x92, 0x7e, 0x7d, 0xb2, 0xdc, 0xc7, 0x03, 0xc0,
      0xe5, 0x00, 0xb6, 0x53, 0xca, 0x82, 0x27, 0x3b, 0x7b, 0xfa, 0xd8, 0x04, 0x5d, 0x85, 0xa4, 0x70]"

definition EMPTY_TRIE_ROOT :: bytes where
  "EMPTY_TRIE_ROOT =
     [0x56, 0xe8, 0x1f, 0x17, 0x1b, 0xcc, 0x55, 0xa6, 0xff, 0x83, 0x45, 0xe6, 0x92, 0xc0, 0xf8, 0x6e,
      0x5b, 0x48, 0xe0, 0x1b, 0x99, 0x6c, 0xad, 0xc0, 0x01, 0x62, 0x2f, 0xb5, 0xe3, 0x63, 0xb4, 0x21]"

unbundle bit_operations_syntax

definition bytes_to_nibbles :: "bytes \<Rightarrow> bytes" where
  "bytes_to_nibbles b = concat (map (\<lambda>x. [drop_bit 4 x, x AND 0x0f]) b)"

definition hex_prefix_decode :: "bytes \<Rightarrow> (mpt_error, bytes \<times> bool) result" where
  "hex_prefix_decode path =
     (let bad = PathMismatch 0 0 0 in
      if path = [] then Inl bad
      else
        let flag = drop_bit 4 (hd path) in
        if 3 < flag then Inl bad
        else
          let is_odd = (flag AND 1 = 1); is_leaf = (flag AND 2 = 2); nibs = bytes_to_nibbles path
          in if is_odd then Inr (drop 1 nibs, is_leaf)
             else if length nibs < 2 then Inl bad
             else if nibs ! 1 \<noteq> 0 then Inl bad
             else Inr (drop 2 nibs, is_leaf))"

definition node_ref :: "('pk, 'sg) ext \<Rightarrow> bytes \<Rightarrow> bytes" where
  "node_ref X node = (if length node < 32 then node else keccak X node)"

section \<open>The proof walk\<close>

text \<open>The bytes of an item that the walk can still descend into.\<close>

fun rlp_weight :: "rlp \<Rightarrow> nat" where
  "rlp_weight (RBytes b) = length b"
| "rlp_weight (RList xs) = 1 + sum_list (map rlp_weight xs)"

lemma rlp_weight_encode: "rlp_small x \<Longrightarrow> rlp_weight x \<le> length (rlp_encode x)"
proof (induction x rule: rlp_weight.induct)
  case (1 b)
  then show ?case using frame_length [of b False] by (simp add: rlp_encode_RBytes del: rlp_encode.simps)
next
  case (2 xs)
  have "sum_list (map rlp_weight xs) \<le> length (concat (map rlp_encode xs))"
    unfolding length_concat map_map comp_def
    using 2 by (intro sum_list_mono) (auto simp: list_all_iff)
  moreover have "length (concat (map rlp_encode xs)) < length (rlp_encode (RList xs))"
    using 2(2) frame_list_length by (simp add: rlp_encode_RList del: rlp_encode.simps)
  ultimately show ?case by simp
qed

lemma decode_weight: "decode b = Inr x \<Longrightarrow> rlp_weight x \<le> length b"
  using exec_rlp.top_iff [of b x] rlp_weight_encode [of x] by auto

lemma weight_nth: "i < length xs \<Longrightarrow> rlp_weight (xs ! i) \<le> sum_list (map rlp_weight xs)"
  by (simp add: member_le_sum_list)

lemma as_list_weight: "rbind (decode b) as_list = Inr v \<Longrightarrow> Suc (sum_list (map rlp_weight v)) \<le> length b"
proof -
  assume "rbind (decode b) as_list = Inr v"
  then have "decode b = Inr (RList v)" by (auto simp: res_simps elim: as_list.elims)
  from decode_weight [OF this] show ?thesis by simp
qed

function (sequential) consume_hashed ::
    "('pk, 'sg) ext \<Rightarrow> bytes list \<Rightarrow> bytes \<Rightarrow> bytes \<Rightarrow> (mpt_error, bytes option) result"
  and walk_items ::
    "('pk, 'sg) ext \<Rightarrow> rlp list \<Rightarrow> bytes list \<Rightarrow> bytes \<Rightarrow> (mpt_error, bytes option) result"
  and follow_child ::
    "('pk, 'sg) ext \<Rightarrow> rlp \<Rightarrow> bytes list \<Rightarrow> bytes \<Rightarrow> bool \<Rightarrow> (mpt_error, bytes option) result"
where
  "consume_hashed X rest expected nibbles =
     (case rest of
        [] \<Rightarrow> Inl Exhausted
      | raw # rest' \<Rightarrow>
          if node_ref X raw \<noteq> expected then Inl MptHashMismatch
          else
            (case rbind (decode raw) as_list of
               Inl e \<Rightarrow> Inl (MptRlp e)
             | Inr items \<Rightarrow> walk_items X items rest' nibbles))"
| "walk_items X items rest nibbles =
     (if length items = 17 then
        (case nibbles of
           [] \<Rightarrow> follow_child X (items ! 16) rest [] True
         | n # ns \<Rightarrow>
             if unat n < 17 then follow_child X (items ! unat n) rest ns False else Inl IndexPanic)
      else if length items = 2 then
        (case rbind (map_err MptRlp (as_bytes (items ! 0))) hex_prefix_decode of
           Inl e \<Rightarrow> Inl e
         | Inr (path, is_leaf) \<Rightarrow>
             if length nibbles < length path \<or> take (length path) nibbles \<noteq> path then
               (if rest = [] then Inr None else Inl (PathMismatch 0 (length nibbles) (length path)))
             else if is_leaf then
               (if drop (length path) nibbles \<noteq> [] then Inl KeyLeftover
                else if rest \<noteq> [] then Inl ExtraNodes
                else map_ok Some (map_err MptRlp (as_bytes (items ! 1))))
             else follow_child X (items ! 1) rest (drop (length path) nibbles) False)
      else Inl (MptRlp Invalid))"
| "follow_child X item rest nibbles branch_value =
     (case item of
        RBytes b \<Rightarrow>
          if b = [] then (if rest = [] then Inr None else Inl EmptyChild)
          else if branch_value then (if rest \<noteq> [] then Inl ExtraNodes else Inr (Some b))
          else if 32 \<le> length b then consume_hashed X rest b nibbles
          else
            (case rbind (decode b) as_list of
               Inl e \<Rightarrow> Inl (MptRlp e)
             | Inr items \<Rightarrow> walk_items X items rest nibbles)
      | RList v \<Rightarrow> walk_items X v rest nibbles)"
  by pat_completeness auto
termination
proof (relation "measures
    [\<lambda>p. case p of Inl (X, rest, _) \<Rightarrow> length rest | Inr (Inl (X, items, rest, _)) \<Rightarrow> length rest
       | Inr (Inr (X, item, rest, _)) \<Rightarrow> length rest,
     \<lambda>p. case p of Inl _ \<Rightarrow> 0 | Inr (Inl (X, items, _)) \<Rightarrow> 2 * sum_list (map rlp_weight items) + 1
       | Inr (Inr (X, item, _)) \<Rightarrow> 2 * rlp_weight item]", goal_cases)
  case 1
  show ?case by simp
qed (auto dest!: as_list_weight simp: weight_nth less_Suc_eq_le)

declare consume_hashed.simps [simp del] walk_items.simps [simp del] follow_child.simps [simp del]

definition verify_nibble_proof ::
    "('pk, 'sg) ext \<Rightarrow> bytes \<Rightarrow> bytes \<Rightarrow> bytes list \<Rightarrow> (mpt_error, bytes option) result" where
  "verify_nibble_proof X root nibbles proof =
     (if proof = [] then Inl Exhausted else consume_hashed X proof root nibbles)"

definition verify_trie_proof ::
    "('pk, 'sg) ext \<Rightarrow> bytes \<Rightarrow> bytes \<Rightarrow> bytes list \<Rightarrow> (mpt_error, bytes option) result" where
  "verify_trie_proof X root hashed_key proof = verify_nibble_proof X root (bytes_to_nibbles hashed_key) proof"

section \<open>Leaves\<close>

definition empty_account :: account where
  "empty_account =
     \<lparr>ac_nonce = 0, ac_balance = [], ac_storage_root = EMPTY_TRIE_ROOT, ac_code_hash = EMPTY_CODE_HASH\<rparr>"

definition rlp_uint :: "bytes \<Rightarrow> (mpt_error, nat) result" where
  "rlp_uint b = (if 8 < length b then Inl BadAccount else Inr (be_u64 b))"

definition account_field :: "rlp \<Rightarrow> (mpt_error, bytes) result" where
  "account_field x = map_err (\<lambda>_. BadAccount) (as_bytes x)"

definition decode_account :: "bytes \<Rightarrow> (mpt_error, account) result" where
  "decode_account value =
     rbind (map_err MptRlp (decode value)) (\<lambda>decoded.
     rbind (map_err (\<lambda>_. BadAccount) (as_list decoded)) (\<lambda>items.
     if length items \<noteq> 4 then Inl BadAccount
     else
     rbind (rbind (account_field (items ! 0)) rlp_uint) (\<lambda>nonce.
     rbind (account_field (items ! 1)) (\<lambda>balance.
     if 32 < length balance then Inl BadAccount
     else
     rbind (account_field (items ! 2)) (\<lambda>storage.
     rbind (account_field (items ! 3)) (\<lambda>code.
     if length storage \<noteq> 32 \<or> length code \<noteq> 32 then Inl BadAccount
     else Inr \<lparr>ac_nonce = nonce, ac_balance = balance, ac_storage_root = storage, ac_code_hash = code\<rparr>))))))"

definition account_of :: "bytes option \<Rightarrow> (mpt_error, account) result" where
  "account_of v = (case v of None \<Rightarrow> Inr empty_account | Some value \<Rightarrow> decode_account value)"

definition verify_account_proof ::
    "('pk, 'sg) ext \<Rightarrow> bytes \<Rightarrow> bytes \<Rightarrow> bytes list \<Rightarrow> (mpt_error, account) result" where
  "verify_account_proof X state_root address proof =
     rbind (verify_trie_proof X state_root (keccak X address) proof) account_of"

definition decode_storage_leaf :: "bytes \<Rightarrow> (mpt_error, bytes) result" where
  "decode_storage_leaf raw =
     (case decode raw of
        Inr (RBytes b) \<Rightarrow> if length b \<le> 32 then Inr b else Inl BadStorageLeaf
      | _ \<Rightarrow> Inl BadStorageLeaf)"

definition storage_word_of :: "bytes option \<Rightarrow> (mpt_error, bytes) result" where
  "storage_word_of v = (case v of None \<Rightarrow> Inr [] | Some raw \<Rightarrow> decode_storage_leaf raw)"

definition verify_storage_proof ::
    "('pk, 'sg) ext \<Rightarrow> bytes \<Rightarrow> bytes \<Rightarrow> bytes list \<Rightarrow> (mpt_error, bytes) result" where
  "verify_storage_proof X storage_root slot proof =
     (if storage_root = EMPTY_TRIE_ROOT then Inr []
      else rbind (verify_trie_proof X storage_root (keccak X slot) proof) storage_word_of)"

definition verify_bytecode :: "('pk, 'sg) ext \<Rightarrow> bytes \<Rightarrow> bytes \<Rightarrow> (mpt_error, unit) result" where
  "verify_bytecode X code expected_hash =
     (if keccak X code \<noteq> expected_hash then Inl MptHashMismatch else Inr ())"

section \<open>Binding\<close>

lemma node_ref_inj:
  assumes "keccak_ok X" "node_ref X a = node_ref X b"
  shows "a = b \<or> collision X a b"
proof -
  have "length (keccak X c) = 32" for c using assms(1) by (rule keccak_okD)
  then show ?thesis using assms(2) by (auto simp: node_ref_def collision_def split: if_splits)
qed

text \<open>A node of one proof and a node of the other that collide under Keccak.\<close>

definition proof_collision :: "('pk, 'sg) ext \<Rightarrow> bytes list \<Rightarrow> bytes list \<Rightarrow> bool" where
  "proof_collision X p q \<longleftrightarrow> (\<exists>a \<in> set p. \<exists>b \<in> set q. collision X a b)"

lemma proof_collision_Cons:
  "collision X a b \<Longrightarrow> proof_collision X (a # p) (b # q)"
  "proof_collision X p q \<Longrightarrow> proof_collision X (a # p) (b # q)"
  by (auto simp: proof_collision_def)

text \<open>Two accepting walks over the same items, nibbles and references agree, whatever proof nodes
  they were given.\<close>

lemma walk_binding:
  assumes X: "keccak_ok X"
  shows "consume_hashed X rest expected nibbles = Inr v \<Longrightarrow>
         consume_hashed X rest' expected nibbles = Inr v' \<Longrightarrow> v = v' \<or> proof_collision X rest rest'"
    and "walk_items X items rest nibbles = Inr v \<Longrightarrow>
         walk_items X items rest' nibbles = Inr v' \<Longrightarrow> v = v' \<or> proof_collision X rest rest'"
    and "follow_child X item rest nibbles branch_value = Inr v \<Longrightarrow>
         follow_child X item rest' nibbles branch_value = Inr v' \<Longrightarrow> v = v' \<or> proof_collision X rest rest'"
  using X
proof (induction X rest expected nibbles and X items rest nibbles and X item rest nibbles branch_value
    arbitrary: rest' v v' and rest' v v' and rest' v v' rule: consume_hashed_walk_items_follow_child.induct)
  case (1 X rest expected nibbles)
  obtain raw tl raw' tl' items items' where
    r: "rest = raw # tl" "node_ref X raw = expected" "rbind (decode raw) as_list = Inr items"
      "walk_items X items tl nibbles = Inr v"
    and r': "rest' = raw' # tl'" "node_ref X raw' = expected" "rbind (decode raw') as_list = Inr items'"
      "walk_items X items' tl' nibbles = Inr v'"
    using 1(2,3) by (auto simp: consume_hashed.simps split: list.splits if_splits sum.splits)
  show ?case
  proof (cases "raw = raw'")
    case True
    then have "v = v' \<or> proof_collision X tl tl'"
      using 1(1) [OF r(1) _ r(3) r(4) _ 1(4)] r(2) r'(3,4) r(3) by simp
    then show ?thesis using proof_collision_Cons(2) [of X tl tl' raw raw'] by (auto simp: r(1) r'(1))
  next
    case False
    then show ?thesis
      using node_ref_inj [OF 1(4), of raw raw'] r(2) r'(2) proof_collision_Cons(1) [of X raw raw' tl tl'] by (auto simp: r(1) r'(1))
  qed
next
  case (2 X items rest nibbles)
  note prems = 2(4,5,6)
  consider (branch) "length items = 17" | (pair) "length items = 2" "length items \<noteq> 17"
    | (other) "length items \<noteq> 17" "length items \<noteq> 2" by blast
  then show ?case
  proof cases
    case branch
    show ?thesis
    proof (cases nibbles)
      case Nil
      then show ?thesis using 2(1) [OF branch Nil, of v rest' v'] prems branch by (simp add: walk_items.simps)
    next
      case (Cons n ns)
      then have "unat n < 17" using prems(1) branch by (simp add: walk_items.simps split: if_splits)
      then show ?thesis using 2(2) [OF branch Cons, of v rest' v'] prems branch Cons by (simp add: walk_items.simps)
    qed
  next
    case pair
    obtain path is_leaf where p: "rbind (map_err MptRlp (as_bytes (items ! 0))) hex_prefix_decode = Inr (path, is_leaf)"
      using prems(1) pair by (auto simp: walk_items.simps split: sum.splits)
    show ?thesis
    proof (cases "(length nibbles < length path \<or> take (length path) nibbles \<noteq> path) \<or> is_leaf")
      case True
      then show ?thesis using prems pair p by (auto simp: walk_items.simps split: if_splits)
    next
      case False
      then show ?thesis
        using 2(3) [OF pair(2,1) p refl, of v rest' v'] prems pair p by (simp add: walk_items.simps)
    qed
  next
    case other
    then show ?thesis using prems by (simp add: walk_items.simps)
  qed
next
  case (3 X item rest nibbles branch_value)
  note prems = 3(4,5,6)
  show ?case
  proof (cases item)
    case (RList vs)
    then show ?thesis using 3(3) [OF RList, of v rest' v'] prems by (simp add: follow_child.simps)
  next
    case (RBytes b)
    consider (stop) "b = [] \<or> branch_value" | (hashed) "b \<noteq> []" "\<not> branch_value" "32 \<le> length b"
      | (inline) "b \<noteq> []" "\<not> branch_value" "\<not> 32 \<le> length b" by blast
    then show ?thesis
    proof cases
      case stop
      then show ?thesis using prems RBytes by (auto simp: follow_child.simps split: if_splits)
    next
      case hashed
      then show ?thesis using 3(1) [OF RBytes hashed, of v rest' v'] prems RBytes by (simp add: follow_child.simps)
    next
      case inline
      then obtain items where "rbind (decode b) as_list = Inr items"
        using prems(1) RBytes by (auto simp: follow_child.simps split: sum.splits)
      then show ?thesis
        using 3(2) [OF RBytes inline, of items v rest' v'] prems RBytes inline by (simp add: follow_child.simps)
    qed
  qed
qed

section \<open>Authenticated lookup\<close>

text \<open>
  The contract of a lookup that is checked against a root: accepted answers for one root and key
  agree, unless the two proofs exhibit a break of the hash. Post-processing an answer, as the
  account and storage readers do, keeps the contract.
\<close>

locale authenticated_lookup =
  fixes lookup :: "'r \<Rightarrow> 'k \<Rightarrow> 'p \<Rightarrow> ('e, 'v) result"
    and broken :: "'p \<Rightarrow> 'p \<Rightarrow> bool"
  assumes binding: "lookup r k p = Inr v \<Longrightarrow> lookup r k p' = Inr v' \<Longrightarrow> v = v' \<or> broken p p'"
begin

lemma derived_binding:
  "rbind (lookup r k p) f = Inr w \<Longrightarrow> rbind (lookup r k p') f = Inr w' \<Longrightarrow> w = w' \<or> broken p p'"
  using binding by (fastforce simp: res_simps)

text \<open>Without a break, the root commits to one map from keys to answers.\<close>

lemma committed_map:
  assumes "\<And>p p'. \<not> broken p p'"
  shows "\<exists>f. \<forall>k p v. lookup r k p = Inr v \<longrightarrow> f k = v"
proof -
  have u: "v' = v" if "lookup r k p = Inr v" "lookup r k p' = Inr v'" for k p p' v v'
    using binding [OF that] assms by auto
  have "(SOME v. \<exists>p. lookup r k p = Inr v) = v" if "lookup r k p = Inr v" for k p v
    using that u by (intro some_equality) auto
  then have "\<forall>k p v. lookup r k p = Inr v \<longrightarrow> (SOME v. \<exists>p. lookup r k p = Inr v) = v" by simp
  then show ?thesis by (rule exI [of _ "\<lambda>k. SOME v. \<exists>p. lookup r k p = Inr v"])
qed

end

definition mpt_broken :: "('pk, 'sg) ext \<Rightarrow> bytes list \<Rightarrow> bytes list \<Rightarrow> bool" where
  "mpt_broken X p q \<longleftrightarrow> \<not> keccak_ok X \<or> proof_collision X p q"

interpretation trie: authenticated_lookup "verify_trie_proof X" "mpt_broken X" for X :: "('pk, 'sg) ext"
proof unfold_locales
  fix r k p p' :: _ and v v'
  assume "verify_trie_proof X r k p = Inr v" "verify_trie_proof X r k p' = Inr v'"
  then show "v = v' \<or> mpt_broken X p p'"
    using walk_binding(1) [of X p r "bytes_to_nibbles k" v p' v']
    by (auto simp: verify_trie_proof_def verify_nibble_proof_def mpt_broken_def split: if_splits)
qed

interpretation accounts: authenticated_lookup "verify_account_proof X" "mpt_broken X" for X :: "('pk, 'sg) ext"
  by unfold_locales (unfold verify_account_proof_def, rule trie.derived_binding)

interpretation storage: authenticated_lookup "verify_storage_proof X" "mpt_broken X" for X :: "('pk, 'sg) ext"
proof unfold_locales
  fix r k p p' :: _ and v v'
  assume "verify_storage_proof X r k p = Inr v" "verify_storage_proof X r k p' = Inr v'"
  then show "v = v' \<or> mpt_broken X p p'"
    using trie.derived_binding [of X r "keccak X k" p storage_word_of v p' v']
    by (auto simp: verify_storage_proof_def split: if_splits)
qed

text \<open>
  C19. A state root has one value per key. If two Merkle proofs for the same root and the same key
  are both accepted, they prove the same value (or both prove absence), unless a node of one and a node of
  the other collide under Keccak.
\<close>

theorem trie_proof_binding:
  assumes "keccak_ok X" "verify_trie_proof X root key p = Inr v" "verify_trie_proof X root key p' = Inr v'"
  shows "v = v' \<or> proof_collision X p p'"
  using trie.binding [OF assms(2,3)] assms(1) by (simp add: mpt_broken_def)

text \<open>
  The same for what clients read: two accepted account proofs for an address under one state root give
  the same nonce, balance, storage root and code hash, and two accepted storage proofs for a
  slot under one storage root give the same word, unless the proofs contain a Keccak collision.
\<close>

lemma account_storage_binding:
  assumes "keccak_ok X"
  shows "(verify_account_proof X root addr p = Inr a \<and> verify_account_proof X root addr p' = Inr a' \<longrightarrow>
            a = a' \<or> proof_collision X p p') \<and>
         (verify_storage_proof X sroot slot q = Inr w \<and> verify_storage_proof X sroot slot q' = Inr w' \<longrightarrow>
            w = w' \<or> proof_collision X q q')"
  using accounts.binding [of X root addr p a p' a'] storage.binding [of X sroot slot q w q' w'] assms
  by (auto simp: mpt_broken_def)

section \<open>No panic\<close>

lemma nibbles_small: "list_all (\<lambda>n. unat n < 16) (bytes_to_nibbles b)"
proof -
  have "unat (drop_bit 4 x) < 16" "unat (x AND 0x0f) < 16" for x :: byte
  proof -
    have "unat (drop_bit 4 x) = unat x div 16" by (simp only: unsigned_drop_bit_eq) (simp add: drop_bit_eq_div take_bit_eq_mod unat_byte_less)
    then show "unat (drop_bit 4 x) < 16" using unat_byte_less [of x] by (simp add: less_mult_imp_div_less)
    have "(0x0f :: byte) = mask 4" by (simp add: mask_eq_exp_minus_1)
    then have "unat (x AND 0x0f) = take_bit 4 (unat x)" by (simp only: take_bit_eq_mask [symmetric] unsigned_take_bit_eq)
    then show "unat (x AND 0x0f) < 16" by (simp add: take_bit_eq_mod)
  qed
  then show ?thesis by (simp add: bytes_to_nibbles_def list_all_iff)
qed

lemma walk_no_panic:
  "list_all (\<lambda>n. unat n < 16) nibbles \<Longrightarrow> consume_hashed X rest expected nibbles \<noteq> Inl IndexPanic"
  "list_all (\<lambda>n. unat n < 16) nibbles \<Longrightarrow> walk_items X items rest nibbles \<noteq> Inl IndexPanic"
  "list_all (\<lambda>n. unat n < 16) nibbles \<Longrightarrow> follow_child X item rest nibbles branch_value \<noteq> Inl IndexPanic"
proof (induction X rest expected nibbles and X items rest nibbles and X item rest nibbles branch_value
    rule: consume_hashed_walk_items_follow_child.induct)
  case (1 X rest expected nibbles)
  then show ?case by (auto simp: consume_hashed.simps split: list.splits sum.splits)
next
  case (2 X items rest nibbles)
  have hp: "hex_prefix_decode p \<noteq> Inl IndexPanic" for p by (simp add: hex_prefix_decode_def Let_def)
  have d: "list_all (\<lambda>n. unat n < 16) (drop k nibbles)" for k
    using 2(4) by (auto simp: list_all_iff dest: in_set_dropD)
  consider (branch) "length items = 17" | (pair) "length items = 2" "length items \<noteq> 17"
    | (other) "length items \<noteq> 17" "length items \<noteq> 2" by blast
  then show ?case
  proof cases
    case branch
    then show ?thesis using 2(1,2,4) by (cases nibbles) (auto simp: walk_items.simps)
  next
    case other
    then show ?thesis by (simp add: walk_items.simps)
  next
    case pair
    show ?thesis
    proof (cases "rbind (map_err MptRlp (as_bytes (items ! 0))) hex_prefix_decode")
      case (Inl e)
      then have "e \<noteq> IndexPanic" using hp by (auto simp: rbind_Inl_iff map_err_def split: sum.splits)
      then show ?thesis using pair Inl by (simp add: walk_items.simps)
    next
      case (Inr pl)
      obtain path is_leaf where pl: "pl = (path, is_leaf)" by (cases pl)
      have "map_ok Some (map_err MptRlp (as_bytes (items ! 1))) \<noteq> Inl IndexPanic"
        by (cases "as_bytes (items ! 1)") auto
      then show ?thesis
        using 2(3) [OF pair(2,1) Inr pl [symmetric] _ _ d] pair Inr pl by (simp add: walk_items.simps)
    qed
  qed
next
  case (3 X item rest nibbles branch_value)
  then show ?case by (auto simp: follow_child.simps split: rlp.splits sum.splits)
qed


text \<open>
  The walk never indexes a branch out of range: on any proof, for any key, the verifier
  returns a value, an exclusion or one of its errors, and terminates.
\<close>

theorem trie_proof_no_panic: "verify_trie_proof X root key p \<noteq> Inl IndexPanic"
  using walk_no_panic(1) [OF nibbles_small, of X p root key]
  by (simp add: verify_trie_proof_def verify_nibble_proof_def)

section \<open>A sample exclusion proof\<close>

definition sample_node :: bytes where
  "sample_node = rlp_encode (RList [RBytes [0x31], RBytes (zeros 40)])"

lemma decode_sample_node: "decode sample_node = Inr (RList [RBytes [0x31], RBytes (zeros 40)])"
proof -
  have "length (concat (map rlp_encode [RBytes [0x31], RBytes (zeros 40)])) = 42"
    by (simp add: encode_bytes_def encode_string_def)
  then show ?thesis
    using exec_rlp.top_iff [of sample_node "RList [RBytes [0x31], RBytes (zeros 40)]"]
    by (simp add: sample_node_def MAX_RLP_DEPTH_def is_u64_def u64_max_def del: rlp_encode.simps)
qed

lemma sample_trie_proof:
  "verify_trie_proof refX (node_ref refX sample_node) (0 # key) [sample_node] = Inr None"
proof -
  have "hex_prefix_decode [0x31] = Inr ([1], True)"
    by code_simp
  then show ?thesis
    by (simp add: verify_trie_proof_def verify_nibble_proof_def consume_hashed.simps decode_sample_node
        walk_items.simps bytes_to_nibbles_def)
qed

theorem trie_proof_binding_witness:
  "verify_trie_proof refX (node_ref refX sample_node) (0 # zeros 31) [sample_node] = Inr None \<and>
   (None = (None :: bytes option) \<or> proof_collision refX [sample_node] [sample_node])"
  using trie_proof_binding [OF keccak_ok_refX sample_trie_proof sample_trie_proof] sample_trie_proof by simp

end
