(* ===== verification/Proof.thy ===== *)
theory Proof
  imports Mpt
begin

text \<open>
  \<open>eth_getProof\<close> responses (\<open>helios-bsc-execution/src/proof.rs\<close> and \<open>lib.rs\<close>): quantities,
  the account check with its caps and claim comparisons, storage slots, contract code, and the
  filter that keeps only requested storage entries.
\<close>

section \<open>Data\<close>

datatype proof_error =
    ProofTypes types_error
  | ProofMpt mpt_error
  | ProofJson string
  | ClaimMismatch string
  | StateRootMismatch
  | TooManyNodes
  | NodeTooLarge
  | TooManyStorageEntries

definition MAX_PROOF_NODES :: nat where "MAX_PROOF_NODES = 32"
definition MAX_PROOF_NODE_BYTES :: nat where "MAX_PROOF_NODE_BYTES = 16384"
definition MAX_CODE_SIZE :: nat where "MAX_CODE_SIZE = 24576"
definition MAX_PROOF_STORAGE_ENTRIES :: nat where "MAX_PROOF_STORAGE_ENTRIES = 64"

record storage_proof_entry =
  se_key :: string
  se_value :: string
  se_proof :: "string list"

record eth_account_proof =
  ep_address :: string
  ep_account_proof :: "string list"
  ep_balance :: string
  ep_code_hash :: string
  ep_nonce :: string
  ep_storage_hash :: string
  ep_storage_proof :: "storage_proof_entry list"

record verified_account =
  va_address :: bytes
  va_nonce :: nat
  va_balance_wei :: bytes
  va_storage_root :: bytes
  va_code_hash :: bytes

section \<open>Quantities\<close>

definition strip_int :: "bytes \<Rightarrow> bytes" where
  "strip_int b = strip_zeros b"

definition decode_qty :: "('pk, 'sg) ext \<Rightarrow> string \<Rightarrow> (types_error, bytes) result" where
  "decode_qty X s =
     (let raw = strip_0x s in
      if raw = [] then Inr []
      else if length raw mod 2 = 1 then decode_hex X (''0x0'' @ raw)
      else decode_hex X s)"

definition qty_equal :: "('pk, 'sg) ext \<Rightarrow> string \<Rightarrow> string \<Rightarrow> bool" where
  "qty_equal X a b =
     (case (decode_qty X a, decode_qty X b) of
        (Inr x, Inr y) \<Rightarrow> strip_int x = strip_int y
      | _ \<Rightarrow> False)"

definition encode_qty :: "('pk, 'sg) ext \<Rightarrow> bytes \<Rightarrow> string" where
  "encode_qty X b =
     (let trimmed = dropWhile (\<lambda>c. c = CHR ''0'') (hex_encode X b)
      in if trimmed = [] then ''0x0'' else ''0x'' @ trimmed)"

definition p_qty :: "('pk, 'sg) ext \<Rightarrow> string \<Rightarrow> (proof_error, bytes) result" where
  "p_qty X s = map_err ProofTypes (decode_qty X s)"

definition parse_qty_u64 :: "('pk, 'sg) ext \<Rightarrow> string \<Rightarrow> (proof_error, nat) result" where
  "parse_qty_u64 X s =
     rbind (p_qty X s) (\<lambda>v. if 8 < length v then Inl (ProofJson ''nonce too large'') else Inr (be_u64 v))"

definition pad32 :: "bytes \<Rightarrow> bytes" where
  "pad32 b = (let n = min (length b) 32 in zeros (32 - n) @ drop (length b - n) b)"

definition encode_data32 :: "('pk, 'sg) ext \<Rightarrow> bytes \<Rightarrow> string" where
  "encode_data32 X b = hex0x X (pad32 b)"

definition slot_of_key :: "('pk, 'sg) ext \<Rightarrow> string \<Rightarrow> bytes option" where
  "slot_of_key X s =
     (case decode_qty X s of
        Inl _ \<Rightarrow> None
      | Inr raw \<Rightarrow> if 32 < length raw then None else Some (pad32 raw))"

section \<open>Account\<close>

definition decode_nodes :: "('pk, 'sg) ext \<Rightarrow> string list \<Rightarrow> (proof_error, bytes list) result" where
  "decode_nodes X ss =
     rbind (rmapM (\<lambda>s. map_err ProofTypes (decode_hex X s)) ss) (\<lambda>nodes.
       if list_ex (\<lambda>n. MAX_PROOF_NODE_BYTES < length n) nodes then Inl NodeTooLarge else Inr nodes)"

definition p_fixed :: "('pk, 'sg) ext \<Rightarrow> nat \<Rightarrow> string \<Rightarrow> (proof_error, bytes) result" where
  "p_fixed X n s = map_err ProofTypes (decode_hex_fixed X n s)"

definition account_absent :: "account \<Rightarrow> bool" where
  "account_absent a \<longleftrightarrow> ac_nonce a = 0 \<and> strip_int (ac_balance a) = [] \<and>
     ac_storage_root a = EMPTY_TRIE_ROOT \<and> ac_code_hash a = EMPTY_CODE_HASH"

definition all_zero :: "bytes \<Rightarrow> bool" where
  "all_zero b \<longleftrightarrow> list_all (\<lambda>x. x = 0) b"

definition verify_eth_get_proof ::
    "('pk, 'sg) ext \<Rightarrow> bytes \<Rightarrow> bytes \<Rightarrow> eth_account_proof \<Rightarrow> (proof_error, verified_account) result" where
  "verify_eth_get_proof X state_root expected_address pr =
     rbind (p_fixed X 20 (ep_address pr)) (\<lambda>addr.
     if addr \<noteq> expected_address then Inl (ClaimMismatch ''address'')
     else if MAX_PROOF_NODES < length (ep_account_proof pr) then Inl TooManyNodes
     else if MAX_PROOF_STORAGE_ENTRIES < length (ep_storage_proof pr) then Inl TooManyStorageEntries
     else if list_ex (\<lambda>sp. MAX_PROOF_NODES < length (se_proof sp)) (ep_storage_proof pr) then Inl TooManyNodes
     else
     rbind (decode_nodes X (ep_account_proof pr)) (\<lambda>nodes.
     rbind (map_err ProofMpt (verify_account_proof X state_root addr nodes)) (\<lambda>account.
     let absent = account_absent account in
     rbind (p_qty X (ep_balance pr)) (\<lambda>claimed_balance.
     if encode_qty X claimed_balance \<noteq> encode_qty X (ac_balance account)
     then Inl (ClaimMismatch ''balance'')
     else
     rbind (parse_qty_u64 X (ep_nonce pr)) (\<lambda>claimed_nonce.
     if claimed_nonce \<noteq> ac_nonce account then Inl (ClaimMismatch ''nonce'')
     else
     rbind (p_fixed X 32 (ep_storage_hash pr)) (\<lambda>claimed_storage.
     if claimed_storage \<noteq> ac_storage_root account \<and> \<not> (absent \<and> all_zero claimed_storage)
     then Inl (ClaimMismatch ''storageHash'')
     else
     rbind (p_fixed X 32 (ep_code_hash pr)) (\<lambda>claimed_code.
     if claimed_code \<noteq> ac_code_hash account \<and> \<not> (absent \<and> all_zero claimed_code)
     then Inl (ClaimMismatch ''codeHash'')
     else Inr \<lparr>va_address = addr, va_nonce = ac_nonce account,
               va_balance_wei = strip_int (ac_balance account),
               va_storage_root = ac_storage_root account, va_code_hash = ac_code_hash account\<rparr>)))))))"

section \<open>Storage and code\<close>

text \<open>\<open>Vec::retain\<close> with the \<open>taken\<close> flags of the wanted slots.\<close>

fun position_of :: "'a \<Rightarrow> 'a list \<Rightarrow> nat option" where
  "position_of x [] = None"
| "position_of x (y # ys) = (if y = x then Some 0 else map_option Suc (position_of x ys))"

fun retain_loop ::
    "('pk, 'sg) ext \<Rightarrow> bytes list \<Rightarrow> bool list \<Rightarrow> storage_proof_entry list \<Rightarrow> storage_proof_entry list" where
  "retain_loop X want taken [] = []"
| "retain_loop X want taken (e # es) =
     (case slot_of_key X (se_key e) of
        None \<Rightarrow> retain_loop X want taken es
      | Some slot \<Rightarrow>
          (case position_of slot want of
             None \<Rightarrow> retain_loop X want taken es
           | Some i \<Rightarrow>
               if \<not> taken ! i then e # retain_loop X want (taken[i := True]) es
               else retain_loop X want taken es))"

definition retain_requested_storage ::
    "('pk, 'sg) ext \<Rightarrow> eth_account_proof \<Rightarrow> string list \<Rightarrow> eth_account_proof" where
  "retain_requested_storage X pr keys =
     (if keys = [] then pr\<lparr>ep_storage_proof := []\<rparr>
      else
        let want = List.map_filter (slot_of_key X) keys
        in pr\<lparr>ep_storage_proof := retain_loop X want (replicate (length want) False) (ep_storage_proof pr)\<rparr>)"

definition storage_entry ::
    "('pk, 'sg) ext \<Rightarrow> bytes \<Rightarrow> eth_account_proof \<Rightarrow> storage_proof_entry option" where
  "storage_entry X slot pr =
     find (\<lambda>e. slot_of_key X (se_key e) = Some slot \<or> eq_ignore_ascii_case (se_key e) (hex0x X slot))
       (ep_storage_proof pr)"

definition verify_storage_slot ::
    "('pk, 'sg) ext \<Rightarrow> verified_account \<Rightarrow> bytes \<Rightarrow> eth_account_proof \<Rightarrow> (proof_error, bytes) result" where
  "verify_storage_slot X account slot pr =
     (if va_storage_root account = EMPTY_TRIE_ROOT then Inr []
      else case storage_entry X slot pr of
        None \<Rightarrow> Inl (ClaimMismatch ''storageProof'')
      | Some entry \<Rightarrow>
          rbind (decode_nodes X (se_proof entry)) (\<lambda>nodes.
          rbind (map_err ProofMpt (verify_storage_proof X (va_storage_root account) slot nodes)) (\<lambda>value.
          rbind (p_qty X (se_value entry)) (\<lambda>claimed.
            if strip_int value \<noteq> strip_int claimed \<and> encode_qty X value \<noteq> encode_qty X claimed
            then Inl (ClaimMismatch ''storage value'') else Inr value))))"

definition verify_account_code ::
    "('pk, 'sg) ext \<Rightarrow> verified_account \<Rightarrow> bytes \<Rightarrow> (proof_error, unit) result" where
  "verify_account_code X account code =
     (if va_code_hash account = EMPTY_CODE_HASH then
        (if code \<noteq> [] then Inl (ClaimMismatch ''empty code'') else Inr ())
      else map_err ProofMpt (verify_bytecode X code (va_code_hash account)))"

section \<open>lib.rs: the balance a client is given\<close>

datatype execution_error =
    ExecNotImplemented string
  | ExecProof proof_error
  | ProofFailed string
  | UpstreamProofCapabilityMissing

record verified_balance =
  bal_address :: string
  bal_balance_wei_hex :: string
  bal_block_hash :: string
  bal_block_number :: nat
  bal_trust :: trust_class

definition verify_balance_proof ::
    "('pk, 'sg) ext \<Rightarrow> bytes \<Rightarrow> bytes \<Rightarrow> eth_account_proof \<Rightarrow> string \<Rightarrow> nat \<Rightarrow>
     (execution_error, verified_balance) result" where
  "verify_balance_proof X state_root address pr block_hash block_number =
     rbind (map_err ExecProof (verify_eth_get_proof X state_root address pr)) (\<lambda>acc.
       Inr \<lparr>bal_address = hex0x X (va_address acc), bal_balance_wei_hex = encode_qty X (va_balance_wei acc),
            bal_block_hash = block_hash, bal_block_number = block_number, bal_trust = TrustVerified\<rparr>)"

section \<open>What an accepted response proves\<close>

definition account_view :: "bytes \<Rightarrow> account \<Rightarrow> verified_account" where
  "account_view addr a =
     \<lparr>va_address = addr, va_nonce = ac_nonce a, va_balance_wei = strip_int (ac_balance a),
      va_storage_root = ac_storage_root a, va_code_hash = ac_code_hash a\<rparr>"

lemma p_iffs [res_simps]:
  "p_fixed X n t = Inr b \<longleftrightarrow> decode_hex_fixed X n t = Inr b" "p_qty X t = Inr b \<longleftrightarrow> decode_qty X t = Inr b"
  by (simp_all add: p_fixed_def p_qty_def res_simps)

lemma verify_eth_get_proof_Inr:
  assumes "verify_eth_get_proof X root addr pr = Inr acc"
  obtains nodes account where "decode_nodes X (ep_account_proof pr) = Inr nodes"
    "verify_account_proof X root addr nodes = Inr account" "acc = account_view addr account"
    "decode_hex_fixed X 20 (ep_address pr) = Inr addr" "length (ep_account_proof pr) \<le> MAX_PROOF_NODES"
    "length (ep_storage_proof pr) \<le> MAX_PROOF_STORAGE_ENTRIES"
    "parse_qty_u64 X (ep_nonce pr) = Inr (ac_nonce account)"
  using assms
  by (auto simp: verify_eth_get_proof_def res_simps Let_def account_view_def not_less split: if_splits)

definition response_broken :: "('pk, 'sg) ext \<Rightarrow> string list \<Rightarrow> string list \<Rightarrow> bool" where
  "response_broken X p q \<longleftrightarrow>
     (case (decode_nodes X p, decode_nodes X q) of
        (Inr a, Inr b) \<Rightarrow> mpt_broken X a b
      | _ \<Rightarrow> False)"

interpretation get_proof: authenticated_lookup "verify_eth_get_proof X"
    "\<lambda>p q. response_broken X (ep_account_proof p) (ep_account_proof q)" for X :: "('pk, 'sg) ext"
proof unfold_locales
  fix r k p p' v v'
  assume "verify_eth_get_proof X r k p = Inr v" "verify_eth_get_proof X r k p' = Inr v'"
  then show "v = v' \<or> response_broken X (ep_account_proof p) (ep_account_proof p')"
    using accounts.binding by (fastforce simp: response_broken_def elim!: verify_eth_get_proof_Inr)
qed

lemma verify_storage_slot_Inr:
  assumes "verify_storage_slot X acc slot pr = Inr v"
  obtains "va_storage_root acc = EMPTY_TRIE_ROOT" "v = []"
  | entry nodes where "va_storage_root acc \<noteq> EMPTY_TRIE_ROOT" "storage_entry X slot pr = Some entry"
      "decode_nodes X (se_proof entry) = Inr nodes"
      "verify_storage_proof X (va_storage_root acc) slot nodes = Inr v"
  using assms by (auto simp: verify_storage_slot_def res_simps split: if_splits option.splits)

text \<open>The proof strings a response offers for a slot.\<close>

definition slot_nodes :: "('pk, 'sg) ext \<Rightarrow> bytes \<Rightarrow> eth_account_proof \<Rightarrow> string list" where
  "slot_nodes X slot pr = (case storage_entry X slot pr of None \<Rightarrow> [] | Some e \<Rightarrow> se_proof e)"

lemma storage_slot_binding:
  assumes "verify_storage_slot X acc slot p = Inr v" "verify_storage_slot X acc slot q = Inr w"
  shows "v = w \<or> response_broken X (slot_nodes X slot p) (slot_nodes X slot q)"
proof (cases "va_storage_root acc = EMPTY_TRIE_ROOT")
  case True
  then show ?thesis using assms by (simp add: verify_storage_slot_def)
next
  case False
  obtain e a where e: "storage_entry X slot p = Some e" "decode_nodes X (se_proof e) = Inr a"
    "verify_storage_proof X (va_storage_root acc) slot a = Inr v"
    using assms(1) False by (auto elim: verify_storage_slot_Inr)
  obtain f b where f: "storage_entry X slot q = Some f" "decode_nodes X (se_proof f) = Inr b"
    "verify_storage_proof X (va_storage_root acc) slot b = Inr w"
    using assms(2) False by (auto elim: verify_storage_slot_Inr)
  show ?thesis
    using storage.binding [OF e(3) f(3)] e(1,2) f(1,2) by (simp add: response_broken_def slot_nodes_def)
qed

text \<open>
  C31. Clients cannot be told two stories about one state root. Two \<open>eth_getProof\<close> responses that verify
  against the same root for the same address yield the same account, and the same value for
  every storage slot both verify, unless the decoded proof nodes exhibit a Keccak collision.
\<close>

theorem get_proof_consistent:
  assumes "keccak_ok X" "verify_eth_get_proof X root addr p = Inr a" "verify_eth_get_proof X root addr q = Inr b"
  shows "(a = b \<or> response_broken X (ep_account_proof p) (ep_account_proof q)) \<and>
     (\<forall>v w. a = b \<and> verify_storage_slot X a slot p = Inr v \<and> verify_storage_slot X b slot q = Inr w \<longrightarrow>
        v = w \<or> response_broken X (slot_nodes X slot p) (slot_nodes X slot q))"
  using get_proof.binding [OF assms(2,3)] storage_slot_binding by blast

section \<open>Filtering storage entries\<close>

abbreviation entry_slot :: "('pk, 'sg) ext \<Rightarrow> storage_proof_entry \<Rightarrow> bytes option" where
  "entry_slot X e \<equiv> slot_of_key X (se_key e)"

lemma position_of_Some: "position_of x ys = Some i \<Longrightarrow> i < length ys \<and> ys ! i = x"
  by (induction ys arbitrary: i) (auto split: if_splits)

lemma position_of_None: "position_of x ys = None \<longleftrightarrow> x \<notin> set ys"
  by (induction ys) auto

lemma retain_loop_find:
  assumes "position_of slot want = Some i" "\<not> taken ! i" "length taken = length want"
  shows "find (\<lambda>e. entry_slot X e = Some slot) (retain_loop X want taken es) =
         find (\<lambda>e. entry_slot X e = Some slot) es"
  using assms(2,3)
proof (induction es arbitrary: taken)
  case (Cons e es)
  show ?case
  proof (cases "entry_slot X e")
    case None
    then show ?thesis using Cons by simp
  next
    case (Some sl)
    show ?thesis
    proof (cases "position_of sl want")
      case None
      then have "sl \<noteq> slot" using assms(1) by auto
      then show ?thesis using Cons Some None by simp
    next
      case (Some j)
      show ?thesis
      proof (cases "sl = slot")
        case True
        then show ?thesis using Cons.prems Some assms(1) \<open>entry_slot X e = Some sl\<close> by simp
      next
        case False
        then have "i \<noteq> j" using position_of_Some assms(1) Some by metis
        then have "\<not> taken[j := True] ! i" using Cons.prems by simp
        then show ?thesis using Cons Some False \<open>entry_slot X e = Some sl\<close> by simp
      qed
    qed
  qed
qed simp

text \<open>Kept entries have pairwise different slots, each one still open in \<open>taken\<close>.\<close>

lemma retain_loop_slots:
  assumes "length taken = length want"
  shows "distinct (map (entry_slot X) (retain_loop X want taken es)) \<and>
     (\<forall>e \<in> set (retain_loop X want taken es).
        \<exists>slot i. entry_slot X e = Some slot \<and> position_of slot want = Some i \<and> \<not> taken ! i)"
  using assms
proof (induction es arbitrary: taken)
  case (Cons e es)
  show ?case
  proof (cases "\<exists>sl i. entry_slot X e = Some sl \<and> position_of sl want = Some i \<and> \<not> taken ! i")
    case False
    then have "retain_loop X want taken (e # es) = retain_loop X want taken es" by (auto split: option.splits)
    then show ?thesis using Cons by simp
  next
    case True
    then obtain sl i where e: "entry_slot X e = Some sl" "position_of sl want = Some i" "\<not> taken ! i" by blast
    have i: "i < length taken" using position_of_Some [OF e(2)] Cons.prems by simp
    let ?r = "retain_loop X want (taken[i := True]) es"
    have IH: "distinct (map (entry_slot X) ?r)"
      "\<forall>f \<in> set ?r. \<exists>slot j. entry_slot X f = Some slot \<and> position_of slot want = Some j \<and> \<not> taken[i := True] ! j"
      using Cons.IH [of "taken[i := True]"] Cons.prems by auto
    have "Some sl \<notin> entry_slot X ` set ?r"
      using IH(2) e(2) i by force
    moreover have "\<forall>f \<in> set ?r. \<exists>slot j. entry_slot X f = Some slot \<and> position_of slot want = Some j \<and> \<not> taken ! j"
      using IH(2) i by (metis nth_list_update_eq nth_list_update_neq)
    ultimately show ?thesis using IH(1) e by simp
  qed
qed simp

lemma find_distinct:
  "distinct (map f xs) \<Longrightarrow> x \<in> set xs \<Longrightarrow> find (\<lambda>y. f y = f x) xs = Some x"
  by (induction xs) (auto simp: image_iff)

lemma ascii_lower_digit: "ascii_lower c = CHR ''0'' \<Longrightarrow> c = CHR ''0''"
  and ascii_lower_x: "ascii_lower c = CHR ''x'' \<Longrightarrow> c = CHR ''x'' \<or> c = CHR ''X''"
proof -
  have v: "(of_char CHR ''0'' :: nat) = 48" "(of_char CHR ''x'' :: nat) = 120" "(of_char CHR ''X'' :: nat) = 88"
    by simp_all
  have inj: "of_char c = (of_char d :: nat) \<Longrightarrow> c = d" for d by (simp only: of_char_eq_iff)
  show "c = CHR ''0''" if "ascii_lower c = CHR ''0''"
    using of_char_ascii_lower [of c] that v by (intro inj) (auto split: if_splits)
  show "c = CHR ''x'' \<or> c = CHR ''X''" if "ascii_lower c = CHR ''x''"
  proof -
    have "of_char c = (120 :: nat) \<or> of_char c = (88 :: nat)"
      using of_char_ascii_lower [of c] that v by (auto split: if_splits)
    then show ?thesis using inj v by metis
  qed
qed

lemma ascii_lower_hex: "hex_lower c \<Longrightarrow> ascii_lower c = c"
  by (auto simp: hex_lower_def ascii_lower_def)

text \<open>A key that equals the full-width spelling of a slot up to case denotes that slot.\<close>

lemma key_spelling:
  assumes X: "hex_ok X" "hex_case_ok X" and slot: "length slot = 32"
    and eq: "eq_ignore_ascii_case k (hex0x X slot)"
  shows "slot_of_key X k = Some slot"
proof -
  have low: "map ascii_lower (hex_encode X slot) = hex_encode X slot"
    using hex_okD(3) [OF X(1), of _ slot] by (intro map_idI) (auto intro: ascii_lower_hex)
  obtain a b r where k: "k = a # b # r" "ascii_lower a = CHR ''0''" "ascii_lower b = CHR ''x''"
    and r: "map ascii_lower r = hex_encode X slot"
    using eq low by (auto simp: eq_ignore_ascii_case_def hex0x_def map_eq_Cons_conv ascii_lower_def)
  have st: "strip_0x k = r" using k ascii_lower_digit [OF k(2)] ascii_lower_x [OF k(3)] by auto
  have len: "length r = 64" using arg_cong [OF r, of length] hex_okD(2) [OF X(1), of slot] slot by simp
  have "hex_decode X r = Inr slot"
    using X(2) hex_okD(1) [OF X(1), of slot] r by (metis hex_case_ok_def)
  then have "decode_qty X k = Inr slot"
    using st len by (auto simp: decode_qty_def decode_hex_def)
  then show ?thesis using slot by (simp add: slot_of_key_def pad32_def zeros_def)
qed

lemma slot_of_key_length: "slot_of_key X k = Some slot \<Longrightarrow> length slot = 32"
  by (auto simp: slot_of_key_def pad32_def Let_def split: sum.splits if_splits)

lemma storage_entry_eq:
  assumes "hex_ok X" "hex_case_ok X" "length slot = 32"
  shows "storage_entry X slot pr = find (\<lambda>e. entry_slot X e = Some slot) (ep_storage_proof pr)"
  unfolding storage_entry_def using key_spelling [OF assms] by (intro find_cong) auto

text \<open>
  Filtering a response to the requested keys is sound and complete. For a requested slot the
  verdict on the filtered response is the verdict on the original, and every entry that
  survives the filter is the one entry the verifier checks for its slot, so no unverified
  duplicate can ride along.
\<close>

theorem retain_requested_sound:
  assumes "hex_ok X" "hex_case_ok X" "k \<in> set keys" "slot_of_key X k = Some slot"
  shows "verify_storage_slot X acc slot (retain_requested_storage X pr keys) = verify_storage_slot X acc slot pr \<and>
     (\<forall>e \<in> set (ep_storage_proof (retain_requested_storage X pr keys)).
        \<exists>sl. entry_slot X e = Some sl \<and>
          find (\<lambda>f. entry_slot X f = Some sl) (ep_storage_proof (retain_requested_storage X pr keys)) = Some e)"
proof -
  have len: "length slot = 32" using assms(4) by (rule slot_of_key_length)
  define want where "want = List.map_filter (slot_of_key X) keys"
  let ?taken = "replicate (length want) False"
  have kept: "ep_storage_proof (retain_requested_storage X pr keys) = retain_loop X want ?taken (ep_storage_proof pr)"
    using assms(3) by (auto simp: retain_requested_storage_def want_def Let_def)
  have "slot \<in> set want" using assms(3,4) by (force simp: want_def List.map_filter_def image_iff)
  then obtain i where i: "position_of slot want = Some i" using position_of_None [of slot want] by auto
  then have "\<not> ?taken ! i" using position_of_Some [OF i] by simp
  from retain_loop_find [OF i this] have
    "storage_entry X slot (retain_requested_storage X pr keys) = storage_entry X slot pr"
    using assms(1,2) len by (simp add: storage_entry_eq kept)
  then have verdict: "verify_storage_slot X acc slot (retain_requested_storage X pr keys) = verify_storage_slot X acc slot pr"
    by (simp add: verify_storage_slot_def)
  have slots: "distinct (map (entry_slot X) (retain_loop X want ?taken (ep_storage_proof pr)))"
    "\<forall>e \<in> set (retain_loop X want ?taken (ep_storage_proof pr)). \<exists>sl. entry_slot X e = Some sl"
    using retain_loop_slots [of ?taken want X "ep_storage_proof pr"] by auto
  have "\<exists>sl. entry_slot X e = Some sl \<and>
      find (\<lambda>f. entry_slot X f = Some sl) (retain_loop X want ?taken (ep_storage_proof pr)) = Some e"
    if "e \<in> set (retain_loop X want ?taken (ep_storage_proof pr))" for e
    using slots(2) find_distinct [OF slots(1) that] that by auto
  then show ?thesis using verdict by (simp add: kept)
qed

section \<open>Samples\<close>

definition sample_proof :: eth_account_proof where
  "sample_proof =
     \<lparr>ep_address = hex0x refX (zeros 20), ep_account_proof = [hex0x refX sample_node], ep_balance = ''0x0'',
      ep_code_hash = hex0x refX (zeros 32), ep_nonce = ''0x0'', ep_storage_hash = hex0x refX (zeros 32),
      ep_storage_proof = [\<lparr>se_key = ''0x1'', se_value = ''0x0'', se_proof = []\<rparr>]\<rparr>"

lemma decode_qty_samples [simp]: "decode_qty refX ''0x0'' = Inr [0]" "decode_qty refX ''0x1'' = Inr [1]"
  by (simp_all add: decode_qty_def decode_hex_def to_digit16_def)

lemma length_sample_node: "length sample_node = 43"
  by (simp add: sample_node_def encode_list_def encode_bytes_def encode_string_def)

lemma sample_get_proof:
  "verify_eth_get_proof refX (node_ref refX sample_node) (zeros 20) sample_proof = Inr (account_view (zeros 20) empty_account)"
proof -
  have "keccak refX (zeros 20) = 0 # zeros 31" by (simp add: ref_keccak_def zeros_def replicate_add [symmetric] flip: replicate_Suc)
  then have "verify_account_proof refX (node_ref refX sample_node) (zeros 20) [sample_node] = Inr empty_account"
    using sample_trie_proof [of "zeros 31"] by (simp add: verify_account_proof_def account_of_def)
  moreover have "decode_nodes refX [hex0x refX sample_node] = Inr [sample_node]"
    by (simp add: decode_nodes_def decode_hex_hex0x length_sample_node MAX_PROOF_NODE_BYTES_def)
  moreover have "encode_qty refX [0] = ''0x0''" "encode_qty refX [] = ''0x0''"
    by (simp_all add: encode_qty_def hex_char_def)
  moreover have "account_absent empty_account" by (simp add: account_absent_def empty_account_def strip_int_def strip_zeros_def)
  moreover have "all_zero (zeros 32)" by (simp add: all_zero_def zeros_def list_all_iff)
  ultimately show ?thesis
    by (simp add: verify_eth_get_proof_def sample_proof_def p_fixed_def p_qty_def decode_hex_fixed_hex0x parse_qty_u64_def
        MAX_PROOF_NODES_def MAX_PROOF_STORAGE_ENTRIES_def account_view_def empty_account_def be_u64_def wrap64_def)
qed

theorem get_proof_consistent_witness:
  "verify_eth_get_proof refX (node_ref refX sample_node) (zeros 20) sample_proof = Inr (account_view (zeros 20) empty_account)"
  using get_proof_consistent [OF keccak_ok_refX sample_get_proof sample_get_proof] sample_get_proof by simp

theorem retain_requested_sound_witness:
  "verify_storage_slot refX (account_view (zeros 20) empty_account) (pad32 [1])
     (retain_requested_storage refX sample_proof [''0x1'']) =
   verify_storage_slot refX (account_view (zeros 20) empty_account) (pad32 [1]) sample_proof"
proof -
  have "slot_of_key refX ''0x1'' = Some (pad32 [1])" by (simp add: slot_of_key_def)
  then show ?thesis using retain_requested_sound [OF hex_ok_refX hex_case_ok_refX, of "''0x1''" "[''0x1'']"] by simp
qed

end
