(* ===== verification/Ordered_Trie.thy ===== *)
theory Ordered_Trie
  imports Mpt "HOL-Library.Sublist"
begin

text \<open>
  The root of the trie over a list of transactions or receipts
  (\<open>helios-bsc-execution/src/ordered_trie.rs\<close>): item \<open>i\<close> sits under the nibbles of the RLP of
  \<open>i\<close>. The theory shows that the node builder agrees with the proof walk of \<open>Mpt\<close>: a
  reference prover reads Merkle proofs off the trie, and the walk accepts each of them with
  the item at that index, or with absence past the end of the list, except where the root node is so
  short that the walk cannot match it with its hash. With the binding
  property of the walk, the root then determines the list.

  \<open>key[pre_len..]\<close> and \<open>k[pre_len]\<close> panic in the source when a key is too short; the
  builder of the model returns \<open>None\<close> there, and the theorems show it never does.
\<close>

section \<open>The node builder\<close>

type_synonym pairs = "(bytes \<times> bytes) list"

definition MAX_ORDERED_TRIE_ITEMS :: nat where
  "MAX_ORDERED_TRIE_ITEMS = 4096"

text \<open>\<open>rest.chunks(2)\<close>, where \<open>rest\<close> has even length, so that no chunk is a single nibble.\<close>

fun pack_nibbles :: "bytes \<Rightarrow> bytes" where
  "pack_nibbles (a # b # rest) = (push_bit 4 a OR b) # pack_nibbles rest"
| "pack_nibbles _ = []"

definition hex_prefix_encode :: "bytes \<Rightarrow> bool \<Rightarrow> bytes" where
  "hex_prefix_encode nibbles leaf =
     (let odd = length nibbles mod 2;
          flag = push_bit 4 ((if odd = 1 then 1 else 0) + 2 * (if leaf then 1 else 0));
          first = (if odd = 1 then flag OR hd nibbles else flag)
      in first # pack_nibbles (drop odd nibbles))"

fun shared_prefix_len :: "bytes \<Rightarrow> bytes \<Rightarrow> nat" where
  "shared_prefix_len (x # a) (y # b) = (if x \<noteq> y then 0 else Suc (shared_prefix_len a b))"
| "shared_prefix_len _ _ = 0"

definition child_ref :: "('pk, 'sg) ext \<Rightarrow> bytes \<Rightarrow> bytes" where
  "child_ref X encoded = (if length encoded < 32 then encoded else exec_encode_bytes (keccak X encoded))"

definition shared_len :: "bytes \<Rightarrow> pairs \<Rightarrow> nat" where
  "shared_len key others = foldl (\<lambda>s (k, _). min s (shared_prefix_len key k)) (length key) others"

text \<open>\<open>take_while(|(k, _)| k[pre_len] == nibble).count()\<close>\<close>

fun nibble_run :: "nat \<Rightarrow> nat \<Rightarrow> pairs \<Rightarrow> nat option" where
  "nibble_run p n [] = Some 0"
| "nibble_run p n ((k, v) # xs) =
     (if length k \<le> p then None
      else if unat (k ! p) = n then map_option Suc (nibble_run p n xs) else Some 0)"

definition key_bound :: "pairs \<Rightarrow> nat" where
  "key_bound input = foldr (\<lambda>(k, _). max (length k)) input 0"

lemma key_bound_simps [simp]:
  "key_bound [] = 0" "key_bound ((k, v) # xs) = max (length k) (key_bound xs)"
  by (simp_all add: key_bound_def)

lemma key_bound_append: "key_bound (xs @ ys) = max (key_bound xs) (key_bound ys)"
  by (induction xs) auto

lemma key_bound_take: "key_bound (take n xs) \<le> key_bound xs"
  using key_bound_append [of "take n xs" "drop n xs"] by simp

lemma key_bound_drop: "key_bound (drop n xs) \<le> key_bound xs"
  using key_bound_append [of "take n xs" "drop n xs"] by simp

lemma nibble_run_bound: "nibble_run p n xs = Some (Suc m) \<Longrightarrow> p < key_bound (take (Suc m) xs)"
  by (cases xs) (auto split: if_splits)

lemma shared_len_le: "shared_len key others \<le> length key"
proof -
  have "foldl (\<lambda>s (k, _). min s (shared_prefix_len key k)) m others \<le> m" for m
  proof (induction others arbitrary: m)
    case (Cons a others)
    then show ?case using Cons [of "min m (shared_prefix_len key (fst a))"] by (cases a) simp
  qed simp
  then show ?thesis by (simp add: shared_len_def)
qed

function encode_node :: "('pk, 'sg) ext \<Rightarrow> pairs \<Rightarrow> nat \<Rightarrow> bytes option"
  and encode_children :: "('pk, 'sg) ext \<Rightarrow> pairs \<Rightarrow> nat \<Rightarrow> nat list \<Rightarrow> bytes list option"
where
  "encode_node X input pre_len =
     (case input of
        [] \<Rightarrow> Some (exec_encode_bytes [])
      | (key, value) # others \<Rightarrow>
          if others = [] then
            (if length key < pre_len then None
             else Some (exec_encode_list
               [exec_encode_bytes (hex_prefix_encode (drop pre_len key) True), exec_encode_bytes value]))
          else if pre_len < shared_len key others then
            (case encode_node X input (shared_len key others) of
               None \<Rightarrow> None
             | Some child \<Rightarrow>
                 Some (exec_encode_list
                   [exec_encode_bytes (hex_prefix_encode (subslice pre_len (shared_len key others) key) False),
                    child_ref X child]))
          else
            (case encode_children X (if pre_len = length key then others else input) pre_len [0..<16] of
               None \<Rightarrow> None
             | Some children \<Rightarrow>
                 Some (exec_encode_list
                   (children @ [exec_encode_bytes (if pre_len = length key then value else [])]))))"
| "encode_children X input pre_len nibbles =
     (case nibbles of
        [] \<Rightarrow> Some []
      | n # ns \<Rightarrow>
          (case nibble_run pre_len n input of
             None \<Rightarrow> None
           | Some len \<Rightarrow>
               (case (if len = 0 then Some (exec_encode_bytes [])
                      else map_option (child_ref X) (encode_node X (take len input) (pre_len + 1))) of
                  None \<Rightarrow> None
                | Some child \<Rightarrow>
                    map_option (\<lambda>children. child # children) (encode_children X (drop len input) pre_len ns))))"
  by pat_completeness auto
termination
proof (relation "measures
    [\<lambda>p. case p of Inl (X, input, pre) \<Rightarrow> key_bound input - pre | Inr (X, input, pre, _) \<Rightarrow> key_bound input - pre,
     \<lambda>p. case p of Inl _ \<Rightarrow> 1 | Inr _ \<Rightarrow> 0,
     \<lambda>p. case p of Inl _ \<Rightarrow> 0 | Inr (X, input, pre, ns) \<Rightarrow> length ns]", goal_cases)
  case 1
  show ?case by simp
next
  case (2 X input pre_len a others key v)
  then show ?case using shared_len_le [of key others] by auto
next
  case (3 X input pre_len a others key v)
  then show ?case by auto
next
  case (4 X input pre_len nibbles n ns len)
  then show ?case
    using nibble_run_bound [of pre_len n input "len - 1"] key_bound_take [of len input] by auto
next
  case (5 X input pre_len nibbles n ns len child)
  then show ?case using key_bound_drop [of len input] by auto
qed

declare encode_node.simps [simp del] encode_children.simps [simp del]

definition trie_pairs :: "bytes list \<Rightarrow> pairs" where
  "trie_pairs items =
     sort_key fst (map (\<lambda>(i, item). (bytes_to_nibbles (exec_encode_uint i), item)) (enumerate 0 items))"

definition ordered_trie_root :: "('pk, 'sg) ext \<Rightarrow> bytes list \<Rightarrow> bytes option" where
  "ordered_trie_root X all_items =
     (let items = take MAX_ORDERED_TRIE_ITEMS all_items in
      if items = [] then Some EMPTY_TRIE_ROOT
      else map_option (keccak X) (encode_node X (trie_pairs items) 0))"

section \<open>Hex-prefix paths\<close>

abbreviation nibbles_ok :: "bytes \<Rightarrow> bool" where
  "nibbles_ok ns \<equiv> list_all (\<lambda>n. unat n < 16) ns"

lemma nibble_pairs: "list_all (\<lambda>a. list_all (\<lambda>b.
    drop_bit 4 (push_bit 4 (word_of_nat a) OR word_of_nat b :: byte) = word_of_nat a \<and>
    (push_bit 4 (word_of_nat a) OR word_of_nat b :: byte) AND 0x0f = word_of_nat b) [0..<16]) [0..<16]"
  by code_simp

lemma nibble_pair:
  assumes "unat a < 16" "unat (b :: byte) < 16"
  shows "drop_bit 4 (push_bit 4 a OR b) = a" "(push_bit 4 a OR b) AND 0x0f = b"
  using assms nibble_pairs [unfolded list_all_iff, rule_format, of "unat a" "unat b"] by auto

lemma nibble_flag:
  assumes "unat (b :: byte) < 16" "f \<in> {0, 1, 2, 3}"
  shows "drop_bit 4 (push_bit 4 f OR b) = f" "(push_bit 4 f OR b) AND 0x0f = b"
  using assms nibble_pair [of f b] by auto

lemma bytes_to_nibbles_Cons: "bytes_to_nibbles (x # xs) = drop_bit 4 x # (x AND 0x0f) # bytes_to_nibbles xs"
  by (simp add: bytes_to_nibbles_def)

lemma bytes_to_nibbles_Nil: "bytes_to_nibbles [] = []"
  by (simp add: bytes_to_nibbles_def)

lemma nibbles_of_pack: "nibbles_ok ns \<Longrightarrow> even (length ns) \<Longrightarrow> bytes_to_nibbles (pack_nibbles ns) = ns"
  by (induction ns rule: pack_nibbles.induct)
     (auto simp: bytes_to_nibbles_Cons nibble_pair bytes_to_nibbles_Nil simp del: drop_bit_or)

lemma length_pack_nibbles: "length (pack_nibbles ns) = length ns div 2"
  by (induction ns rule: pack_nibbles.induct) auto

lemma length_hex_prefix_encode: "length (hex_prefix_encode ns leaf) = Suc (length ns div 2)"
  by (simp add: hex_prefix_encode_def Let_def length_pack_nibbles) presburger

lemma hex_prefix_roundtrip:
  assumes "nibbles_ok ns"
  shows "hex_prefix_decode (hex_prefix_encode ns leaf) = Inr (ns, leaf)"
proof (cases "odd (length ns)")
  case True
  then obtain n ms where ns: "ns = n # ms" by (cases ns) auto
  then have "even (length ms)" "nibbles_ok ms" "unat n < 16" using True assms by auto
  then show ?thesis using nibble_flag [of n 1] nibble_flag [of n 3] True ns
    by (cases leaf) (auto simp: hex_prefix_encode_def hex_prefix_decode_def Let_def odd_iff_mod_2_eq_one
        bytes_to_nibbles_Cons nibbles_of_pack simp del: drop_bit_or)
next
  case False
  then show ?thesis using nibble_flag [of 0 0] nibble_flag [of 0 2] assms
    by (cases leaf) (auto simp: hex_prefix_encode_def hex_prefix_decode_def Let_def odd_iff_mod_2_eq_one
        bytes_to_nibbles_Cons nibbles_of_pack simp del: drop_bit_or)
qed

section \<open>Keys\<close>

text \<open>No key of the trie is a proper prefix of another.\<close>

definition prefix_free :: "bytes set \<Rightarrow> bool" where
  "prefix_free S \<longleftrightarrow> (\<forall>a \<in> S. \<forall>b \<in> S. prefix a b \<longrightarrow> a = b)"

definition index_key :: "nat \<Rightarrow> bytes" where
  "index_key i = bytes_to_nibbles (exec_encode_uint i)"

lemma byte_of_nibbles:
  assumes "drop_bit 4 x = drop_bit 4 y" "x AND 0x0f = y AND 0x0f"
  shows "x = (y :: byte)"
proof -
  have m: "z AND 0x0f = take_bit 4 z" for z :: byte
    by (simp add: take_bit_eq_mask mask_eq_exp_minus_1)
  show ?thesis
    using assms unfolding m by (metis bits_ident)
qed

lemma nibbles_prefix: "prefix (bytes_to_nibbles a) (bytes_to_nibbles b) \<Longrightarrow> prefix a b"
proof (induction a arbitrary: b)
  case (Cons x a)
  then show ?case
    by (cases b) (auto simp: bytes_to_nibbles_Cons bytes_to_nibbles_Nil intro: byte_of_nibbles)
qed simp

lemma frame_prefix:
  assumes "is_u64 (length p)" "is_u64 (length q)" "prefix (frame l p) (frame l q)"
  shows "p = q"
proof -
  obtain r where "frame l q = frame l p @ r" using assms(3) by (auto simp: prefix_def)
  then show ?thesis
    using decode_header_frame [OF assms(1), of l r] decode_header_frame [OF assms(2), of l "[]"] by simp
qed

lemma exec_encode_uint_frame: "is_u64 n \<Longrightarrow> exec_encode_uint n = frame False (uint_bytes n)"
  by (simp add: exec_encode_uint_eq encode_uint_eq frame_def)

lemma uint_bytes_u64: "is_u64 n \<Longrightarrow> is_u64 (length (uint_bytes n))"
  using uint_bytes(2) [of n] by (simp add: is_u64_def u64_max_def)

lemma index_key_prefix:
  assumes "is_u64 i" "is_u64 j" "prefix (index_key i) (index_key j)"
  shows "i = j"
proof -
  have "prefix (frame False (uint_bytes i)) (frame False (uint_bytes j))"
    using nibbles_prefix assms unfolding index_key_def by (simp add: exec_encode_uint_frame)
  then have "uint_bytes i = uint_bytes j"
    using frame_prefix assms(1,2) uint_bytes_u64 by blast
  then show ?thesis using assms(1,2) by (metis uint_bytes(1))
qed

lemma index_key_bounds:
  assumes "is_u64 i"
  shows "nibbles_ok (index_key i)" "length (index_key i) \<le> 18"
proof -
  have "length (bytes_to_nibbles b) = 2 * length b" for b
    by (induction b) (auto simp: bytes_to_nibbles_Cons bytes_to_nibbles_Nil)
  moreover have "length (exec_encode_uint i) \<le> 9"
    using uint_bytes(2) [OF assms] by (simp add: exec_encode_uint_frame [OF assms] frame_def encode_bytes_def encode_string_def)
  ultimately show "length (index_key i) \<le> 18" by (simp add: index_key_def)
qed (simp add: index_key_def nibbles_small)

section \<open>Shared prefixes and groups\<close>

lemma shared_prefix_le: "n \<le> shared_prefix_len a b \<longleftrightarrow> n \<le> length a \<and> n \<le> length b \<and> take n a = take n b"
proof (induction a b arbitrary: n rule: shared_prefix_len.induct)
  case (1 x a y b)
  then show ?case by (cases n) auto
qed auto

lemma shared_len_ge:
  "n \<le> shared_len key others \<longleftrightarrow>
     n \<le> length key \<and> (\<forall>(k, v) \<in> set others. n \<le> length k \<and> take n k = take n key)"
proof -
  have "n \<le> foldl (\<lambda>s (k, _). min s (shared_prefix_len key k)) m others \<longleftrightarrow>
      n \<le> m \<and> (\<forall>(k, v) \<in> set others. n \<le> shared_prefix_len key k)" for m
    by (induction others arbitrary: m) (auto split: prod.splits)
  then show ?thesis by (auto simp: shared_len_def shared_prefix_le)
qed

abbreviation nib :: "nat \<Rightarrow> bytes \<times> bytes \<Rightarrow> nat" where
  "nib p x \<equiv> unat (fst x ! p)"

definition nib_group :: "nat \<Rightarrow> nat \<Rightarrow> pairs \<Rightarrow> pairs" where
  "nib_group p n input = filter (\<lambda>x. nib p x = n) input"

lemma runs_of_sorted:
  assumes "sorted (map f xs)" "\<forall>x \<in> set xs. n \<le> (f x :: nat)"
  shows "takeWhile (\<lambda>x. f x = n) xs = filter (\<lambda>x. f x = n) xs"
    "dropWhile (\<lambda>x. f x = n) xs = filter (\<lambda>x. f x \<noteq> n) xs"
proof -
  have "takeWhile (\<lambda>x. f x = n) xs = filter (\<lambda>x. f x = n) xs \<and>
      dropWhile (\<lambda>x. f x = n) xs = filter (\<lambda>x. f x \<noteq> n) xs"
    using assms
  proof (induction xs)
    case (Cons x xs)
    show ?case
    proof (cases "f x = n")
      case False
      then have "\<forall>y \<in> set xs. f y \<noteq> n" using Cons.prems by force
      then show ?thesis using False by (auto simp: filter_id_conv filter_empty_conv)
    qed (use Cons in auto)
  qed simp
  then show "takeWhile (\<lambda>x. f x = n) xs = filter (\<lambda>x. f x = n) xs"
    "dropWhile (\<lambda>x. f x = n) xs = filter (\<lambda>x. f x \<noteq> n) xs" by auto
qed

lemma nibble_run_eq:
  "\<forall>x \<in> set xs. p < length (fst x) \<Longrightarrow> nibble_run p n xs = Some (length (takeWhile (\<lambda>x. nib p x = n) xs))"
  by (induction xs) auto

lemma nibble_run_group:
  assumes "\<forall>x \<in> set xs. p < length (fst x)" "sorted (map (nib p) xs)" "\<forall>x \<in> set xs. n \<le> nib p x"
  shows "nibble_run p n xs = Some (length (nib_group p n xs))"
    "take (length (nib_group p n xs)) xs = nib_group p n xs"
    "drop (length (nib_group p n xs)) xs = filter (\<lambda>x. nib p x \<noteq> n) xs"
proof -
  note r = runs_of_sorted [OF assms(2,3)]
  show "nibble_run p n xs = Some (length (nib_group p n xs))"
    using nibble_run_eq [OF assms(1)] r(1) by (simp add: nib_group_def)
  show "take (length (nib_group p n xs)) xs = nib_group p n xs"
    using r(1) takeWhile_eq_take [of "\<lambda>x. nib p x = n" xs] by (simp add: nib_group_def)
  show "drop (length (nib_group p n xs)) xs = filter (\<lambda>x. nib p x \<noteq> n) xs"
    using r dropWhile_eq_drop [of "\<lambda>x. nib p x = n" xs] by (simp add: nib_group_def)
qed

text \<open>On sorted keys the runs of the loop are the groups by nibble.\<close>

lemma encode_children_groups:
  assumes "\<forall>x \<in> set xs. p < length (fst x)" "sorted (map (nib p) xs)" "nib p ` set xs \<subseteq> set ns" "sorted_wrt (<) ns"
    and "\<forall>n \<in> set ns. nib_group p n xs \<noteq> [] \<longrightarrow> encode_node X (nib_group p n xs) (Suc p) = Some (f n)"
  shows "encode_children X xs p ns =
    Some (map (\<lambda>n. if nib_group p n xs = [] then exec_encode_bytes [] else child_ref X (f n)) ns)"
  using assms
proof (induction ns arbitrary: xs)
  case Nil
  then show ?case by (simp add: encode_children.simps)
next
  case (Cons n ns)
  let ?ys = "filter (\<lambda>x. nib p x \<noteq> n) xs"
  have g: "nib_group p m ?ys = nib_group p m xs" if "m \<in> set ns" for m
    using that Cons.prems(4) by (auto simp: nib_group_def intro!: filter_cong)
  have "encode_children X ?ys p ns =
      Some (map (\<lambda>n. if nib_group p n ?ys = [] then exec_encode_bytes [] else child_ref X (f n)) ns)"
    using Cons.prems by (intro Cons.IH) (auto simp: g sorted_filter)
  moreover have "\<forall>x \<in> set xs. n \<le> nib p x" using Cons.prems(3,4) by fastforce
  note nibble_run_group [OF Cons.prems(1,2) this]
  ultimately show ?case
    using Cons.prems(5) g by (auto simp: encode_children.simps [of X xs p "n # ns"])
qed

section \<open>Well-formed calls of the builder\<close>

text \<open>
  A call gets a non-empty, strictly sorted, prefix-free list of keys that agree on their first
  \<open>pre\<close> nibbles. Values are vectors, hence shorter than \<open>isize::MAX\<close>.
\<close>

definition pair_ok :: "bytes \<times> bytes \<Rightarrow> bool" where
  "pair_ok x \<longleftrightarrow> nibbles_ok (fst x) \<and> length (fst x) \<le> 18 \<and> length (snd x) < 2 ^ 63"

definition keys_ok :: "pairs \<Rightarrow> nat \<Rightarrow> bool" where
  "keys_ok input pre \<longleftrightarrow>
     input \<noteq> [] \<and> sorted_wrt (\<lambda>x y. fst x < fst y) input \<and> prefix_free (fst ` set input) \<and>
     (\<forall>x \<in> set input. pair_ok x \<and> pre \<le> length (fst x) \<and> take pre (fst x) = take pre (fst (hd input)))"

lemma less_nibble:
  assumes "a < (b :: bytes)" "take p a = take p b" "p < length a" "p < length b"
  shows "a ! p \<le> b ! p"
  using assms
proof (induction p arbitrary: a b)
  case 0
  then show ?case by (cases a; cases b) auto
next
  case (Suc p)
  then show ?case by (cases a; cases b) auto
qed

lemma keys_ok_sorted:
  assumes "keys_ok input p" "\<forall>x \<in> set input. p < length (fst x)"
  shows "sorted (map (nib p) input)"
proof -
  have tk: "take p (fst x) = take p (fst y)" if "x \<in> set input" "y \<in> set input" for x y
    using assms(1) that unfolding keys_ok_def by metis
  have "nib p x \<le> nib p y" if "x \<in> set input" "y \<in> set input" "fst x < fst y" for x y
    using less_nibble [OF that(3) tk [OF that(1,2)]] assms(2) that by (simp add: word_le_nat_alt)
  moreover have "sorted_wrt (\<lambda>x y. fst x < fst y) input" using assms(1) by (simp add: keys_ok_def)
  ultimately have "sorted_wrt (\<lambda>x y. nib p x \<le> nib p y) input"
    using sorted_wrt_mono_rel [of input "\<lambda>x y. fst x < fst y" "\<lambda>x y. nib p x \<le> nib p y"] by blast
  then show ?thesis by (simp add: sorted_wrt_map)
qed

lemma sorted_keys_distinct: "sorted_wrt (\<lambda>x y. fst x < fst y) input \<Longrightarrow> distinct (map fst (input :: pairs))"
  by (induction input) auto

lemma keys_ok_shared:
  assumes "keys_ok ((k, v) # others) p" "others \<noteq> []" "x \<in> set ((k, v) # others)"
  shows "p \<le> shared_len k others" "shared_len k others < length (fst x)"
    "take (shared_len k others) (fst x) = take (shared_len k others) k"
proof -
  let ?s = "shared_len k others"
  have sh: "?s \<le> length k" "\<forall>(l, w) \<in> set others. ?s \<le> length l \<and> take ?s l = take ?s k"
    using shared_len_ge [of ?s k others] by auto
  show "p \<le> ?s" using assms(1) by (force simp: shared_len_ge keys_ok_def)
  show tk: "take ?s (fst x) = take ?s k" using sh assms(3) by auto
  have pf: "prefix_free (fst ` set ((k, v) # others))" using assms(1) by (simp add: keys_ok_def)
  have "fst (hd others) \<noteq> k"
    using assms(1,2) sorted_keys_distinct [of "(k, v) # others"] by (cases others) (auto simp: keys_ok_def)
  then obtain y where y: "y \<in> set ((k, v) # others)" "fst y \<noteq> fst x"
    using assms(2) by (cases "fst x = k") (metis hd_in_set list.set_intros, metis fst_conv list.set_intros(1))
  have le: "?s \<le> length (fst x)" using sh assms(3) by auto
  have "take ?s (fst y) = take ?s k" using sh y(1) by auto
  then have "prefix (take ?s (fst x)) (fst y)" using tk by (metis take_is_prefix)
  show "?s < length (fst x)"
  proof (rule ccontr)
    assume "\<not> ?s < length (fst x)"
    then have "take ?s (fst x) = fst x" by (intro take_all) linarith
    then have "prefix (fst x) (fst y)" using \<open>prefix (take ?s (fst x)) (fst y)\<close> by metis
    moreover have "fst x \<in> fst ` set ((k, v) # others)" "fst y \<in> fst ` set ((k, v) # others)"
      using assms(3) y(1) by (metis imageI)+
    ultimately show False using pf y(2) unfolding prefix_free_def by metis
  qed
qed

lemma keys_ok_extend: "keys_ok ((k, v) # others) p \<Longrightarrow> others \<noteq> [] \<Longrightarrow> keys_ok ((k, v) # others) (shared_len k others)"
  using keys_ok_shared(2,3) [of k v others p] by (auto simp: keys_ok_def less_imp_le)

lemma keys_ok_group:
  assumes "keys_ok input p" "\<forall>x \<in> set input. p < length (fst x)" "nib_group p n input \<noteq> []"
  shows "keys_ok (nib_group p n input) (Suc p)"
proof -
  have s: "set (nib_group p n input) \<subseteq> set input" by (auto simp: nib_group_def)
  then have "hd (nib_group p n input) \<in> set input" "nib p (hd (nib_group p n input)) = n"
    using hd_in_set [OF assms(3)] by (auto simp: nib_group_def)
  note h = this
  have "take (Suc p) (fst x) = take (Suc p) (fst (hd (nib_group p n input)))" if "x \<in> set (nib_group p n input)" for x
  proof -
    have x: "x \<in> set input" "nib p x = n" using that by (auto simp: nib_group_def)
    then have "take p (fst x) = take p (fst (hd (nib_group p n input)))"
      using assms(1) h(1) unfolding keys_ok_def by metis
    moreover have "fst x ! p = fst (hd (nib_group p n input)) ! p" using x(2) h(2) by (metis word_unat_eq_iff)
    ultimately show ?thesis using assms(2) x(1) h(1) by (simp add: take_Suc_conv_app_nth)
  qed
  moreover have "prefix_free (fst ` set (nib_group p n input))"
    using assms(1) s unfolding keys_ok_def prefix_free_def by blast
  moreover have "sorted_wrt (\<lambda>x y. fst x < fst y) (nib_group p n input)"
    using assms(1) by (simp add: keys_ok_def nib_group_def sorted_wrt_filter)
  moreover have "pair_ok x \<and> Suc p \<le> length (fst x)" if "x \<in> set (nib_group p n input)" for x
    using assms(1,2) s that unfolding keys_ok_def by (meson Suc_leI subsetD)
  ultimately show ?thesis using assms(3) unfolding keys_ok_def by blast
qed

section \<open>A reference prover\<close>

text \<open>
  The Merkle proof of a key, read off the trie: the hashed nodes met on the way down. An
  inlined child is part of its parent and adds no node.
\<close>

definition ref_nodes :: "bytes \<Rightarrow> bytes list" where
  "ref_nodes e = (if length e < 32 then [] else [e])"

function proof_below :: "('pk, 'sg) ext \<Rightarrow> pairs \<Rightarrow> nat \<Rightarrow> bytes \<Rightarrow> bytes list" where
  "proof_below X input pre key =
     (if length input \<le> 1 then []
      else
        let k = fst (hd input); s = shared_len k (tl input) in
        if pre < s then
          (if s \<le> length key \<and> take s key = take s k then
             ref_nodes (the (encode_node X input s)) @ proof_below X input s key
           else [])
        else if pre < length key \<and> nib_group pre (unat (key ! pre)) input \<noteq> [] then
          ref_nodes (the (encode_node X (nib_group pre (unat (key ! pre)) input) (Suc pre))) @
          proof_below X (nib_group pre (unat (key ! pre)) input) (Suc pre) key
        else [])"
  by pat_completeness auto
termination
  by (relation "measure (\<lambda>(X, input, pre, key). length key - pre)") auto

declare proof_below.simps [simp del]

definition trie_proof :: "('pk, 'sg) ext \<Rightarrow> bytes list \<Rightarrow> nat \<Rightarrow> bytes list" where
  "trie_proof X items i =
     the (encode_node X (trie_pairs items) 0) # proof_below X (trie_pairs items) 0 (index_key i)"

section \<open>The builder agrees with the proof walk\<close>

text \<open>How a parent holds a child.\<close>

definition child_item :: "('pk, 'sg) ext \<Rightarrow> bytes \<Rightarrow> rlp list \<Rightarrow> rlp" where
  "child_item X e items = (if length e < 32 then RList items else RBytes (keccak X e))"

lemma decode_depth: "decode e = Inr x \<Longrightarrow> rlp_encode x = e \<and> rlp_small x"
  using exec_rlp.top_iff by blast

lemma child_item_facts:
  assumes "keccak_ok X" "decode e = Inr (RList items)" "rlp_depth (RList items) \<le> d"
  shows "rlp_encode (child_item X e items) = child_ref X e" "rlp_small (child_item X e items)"
    "rlp_depth (child_item X e items) \<le> d" "length (child_ref X e) \<le> 33"
  using assms decode_depth [OF assms(2)] keccak_okD [OF assms(1), of e]
  by (auto simp: child_item_def child_ref_def encode_bytes_def encode_string_def is_u64_def u64_max_def
      simp del: rlp_depth.simps(2) rlp_small.simps(2))

lemma follow_child_item:
  assumes "keccak_ok X" "decode e = Inr (RList items)" "walk_items X items rest ns = Inr v"
  shows "follow_child X (child_item X e items) (ref_nodes e @ rest) ns False = Inr v"
  using assms(2,3) keccak_okD [OF assms(1), of e]
  by (auto simp: child_item_def ref_nodes_def follow_child.simps consume_hashed.simps node_ref_def)

lemma decode_items:
  assumes "list_all rlp_small items" "list_all (\<lambda>x. rlp_depth x \<le> 31) items"
    and "length (concat (map rlp_encode items)) < 2 ^ 64"
  shows "decode (encode_list (map rlp_encode items)) = Inr (RList items)"
  using assms exec_rlp.top_iff [of "encode_list (map rlp_encode items)" "RList items"]
  by (simp add: MAX_RLP_DEPTH_def is_u64_iff foldr_max_le)

lemma length_encode_bytes: "is_u64 (length b) \<Longrightarrow> length (encode_bytes b) \<le> 9 + length b"
proof -
  assume "is_u64 (length b)"
  then have "length (len_be (length b)) \<le> 8" if "0 < length b" using len_be_pos(4) [OF that] by blast
  moreover have "0 < length b" if "55 < length b" using that by linarith
  ultimately show ?thesis by (auto simp: encode_bytes_def encode_string_def Let_def)
qed

text \<open>Keys that can be looked up below a call.\<close>

definition key_fits :: "bytes \<Rightarrow> pairs \<Rightarrow> nat \<Rightarrow> bool" where
  "key_fits key input pre \<longleftrightarrow>
     nibbles_ok key \<and> pre \<le> length key \<and> take pre key = take pre (fst (hd input)) \<and>
     (\<forall>x \<in> set input. prefix (fst x) key \<or> prefix key (fst x) \<longrightarrow> fst x = key)"

text \<open>What the builder promises of a call: it returns a decodable node of bounded depth, and
  the walk from it finds the value of every key.\<close>

definition node_ok :: "('pk, 'sg) ext \<Rightarrow> pairs \<Rightarrow> nat \<Rightarrow> bytes \<Rightarrow> rlp list \<Rightarrow> bool" where
  "node_ok X input pre e items \<longleftrightarrow>
     encode_node X input pre = Some e \<and> decode e = Inr (RList items) \<and>
     rlp_depth (RList items) \<le> 19 - pre \<and>
     (\<forall>key. key_fits key input pre \<longrightarrow>
        walk_items X items (proof_below X input pre key) (drop pre key) = Inr (map_of input key))"

lemma node_okD:
  assumes "node_ok X input pre e items"
  shows "encode_node X input pre = Some e" "decode e = Inr (RList items)" "rlp_depth (RList items) \<le> 19 - pre"
    "key_fits key input pre \<Longrightarrow>
       walk_items X items (proof_below X input pre key) (drop pre key) = Inr (map_of input key)"
  using assms unfolding node_ok_def by blast+

lemma node_ok_item:
  assumes "keccak_ok X" "node_ok X input pre e items"
  shows "rlp_encode (child_item X e items) = child_ref X e" "rlp_small (child_item X e items)"
    "rlp_depth (child_item X e items) \<le> 19 - pre" "length (child_ref X e) \<le> 33"
  using child_item_facts [OF assms(1) node_okD(2,3) [OF assms(2)]] by auto

lemma decode_short_items:
  assumes "\<forall>x \<in> set items. rlp_small x \<and> rlp_depth x \<le> d \<and> length (rlp_encode x) \<le> 33"
    and "length items \<le> 17" "d \<le> 31"
  shows "decode (encode_list (map rlp_encode items)) = Inr (RList items)" "rlp_depth (RList items) \<le> Suc d"
proof -
  have "sum_list (map (\<lambda>x. length (rlp_encode x)) items) \<le> 33 * length items"
    using assms(1) by (induction items) auto
  then have "length (concat (map rlp_encode items)) < 2 ^ 64"
    using assms(2) by (simp add: length_concat comp_def)
  then show "decode (encode_list (map rlp_encode items)) = Inr (RList items)"
    using assms(1,3) by (intro decode_items) (auto simp: list_all_iff intro: order_trans)
  show "rlp_depth (RList items) \<le> Suc d" using assms(1) by (simp add: foldr_max_le list_all_iff)
qed

lemma fits_path:
  assumes "key_fits key input pre" "pre \<le> n" "x \<in> set input" "n \<le> length (fst x)"
    and "take pre (fst x) = take pre (fst (hd input))"
  shows "length (drop pre key) < n - pre \<or> take (n - pre) (drop pre key) \<noteq> subslice pre n (fst x) \<longleftrightarrow>
    \<not> (n \<le> length key \<and> take n key = take n (fst x))"
proof -
  have t: "take pre key = take pre (fst x)" "pre \<le> length key" using assms by (auto simp: key_fits_def)
  have "take n ys = take pre ys @ take (n - pre) (drop pre ys)" for ys :: bytes
    using assms(2) take_add [of pre "n - pre" ys] by simp
  then have "take n key = take n (fst x) \<longleftrightarrow> take (n - pre) (drop pre key) = subslice pre n (fst x)"
    using t by (simp add: subslice_def)
  then show ?thesis using t(2) assms(2) by auto
qed

lemma walk_pair:
  assumes "nibbles_ok path"
  shows "walk_items X [RBytes (hex_prefix_encode path is_leaf), item] rest nibbles =
    (if length nibbles < length path \<or> take (length path) nibbles \<noteq> path then
       (if rest = [] then Inr None else Inl (PathMismatch 0 (length nibbles) (length path)))
     else if is_leaf then
       (if drop (length path) nibbles \<noteq> [] then Inl KeyLeftover
        else if rest \<noteq> [] then Inl ExtraNodes
        else map_ok Some (map_err MptRlp (as_bytes item)))
     else follow_child X item rest (drop (length path) nibbles) False)"
  by (simp add: walk_items.simps hex_prefix_roundtrip [OF assms])

lemma subslice_end: "subslice pre (length k) k = drop pre k"
  by (simp add: subslice_def)

lemma leaf_walk:
  assumes "key_fits key [(k, v)] pre" "nibbles_ok k" "pre \<le> length k"
  shows "walk_items X [RBytes (hex_prefix_encode (drop pre k) True), RBytes v] [] (drop pre key) =
    Inr (map_of [(k, v)] key)"
proof -
  have n: "nibbles_ok (drop pre k)" using assms(2) by (auto simp: list_all_iff dest: in_set_dropD)
  have f: "length (drop pre key) < length k - pre \<or> take (length k - pre) (drop pre key) \<noteq> drop pre k \<longleftrightarrow>
      \<not> (length k \<le> length key \<and> take (length k) key = k)"
    using fits_path [OF assms(1), of "length k" "(k, v)"] assms(3) by (simp add: subslice_end)
  show ?thesis
  proof (cases "length k \<le> length key \<and> take (length k) key = k")
    case True
    then have "prefix k key" by (metis take_is_prefix)
    then have "k = key" using assms(1) by (simp add: key_fits_def)
    then show ?thesis unfolding walk_pair [OF n] by simp
  next
    case False
    then show ?thesis unfolding walk_pair [OF n] using f by auto
  qed
qed

lemma leaf_ok:
  assumes "keys_ok [(k, v)] pre"
  shows "\<exists>e items. node_ok X [(k, v)] pre e items"
proof -
  let ?hp = "hex_prefix_encode (drop pre k) True"
  let ?items = "[RBytes ?hp, RBytes v]"
  have k: "nibbles_ok k" "pre \<le> length k" "length k \<le> 18" "length v < 2 ^ 63"
    using assms by (auto simp: keys_ok_def pair_ok_def)
  have l: "length ?hp \<le> 10" "is_u64 (length ?hp)" "is_u64 (length v)"
    using k by (auto simp: length_hex_prefix_encode is_u64_def u64_max_def)
  then have "length (concat (map rlp_encode ?items)) < 2 ^ 64"
    using length_encode_bytes [of ?hp] length_encode_bytes [of v] k(4) by simp
  then have "decode (encode_list (map rlp_encode ?items)) = Inr (RList ?items)"
    using l by (intro decode_items) auto
  moreover have "encode_node X [(k, v)] pre = Some (encode_list (map rlp_encode ?items))"
    using k by (simp add: encode_node.simps)
  moreover have "rlp_depth (RList ?items) \<le> 19 - pre" using k by simp
  moreover have "walk_items X ?items (proof_below X [(k, v)] pre key) (drop pre key) = Inr (map_of [(k, v)] key)"
    if "key_fits key [(k, v)] pre" for key
    using leaf_walk [OF that k(1,2), of X] by (subst proof_below.simps) simp
  ultimately show ?thesis unfolding node_ok_def by blast
qed

lemma extension_walk:
  assumes "keccak_ok X" "keys_ok ((k, v) # others) pre" "others \<noteq> []" "pre < shared_len k others"
    and node: "node_ok X ((k, v) # others) (shared_len k others) e items"
    and fits: "key_fits key ((k, v) # others) pre"
  shows "walk_items X [RBytes (hex_prefix_encode (subslice pre (shared_len k others) k) False), child_item X e items]
      (proof_below X ((k, v) # others) pre key) (drop pre key) = Inr (map_of ((k, v) # others) key)"
proof -
  let ?in = "(k, v) # others" and ?s = "shared_len k others"
  note sh = keys_ok_shared [OF assms(2,3)]
  have s: "pre \<le> ?s" "?s < length k" using sh [of "(k, v)"] assms(4) by auto
  have n: "nibbles_ok (subslice pre ?s k)"
    using assms(2) by (auto simp: keys_ok_def pair_ok_def list_all_iff subslice_def dest!: in_set_takeD in_set_dropD)
  have l: "length (subslice pre ?s k) = ?s - pre" using s by (simp add: min_absorb1)
  have f: "length (drop pre key) < ?s - pre \<or> take (?s - pre) (drop pre key) \<noteq> subslice pre ?s k \<longleftrightarrow>
      \<not> (?s \<le> length key \<and> take ?s key = take ?s k)"
    using fits_path [OF fits, of ?s "(k, v)"] s by simp
  show ?thesis
  proof (cases "?s \<le> length key \<and> take ?s key = take ?s k")
    case True
    then have "key_fits key ?in ?s" using fits by (auto simp: key_fits_def)
    from node_okD(4) [OF node this]
    have "follow_child X (child_item X e items) (ref_nodes e @ proof_below X ?in ?s key) (drop ?s key) False =
        Inr (map_of ?in key)"
      by (rule follow_child_item [OF assms(1) node_okD(2) [OF node]])
    moreover have "proof_below X ?in pre key = ref_nodes e @ proof_below X ?in ?s key"
      using True assms(3,4) node_okD(1) [OF node] by (subst proof_below.simps) (cases others, auto simp: Let_def)
    moreover have "drop (?s - pre) (drop pre key) = drop ?s key" using s by simp
    ultimately show ?thesis unfolding walk_pair [OF n] l using f True by simp
  next
    case False
    then have "proof_below X ?in pre key = []"
      using assms(3,4) by (subst proof_below.simps) (cases others, auto simp: Let_def)
    moreover have "map_of ?in key = None"
    proof (rule ccontr)
      assume "map_of ?in key \<noteq> None"
      then obtain w where "map_of ?in key = Some w" by blast
      then have "(key, w) \<in> set ?in" by (rule map_of_SomeD)
      from sh(2,3) [OF this] show False using False by simp
    qed
    ultimately show ?thesis unfolding walk_pair [OF n] l using f False by simp
  qed
qed

lemma extension_ok:
  assumes "keccak_ok X" "keys_ok ((k, v) # others) pre" "others \<noteq> []" "pre < shared_len k others"
    and node: "node_ok X ((k, v) # others) (shared_len k others) e items"
  shows "\<exists>e items. node_ok X ((k, v) # others) pre e items"
proof -
  let ?in = "(k, v) # others" and ?s = "shared_len k others"
  let ?hp = "hex_prefix_encode (subslice pre ?s k) False"
  let ?items = "[RBytes ?hp, child_item X e items]"
  have k: "?s < length k" "length k \<le> 18"
    using keys_ok_shared [OF assms(2,3), of "(k, v)"] assms(2) by (auto simp: keys_ok_def pair_ok_def)
  note c = node_ok_item [OF assms(1) node]
  have l: "length ?hp \<le> 10" "is_u64 (length ?hp)"
    using k by (auto simp: length_hex_prefix_encode is_u64_def u64_max_def)
  then have "length (concat (map rlp_encode ?items)) < 2 ^ 64"
    using length_encode_bytes [of ?hp] c(1,4) by simp
  then have "decode (encode_list (map rlp_encode ?items)) = Inr (RList ?items)"
    using l c by (intro decode_items) auto
  moreover have "encode_node X ?in pre = Some (encode_list (map rlp_encode ?items))"
    using assms(3,4) node_okD(1) [OF node] c(1) by (subst encode_node.simps) simp
  moreover have "rlp_depth (RList ?items) \<le> 19 - pre" using k c(3) assms(4) by simp
  ultimately show ?thesis
    using extension_walk [OF assms] unfolding node_ok_def by blast
qed

lemma map_of_nib_group:
  assumes "unat (key ! p) = n"
  shows "map_of (nib_group p n input) key = map_of input key"
  using assms by (induction input) (auto simp: nib_group_def)

lemma key_fits_group:
  assumes "key_fits key input pre" "pre < length key" "nib_group pre (unat (key ! pre)) input \<noteq> []"
    and "\<forall>x \<in> set input. pre < length (fst x) \<and> take pre (fst x) = take pre (fst (hd input))"
  shows "key_fits key (nib_group pre (unat (key ! pre)) input) (Suc pre)"
proof -
  define x where "x = hd (nib_group pre (unat (key ! pre)) input)"
  have x: "x \<in> set input" "nib pre x = unat (key ! pre)"
    using hd_in_set [OF assms(3)] by (auto simp: nib_group_def x_def)
  then have "fst x ! pre = key ! pre" by (metis word_unat_eq_iff)
  moreover have "take pre (fst x) = take pre key" using assms(1,4) x(1) by (simp add: key_fits_def)
  ultimately have "take (Suc pre) key = take (Suc pre) (fst x)"
    using assms(2,4) x(1) by (simp add: take_Suc_conv_app_nth)
  moreover have "set (nib_group pre (unat (key ! pre)) input) \<subseteq> set input" by (auto simp: nib_group_def)
  ultimately show ?thesis using assms(1,2) unfolding key_fits_def x_def by auto
qed

lemma branch_walk:
  assumes "keccak_ok X" "others \<noteq> []" "\<not> pre < shared_len k others"
    and long: "\<forall>x \<in> set ((k, v) # others). pre < length (fst x)"
    and nodes: "\<forall>n < 16. nib_group pre n ((k, v) # others) \<noteq> [] \<longrightarrow>
      node_ok X (nib_group pre n ((k, v) # others)) (Suc pre) (f n) (g n)"
    and fits: "key_fits key ((k, v) # others) pre"
    and common: "\<forall>x \<in> set ((k, v) # others). take pre (fst x) = take pre k"
  shows "walk_items X (map (\<lambda>n. if nib_group pre n ((k, v) # others) = [] then RBytes []
        else child_item X (f n) (g n)) [0..<16] @ [RBytes []])
      (proof_below X ((k, v) # others) pre key) (drop pre key) = Inr (map_of ((k, v) # others) key)"
proof -
  let ?in = "(k, v) # others"
  have "pre \<noteq> length key"
  proof
    assume "pre = length key"
    then have "take pre k = key" using fits by (simp add: key_fits_def)
    then have "prefix key k" by (metis take_is_prefix)
    then have "k = key" using fits by (simp add: key_fits_def)
    then show False using long \<open>pre = length key\<close> by simp
  qed
  then have pk: "pre < length key" using fits by (simp add: key_fits_def)
  let ?n = "unat (key ! pre)"
  have n16: "?n < 16" using fits pk by (simp add: key_fits_def list_all_length)
  have dk: "drop pre key = key ! pre # drop (Suc pre) key" using pk by (simp add: Cons_nth_drop_Suc)
  note m = map_of_nib_group [of key pre ?n ?in, OF refl]
  show ?thesis
  proof (cases "nib_group pre ?n ?in = []")
    case True
    then have "proof_below X ?in pre key = []"
      using assms(2,3) by (subst proof_below.simps) (cases others, auto simp: Let_def)
    then show ?thesis using True n16 m by (simp add: walk_items.simps dk follow_child.simps nth_append)
  next
    case False
    let ?g = "nib_group pre ?n ?in"
    have node: "node_ok X ?g (Suc pre) (f ?n) (g ?n)" using nodes n16 False by blast
    have "key_fits key ?g (Suc pre)" using key_fits_group [OF fits pk False] long common by simp
    note w = follow_child_item [OF assms(1) node_okD(2) [OF node] node_okD(4) [OF node this]]
    have "proof_below X ?in pre key = ref_nodes (f ?n) @ proof_below X ?g (Suc pre) key"
      using assms(2,3) pk False node_okD(1) [OF node]
      by (subst proof_below.simps) (cases others, auto simp: Let_def)
    then show ?thesis using w False n16 m by (simp add: walk_items.simps dk nth_append)
  qed
qed

lemma branch_ok:
  assumes "keccak_ok X" "keys_ok ((k, v) # others) pre" "others \<noteq> []" "\<not> pre < shared_len k others"
    and nodes: "\<forall>n < 16. nib_group pre n ((k, v) # others) \<noteq> [] \<longrightarrow>
      node_ok X (nib_group pre n ((k, v) # others)) (Suc pre) (f n) (g n)"
  shows "\<exists>e items. node_ok X ((k, v) # others) pre e items"
proof -
  let ?in = "(k, v) # others"
  define item where "item = (\<lambda>n. if nib_group pre n ?in = [] then RBytes [] else child_item X (f n) (g n))"
  let ?items = "map item [0..<16] @ [RBytes []]"
  note sh = keys_ok_shared [OF assms(2,3)]
  have s: "shared_len k others = pre" using sh(1) [of "(k, v)"] assms(4) by simp
  have long: "\<forall>x \<in> set ?in. pre < length (fst x)" using sh(2) s by metis
  have common: "\<forall>x \<in> set ?in. take pre (fst x) = take pre k" using sh(3) s by metis
  have k18: "length k \<le> 18" "nibbles_ok (fst x)" if "x \<in> set ?in" for x
    using assms(2) that by (auto simp: keys_ok_def pair_ok_def)
  have p18: "pre < 18" using k18(1) long by fastforce
  have c: "rlp_encode (item n) = (if nib_group pre n ?in = [] then encode_bytes [] else child_ref X (f n)) \<and>
    rlp_small (item n) \<and> rlp_depth (item n) \<le> 18 - pre \<and> length (rlp_encode (item n)) \<le> 33" if "n < 16" for n
  proof (cases "nib_group pre n ?in = []")
    case False
    then show ?thesis using node_ok_item [OF assms(1)] nodes that by (fastforce simp: item_def)
  qed (simp add: item_def encode_bytes_def encode_string_def is_u64_def)
  have "encode_children X ?in pre [0..<16] = Some (map (\<lambda>n. if nib_group pre n ?in = [] then exec_encode_bytes []
      else child_ref X (f n)) [0..<16])"
  proof (rule encode_children_groups [OF long keys_ok_sorted [OF assms(2) long]])
    have "nib pre x < 16" if "x \<in> set ?in" for x
      using k18(2) [OF that] bspec [OF long that] by (simp add: list_all_length)
    then show "nib pre ` set ?in \<subseteq> set [0..<16]" by (intro image_subsetI) (simp only: set_upt atLeastLessThan_iff le0 simp_thms)
    show "\<forall>n \<in> set [0..<16]. nib_group pre n ?in \<noteq> [] \<longrightarrow> encode_node X (nib_group pre n ?in) (Suc pre) = Some (f n)"
      using nodes node_okD(1) by (metis atLeastLessThan_iff set_upt)
  qed simp
  then have "encode_children X ?in pre [0..<16] = Some (map (\<lambda>n. rlp_encode (item n)) [0..<16])"
    using c by (simp del: upt_Suc cong: map_cong)
  then have enc: "encode_node X ?in pre = Some (encode_list (map rlp_encode ?items))"
    using assms(3,4) long by (subst encode_node.simps) (simp add: comp_def del: upt_Suc)
  have "rlp_small x \<and> rlp_depth x \<le> 18 - pre \<and> length (rlp_encode x) \<le> 33" if "x \<in> set ?items" for x
  proof -
    from that consider n where "n < 16" "x = item n" | "x = RBytes []" by (auto simp del: upt_Suc)
    then show ?thesis
    proof cases
      case 1
      then show ?thesis using c by blast
    qed (simp add: encode_bytes_def encode_string_def is_u64_def)
  qed
  then have all: "\<forall>x \<in> set ?items. rlp_small x \<and> rlp_depth x \<le> 18 - pre \<and> length (rlp_encode x) \<le> 33"
    by blast
  have "length ?items \<le> 17" "18 - pre \<le> 31" "Suc (18 - pre) = 19 - pre" using p18 by auto
  with decode_short_items [OF all] have "decode (encode_list (map rlp_encode ?items)) = Inr (RList ?items)"
    "rlp_depth (RList ?items) \<le> 19 - pre" by metis+
  then show ?thesis
    using enc branch_walk [OF assms(1,3,4) long nodes _ common, folded item_def] unfolding node_ok_def by blast
qed

lemma node_exists:
  assumes "keccak_ok X" "keys_ok input pre"
  shows "\<exists>e items. node_ok X input pre e items"
  using assms(2)
proof (induction "key_bound input - pre" arbitrary: input pre rule: less_induct)
  case less
  obtain k v others where input: "input = (k, v) # others"
    using less.prems by (cases input) (auto simp: keys_ok_def)
  show ?case
  proof (cases "others = []")
    case True
    then show ?thesis using leaf_ok less.prems unfolding input by blast
  next
    case False
    note sh = keys_ok_shared [OF less.prems [unfolded input] False]
    have kb: "length k \<le> key_bound input" by (simp add: input)
    show ?thesis
    proof (cases "pre < shared_len k others")
      case True
      then have "key_bound input - shared_len k others < key_bound input - pre"
        using kb sh(2) [of "(k, v)"] by simp
      then obtain e items where "node_ok X input (shared_len k others) e items"
        using less.hyps keys_ok_extend less.prems False unfolding input by blast
      then show ?thesis using extension_ok [OF assms(1)] less.prems False True unfolding input by blast
    next
      case shared: False
      then have long: "\<forall>x \<in> set input. pre < length (fst x)" using sh(1,2) unfolding input by force
      have "\<exists>e items. node_ok X (nib_group pre n input) (Suc pre) e items" if "nib_group pre n input \<noteq> []" for n
      proof -
        have "key_bound (nib_group pre n input) \<le> key_bound input" by (induction input) (auto simp: nib_group_def)
        then show ?thesis
          using less.hyps keys_ok_group [OF less.prems long that] kb long unfolding input by force
      qed
      then obtain f g where "\<forall>n < 16. nib_group pre n input \<noteq> [] \<longrightarrow>
          node_ok X (nib_group pre n input) (Suc pre) (f n) (g n)" by metis
      then show ?thesis using branch_ok [OF assms(1)] less.prems False shared unfolding input by blast
    qed
  qed
qed

section \<open>The trie of a list\<close>

text \<open>A list the code can hold: at most 4096 items, each a vector.\<close>

definition list_ok :: "bytes list \<Rightarrow> bool" where
  "list_ok items \<longleftrightarrow> items \<noteq> [] \<and> length items \<le> MAX_ORDERED_TRIE_ITEMS \<and> (\<forall>b \<in> set items. length b < 2 ^ 63)"

lemma set_trie_pairs: "set (trie_pairs items) = (\<lambda>i. (index_key i, items ! i)) ` {0..<length items}"
proof -
  have "enumerate 0 items = map (\<lambda>i. (i, items ! i)) [0..<length items]"
    by (rule nth_equalityI) (simp_all add: nth_enumerate_eq)
  then show ?thesis by (auto simp: trie_pairs_def index_key_def)
qed

lemma index_u64: "length items \<le> MAX_ORDERED_TRIE_ITEMS \<Longrightarrow> i < length items \<Longrightarrow> is_u64 i"
  by (simp add: MAX_ORDERED_TRIE_ITEMS_def is_u64_def u64_max_def)

lemma trie_pairs_sorted:
  assumes "length items \<le> MAX_ORDERED_TRIE_ITEMS"
  shows "sorted_wrt (\<lambda>x y. fst x < fst y) (trie_pairs items)"
proof -
  have "inj_on index_key {0..<length items}"
    using index_key_prefix index_u64 [OF assms] by (intro inj_onI) auto
  moreover have "map fst (map (\<lambda>(i, item). (bytes_to_nibbles (exec_encode_uint i), item)) (enumerate 0 items)) =
      map index_key [0..<length items]"
    by (rule nth_equalityI) (simp_all add: nth_enumerate_eq index_key_def)
  ultimately have "sorted_wrt (<) (map fst (trie_pairs items))"
    unfolding trie_pairs_def sort_key_map_fst by (simp add: sorted_wrt_less_sort distinct_map)
  then show ?thesis by (simp add: sorted_wrt_map)
qed

lemma keys_ok_trie_pairs:
  assumes "list_ok items"
  shows "keys_ok (trie_pairs items) 0"
proof -
  have len: "length items \<le> MAX_ORDERED_TRIE_ITEMS" using assms by (simp add: list_ok_def)
  have "trie_pairs items \<noteq> []"
    using assms set_trie_pairs [of items] by (auto simp: list_ok_def)
  moreover have "prefix_free (fst ` set (trie_pairs items))"
    using index_u64 [OF len] by (auto simp: prefix_free_def set_trie_pairs dest!: index_key_prefix [rotated 2])
  moreover have "pair_ok x" if "x \<in> set (trie_pairs items)" for x
    using that assms index_key_bounds index_u64 [OF len] by (auto simp: set_trie_pairs pair_ok_def list_ok_def)
  ultimately show ?thesis using trie_pairs_sorted [OF len] by (simp add: keys_ok_def)
qed

lemma map_of_trie_pairs:
  assumes "length items \<le> MAX_ORDERED_TRIE_ITEMS" "is_u64 i"
  shows "map_of (trie_pairs items) (index_key i) = (if i < length items then Some (items ! i) else None)"
proof (cases "i < length items")
  case True
  have "distinct (map fst (trie_pairs items))" using sorted_keys_distinct trie_pairs_sorted [OF assms(1)] by blast
  then show ?thesis using True by (simp add: map_of_eq_Some_iff set_trie_pairs)
next
  case False
  have "index_key i \<notin> fst ` set (trie_pairs items)"
  proof
    assume "index_key i \<in> fst ` set (trie_pairs items)"
    then obtain j where j: "j < length items" "index_key i = index_key j" by (auto simp: set_trie_pairs)
    then have "i = j" using index_key_prefix [OF assms(2) index_u64 [OF assms(1) j(1)]] by simp
    then show False using j False by simp
  qed
  then show ?thesis using False map_of_eq_None_iff by metis
qed

lemma key_fits_trie:
  assumes "length items \<le> MAX_ORDERED_TRIE_ITEMS" "is_u64 i"
  shows "key_fits (index_key i) (trie_pairs items) 0"
  using index_key_bounds(1) [OF assms(2)] assms(2) index_u64 [OF assms(1)]
  by (auto simp: key_fits_def set_trie_pairs dest!: index_key_prefix [rotated 2])

lemma root_node:
  assumes "keccak_ok X" "list_ok items"
  obtains e rs where "encode_node X (trie_pairs items) 0 = Some e" "decode e = Inr (RList rs)"
    "\<And>i. is_u64 i \<Longrightarrow> walk_items X rs (tl (trie_proof X items i)) (index_key i) =
       Inr (if i < length items then Some (items ! i) else None)"
    "\<And>i. trie_proof X items i = e # tl (trie_proof X items i)"
proof -
  obtain e rs where n: "node_ok X (trie_pairs items) 0 e rs"
    using node_exists [OF assms(1) keys_ok_trie_pairs [OF assms(2)]] by blast
  have len: "length items \<le> MAX_ORDERED_TRIE_ITEMS" using assms(2) by (simp add: list_ok_def)
  show thesis
  proof (rule that)
    show "walk_items X rs (tl (trie_proof X items i)) (index_key i) =
       Inr (if i < length items then Some (items ! i) else None)" if "is_u64 i" for i
      using node_okD(4) [OF n key_fits_trie [OF len that]] map_of_trie_pairs [OF len that]
      by (simp add: trie_proof_def)
  qed (use node_okD(1,2) [OF n] in \<open>simp_all add: trie_proof_def\<close>)
qed

lemma ordered_trie_root_eq:
  "list_ok items \<Longrightarrow> ordered_trie_root X items = map_option (keccak X) (encode_node X (trie_pairs items) 0)"
  by (simp add: ordered_trie_root_def list_ok_def)

lemma trie_proof_accepted:
  assumes "keccak_ok X" "list_ok items" "is_u64 i" "32 \<le> length (hd (trie_proof X items i))"
  shows "\<exists>root. ordered_trie_root X items = Some root \<and>
    verify_trie_proof X root (exec_encode_uint i) (trie_proof X items i) =
      Inr (if i < length items then Some (items ! i) else None)"
proof -
  obtain e rs where e: "encode_node X (trie_pairs items) 0 = Some e" "decode e = Inr (RList rs)"
    "walk_items X rs (tl (trie_proof X items i)) (index_key i) = Inr (if i < length items then Some (items ! i) else None)"
    "trie_proof X items i = e # tl (trie_proof X items i)"
    using root_node [OF assms(1,2)] assms(3) by metis
  have "32 \<le> length e" using assms(4) e(1) by (simp add: trie_proof_def)
  then have "consume_hashed X (trie_proof X items i) (keccak X e) (index_key i) =
      walk_items X rs (tl (trie_proof X items i)) (index_key i)"
    by (subst consume_hashed.simps, subst e(4)) (simp add: node_ref_def e(2))
  moreover have "trie_proof X items i \<noteq> []" by (simp add: trie_proof_def)
  ultimately show ?thesis
    using e(1,3) by (simp add: ordered_trie_root_eq [OF assms(2)] verify_trie_proof_def verify_nibble_proof_def index_key_def)
qed

lemma lists_agree:
  assumes "\<And>i. i \<le> max (length a) (length b) \<Longrightarrow>
    (if i < length a then Some (a ! i) else None) = (if i < length b then Some (b ! i) else None)"
  shows "a = b"
proof -
  have "length a = length b"
    using assms [of "length a"] assms [of "length b"] by (auto split: if_splits)
  moreover have "a ! i = b ! i" if "i < length a" for i using assms [of i] that calculation by simp
  ultimately show ?thesis by (rule nth_equalityI)
qed

text \<open>Nodes met when reading one index from both lists that collide.\<close>

definition trie_collision :: "('pk, 'sg) ext \<Rightarrow> bytes list \<Rightarrow> bytes list \<Rightarrow> bool" where
  "trie_collision X a b \<longleftrightarrow>
     (\<exists>i \<le> MAX_ORDERED_TRIE_ITEMS. proof_collision X (trie_proof X a i) (trie_proof X b i))"

lemma ordered_trie_binding:
  assumes X: "keccak_ok X" and a: "list_ok a" and b: "list_ok b" and eq: "ordered_trie_root X a = ordered_trie_root X b"
  shows "a = b \<or> trie_collision X a b"
proof (rule disjCI)
  assume nc: "\<not> trie_collision X a b"
  obtain e rs where e: "encode_node X (trie_pairs a) 0 = Some e" "decode e = Inr (RList rs)"
    "\<And>i. is_u64 i \<Longrightarrow> walk_items X rs (tl (trie_proof X a i)) (index_key i) = Inr (if i < length a then Some (a ! i) else None)"
    "\<And>i. trie_proof X a i = e # tl (trie_proof X a i)" using root_node [OF X a] by metis
  obtain e' rs' where e': "encode_node X (trie_pairs b) 0 = Some e'" "decode e' = Inr (RList rs')"
    "\<And>i. is_u64 i \<Longrightarrow> walk_items X rs' (tl (trie_proof X b i)) (index_key i) = Inr (if i < length b then Some (b ! i) else None)"
    "\<And>i. trie_proof X b i = e' # tl (trie_proof X b i)" using root_node [OF X b] by metis
  have "keccak X e = keccak X e'" using eq e(1) e'(1) by (simp add: ordered_trie_root_eq a b)
  moreover have "\<not> collision X e e'"
    using nc proof_collision_Cons(1) e(4) [of 0] e'(4) [of 0] unfolding trie_collision_def by (metis le0)
  ultimately have "e = e'" by (simp add: collision_def)
  then have rs: "rs' = rs" using e(2) e'(2) by simp
  show "a = b"
  proof (rule lists_agree)
    fix i
    assume "i \<le> max (length a) (length b)"
    then have i: "i \<le> MAX_ORDERED_TRIE_ITEMS" using a b by (auto simp: list_ok_def)
    then have u: "is_u64 i" by (simp add: MAX_ORDERED_TRIE_ITEMS_def is_u64_def u64_max_def)
    have "\<not> proof_collision X (tl (trie_proof X a i)) (tl (trie_proof X b i))"
      using nc i proof_collision_Cons(2) e(4) [of i] e'(4) [of i] unfolding trie_collision_def by metis
    then show "(if i < length a then Some (a ! i) else None) = (if i < length b then Some (b ! i) else None)"
      using walk_binding(2) [OF X e(3) [OF u] e'(3) [OF u, unfolded rs]] by blast
  qed
qed

lemma trie_proof_short_root:
  assumes "keccak_ok X" "list_ok items" "is_u64 i" "length (hd (trie_proof X items i)) < 32"
  shows "\<exists>root. ordered_trie_root X items = Some root \<and>
    verify_trie_proof X root (exec_encode_uint i) (trie_proof X items i) = Inl MptHashMismatch"
proof -
  obtain e where e: "encode_node X (trie_pairs items) 0 = Some e" using root_node [OF assms(1,2)] assms(3) by metis
  define t where "t = proof_below X (trie_pairs items) 0 (index_key i)"
  have p: "trie_proof X items i = e # t" using e by (simp add: trie_proof_def t_def)
  have "length e < 32" using assms(4) by (simp add: p)
  moreover have "length (keccak X e) = 32" using assms(1) by (simp add: keccak_ok_def)
  ultimately have "node_ref X e \<noteq> keccak X e" by (auto simp: node_ref_def)
  then have "consume_hashed X (e # t) (keccak X e) ns = Inl MptHashMismatch" for ns
    by (simp add: consume_hashed.simps)
  then show ?thesis using e p by (simp add: ordered_trie_root_eq [OF assms(2)] verify_trie_proof_def verify_nibble_proof_def)
qed

text \<open>
  C34. The trie builder against the proof verifier, verdict by verdict. For every list of one to 4096 items (each
  shorter than \<open>2^63\<close> bytes) the root is computed without an out-of-range access. If the root node has at least 32 bytes, the Merkle
  proof read off the trie for the RLP key of any index is accepted against that root, with the item at that index or
  with absence when the index is past the end. If it is shorter, as for one item of a few bytes, the verifier takes the node itself
  for its reference, and refuses the proof with a hash mismatch. (The walk is stated for the RLP
  keys of indices; \<open>mpt.rs\<close> itself is only called with 32-byte keys.)
\<close>

theorem ordered_trie_proofs:
  assumes "keccak_ok X" "list_ok items" "is_u64 i"
  shows "\<exists>root. ordered_trie_root X items = Some root \<and>
    verify_trie_proof X root (exec_encode_uint i) (trie_proof X items i) =
      (if length (hd (trie_proof X items i)) < 32 then Inl MptHashMismatch
       else Inr (if i < length items then Some (items ! i) else None))"
  using trie_proof_accepted [OF assms] trie_proof_short_root [OF assms] by (simp add: not_less)

section \<open>Witnesses\<close>

definition sample_item :: bytes where
  "sample_item = replicate 40 7"

definition short_item :: bytes where
  "short_item = [0x68, 0x65, 0x6c, 0x6c, 0x6f]"

lemma sample_path: "length (hex_prefix_encode (bytes_to_nibbles (exec_encode_uint 0)) True) = 2"
  by code_simp

lemma item_roots:
  "\<not> length (hd (trie_proof refX [sample_item] 0)) < 32" "length (hd (trie_proof refX [short_item] 0)) < 32"
  by (simp_all add: trie_proof_def trie_pairs_def encode_node.simps encode_list_def Let_def sample_item_def short_item_def
      encode_bytes_def encode_string_def sample_path)

theorem ordered_trie_proofs_witness:
  "(\<exists>root. ordered_trie_root refX [sample_item] = Some root \<and>
     verify_trie_proof refX root (exec_encode_uint 0) (trie_proof refX [sample_item] 0) = Inr (Some sample_item)) \<and>
   (\<exists>root. ordered_trie_root refX [short_item] = Some root \<and>
     verify_trie_proof refX root (exec_encode_uint 0) (trie_proof refX [short_item] 0) = Inl MptHashMismatch)"
proof -
  have ok: "list_ok [sample_item]" "list_ok [short_item]" "is_u64 0"
    by (simp_all add: list_ok_def sample_item_def short_item_def MAX_ORDERED_TRIE_ITEMS_def is_u64_def)
  show ?thesis
    using ordered_trie_proofs [OF keccak_ok_refX ok(1,3)] ordered_trie_proofs [OF keccak_ok_refX ok(2,3)] item_roots by simp
qed

end
