(* ===== verification/Receipts.thy ===== *)
theory Receipts
  imports Ordered_Trie
begin

text \<open>
  Transaction and receipt lists against the roots of a sealed header
  (\<open>helios-bsc-execution/src/tx_list.rs\<close> and \<open>receipt_list.rs\<close>), and the consensus encoding of
  receipts that the receipt trie holds (\<open>receipt_rlp.rs\<close>). Both list checks implement one
  contract, \<open>committed_list\<close>: a root determines the accepted list up to a Keccak
  collision between nodes of the two tries. The receipt encoding is injective, so the
  receipts root determines the receipts themselves.
\<close>

section \<open>List checks\<close>

datatype tx_list_error = TooMany | TxRootMismatch | TxListPanic

definition verify_tx_list :: "('pk, 'sg) ext \<Rightarrow> bytes list \<Rightarrow> bytes \<Rightarrow> (tx_list_error, bytes list) result" where
  "verify_tx_list X raws transactions_root =
     (if MAX_ORDERED_TRIE_ITEMS < length raws then Inl TooMany
      else case ordered_trie_root X raws of
        None \<Rightarrow> Inl TxListPanic
      | Some root \<Rightarrow>
          if root \<noteq> transactions_root then Inl TxRootMismatch else Inr (map (keccak X) raws))"

datatype receipt_list_error = TooManyItems | ReceiptsRootMismatch | ReceiptListPanic

definition verify_receipt_list :: "('pk, 'sg) ext \<Rightarrow> bytes list \<Rightarrow> bytes \<Rightarrow> (receipt_list_error, unit) result" where
  "verify_receipt_list X receipt_rlps receipts_root =
     (if MAX_ORDERED_TRIE_ITEMS < length receipt_rlps then Inl TooManyItems
      else case ordered_trie_root X receipt_rlps of
        None \<Rightarrow> Inl ReceiptListPanic
      | Some root \<Rightarrow> if root \<noteq> receipts_root then Inl ReceiptsRootMismatch else Inr ())"

section \<open>Consensus receipts\<close>

definition MAX_RECEIPT_LOGS :: nat where
  "MAX_RECEIPT_LOGS = 1024"

definition MAX_LOG_TOPICS :: nat where
  "MAX_LOG_TOPICS = 4"

datatype receipt_rlp_error = UnknownReceiptType nat | InvalidStatus | TooManyLogs | TooManyTopics

record consensus_log =
  log_address :: bytes
  log_topics :: "bytes list"
  log_data :: bytes

record consensus_receipt =
  rc_status :: nat
  rc_cumulative_gas_used :: nat
  rc_logs_bloom :: bytes
  rc_logs :: "consensus_log list"
  rc_tx_type :: nat

definition encode_log :: "consensus_log \<Rightarrow> bytes" where
  "encode_log log =
     exec_encode_list
       [exec_encode_bytes (log_address log),
        exec_encode_list (map exec_encode_bytes (log_topics log)),
        exec_encode_bytes (log_data log)]"

definition encode_consensus_receipt :: "consensus_receipt \<Rightarrow> (receipt_rlp_error, bytes) result" where
  "encode_consensus_receipt r =
     (if 4 < rc_tx_type r then Inl (UnknownReceiptType (rc_tx_type r))
      else if 1 < rc_status r then Inl InvalidStatus
      else if MAX_RECEIPT_LOGS < length (rc_logs r) then Inl TooManyLogs
      else if \<exists>log \<in> set (rc_logs r). MAX_LOG_TOPICS < length (log_topics log) then Inl TooManyTopics
      else
        let payload = exec_encode_list
              [exec_encode_uint (rc_status r),
               exec_encode_uint (rc_cumulative_gas_used r),
               exec_encode_bytes (rc_logs_bloom r),
               exec_encode_list (map encode_log (rc_logs r))]
        in if rc_tx_type r = 0 then Inr payload else Inr (word_of_nat (rc_tx_type r) # payload))"

section \<open>A root determines its list\<close>

text \<open>The empty-trie constant of the source is the digest of the empty string's encoding.\<close>

definition empty_root_ok :: "('pk, 'sg) ext \<Rightarrow> bool" where
  "empty_root_ok X \<longleftrightarrow> keccak X [0x80] = EMPTY_TRIE_ROOT"

definition list_nodes :: "('pk, 'sg) ext \<Rightarrow> bytes list \<Rightarrow> nat \<Rightarrow> bytes list" where
  "list_nodes X items i = (if items = [] then [[0x80]] else trie_proof X items i)"

definition list_collision :: "('pk, 'sg) ext \<Rightarrow> bytes list \<Rightarrow> bytes list \<Rightarrow> bool" where
  "list_collision X a b \<longleftrightarrow>
     (\<exists>i \<le> MAX_ORDERED_TRIE_ITEMS. proof_collision X (list_nodes X a i) (list_nodes X b i))"

definition vecs_ok :: "bytes list \<Rightarrow> bool" where
  "vecs_ok items \<longleftrightarrow> (\<forall>b \<in> set items. length b < 2 ^ 63)"

lemma list_node_not_empty: "decode e = Inr (RList rs) \<Longrightarrow> e \<noteq> [0x80]"
  by (auto simp: decode_def decode_one_def decode_header_def split_payload_def)

lemma root_of_nonempty:
  assumes "keccak_ok X" "empty_root_ok X" "list_ok items" "ordered_trie_root X items = Some EMPTY_TRIE_ROOT"
  shows "list_collision X [] items" "list_collision X items []"
proof -
  obtain e rs where e: "encode_node X (trie_pairs items) 0 = Some e" "decode e = Inr (RList rs)"
    "trie_proof X items 0 = e # tl (trie_proof X items 0)" using root_node [OF assms(1,3)] by metis
  have "keccak X e = keccak X [0x80]"
    using assms(2,4) e(1) by (simp add: ordered_trie_root_eq [OF assms(3)] empty_root_ok_def)
  then have "collision X [0x80] e" "collision X e [0x80]"
    using list_node_not_empty [OF e(2)] by (auto simp: collision_def)
  moreover have "e \<in> set (list_nodes X items 0)" "[0x80] \<in> set (list_nodes X [] 0)"
    using assms(3) e(3) by (auto simp: list_nodes_def list_ok_def) (metis list.set_intros(1))
  ultimately show "list_collision X [] items" "list_collision X items []"
    unfolding list_collision_def proof_collision_def by blast+
qed

lemma root_determines_list:
  assumes X: "keccak_ok X" "empty_root_ok X" and "vecs_ok a" "vecs_ok b"
    and "length a \<le> MAX_ORDERED_TRIE_ITEMS" "length b \<le> MAX_ORDERED_TRIE_ITEMS"
    and eq: "ordered_trie_root X a = ordered_trie_root X b"
  shows "a = b \<or> list_collision X a b"
proof -
  have nil: "ordered_trie_root X [] = Some EMPTY_TRIE_ROOT" by (simp add: ordered_trie_root_def)
  have ok: "a = [] \<or> list_ok a" "b = [] \<or> list_ok b" using assms by (auto simp: list_ok_def vecs_ok_def)
  consider "a = []" "b = []" | "a = []" "list_ok b" | "list_ok a" "b = []" | "list_ok a" "list_ok b" using ok by blast
  then show ?thesis
  proof cases
    case 2
    then show ?thesis using root_of_nonempty(1) [OF X 2(2)] eq nil by simp
  next
    case 3
    then show ?thesis using root_of_nonempty(2) [OF X 3(1)] eq nil by simp
  next
    case 4
    then have "a \<noteq> []" "b \<noteq> []" by (auto simp: list_ok_def)
    then show ?thesis using ordered_trie_binding [OF X(1) 4 eq]
      by (simp add: trie_collision_def list_collision_def list_nodes_def)
  qed simp
qed

text \<open>The contract of a list check against a root.\<close>

locale committed_list =
  fixes X :: "('pk, 'sg) ext" and accepts :: "bytes list \<Rightarrow> bytes \<Rightarrow> bool"
  assumes accepts_iff: "accepts items root \<longleftrightarrow>
    length items \<le> MAX_ORDERED_TRIE_ITEMS \<and> ordered_trie_root X items = Some root"
begin

lemma list_binding:
  assumes "keccak_ok X" "empty_root_ok X" "vecs_ok a" "vecs_ok b" "accepts a root" "accepts b root"
  shows "a = b \<or> list_collision X a b"
  using root_determines_list [OF assms(1-4)] assms(5,6) by (simp add: accepts_iff)

lemma no_panic:
  assumes "keccak_ok X" "vecs_ok items" "length items \<le> MAX_ORDERED_TRIE_ITEMS"
  shows "\<exists>!root. accepts items root"
proof (cases "items = []")
  case True
  then show ?thesis by (simp add: accepts_iff ordered_trie_root_def)
next
  case False
  then have "list_ok items" using assms by (simp add: list_ok_def vecs_ok_def)
  moreover from this obtain e where "encode_node X (trie_pairs items) 0 = Some e" using root_node [OF assms(1)] by metis
  ultimately show ?thesis using assms(3) by (simp add: accepts_iff ordered_trie_root_eq)
qed

end

interpretation txs: committed_list X "\<lambda>raws root. is_ok (verify_tx_list X raws root)" for X :: "('pk, 'sg) ext"
  by unfold_locales (auto simp: verify_tx_list_def split: option.splits)

interpretation receipts: committed_list X "\<lambda>rs root. is_ok (verify_receipt_list X rs root)" for X :: "('pk, 'sg) ext"
  by unfold_locales (auto simp: verify_receipt_list_def split: option.splits)

section \<open>The receipt encoding is injective\<close>

definition log_item :: "consensus_log \<Rightarrow> rlp" where
  "log_item log = RList [RBytes (log_address log), RList (map RBytes (log_topics log)), RBytes (log_data log)]"

definition receipt_item :: "consensus_receipt \<Rightarrow> rlp" where
  "receipt_item r =
     RList [RBytes (uint_bytes (rc_status r)), RBytes (uint_bytes (rc_cumulative_gas_used r)),
            RBytes (rc_logs_bloom r), RList (map log_item (rc_logs r))]"

text \<open>What the Rust types of the fields say, and that the log data together fits in memory.\<close>

definition receipt_typed :: "consensus_receipt \<Rightarrow> bool" where
  "receipt_typed r \<longleftrightarrow>
     is_u64 (rc_status r) \<and> is_u64 (rc_cumulative_gas_used r) \<and> length (rc_logs_bloom r) = 256 \<and> rc_tx_type r < 256 \<and>
     (\<forall>log \<in> set (rc_logs r). length (log_address log) = 20 \<and> (\<forall>t \<in> set (log_topics log). length t = 32)) \<and>
     sum_list (map (\<lambda>log. length (log_data log)) (rc_logs r)) < 2 ^ 62"

lemma length_frame_le:
  assumes "is_u64 (length p)"
  shows "length (frame l p) \<le> 9 + length p"
  using assms
proof (cases rule: frame_cases [where l = l])
  case (long c bs)
  then have "0 < length p" by linarith
  then have "length (len_be (length p)) \<le> 8" using assms by (rule len_be_pos(4))
  then show ?thesis using long by simp
qed auto

lemma length_topics: "\<forall>t \<in> set ts. length t = 32 \<Longrightarrow> sum_list (map (\<lambda>t. length (encode_bytes t)) ts) \<le> 41 * length ts"
proof (induction ts)
  case (Cons t ts)
  then show ?case using length_encode_bytes [of t] by (simp add: is_u64_def u64_max_def)
qed simp

lemma log_item_small:
  assumes "length (log_address log) = 20" "\<forall>t \<in> set (log_topics log). length t = 32" "length (log_topics log) \<le> 4"
    and "length (log_data log) < 2 ^ 62"
  shows "rlp_small (log_item log) \<and> length (rlp_encode (log_item log)) \<le> 300 + length (log_data log)"
proof -
  let ?t = "concat (map encode_bytes (log_topics log))"
  let ?p = "encode_bytes (log_address log) @ encode_list (map encode_bytes (log_topics log)) @ encode_bytes (log_data log)"
  have t: "length ?t \<le> 164" using length_topics [OF assms(2)] assms(3) by (simp add: length_concat comp_def)
  then have ut: "is_u64 (length ?t)" by (simp add: is_u64_def u64_max_def)
  have ua: "is_u64 (length (log_address log))" "is_u64 (length (log_data log))" using assms(1,4) by (simp_all add: is_u64_def u64_max_def)
  have p: "length ?p \<le> 220 + length (log_data log)"
    using t length_encode_bytes [OF ua(1)] length_encode_bytes [OF ua(2)] length_frame_le [OF ut, of True] assms(1)
    by (simp add: encode_list_frame)
  then have up: "is_u64 (length ?p)" using assms(4) by (simp add: is_u64_def u64_max_def)
  have "list_all (\<lambda>t. is_u64 (length t)) (log_topics log)" using assms(2) by (simp add: list_all_iff is_u64_def u64_max_def)
  moreover have "rlp_encode (log_item log) = frame True ?p" by (simp add: log_item_def encode_list_frame comp_def)
  ultimately show ?thesis
    using p ut ua up length_frame_le [OF up, of True] by (simp add: log_item_def comp_def list.pred_map)
qed

lemma log_items_small:
  assumes "\<forall>log \<in> set logs. length (log_address log) = 20 \<and> (\<forall>t \<in> set (log_topics log). length t = 32) \<and> length (log_topics log) \<le> 4"
    and "sum_list (map (\<lambda>log. length (log_data log)) logs) < 2 ^ 62"
  shows "list_all rlp_small (map log_item logs) \<and>
    length (concat (map rlp_encode (map log_item logs))) \<le> 300 * length logs + sum_list (map (\<lambda>log. length (log_data log)) logs)"
  using assms
proof (induction logs)
  case (Cons log logs)
  then show ?case using log_item_small [of log] by simp
qed simp

lemma log_item_depth: "rlp_depth (log_item log) \<le> 2"
proof -
  have "foldr (\<lambda>x n. max (rlp_depth x) n) (map RBytes ts) 0 \<le> 0" for ts
    unfolding foldr_max_le by (simp add: list_all_iff)
  then show ?thesis by (simp add: log_item_def)
qed

lemma receipt_item_small:
  assumes "receipt_typed r" "encode_consensus_receipt r = Inr b"
  shows "rlp_small (receipt_item r)" "length (rlp_encode (receipt_item r)) < 2 ^ 63 - 1"
proof -
  have ok: "length (rc_logs r) \<le> 1024" "\<forall>log \<in> set (rc_logs r). length (log_topics log) \<le> 4"
    using assms(2) by (auto simp: encode_consensus_receipt_def MAX_RECEIPT_LOGS_def MAX_LOG_TOPICS_def split: if_splits)
  have u: "is_u64 (rc_status r)" "is_u64 (rc_cumulative_gas_used r)" "length (rc_logs_bloom r) = 256"
    using assms(1) by (simp_all add: receipt_typed_def)
  let ?logs = "map log_item (rc_logs r)"
  let ?items = "[RBytes (uint_bytes (rc_status r)), RBytes (uint_bytes (rc_cumulative_gas_used r)),
      RBytes (rc_logs_bloom r), RList ?logs]"
  have l: "list_all rlp_small ?logs" "length (concat (map rlp_encode ?logs)) \<le> 2 ^ 62 + 307200"
    using log_items_small [of "rc_logs r"] assms(1) ok by (auto simp: receipt_typed_def)
  then have ul: "is_u64 (length (concat (map rlp_encode ?logs)))" by (simp add: is_u64_def u64_max_def)
  have ub: "is_u64 (length (uint_bytes (rc_status r)))" "is_u64 (length (uint_bytes (rc_cumulative_gas_used r)))"
    "is_u64 (length (rc_logs_bloom r))" using uint_bytes_u64 u by (simp_all add: is_u64_def u64_max_def)
  have p: "length (concat (map rlp_encode ?items)) \<le> 2 ^ 62 + 307600"
    using length_encode_bytes [OF ub(1)] length_encode_bytes [OF ub(2)] length_encode_bytes [OF ub(3)]
      uint_bytes(2) [OF u(1)] uint_bytes(2) [OF u(2)] u(3) length_frame_le [OF ul, of True] l(2)
    by (simp add: encode_list_frame)
  then have up: "is_u64 (length (concat (map rlp_encode ?items)))"
    unfolding is_u64_def u64_max_def by (rule order_trans) simp
  then show "rlp_small (receipt_item r)"
    using ub ul l(1) unfolding receipt_item_def by (simp only: rlp_small.simps list.pred_inject simp_thms)
  have "length (frame True (concat (map rlp_encode ?items))) \<le> 2 ^ 62 + 307609"
    using length_frame_le [OF up, of True] p by linarith
  also have "\<dots> < (2 ^ 63 - 1 :: nat)" by simp
  finally show "length (rlp_encode (receipt_item r)) < 2 ^ 63 - 1" unfolding receipt_item_def rlp_encode_RList .
qed

lemma encode_log_item: "encode_log log = rlp_encode (log_item log)"
  by (simp add: encode_log_def log_item_def comp_def cong: map_cong)

lemma receipt_bytes:
  assumes "receipt_typed r" "encode_consensus_receipt r = Inr b"
  shows "b = (if rc_tx_type r = 0 then [] else [word_of_nat (rc_tx_type r)]) @ rlp_encode (receipt_item r)"
    "rc_tx_type r \<le> 4" "rlp_small (receipt_item r)" "rlp_depth (receipt_item r) \<le> 4"
proof -
  have "encode_log = rlp_encode \<circ> log_item" by (rule ext) (simp add: encode_log_item)
  then show "b = (if rc_tx_type r = 0 then [] else [word_of_nat (rc_tx_type r)]) @ rlp_encode (receipt_item r)"
    using assms by (auto simp: encode_consensus_receipt_def receipt_item_def receipt_typed_def exec_encode_uint_eq
        encode_uint_eq Let_def split: if_splits)
  show "rc_tx_type r \<le> 4" using assms(2) by (auto simp: encode_consensus_receipt_def split: if_splits)
  show "rlp_small (receipt_item r)" using assms by (rule receipt_item_small(1))
  show "rlp_depth (receipt_item r) \<le> 4"
    using log_item_depth by (simp add: receipt_item_def foldr_max_le list_all_iff)
qed

lemma receipt_vec: "receipt_typed r \<Longrightarrow> encode_consensus_receipt r = Inr b \<Longrightarrow> length b < 2 ^ 63"
  using receipt_bytes(1) [of r b] receipt_item_small(2) [of r b] by auto

lemma receipts_vecs:
  assumes "\<forall>r \<in> set rs. receipt_typed r" "rmapM encode_consensus_receipt rs = Inr a"
  shows "vecs_ok a"
  using assms receipt_vec by (fastforce simp: vecs_ok_def rmapM_Inr_iff list_all2_conv_all_nth in_set_conv_nth)

lemma inj_log_item: "inj log_item"
proof (rule injI)
  fix a b :: consensus_log
  assume "log_item a = log_item b"
  then show "a = b"
    by (auto simp: log_item_def inj_map_eq_map inj_def intro: consensus_log.equality)
qed

lemma receipt_item_inj:
  assumes "receipt_item r = receipt_item s" "receipt_typed r" "receipt_typed s" "rc_tx_type r = rc_tx_type s"
  shows "r = s"
  using assms inj_map_eq_map [OF inj_log_item] uint_bytes(1)
  by (intro consensus_receipt.equality) (auto simp: receipt_item_def receipt_typed_def, metis+)

lemma rlp_list_first: "rlp_small (RList xs) \<Longrightarrow> \<exists>c tl. rlp_encode (RList xs) = c # tl \<and> 0xc0 \<le> unat c"
proof -
  assume "rlp_small (RList xs)"
  then have "is_u64 (length (concat (map rlp_encode xs)))" by simp
  then show ?thesis unfolding rlp_encode_RList by (cases rule: frame_cases [where l = True]) auto
qed

lemma receipt_encoding_inj:
  assumes "receipt_typed r" "receipt_typed s" "encode_consensus_receipt r = Inr b" "encode_consensus_receipt s = Inr b"
  shows "r = s"
proof -
  note r = receipt_bytes [OF assms(1,3)] and s = receipt_bytes [OF assms(2,4)]
  obtain c tl where c: "rlp_encode (receipt_item r) = c # tl" "0xc0 \<le> unat c"
    using rlp_list_first r(3) unfolding receipt_item_def by metis
  obtain d dl where d: "rlp_encode (receipt_item s) = d # dl" "0xc0 \<le> unat d"
    using rlp_list_first s(3) unfolding receipt_item_def by metis
  have n: "unat (word_of_nat n :: byte) = n" if "n \<le> 4" for n using that by (simp add: unat_word_of_nat_byte)
  have ty: "rc_tx_type r = rc_tx_type s"
    using r(1) s(1) n [OF r(2)] n [OF s(2)] r(2) s(2) c d by (auto split: if_splits)
  then have "rlp_encode (receipt_item r) = rlp_encode (receipt_item s)" using r(1) s(1) by (simp split: if_splits)
  then have "receipt_item r = receipt_item s"
    using exec_rlp.encode_inj r(3,4) s(3,4) by (simp add: MAX_RLP_DEPTH_def)
  then show ?thesis using receipt_item_inj assms(1,2) ty by blast
qed

section \<open>Claims\<close>

text \<open>
  C32. A transactions root has one list. Two lists of raw transactions accepted against the same
  \<open>transactionsRoot\<close> are the same list in the same order, with the same transaction hashes, and so
  neither adding, dropping, reordering nor editing a transaction goes unnoticed, unless nodes
  of the two tries collide under Keccak. The empty list is included.
\<close>

theorem tx_list_binding:
  assumes "keccak_ok X" "empty_root_ok X" "vecs_ok a" "vecs_ok b"
    and "verify_tx_list X a root = Inr ha" "verify_tx_list X b root = Inr hb"
  shows "a = b \<and> ha = hb \<or> list_collision X a b"
  using txs.list_binding [OF assms(1-4), of root] assms(5,6) by auto

text \<open>
  C33. A receipts root determines the receipts: if two sequences of receipts, encoded for
  consensus, are both accepted against the same \<open>receiptsRoot\<close>, then they agree in every status, gas,
  bloom, log and type, unless nodes of the two tries collide under Keccak.
\<close>

theorem receipts_root_binding:
  assumes "keccak_ok X" "empty_root_ok X"
    and "\<forall>r \<in> set rs \<union> set ss. receipt_typed r"
    and "rmapM encode_consensus_receipt rs = Inr a" "rmapM encode_consensus_receipt ss = Inr b"
    and "verify_receipt_list X a root = Inr ()" "verify_receipt_list X b root = Inr ()"
  shows "rs = ss \<or> list_collision X a b"
proof -
  have "rs = ss" if "a = b"
  proof (rule nth_equalityI)
    have l: "list_all2 (\<lambda>r x. encode_consensus_receipt r = Inr x) rs a"
      "list_all2 (\<lambda>r x. encode_consensus_receipt r = Inr x) ss a"
      using assms(4,5) that by (simp_all add: rmapM_Inr_iff)
    then show "length rs = length ss" by (simp add: list_all2_conv_all_nth)
    fix i
    assume "i < length rs"
    then show "rs ! i = ss ! i"
      using l assms(3) by (intro receipt_encoding_inj [of _ _ "a ! i"]) (auto simp: list_all2_conv_all_nth)
  qed
  moreover have "vecs_ok a" "vecs_ok b" using receipts_vecs assms(3-5) by blast+
  ultimately show ?thesis using receipts.list_binding [OF assms(1,2), of a b root] assms(6,7) by auto
qed

text \<open>
  The verdict of the transaction-list check on any input: more than 4096 items are refused as such,
  and for every other list there is exactly one root under which it is accepted, with the
  Keccak hashes of its items, every other root being a mismatch. The trie builder never panics.
\<close>

theorem tx_list_verdict:
  assumes "keccak_ok X" "vecs_ok raws"
  shows "if MAX_ORDERED_TRIE_ITEMS < length raws then verify_tx_list X raws root = Inl TooMany
    else \<exists>good. \<forall>root. verify_tx_list X raws root =
      (if root = good then Inr (map (keccak X) raws) else Inl TxRootMismatch)"
proof (cases "MAX_ORDERED_TRIE_ITEMS < length raws")
  case False
  then obtain good where "is_ok (verify_tx_list X raws good)" using txs.no_panic [OF assms] by auto
  then have "ordered_trie_root X raws = Some good" using txs.accepts_iff [of X raws good] by simp
  then show ?thesis using False by (auto simp: verify_tx_list_def)
qed (simp add: verify_tx_list_def)

section \<open>Witnesses\<close>

definition refE :: "(bytes, bytes) ext" where
  "refE = refX\<lparr>keccak := \<lambda>b. if b = [0x80] then EMPTY_TRIE_ROOT else ref_keccak b\<rparr>"

lemma refE_ok: "keccak_ok refE" "empty_root_ok refE"
  using keccak_ok_refX by (auto simp: keccak_ok_def empty_root_ok_def refE_def EMPTY_TRIE_ROOT_def)

definition sample_receipt :: consensus_receipt where
  "sample_receipt = \<lparr>rc_status = 1, rc_cumulative_gas_used = 21000, rc_logs_bloom = zeros 256,
     rc_logs = [\<lparr>log_address = zeros 20, log_topics = [zeros 32], log_data = [1, 2]\<rparr>], rc_tx_type = 2\<rparr>"

lemma sample_receipt_typed: "receipt_typed sample_receipt"
  by (simp add: receipt_typed_def sample_receipt_def is_u64_def u64_max_def)

lemma sample_receipt_encodes: "\<exists>b. encode_consensus_receipt sample_receipt = Inr b"
  by (simp add: encode_consensus_receipt_def sample_receipt_def MAX_RECEIPT_LOGS_def MAX_LOG_TOPICS_def Let_def)

text \<open>The stand-in for Keccak looks at 32 bytes only, so these two items collide.\<close>

definition twin_item :: bytes where
  "twin_item = replicate 39 7 @ [8]"

lemma sample_roots: "ordered_trie_root refE [sample_item] = ordered_trie_root refE [twin_item]"
  by code_simp

theorem tx_list_verdict_witness:
  "\<exists>good. verify_tx_list refE [[1, 2], [3]] good = Inr [keccak refE [1, 2], keccak refE [3]]"
  using tx_list_verdict [OF refE_ok(1), of "[[1, 2], [3]]" "[]"]
  by (auto simp: vecs_ok_def MAX_ORDERED_TRIE_ITEMS_def)

lemma sample_tx_lists:
  "\<exists>root. verify_tx_list refE [sample_item] root = Inr [keccak refE sample_item] \<and>
     verify_tx_list refE [twin_item] root = Inr [keccak refE twin_item]"
proof -
  have "\<exists>root. is_ok (verify_tx_list refE [sample_item] root)"
    using txs.no_panic [OF refE_ok(1), of "[sample_item]"]
    by (auto simp: vecs_ok_def sample_item_def MAX_ORDERED_TRIE_ITEMS_def)
  then obtain root where "ordered_trie_root refE [sample_item] = Some root" by (auto simp only: txs.accepts_iff)
  then show ?thesis using sample_roots
    by (intro exI [of _ root]) (simp add: verify_tx_list_def MAX_ORDERED_TRIE_ITEMS_def)
qed

theorem tx_list_binding_witness: "sample_item \<noteq> twin_item \<and> list_collision refE [sample_item] [twin_item]"
proof -
  have ne: "sample_item \<noteq> twin_item" by (simp add: sample_item_def twin_item_def numeral_eq_Suc)
  have "vecs_ok [sample_item]" "vecs_ok [twin_item]" by (simp_all add: vecs_ok_def sample_item_def twin_item_def)
  then show ?thesis using tx_list_binding [OF refE_ok] sample_tx_lists ne by blast
qed

theorem receipts_root_binding_witness:
  "\<exists>a root. rmapM encode_consensus_receipt [sample_receipt] = Inr a \<and> verify_receipt_list refE a root = Inr () \<and>
     ([sample_receipt] = [sample_receipt] \<or> list_collision refE a a)"
proof -
  obtain b where b: "encode_consensus_receipt sample_receipt = Inr b" using sample_receipt_encodes by blast
  have "vecs_ok [b]" using receipt_vec [OF sample_receipt_typed b] by (simp add: vecs_ok_def)
  then obtain root where "verify_receipt_list refE [b] root = Inr ()"
    using receipts.no_panic [OF refE_ok(1), of "[b]"]
    by (auto simp: MAX_ORDERED_TRIE_ITEMS_def is_ok_def split: sum.splits) (metis obj_sumE old.unit.exhaust)
  moreover have "rmapM encode_consensus_receipt [sample_receipt] = Inr [b]" using b by simp
  ultimately show ?thesis
    using receipts_root_binding [OF refE_ok, of "[sample_receipt]" "[sample_receipt]" "[b]" "[b]" root] sample_receipt_typed
    by fastforce
qed

end
