(* ===== verification/Raw_Tx.thy ===== *)
theory Raw_Tx
  imports Ordered_Trie
begin

text \<open>
  Signed transaction envelopes (\<open>helios-bsc-execution/src/raw_tx.rs\<close>): the checks before a raw
  transaction is broadcast, the field readers used on transactions bound to a sealed
  header, and the signing digest, which the source slices out of the envelope instead of re-encoding
  it. The main result is that the slice is exactly the canonical encoding of the
  unsigned fields.
\<close>

section \<open>Errors and integers\<close>

definition MAX_RAW_TX :: nat where
  "MAX_RAW_TX = 512 * 1024"

datatype raw_tx_error =
    EmptyTx
  | TooLargeTx
  | InvalidTxRlp
  | TruncatedTx
  | Unsigned
  | Unprotected
  | UnknownTxType byte
  | WrongChain

definition tx_decode_list :: "bytes \<Rightarrow> (raw_tx_error, rlp list) result" where
  "tx_decode_list bytes =
     (case decode bytes of
        Inr (RList v) \<Rightarrow> Inr v
      | Inr (RBytes _) \<Rightarrow> Inl InvalidTxRlp
      | Inl Truncated \<Rightarrow> Inl TruncatedTx
      | Inl _ \<Rightarrow> Inl InvalidTxRlp)"

definition tx_as_bytes :: "rlp \<Rightarrow> (raw_tx_error, bytes) result" where
  "tx_as_bytes item = map_err (\<lambda>_. InvalidTxRlp) (as_bytes item)"

definition rlp_u64 :: "rlp \<Rightarrow> (raw_tx_error, nat) result" where
  "rlp_u64 item =
     rbind (tx_as_bytes item) (\<lambda>b.
       if 8 < length b then Inl InvalidTxRlp
       else if 1 < length b \<and> hd b = 0 then Inl InvalidTxRlp
       else Inr (be_u64 b))"

text \<open>\<open>n = (n << 8) | x\<close> over a \<open>u128\<close>\<close>

definition be_u128 :: "bytes \<Rightarrow> nat" where
  "be_u128 bs = foldl (\<lambda>n b. (n * 256) mod 2 ^ 128 + unat b) 0 bs"

definition rlp_u128 :: "rlp \<Rightarrow> (raw_tx_error, nat) result" where
  "rlp_u128 item =
     rbind (tx_as_bytes item) (\<lambda>b.
       if 16 < length b then Inl InvalidTxRlp
       else if 1 < length b \<and> hd b = 0 then Inl InvalidTxRlp
       else Inr (be_u128 b))"

text \<open>\<open>items.get(i).ok_or(Truncated)\<close>\<close>

definition tx_field :: "rlp list \<Rightarrow> nat \<Rightarrow> (raw_tx_error, rlp) result" where
  "tx_field items i = (if i < length items then Inr (items ! i) else Inl TruncatedTx)"

section \<open>Broadcast checks\<close>

definition require_sig :: "rlp \<Rightarrow> rlp \<Rightarrow> (raw_tx_error, unit) result" where
  "require_sig r s =
     rbind (tx_as_bytes r) (\<lambda>rb.
     rbind (tx_as_bytes s) (\<lambda>sb.
       if rb = [] \<or> sb = [] \<or> list_all (\<lambda>b. b = 0) rb \<or> list_all (\<lambda>b. b = 0) sb then Inl Unsigned
       else Inr ()))"

definition parse_typed :: "byte \<Rightarrow> bytes \<Rightarrow> (raw_tx_error, nat) result" where
  "parse_typed ty payload =
     rbind (tx_decode_list payload) (\<lambda>items.
     rbind (if ty = 0x01 then Inr 11 else if ty = 0x02 then Inr 12 else if ty = 0x03 then Inr 14
            else if ty = 0x04 then Inr 13 else Inl (UnknownTxType ty)) (\<lambda>min_len.
       if length items < min_len then Inl TruncatedTx
       else rbind (require_sig (items ! (length items - 2)) (items ! (length items - 1)))
         (\<lambda>_. rlp_u64 (items ! 0))))"

definition parse_legacy :: "bytes \<Rightarrow> (raw_tx_error, nat) result" where
  "parse_legacy bytes =
     rbind (tx_decode_list bytes) (\<lambda>items.
       if length items \<noteq> 9 then Inl TruncatedTx
       else
         rbind (require_sig (items ! 7) (items ! 8)) (\<lambda>_.
         rbind (rlp_u64 (items ! 6)) (\<lambda>v.
           if v = 27 \<or> v = 28 then Inl Unprotected
           else if v < 35 then Inl Unprotected
           else Inr ((v - 35) div 2))))"

definition parse_chain_id :: "bytes \<Rightarrow> (raw_tx_error, nat) result" where
  "parse_chain_id bytes =
     (let p = unat (hd bytes) in
      if 0x01 \<le> p \<and> p \<le> 0x04 then parse_typed (hd bytes) (drop 1 bytes)
      else if 0x05 \<le> p \<and> p \<le> 0x7f then Inl (UnknownTxType (hd bytes))
      else parse_legacy bytes)"

text \<open>The size checks every entry point opens with.\<close>

definition size_check :: "bytes \<Rightarrow> (raw_tx_error, unit) result" where
  "size_check bytes =
     (if bytes = [] then Inl EmptyTx else if MAX_RAW_TX < length bytes then Inl TooLargeTx else Inr ())"

definition validate_bsc_raw_tx :: "('pk, 'sg) ext \<Rightarrow> bytes \<Rightarrow> (raw_tx_error, bytes) result" where
  "validate_bsc_raw_tx X bytes =
     rbind (size_check bytes) (\<lambda>_.
     rbind (parse_chain_id bytes) (\<lambda>chain_id.
       if chain_id \<noteq> BSC_MAINNET_CHAIN_ID then Inl WrongChain else Inr (keccak X bytes)))"

section \<open>Field readers\<close>

definition tx_to_address :: "bytes \<Rightarrow> (raw_tx_error, bytes option) result" where
  "tx_to_address bytes =
     rbind (size_check bytes) (\<lambda>_.
     let p = unat (hd bytes) in
     rbind (if p = 0x01 then map_ok (\<lambda>items. (items, 4)) (tx_decode_list (drop 1 bytes))
            else if 0x02 \<le> p \<and> p \<le> 0x04 then map_ok (\<lambda>items. (items, 5)) (tx_decode_list (drop 1 bytes))
            else if 0x05 \<le> p \<and> p \<le> 0x7f then Inl (UnknownTxType (hd bytes))
            else map_ok (\<lambda>items. (items, 3)) (tx_decode_list bytes)) (\<lambda>(items, idx).
     rbind (tx_field items idx) (\<lambda>item.
     rbind (tx_as_bytes item) (\<lambda>b.
       if length b = 0 then Inr None
       else if length b = 20 then Inr (Some b)
       else Inl InvalidTxRlp))))"

datatype tx_gas_price_t = Fixed nat | Dynamic nat nat

definition u128_max :: nat where
  "u128_max = 2 ^ 128 - 1"

fun effective :: "tx_gas_price_t \<Rightarrow> nat \<Rightarrow> nat" where
  "effective (Fixed p) base_fee = p"
| "effective (Dynamic max_priority max_fee) base_fee =
     min (base_fee + min max_priority (max_fee - base_fee)) u128_max"

definition tx_gas_price :: "bytes \<Rightarrow> (raw_tx_error, tx_gas_price_t) result" where
  "tx_gas_price bytes =
     rbind (size_check bytes) (\<lambda>_.
     let p = unat (hd bytes) in
     if p = 0x01 then
       rbind (tx_decode_list (drop 1 bytes)) (\<lambda>items.
       rbind (rbind (tx_field items 2) rlp_u128) (\<lambda>price. Inr (Fixed price)))
     else if 0x02 \<le> p \<and> p \<le> 0x04 then
       rbind (tx_decode_list (drop 1 bytes)) (\<lambda>items.
       rbind (rbind (tx_field items 2) rlp_u128) (\<lambda>max_priority.
       rbind (rbind (tx_field items 3) rlp_u128) (\<lambda>max_fee. Inr (Dynamic max_priority max_fee))))
     else if 0x05 \<le> p \<and> p \<le> 0x7f then Inl (UnknownTxType (hd bytes))
     else
       rbind (tx_decode_list bytes) (\<lambda>items.
       rbind (rbind (tx_field items 1) rlp_u128) (\<lambda>price. Inr (Fixed price))))"

definition tx_nonce :: "bytes \<Rightarrow> (raw_tx_error, nat) result" where
  "tx_nonce bytes =
     rbind (size_check bytes) (\<lambda>_.
     let p = unat (hd bytes) in
     rbind (if 0x01 \<le> p \<and> p \<le> 0x04 then map_ok (\<lambda>items. (items, 1)) (tx_decode_list (drop 1 bytes))
            else if 0x05 \<le> p \<and> p \<le> 0x7f then Inl (UnknownTxType (hd bytes))
            else map_ok (\<lambda>items. (items, 0)) (tx_decode_list bytes)) (\<lambda>(items, idx).
       rbind (tx_field items idx) rlp_u64))"

definition contract_address :: "('pk, 'sg) ext \<Rightarrow> bytes \<Rightarrow> nat \<Rightarrow> bytes" where
  "contract_address X sender nonce =
     drop 12 (keccak X (exec_encode_list [exec_encode_bytes sender, exec_encode_uint nonce]))"

section \<open>Signing digest\<close>

definition item_bytes32 :: "rlp \<Rightarrow> (raw_tx_error, bytes) result" where
  "item_bytes32 item =
     rbind (tx_as_bytes item) (\<lambda>b.
       if b = [] \<or> 32 < length b then Inl Unsigned else Inr (zeros (32 - length b) @ b))"

definition list_header :: "nat \<Rightarrow> bytes" where
  "list_header len =
     (if len \<le> 55 then [0xc0 + word_of_nat len]
      else let lenb = exec_len_be len in (0xf7 + word_of_nat (length lenb)) # lenb)"

text \<open>\<open>buf.get(start..start + len)\<close> with a wrapping sum: out of range when the end precedes the start.\<close>

definition get_range :: "bytes \<Rightarrow> nat \<Rightarrow> nat \<Rightarrow> (raw_tx_error, bytes) result" where
  "get_range buf a b = (if a \<le> b \<and> b \<le> length buf then Inr (subslice a b buf) else Inl TruncatedTx)"

definition list_payload :: "bytes \<Rightarrow> (raw_tx_error, bytes) result" where
  "list_payload buf =
     (case buf of
        [] \<Rightarrow> Inl TruncatedTx
      | c # _ \<Rightarrow>
          let p = unat c in
          if 0xc0 \<le> p \<and> p \<le> 0xf7 then get_range buf 1 (wrap64 (1 + (p - 0xc0)))
          else if 0xf8 \<le> p then
            let ll = p - 0xf7 in
            if length buf < 1 + ll then Inl TruncatedTx
            else get_range buf (1 + ll) (wrap64 (1 + ll + be_u64 (subslice 1 (1 + ll) buf)))
          else Inl InvalidTxRlp)"

definition long :: "bytes \<Rightarrow> nat \<Rightarrow> (raw_tx_error, nat \<times> nat) result" where
  "long buf ll =
     (if ll = 0 \<or> 8 < ll \<or> length buf < 1 + ll then Inl InvalidTxRlp
      else Inr (1 + ll, be_u64 (subslice 1 (1 + ll) buf)))"

definition item_len :: "bytes \<Rightarrow> (raw_tx_error, nat) result" where
  "item_len buf =
     (case buf of
        [] \<Rightarrow> Inl TruncatedTx
      | c # _ \<Rightarrow>
          let p = unat c in
          rbind (if p \<le> 0x7f then Inr (0, 1)
                 else if p \<le> 0xb7 then Inr (1, p - 0x80)
                 else if p \<le> 0xbf then long buf (p - 0xb7)
                 else if p \<le> 0xf7 then Inr (1, p - 0xc0)
                 else long buf (p - 0xf7)) (\<lambda>(hdr, len).
            if length buf < wrap64 (hdr + len) then Inl TruncatedTx else Inr (wrap64 (hdr + len))))"

text \<open>The loop of \<open>item_offsets\<close>: remaining iterations, position, offsets so far.\<close>

fun item_offsets_loop :: "bytes \<Rightarrow> nat \<Rightarrow> nat \<Rightarrow> nat list \<Rightarrow> (raw_tx_error, nat list) result" where
  "item_offsets_loop payload 0 at offs = (if at \<noteq> length payload then Inl InvalidTxRlp else Inr offs)"
| "item_offsets_loop payload (Suc n) at offs =
     (if length payload < at then Inl TruncatedTx
      else rbind (item_len (drop at payload)) (\<lambda>len.
        item_offsets_loop payload n (wrap64 (at + len)) (offs @ [at])))"

definition item_offsets :: "bytes \<Rightarrow> nat \<Rightarrow> (raw_tx_error, nat list) result" where
  "item_offsets payload n = item_offsets_loop payload n 0 []"

definition signing_preimage ::
    "bool \<Rightarrow> byte \<Rightarrow> bytes \<Rightarrow> nat list \<Rightarrow> nat \<Rightarrow> nat \<Rightarrow> (raw_tx_error, bytes \<times> nat) result" where
  "signing_preimage typed ty payload spans n sig_v =
     (if typed then
        (let cut = spans ! (n - 3) in
         if 1 < sig_v then Inl InvalidTxRlp
         else Inr ([ty] @ list_header cut @ take cut payload, sig_v))
      else if n \<noteq> 9 then Inl TruncatedTx
      else
        (let cut = spans ! 6; body = take cut payload in
         rbind
           (if sig_v = 27 \<or> sig_v = 28 then Inr (body, sig_v - 27)
            else if 35 \<le> sig_v then
              Inr (body @ exec_encode_uint ((sig_v - 35) div 2) @ [0x80] @ [0x80], (sig_v - 35) mod 2)
            else Inl Unprotected) (\<lambda>(body, recid).
             Inr (list_header (length body) @ body, recid))))"

definition tx_signing_hash :: "('pk, 'sg) ext \<Rightarrow> bytes \<Rightarrow> (raw_tx_error, bytes \<times> bytes) result" where
  "tx_signing_hash X bytes =
     rbind (size_check bytes) (\<lambda>_.
     let p = unat (hd bytes); typed = (0x01 \<le> p \<and> p \<le> 0x04) in
     if 0x05 \<le> p \<and> p \<le> 0x7f then Inl (UnknownTxType (hd bytes))
     else
       let envelope = (if typed then drop 1 bytes else bytes) in
       rbind (tx_decode_list envelope) (\<lambda>items.
       let n = length items in
       if n < 9 then Inl TruncatedTx
       else
       rbind (list_payload envelope) (\<lambda>payload.
       rbind (item_offsets payload n) (\<lambda>spans.
       rbind (rlp_u64 (items ! (n - 3))) (\<lambda>sig_v.
       rbind (item_bytes32 (items ! (n - 2))) (\<lambda>r.
       rbind (item_bytes32 (items ! (n - 1))) (\<lambda>sig_s.
       rbind (signing_preimage typed (hd bytes) payload spans n sig_v) (\<lambda>(preimage, recid).
         Inr (keccak X preimage, r @ sig_s @ [word_of_nat recid])))))))))"

section \<open>Slicing is re-encoding\<close>

lemma be_u64_len_be: "0 < n \<Longrightarrow> is_u64 n \<Longrightarrow> be_u64 (len_be n) = n"
  using len_be_pos [of n] be_u64_eq [of "len_be n"] by simp

lemma item_len_frame:
  assumes "length (frame l p @ rest) < 2 ^ 62" "is_u64 (length p)"
  shows "item_len (frame l p @ rest) = Inr (length (frame l p))"
  using assms(2)
proof (cases rule: frame_cases [where l = l])
  case (byte b)
  then show ?thesis by (simp add: item_len_def wrap64_def u64_max_def)
next
  case (short c)
  have "is_u64 (length (frame l p))" using assms(1) by (simp add: is_u64_def u64_max_def)
  then show ?thesis using short by (auto simp: item_len_def Let_def)
next
  case (long c bs)
  have u: "is_u64 (length (frame l p))" using assms(1) by (simp add: is_u64_def u64_max_def)
  have "0 < length p" using long by linarith
  then have "length bs \<le> 8" "0 < length bs" "be_u64 bs = length p"
    using long(2) len_be_pos(3,4) [of "length p"] be_u64_len_be [of "length p"] assms(2) by simp_all
  then show ?thesis using long u by (auto simp: item_len_def Let_def long_def subslice_def)
qed

lemma list_payload_frame:
  assumes "length (frame True p) < 2 ^ 62" "is_u64 (length p)"
  shows "list_payload (frame True p) = Inr p"
  using assms(2)
proof (cases rule: frame_cases [where l = True])
  case (short c)
  have "is_u64 (length (frame True p))" using assms(1) by (simp add: is_u64_def u64_max_def)
  then show ?thesis using short by (auto simp: list_payload_def get_range_def subslice_def Let_def)
next
  case (long c bs)
  have u: "is_u64 (length (frame True p))" using assms(1) by (simp add: is_u64_def u64_max_def)
  have "0 < length p" using long by linarith
  then have "length bs \<le> 8" "0 < length bs" "be_u64 bs = length p"
    using long(2) len_be_pos(3,4) [of "length p"] be_u64_len_be [of "length p"] assms(2) by simp_all
  then show ?thesis using long u by (auto simp: list_payload_def get_range_def Let_def subslice_def Suc_le_eq)
qed auto

lemma list_header_frame: "list_header (length b) @ b = frame True b"
  by (simp add: list_header_def frame_def encode_list_def Let_def)

abbreviation items_bytes :: "rlp list \<Rightarrow> bytes" where
  "items_bytes items \<equiv> concat (map rlp_encode items)"

lemma rlp_encode_frame: "rlp_small x \<Longrightarrow> \<exists>l p. rlp_encode x = frame l p \<and> is_u64 (length p)"
  by (cases x) (metis rlp_encode_RBytes rlp_small.simps(1), metis rlp_encode_RList rlp_small.simps(2))

lemma item_len_item:
  assumes "rlp_small x" "length (rlp_encode x @ rest) < 2 ^ 62"
  shows "item_len (rlp_encode x @ rest) = Inr (length (rlp_encode x))"
  using rlp_encode_frame [OF assms(1)] item_len_frame assms(2) by metis

lemma item_offsets_loop_eq:
  assumes "list_all rlp_small items" "length (items_bytes pre @ items_bytes items) < 2 ^ 62"
  shows "item_offsets_loop (items_bytes pre @ items_bytes items) (length items) (length (items_bytes pre)) offs =
    Inr (offs @ map (\<lambda>i. length (items_bytes (pre @ take i items))) [0..<length items])"
  using assms
proof (induction items arbitrary: pre offs)
  case (Cons x items)
  have "item_len (rlp_encode x @ items_bytes items) = Inr (length (rlp_encode x))"
    using Cons.prems by (intro item_len_item) auto
  moreover have "wrap64 (length (items_bytes pre) + length (rlp_encode x)) = length (items_bytes (pre @ [x]))"
    using Cons.prems(2) by (subst wrap64_id) (simp_all add: is_u64_def u64_max_def)
  moreover have "map f [0..<length (x # items)] = f 0 # map (\<lambda>i. f (Suc i)) [0..<length items]" for f :: "nat \<Rightarrow> nat"
    by (rule nth_equalityI) (auto simp: nth_Cons' simp del: upt_Suc)
  ultimately show ?case
    using Cons.IH [of "pre @ [x]" "offs @ [length (items_bytes pre)]"] Cons.prems by (simp del: upt_Suc)
qed simp

lemma item_offsets_eq:
  assumes "list_all rlp_small items" "length (items_bytes items) < 2 ^ 62"
  shows "item_offsets (items_bytes items) (length items) =
    Inr (map (\<lambda>i. length (items_bytes (take i items))) [0..<length items])"
  using item_offsets_loop_eq [of items "[]" "[]"] assms by (simp add: item_offsets_def)

lemma take_items: "take (length (items_bytes (take k items))) (items_bytes items) = items_bytes (take k items)"
  by (metis append_take_drop_id append_eq_conv_conj concat_append map_append)

text \<open>The reference: the unsigned fields, re-encoded canonically.\<close>

definition unsigned_preimage :: "bool \<Rightarrow> byte \<Rightarrow> rlp list \<Rightarrow> nat \<Rightarrow> (raw_tx_error, bytes \<times> nat) result" where
  "unsigned_preimage typed ty items v =
     (if typed then
        (if 1 < v then Inl InvalidTxRlp else Inr (ty # rlp_encode (RList (take (length items - 3) items)), v))
      else if length items \<noteq> 9 then Inl TruncatedTx
      else if v = 27 \<or> v = 28 then Inr (rlp_encode (RList (take 6 items)), v - 27)
      else if 35 \<le> v then
        Inr (rlp_encode (RList (take 6 items @ [RBytes (uint_bytes ((v - 35) div 2)), RBytes [], RBytes []])),
             (v - 35) mod 2)
      else Inl Unprotected)"

definition signing_spec :: "('pk, 'sg) ext \<Rightarrow> bytes \<Rightarrow> (raw_tx_error, bytes \<times> bytes) result" where
  "signing_spec X bytes =
     rbind (size_check bytes) (\<lambda>_.
     let p = unat (hd bytes); typed = (0x01 \<le> p \<and> p \<le> 0x04) in
     if 0x05 \<le> p \<and> p \<le> 0x7f then Inl (UnknownTxType (hd bytes))
     else
       rbind (tx_decode_list (if typed then drop 1 bytes else bytes)) (\<lambda>items.
       if length items < 9 then Inl TruncatedTx
       else
       rbind (rlp_u64 (items ! (length items - 3))) (\<lambda>v.
       rbind (item_bytes32 (items ! (length items - 2))) (\<lambda>r.
       rbind (item_bytes32 (items ! (length items - 1))) (\<lambda>s.
       rbind (unsigned_preimage typed (hd bytes) items v) (\<lambda>(preimage, recid).
         Inr (keccak X preimage, r @ s @ [word_of_nat recid])))))))"

lemma tx_decode_list_iff: "tx_decode_list b = Inr items \<longleftrightarrow> decode b = Inr (RList items)"
  by (auto simp: tx_decode_list_def split: sum.splits rlp.splits rlp_error.splits)

lemma rlp_u64_bound: "rlp_u64 x = Inr v \<Longrightarrow> is_u64 v"
proof -
  assume "rlp_u64 x = Inr v"
  then obtain b where b: "length b \<le> 8" "v = be_u64 b"
    unfolding rlp_u64_def rbind_Inr_iff if_Inl_Inr_iff by (auto simp: not_less)
  have "be_nat b < 256 ^ length b" by (rule be_nat_bound)
  also have "\<dots> \<le> 256 ^ 8" using b(1) by (intro power_increasing) auto
  finally show ?thesis using b by (simp add: be_u64_eq is_u64_iff)
qed

lemma envelope_parts:
  assumes "tx_decode_list env = Inr items" "length env \<le> MAX_RAW_TX"
  shows "list_payload env = Inr (items_bytes items)"
    "item_offsets (items_bytes items) (length items) =
       Inr (map (\<lambda>i. length (items_bytes (take i items))) [0..<length items])"
proof -
  have d: "env = frame True (items_bytes items)" "is_u64 (length (items_bytes items))" "list_all rlp_small items"
    using assms(1) exec_rlp.top_iff [of env "RList items"] by (auto simp: tx_decode_list_iff encode_list_frame)
  have l: "length (frame True (items_bytes items)) < 2 ^ 62" using assms(2) by (simp add: d(1) [symmetric] MAX_RAW_TX_def)
  then show "list_payload env = Inr (items_bytes items)" using list_payload_frame d by simp
  show "item_offsets (items_bytes items) (length items) =
       Inr (map (\<lambda>i. length (items_bytes (take i items))) [0..<length items])"
    using item_offsets_eq [OF d(3)] frame_length [OF d(2), of True] l by simp
qed

lemma cut_encodes:
  "list_header (length (items_bytes (take k items))) @ items_bytes (take k items) = rlp_encode (RList (take k items))"
  by (simp add: list_header_frame encode_list_frame)

lemma suffix_encodes:
  assumes "is_u64 v"
  shows "exec_encode_uint ((v - 35) div 2) @ [0x80, 0x80] =
    items_bytes [RBytes (uint_bytes ((v - 35) div 2)), RBytes [], RBytes []]"
proof -
  have "is_u64 ((v - 35) div 2)" using assms by (simp add: is_u64_def)
  then show ?thesis by (simp add: exec_encode_uint_frame frame_def encode_bytes_def encode_string_def)
qed

lemma preimage_eq:
  assumes "9 \<le> length items" "is_u64 v"
  shows "signing_preimage typed ty (items_bytes items) (map (\<lambda>i. length (items_bytes (take i items))) [0..<length items])
      (length items) v = unsigned_preimage typed ty items v"
proof -
  have "[0..<length items] ! k = k" if "k < length items" for k using that by simp
  moreover have "length items - 3 < length items" "6 < length items" using assms(1) by auto
  moreover have "list_header (length b) @ b = rlp_encode (RList (take 6 items @ xs))"
    if "b = items_bytes (take 6 items) @ items_bytes xs" for b xs
    unfolding that list_header_frame by (simp add: encode_list_frame)
  note leg = this [OF arg_cong2 [where f = append, OF refl suffix_encodes [OF assms(2)]]]
  ultimately show ?thesis
    unfolding signing_preimage_def unsigned_preimage_def Let_def
    using leg by (simp add: take_items cut_encodes del: rlp_encode.simps)
qed

lemma signing_hash_spec: "tx_signing_hash X bytes = signing_spec X bytes"
proof (cases "size_check bytes")
  case (Inr u)
  let ?env = "if 0x01 \<le> unat (hd bytes) \<and> unat (hd bytes) \<le> 0x04 then drop 1 bytes else bytes"
  have len: "length ?env \<le> MAX_RAW_TX" using Inr by (auto simp: size_check_def split: if_splits)
  show ?thesis
  proof (cases "tx_decode_list ?env")
    case items: (Inr items)
    note parts = envelope_parts [OF items len]
    have "rbind (rlp_u64 x) (\<lambda>v. rbind a (\<lambda>r. rbind b (\<lambda>s.
          rbind (signing_preimage typed ty (items_bytes items)
            (map (\<lambda>i. length (items_bytes (take i items))) [0..<length items]) (length items) v) (f r s)))) =
        rbind (rlp_u64 x) (\<lambda>v. rbind a (\<lambda>r. rbind b (\<lambda>s. rbind (unsigned_preimage typed ty items v) (f r s))))"
      if "9 \<le> length items" for x a b typed ty f
      by (cases "rlp_u64 x") (simp_all add: preimage_eq that rlp_u64_bound)
    note pre = this
    show ?thesis
      unfolding tx_signing_hash_def signing_spec_def Let_def Inr items rbind_simps parts
      by (cases "length items < 9") (simp_all add: pre not_less)
  qed (simp add: tx_signing_hash_def signing_spec_def Let_def Inr)
qed (simp add: tx_signing_hash_def signing_spec_def)

section \<open>What the broadcast check accepts\<close>

lemma tx_as_bytes_iff: "tx_as_bytes x = Inr b \<longleftrightarrow> x = RBytes b"
  by (cases x) (auto simp: tx_as_bytes_def)

lemma rlp_u64_iff:
  assumes "v \<noteq> 0"
  shows "rlp_u64 x = Inr v \<longleftrightarrow> is_u64 v \<and> x = RBytes (uint_bytes v)"
proof
  assume l: "rlp_u64 x = Inr v"
  then obtain b where b: "x = RBytes b" "\<not> 8 < length b" "\<not> (1 < length b \<and> hd b = 0)" "be_u64 b = v"
    unfolding rlp_u64_def rbind_Inr_iff if_Inl_Inr_iff tx_as_bytes_iff by auto
  have v: "be_nat b = v" using b(2,4) by (simp add: be_u64_eq)
  have "b \<noteq> [0]" "b \<noteq> []" using v assms by (auto simp: be_nat_def)
  then have "hd b \<noteq> 0" using b(3) by (cases b) auto
  then have "strip_zeros b = b" by (simp add: strip_zeros_id)
  then show "is_u64 v \<and> x = RBytes (uint_bytes v)"
    using uint_bytes_be_nat [of b] b(1,2) v rlp_u64_bound [OF l] by simp
next
  assume r: "is_u64 v \<and> x = RBytes (uint_bytes v)"
  then have u: "be_nat (uint_bytes v) = v" "length (uint_bytes v) \<le> 8" "strip_zeros (uint_bytes v) = uint_bytes v"
    using uint_bytes by auto
  then have "hd (uint_bytes v) \<noteq> 0" using assms by (cases "uint_bytes v") (auto dest: strip_zeros_hd)
  then show "rlp_u64 x = Inr v" using r u by (simp add: rlp_u64_def tx_as_bytes_def be_u64_eq not_less)
qed

text \<open>A signature component that is a byte string of positive value.\<close>

definition signed_by :: "rlp \<Rightarrow> rlp \<Rightarrow> bool" where
  "signed_by r s \<longleftrightarrow> (\<exists>rb sb. r = RBytes rb \<and> s = RBytes sb \<and> 0 < be_nat rb \<and> 0 < be_nat sb)"

lemma all_zero_iff: "b = [] \<or> list_all (\<lambda>x. x = 0) b \<longleftrightarrow> be_nat b = 0"
  unfolding be_nat_eq_0_iff strip_zeros_def by (auto simp: list_all_iff dropWhile_eq_Nil_conv)

lemma require_sig_iff: "require_sig r s = Inr u \<longleftrightarrow> signed_by r s"
proof -
  have "(rb = [] \<or> sb = [] \<or> list_all (\<lambda>b. b = 0) rb \<or> list_all (\<lambda>b. b = 0) sb) \<longleftrightarrow> be_nat rb = 0 \<or> be_nat sb = 0"
    for rb sb :: bytes
    unfolding all_zero_iff [symmetric] by (simp only: disj_ac)
  then show ?thesis unfolding require_sig_def rbind_Inr_iff tx_as_bytes_iff signed_by_def by auto
qed

definition min_fields :: "byte \<Rightarrow> nat" where
  "min_fields ty = (if ty = 1 then 11 else if ty = 2 then 12 else if ty = 3 then 14 else 13)"

definition canonical_list :: "rlp list \<Rightarrow> bool" where
  "canonical_list items \<longleftrightarrow> rlp_small (RList items) \<and> rlp_depth (RList items) \<le> 32"

lemma decode_canonical: "tx_decode_list b = Inr items \<longleftrightarrow> b = rlp_encode (RList items) \<and> canonical_list items"
  using exec_rlp.top_iff [of b "RList items"]
  by (auto simp: tx_decode_list_iff canonical_list_def MAX_RLP_DEPTH_def simp del: rlp_encode.simps rlp_small.simps rlp_depth.simps)

definition typed_tx :: "byte \<Rightarrow> rlp list \<Rightarrow> nat \<Rightarrow> bool" where
  "typed_tx ty items chain \<longleftrightarrow>
     ty \<in> {1, 2, 3, 4} \<and> canonical_list items \<and> min_fields ty \<le> length items \<and>
     signed_by (items ! (length items - 2)) (items ! (length items - 1)) \<and> items ! 0 = RBytes (uint_bytes chain)"

definition legacy_tx :: "rlp list \<Rightarrow> nat \<Rightarrow> bool" where
  "legacy_tx items chain \<longleftrightarrow>
     canonical_list items \<and> length items = 9 \<and> signed_by (items ! 7) (items ! 8) \<and>
     (items ! 6 = RBytes (uint_bytes (2 * chain + 35)) \<or> items ! 6 = RBytes (uint_bytes (2 * chain + 36)))"

lemma byte_range: "ty \<in> {1, 2, 3, 4} \<longleftrightarrow> 1 \<le> unat ty \<and> unat ty \<le> 4" for ty :: byte
proof -
  have "unat ty = n \<longleftrightarrow> ty = word_of_nat n" if "n < 256" for n
    using that byte_of_unat [of ty] unat_word_of_nat_byte by metis
  from this [of 1] this [of 2] this [of 3] this [of 4] show ?thesis by auto
qed

lemma parse_typed_iff:
  assumes "ty \<in> {1, 2, 3, 4}" "0 < chain" "is_u64 chain"
  shows "parse_typed ty payload = Inr chain \<longleftrightarrow> (\<exists>items. payload = rlp_encode (RList items) \<and> typed_tx ty items chain)"
proof -
  have m: "(if ty = 1 then Inr 11 else if ty = 2 then Inr 12 else if ty = 3 then Inr 14 else if ty = 4 then Inr 13
      else Inl (UnknownTxType ty)) = Inr (min_fields ty)" using assms(1) by (auto simp: min_fields_def)
  show ?thesis
    unfolding parse_typed_def m rbind_simps rbind_Inr_iff if_Inl_Inr_iff decode_canonical require_sig_iff typed_tx_def
    using assms rlp_u64_iff [of chain] by (auto simp: not_less)
qed

lemma parse_legacy_iff:
  assumes "0 < chain" "2 * chain + 36 \<le> u64_max"
  shows "parse_legacy bytes = Inr chain \<longleftrightarrow> (\<exists>items. bytes = rlp_encode (RList items) \<and> legacy_tx items chain)"
proof -
  have v: "\<not> (v = 27 \<or> v = 28) \<and> \<not> v < 35 \<and> (v - 35) div 2 = chain \<longleftrightarrow> v = 2 * chain + 35 \<or> v = 2 * chain + 36" for v
    using assms(1) by auto
  have "is_u64 (2 * chain + 35)" "is_u64 (2 * chain + 36)" using assms(2) by (auto simp: is_u64_def)
  then show ?thesis
    unfolding parse_legacy_def rbind_Inr_iff if_Inl_Inr_iff decode_canonical require_sig_iff legacy_tx_def sum.inject v
    using rlp_u64_iff [of "2 * chain + 35"] rlp_u64_iff [of "2 * chain + 36"] by auto
qed

lemma legacy_first_byte:
  assumes "rlp_small (RList items)"
  shows "0xc0 \<le> unat (hd (rlp_encode (RList items)))" "rlp_encode (RList items) \<noteq> []"
proof -
  have "is_u64 (length (items_bytes items))" using assms by simp
  then have "0xc0 \<le> unat (hd (rlp_encode (RList items))) \<and> rlp_encode (RList items) \<noteq> []"
    unfolding rlp_encode_RList by (cases rule: frame_cases [where l = True]) auto
  then show "0xc0 \<le> unat (hd (rlp_encode (RList items)))" "rlp_encode (RList items) \<noteq> []" by auto
qed

lemma parse_chain_id_iff:
  assumes "b \<noteq> []" "0 < chain" "2 * chain + 36 \<le> u64_max"
  shows "parse_chain_id b = Inr chain \<longleftrightarrow>
    (\<exists>ty items. b = ty # rlp_encode (RList items) \<and> typed_tx ty items chain) \<or>
    (\<exists>items. b = rlp_encode (RList items) \<and> legacy_tx items chain)"
proof -
  obtain ty rest where b: "b = ty # rest" using assms(1) by (cases b) auto
  have u: "is_u64 chain" using assms(3) by (simp add: is_u64_def)
  have leg: "0xc0 \<le> unat ty" if "b = rlp_encode (RList items)" "legacy_tx items chain" for items
    using legacy_first_byte(1) [of items] that unfolding legacy_tx_def canonical_list_def b by (metis list.sel(1))
  consider "ty \<in> {1, 2, 3, 4}" | "0x05 \<le> unat ty" "unat ty \<le> 0x7f" | "ty \<notin> {1, 2, 3, 4}" "\<not> (0x05 \<le> unat ty \<and> unat ty \<le> 0x7f)"
    by blast
  then show ?thesis
  proof cases
    case 1
    then have "parse_chain_id b = parse_typed ty rest" by (auto simp: byte_range parse_chain_id_def Let_def b)
    moreover have "unat ty \<le> 4" using 1 byte_range by blast
    ultimately show ?thesis using parse_typed_iff [OF 1 assms(2) u] leg by (auto simp: b simp del: rlp_encode.simps)
  next
    case 2
    then have "ty \<notin> {1, 2, 3, 4}" unfolding byte_range by auto
    then show ?thesis using 2 leg by (auto simp: b parse_chain_id_def typed_tx_def simp del: rlp_encode.simps)
  next
    case 3
    then have "parse_chain_id b = parse_legacy b" unfolding byte_range by (auto simp: parse_chain_id_def b)
    then show ?thesis using parse_legacy_iff [OF assms(2,3)] 3(1) by (auto simp: b typed_tx_def simp del: rlp_encode.simps)
  qed
qed

lemma validate_iff:
  "validate_bsc_raw_tx X b = Inr h \<longleftrightarrow>
     h = keccak X b \<and> length b \<le> MAX_RAW_TX \<and>
     ((\<exists>ty items. b = ty # rlp_encode (RList items) \<and> typed_tx ty items 56) \<or>
      (\<exists>items. b = rlp_encode (RList items) \<and> legacy_tx items 56))"
proof -
  have "b \<noteq> []" if "b = rlp_encode (RList items)" "legacy_tx items 56" for items
    using legacy_first_byte(2) [of items] that by (auto simp: legacy_tx_def canonical_list_def simp del: rlp_encode.simps rlp_small.simps)
  then have ne: "b \<noteq> []" if "(\<exists>ty items. b = ty # rlp_encode (RList items) \<and> typed_tx ty items 56) \<or>
      (\<exists>items. b = rlp_encode (RList items) \<and> legacy_tx items 56)" using that by blast
  have "validate_bsc_raw_tx X b = Inr h \<longleftrightarrow>
      h = keccak X b \<and> length b \<le> MAX_RAW_TX \<and> b \<noteq> [] \<and> parse_chain_id b = Inr 56"
    unfolding validate_bsc_raw_tx_def rbind_Inr_iff if_Inl_Inr_iff size_check_def BSC_MAINNET_CHAIN_ID_def by auto
  then show ?thesis using parse_chain_id_iff [of b 56] ne by (auto simp: u64_max_def)
qed

lemma signing_typed:
  assumes "typed_tx ty items 56" "tx_signing_hash X (ty # rlp_encode (RList items)) = Inr (digest, sig)"
  shows "RBytes (uint_bytes 56) \<in> set (take (length items - 3) items)"
    "digest = keccak X (ty # rlp_encode (RList (take (length items - 3) items)))"
proof -
  have t: "ty \<in> {1, 2, 3, 4}" "canonical_list items" "min_fields ty \<le> length items" "items ! 0 = RBytes (uint_bytes 56)"
    using assms(1) unfolding typed_tx_def by auto
  have "11 \<le> min_fields ty" by (simp add: min_fields_def)
  then have n: "0 < length items - 3" "\<not> length items < 9" using t(3) by auto
  then show "RBytes (uint_bytes 56) \<in> set (take (length items - 3) items)"
    using t(4) nth_mem [of 0 "take (length items - 3) items"] by auto
  have "tx_decode_list (rlp_encode (RList items)) = Inr items" using t(2) by (simp only: decode_canonical simp_thms)
  then show "digest = keccak X (ty # rlp_encode (RList (take (length items - 3) items)))"
    using assms(2) t(1) [unfolded byte_range] n(2)
    unfolding signing_hash_spec signing_spec_def by (auto simp: res_simps unsigned_preimage_def simp del: rlp_encode.simps)
qed

lemma signing_legacy:
  assumes "legacy_tx items 56" "tx_signing_hash X (rlp_encode (RList items)) = Inr (digest, sig)"
  shows "digest = keccak X (rlp_encode (RList (take 6 items @ [RBytes (uint_bytes 56), RBytes [], RBytes []])))"
proof -
  have t: "canonical_list items" "length items = 9" using assms(1) unfolding legacy_tx_def by auto
  have "is_u64 147" "is_u64 148" by (simp_all add: is_u64_def u64_max_def)
  then have v: "\<exists>v \<in> {147, 148}. rlp_u64 (items ! 6) = Inr v"
    using assms(1) rlp_u64_iff [of 147] rlp_u64_iff [of 148] unfolding legacy_tx_def by auto
  have d: "tx_decode_list (rlp_encode (RList items)) = Inr items" using t(1) by (simp only: decode_canonical simp_thms)
  have "0xc0 \<le> unat (hd (rlp_encode (RList items)))" using legacy_first_byte(1) t(1) unfolding canonical_list_def by blast
  then show ?thesis
    using assms(2) t(2) v d unfolding signing_hash_spec signing_spec_def
    by (auto simp: res_simps unsigned_preimage_def simp del: rlp_encode.simps)
qed

text \<open>The price under EIP-1559: base fee plus tip, capped by the fee cap when that covers the base fee.\<close>

lemma effective_dynamic:
  assumes "base \<le> max_fee" "max_fee \<le> u128_max"
  shows "effective (Dynamic tip max_fee) base = min max_fee (base + tip)"
  using assms by auto

lemma be_u128_eq: "length bs \<le> 16 \<Longrightarrow> be_u128 bs = be_nat bs"
proof (induction bs rule: rev_induct)
  case (snoc b bs)
  have "be_nat bs < 256 ^ length bs" by (rule be_nat_bound)
  also have "\<dots> \<le> 256 ^ 15" using snoc.prems by (intro power_increasing) auto
  finally have "be_nat bs * 256 < 2 ^ 128" by simp
  then show ?case using snoc by (simp add: be_u128_def)
qed (simp add: be_u128_def)

section \<open>Claims\<close>

text \<open>
  C35. The signing digest is that of the re-encoded unsigned fields. For every input, slicing the signed
  prefix out of the envelope and putting a fresh list header in front gives the same result,
  errors included, as decoding the envelope and canonically re-encoding the fields before the
  signature (with the chain id and two empty strings appended for EIP-155). The offset walk over the payload
  never fails on a decoded envelope.
\<close>

theorem signing_hash_reencodes: "tx_signing_hash X bytes = signing_spec X bytes"
  by (rule signing_hash_spec)

text \<open>
  C36. The broadcast check accepts exactly the canonical signed envelopes for BSC mainnet, and returns
  the Keccak hash of the bytes: a typed envelope (types 1 to 4, enough fields) whose first field is chain id 56,
  or a nine-field legacy list whose \<open>v\<close> is 147 or 148, in both cases with non-zero \<open>r\<close> and \<open>s\<close>, of at
  most 512 KiB. Unprotected legacy transactions and other chains are refused.
\<close>

theorem validate_bsc_raw_tx_iff:
  "validate_bsc_raw_tx X b = Inr h \<longleftrightarrow>
     h = keccak X b \<and> length b \<le> MAX_RAW_TX \<and>
     ((\<exists>ty items. b = ty # rlp_encode (RList items) \<and> typed_tx ty items 56) \<or>
      (\<exists>items. b = rlp_encode (RList items) \<and> legacy_tx items 56))"
  by (rule validate_iff)

text \<open>
  C37. Replay protection. The digest a broadcast transaction was signed over commits to chain id 56: if the broadcast
  check accepts the bytes and the signing digest exists, the digest is the Keccak hash of an encoding of a list
  of fields that contains the integer 56.
\<close>

theorem signed_for_bsc:
  assumes "validate_bsc_raw_tx X b = Inr h" "tx_signing_hash X b = Inr (digest, sig)"
  shows "\<exists>fields tag. RBytes (uint_bytes 56) \<in> set fields \<and> length tag \<le> 1 \<and>
    digest = keccak X (tag @ rlp_encode (RList fields))"
proof -
  consider (typed) ty items where "b = ty # rlp_encode (RList items)" "typed_tx ty items 56"
    | (legacy) items where "b = rlp_encode (RList items)" "legacy_tx items 56"
    using assms(1) unfolding validate_iff by blast
  then show ?thesis
  proof cases
    case typed
    then show ?thesis
      using signing_typed [OF typed(2)] assms(2)
      by (intro exI [of _ "take (length items - 3) items"] exI [of _ "[ty]"]) (auto simp del: rlp_encode.simps)
  next
    case legacy
    then show ?thesis
      using signing_legacy [OF legacy(2)] assms(2)
      by (intro exI [of _ "take 6 items @ [RBytes (uint_bytes 56), RBytes [], RBytes []]"] exI [of _ "[]"])
         (auto simp del: rlp_encode.simps)
  qed
qed

section \<open>Witnesses\<close>

definition sample_items :: "rlp list" where
  "sample_items = [RBytes [], RBytes [5], RBytes [82], RBytes [], RBytes [1], RBytes [], RBytes [147], RBytes [1], RBytes [2]]"

abbreviation sample_tx :: bytes where
  "sample_tx \<equiv> rlp_encode (RList sample_items)"

lemma uint_bytes_147: "uint_bytes 147 = [147]"
  by code_simp

lemma sample_canonical: "canonical_list sample_items"
  by (simp add: canonical_list_def sample_items_def encode_bytes_def encode_string_def is_u64_def u64_max_def)

lemma sample_legacy: "legacy_tx sample_items 56"
  using sample_canonical uint_bytes_147
  by (auto simp: legacy_tx_def signed_by_def be_nat_def sample_items_def)

lemma sample_tx_length: "length sample_tx \<le> MAX_RAW_TX"
  by (simp add: sample_items_def encode_list_def encode_bytes_def encode_string_def MAX_RAW_TX_def)

lemma sample_tx_accepted: "validate_bsc_raw_tx refX sample_tx = Inr (keccak refX sample_tx)"
  using sample_legacy sample_tx_length unfolding validate_iff by blast

lemma sample_tx_signed: "is_ok (tx_signing_hash refX sample_tx)"
proof -
  have "sample_tx \<noteq> []" "0xc0 \<le> unat (hd sample_tx)"
    using legacy_first_byte [of sample_items] sample_canonical unfolding canonical_list_def by auto
  moreover have "tx_decode_list sample_tx = Inr sample_items" using sample_canonical decode_canonical by blast
  ultimately show ?thesis
    using sample_tx_length unfolding signing_hash_spec signing_spec_def
    by (simp add: size_check_def rlp_u64_def tx_as_bytes_def item_bytes32_def unsigned_preimage_def be_u64_def
        sample_items_def wrap64_def del: rlp_encode.simps)
qed

theorem signed_for_bsc_witness:
  "\<exists>digest sig fields tag. tx_signing_hash refX sample_tx = Inr (digest, sig) \<and> RBytes (uint_bytes 56) \<in> set fields \<and>
     digest = keccak refX (tag @ rlp_encode (RList fields))"
proof -
  obtain digest sig where "tx_signing_hash refX sample_tx = Inr (digest, sig)"
    using sample_tx_signed by (cases "tx_signing_hash refX sample_tx") auto
  with signed_for_bsc [OF sample_tx_accepted this] show ?thesis by blast
qed

end
