(* ===== verification/Wire.thy ===== *)
theory Wire
  imports Types
begin

text \<open>
  JSON values and the JSON-RPC policy surface (\<open>crates/helios-bsc-rpc\<close>): the method policy table
  (\<open>lib.rs\<close>), the error codes, envelopes, parameter checks and wallet-mode block tags
  (\<open>wire.rs\<close>). A JSON object is an association list with first-match lookup; the order of its keys
  carries no meaning. A number is a \<open>u64\<close>, a negative \<open>i64\<close> or a float, as \<open>serde_json\<close> keeps it; the text of a float is
  opaque.
\<close>

section \<open>JSON\<close>

datatype json_number = PosInt nat | NegInt int | JFloat string

datatype json =
    JNull
  | JBool bool
  | JNumber json_number
  | JString string
  | JArray "json list"
  | JObject "(string \<times> json) list"

text \<open>\<open>Value::get\<close> with a key: \<open>None\<close> on anything but an object.\<close>

fun json_get :: "string \<Rightarrow> json \<Rightarrow> json option" where
  "json_get k (JObject m) = map_of m k"
| "json_get k _ = None"

fun as_str :: "json \<Rightarrow> string option" where
  "as_str (JString s) = Some s"
| "as_str _ = None"

fun as_array :: "json \<Rightarrow> json list option" where
  "as_array (JArray a) = Some a"
| "as_array _ = None"

fun as_object :: "json \<Rightarrow> (string \<times> json) list option" where
  "as_object (JObject m) = Some m"
| "as_object _ = None"

fun as_bool :: "json \<Rightarrow> bool option" where
  "as_bool (JBool b) = Some b"
| "as_bool _ = None"

definition is_null :: "json \<Rightarrow> bool" where
  "is_null v \<longleftrightarrow> v = JNull"

fun is_string :: "json \<Rightarrow> bool" where
  "is_string (JString _) = True"
| "is_string _ = False"

text \<open>\<open>Map::insert\<close>: replace the entry or add one.\<close>

fun obj_insert :: "string \<Rightarrow> json \<Rightarrow> (string \<times> json) list \<Rightarrow> (string \<times> json) list" where
  "obj_insert k v [] = [(k, v)]"
| "obj_insert k v ((a, w) # m) = (if a = k then (a, v) # m else (a, w) # obj_insert k v m)"

definition i64_max :: nat where "i64_max = 2 ^ 63 - 1"

fun number_as_i64 :: "json_number \<Rightarrow> int option" where
  "number_as_i64 (PosInt n) = (if n \<le> i64_max then Some (int n) else None)"
| "number_as_i64 (NegInt i) = Some i"
| "number_as_i64 (JFloat _) = None"

fun number_as_u64 :: "json_number \<Rightarrow> nat option" where
  "number_as_u64 (PosInt n) = Some n"
| "number_as_u64 _ = None"

text \<open>\<open>as_f64\<close> is \<open>Some\<close> on every number: without arbitrary precision all three forms convert.\<close>

definition number_is_f64 :: "json_number \<Rightarrow> bool" where
  "number_is_f64 n = True"

definition number_json :: "int \<Rightarrow> json" where
  "number_json i = JNumber (if 0 \<le> i then PosInt (nat i) else NegInt i)"

section \<open>Envelopes\<close>

definition ERR_PARSE :: int where "ERR_PARSE = -32700"
definition ERR_INVALID :: int where "ERR_INVALID = -32600"
definition ERR_PROOF_FAILED :: int where "ERR_PROOF_FAILED = -32001"
definition ERR_UPSTREAM :: int where "ERR_UPSTREAM = -32000"
definition ERR_STATE_ROOT :: int where "ERR_STATE_ROOT = -32002"
definition ERR_NOT_SYNCED :: int where "ERR_NOT_SYNCED = -32003"
definition ERR_METHOD :: int where "ERR_METHOD = -32601"
definition ERR_PARAMS :: int where "ERR_PARAMS = -32602"
definition ERR_INTERNAL :: int where "ERR_INTERNAL = -32603"
definition ERR_EXECUTION :: int where "ERR_EXECUTION = 3"

definition rpc_ok :: "json \<Rightarrow> json \<Rightarrow> json" where
  "rpc_ok rid result = JObject [(''jsonrpc'', JString ''2.0''), (''id'', rid), (''result'', result)]"

definition rpc_err :: "json \<Rightarrow> int \<Rightarrow> string \<Rightarrow> json" where
  "rpc_err rid code msg =
     JObject [(''jsonrpc'', JString ''2.0''), (''id'', rid),
       (''error'', JObject [(''code'', number_json code), (''message'', JString msg)])]"

definition rpc_err_data :: "json \<Rightarrow> int \<Rightarrow> string \<Rightarrow> json \<Rightarrow> json" where
  "rpc_err_data rid code msg data =
     JObject [(''jsonrpc'', JString ''2.0''), (''id'', rid),
       (''error'', JObject [(''code'', number_json code), (''message'', JString msg), (''data'', data)])]"

definition MAX_RPC_BATCH :: nat where "MAX_RPC_BATCH = 64"
definition MAX_RPC_METHOD :: nat where "MAX_RPC_METHOD = 64"
definition MAX_PROOF_STORAGE_KEYS :: nat where "MAX_PROOF_STORAGE_KEYS = 64"
definition MAX_RPC_ID :: nat where "MAX_RPC_ID = 128"
definition MAX_RPC_PARAMS :: nat where "MAX_RPC_PARAMS = 16"

definition jsonrpc_is_v2 :: "json \<Rightarrow> bool" where
  "jsonrpc_is_v2 req \<longleftrightarrow> Option.bind (json_get ''jsonrpc'' req) as_str = Some ''2.0''"

fun jsonrpc_id_ok :: "json \<Rightarrow> bool" where
  "jsonrpc_id_ok JNull = True"
| "jsonrpc_id_ok (JString s) = (length s \<le> MAX_RPC_ID)"
| "jsonrpc_id_ok (JNumber n) = (number_as_i64 n \<noteq> None \<or> number_as_u64 n \<noteq> None)"
| "jsonrpc_id_ok _ = False"

definition jsonrpc_params_ok :: "json \<Rightarrow> bool" where
  "jsonrpc_params_ok req =
     (case json_get ''params'' req of
        None \<Rightarrow> True
      | Some JNull \<Rightarrow> True
      | Some (JArray _) \<Rightarrow> True
      | Some _ \<Rightarrow> False)"

text \<open>\<open>req.get("params").and_then(Value::as_array)\<close>\<close>

definition req_params :: "json \<Rightarrow> json list option" where
  "req_params req = Option.bind (json_get ''params'' req) as_array"

definition jsonrpc_params_len :: "json \<Rightarrow> nat" where
  "jsonrpc_params_len req = (case req_params req of None \<Rightarrow> 0 | Some p \<Rightarrow> length p)"

text \<open>\<open>slice::get\<close>\<close>

definition nth_opt :: "'a list \<Rightarrow> nat \<Rightarrow> 'a option" where
  "nth_opt xs i = (if i < length xs then Some (xs ! i) else None)"

section \<open>Block tags\<close>

datatype block_id = BlockSafe | BlockNumber nat

fun wallet_block_tag_str :: "json option \<Rightarrow> (string, string option) result" where
  "wallet_block_tag_str None = Inr None"
| "wallet_block_tag_str (Some JNull) = Inr None"
| "wallet_block_tag_str (Some (JString s)) = Inr (Some s)"
| "wallet_block_tag_str (Some _) = Inl ''block id must be a string tag or hex''"

definition is_hexdigit :: "char \<Rightarrow> bool" where
  "is_hexdigit c \<longleftrightarrow> to_digit16 c \<noteq> None"

definition has_0x :: "string \<Rightarrow> bool" where
  "has_0x t \<longleftrightarrow> take 2 t = ''0x'' \<or> take 2 t = ''0X''"

definition parse_hex_u64 :: "string \<Rightarrow> nat option" where
  "parse_hex_u64 t =
     (if \<not> has_0x t then None
      else
        let digits = drop 2 t in
        if digits = [] \<or> \<not> list_all is_hexdigit digits then None
        else (case from_str_radix16 digits of Inl _ \<Rightarrow> None | Inr n \<Rightarrow> Some n))"

text \<open>The tags that stand for the local safe head, and the two that are always refused.\<close>

definition safe_tag :: "string option \<Rightarrow> bool" where
  "safe_tag tag \<longleftrightarrow> tag \<in> {None, Some [], Some ''latest'', Some ''safe'', Some ''finalized''}"

definition refused_tag :: "string option \<Rightarrow> bool" where
  "refused_tag tag \<longleftrightarrow> tag \<in> {Some ''pending'', Some ''earliest''}"

definition wallet_tag_is_safe :: "string option \<Rightarrow> nat \<Rightarrow> string \<Rightarrow> bool" where
  "wallet_tag_is_safe tag safe_number safe_hash =
     (if safe_tag tag then True
      else if refused_tag tag then False
      else
        case tag of
          None \<Rightarrow> True
        | Some t \<Rightarrow>
            if eq_ignore_ascii_case t safe_hash then True
            else if has_0x t then parse_hex_u64 t = Some safe_number
            else False)"

definition wallet_block_number_allowed :: "string option \<Rightarrow> nat \<Rightarrow> string \<Rightarrow> block_id option" where
  "wallet_block_number_allowed tag safe_number safe_hash =
     (if safe_tag tag then Some BlockSafe
      else if refused_tag tag then None
      else
        case tag of
          None \<Rightarrow> Some BlockSafe
        | Some t \<Rightarrow>
            if eq_ignore_ascii_case t safe_hash then Some BlockSafe
            else if has_0x t then
              (case parse_hex_u64 t of
                 None \<Rightarrow> None
               | Some n \<Rightarrow> if n \<le> safe_number then Some (BlockNumber n) else None)
            else None)"

section \<open>Method policy\<close>

datatype method_policy_t = Verified_Method | Unverified_Method | Unsupported_Method

fun policy_trust :: "method_policy_t \<Rightarrow> trust_class" where
  "policy_trust Verified_Method = TrustVerified"
| "policy_trust Unverified_Method = TrustUnverified"
| "policy_trust Unsupported_Method = TrustUnsupported"

definition starts_with :: "string \<Rightarrow> string \<Rightarrow> bool" where
  "starts_with s p \<longleftrightarrow> take (length p) s = p"

definition blocked_prefixes :: "string list" where
  "blocked_prefixes =
     [''debug_'', ''trace_'', ''personal_'', ''admin_'', ''miner_'', ''txpool_'', ''engine_'', ''les_'',
      ''clique_'', ''parlia_'', ''rpc_'', ''bsc_'']"

definition namespace_blocked :: "string \<Rightarrow> bool" where
  "namespace_blocked method \<longleftrightarrow> list_ex (starts_with method) blocked_prefixes"

definition verified_methods :: "string list" where
  "verified_methods =
     [''eth_chainId'', ''net_version'', ''net_listening'', ''net_peerCount'',
      ''web3_clientVersion'', ''web3_sha3'', ''eth_accounts'', ''eth_syncing'', ''eth_mining'', ''eth_hashrate'',
      ''eth_protocolVersion'', ''eth_blockNumber'',
      ''eth_getBalance'', ''eth_getTransactionCount'', ''eth_getCode'', ''eth_getStorageAt'', ''eth_getProof'',
      ''eth_call'', ''eth_estimateGas'',
      ''eth_getBlockByNumber'', ''eth_getBlockByHash'', ''eth_getBlockTransactionCountByNumber'',
      ''eth_getBlockTransactionCountByHash'', ''eth_getTransactionByBlockNumberAndIndex'',
      ''eth_getTransactionByBlockHashAndIndex'', ''eth_getBlockReceipts'', ''eth_getLogs'',
      ''eth_getUncleCountByBlockNumber'', ''eth_getUncleCountByBlockHash'',
      ''eth_getUncleByBlockNumberAndIndex'', ''eth_getUncleByBlockHashAndIndex'', ''eth_coinbase'',
      ''helios_bsc_syncStatus'', ''helios_bsc_getVerificationStatus'',
      ''eth_newFilter'', ''eth_newBlockFilter'', ''eth_uninstallFilter'', ''eth_getFilterChanges'',
      ''eth_getFilterLogs'']"

definition passthrough_methods :: "string list" where
  "passthrough_methods =
     [''eth_getTransactionReceipt'', ''eth_getTransactionByHash'', ''eth_getRawTransactionByHash'',
      ''eth_gasPrice'', ''eth_maxPriorityFeePerGas'', ''eth_feeHistory'', ''eth_blobBaseFee'']"

definition method_policy :: "string \<Rightarrow> method_policy_t" where
  "method_policy method =
     (if namespace_blocked method then Unsupported_Method
      else if method \<in> set verified_methods then Verified_Method
      else if method = ''eth_sendRawTransaction'' \<or> method \<in> set passthrough_methods then Unverified_Method
      else Unsupported_Method)"

definition unverified_passthrough_ok :: "string \<Rightarrow> bool" where
  "unverified_passthrough_ok method \<longleftrightarrow> method \<in> set passthrough_methods"

section \<open>Facts\<close>

lemma map_of_obj_insert: "map_of (obj_insert k v m) = (map_of m)(k \<mapsto> v)"
  by (induction m) auto

lemma obj_insert_keys: "fst ` set (obj_insert k v m) = insert k (fst ` set m)"
proof (induction m)
  case (Cons e m)
  obtain a w where "e = (a, w)" by (cases e)
  then show ?case using Cons by (cases "a = k") (simp_all add: insert_commute)
qed simp

lemma obj_insert_distinct: "distinct (map fst m) \<Longrightarrow> distinct (map fst (obj_insert k v m))"
  by (induction m) (auto simp: obj_insert_keys)

lemma map_of_filter_not_null:
  "distinct (map fst m) \<Longrightarrow> map_of (filter (\<lambda>(k, v). v \<noteq> JNull) m) k =
     (case map_of m k of Some v \<Rightarrow> if v = JNull then None else Some v | None \<Rightarrow> None)"
  by (induction m) (auto split: option.splits simp: map_of_eq_None_iff)

text \<open>A block id that wallet mode lets through is the safe head or a height at or below it.\<close>

lemma wallet_block_number_le:
  "wallet_block_number_allowed tag safe_number safe_hash = Some (BlockNumber n) \<Longrightarrow> n \<le> safe_number"
  by (auto simp: wallet_block_number_allowed_def split: if_splits option.splits)

lemma tag_safe_iff:
  "wallet_tag_is_safe tag n h \<longleftrightarrow> wallet_block_number_allowed tag n h \<in> {Some BlockSafe, Some (BlockNumber n)}"
  by (auto simp: wallet_tag_is_safe_def wallet_block_number_allowed_def split: option.splits)

lemma passthrough_iff:
  "unverified_passthrough_ok m \<longleftrightarrow> method_policy m = Unverified_Method \<and> m \<noteq> ''eth_sendRawTransaction''"
proof -
  have "\<forall>m \<in> set passthrough_methods. \<not> namespace_blocked m \<and> m \<notin> set verified_methods \<and> m \<noteq> ''eth_sendRawTransaction''"
    by code_simp
  then show ?thesis by (auto simp: unverified_passthrough_ok_def method_policy_def)
qed

end
