(* ===== verification/Call.thy ===== *)
theory Call
  imports Proof Config "HOL-Library.AList"
begin

text \<open>
  Verified \<open>eth_call\<close> and \<open>eth_estimateGas\<close> (\<open>helios-bsc-execution/src/call.rs\<close>): the database that
  only answers from verified proofs, the loop that fetches a proof for each miss, and the gas
  search. The EVM (\<open>revm\<close>) is a parameter, a record of the functions the file calls; the
  source that serves proofs and code (\<open>ProveAtSafe\<close>) is a parameter too, indexed by the number of calls
  made so far, so that it may change its mind between calls.

  A \<open>HashMap\<close> is an association list updated with \<open>AList.update\<close>, a \<open>U256\<close> is a natural number.
\<close>

section \<open>Constants\<close>

definition CALL_GAS_CAP :: nat where "CALL_GAS_CAP = 50000000"
definition MAX_PROOF_ROUNDS :: nat where "MAX_PROOF_ROUNDS = 8"
definition MAX_CALL_ACCOUNTS :: nat where "MAX_CALL_ACCOUNTS = 32"
definition MAX_CALL_DATA :: nat where "MAX_CALL_DATA = 131072"
definition MAX_PROOF_STORAGE_KEYS :: nat where "MAX_PROOF_STORAGE_KEYS = 64"
definition TX_GAS :: nat where "TX_GAS = 21000"
definition MAX_ESTIMATE_ITERS :: nat where "MAX_ESTIMATE_ITERS = 64"
definition BLOCKHASH_WINDOW :: nat where "BLOCKHASH_WINDOW = 256"
definition BSC_BLOB_UPDATE_FRACTION :: nat where "BSC_BLOB_UPDATE_FRACTION = 3338477"

section \<open>Data\<close>

record call_tx =
  ct_from :: bytes
  ct_to :: bytes
  ct_data :: bytes
  ct_value :: bytes
  ct_gas :: "nat option"
  ct_access_list :: "(bytes \<times> bytes list) list"

record call_block =
  cb_number :: nat
  cb_hash :: bytes
  cb_state_root :: bytes
  cb_timestamp :: nat
  cb_beneficiary :: bytes
  cb_gas_limit :: nat
  cb_difficulty :: bytes
  cb_prevrandao :: bytes
  cb_basefee :: nat
  cb_excess_blob_gas :: nat
  cb_historical_hashes :: "(nat \<times> bytes) list"

datatype miss =
    MissAccount bytes
  | MissStorage bytes bytes
  | MissBlockHash nat
  | MissCodeHash bytes

datatype call_error =
    Missing miss
  | CallProof proof_error
  | CallRevert bytes
  | CallHalt string
  | Budget
  | Invalid string
  | UnsupportedPrecompile bytes

datatype precompile_kind_t = PK_Account | PK_Local | PK_Unsupported

datatype spec_id = SHANGHAI | CANCUN | PRAGUE | OSAKA

text \<open>The forks of \<open>SpecId\<close> the file names, in the order of the hard forks.\<close>

primrec spec_rank :: "spec_id \<Rightarrow> nat" where
  "spec_rank SHANGHAI = 0"
| "spec_rank CANCUN = 1"
| "spec_rank PRAGUE = 2"
| "spec_rank OSAKA = 3"

instantiation spec_id :: linorder
begin

definition less_eq_spec_id :: "spec_id \<Rightarrow> spec_id \<Rightarrow> bool" where
  "less_eq_spec_id a b \<longleftrightarrow> spec_rank a \<le> spec_rank b"

definition less_spec_id :: "spec_id \<Rightarrow> spec_id \<Rightarrow> bool" where
  "less_spec_id a b \<longleftrightarrow> spec_rank a < spec_rank b"

instance
proof
  fix a b c :: spec_id
  show "a < b \<longleftrightarrow> a \<le> b \<and> \<not> b \<le> a" by (auto simp: less_eq_spec_id_def less_spec_id_def)
  show "a \<le> a" by (simp add: less_eq_spec_id_def)
  show "a \<le> c" if "a \<le> b" "b \<le> c" using that by (simp add: less_eq_spec_id_def)
  show "a = b" if "a \<le> b" "b \<le> a" using that by (cases a; cases b) (simp_all add: less_eq_spec_id_def)
  show "a \<le> b \<or> b \<le> a" by (auto simp: less_eq_spec_id_def)
qed

end

datatype halt_reason =
    OutOfGas | OpcodeNotFound | InvalidFEOpcode | NotActivated | StackUnderflow | StackOverflow
  | OutOfOffset | CreateCollision | OverflowPayment | PrecompileError | NonceOverflow
  | CreateContractSizeLimit | CreateContractStartingWithEF | StateChangeDuringStaticCall
  | CallNotAllowedInsideStatic | OutOfFunds | CallTooDeep | OtherHalt

text \<open>The gas field of a result is what \<open>tx_gas_used\<close> returns for it.\<close>

datatype execution_result =
    ExSuccess (ex_gas: nat) (ex_output: bytes)
  | ExRevert (ex_gas: nat) (ex_output: bytes)
  | ExHalt (ex_gas: nat) halt_reason

datatype evm_error =
    EvmDatabase call_error
  | EvmTransaction
  | EvmHeader
  | EvmCustom

section \<open>The EVM as a parameter\<close>

record 'bc account_info =
  ai_balance :: nat
  ai_nonce :: nat
  ai_code_hash :: bytes
  ai_code :: "'bc option"

text \<open>The four reads of revm's \<open>Database\<close> trait.\<close>

record 'bc database =
  db_basic :: "bytes \<Rightarrow> (call_error, 'bc account_info option) result"
  db_code_by_hash :: "bytes \<Rightarrow> (call_error, 'bc) result"
  db_storage :: "bytes \<Rightarrow> nat \<Rightarrow> (call_error, nat) result"
  db_block_hash :: "nat \<Rightarrow> (call_error, bytes) result"

record cfg_env =
  cfg_spec :: spec_id
  cfg_chain_id :: nat
  cfg_disable_base_fee :: bool
  cfg_disable_eip3607 :: bool
  cfg_disable_nonce_check :: bool

record block_env =
  be_number :: nat
  be_beneficiary :: bytes
  be_timestamp :: nat
  be_gas_limit :: nat
  be_basefee :: nat
  be_difficulty :: nat
  be_prevrandao :: "bytes option"
  be_blob :: "nat \<times> nat"
    \<comment> \<open>the arguments of \<open>set_blob_excess_gas_and_price\<close>\<close>

record tx_env =
  te_tx_type :: nat
  te_caller :: bytes
  te_gas_limit :: nat
  te_gas_price :: nat
  te_kind_call :: bytes
    \<comment> \<open>\<open>TxKind::Call\<close> of the address\<close>
  te_value :: nat
  te_data :: bytes
  te_chain_id :: "nat option"

record 'bc evm =
  bc_new :: 'bc
  bc_new_raw :: "bytes \<Rightarrow> 'bc"
  bc_hash_slow :: "'bc \<Rightarrow> bytes"
  default_info :: "'bc account_info"
  default_spec :: spec_id
  precompiles_contains :: "spec_id \<Rightarrow> bytes \<Rightarrow> bool"
    \<comment> \<open>\<open>Precompiles::new(PrecompileSpecId::from_spec_id(spec)).contains\<close>\<close>
  transact :: "'bc database \<Rightarrow> cfg_env \<Rightarrow> block_env \<Rightarrow> tx_env \<Rightarrow> (evm_error, execution_result) result"

text \<open>The untrusted source of proofs and code, by number of calls made before.\<close>

record prover =
  pv_get_proof :: "nat \<Rightarrow> bytes \<Rightarrow> bytes list \<Rightarrow> bytes \<Rightarrow> nat \<Rightarrow> (call_error, eth_account_proof) result"
  pv_get_code :: "nat \<Rightarrow> bytes \<Rightarrow> bytes \<Rightarrow> nat \<Rightarrow> (call_error, bytes) result"

record 'bc proven_account =
  pa_info :: "'bc account_info"
  pa_storage_root :: bytes
  pa_storage :: "(nat \<times> nat) list"

record 'bc proof_db =
  prd_accounts :: "(bytes \<times> 'bc proven_account) list"
  prd_codes :: "(bytes \<times> 'bc) list"
  prd_block_hashes :: "(nat \<times> bytes) list"
  prd_block_number :: nat
  prd_spec :: spec_id

section \<open>Rules and limits\<close>

definition evm_spec_at :: "nat \<Rightarrow> spec_id" where
  "evm_spec_at timestamp =
     (if OSAKA_MENDEL_TIME \<le> timestamp then OSAKA
      else if PRAGUE_TIME \<le> timestamp then PRAGUE
      else if CANCUN_TIME \<le> timestamp then CANCUN
      else SHANGHAI)"

definition precompile_kind :: "'bc evm \<Rightarrow> bytes \<Rightarrow> spec_id \<Rightarrow> precompile_kind_t" where
  "precompile_kind E n spec =
     (if take 18 n = zeros 18 \<and> n ! 18 = 1 \<and> n ! 19 = 0 then PK_Unsupported
      else if take 19 n \<noteq> zeros 19 then PK_Account
      else if 1 \<le> n ! 19 \<and> n ! 19 \<le> 0x11 then
        (if precompiles_contains E spec n then PK_Local else PK_Unsupported)
      else if 0x64 \<le> n ! 19 \<and> n ! 19 \<le> 0x69 then PK_Unsupported
      else PK_Account)"

definition u256_to_slot :: "nat \<Rightarrow> bytes" where
  "u256_to_slot index = to_be_bytes 32 index"

definition call_gas :: "call_tx \<Rightarrow> call_block \<Rightarrow> nat" where
  "call_gas tx block =
     (let user = (case ct_gas tx of Some g \<Rightarrow> g | None \<Rightarrow> CALL_GAS_CAP);
          cap = min CALL_GAS_CAP (cb_gas_limit block);
          cap = (if OSAKA \<le> evm_spec_at (cb_timestamp block) then min cap MAX_TX_GAS else cap)
      in min user cap)"

definition decode_slot_key :: "('pk, 'sg) ext \<Rightarrow> string \<Rightarrow> (proof_error, bytes) result" where
  "decode_slot_key X s =
     (let raw = strip_0x s;
          even = (if length raw mod 2 = 1 then CHR ''0'' # raw else raw)
      in rbind (map_err ProofJson (hex_decode X even)) (\<lambda>b.
           if 32 < length b then Inl (ClaimMismatch ''storageProof key wider than a slot'')
           else Inr (pad32 b)))"

primrec halt_str :: "halt_reason \<Rightarrow> string" where
  "halt_str OutOfGas = ''out of gas''"
| "halt_str OpcodeNotFound = ''invalid opcode''"
| "halt_str InvalidFEOpcode = ''invalid fe opcode''"
| "halt_str NotActivated = ''not activated''"
| "halt_str StackUnderflow = ''stack underflow''"
| "halt_str StackOverflow = ''stack overflow''"
| "halt_str OutOfOffset = ''out of offset''"
| "halt_str CreateCollision = ''create collision''"
| "halt_str OverflowPayment = ''overflow payment''"
| "halt_str PrecompileError = ''precompile''"
| "halt_str NonceOverflow = ''nonce overflow''"
| "halt_str CreateContractSizeLimit = ''code size''"
| "halt_str CreateContractStartingWithEF = ''code starts with 0xef''"
| "halt_str StateChangeDuringStaticCall = ''state change''"
| "halt_str CallNotAllowedInsideStatic = ''static call''"
| "halt_str OutOfFunds = ''out of funds''"
| "halt_str CallTooDeep = ''call too deep''"
| "halt_str OtherHalt = ''halt''"

section \<open>ProofDb\<close>

definition proof_db_new :: "'bc evm \<Rightarrow> 'bc proof_db" where
  "proof_db_new E = \<lparr>prd_accounts = [], prd_codes = [], prd_block_hashes = [], prd_block_number = 0,
     prd_spec = default_spec E\<rparr>"

definition seed_block_hashes :: "call_block \<Rightarrow> 'bc proof_db \<Rightarrow> 'bc proof_db" where
  "seed_block_hashes block db =
     db\<lparr>prd_block_number := cb_number block, prd_spec := evm_spec_at (cb_timestamp block),
        prd_block_hashes :=
          fold (\<lambda>(n, h) m. AList.update n h m) (take BLOCKHASH_WINDOW (cb_historical_hashes block)) []\<rparr>"

definition bytecode_of :: "'bc evm \<Rightarrow> bytes \<Rightarrow> 'bc" where
  "bytecode_of E code = (if code = [] then bc_new E else bc_new_raw E code)"

definition insert_account :: "'bc evm \<Rightarrow> bytes \<Rightarrow> nat \<Rightarrow> bytes \<Rightarrow> bytes \<Rightarrow> bytes \<Rightarrow> 'bc proof_db \<Rightarrow> 'bc proof_db" where
  "insert_account E address nonce balance storage_root code db =
     (let bytecode = bytecode_of E code;
          code_hash = (if code = [] then EMPTY_CODE_HASH else bc_hash_slow E bytecode);
          info = (default_info E)\<lparr>ai_balance := be_nat balance, ai_nonce := nonce, ai_code_hash := code_hash,
                    ai_code := Some bytecode\<rparr>
      in db\<lparr>prd_codes := AList.update code_hash bytecode (prd_codes db),
            prd_accounts := AList.update address
              \<lparr>pa_info = info, pa_storage_root = storage_root, pa_storage = []\<rparr> (prd_accounts db)\<rparr>)"

definition insert_slot :: "bytes \<Rightarrow> bytes \<Rightarrow> bytes \<Rightarrow> 'bc proof_db \<Rightarrow> 'bc proof_db" where
  "insert_slot address slot v db =
     (case map_of (prd_accounts db) address of
        None \<Rightarrow> db
      | Some acc \<Rightarrow>
          if MAX_PROOF_STORAGE_KEYS \<le> length (pa_storage acc) then db
          else db\<lparr>prd_accounts := AList.update address
                 (acc\<lparr>pa_storage := AList.update (be_nat slot) (be_nat v) (pa_storage acc)\<rparr>) (prd_accounts db)\<rparr>)"

definition basic :: "'bc evm \<Rightarrow> 'bc proof_db \<Rightarrow> bytes \<Rightarrow> (call_error, 'bc account_info option) result" where
  "basic E db address =
     (case precompile_kind E address (prd_spec db) of
        PK_Unsupported \<Rightarrow> Inl (UnsupportedPrecompile address)
      | PK_Local \<Rightarrow> Inr (Some (default_info E))
      | PK_Account \<Rightarrow>
          (case map_of (prd_accounts db) address of
             Some acc \<Rightarrow> Inr (Some (pa_info acc))
           | None \<Rightarrow> Inl (Missing (MissAccount address))))"

definition code_by_hash :: "'bc evm \<Rightarrow> 'bc proof_db \<Rightarrow> bytes \<Rightarrow> (call_error, 'bc) result" where
  "code_by_hash E db code_hash =
     (if code_hash = EMPTY_CODE_HASH then Inr (bc_new E)
      else case map_of (prd_codes db) code_hash of
        Some c \<Rightarrow> Inr c
      | None \<Rightarrow> Inl (Missing (MissCodeHash code_hash)))"

definition storage :: "'bc proof_db \<Rightarrow> bytes \<Rightarrow> nat \<Rightarrow> (call_error, nat) result" where
  "storage db address index =
     (case map_of (prd_accounts db) address of
        None \<Rightarrow> Inl (Missing (MissStorage address (u256_to_slot index)))
      | Some acc \<Rightarrow>
          (case map_of (pa_storage acc) index of
             Some v \<Rightarrow> Inr v
           | None \<Rightarrow>
               if pa_storage_root acc = EMPTY_TRIE_ROOT then Inr 0
               else Inl (Missing (MissStorage address (u256_to_slot index)))))"

definition block_hash :: "'bc proof_db \<Rightarrow> nat \<Rightarrow> (call_error, bytes) result" where
  "block_hash db number =
     (if prd_block_number db \<le> number \<or> sat_add number BLOCKHASH_WINDOW < prd_block_number db
      then Inr (zeros 32)
      else case map_of (prd_block_hashes db) number of
        Some h \<Rightarrow> Inr h
      | None \<Rightarrow> Inl (Missing (MissBlockHash number)))"

text \<open>\<open>impl Database for ProofDb\<close>.\<close>

definition database_of :: "'bc evm \<Rightarrow> 'bc proof_db \<Rightarrow> 'bc database" where
  "database_of E db = \<lparr>db_basic = basic E db, db_code_by_hash = code_by_hash E db, db_storage = storage db,
     db_block_hash = block_hash db\<rparr>"

section \<open>Loading proven accounts\<close>

fun load_slots ::
    "('pk, 'sg) ext \<Rightarrow> verified_account \<Rightarrow> eth_account_proof \<Rightarrow> storage_proof_entry list \<Rightarrow> (nat \<times> nat) list \<Rightarrow>
     (call_error, (nat \<times> nat) list) result" where
  "load_slots X verified pr [] stor = Inr stor"
| "load_slots X verified pr (entry # es) stor =
     rbind (map_err CallProof (decode_slot_key X (se_key entry))) (\<lambda>key.
     rbind (map_err CallProof (verify_storage_slot X verified key pr)) (\<lambda>val.
       if MAX_PROOF_STORAGE_KEYS \<le> length stor \<and> map_of stor (be_nat key) = None then Inl Budget
       else load_slots X verified pr es (AList.update (be_nat key) (be_nat (pad32 val)) stor)))"

definition info_of :: "'bc evm \<Rightarrow> verified_account \<Rightarrow> bytes \<Rightarrow> 'bc account_info" where
  "info_of E verified code =
     (default_info E)\<lparr>ai_balance := be_nat (pad32 (va_balance_wei verified)), ai_nonce := va_nonce verified,
        ai_code_hash := va_code_hash verified, ai_code := Some (bytecode_of E code)\<rparr>"

definition load_storage ::
    "('pk, 'sg) ext \<Rightarrow> verified_account \<Rightarrow> eth_account_proof \<Rightarrow> (nat \<times> nat) list \<Rightarrow>
     (call_error, (nat \<times> nat) list) result" where
  "load_storage X verified pr stor =
     (if va_storage_root verified \<noteq> EMPTY_TRIE_ROOT then load_slots X verified pr (ep_storage_proof pr) stor
      else Inr stor)"

definition known_storage :: "'bc proof_db \<Rightarrow> bytes \<Rightarrow> (nat \<times> nat) list" where
  "known_storage db address = (case map_of (prd_accounts db) address of Some a \<Rightarrow> pa_storage a | None \<Rightarrow> [])"

definition store_account ::
    "'bc evm \<Rightarrow> 'bc proof_db \<Rightarrow> bytes \<Rightarrow> verified_account \<Rightarrow> bytes \<Rightarrow> (nat \<times> nat) list \<Rightarrow> 'bc proof_db" where
  "store_account E db address verified code stor =
     (let code_hash = va_code_hash verified;
          codes = (if code_hash \<noteq> EMPTY_CODE_HASH
                   then AList.update code_hash (bytecode_of E code) (prd_codes db) else prd_codes db)
      in db\<lparr>prd_codes := codes, prd_accounts := AList.update address
             \<lparr>pa_info = info_of E verified code, pa_storage_root = va_storage_root verified,
              pa_storage = stor\<rparr> (prd_accounts db)\<rparr>)"

definition load_proven_account ::
    "('pk, 'sg) ext \<Rightarrow> 'bc evm \<Rightarrow> 'bc proof_db \<Rightarrow> bytes \<Rightarrow> bytes \<Rightarrow> eth_account_proof \<Rightarrow> bytes \<Rightarrow>
     (call_error, 'bc proof_db) result" where
  "load_proven_account X E db state_root address pr code =
     (if MAX_CODE_SIZE < length code then Inl (Invalid ''code too large'')
      else
      rbind (map_err CallProof (verify_eth_get_proof X state_root address pr)) (\<lambda>verified.
      rbind (map_err CallProof (verify_account_code X verified code)) (\<lambda>_.
      if map_of (prd_accounts db) address = None \<and> MAX_CALL_ACCOUNTS \<le> length (prd_accounts db) then Inl Budget
      else
      rbind (load_storage X verified pr (known_storage db address)) (\<lambda>stor.
        Inr (store_account E db address verified code stor)))))"

text \<open>
  What one call or estimate keeps: the database, the miss-retry counter, and the number of calls made to the proof
  source (the position in its answers). A call is one \<open>get_proof\<close> or one \<open>get_code\<close> of
  \<open>ProveAtSafe\<close>; over HTTP the first may take three upstream requests and the second two, each with its retries.
\<close>

record 'bc call_state =
  cs_db :: "'bc proof_db"
  cs_rounds :: nat
  cs_calls :: nat

definition fetch_and_load ::
    "('pk, 'sg) ext \<Rightarrow> 'bc evm \<Rightarrow> prover \<Rightarrow> call_block \<Rightarrow> bytes \<Rightarrow> bytes list \<Rightarrow> 'bc call_state \<Rightarrow>
     (call_error, unit) result \<times> 'bc call_state" where
  "fetch_and_load X E pv block address slots s =
     (if MAX_PROOF_STORAGE_KEYS < length slots then (Inl Budget, s)
      else
        let answer = pv_get_proof pv (cs_calls s) address slots (cb_hash block) (cb_number block);
            s = s\<lparr>cs_calls := cs_calls s + 1\<rparr> in
        case rbind answer (\<lambda>pr.
             map_ok (Pair pr) (map_err CallProof (verify_eth_get_proof X (cb_state_root block) address pr))) of
          Inl e \<Rightarrow> (Inl e, s)
        | Inr (pr, verified) \<Rightarrow>
            let (code, s) =
              (if va_code_hash verified = EMPTY_CODE_HASH then (Inr [], s)
               else (pv_get_code pv (cs_calls s) address (cb_hash block) (cb_number block),
                     s\<lparr>cs_calls := cs_calls s + 1\<rparr>)) in
            case rbind code (load_proven_account X E (cs_db s) (cb_state_root block) address pr) of
              Inl e \<Rightarrow> (Inl e, s)
            | Inr db \<Rightarrow> (Inr (), s\<lparr>cs_db := db\<rparr>))"

section \<open>Execution\<close>

definition cfg_of :: "call_block \<Rightarrow> cfg_env" where
  "cfg_of block = \<lparr>cfg_spec = evm_spec_at (cb_timestamp block), cfg_chain_id = BSC_MAINNET_CHAIN_ID,
     cfg_disable_base_fee = True, cfg_disable_eip3607 = True, cfg_disable_nonce_check = True\<rparr>"

definition block_env_of :: "call_block \<Rightarrow> block_env" where
  "block_env_of block = \<lparr>be_number = cb_number block, be_beneficiary = cb_beneficiary block,
     be_timestamp = cb_timestamp block, be_gas_limit = cb_gas_limit block, be_basefee = cb_basefee block,
     be_difficulty = be_nat (cb_difficulty block), be_prevrandao = Some (cb_prevrandao block),
     be_blob = (cb_excess_blob_gas block, BSC_BLOB_UPDATE_FRACTION)\<rparr>"

definition tx_env_of :: "call_tx \<Rightarrow> nat \<Rightarrow> tx_env" where
  "tx_env_of tx gas = \<lparr>te_tx_type = 0, te_caller = ct_from tx, te_gas_limit = gas, te_gas_price = 0,
     te_kind_call = ct_to tx, te_value = be_nat (ct_value tx), te_data = ct_data tx,
     te_chain_id = Some BSC_MAINNET_CHAIN_ID\<rparr>"

definition transact_call ::
    "'bc evm \<Rightarrow> 'bc proof_db \<Rightarrow> call_block \<Rightarrow> call_tx \<Rightarrow> nat \<Rightarrow>
     (call_error, execution_result) result \<times> 'bc proof_db" where
  "transact_call E db block tx gas =
     (let db = seed_block_hashes block db in
      (case transact E (database_of E db) (cfg_of block) (block_env_of block) (tx_env_of tx gas) of
         Inr res \<Rightarrow> Inr res
       | Inl (EvmDatabase e) \<Rightarrow> Inl e
       | Inl EvmTransaction \<Rightarrow> Inl (Invalid ''transaction'')
       | Inl EvmHeader \<Rightarrow> Inl (Invalid ''header'')
       | Inl EvmCustom \<Rightarrow> Inl (CallHalt ''custom''), db))"

fun execution_output :: "execution_result \<Rightarrow> (call_error, bytes) result" where
  "execution_output (ExSuccess g out) = Inr out"
| "execution_output (ExRevert g out) = Inl (CallRevert out)"
| "execution_output (ExHalt g reason) = Inl (CallHalt (halt_str reason))"

text \<open>\<open>?\<close> on a state-passing step.\<close>

definition then_step :: "('e, 'a) result \<times> 's \<Rightarrow> ('a \<Rightarrow> 's \<Rightarrow> ('e, 'b) result \<times> 's) \<Rightarrow> ('e, 'b) result \<times> 's" where
  "then_step r k = (case r of (Inl e, s) \<Rightarrow> (Inl e, s) | (Inr a, s) \<Rightarrow> k a s)"

fun keys_within_caps :: "nat \<Rightarrow> (bytes \<times> bytes list) list \<Rightarrow> (call_error, unit) result" where
  "keys_within_caps total_keys [] = Inr ()"
| "keys_within_caps total_keys ((address, slots) # al) =
     (if MAX_PROOF_STORAGE_KEYS < length slots then Inl (Invalid ''accessList too large'')
      else
        let total_keys = sat_add total_keys (length slots)
        in if MAX_PROOF_STORAGE_KEYS < total_keys then Inl (Invalid ''accessList too large'')
           else keys_within_caps total_keys al)"

definition access_list_within_caps :: "call_tx \<Rightarrow> (call_error, unit) result" where
  "access_list_within_caps tx =
     (if MAX_CALL_ACCOUNTS < length (ct_access_list tx) then Inl (Invalid ''accessList too large'')
      else keys_within_caps 0 (ct_access_list tx))"

fun seed_access_loop ::
    "('pk, 'sg) ext \<Rightarrow> 'bc evm \<Rightarrow> prover \<Rightarrow> call_block \<Rightarrow> (bytes \<times> bytes list) list \<Rightarrow> 'bc call_state \<Rightarrow>
     (call_error, unit) result \<times> 'bc call_state" where
  "seed_access_loop X E pv block [] s = (Inr (), s)"
| "seed_access_loop X E pv block ((address, slots) # al) s =
     (if precompile_kind E address (evm_spec_at (cb_timestamp block)) \<noteq> PK_Account
      then seed_access_loop X E pv block al s
      else then_step (fetch_and_load X E pv block address slots s) (\<lambda>_. seed_access_loop X E pv block al))"

definition seed_access_list ::
    "('pk, 'sg) ext \<Rightarrow> 'bc evm \<Rightarrow> prover \<Rightarrow> call_block \<Rightarrow> call_tx \<Rightarrow> 'bc call_state \<Rightarrow>
     (call_error, unit) result \<times> 'bc call_state" where
  "seed_access_list X E pv block tx s =
     (if ct_access_list tx = [] then (Inr (), s) else seed_access_loop X E pv block (ct_access_list tx) s)"

fun seed_accounts_loop ::
    "('pk, 'sg) ext \<Rightarrow> 'bc evm \<Rightarrow> prover \<Rightarrow> call_block \<Rightarrow> bytes list \<Rightarrow> bytes list \<Rightarrow> 'bc call_state \<Rightarrow>
     (call_error, unit) result \<times> 'bc call_state" where
  "seed_accounts_loop X E pv block seen [] s = (Inr (), s)"
| "seed_accounts_loop X E pv block seen (address # as) s =
     (if precompile_kind E address (evm_spec_at (cb_timestamp block)) \<noteq> PK_Account
      then seed_accounts_loop X E pv block seen as s
      else if address \<in> set seen then seed_accounts_loop X E pv block seen as s
      else then_step (fetch_and_load X E pv block address [] s)
             (\<lambda>_. seed_accounts_loop X E pv block (seen @ [address]) as))"

definition seed_call_accounts ::
    "('pk, 'sg) ext \<Rightarrow> 'bc evm \<Rightarrow> prover \<Rightarrow> call_block \<Rightarrow> call_tx \<Rightarrow> 'bc call_state \<Rightarrow>
     (call_error, unit) result \<times> 'bc call_state" where
  "seed_call_accounts X E pv block tx s =
     then_step (access_list_within_caps tx, s) (\<lambda>_ s.
     then_step (seed_accounts_loop X E pv block [] [ct_to tx, ct_from tx, cb_beneficiary block] s) (\<lambda>_ s.
       seed_access_list X E pv block tx s))"

definition slot_is_proven :: "'bc proof_db \<Rightarrow> bytes \<Rightarrow> bytes \<Rightarrow> bool" where
  "slot_is_proven db address slot =
     (case map_of (prd_accounts db) address of
        None \<Rightarrow> False
      | Some acc \<Rightarrow> pa_storage_root acc = EMPTY_TRIE_ROOT \<or> map_of (pa_storage acc) (be_nat slot) \<noteq> None)"

text \<open>One miss-retry: the round is counted, then the account and the missed slot are fetched.\<close>

definition answer_miss ::
    "('pk, 'sg) ext \<Rightarrow> 'bc evm \<Rightarrow> prover \<Rightarrow> call_block \<Rightarrow> bytes \<Rightarrow> bytes option \<Rightarrow> 'bc call_state \<Rightarrow>
     (call_error, unit) result \<times> 'bc call_state" where
  "answer_miss X E pv block address slot s =
     (if MAX_PROOF_ROUNDS \<le> cs_rounds s then (Inl Budget, s)
      else
        let s = s\<lparr>cs_rounds := cs_rounds s + 1\<rparr> in
        case slot of
          None \<Rightarrow> fetch_and_load X E pv block address [] s
        | Some sl \<Rightarrow>
            then_step (fetch_and_load X E pv block address [sl] s) (\<lambda>_ s.
              if \<not> slot_is_proven (cs_db s) address sl then (Inl (Missing (MissStorage address sl)), s)
              else (Inr (), s)))"

lemma fetch_and_load_rounds: "fetch_and_load X E pv block a slots s = (r, t) \<Longrightarrow> cs_rounds t = cs_rounds s"
  by (auto simp: fetch_and_load_def Let_def split: sum.splits prod.splits if_splits)

lemma then_step_Inr:
  "then_step r k = (Inr b, t) \<longleftrightarrow> (\<exists>a s. r = (Inr a, s) \<and> k a s = (Inr b, t))"
  by (auto simp: then_step_def split: prod.splits sum.splits)

lemma then_step_ok: "then_step (Inr a, s) k = k a s"
  by (simp add: then_step_def)

lemma answer_miss_rounds:
  assumes "answer_miss X E pv block a slot s = (Inr u, t)"
  shows "cs_rounds t = Suc (cs_rounds s)" "cs_rounds s < MAX_PROOF_ROUNDS"
  using assms
  by (auto simp: answer_miss_def then_step_Inr Let_def split: if_splits option.splits dest!: fetch_and_load_rounds)

lemma answer_miss_decreases:
  "answer_miss X E pv block a slot (s\<lparr>cs_db := db\<rparr>) = (Inr u, t) \<Longrightarrow>
     MAX_PROOF_ROUNDS - cs_rounds t < MAX_PROOF_ROUNDS - cs_rounds s"
  using answer_miss_rounds [of X E pv block a slot "s\<lparr>cs_db := db\<rparr>" u t] by simp

function transact_call_proven ::
    "('pk, 'sg) ext \<Rightarrow> 'bc evm \<Rightarrow> prover \<Rightarrow> call_block \<Rightarrow> call_tx \<Rightarrow> nat \<Rightarrow> 'bc call_state \<Rightarrow>
     (call_error, execution_result) result \<times> 'bc call_state" where
  "transact_call_proven X E pv block tx gas s =
     (let (res, db) = transact_call E (cs_db s) block tx gas; s' = s\<lparr>cs_db := db\<rparr> in
      case res of
        Inr r \<Rightarrow> (Inr r, s')
      | Inl (Missing (MissAccount a)) \<Rightarrow>
          (case answer_miss X E pv block a None s' of
             (Inl e, t) \<Rightarrow> (Inl e, t)
           | (Inr u, t) \<Rightarrow> transact_call_proven X E pv block tx gas t)
      | Inl (Missing (MissStorage a slot)) \<Rightarrow>
          (case answer_miss X E pv block a (Some slot) s' of
             (Inl e, t) \<Rightarrow> (Inl e, t)
           | (Inr u, t) \<Rightarrow> transact_call_proven X E pv block tx gas t)
      | Inl e \<Rightarrow> (Inl e, s'))"
  by pat_completeness auto

termination
proof (relation "measure (\<lambda>(X, E, pv, block, tx, gas, s). MAX_PROOF_ROUNDS - cs_rounds s)")
qed (auto dest!: sym [of _ "answer_miss _ _ _ _ _ _ _"] dest!: answer_miss_decreases)

declare transact_call_proven.simps [simp del]

definition eth_call_with_db :: "'bc evm \<Rightarrow> 'bc proof_db \<Rightarrow> call_block \<Rightarrow> call_tx \<Rightarrow> (call_error, bytes) result" where
  "eth_call_with_db E db block tx =
     (if MAX_CALL_DATA < length (ct_data tx) then Inl (Invalid ''calldata too large'')
      else rbind (fst (transact_call E (seed_block_hashes block db) block tx (call_gas tx block))) execution_output)"

definition call_start :: "'bc evm \<Rightarrow> call_block \<Rightarrow> 'bc call_state" where
  "call_start E block = \<lparr>cs_db = seed_block_hashes block (proof_db_new E), cs_rounds = 0, cs_calls = 0\<rparr>"

text \<open>The run with the state it ends in, and the result the function returns.\<close>

definition eth_call_run ::
    "('pk, 'sg) ext \<Rightarrow> 'bc evm \<Rightarrow> prover \<Rightarrow> call_block \<Rightarrow> call_tx \<Rightarrow> (call_error, bytes) result \<times> 'bc call_state" where
  "eth_call_run X E pv block tx =
     (if MAX_CALL_DATA < length (ct_data tx) then (Inl (Invalid ''calldata too large''), call_start E block)
      else then_step (seed_call_accounts X E pv block tx (call_start E block)) (\<lambda>_ s.
           then_step (transact_call_proven X E pv block tx (call_gas tx block) s) (\<lambda>r s.
             (execution_output r, s))))"

definition eth_call_verified ::
    "('pk, 'sg) ext \<Rightarrow> 'bc evm \<Rightarrow> prover \<Rightarrow> call_block \<Rightarrow> call_tx \<Rightarrow> (call_error, bytes) result" where
  "eth_call_verified X E pv block tx = fst (eth_call_run X E pv block tx)"

section \<open>Gas estimation\<close>

text \<open>The binary search loop: at most \<open>MAX_ESTIMATE_ITERS\<close> passes.\<close>

function estimate_loop ::
    "('pk, 'sg) ext \<Rightarrow> 'bc evm \<Rightarrow> prover \<Rightarrow> call_block \<Rightarrow> call_tx \<Rightarrow> nat \<Rightarrow> nat \<Rightarrow> nat \<Rightarrow> 'bc call_state \<Rightarrow>
     (call_error, nat) result \<times> 'bc call_state" where
  "estimate_loop X E pv block tx iters lo hi s =
     (if sat_add lo 1 < hi \<and> iters < MAX_ESTIMATE_ITERS then
        let mid = lo + (hi - lo) div 2;
            (res, s) = transact_call_proven X E pv block tx mid s in
        case res of
          Inr (ExSuccess gas_used out) \<Rightarrow>
            let hi = mid;
                hint = sat_sub gas_used 1;
                lo = (if lo < hint \<and> hint < hi then hint else lo)
            in estimate_loop X E pv block tx (iters + 1) lo hi s
        | Inr (ExRevert g out) \<Rightarrow> estimate_loop X E pv block tx (iters + 1) mid hi s
        | Inr (ExHalt g reason) \<Rightarrow> estimate_loop X E pv block tx (iters + 1) mid hi s
        | Inl (Invalid t) \<Rightarrow>
            if t = ''transaction'' then estimate_loop X E pv block tx (iters + 1) mid hi s
            else (Inl (Invalid t), s)
        | Inl (CallHalt t) \<Rightarrow> estimate_loop X E pv block tx (iters + 1) mid hi s
        | Inl e \<Rightarrow> (Inl e, s)
      else (Inr hi, s))"
  by pat_completeness auto

termination by (relation "measure (\<lambda>(X, E, pv, block, tx, iters, lo, hi, s). MAX_ESTIMATE_ITERS - iters)") auto

declare estimate_loop.simps [simp del]

definition estimate_gas_search ::
    "('pk, 'sg) ext \<Rightarrow> 'bc evm \<Rightarrow> prover \<Rightarrow> call_block \<Rightarrow> call_tx \<Rightarrow> 'bc call_state \<Rightarrow>
     (call_error, nat) result \<times> 'bc call_state" where
  "estimate_gas_search X E pv block tx s =
     (let hi_cap = call_gas tx block in
      if hi_cap < TX_GAS then (Inl (CallHalt ''out of gas''), s)
      else then_step (transact_call_proven X E pv block tx hi_cap s) (\<lambda>cap_res s.
        case cap_res of
          ExSuccess gas_used out \<Rightarrow> estimate_loop X E pv block tx 0 (sat_sub gas_used 1) hi_cap s
        | ExRevert g out \<Rightarrow> (Inl (CallRevert out), s)
        | ExHalt g reason \<Rightarrow> (Inl (CallHalt (halt_str reason)), s)))"

definition estimate_run ::
    "('pk, 'sg) ext \<Rightarrow> 'bc evm \<Rightarrow> prover \<Rightarrow> call_block \<Rightarrow> call_tx \<Rightarrow> (call_error, nat) result \<times> 'bc call_state" where
  "estimate_run X E pv block tx =
     (if MAX_CALL_DATA < length (ct_data tx) then (Inl (Invalid ''calldata too large''), call_start E block)
      else then_step (seed_call_accounts X E pv block tx (call_start E block)) (\<lambda>_ s.
           estimate_gas_search X E pv block tx s))"

definition eth_estimate_gas_verified ::
    "('pk, 'sg) ext \<Rightarrow> 'bc evm \<Rightarrow> prover \<Rightarrow> call_block \<Rightarrow> call_tx \<Rightarrow> (call_error, nat) result" where
  "eth_estimate_gas_verified X E pv block tx = fst (estimate_run X E pv block tx)"

section \<open>Resources one request can use\<close>

lemma length_update: "length (AList.update k v xs) = (if k \<in> fst ` set xs then length xs else Suc (length xs))"
  by (induction xs) (auto split: prod.splits)

lemma set_update: "x \<in> set (AList.update k v xs) \<Longrightarrow> x = (k, v) \<or> x \<in> set xs"
  by (induction xs) (auto split: if_splits prod.splits)

definition db_within_caps :: "'bc proof_db \<Rightarrow> bool" where
  "db_within_caps db \<longleftrightarrow> length (prd_accounts db) \<le> MAX_CALL_ACCOUNTS \<and>
     list_all (\<lambda>(a, p). length (pa_storage p) \<le> MAX_PROOF_STORAGE_KEYS) (prd_accounts db)"

lemma seed_block_hashes_simps [simp]:
  "prd_accounts (seed_block_hashes block db) = prd_accounts db" "prd_codes (seed_block_hashes block db) = prd_codes db"
  "prd_spec (seed_block_hashes block db) = evm_spec_at (cb_timestamp block)"
  "prd_block_number (seed_block_hashes block db) = cb_number block"
  "db_within_caps (seed_block_hashes block db) \<longleftrightarrow> db_within_caps db"
  "seed_block_hashes block (seed_block_hashes block db) = seed_block_hashes block db"
  by (simp_all add: seed_block_hashes_def db_within_caps_def)

lemma load_slots_cap:
  "load_slots X va pr es stor = Inr stor' \<Longrightarrow> length stor \<le> MAX_PROOF_STORAGE_KEYS \<Longrightarrow> length stor' \<le> MAX_PROOF_STORAGE_KEYS"
proof (induction es arbitrary: stor)
  case (Cons e es)
  obtain key val where k: "\<not> (MAX_PROOF_STORAGE_KEYS \<le> length stor \<and> map_of stor (be_nat key) = None)"
    "load_slots X va pr es (AList.update (be_nat key) (be_nat (pad32 val)) stor) = Inr stor'"
    using Cons.prems(1) by (auto simp: res_simps split: if_splits)
  have "length (AList.update (be_nat key) (be_nat (pad32 val)) stor) \<le> MAX_PROOF_STORAGE_KEYS"
    using k(1) Cons.prems(2) by (auto simp: length_update map_of_eq_None_iff)
  then show ?case using Cons.IH k(2) by blast
qed simp

lemma load_Inr:
  assumes "load_proven_account X E db root a pr code = Inr db'"
  obtains va stor where "verify_eth_get_proof X root a pr = Inr va" "verify_account_code X va code = Inr ()"
    "map_of (prd_accounts db) a = None \<Longrightarrow> length (prd_accounts db) < MAX_CALL_ACCOUNTS"
    "load_storage X va pr (known_storage db a) = Inr stor" "db' = store_account E db a va code stor"
  using assms by (auto simp: load_proven_account_def res_simps not_le split: if_splits)

lemma load_within_caps:
  assumes "load_proven_account X E db root a pr code = Inr db'" "db_within_caps db"
  shows "db_within_caps db'"
proof -
  have old: "length (known_storage db a) \<le> MAX_PROOF_STORAGE_KEYS"
    using assms(2) by (auto simp: db_within_caps_def known_storage_def list_all_iff split: option.split dest: map_of_SomeD)
  from assms(1) show ?thesis
  proof (rule load_Inr)
    fix va stor
    assume *: "map_of (prd_accounts db) a = None \<Longrightarrow> length (prd_accounts db) < MAX_CALL_ACCOUNTS"
      "load_storage X va pr (known_storage db a) = Inr stor" "db' = store_account E db a va code stor"
    have "length stor \<le> MAX_PROOF_STORAGE_KEYS"
      using *(2) old load_slots_cap by (auto simp: load_storage_def split: if_splits)
    moreover have "length (prd_accounts db') \<le> MAX_CALL_ACCOUNTS"
      using * assms(2) by (auto simp: db_within_caps_def store_account_def Let_def length_update map_of_eq_None_iff Suc_le_eq)
    ultimately show ?thesis
      using *(3) assms(2) by (auto simp: db_within_caps_def store_account_def Let_def list_all_iff dest!: set_update)
  qed
qed

text \<open>
  What a step may spend: calls of the proof source are paid for by rounds, two each, and the caps hold.
\<close>

definition spent :: "nat \<Rightarrow> 'bc call_state \<Rightarrow> 'bc call_state \<Rightarrow> bool" where
  "spent k s t \<longleftrightarrow> cs_calls t + 2 * cs_rounds s \<le> cs_calls s + 2 * cs_rounds t + k \<and>
     (cs_rounds s \<le> MAX_PROOF_ROUNDS \<longrightarrow> cs_rounds t \<le> MAX_PROOF_ROUNDS) \<and>
     (db_within_caps (cs_db s) \<longrightarrow> db_within_caps (cs_db t))"

lemma spent_refl [simp]: "spent k s s" by (simp add: spent_def)

lemma spent_trans: "spent k s t \<Longrightarrow> spent l t u \<Longrightarrow> spent (k + l) s u" by (auto simp: spent_def)

lemma spent_mono: "spent k s t \<Longrightarrow> k \<le> l \<Longrightarrow> spent l s t" by (auto simp: spent_def)

lemma spent_then_step:
  assumes "spent k s (snd r)" "\<And>a t. r = (Inr a, t) \<Longrightarrow> spent l t (snd (f a t))"
  shows "spent (k + l) s (snd (then_step r f))"
  using assms by (auto simp: then_step_def split: prod.splits sum.splits intro: spent_mono spent_trans)

lemma spent_then_check:
  "spent k s (snd r) \<Longrightarrow> (\<And>a t. spent 0 t (snd (f a t))) \<Longrightarrow> spent k s (snd (then_step r f))"
  using spent_then_step [of k s r 0 f] by simp

lemma fetch_spent: "spent 2 s (snd (fetch_and_load X E pv block a slots s))"
  by (auto simp: fetch_and_load_def spent_def Let_def res_simps split: sum.splits prod.splits if_splits
      elim!: load_within_caps)

lemma spent_round:
  assumes "spent 2 (s\<lparr>cs_rounds := cs_rounds s + 1\<rparr>) t" "cs_rounds s < MAX_PROOF_ROUNDS"
  shows "spent 0 s t"
  using assms by (auto simp: spent_def)

lemma answer_miss_spent: "spent 0 s (snd (answer_miss X E pv block a slot s))"
proof (cases "MAX_PROOF_ROUNDS \<le> cs_rounds s")
  case False
  let ?s = "s\<lparr>cs_rounds := cs_rounds s + 1\<rparr>"
  have f: "spent 2 ?s (snd (fetch_and_load X E pv block a slots ?s))" for slots by (rule fetch_spent)
  have "spent 2 ?s (snd (answer_miss X E pv block a slot s))"
    using False f by (auto simp: answer_miss_def Let_def split: option.split intro!: spent_then_check)
  then show ?thesis using False by (intro spent_round) simp_all
qed (simp add: answer_miss_def)

lemma transact_call_db [simp]: "snd (transact_call E db block tx gas) = seed_block_hashes block db"
  by (simp add: transact_call_def Let_def)

lemma transact_spent: "spent 0 s (snd (transact_call_proven X E pv block tx gas s))"
proof (induction X E pv block tx gas s rule: transact_call_proven.induct)
  case (1 X E pv block tx gas s)
  obtain res db where r: "transact_call E (cs_db s) block tx gas = (res, db)" by fastforce
  have db: "db = seed_block_hashes block (cs_db s)" using transact_call_db [of E "cs_db s" block tx gas] r by simp
  then have s: "spent 0 s (s\<lparr>cs_db := db\<rparr>)" by (simp add: spent_def)
  have m: "spent 0 s (snd (answer_miss X E pv block a slot (s\<lparr>cs_db := db\<rparr>)))" for a slot
    using spent_trans [OF s answer_miss_spent] by simp
  have rec: "spent 0 s (snd (case answer_miss X E pv block a slot (s\<lparr>cs_db := db\<rparr>) of
       (Inl e, t) \<Rightarrow> (Inl e, t) | (Inr u, t) \<Rightarrow> transact_call_proven X E pv block tx gas t))"
    if "\<And>t. answer_miss X E pv block a slot (s\<lparr>cs_db := db\<rparr>) = (Inr (), t) \<Longrightarrow>
        spent 0 t (snd (transact_call_proven X E pv block tx gas t))" for a slot
    using m [of a slot] that spent_trans [of 0 s _ 0]
    by (auto split: prod.split sum.split)
  show ?case
    unfolding transact_call_proven.simps [of X E pv block tx gas s] r Let_def
    using s rec 1 r by (auto split: sum.split call_error.split miss.split)
qed

lemma seed_access_spent: "spent (2 * length al) s (snd (seed_access_loop X E pv block al s))"
proof (induction al arbitrary: s)
  case (Cons p al)
  obtain a slots where p: "p = (a, slots)" by fastforce
  have "spent (2 + 2 * length al) s (snd (then_step (fetch_and_load X E pv block a slots s)
          (\<lambda>_. seed_access_loop X E pv block al)))"
    by (rule spent_then_step [OF fetch_spent Cons.IH])
  moreover have "spent (2 + 2 * length al) s (snd (seed_access_loop X E pv block al s))"
    using Cons.IH by (rule spent_mono) simp
  ultimately show ?case by (simp add: p)
qed simp

lemma seed_accounts_spent: "spent (2 * length as) s (snd (seed_accounts_loop X E pv block seen as s))"
proof (induction as arbitrary: s seen)
  case (Cons a as)
  have "spent (2 + 2 * length as) s (snd (then_step (fetch_and_load X E pv block a [] s)
          (\<lambda>_. seed_accounts_loop X E pv block (seen @ [a]) as)))"
    by (rule spent_then_step [OF fetch_spent Cons.IH])
  moreover have "spent (2 + 2 * length as) s (snd (seed_accounts_loop X E pv block seen as s))"
    using Cons.IH by (rule spent_mono) simp
  ultimately show ?case by simp
qed simp

lemma seed_spent: "spent (6 + 2 * MAX_CALL_ACCOUNTS) s (snd (seed_call_accounts X E pv block tx s))"
proof (cases "access_list_within_caps tx")
  case (Inr u)
  then have len: "length (ct_access_list tx) \<le> MAX_CALL_ACCOUNTS"
    by (simp add: access_list_within_caps_def not_less split: if_splits)
  have al: "spent (2 * MAX_CALL_ACCOUNTS) t (snd (seed_access_list X E pv block tx t))" for t
    using len by (auto simp: seed_access_list_def intro!: spent_mono [OF seed_access_spent])
  have "spent (2 * length [ct_to tx, ct_from tx, cb_beneficiary block] + 2 * MAX_CALL_ACCOUNTS) s
     (snd (seed_call_accounts X E pv block tx s))"
    unfolding seed_call_accounts_def Inr then_step_ok by (rule spent_then_step [OF seed_accounts_spent al])
  then show ?thesis by (rule spent_mono) simp
qed (simp add: seed_call_accounts_def then_step_def)

lemma estimate_loop_spent: "spent 0 s (snd (estimate_loop X E pv block tx iters lo hi s))"
proof (induction X E pv block tx iters lo hi s rule: estimate_loop.induct)
  case (1 X E pv block tx iters lo hi s)
  let ?mid = "lo + (hi - lo) div 2"
  obtain res t where r: "transact_call_proven X E pv block tx ?mid s = (res, t)" by fastforce
  have t: "spent 0 s t" using transact_spent [of s X E pv block tx ?mid] r by simp
  have rec: "spent 0 t u \<Longrightarrow> spent 0 s u" for u using spent_trans [OF t] by fastforce
  show ?case
    unfolding estimate_loop.simps [of X E pv block tx iters lo hi s] r Let_def
    using t rec 1 r by (auto split: sum.split call_error.split execution_result.split)
qed

lemma start_within [simp]:
  "db_within_caps (cs_db (call_start E block))" "cs_rounds (call_start E block) = 0" "cs_calls (call_start E block) = 0"
  by (simp_all add: call_start_def) (simp add: db_within_caps_def proof_db_new_def)

definition within_resources :: "'bc call_state \<Rightarrow> bool" where
  "within_resources s \<longleftrightarrow> cs_calls s \<le> 86 \<and> cs_rounds s \<le> MAX_PROOF_ROUNDS \<and> db_within_caps (cs_db s)"

lemma spent_resources:
  "spent (6 + 2 * MAX_CALL_ACCOUNTS) (call_start E block) s \<Longrightarrow> within_resources s"
  by (simp add: spent_def within_resources_def MAX_CALL_ACCOUNTS_def MAX_PROOF_ROUNDS_def)

text \<open>
  C17. One \<open>eth_call\<close> or \<open>eth_estimateGas\<close> has a fixed budget whatever the proof source answers and whatever
  the EVM asks for: at most 86 calls of the proof source in all (one \<open>get_proof\<close> and one \<open>get_code\<close> for each of the
  three seeded accounts, of the 32 access-list accounts and of the 8 miss rounds, which the gas search shares over
  all its executions), at most 32 accounts loaded, at most 64 storage slots of each. What is counted are the calls of
  \<open>ProveAtSafe\<close>, not HTTP requests: behind one call the client may make several.
\<close>

theorem call_resources_bounded:
  "within_resources (snd (eth_call_run X E pv block tx)) \<and> within_resources (snd (estimate_run X E pv block tx))"
proof (intro conjI)
  note seed = spent_then_check [OF seed_spent]
  show "within_resources (snd (eth_call_run X E pv block tx))"
    unfolding eth_call_run_def
    by (auto intro!: spent_resources [of E block] seed spent_then_check transact_spent)
  have "spent 0 s (snd (estimate_gas_search X E pv block tx s))" for s
    unfolding estimate_gas_search_def Let_def
    by (auto intro!: spent_then_check transact_spent estimate_loop_spent split: execution_result.split)
  then show "within_resources (snd (estimate_run X E pv block tx))"
    unfolding estimate_run_def by (auto intro!: spent_resources [of E block] seed)
qed

end
