(* ===== verification/Call_Sound.thy ===== *)
theory Call_Sound
  imports Call
begin

text \<open>
  What a verified call returns (\<open>helios-bsc-execution/src/call.rs\<close>): the outcome of executing the
  transaction on the state the block's root commits to, whatever the upstream answered. The
  specification is a database that holds that state; the loop over partial databases refines
  one execution on it.
\<close>

section \<open>The EVM reads a database\<close>

text \<open>\<open>D'\<close> answers everything \<open>D\<close> answers, the same way.\<close>

definition db_le :: "'bc database \<Rightarrow> 'bc database \<Rightarrow> bool" where
  "db_le D D' \<longleftrightarrow>
     (\<forall>a v. db_basic D a = Inr v \<longrightarrow> db_basic D' a = Inr v) \<and>
     (\<forall>h c. db_code_by_hash D h = Inr c \<longrightarrow> db_code_by_hash D' h = Inr c) \<and>
     (\<forall>a i v. db_storage D a i = Inr v \<longrightarrow> db_storage D' a i = Inr v) \<and>
     (\<forall>n h. db_block_hash D n = Inr h \<longrightarrow> db_block_hash D' n = Inr h)"

definition db_error :: "'bc database \<Rightarrow> call_error \<Rightarrow> bool" where
  "db_error D e \<longleftrightarrow> (\<exists>a. db_basic D a = Inl e) \<or> (\<exists>h. db_code_by_hash D h = Inl e) \<or>
     (\<exists>a i. db_storage D a i = Inl e) \<or> (\<exists>n. db_block_hash D n = Inl e)"

text \<open>
  Documented behaviour of \<open>revm\<close>: the state is read through the \<open>Database\<close> trait only; the first
  read that fails aborts the execution with \<open>EVMError::Database\<close> carrying the error of that read.
\<close>

definition evm_reads :: "'bc evm \<Rightarrow> bool" where
  "evm_reads E \<longleftrightarrow>
     (\<forall>D D' c b t. db_le D D' \<and> (\<forall>e. transact E D c b t \<noteq> Inl (EvmDatabase e)) \<longrightarrow>
        transact E D' c b t = transact E D c b t) \<and>
     (\<forall>D c b t e. transact E D c b t = Inl (EvmDatabase e) \<longrightarrow> db_error D e)"

section \<open>The state behind a root\<close>

text \<open>
  \<open>D\<close> holds the state of the block: every proof that verifies against its state root says what
  \<open>D\<close> says, code goes by its hash, block hashes are those of the verified headers.
\<close>

definition holds_accounts :: "('pk, 'sg) ext \<Rightarrow> 'bc evm \<Rightarrow> call_block \<Rightarrow> 'bc database \<Rightarrow> bool" where
  "holds_accounts X E block D \<longleftrightarrow>
     (\<forall>a. precompile_kind E a (evm_spec_at (cb_timestamp block)) = PK_Local \<longrightarrow>
        db_basic D a = Inr (Some (default_info E))) \<and>
     (\<forall>a pr v code. precompile_kind E a (evm_spec_at (cb_timestamp block)) = PK_Account \<and>
        verify_eth_get_proof X (cb_state_root block) a pr = Inr v \<and> verify_account_code X v code = Inr () \<longrightarrow>
        db_basic D a = Inr (Some (info_of E v code)))"

definition holds_storage :: "('pk, 'sg) ext \<Rightarrow> call_block \<Rightarrow> 'bc database \<Rightarrow> bool" where
  "holds_storage X block D \<longleftrightarrow>
     (\<forall>a pr v. verify_eth_get_proof X (cb_state_root block) a pr = Inr v \<longrightarrow>
        (va_storage_root v = EMPTY_TRIE_ROOT \<longrightarrow> (\<forall>i. db_storage D a i = Inr 0)) \<and>
        (\<forall>slot w. length slot = 32 \<and> verify_storage_slot X v slot pr = Inr w \<longrightarrow>
           db_storage D a (be_nat slot) = Inr (be_nat (pad32 w))))"

definition holds_code :: "('pk, 'sg) ext \<Rightarrow> 'bc evm \<Rightarrow> call_block \<Rightarrow> 'bc database \<Rightarrow> bool" where
  "holds_code X E block D \<longleftrightarrow>
     db_code_by_hash D EMPTY_CODE_HASH = Inr (bc_new E) \<and>
     (\<forall>a pr v code. verify_eth_get_proof X (cb_state_root block) a pr = Inr v \<and>
        verify_account_code X v code = Inr () \<and> va_code_hash v \<noteq> EMPTY_CODE_HASH \<longrightarrow>
        db_code_by_hash D (va_code_hash v) = Inr (bytecode_of E code))"

definition holds_block_hashes :: "call_block \<Rightarrow> 'bc database \<Rightarrow> bool" where
  "holds_block_hashes block D \<longleftrightarrow>
     (\<forall>n. cb_number block \<le> n \<or> sat_add n BLOCKHASH_WINDOW < cb_number block \<longrightarrow> db_block_hash D n = Inr (zeros 32)) \<and>
     (\<forall>n h. n < cb_number block \<and> cb_number block \<le> sat_add n BLOCKHASH_WINDOW \<and>
        (n, h) \<in> set (take BLOCKHASH_WINDOW (cb_historical_hashes block)) \<longrightarrow> db_block_hash D n = Inr h)"

definition holds_state :: "('pk, 'sg) ext \<Rightarrow> 'bc evm \<Rightarrow> call_block \<Rightarrow> 'bc database \<Rightarrow> bool" where
  "holds_state X E block D \<longleftrightarrow>
     holds_accounts X E block D \<and> holds_storage X block D \<and> holds_code X E block D \<and> holds_block_hashes block D"

text \<open>Executing the call on a database, as \<open>transact_call\<close> sets it up.\<close>

definition run_on :: "'bc evm \<Rightarrow> 'bc database \<Rightarrow> call_block \<Rightarrow> call_tx \<Rightarrow> nat \<Rightarrow> (evm_error, execution_result) result" where
  "run_on E D block tx gas = transact E D (cfg_of block) (block_env_of block) (tx_env_of tx gas)"

text \<open>
  The prover reports transport and proof failures; it does not pretend to be the EVM.
\<close>

fun evm_verdict :: "call_error \<Rightarrow> bool" where
  "evm_verdict (CallRevert out) = True"
| "evm_verdict (CallHalt t) = True"
| "evm_verdict (Invalid t) = (t = ''transaction'')"
| "evm_verdict _ = False"

definition prover_errors_ok :: "prover \<Rightarrow> bool" where
  "prover_errors_ok pv \<longleftrightarrow>
     (\<forall>n a slots h k e. pv_get_proof pv n a slots h k = Inl e \<longrightarrow> \<not> evm_verdict e) \<and>
     (\<forall>n a h k e. pv_get_code pv n a h k = Inl e \<longrightarrow> \<not> evm_verdict e)"

section \<open>Every loaded database is a part of the state\<close>

definition backed :: "'bc evm \<Rightarrow> call_block \<Rightarrow> 'bc database \<Rightarrow> 'bc proof_db \<Rightarrow> bool" where
  "backed E block D db \<longleftrightarrow> db_le (database_of E (seed_block_hashes block db)) D"

lemma backed_seed [simp]: "backed E block D (seed_block_hashes block db) \<longleftrightarrow> backed E block D db"
  by (simp add: backed_def)

lemma map_of_fold_update:
  "map_of (fold (\<lambda>(n, h) m. AList.update n h m) xs m) k = Some v \<Longrightarrow> map_of m k = Some v \<or> (k, v) \<in> set xs"
proof (induction xs arbitrary: m)
  case (Cons x xs)
  then show ?case by (cases x) (fastforce simp: update_conv' split: if_splits)
qed simp

lemma backed_iff:
  "backed E block D db \<longleftrightarrow>
     (\<forall>a v. basic E (seed_block_hashes block db) a = Inr v \<longrightarrow> db_basic D a = Inr v) \<and>
     (\<forall>h c. code_by_hash E db h = Inr c \<longrightarrow> db_code_by_hash D h = Inr c) \<and>
     (\<forall>a i v. storage db a i = Inr v \<longrightarrow> db_storage D a i = Inr v) \<and>
     (\<forall>n h. block_hash (seed_block_hashes block db) n = Inr h \<longrightarrow> db_block_hash D n = Inr h)"
  by (simp add: backed_def db_le_def database_of_def code_by_hash_def storage_def)

lemma block_hash_seed: "block_hash (seed_block_hashes block db) = block_hash (seed_block_hashes block db')"
  by (rule ext) (simp add: block_hash_def seed_block_hashes_def)

lemma backed_new:
  assumes "holds_state X E block D"
  shows "backed E block D (proof_db_new E)"
proof -
  have "db_block_hash D n = Inr h" if "block_hash (seed_block_hashes block (proof_db_new E)) n = Inr h" for n h
    using that assms map_of_fold_update [of "take BLOCKHASH_WINDOW (cb_historical_hashes block)" "[]" n h]
    by (auto simp: block_hash_def seed_block_hashes_def holds_state_def holds_block_hashes_def not_le not_less
        split: if_splits option.splits)
  then show ?thesis
    using assms
    by (auto simp: backed_iff basic_def code_by_hash_def storage_def proof_db_new_def holds_state_def holds_accounts_def
        holds_code_def split: precompile_kind_t.splits if_splits)
qed

lemma length_pad32 [simp]: "length (pad32 b) = 32"
  by (simp add: pad32_def Let_def zeros_def)

lemma decode_slot_key_length: "decode_slot_key X k = Inr slot \<Longrightarrow> length slot = 32"
  by (auto simp: decode_slot_key_def res_simps Let_def split: if_splits)

lemma load_slots_all:
  assumes "\<And>key w. length key = 32 \<Longrightarrow> verify_storage_slot X va key pr = Inr w \<Longrightarrow> Q (be_nat key) (be_nat (pad32 w))"
    and "load_slots X va pr es stor = Inr stor'" "\<And>i v. map_of stor i = Some v \<Longrightarrow> Q i v"
  shows "map_of stor' i = Some v \<Longrightarrow> Q i v"
  using assms(2,3)
proof (induction es arbitrary: stor)
  case (Cons e es)
  obtain key w where k: "decode_slot_key X (se_key e) = Inr key" "verify_storage_slot X va key pr = Inr w"
    "load_slots X va pr es (AList.update (be_nat key) (be_nat (pad32 w)) stor) = Inr stor'"
    using Cons.prems(2) by (auto simp: res_simps split: if_splits)
  have "Q (be_nat key) (be_nat (pad32 w))" using assms(1) k(1,2) decode_slot_key_length by blast
  then have "Q j u" if "map_of (AList.update (be_nat key) (be_nat (pad32 w)) stor) j = Some u" for j u
    using that Cons.prems(3) by (simp add: update_conv' split: if_splits)
  then show ?case by (rule Cons.IH [OF Cons.prems(1) k(3)])
qed simp

lemma load_backed:
  assumes "load_proven_account X E db (cb_state_root block) a pr code = Inr db'"
    and "backed E block D db" "holds_state X E block D"
  shows "backed E block D db'"
  using assms(1)
proof (rule load_Inr)
  fix va stor
  assume va: "verify_eth_get_proof X (cb_state_root block) a pr = Inr va" "verify_account_code X va code = Inr ()"
    and stor: "load_storage X va pr (known_storage db a) = Inr stor" and db': "db' = store_account E db a va code stor"
  have known: "db_storage D a i = Inr v" if "map_of (known_storage db a) i = Some v" for i v
    using assms(2) that by (auto simp: backed_iff storage_def known_storage_def split: option.splits)
  have slots: "db_storage D a i = Inr v" if "map_of stor i = Some v" for i v
  proof (cases "va_storage_root va = EMPTY_TRIE_ROOT")
    case False
    then show ?thesis
      using load_slots_all [of X va pr "\<lambda>i v. db_storage D a i = Inr v" _ _ stor, OF _ _ known that] stor va(1) assms(3)
      by (auto simp: load_storage_def holds_state_def holds_storage_def)
  qed (use stor known that in \<open>simp add: load_storage_def\<close>)
  have acc: "prd_accounts db' = AList.update a
      \<lparr>pa_info = info_of E va code, pa_storage_root = va_storage_root va, pa_storage = stor\<rparr> (prd_accounts db)"
    by (simp add: db' store_account_def Let_def)
  have "db_basic D b = Inr v" if "basic E (seed_block_hashes block db') b = Inr v" for b v
    using that assms(2,3) va
    by (auto simp: acc basic_def update_conv' backed_iff holds_state_def holds_accounts_def
        split: precompile_kind_t.splits if_splits option.splits)
  moreover have "db_storage D b i = Inr v" if "storage db' b i = Inr v" for b i v
    using that assms(2,3) va slots
    by (auto simp: acc storage_def update_conv' backed_iff holds_state_def holds_storage_def split: if_splits option.splits)
  moreover have "db_code_by_hash D h = Inr c" if "code_by_hash E db' h = Inr c" for h c
    using that assms(2,3) va
    by (auto simp: db' store_account_def code_by_hash_def update_conv' backed_iff holds_state_def holds_code_def Let_def
        split: if_splits option.splits)
  ultimately show ?thesis
    using assms(2) block_hash_seed [of block db' db] by (simp add: backed_iff)
qed

lemma fetch_backed:
  assumes "holds_state X E block D" "backed E block D (cs_db s)"
  shows "backed E block D (cs_db (snd (fetch_and_load X E pv block a slots s)))"
  using assms
  by (auto simp: fetch_and_load_def Let_def res_simps split: sum.splits prod.splits if_splits elim!: load_backed)

lemma backed_then_step:
  assumes "backed E block D (cs_db (snd r))"
    and "\<And>a t. r = (Inr a, t) \<Longrightarrow> backed E block D (cs_db t) \<Longrightarrow> backed E block D (cs_db (snd (f a t)))"
  shows "backed E block D (cs_db (snd (then_step r f)))"
  using assms by (auto simp: then_step_def split: prod.splits sum.splits)

lemma seed_access_backed:
  assumes "holds_state X E block D"
  shows "backed E block D (cs_db s) \<Longrightarrow> backed E block D (cs_db (snd (seed_access_loop X E pv block al s)))"
proof (induction al arbitrary: s)
  case (Cons p al)
  then show ?case
    using assms by (cases p) (auto intro!: backed_then_step fetch_backed)
qed simp

lemma seed_accounts_backed:
  assumes "holds_state X E block D"
  shows "backed E block D (cs_db s) \<Longrightarrow> backed E block D (cs_db (snd (seed_accounts_loop X E pv block seen as s)))"
proof (induction as arbitrary: s seen)
  case (Cons a as)
  then show ?case
    using assms by (auto intro!: backed_then_step fetch_backed)
qed simp

lemma seed_backed:
  assumes "holds_state X E block D"
  shows "backed E block D (cs_db (snd (seed_call_accounts X E pv block tx (call_start E block))))"
  using backed_new [OF assms] unfolding seed_call_accounts_def
  by (intro backed_then_step)
     (simp_all add: call_start_def seed_access_list_def seed_access_backed [OF assms] seed_accounts_backed [OF assms]
       del: seed_accounts_loop.simps)

lemma answer_miss_backed:
  assumes "holds_state X E block D" "backed E block D (cs_db s)"
  shows "backed E block D (cs_db (snd (answer_miss X E pv block a slot s)))"
  using assms fetch_backed [OF assms(1), of "s\<lparr>cs_rounds := cs_rounds s + 1\<rparr>" pv a]
  by (auto simp: answer_miss_def Let_def split: option.split intro!: backed_then_step)

section \<open>One execution on the state\<close>

text \<open>What a finished \<open>transact_call_proven\<close> says about the execution on the state.\<close>

definition says :: "'bc evm \<Rightarrow> 'bc database \<Rightarrow> call_block \<Rightarrow> call_tx \<Rightarrow> nat \<Rightarrow> (call_error, execution_result) result \<Rightarrow> bool" where
  "says E D block tx gas res \<longleftrightarrow>
     (\<forall>x. res = Inr x \<longrightarrow> run_on E D block tx gas = Inr x) \<and>
     (\<forall>e. res = Inl e \<and> evm_verdict e \<longrightarrow> (\<exists>e'. run_on E D block tx gas = Inl e') \<and> (\<forall>out. e \<noteq> CallRevert out))"

lemma transact_call_sound:
  assumes E: "evm_reads E" and b: "backed E block D db"
    and r: "fst (transact_call E db block tx gas) = res"
  shows "says E D block tx gas res"
proof -
  let ?db = "database_of E (seed_block_hashes block db)"
  let ?r = "run_on E ?db block tx gas"
  have eq: "run_on E D block tx gas = ?r" if "\<forall>e. ?r \<noteq> Inl (EvmDatabase e)"
    using E b that by (auto simp: evm_reads_def backed_def run_on_def)
  have err: "\<not> evm_verdict e" if "?r = Inl (EvmDatabase e)" for e
  proof -
    have "db_error ?db e" using E that by (auto simp: evm_reads_def run_on_def)
    then show ?thesis
      by (auto simp: db_error_def database_of_def basic_def code_by_hash_def storage_def block_hash_def
          split: precompile_kind_t.splits option.splits if_splits)
        (metis precompile_kind_t.exhaust)+
  qed
  have res: "res = (case ?r of Inr x \<Rightarrow> Inr x | Inl (EvmDatabase e) \<Rightarrow> Inl e | Inl EvmTransaction \<Rightarrow> Inl (Invalid ''transaction'')
       | Inl EvmHeader \<Rightarrow> Inl (Invalid ''header'') | Inl EvmCustom \<Rightarrow> Inl (CallHalt ''custom''))"
    using r by (simp add: transact_call_def Let_def run_on_def)
  show ?thesis
    using eq err res by (auto simp: says_def split: sum.splits evm_error.splits)
qed

lemma says_no_verdict: "\<not> evm_verdict e \<Longrightarrow> says E D block tx gas (Inl e)"
  by (simp add: says_def)

definition no_verdict :: "(call_error, 'a) result \<Rightarrow> bool" where
  "no_verdict r \<longleftrightarrow> (\<forall>e. r = Inl e \<longrightarrow> \<not> evm_verdict e)"

lemma no_verdict_simps [simp]:
  "no_verdict (Inr a)" "no_verdict (Inl e) \<longleftrightarrow> \<not> evm_verdict e"
  "no_verdict (map_err CallProof q)" "no_verdict (map_ok g r) \<longleftrightarrow> no_verdict r"
  by (auto simp: no_verdict_def map_err_def map_ok_def split: sum.splits)

lemma no_verdict_rbind: "no_verdict r \<Longrightarrow> (\<And>a. r = Inr a \<Longrightarrow> no_verdict (f a)) \<Longrightarrow> no_verdict (rbind r f)"
  by (auto simp: rbind_def split: sum.splits)

lemma no_verdict_then:
  "no_verdict (fst r) \<Longrightarrow> (\<And>a t. r = (Inr a, t) \<Longrightarrow> no_verdict (fst (f a t))) \<Longrightarrow> no_verdict (fst (then_step r f))"
  by (auto simp: then_step_def split: prod.splits sum.splits)

lemma load_slots_no_verdict: "no_verdict (load_slots X va pr es stor)"
  by (induction es arbitrary: stor) (auto intro!: no_verdict_rbind)

lemma load_no_verdict: "no_verdict (load_proven_account X E db root a pr code)"
  by (auto simp: load_proven_account_def load_storage_def load_slots_no_verdict intro!: no_verdict_rbind)

lemma fetch_no_verdict:
  assumes "prover_errors_ok pv"
  shows "no_verdict (fst (fetch_and_load X E pv block a slots s))"
proof -
  have p: "no_verdict (pv_get_proof pv n a slots h k)" "no_verdict (pv_get_code pv n a h k)" for n h k
    using assms by (auto simp: prover_errors_ok_def no_verdict_def)
  have "no_verdict (rbind (pv_get_proof pv n a slots h k) (\<lambda>pr. map_ok (Pair pr) (map_err CallProof (q pr))))"
    for n h k and q :: "eth_account_proof \<Rightarrow> (proof_error, verified_account) result"
    by (rule no_verdict_rbind) (simp_all add: p)
  moreover have "no_verdict (rbind (pv_get_code pv n a h k) (load_proven_account X E db root a pr))" for n h k db root pr
    by (rule no_verdict_rbind) (simp_all add: p load_no_verdict)
  moreover have "no_verdict (load_proven_account X E db root a pr [])" for db root pr by (rule load_no_verdict)
  ultimately show ?thesis
    by (auto simp: fetch_and_load_def Let_def no_verdict_def rbind_def [of "Inr []"] split: sum.splits prod.splits if_splits)
qed

lemma seed_no_verdict:
  assumes pv: "prover_errors_ok pv"
  shows "no_verdict (fst (seed_call_accounts X E pv block tx s))"
proof -
  have caps: "no_verdict (keys_within_caps n al)" for n al
    by (induction n al rule: keys_within_caps.induct) (auto simp: Let_def)
  have access: "no_verdict (fst (seed_access_loop X E pv block al s))" for al s
  proof (induction al arbitrary: s)
    case (Cons p al)
    then show ?case by (cases p) (auto intro!: no_verdict_then fetch_no_verdict pv)
  qed simp
  have accounts: "no_verdict (fst (seed_accounts_loop X E pv block seen as s))" for seen as s
    by (induction as arbitrary: s seen) (auto intro!: no_verdict_then fetch_no_verdict pv)
  show ?thesis
    unfolding seed_call_accounts_def
    by (intro no_verdict_then) (simp_all add: access_list_within_caps_def seed_access_list_def caps accounts access
        del: seed_accounts_loop.simps)
qed

lemma answer_miss_no_verdict:
  "prover_errors_ok pv \<Longrightarrow> no_verdict (fst (answer_miss X E pv block a slot s))"
  by (auto simp: answer_miss_def Let_def split: option.split intro!: no_verdict_then fetch_no_verdict)

lemma transact_proven_sound:
  assumes E: "evm_reads E" and D: "holds_state X E block D" and pv: "prover_errors_ok pv"
  shows "backed E block D (cs_db s) \<Longrightarrow>
     says E D block tx gas (fst (transact_call_proven X E pv block tx gas s)) \<and>
     backed E block D (cs_db (snd (transact_call_proven X E pv block tx gas s)))"
  using D pv E
proof (induction X E pv block tx gas s rule: transact_call_proven.induct)
  case (1 X E pv block tx gas s)
  obtain res db where r: "transact_call E (cs_db s) block tx gas = (res, db)" by fastforce
  let ?s = "s\<lparr>cs_db := db\<rparr>"
  have db: "db = seed_block_hashes block (cs_db s)" using transact_call_db [of E "cs_db s" block tx gas] r by simp
  have b: "backed E block D (cs_db ?s)" using 1(3) db by simp
  have sound: "says E D block tx gas res"
    using transact_call_sound [OF 1(6,3), of tx gas res] r by simp
  have miss: "says E D block tx gas (fst out) \<and> backed E block D (cs_db (snd out))"
    if out: "out = (case answer_miss X E pv block a slot ?s of
        (Inl e, t) \<Rightarrow> (Inl e, t) | (Inr u, t) \<Rightarrow> transact_call_proven X E pv block tx gas t)"
      and IH: "\<And>t. answer_miss X E pv block a slot ?s = (Inr (), t) \<Longrightarrow> backed E block D (cs_db t) \<Longrightarrow>
        says E D block tx gas (fst (transact_call_proven X E pv block tx gas t)) \<and>
        backed E block D (cs_db (snd (transact_call_proven X E pv block tx gas t)))" for out a slot
    using answer_miss_backed [OF 1(4) b, of pv a slot] answer_miss_no_verdict [OF 1(5), of X E block a slot ?s] IH
    by (auto simp: out says_no_verdict split: prod.split sum.split)
  show ?case
  proof (cases "(\<exists>a. res = Inl (Missing (MissAccount a))) \<or> (\<exists>a sl. res = Inl (Missing (MissStorage a sl)))")
    case True
    then show ?thesis
    proof (elim disjE exE)
      fix a assume a: "res = Inl (Missing (MissAccount a))"
      show ?thesis
        by (rule miss [where a = a and slot = None])
           (simp_all add: transact_call_proven.simps [of X E pv block tx gas s] r a 1)
    next
      fix a sl assume a: "res = Inl (Missing (MissStorage a sl))"
      show ?thesis
        by (rule miss [where a = a and slot = "Some sl"])
           (simp_all add: transact_call_proven.simps [of X E pv block tx gas s] r a 1)
    qed
  next
    case False
    then have "transact_call_proven X E pv block tx gas s = (res, ?s)"
      by (auto simp: transact_call_proven.simps [of X E pv block tx gas s] r Let_def split: sum.split call_error.split miss.split)
    then show ?thesis using sound b by simp
  qed
qed

lemma eth_call_says:
  assumes "evm_reads E" "holds_state X E block D" "prover_errors_ok pv"
    and "eth_call_verified X E pv block tx = Inr out \<or> eth_call_verified X E pv block tx = Inl (CallRevert out)"
  obtains r where "run_on E D block tx (call_gas tx block) = Inr r" "eth_call_verified X E pv block tx = execution_output r"
proof -
  obtain res s where seed: "seed_call_accounts X E pv block tx (call_start E block) = (res, s)" by fastforce
  have b: "backed E block D (cs_db s)" using seed_backed [OF assms(2), of pv tx] seed by simp
  obtain o' t where run: "transact_call_proven X E pv block tx (call_gas tx block) s = (o', t)" by fastforce
  have says: "says E D block tx (call_gas tx block) o'"
    using transact_proven_sound [OF assms(1-3) b, of tx "call_gas tx block"] run by simp
  have "e \<noteq> CallRevert out" if "res = Inl e" for e
  proof -
    have "\<not> evm_verdict e" using seed that seed_no_verdict [OF assms(3), of X E block tx "call_start E block"] by simp
    then show ?thesis by auto
  qed
  then show thesis
    using assms(4) says that seed run
    by (cases res; cases o') (auto simp: eth_call_verified_def eth_call_run_def then_step_def says_def split: if_splits)
qed

text \<open>
  C15. A verified call executes on the state the block's root commits to. Whatever proofs and
  code the upstream serves, in whatever order, if \<open>eth_call_verified\<close> returns data then one execution
  of the transaction on that state, at the capped gas, succeeds with exactly this data, and if it
  returns a revert then that execution reverts with exactly this data.
\<close>

theorem eth_call_refines:
  assumes "evm_reads E" "prover_errors_ok pv" "holds_state X E block D"
  shows "(eth_call_verified X E pv block tx = Inr out \<longrightarrow>
       (\<exists>g. run_on E D block tx (call_gas tx block) = Inr (ExSuccess g out))) \<and>
     (eth_call_verified X E pv block tx = Inl (CallRevert out) \<longrightarrow>
       (\<exists>g. run_on E D block tx (call_gas tx block) = Inr (ExRevert g out)))"
proof (intro conjI impI)
  assume r: "eth_call_verified X E pv block tx = Inr out"
  obtain x where "run_on E D block tx (call_gas tx block) = Inr x" "eth_call_verified X E pv block tx = execution_output x"
    using eth_call_says [OF assms(1,3,2)] r by blast
  then show "\<exists>g. run_on E D block tx (call_gas tx block) = Inr (ExSuccess g out)" using r by (cases x) auto
next
  assume r: "eth_call_verified X E pv block tx = Inl (CallRevert out)"
  obtain x where "run_on E D block tx (call_gas tx block) = Inr x" "eth_call_verified X E pv block tx = execution_output x"
    using eth_call_says [OF assms(1,3,2)] r by blast
  then show "\<exists>g. run_on E D block tx (call_gas tx block) = Inr (ExRevert g out)" using r by (cases x) auto
qed

section \<open>The gas search\<close>

definition succeeds_at :: "'bc evm \<Rightarrow> 'bc database \<Rightarrow> call_block \<Rightarrow> call_tx \<Rightarrow> nat \<Rightarrow> nat \<Rightarrow> bool" where
  "succeeds_at E D block tx gas used \<longleftrightarrow> (\<exists>out. run_on E D block tx gas = Inr (ExSuccess used out))"

text \<open>
  Why the search may not go below \<open>lo\<close>: an execution at \<open>lo\<close> did not succeed, or one with a limit of at
  least \<open>hi\<close> used \<open>lo + 1\<close>.
\<close>

definition lower_end :: "'bc evm \<Rightarrow> 'bc database \<Rightarrow> call_block \<Rightarrow> call_tx \<Rightarrow> nat \<Rightarrow> nat \<Rightarrow> bool" where
  "lower_end E D block tx lo hi \<longleftrightarrow>
     (lo < hi \<and> (\<forall>used. \<not> succeeds_at E D block tx lo used)) \<or>
     (\<exists>g used. hi \<le> g \<and> succeeds_at E D block tx g used \<and> lo = used - 1)"

lemma call_gas_le: "call_gas tx block \<le> CALL_GAS_CAP"
  by (simp add: call_gas_def Let_def min_def)

lemma sat_less: "hi \<le> CALL_GAS_CAP \<Longrightarrow> sat_add lo (Suc 0) < hi \<longleftrightarrow> Suc lo < hi"
  by (auto simp: sat_add_def CALL_GAS_CAP_def u64_max_def)

lemma halve:
  fixes lo hi :: nat
  assumes "lo + 1 < hi" "hi - lo \<le> 2 ^ Suc n"
  shows "lo + (hi - lo) div 2 - lo \<le> 2 ^ n" "hi - (lo + (hi - lo) div 2) \<le> 2 ^ n"
    "lo < lo + (hi - lo) div 2" "lo + (hi - lo) div 2 < hi"
  using assms by auto

lemma lower_end_raise:
  assumes "lower_end E D block tx lo hi" "succeeds_at E D block tx mid used" "lo < mid" "mid \<le> hi"
  shows "lower_end E D block tx (if lo < used - 1 \<and> used - 1 < mid then used - 1 else lo) mid"
proof (cases "lo < used - 1 \<and> used - 1 < mid")
  case True
  then show ?thesis using assms(2) by (auto simp: lower_end_def)
next
  case False
  then show ?thesis using assms(1,3,4) by (auto simp: lower_end_def intro: order_trans)
qed

lemma says_fails:
  assumes "says E D block tx gas res" "\<forall>u out. res \<noteq> Inr (ExSuccess u out)" "\<And>e. res = Inl e \<Longrightarrow> evm_verdict e"
  shows "\<not> succeeds_at E D block tx gas used"
  using assms by (cases res) (auto simp: says_def succeeds_at_def)

definition gas_boundary :: "'bc evm \<Rightarrow> 'bc database \<Rightarrow> call_block \<Rightarrow> call_tx \<Rightarrow> nat \<Rightarrow> bool" where
  "gas_boundary E D block tx g \<longleftrightarrow> (\<exists>used. succeeds_at E D block tx g used) \<and>
     (\<exists>lo. g \<le> lo + 1 \<and> lower_end E D block tx lo g)"

lemma estimate_loop_sound:
  assumes "evm_reads E" "holds_state X E block D" "prover_errors_ok pv"
    and "estimate_loop X E pv block tx iters lo hi s = (Inr g, t)"
    and "backed E block D (cs_db s)" "lower_end E D block tx lo hi" "\<exists>used. succeeds_at E D block tx hi used"
    and "hi \<le> CALL_GAS_CAP" "iters \<le> MAX_ESTIMATE_ITERS" "hi - lo \<le> 2 ^ (MAX_ESTIMATE_ITERS - iters)"
  shows "g \<le> hi \<and> gas_boundary E D block tx g"
  using assms(4-10)
proof (induction "MAX_ESTIMATE_ITERS - iters" arbitrary: iters lo hi s)
  case 0
  then have "hi - lo \<le> 1" by simp
  moreover have "g = hi" using 0(1,2,8) by (simp add: estimate_loop.simps)
  ultimately show ?case using 0(4,5) by (auto simp: gas_boundary_def intro!: exI [of _ lo])
next
  case (Suc n)
  show ?case
  proof (cases "lo + 1 < hi")
    case False
    then have "g = hi" using Suc.prems(1,5) by (simp add: estimate_loop.simps sat_less)
    moreover have "hi \<le> lo + 1" using False by simp
    ultimately show ?thesis using Suc.prems(3,4) by (auto simp: gas_boundary_def)
  next
    case True
    let ?mid = "lo + (hi - lo) div 2"
    obtain res u where r: "transact_call_proven X E pv block tx ?mid s = (res, u)" by fastforce
    have says: "says E D block tx ?mid res" and b: "backed E block D (cs_db u)"
      using transact_proven_sound [OF assms(1-3) Suc.prems(2), of tx ?mid] r by simp_all
    have n: "iters < MAX_ESTIMATE_ITERS" "n = MAX_ESTIMATE_ITERS - (iters + 1)" using Suc.hyps(2) by simp_all
    have half: "?mid - lo \<le> 2 ^ n" "hi - ?mid \<le> 2 ^ n" "lo < ?mid" "?mid < hi"
      using halve [OF True, of n] Suc.prems(7) Suc.hyps(2) by simp_all
    note IH = Suc.hyps(1) [OF n(2) _ b]
    have up: "g \<le> hi \<and> gas_boundary E D block tx g"
      if "\<And>used. \<not> succeeds_at E D block tx ?mid used" "estimate_loop X E pv block tx (iters + 1) ?mid hi u = (Inr g, t)"
      using IH [OF that(2)] that(1) half n Suc.prems(4,5) by (simp add: lower_end_def)
    have down: "g \<le> hi \<and> gas_boundary E D block tx g"
      if "res = Inr (ExSuccess used out)"
        "estimate_loop X E pv block tx (iters + 1) (if lo < used - 1 \<and> used - 1 < ?mid then used - 1 else lo) ?mid u = (Inr g, t)"
      for used out
    proof -
      let ?lo = "if lo < used - 1 \<and> used - 1 < ?mid then used - 1 else lo"
      have s: "succeeds_at E D block tx ?mid used" using says that(1) by (simp add: says_def succeeds_at_def)
      have "lower_end E D block tx ?lo ?mid" by (rule lower_end_raise [OF Suc.prems(3) s]) (use half in simp_all)
      moreover have "?mid - ?lo \<le> 2 ^ (MAX_ESTIMATE_ITERS - (iters + 1))"
        by (rule order_trans [OF diff_le_mono2 half(1) [unfolded n(2)]]) simp
      moreover have "?mid \<le> CALL_GAS_CAP" using half Suc.prems(5) by simp
      ultimately have "g \<le> ?mid \<and> gas_boundary E D block tx g"
        using IH [OF that(2)] s n(1) by fastforce
      then show ?thesis using half by simp
    qed
    have unfold: "estimate_loop X E pv block tx iters lo hi s =
        (case res of
          Inr (ExSuccess used out) \<Rightarrow>
            estimate_loop X E pv block tx (iters + 1) (if lo < used - 1 \<and> used - 1 < ?mid then used - 1 else lo) ?mid u
        | Inr (ExRevert g out) \<Rightarrow> estimate_loop X E pv block tx (iters + 1) ?mid hi u
        | Inr (ExHalt g reason) \<Rightarrow> estimate_loop X E pv block tx (iters + 1) ?mid hi u
        | Inl (Invalid q) \<Rightarrow> if q = ''transaction'' then estimate_loop X E pv block tx (iters + 1) ?mid hi u else (Inl (Invalid q), u)
        | Inl (CallHalt q) \<Rightarrow> estimate_loop X E pv block tx (iters + 1) ?mid hi u
        | Inl e \<Rightarrow> (Inl e, u))"
      using True n(1) Suc.prems(5) r by (subst estimate_loop.simps) (simp add: sat_less Let_def sat_sub_def split: sum.split execution_result.split)
    show ?thesis
    proof (cases res)
      case (Inr x)
      then show ?thesis using Suc.prems(1) unfold down up says_fails [OF says] by (cases x) auto
    next
      case (Inl e)
      then show ?thesis using Suc.prems(1) unfold up says_fails [OF says] by (cases e) (auto split: if_splits)
    qed
  qed
qed

text \<open>
  C16. A gas estimate is the boundary between failing and succeeding. On the state the block's root
  commits to, the call succeeds at the returned limit; and either it does not succeed with one gas
  less, or some successful execution with at least this limit used all of it (used gas above 1). The
  limit is within every cap that applies: the caller's, the client's 50,000,000, the block's, and
  from Osaka the chain's own per-transaction cap of 16,777,216. The cap of 64 search passes never
  decides the answer.
\<close>

theorem estimate_is_boundary:
  assumes "evm_reads E" "prover_errors_ok pv" "holds_state X E block D"
    and "eth_estimate_gas_verified X E pv block tx = Inr g"
  shows "(\<exists>used. succeeds_at E D block tx g used) \<and>
     ((\<forall>used. \<not> succeeds_at E D block tx (g - 1) used) \<or>
      (\<exists>g' used. g \<le> g' \<and> succeeds_at E D block tx g' used \<and> g \<le> max 1 used)) \<and>
     (\<forall>user. ct_gas tx = Some user \<longrightarrow> g \<le> user) \<and> g \<le> CALL_GAS_CAP \<and> g \<le> cb_gas_limit block \<and>
     (OSAKA_MENDEL_TIME \<le> cb_timestamp block \<longrightarrow> g \<le> MAX_TX_GAS)"
proof -
  obtain s where seed: "seed_call_accounts X E pv block tx (call_start E block) = (Inr (), s)"
    and search: "fst (estimate_gas_search X E pv block tx s) = Inr g"
    using assms(4)
    by (auto simp: eth_estimate_gas_verified_def estimate_run_def then_step_def split: if_splits prod.splits sum.splits)
  have b: "backed E block D (cs_db s)" using seed_backed [OF assms(3), of pv tx] seed by simp
  obtain res u where r: "transact_call_proven X E pv block tx (call_gas tx block) s = (res, u)" by fastforce
  have says: "says E D block tx (call_gas tx block) res" and b': "backed E block D (cs_db u)"
    using transact_proven_sound [OF assms(1,3,2) b, of tx "call_gas tx block"] r by simp_all
  obtain used out t where used: "res = Inr (ExSuccess used out)"
    and loop: "estimate_loop X E pv block tx 0 (used - 1) (call_gas tx block) u = (Inr g, t)"
    using search r
    by (cases "estimate_gas_search X E pv block tx s")
       (auto simp: estimate_gas_search_def then_step_def Let_def sat_sub_def
        split: if_splits sum.splits execution_result.splits)
  have s: "succeeds_at E D block tx (call_gas tx block) used" using says used by (simp add: says_def succeeds_at_def)
  have "call_gas tx block - (used - 1) \<le> 2 ^ (MAX_ESTIMATE_ITERS - 0)"
    using call_gas_le [of tx block] by (simp add: CALL_GAS_CAP_def MAX_ESTIMATE_ITERS_def)
  then have g: "g \<le> call_gas tx block" "gas_boundary E D block tx g"
    using estimate_loop_sound [OF assms(1,3,2) loop b'] s call_gas_le [of tx block]
    by (auto simp: lower_end_def)
  then obtain lo where lo: "g \<le> lo + 1" "lower_end E D block tx lo g" by (auto simp: gas_boundary_def)
  then have "(\<forall>used. \<not> succeeds_at E D block tx (g - 1) used) \<or>
      (\<exists>g' used. g \<le> g' \<and> succeeds_at E D block tx g' used \<and> g \<le> max 1 used)"
  proof (cases "lo < g")
    case True
    then have "lo = g - 1" using lo(1) by simp
    then show ?thesis using lo(1,2) unfolding lower_end_def by (fastforce simp: max_def)
  next
    case False
    then show ?thesis using lo(1,2) unfolding lower_end_def by (fastforce simp: max_def)
  qed
  moreover have "(\<forall>user. ct_gas tx = Some user \<longrightarrow> g \<le> user) \<and> g \<le> CALL_GAS_CAP \<and> g \<le> cb_gas_limit block \<and>
     (OSAKA_MENDEL_TIME \<le> cb_timestamp block \<longrightarrow> g \<le> MAX_TX_GAS)"
    using g(1) by (auto simp: call_gas_def Let_def evm_spec_at_def split: if_splits option.splits)
  ultimately show ?thesis using g(2) by (auto simp: gas_boundary_def)
qed

section \<open>A sample call\<close>

text \<open>A digest with one node behind the root, and an interpreter that reads one balance.\<close>

definition call_root :: bytes where "call_root = replicate 32 1"

definition callX :: "(bytes, bytes) ext" where
  "callX = refX\<lparr>keccak := (\<lambda>b. if b = sample_node then call_root else zeros 32)\<rparr>"

definition toy_evm :: "bytes evm" where
  "toy_evm = \<lparr>bc_new = [], bc_new_raw = (\<lambda>c. c), bc_hash_slow = (\<lambda>c. c),
     default_info = \<lparr>ai_balance = 0, ai_nonce = 0, ai_code_hash = EMPTY_CODE_HASH, ai_code = Some []\<rparr>,
     default_spec = OSAKA, precompiles_contains = (\<lambda>spec a. True),
     transact = (\<lambda>D c b t. case db_basic D (te_kind_call t) of
        Inl e \<Rightarrow> Inl (EvmDatabase e)
      | Inr info \<Rightarrow> if te_gas_limit t < 21000 then Inl EvmTransaction else Inr (ExSuccess 21000 (te_data t)))\<rparr>"

definition toy_prover :: prover where
  "toy_prover = \<lparr>pv_get_proof = (\<lambda>n a slots h k. Inr sample_proof), pv_get_code = (\<lambda>n a h k. Inr [])\<rparr>"

definition toy_block :: call_block where
  "toy_block = \<lparr>cb_number = 1, cb_hash = zeros 32, cb_state_root = call_root, cb_timestamp = 1777343400,
     cb_beneficiary = zeros 20, cb_gas_limit = 21003, cb_difficulty = zeros 32, cb_prevrandao = zeros 32,
     cb_basefee = 0, cb_excess_blob_gas = 0, cb_historical_hashes = [(0, zeros 32)]\<rparr>"

definition toy_tx :: call_tx where
  "toy_tx = \<lparr>ct_from = zeros 20, ct_to = zeros 20, ct_data = [7], ct_value = zeros 32, ct_gas = None, ct_access_list = []\<rparr>"

definition toy_state :: "bytes database" where
  "toy_state = \<lparr>db_basic = (\<lambda>a. Inr (Some (default_info toy_evm))), db_code_by_hash = (\<lambda>h. Inr []),
     db_storage = (\<lambda>a i. Inr 0), db_block_hash = (\<lambda>n. Inr (zeros 32))\<rparr>"

lemma callX_simps [simp]:
  "keccak callX = (\<lambda>b. if b = sample_node then call_root else zeros 32)" "hex_decode callX = ref_hex_decode"
  "hex_encode callX = ref_hex_encode"
  by (simp_all add: callX_def)

lemma prefix_sample: "hex_prefix_decode [0x31] = Inr ([1], True)"
  by code_simp

lemma callX_node: "node_ref callX raw = call_root \<longleftrightarrow> raw = sample_node"
  by (auto simp: node_ref_def length_sample_node call_root_def zeros_def)

lemma callX_nibbles: "\<exists>ks. bytes_to_nibbles (keccak callX a) = 0 # ks"
  by (simp add: bytes_to_nibbles_def zeros_def call_root_def numeral_nat)

lemma callX_trie:
  "verify_trie_proof callX call_root (keccak callX a) nodes = Inr v \<longleftrightarrow> nodes = [sample_node] \<and> v = None"
proof (cases nodes)
  case (Cons n ns)
  obtain ks where "bytes_to_nibbles (keccak callX a) = 0 # ks" using callX_nibbles by blast
  then show ?thesis
    using Cons callX_node [of n]
    by (auto simp: verify_trie_proof_def verify_nibble_proof_def consume_hashed.simps decode_sample_node
        walk_items.simps prefix_sample simp del: callX_simps split: if_splits)
qed (simp add: verify_trie_proof_def verify_nibble_proof_def)

lemma callX_get_proof:
  assumes "verify_eth_get_proof callX call_root a pr = Inr v"
  shows "v = account_view a empty_account"
  using assms by (rule verify_eth_get_proof_Inr) (auto simp: verify_account_proof_def callX_trie account_of_def res_simps simp del: callX_simps)

lemma toy_holds: "holds_state callX toy_evm toy_block toy_state"
proof -
  have "be_nat (pad32 []) = 0" by (simp add: pad32_def be_nat_def zeros_def numeral_nat)
  then show ?thesis
    by (auto simp: holds_state_def holds_accounts_def holds_storage_def holds_code_def holds_block_hashes_def
        BLOCKHASH_WINDOW_def toy_block_def toy_state_def toy_evm_def dest!: callX_get_proof
        simp: account_view_def empty_account_def info_of_def bytecode_of_def verify_account_code_def strip_int_def
          strip_zeros_def verify_storage_slot_def split: if_splits)
qed

lemma toy_reads: "evm_reads toy_evm"
  by (auto simp: evm_reads_def toy_evm_def db_le_def db_error_def split: sum.splits if_splits)

lemma toy_errors: "prover_errors_ok toy_prover"
  by (simp add: prover_errors_ok_def toy_prover_def)

lemma callX_decode: "decode_hex callX = decode_hex refX"
  by (rule ext) (simp add: decode_hex_def Let_def)

lemma callX_hex:
  "decode_hex_fixed callX = decode_hex_fixed refX" "decode_qty callX = decode_qty refX" "encode_qty callX = encode_qty refX"
  "decode_nodes callX = decode_nodes refX"
  by (intro ext; simp add: decode_hex_fixed_def decode_qty_def encode_qty_def decode_nodes_def callX_decode Let_def)+

lemma toy_proof: "verify_eth_get_proof callX call_root (zeros 20) sample_proof = Inr (account_view (zeros 20) empty_account)"
proof -
  have "verify_account_proof callX call_root (zeros 20) [sample_node] = Inr empty_account"
    using callX_trie [of "zeros 20" "[sample_node]" None]
    by (simp add: verify_account_proof_def account_of_def res_simps del: callX_simps)
  moreover have "decode_nodes refX [hex0x refX sample_node] = Inr [sample_node]"
    by (simp add: decode_nodes_def decode_hex_hex0x length_sample_node MAX_PROOF_NODE_BYTES_def)
  moreover have "encode_qty refX [0] = ''0x0''" "encode_qty refX [] = ''0x0''" by (simp_all add: encode_qty_def hex_char_def)
  moreover have "account_absent empty_account"
    by (simp add: account_absent_def empty_account_def strip_int_def strip_zeros_def)
  moreover have "all_zero (zeros 32)" by (simp add: all_zero_def zeros_def list_all_iff)
  ultimately show ?thesis
    by (simp add: verify_eth_get_proof_def sample_proof_def p_fixed_def p_qty_def decode_hex_fixed_hex0x parse_qty_u64_def
        MAX_PROOF_NODES_def MAX_PROOF_STORAGE_ENTRIES_def account_view_def empty_account_def be_u64_def wrap64_def callX_hex)
qed

lemma kind_zero: "precompile_kind toy_evm (zeros 20) spec = PK_Account"
  by (simp add: precompile_kind_def zeros_def)

definition toy_loaded :: "bytes proof_db" where
  "toy_loaded = store_account toy_evm (seed_block_hashes toy_block (proof_db_new toy_evm)) (zeros 20)
     (account_view (zeros 20) empty_account) [] []"

lemma toy_seed:
  "seed_call_accounts callX toy_evm toy_prover toy_block toy_tx (call_start toy_evm toy_block) =
     (Inr (), \<lparr>cs_db = toy_loaded, cs_rounds = 0, cs_calls = 1\<rparr>)"
proof -
  have "load_proven_account callX toy_evm (seed_block_hashes toy_block (proof_db_new toy_evm)) call_root (zeros 20) sample_proof []
      = Inr toy_loaded"
    by (simp add: load_proven_account_def toy_proof rbind_def map_err_def verify_account_code_def account_view_def empty_account_def
        MAX_CODE_SIZE_def MAX_CALL_ACCOUNTS_def load_storage_def known_storage_def toy_loaded_def proof_db_new_def)
  then have "fetch_and_load callX toy_evm toy_prover toy_block (zeros 20) [] (call_start toy_evm toy_block) =
      (Inr (), \<lparr>cs_db = toy_loaded, cs_rounds = 0, cs_calls = 1\<rparr>)"
    by (simp add: fetch_and_load_def toy_prover_def toy_proof rbind_def map_err_def map_ok_def account_view_def
        empty_account_def call_start_def toy_block_def MAX_PROOF_STORAGE_KEYS_def)
  then show ?thesis
    by (simp add: seed_call_accounts_def then_step_def access_list_within_caps_def toy_tx_def kind_zero seed_access_list_def)
       (simp add: toy_block_def kind_zero)
qed

abbreviation toy_call_state :: "bytes call_state" where
  "toy_call_state \<equiv> \<lparr>cs_db = toy_loaded, cs_rounds = 0, cs_calls = 1\<rparr>"

lemma toy_transact:
  "transact_call_proven callX toy_evm toy_prover toy_block toy_tx gas toy_call_state =
     (if gas < 21000 then Inl (Invalid ''transaction'') else Inr (ExSuccess 21000 [7]), toy_call_state)"
proof -
  have "seed_block_hashes toy_block toy_loaded = toy_loaded"
    by (simp add: toy_loaded_def store_account_def seed_block_hashes_def Let_def)
  moreover have "basic toy_evm toy_loaded (zeros 20) = Inr (Some (info_of toy_evm (account_view (zeros 20) empty_account) []))"
    by (simp add: basic_def kind_zero toy_loaded_def store_account_def Let_def update_conv')
  ultimately show ?thesis
    by (simp add: transact_call_proven.simps transact_call_def database_of_def toy_tx_def tx_env_of_def)
       (simp add: toy_evm_def)
qed

lemma toy_gas: "call_gas toy_tx toy_block = 21003"
  by (simp add: call_gas_def toy_tx_def toy_block_def CALL_GAS_CAP_def MAX_TX_GAS_def)

lemma toy_call: "eth_call_verified callX toy_evm toy_prover toy_block toy_tx = Inr [7]"
  using toy_seed toy_transact
  by (simp add: eth_call_verified_def eth_call_run_def toy_gas then_step_def MAX_CALL_DATA_def) (simp add: toy_tx_def)

lemma toy_estimate: "eth_estimate_gas_verified callX toy_evm toy_prover toy_block toy_tx = Inr 21000"
  using toy_seed toy_transact
  by (simp add: eth_estimate_gas_verified_def estimate_run_def estimate_gas_search_def toy_gas then_step_def MAX_CALL_DATA_def
      TX_GAS_def sat_sub_def Let_def estimate_loop.simps MAX_ESTIMATE_ITERS_def sat_add_def u64_max_def) (simp add: toy_tx_def)

theorem eth_call_refines_witness:
  "\<exists>g. run_on toy_evm toy_state toy_block toy_tx (call_gas toy_tx toy_block) = Inr (ExSuccess g [7])"
  using eth_call_refines [OF toy_reads toy_errors toy_holds, of toy_tx "[7]"] toy_call by simp

theorem estimate_is_boundary_witness:
  "\<exists>used. succeeds_at toy_evm toy_state toy_block toy_tx 21000 used"
  using estimate_is_boundary [OF toy_reads toy_errors toy_holds toy_estimate] by simp

end
