(* ===== verification/Rpc_Base.thy ===== *)
theory Rpc_Base
  imports Node Call Wire Receipts Raw_Tx
begin

text \<open>
  What the JSON-RPC handlers share (\<open>bin/helios-bsc/src/rpc_server.rs\<close>, \<open>upstream.rs\<close>): the texts of
  execution errors, string helpers of the standard library, the untrusted data plane, the state
  a server keeps, and the result-and-state step the handlers are written in.

  Each interaction with the outside (a sync, an upstream request, a clock reading) advances a position in the
  environment, so no two of them need agree. A handler runs on its own: what other
  worker threads do between two of its lock sections is not modelled.
\<close>

section \<open>Texts\<close>

fun show_hex :: "nat \<Rightarrow> string" where
  "show_hex n =
     (if n < 16 then [''0123456789abcdef'' ! n] else show_hex (n div 16) @ [''0123456789abcdef'' ! (n mod 16)])"

declare show_hex.simps [simp del]

text \<open>\<open>format!("0x{n:x}")\<close> and \<open>{:02x}\<close>\<close>

definition qty :: "nat \<Rightarrow> string" where
  "qty n = ''0x'' @ show_hex n"

definition show_hex2 :: "nat \<Rightarrow> string" where
  "show_hex2 n = (if n < 16 then CHR ''0'' # show_hex n else show_hex n)"

primrec show_rlp_error :: "rlp_error \<Rightarrow> string" where
  "show_rlp_error Truncated = ''rlp truncated''"
| "show_rlp_error Trailing = ''rlp trailing bytes''"
| "show_rlp_error rlp_error.Invalid = ''rlp invalid length''"
| "show_rlp_error TooDeep = ''rlp nested too deeply''"
| "show_rlp_error NonCanonical = ''rlp non-canonical encoding''"

text \<open>The panic constructor has no text of its own: it never reaches a caller.\<close>

primrec show_mpt_error :: "mpt_error \<Rightarrow> string" where
  "show_mpt_error (MptRlp e) = show_rlp_error e"
| "show_mpt_error MptHashMismatch = ''proof node hash mismatch''"
| "show_mpt_error (PathMismatch index remaining path_len) =
     ''proof path mismatch at node '' @ show_nat index @ '' (remaining '' @ show_nat remaining @
     '' nibbles, compact path '' @ show_nat path_len @ '')''"
| "show_mpt_error EmptyChild = ''unexpected empty child''"
| "show_mpt_error Exhausted = ''proof exhausted before leaf''"
| "show_mpt_error ExtraNodes = ''extra proof nodes''"
| "show_mpt_error BadAccount = ''invalid account leaf''"
| "show_mpt_error KeyLeftover = ''key leftover after leaf''"
| "show_mpt_error BadStorageLeaf = ''storage leaf is not rlp(uint256)''"
| "show_mpt_error IndexPanic = []"

primrec show_proof_error :: "proof_error \<Rightarrow> string" where
  "show_proof_error (ProofTypes e) = show_types_error e"
| "show_proof_error (ProofMpt e) = show_mpt_error e"
| "show_proof_error (ProofJson t) = ''proof JSON: '' @ t"
| "show_proof_error (ClaimMismatch t) = ''claimed field mismatch: '' @ t"
| "show_proof_error StateRootMismatch = ''stateRoot mismatch''"
| "show_proof_error TooManyNodes = ''too many proof nodes''"
| "show_proof_error NodeTooLarge = ''proof node too large''"
| "show_proof_error TooManyStorageEntries = ''too many storageProof entries''"

primrec show_tx_list_error :: "tx_list_error \<Rightarrow> string" where
  "show_tx_list_error TooMany = ''tx list exceeds 4096 items''"
| "show_tx_list_error TxRootMismatch = ''transactionsRoot mismatch''"
| "show_tx_list_error TxListPanic = []"

primrec show_receipt_list_error :: "receipt_list_error \<Rightarrow> string" where
  "show_receipt_list_error TooManyItems = ''too many receipt list items''"
| "show_receipt_list_error ReceiptsRootMismatch = ''receiptsRoot mismatch''"
| "show_receipt_list_error ReceiptListPanic = []"

primrec show_receipt_rlp_error :: "receipt_rlp_error \<Rightarrow> string" where
  "show_receipt_rlp_error (UnknownReceiptType n) = ''unknown receipt type 0x'' @ show_hex2 n"
| "show_receipt_rlp_error InvalidStatus = ''receipt status is not 0x0 or 0x1''"
| "show_receipt_rlp_error TooManyLogs = ''too many receipt logs''"
| "show_receipt_rlp_error TooManyTopics = ''too many log topics''"

primrec show_raw_tx_error :: "raw_tx_error \<Rightarrow> string" where
  "show_raw_tx_error EmptyTx = ''raw tx empty''"
| "show_raw_tx_error TooLargeTx = ''raw tx too large''"
| "show_raw_tx_error InvalidTxRlp = ''raw tx is not RLP''"
| "show_raw_tx_error TruncatedTx = ''raw tx truncated''"
| "show_raw_tx_error Unsigned = ''raw tx unsigned''"
| "show_raw_tx_error Unprotected = ''raw tx missing EIP-155 chainId (unprotected)''"
| "show_raw_tx_error (UnknownTxType b) = ''raw tx unknown type 0x'' @ show_hex2 (unat b)"
| "show_raw_tx_error WrongChain = ''raw tx chainId is not BSC mainnet 56''"

text \<open>\<open>{:?}\<close> of a byte array and of \<open>Miss\<close>.\<close>

fun debug_items :: "nat list \<Rightarrow> string" where
  "debug_items [] = []"
| "debug_items [n] = show_nat n"
| "debug_items (n # ns) = show_nat n @ '', '' @ debug_items ns"

definition debug_bytes :: "bytes \<Rightarrow> string" where
  "debug_bytes b = ''['' @ debug_items (map unat b) @ '']''"

primrec debug_miss :: "miss \<Rightarrow> string" where
  "debug_miss (MissAccount a) = ''Account('' @ debug_bytes a @ '')''"
| "debug_miss (MissStorage a slot) = ''Storage { address: '' @ debug_bytes a @ '', slot: '' @ debug_bytes slot @ '' }''"
| "debug_miss (MissBlockHash n) = ''BlockHash('' @ show_nat n @ '')''"
| "debug_miss (MissCodeHash h) = ''CodeHash('' @ debug_bytes h @ '')''"

primrec show_call_error :: "call_error \<Rightarrow> string" where
  "show_call_error (Missing m) = ''missing proof for '' @ debug_miss m"
| "show_call_error (CallProof e) = show_proof_error e"
| "show_call_error (CallRevert out) = ''execution reverted''"
| "show_call_error (CallHalt t) = ''execution halt: '' @ t"
| "show_call_error Budget = ''proof or gas budget exceeded''"
| "show_call_error (call_error.Invalid t) = ''invalid call: '' @ t"
| "show_call_error (UnsupportedPrecompile a) =
     ''chain precompile '' @ debug_bytes a @ '' is not implemented by the local EVM''"

text \<open>\<open>{e}\<close> of an \<open>anyhow::Error\<close>: the outermost message.\<close>

definition show_err :: "err \<Rightarrow> string" where
  "show_err e = (if e = [] then [] else hd e)"

section \<open>Strings\<close>

text \<open>\<open>str::trim\<close> removes Unicode white space; these are its UTF-8 encodings.\<close>

definition white_space :: "string list" where
  "white_space =
     map (\<lambda>n. [char_of (n :: nat)]) [9, 10, 11, 12, 13, 32] @
     map (map char_of) ([[194, 133], [194, 160], [225, 154, 128]] :: nat list list) @
     map (\<lambda>n. [char_of (226 :: nat), char_of (128 :: nat), char_of (n :: nat)])
       [128, 129, 130, 131, 132, 133, 134, 135, 136, 137, 138, 168, 169, 175] @
     map (map char_of) ([[226, 129, 159], [227, 128, 128]] :: nat list list)"

function trim_start :: "string list \<Rightarrow> string \<Rightarrow> string" where
  "trim_start ws s =
     (case find (\<lambda>w. w \<noteq> [] \<and> starts_with s w) ws of
        None \<Rightarrow> s
      | Some w \<Rightarrow> trim_start ws (drop (length w) s))"
  by pat_completeness auto
termination
proof (relation "measure (\<lambda>(ws, s). length s)")
  fix ws :: "string list" and s w :: string
  assume "find (\<lambda>w. w \<noteq> [] \<and> starts_with s w) ws = Some w"
  then have "w \<noteq> []" "take (length w) s = w" by (auto simp: find_Some_iff starts_with_def)
  then have "s \<noteq> []" by auto
  then show "((ws, drop (length w) s), ws, s) \<in> measure (\<lambda>(ws, s). length s)"
    using \<open>w \<noteq> []\<close> by simp
qed simp

declare trim_start.simps [simp del]

definition string_trim :: "string \<Rightarrow> string" where
  "string_trim s = rev (trim_start (map rev white_space) (rev (trim_start white_space s)))"

text \<open>\<open>s.trim_start_matches("0x").trim_start_matches("0X")\<close>: every leading occurrence goes.\<close>

definition trim_all_0x :: "string \<Rightarrow> string" where
  "trim_all_0x s = trim_start [''0X''] (trim_start [''0x''] s)"

fun contains_str :: "string \<Rightarrow> string \<Rightarrow> bool" where
  "contains_str p [] = (p = [])"
| "contains_str p (c # s) = (starts_with (c # s) p \<or> contains_str p s)"

section \<open>The data plane\<close>

record data_upstream =
  du_get_proof_keys :: "string \<Rightarrow> string list \<Rightarrow> string \<Rightarrow> (err, json) result"
  du_get_code :: "string \<Rightarrow> string \<Rightarrow> (err, bytes) result"
  du_send_raw_transaction :: "string \<Rightarrow> (err, string) result"
  du_unverified_call :: "string \<Rightarrow> json \<Rightarrow> (err, json) result"
  du_block_raw_transactions :: "string \<Rightarrow> (err, bytes list) result"
  du_block_receipts_json :: "string \<Rightarrow> (err, json list) result"
  du_header_by_hash :: "string \<Rightarrow> (err, rpc_block_header) result"

text \<open>
  \<open>serde_json\<close> on the types of the wire: proofs and headers to and from JSON, and the body of a request.
\<close>

record serde =
  sd_proof_from :: "json \<Rightarrow> (string, eth_account_proof) result"
  sd_proof_to :: "eth_account_proof \<Rightarrow> (string, json) result"
  sd_header_to :: "rpc_block_header \<Rightarrow> json"
  sd_from_slice :: "bytes \<Rightarrow> json option"

text \<open>The environment of a server: third-party code, and the outside at each position.\<close>

record ('pk, 'sg, 'bc) rpc_env =
  re_ext :: "('pk, 'sg) ext"
  re_evm :: "'bc evm"
  re_serde :: serde
  re_sync :: "nat \<Rightarrow> nat \<Rightarrow> upstream"
    \<comment> \<open>by position, the upstream of each attempt of a sync\<close>
  re_now :: "nat \<Rightarrow> nat"
    \<comment> \<open>the clock in milliseconds\<close>
  re_data :: "nat \<Rightarrow> data_upstream"
  re_version :: string
    \<comment> \<open>\<open>CARGO_PKG_VERSION\<close>\<close>

text \<open>\<open>get_proof_at_safe\<close>: by number, then by hash unless hashes are not supported, then by number again.\<close>

definition get_proof_at_safe ::
    "(nat \<Rightarrow> data_upstream) \<Rightarrow> string \<Rightarrow> string list \<Rightarrow> string \<Rightarrow> nat \<Rightarrow> (err, json) result" where
  "get_proof_at_safe up address keys safe_hash safe_number =
     (let number = qty safe_number in
      case du_get_proof_keys (up 0) address keys number of
        Inr v \<Rightarrow> Inr v
      | Inl e_num \<Rightarrow>
          let msg = map ascii_lower (show_err e_num) in
          case (if \<not> contains_str ''not supported'' msg then du_get_proof_keys (up 1) address keys safe_hash
                else Inl []) of
            Inr v \<Rightarrow> Inr v
          | Inl _ \<Rightarrow>
              map_err (\<lambda>e_retry. [''by-number: '' @ show_err e_num @ ''; retry: '' @ show_err e_retry])
                (du_get_proof_keys (up 2) address keys number))"

text \<open>\<open>up.get_code(addr, hash).or_else(|_| up.get_code(addr, number))\<close>\<close>

definition get_code_at :: "(nat \<Rightarrow> data_upstream) \<Rightarrow> string \<Rightarrow> string \<Rightarrow> string \<Rightarrow> (err, bytes) result" where
  "get_code_at up address hash number =
     (case du_get_code (up 0) address hash of
        Inr c \<Rightarrow> Inr c
      | Inl _ \<Rightarrow> du_get_code (up 1) address number)"

section \<open>The server\<close>

datatype filter_kind =
    Logs (fk_filter: "(string \<times> json) list") (fk_from_block: nat) (fk_to_block: "nat option") (fk_cursor: nat)
  | Blocks (fk_cursor: nat)

record stored_filter =
  sf_kind :: filter_kind
  sf_touched :: nat

record filter_store =
  fs_next_id :: nat
  fs_map :: "(nat \<times> stored_filter) list"

record server =
  sv_node :: node
  sv_filters :: filter_store
  sv_saved :: "(string \<times> checkpoint) option"
    \<comment> \<open>the checkpoint last written, with its path\<close>
  sv_tick :: nat
    \<comment> \<open>position in the environment\<close>

text \<open>
  A handler step returns a value or the response that ends the request early, with the server after it.
\<close>

type_synonym 'a handler = "server \<Rightarrow> (json, 'a) result \<times> server"

definition hbind :: "'a handler \<Rightarrow> ('a \<Rightarrow> 'b handler) \<Rightarrow> 'b handler" where
  "hbind m f = (\<lambda>s. then_step (m s) f)"

definition hres :: "(json, 'a) result \<Rightarrow> 'a handler" where
  "hres r = (\<lambda>s. (r, s))"

definition hopt :: "'a option \<Rightarrow> json \<Rightarrow> 'a handler" where
  "hopt v e = hres (case v of None \<Rightarrow> Inl e | Some a \<Rightarrow> Inr a)"

definition hcheck :: "bool \<Rightarrow> json \<Rightarrow> unit handler" where
  "hcheck refused e = hres (if refused then Inl e else Inr ())"

definition respond :: "json handler \<Rightarrow> server \<Rightarrow> json \<times> server" where
  "respond m s = (case m s of (Inl e, s') \<Rightarrow> (e, s') | (Inr v, s') \<Rightarrow> (v, s'))"

definition hnode :: "node handler" where
  "hnode = (\<lambda>s. (Inr (sv_node s), s))"

definition hchain :: "verified_block list handler" where
  "hchain = (\<lambda>s. (Inr (nd_chain (sv_node s)), s))"

text \<open>A change of the node that answers nothing.\<close>

definition hupdate :: "(node \<Rightarrow> node) \<Rightarrow> unit handler" where
  "hupdate f = (\<lambda>s. (Inr (), s\<lparr>sv_node := f (sv_node s)\<rparr>))"

text \<open>An upstream answer that takes \<open>k\<close> positions.\<close>

definition hask :: "('pk, 'sg, 'bc) rpc_env \<Rightarrow> nat \<Rightarrow> ((nat \<Rightarrow> data_upstream) \<Rightarrow> 'a) \<Rightarrow> 'a handler" where
  "hask V k q = (\<lambda>s. (Inr (q (\<lambda>i. re_data V (sv_tick s + i))), s\<lparr>sv_tick := sv_tick s + k\<rparr>))"

definition bump_proof_ok :: "node \<Rightarrow> node" where
  "bump_proof_ok nd = nd\<lparr>nd_proof_ok := wrap64 (nd_proof_ok nd + 1)\<rparr>"

definition bump_proof_fail :: "node \<Rightarrow> node" where
  "bump_proof_fail nd = nd\<lparr>nd_proof_fail := wrap64 (nd_proof_fail nd + 1)\<rparr>"

text \<open>\<open>self.refresh()\<close>: the sync a request starts with, and the checkpoint it may write.\<close>

definition server_refresh ::
    "('pk, 'sg, 'bc) rpc_env \<Rightarrow> server \<Rightarrow> (err, nat \<times> safe_head) result \<times> server" where
  "server_refresh V s =
     (case refresh (re_ext V) (re_sync V (sv_tick s)) (re_now V (sv_tick s)) (sv_node s) of
        (r, w, nd) \<Rightarrow>
          (r, s\<lparr>sv_node := nd, sv_saved := (case w of None \<Rightarrow> sv_saved s | Some c \<Rightarrow> Some c),
                sv_tick := sv_tick s + 1\<rparr>))"

definition hrefresh :: "('pk, 'sg, 'bc) rpc_env \<Rightarrow> json \<Rightarrow> (nat \<times> safe_head) handler" where
  "hrefresh V rid =
     (\<lambda>s. case server_refresh V s of
            (Inl e, s') \<Rightarrow> (Inl (rpc_err rid ERR_NOT_SYNCED (''not_synced: '' @ show_err e)), s')
          | (Inr v, s') \<Rightarrow> (Inr v, s'))"

definition rid_of :: "json \<Rightarrow> json" where
  "rid_of req = (case json_get ''id'' req of None \<Rightarrow> JNull | Some v \<Rightarrow> v)"

definition WALLET_TAG_ONLY :: string where
  "WALLET_TAG_ONLY = ''wallet mode only serves Safe or below (latest'' @
     [char_of (226 :: nat), char_of (134 :: nat), char_of (146 :: nat)] @ ''Safe)''"

definition WALLET_HASH_ONLY :: string where
  "WALLET_HASH_ONLY = ''wallet mode only serves verified hashes at or below Safe''"

section \<open>Facts\<close>

lemma hbind_Inr:
  "hbind m f s = (Inr b, t) \<longleftrightarrow> (\<exists>a u. m s = (Inr a, u) \<and> f a u = (Inr b, t))"
  by (simp add: hbind_def then_step_Inr)

lemma hsteps [simp]:
  "hres r s = (r, s)" "hnode s = (Inr (sv_node s), s)" "hchain s = (Inr (nd_chain (sv_node s)), s)"
  "hupdate g s = (Inr (), s\<lparr>sv_node := g (sv_node s)\<rparr>)"
  by (simp_all add: hres_def hnode_def hchain_def hupdate_def)

lemma hopt_Inr [simp]: "hopt v e s = (Inr a, t) \<longleftrightarrow> v = Some a \<and> t = s"
  by (auto simp: hopt_def split: option.splits)

lemma hcheck_Inr [simp]: "hcheck b e s = (Inr u, t) \<longleftrightarrow> \<not> b \<and> t = s"
  by (auto simp: hcheck_def)

lemma hask_Inr [simp]:
  "hask V k q s = (Inr a, t) \<longleftrightarrow> a = q (\<lambda>i. re_data V (sv_tick s + i)) \<and> t = s\<lparr>sv_tick := sv_tick s + k\<rparr>"
  by (auto simp: hask_def)

text \<open>A printed quantity reads back as the number.\<close>

lemma hex_digits: "d < 16 \<Longrightarrow> to_digit16 (''0123456789abcdef'' ! d) = Some d"
proof -
  have "list_all (\<lambda>d. to_digit16 (''0123456789abcdef'' ! d) = Some d) [0..<16]" by code_simp
  then show "d < 16 \<Longrightarrow> ?thesis" by (simp add: list_all_iff)
qed

lemma radix16_append: "radix16_loop acc (s @ t) = rbind (radix16_loop acc s) (\<lambda>a. radix16_loop a t)"
  by (induction s arbitrary: acc) (auto simp: rbind_def split: option.splits)

lemma radix16_show_hex: "is_u64 n \<Longrightarrow> radix16_loop 0 (show_hex n) = Inr n"
proof (induction n rule: show_hex.induct)
  case (1 n)
  show ?case
  proof (cases "n < 16")
    case True
    then show ?thesis using 1(2) hex_digits [OF True] by (simp add: show_hex.simps [of n] is_u64_def)
  next
    case False
    have "is_u64 (n div 16)" using 1(2) by (simp add: is_u64_def)
    then have "radix16_loop 0 (show_hex (n div 16)) = Inr (n div 16)" using 1(1) False by simp
    then show ?thesis
      using False 1(2) hex_digits [of "n mod 16"]
      by (simp add: show_hex.simps [of n] radix16_append rbind_def is_u64_def)
  qed
qed

lemma show_hex_hd: "show_hex n \<noteq> [] \<and> to_digit16 (hd (show_hex n)) \<noteq> None"
proof (induction n rule: show_hex.induct)
  case (1 n)
  then show ?case using hex_digits by (simp add: show_hex.simps [of n])
qed

lemma show_hex_digits: "c \<in> set (show_hex n) \<Longrightarrow> is_hexdigit c"
proof (induction n rule: show_hex.induct)
  case (1 n)
  show ?case
  proof (cases "n < 16")
    case True
    then show ?thesis using 1(2) hex_digits [OF True] by (simp add: show_hex.simps [of n] is_hexdigit_def)
  next
    case False
    then show ?thesis
      using 1 hex_digits [of "n mod 16"] by (auto simp: show_hex.simps [of n] is_hexdigit_def)
  qed
qed

lemma from_radix_show_hex:
  assumes "is_u64 n"
  shows "from_str_radix16 (show_hex n) = Inr n"
proof -
  have plus: "to_digit16 (CHR ''+'') = None" "to_digit16 (CHR ''-'') = None" by code_simp+
  have "hd (show_hex n) \<noteq> CHR ''+''" "hd (show_hex n) \<noteq> CHR ''-''" using show_hex_hd [of n] plus by metis+
  then show ?thesis
    using radix16_show_hex [OF assms] show_hex_hd [of n] by (auto simp: from_str_radix16_def)
qed

lemma decode_u64_qty: "is_u64 n \<Longrightarrow> decode_u64 (qty n) = Inr n"
  using show_hex_hd [of n] by (simp add: decode_u64_def qty_def Let_def from_radix_show_hex map_err_def)

lemma parse_hex_qty: "is_u64 n \<Longrightarrow> parse_hex_u64 (qty n) = Some n"
  using show_hex_hd [of n] show_hex_digits [of _ n]
  by (simp add: parse_hex_u64_def qty_def has_0x_def from_radix_show_hex list_all_iff)

lemma qty_inj: "is_u64 a \<Longrightarrow> is_u64 b \<Longrightarrow> qty a = qty b \<Longrightarrow> a = b"
  using decode_u64_qty by (metis Inr_inject)

end
