(* ===== verification/Rpc_Validate.thy ===== *)
theory Rpc_Validate
  imports Rpc_Base
begin

text \<open>
  Shape checks on untrusted JSON (\<open>rpc_server/validate.rs\<close>) and the small predicates of
  \<open>rpc_server/blocks.rs\<close> they use: every field an upstream can choose is bound to something already
  verified or refused.
\<close>

definition MAX_LOG_DATA :: nat where "MAX_LOG_DATA = 65536"
definition MAX_FEE_HISTORY_ITEMS :: nat where "MAX_FEE_HISTORY_ITEMS = 1024"

section \<open>Predicates on JSON and hex\<close>

definition hex_eq_loose :: "string \<Rightarrow> string \<Rightarrow> bool" where
  "hex_eq_loose a b \<longleftrightarrow> eq_ignore_ascii_case (trim_all_0x a) (trim_all_0x b)"

fun is_nullish_json :: "json option \<Rightarrow> bool" where
  "is_nullish_json None = True"
| "is_nullish_json (Some JNull) = True"
| "is_nullish_json (Some (JString s)) = (let t = string_trim s in t = [] \<or> eq_ignore_ascii_case t ''0x'')"
| "is_nullish_json (Some _) = False"

definition is_zero_block_hash :: "string \<Rightarrow> bool" where
  "is_zero_block_hash s \<longleftrightarrow>
     (let raw = trim_all_0x (string_trim s) in length raw = 64 \<and> list_all (\<lambda>c. c = CHR ''0'') raw)"

fun is_empty_block_hash :: "json option \<Rightarrow> bool" where
  "is_empty_block_hash None = True"
| "is_empty_block_hash (Some JNull) = True"
| "is_empty_block_hash (Some (JString s)) =
     (let t = string_trim s in t = [] \<or> eq_ignore_ascii_case t ''0x'' \<or> is_zero_block_hash t)"
| "is_empty_block_hash (Some _) = False"

section \<open>Optional fields\<close>

fun bind_optional_hash32 :: "('pk, 'sg) ext \<Rightarrow> json option \<Rightarrow> string \<Rightarrow> (string, unit) result" where
  "bind_optional_hash32 X None field = Inr ()"
| "bind_optional_hash32 X (Some JNull) field = Inr ()"
| "bind_optional_hash32 X (Some (JString s)) field =
     map_err (\<lambda>_. field @ '' is not a 32-byte hash'') (map_ok (\<lambda>_. ()) (decode_hex_fixed X 32 s))"
| "bind_optional_hash32 X (Some _) field = Inl (field @ '' not a string'')"

fun bind_optional_address :: "('pk, 'sg) ext \<Rightarrow> json option \<Rightarrow> string \<Rightarrow> bool \<Rightarrow> (string, unit) result" where
  "bind_optional_address X None field allow_null = Inr ()"
| "bind_optional_address X (Some JNull) field allow_null =
     (if allow_null then Inr () else Inl (field @ '' must be an address''))"
| "bind_optional_address X (Some (JString s)) field allow_null =
     map_err (\<lambda>_. field @ '' is not a 20-byte address'') (map_ok (\<lambda>_. ()) (decode_hex_fixed X 20 s))"
| "bind_optional_address X (Some _) field allow_null = Inl (field @ '' not a string'')"

fun bind_optional_chain_id :: "json option \<Rightarrow> (string, unit) result" where
  "bind_optional_chain_id None = Inr ()"
| "bind_optional_chain_id (Some JNull) = Inr ()"
| "bind_optional_chain_id (Some (JString s)) =
     rbind (map_err (\<lambda>_. ''chainId invalid'') (decode_u64 s)) (\<lambda>n.
       if n = BSC_MAINNET_CHAIN_ID then Inr () else Inl ''chainId is not BSC mainnet 56'')"
| "bind_optional_chain_id (Some (JNumber n)) =
     (if number_as_u64 n = Some BSC_MAINNET_CHAIN_ID then Inr () else Inl ''chainId is not BSC mainnet 56'')"
| "bind_optional_chain_id (Some _) = Inl ''chainId is not BSC mainnet 56''"

definition require_rpc_address :: "('pk, 'sg) ext \<Rightarrow> string \<Rightarrow> (string, bytes) result" where
  "require_rpc_address X s = map_err (\<lambda>_. ''address is not 20 bytes'') (decode_hex_fixed X 20 s)"

definition first_str :: "json \<Rightarrow> string option" where
  "first_str req = Option.bind (Option.bind (req_params req) (\<lambda>p. nth_opt p 0)) as_str"

definition ok_or :: "'a option \<Rightarrow> 'e \<Rightarrow> ('e, 'a) result" where
  "ok_or v e = (case v of None \<Rightarrow> Inl e | Some a \<Rightarrow> Inr a)"

definition query_tx_hash :: "('pk, 'sg) ext \<Rightarrow> json \<Rightarrow> (string, bytes) result" where
  "query_tx_hash X req =
     rbind (ok_or (first_str req) ''tx hash required'') (\<lambda>s.
       map_err (\<lambda>_. ''tx hash is not 32 bytes'') (decode_hex_fixed X 32 s))"

text \<open>One field of \<open>bind_result_tx_hash\<close>: whether it is present and equal.\<close>

definition bind_tx_field ::
    "('pk, 'sg) ext \<Rightarrow> (string \<times> json) list \<Rightarrow> bytes \<Rightarrow> string \<Rightarrow> (string, bool) result" where
  "bind_tx_field X m want field =
     (case map_of m field of
        None \<Rightarrow> Inr False
      | Some JNull \<Rightarrow> Inr False
      | Some (JString s) \<Rightarrow>
          rbind (map_err (\<lambda>_. field @ '' is not a 32-byte hash'') (decode_hex_fixed X 32 s)) (\<lambda>got.
            if got \<noteq> want then Inl (field @ '' does not match request'') else Inr True)
      | Some _ \<Rightarrow> Inl (field @ '' not a string''))"

definition bind_result_tx_hash ::
    "('pk, 'sg) ext \<Rightarrow> (string \<times> json) list \<Rightarrow> bytes option \<Rightarrow> (string, unit) result" where
  "bind_result_tx_hash X m want =
     (case want of
        None \<Rightarrow> Inr ()
      | Some w \<Rightarrow>
          rbind (bind_tx_field X m w ''hash'') (\<lambda>a.
          rbind (bind_tx_field X m w ''transactionHash'') (\<lambda>b.
            if \<not> (a \<or> b) then Inl ''receipt/tx hash missing'' else Inr ())))"

definition topic_bytes :: "('pk, 'sg) ext \<Rightarrow> string \<Rightarrow> string \<Rightarrow> json \<Rightarrow> (string, bytes) result" where
  "topic_bytes X no_string bad t =
     rbind (ok_or (as_str t) no_string) (\<lambda>s. map_err (\<lambda>_. bad) (decode_hex_fixed X 32 s))"

definition bind_log :: "('pk, 'sg) ext \<Rightarrow> bytes option \<Rightarrow> string option \<Rightarrow> json \<Rightarrow> (string, unit) result" where
  "bind_log X want_tx receipt_block log =
     rbind (ok_or (as_object log) ''log is not an object'') (\<lambda>m.
     rbind (case map_of m ''address'' of
              None \<Rightarrow> Inl ''log.address missing''
            | Some JNull \<Rightarrow> Inl ''log.address missing''
            | Some (JString s) \<Rightarrow>
                map_err (\<lambda>_. ''log.address is not 20 bytes'') (map_ok (\<lambda>_. ()) (decode_hex_fixed X 20 s))
            | Some _ \<Rightarrow> Inl ''log.address not a string'') (\<lambda>_.
     rbind (case map_of m ''data'' of
              None \<Rightarrow> Inr ()
            | Some JNull \<Rightarrow> Inr ()
            | Some (JString s) \<Rightarrow>
                rbind (map_err (\<lambda>_. ''log.data is not hex'') (decode_hex X s)) (\<lambda>b.
                  if MAX_LOG_DATA < length b then Inl ''log.data too large'' else Inr ())
            | Some _ \<Rightarrow> Inl ''log.data not a hex string'') (\<lambda>_.
     rbind (case map_of m ''topics'' of
              None \<Rightarrow> Inr ()
            | Some topics \<Rightarrow>
                rbind (ok_or (as_array topics) ''log.topics is not an array'') (\<lambda>arr.
                  if MAX_LOG_TOPICS < length arr then Inl ''too many log topics''
                  else map_ok (\<lambda>_. ())
                    (rmapM (topic_bytes X ''log topic not a string'' ''log topic is not 32 bytes'') arr))) (\<lambda>_.
     rbind (case (want_tx, map_of m ''transactionHash'') of
              (Some want, Some (JString s)) \<Rightarrow>
                rbind (map_err (\<lambda>_. ''log.transactionHash is not a 32-byte hash'') (decode_hex_fixed X 32 s)) (\<lambda>got.
                  if got \<noteq> want then Inl ''log.transactionHash does not match request'' else Inr ())
            | _ \<Rightarrow> Inr ()) (\<lambda>_.
     (case (receipt_block, map_of m ''blockHash'') of
        (Some rb, Some (JString lb)) \<Rightarrow>
          if \<not> hex_eq_loose rb lb then Inl ''log.blockHash does not match receipt'' else Inr ()
      | _ \<Rightarrow> Inr ()))))))"

fun bind_optional_logs ::
    "('pk, 'sg) ext \<Rightarrow> json option \<Rightarrow> bytes option \<Rightarrow> string option \<Rightarrow> (string, unit) result" where
  "bind_optional_logs X None want_tx receipt_block = Inr ()"
| "bind_optional_logs X (Some JNull) want_tx receipt_block = Inr ()"
| "bind_optional_logs X (Some (JArray logs)) want_tx receipt_block =
     (if MAX_RECEIPT_LOGS < length logs then Inl ''too many logs''
      else map_ok (\<lambda>_. ()) (rmapM (bind_log X want_tx receipt_block) logs))"
| "bind_optional_logs X (Some _) want_tx receipt_block = Inl ''logs not an array''"

fun bind_optional_qty :: "json option \<Rightarrow> string \<Rightarrow> (string, unit) result" where
  "bind_optional_qty None field = Inr ()"
| "bind_optional_qty (Some JNull) field = Inr ()"
| "bind_optional_qty (Some (JString s)) field =
     map_err (\<lambda>_. field @ '' is not a hex quantity'') (map_ok (\<lambda>_. ()) (decode_u64 s))"
| "bind_optional_qty (Some _) field = Inl (field @ '' not a hex quantity'')"

fun bind_optional_hex_cap :: "('pk, 'sg) ext \<Rightarrow> json option \<Rightarrow> string \<Rightarrow> nat \<Rightarrow> (string, unit) result" where
  "bind_optional_hex_cap X None field cap = Inr ()"
| "bind_optional_hex_cap X (Some JNull) field cap = Inr ()"
| "bind_optional_hex_cap X (Some (JString s)) field cap =
     rbind (map_err (\<lambda>_. field @ '' is not hex'') (decode_hex X s)) (\<lambda>b.
       if cap < length b then Inl (field @ '' too large'') else Inr ())"
| "bind_optional_hex_cap X (Some _) field cap = Inl (field @ '' not a hex string'')"

fun bind_qty_array :: "json option \<Rightarrow> string \<Rightarrow> (string, unit) result" where
  "bind_qty_array None field = Inr ()"
| "bind_qty_array (Some JNull) field = Inr ()"
| "bind_qty_array (Some (JArray a)) field =
     (if MAX_FEE_HISTORY_ITEMS < length a then Inl (''too many '' @ field)
      else map_ok (\<lambda>_. ()) (rmapM (\<lambda>x. bind_optional_qty (Some x) field) a))"
| "bind_qty_array (Some _) field = Inl (field @ '' is not an array'')"

fun bind_optional_tx_type :: "json option \<Rightarrow> (string, unit) result" where
  "bind_optional_tx_type None = Inr ()"
| "bind_optional_tx_type (Some JNull) = Inr ()"
| "bind_optional_tx_type (Some (JString s)) =
     rbind (map_err (\<lambda>_. ''type invalid'') (decode_u64 s)) (\<lambda>n.
       if n \<le> 4 then Inr () else Inl ''tx type is not 0x0..=0x4'')"
| "bind_optional_tx_type (Some _) = Inl ''type not a hex quantity''"

fun bind_optional_status :: "json option \<Rightarrow> (string, unit) result" where
  "bind_optional_status None = Inr ()"
| "bind_optional_status (Some JNull) = Inr ()"
| "bind_optional_status (Some (JString s)) =
     rbind (map_err (\<lambda>_. ''status invalid'') (decode_u64 s)) (\<lambda>n.
       if n \<le> 1 then Inr () else Inl ''status is not 0x0 or 0x1'')"
| "bind_optional_status (Some _) = Inl ''status not a hex quantity''"

section \<open>Fee oracles\<close>

text \<open>
  \<open>str::parse::<f64>\<close> of the standard library succeeds on an optional sign followed by \<open>inf\<close>, \<open>infinity\<close> or
  \<open>nan\<close> in any case, or by digits with an optional point and exponent, at least one digit
  before the exponent.
\<close>

definition is_digit :: "char \<Rightarrow> bool" where
  "is_digit c \<longleftrightarrow> c \<in> set ''0123456789''"

definition strip_sign :: "string \<Rightarrow> string" where
  "strip_sign s = (if s \<noteq> [] \<and> hd s \<in> {CHR ''+'', CHR ''-''} then tl s else s)"

definition exponent_ok :: "string \<Rightarrow> bool" where
  "exponent_ok s \<longleftrightarrow> s = [] \<or>
     (hd s \<in> {CHR ''e'', CHR ''E''} \<and> (let d = strip_sign (tl s) in d \<noteq> [] \<and> list_all is_digit d))"

definition parse_f64_ok :: "string \<Rightarrow> bool" where
  "parse_f64_ok t =
     (let s = strip_sign t in
      if map ascii_lower s \<in> {''inf'', ''infinity'', ''nan''} then True
      else
        let whole = takeWhile is_digit s; rest = dropWhile is_digit s;
            (frac, rest') = (if rest \<noteq> [] \<and> hd rest = CHR ''.'' then (takeWhile is_digit (tl rest), dropWhile is_digit (tl rest))
                             else ([], rest))
        in (whole \<noteq> [] \<or> frac \<noteq> []) \<and> exponent_ok rest')"

fun gas_ratio_ok :: "json \<Rightarrow> bool" where
  "gas_ratio_ok (JNumber n) = number_is_f64 n"
| "gas_ratio_ok (JString s) = parse_f64_ok s"
| "gas_ratio_ok _ = False"

definition bind_gas_used_ratio :: "json option \<Rightarrow> (string, unit) result" where
  "bind_gas_used_ratio v =
     (case v of
        None \<Rightarrow> Inr ()
      | Some JNull \<Rightarrow> Inr ()
      | Some (JArray a) \<Rightarrow>
          if MAX_FEE_HISTORY_ITEMS < length a then Inl ''too many gasUsedRatio''
          else if \<not> list_all gas_ratio_ok a then Inl ''gasUsedRatio element is not a number''
          else Inr ()
      | Some _ \<Rightarrow> Inl ''gasUsedRatio is not an array'')"

definition bind_reward :: "json option \<Rightarrow> (string, unit) result" where
  "bind_reward v =
     (case v of
        None \<Rightarrow> Inr ()
      | Some JNull \<Rightarrow> Inr ()
      | Some (JArray rows) \<Rightarrow>
          if MAX_FEE_HISTORY_ITEMS < length rows then Inl ''too many reward''
          else map_ok (\<lambda>_. ()) (rmapM (\<lambda>row. bind_qty_array (Some row) ''reward'') rows)
      | Some _ \<Rightarrow> Inl ''reward is not an array'')"

definition bind_fee_result :: "string \<Rightarrow> json \<Rightarrow> (string, unit) result" where
  "bind_fee_result method v =
     (if method \<in> {''eth_gasPrice'', ''eth_maxPriorityFeePerGas'', ''eth_blobBaseFee''} then
        rbind (ok_or (as_str v) ''fee oracle not a hex quantity'') (\<lambda>s.
          map_err (\<lambda>_. ''fee oracle invalid quantity'') (map_ok (\<lambda>_. ()) (decode_u64 s)))
      else if method = ''eth_feeHistory'' then
        rbind (ok_or (as_object v) ''feeHistory is not an object'') (\<lambda>m.
        rbind (bind_optional_qty (map_of m ''oldestBlock'') ''oldestBlock'') (\<lambda>_.
        rbind (bind_qty_array (map_of m ''baseFeePerGas'') ''baseFeePerGas'') (\<lambda>_.
        rbind (bind_qty_array (map_of m ''baseFeePerBlobGas'') ''baseFeePerBlobGas'') (\<lambda>_.
        rbind (bind_gas_used_ratio (map_of m ''gasUsedRatio'')) (\<lambda>_.
          bind_reward (map_of m ''reward''))))))
      else Inl (''unknown fee method: '' @ method))"

definition bind_fee_oldest_block ::
    "json \<Rightarrow> safe_head \<Rightarrow> verified_block list \<Rightarrow> (int \<times> string, unit) result" where
  "bind_fee_oldest_block v safe chain =
     (case as_object v of
        None \<Rightarrow> Inr ()
      | Some m \<Rightarrow>
          (case map_of m ''oldestBlock'' of
             None \<Rightarrow> Inr ()
           | Some JNull \<Rightarrow> Inr ()
           | Some (JString s) \<Rightarrow>
               rbind (map_err (\<lambda>_. (ERR_PARAMS, ''oldestBlock is not a hex quantity'')) (decode_u64 s)) (\<lambda>n.
                 (case find (\<lambda>b. vb_number b = n) chain of
                    None \<Rightarrow> Inl (ERR_NOT_SYNCED, ''feeHistory oldestBlock not in local verified chain'')
                  | Some local \<Rightarrow>
                      if sh_number safe < vb_number local
                      then Inl (ERR_NOT_SYNCED, ''feeHistory oldestBlock is above local Safe'')
                      else Inr ()))
           | Some _ \<Rightarrow> Inl (ERR_PARAMS, ''oldestBlock not a hex quantity'')))"

section \<open>Mined objects\<close>

definition bind_logs_bloom :: "('pk, 'sg) ext \<Rightarrow> json option \<Rightarrow> (string, unit) result" where
  "bind_logs_bloom X v =
     (case v of
        None \<Rightarrow> Inr ()
      | Some JNull \<Rightarrow> Inr ()
      | Some (JString s) \<Rightarrow>
          map_err (\<lambda>_. ''logsBloom is not 256 bytes'') (map_ok (\<lambda>_. ()) (decode_hex_fixed X 256 s))
      | Some _ \<Rightarrow> Inl ''logsBloom not a hex string'')"

definition bind_mined_fields :: "('pk, 'sg) ext \<Rightarrow> (string \<times> json) list \<Rightarrow> bytes option \<Rightarrow> (string, unit) result" where
  "bind_mined_fields X m want_tx =
     rbind (bind_optional_hash32 X (map_of m ''transactionHash'') ''transactionHash'') (\<lambda>_.
     rbind (bind_optional_hash32 X (map_of m ''hash'') ''hash'') (\<lambda>_.
     rbind (bind_result_tx_hash X m want_tx) (\<lambda>_.
     rbind (bind_optional_chain_id (map_of m ''chainId'')) (\<lambda>_.
     rbind (bind_optional_address X (map_of m ''from'') ''from'' False) (\<lambda>_.
     rbind (bind_optional_address X (map_of m ''to'') ''to'' True) (\<lambda>_.
     rbind (bind_optional_address X (map_of m ''contractAddress'') ''contractAddress'' True) (\<lambda>_.
     rbind (bind_optional_status (map_of m ''status'')) (\<lambda>_.
     rbind (bind_optional_tx_type (map_of m ''type'')) (\<lambda>_.
     rbind (bind_optional_qty (map_of m ''gasUsed'') ''gasUsed'') (\<lambda>_.
     rbind (bind_optional_qty (map_of m ''cumulativeGasUsed'') ''cumulativeGasUsed'') (\<lambda>_.
     rbind (bind_optional_hex_cap X (map_of m ''input'') ''input'' MAX_RAW_TX) (\<lambda>_.
     rbind (bind_optional_hex_cap X (map_of m ''data'') ''data'' MAX_RAW_TX) (\<lambda>_.
     rbind (bind_logs_bloom X (map_of m ''logsBloom'')) (\<lambda>_.
       bind_optional_logs X (map_of m ''logs'') want_tx (Option.bind (map_of m ''blockHash'') as_str)))))))))))))))"

definition block_of_hash :: "('pk, 'sg) ext \<Rightarrow> verified_block list \<Rightarrow> string \<Rightarrow> verified_block option" where
  "block_of_hash X chain hash = find (\<lambda>b. hex_eq_loose (hex0x X (vb_hash b)) hash) chain"

definition bind_mined_block ::
    "('pk, 'sg) ext \<Rightarrow> (string \<times> json) list \<Rightarrow> safe_head \<Rightarrow> verified_block list \<Rightarrow> (string, unit) result" where
  "bind_mined_block X m safe chain =
     (let hash_v = map_of m ''blockHash''; num_v = map_of m ''blockNumber'';
          hash_empty = is_empty_block_hash hash_v; num_empty = is_nullish_json num_v in
      if hash_empty \<and> num_empty then Inr ()
      else if hash_empty \<noteq> num_empty then Inl ''receipt/tx pending fields inconsistent''
      else
        rbind (ok_or (Option.bind hash_v as_str) ''receipt/tx blockHash not a string'') (\<lambda>hash.
        rbind (ok_or (block_of_hash X chain hash) ''receipt/tx blockHash not in local verified chain'') (\<lambda>local.
        if sh_number safe < vb_number local then Inl ''receipt/tx is above local Safe''
        else
          (case Option.bind num_v as_str of
             None \<Rightarrow> Inr ()
           | Some ns \<Rightarrow>
               rbind (map_err (\<lambda>_. ''receipt/tx blockNumber invalid'') (decode_u64 ns)) (\<lambda>n.
                 if n \<noteq> vb_number local then Inl ''receipt/tx blockNumber does not match local header''
                 else Inr ())))))"

definition bind_mined_object ::
    "('pk, 'sg) ext \<Rightarrow> json \<Rightarrow> safe_head \<Rightarrow> verified_block list \<Rightarrow> bytes option \<Rightarrow> (string, unit) result" where
  "bind_mined_object X v safe chain want_tx =
     rbind (ok_or (as_object v) ''unverified result is not an object'') (\<lambda>m.
     rbind (bind_mined_fields X m want_tx) (\<lambda>_.
       bind_mined_block X m safe chain))"

section \<open>What a bound object promises\<close>

lemma bind_mined_object_Inr:
  assumes "bind_mined_object X v safe chain (Some want) = Inr u"
  obtains m where "v = JObject m" "bind_mined_fields X m (Some want) = Inr ()" "bind_mined_block X m safe chain = Inr ()"
  using assms by (cases v) (auto simp: bind_mined_object_def res_simps ok_or_def split: option.splits)

lemma bind_tx_field_Inr:
  "bind_tx_field X m want f = Inr True \<Longrightarrow> \<exists>s. map_of m f = Some (JString s) \<and> decode_hex_fixed X 32 s = Inr want"
  by (auto simp: bind_tx_field_def res_simps split: option.splits json.splits if_splits)

text \<open>An accepted object carries the requested hash, and no other hash.\<close>

lemma bind_result_tx_hash_Inr:
  assumes "bind_result_tx_hash X m (Some want) = Inr u"
  shows "\<exists>f \<in> {''hash'', ''transactionHash''}. \<exists>s. map_of m f = Some (JString s) \<and> decode_hex_fixed X 32 s = Inr want"
  using assms bind_tx_field_Inr by (fastforce simp: bind_result_tx_hash_def res_simps split: if_splits)

lemma bind_mined_block_Inr:
  assumes "bind_mined_block X m safe chain = Inr u"
  shows "(is_empty_block_hash (map_of m ''blockHash'') \<and> is_nullish_json (map_of m ''blockNumber'')) \<or>
     (\<exists>hash b. map_of m ''blockHash'' = Some (JString hash) \<and> b \<in> set chain \<and>
        hex_eq_loose (hex0x X (vb_hash b)) hash \<and> vb_number b \<le> sh_number safe)"
proof -
  have s: "as_str j = Some h \<Longrightarrow> j = JString h" for j h by (cases j) auto
  show ?thesis
    using assms
    by (auto simp: bind_mined_block_def Let_def res_simps ok_or_def block_of_hash_def find_Some_iff not_less
        bind_eq_Some_conv split: if_splits option.splits dest!: s) (metis nth_mem)+
qed

end
