(* ===== verification/Rpc_Blocks.thy ===== *)
theory Rpc_Blocks
  imports Rpc_Validate
begin

text \<open>
  Blocks and transaction envelopes (\<open>rpc_server/blocks.rs\<close>): header reads at or below the safe head, uncle
  answers, and the binding of transaction lists to the sealed \<open>transactionsRoot\<close> behind counts
  and lookups by index.
\<close>

section \<open>Finding a local block\<close>

definition wallet_block_id_str :: "json \<Rightarrow> json option \<Rightarrow> (json, string option) result" where
  "wallet_block_id_str rid raw = map_err (rpc_err rid ERR_PARAMS) (wallet_block_tag_str raw)"

definition wallet_get_block_by_number ::
    "string option \<Rightarrow> nat \<Rightarrow> string \<Rightarrow> verified_block list \<Rightarrow> verified_block option" where
  "wallet_get_block_by_number tag safe_number safe_hash chain =
     (case wallet_block_number_allowed tag safe_number safe_hash of
        None \<Rightarrow> None
      | Some BlockSafe \<Rightarrow> find (\<lambda>b. vb_number b = safe_number) chain
      | Some (BlockNumber n) \<Rightarrow> find (\<lambda>b. vb_number b = n) chain)"

definition wallet_get_block_by_hash ::
    "('pk, 'sg) ext \<Rightarrow> string \<Rightarrow> nat \<Rightarrow> verified_block list \<Rightarrow> verified_block option" where
  "wallet_get_block_by_hash X hash safe_number chain =
     (case decode_hex_fixed X 32 hash of
        Inl _ \<Rightarrow> None
      | Inr want \<Rightarrow> find (\<lambda>b. vb_hash b = want \<and> vb_number b \<le> safe_number) chain)"

definition header_matches_local ::
    "('pk, 'sg) ext \<Rightarrow> rpc_block_header \<Rightarrow> verified_block \<Rightarrow> (int \<times> string, unit) result" where
  "header_matches_local X hdr local =
     rbind (map_err (\<lambda>e. (ERR_PROOF_FAILED, ''proof_verification_failed: '' @ show_types_error e))
       (decode_u64 (h_number hdr))) (\<lambda>got_number.
     if got_number \<noteq> vb_number local
     then Inl (ERR_PROOF_FAILED, ''proof_verification_failed: header number mismatch'')
     else
     rbind (map_err (\<lambda>e. (ERR_STATE_ROOT, ''state_root_mismatch: '' @ show_types_error e))
       (decode_hex_fixed X 32 (h_state_root hdr))) (\<lambda>got_root.
     if got_root \<noteq> vb_state_root local
     then Inl (ERR_STATE_ROOT, ''state_root_mismatch: header stateRoot != local verified'')
     else
     rbind (map_err (\<lambda>e. (ERR_PROOF_FAILED, ''proof_verification_failed: '' @ show_seal_error e))
       (header_hash X hdr)) (\<lambda>computed.
     if computed \<noteq> vb_hash local
     then Inl (ERR_PROOF_FAILED, ''proof_verification_failed: header hash mismatch'')
     else Inr ())))"

definition wants_full_txs :: "json list option \<Rightarrow> bool" where
  "wants_full_txs params \<longleftrightarrow> Option.bind (Option.bind params (\<lambda>p. nth_opt p 1)) as_bool = Some True"

datatype tx_bind = TxEmpty | TxOmitted | TxList "bytes list"

record bound_txs =
  bt_header :: rpc_block_header
  bt_txs :: tx_bind

primrec tx_hashes :: "tx_bind \<Rightarrow> bytes list" where
  "tx_hashes (TxList v) = v"
| "tx_hashes TxEmpty = []"
| "tx_hashes TxOmitted = []"

definition rpc_block_json :: "('pk, 'sg, 'bc) rpc_env \<Rightarrow> rpc_block_header \<Rightarrow> bytes list \<Rightarrow> json" where
  "rpc_block_json V hdr hashes =
     (case sd_header_to (re_serde V) hdr of
        JObject m \<Rightarrow>
          JObject (filter (\<lambda>(k, v). v \<noteq> JNull)
            (obj_insert ''uncles'' (JArray [])
              (obj_insert ''transactions'' (JArray (map (\<lambda>h. JString (hex0x (re_ext V) h)) hashes)) m)))
      | v \<Rightarrow> v)"

definition parse_tx_index :: "json \<Rightarrow> (string, nat) result" where
  "parse_tx_index req =
     rbind (ok_or (Option.bind (Option.bind (req_params req) (\<lambda>p. nth_opt p 1)) as_str) ''transaction index required'') (\<lambda>s.
       map_err (\<lambda>e. ''invalid transaction index: '' @ show_types_error e) (decode_u64 s))"

text \<open>The first parameter is null or a string; the tag is its text.\<close>

definition first_param_bad :: "json list option \<Rightarrow> bool" where
  "first_param_bad params =
     (case Option.bind params (\<lambda>p. nth_opt p 0) of
        None \<Rightarrow> False
      | Some v \<Rightarrow> \<not> is_null v \<and> \<not> is_string v)"

definition first_tag :: "json list option \<Rightarrow> string option" where
  "first_tag params = Option.bind (Option.bind params (\<lambda>p. nth_opt p 0)) (\<lambda>v. if is_null v then None else as_str v)"

section \<open>Headers and lists\<close>

text \<open>An error pair becomes a response.\<close>

definition rpc_pair :: "json \<Rightarrow> (int \<times> string, 'a) result \<Rightarrow> (json, 'a) result" where
  "rpc_pair rid r = map_err (\<lambda>(code, msg). rpc_err rid code msg) r"

definition load_verified_header ::
    "('pk, 'sg, 'bc) rpc_env \<Rightarrow> verified_block \<Rightarrow> server \<Rightarrow> (int \<times> string, rpc_block_header) result \<times> server" where
  "load_verified_header V local s =
     (let (r, s) =
        (case vb_header local of
           Some h \<Rightarrow> (Inr h, s)
         | None \<Rightarrow>
             (map_err (\<lambda>e. (ERR_PROOF_FAILED, ''proof_verification_failed: '' @ show_err e))
                (du_header_by_hash (re_data V (sv_tick s)) (hex0x (re_ext V) (vb_hash local))),
              s\<lparr>sv_tick := sv_tick s + 1\<rparr>))
      in (rbind r (\<lambda>hdr.
            map_ok (\<lambda>_. hdr\<lparr>h_hash := hex0x (re_ext V) (vb_hash local)\<rparr>) (header_matches_local (re_ext V) hdr local)), s))"

definition tx_root_of :: "('pk, 'sg) ext \<Rightarrow> rpc_block_header \<Rightarrow> (int \<times> string, bytes) result" where
  "tx_root_of X hdr =
     map_err (\<lambda>e. (ERR_PROOF_FAILED, ''proof_verification_failed: transactionsRoot: '' @ show_types_error e))
       (decode_hex_fixed X 32 (h_transactions_root hdr))"

definition tx_list_res :: "(tx_list_error, 'a) result \<Rightarrow> (int \<times> string, 'a) result" where
  "tx_list_res r = map_err (\<lambda>e. (ERR_PROOF_FAILED, ''proof_verification_failed: '' @ show_tx_list_error e)) r"

definition upstream_res :: "(err, 'a) result \<Rightarrow> (int \<times> string, 'a) result" where
  "upstream_res r = map_err (\<lambda>e. (ERR_UPSTREAM, ''unverified_upstream: '' @ show_err e)) r"

definition bind_tx_hashes ::
    "('pk, 'sg, 'bc) rpc_env \<Rightarrow> rpc_block_header \<Rightarrow> server \<Rightarrow> (int \<times> string, tx_bind) result \<times> server" where
  "bind_tx_hashes V hdr s =
     (case tx_root_of (re_ext V) hdr of
        Inl e \<Rightarrow> (Inl e, s)
      | Inr root \<Rightarrow>
          if root = EMPTY_TRIE_ROOT then (Inr TxEmpty, s)
          else
            (rbind (upstream_res (du_block_raw_transactions (re_data V (sv_tick s)) (h_hash hdr))) (\<lambda>raws.
               if raws = [] then Inr TxOmitted
               else map_ok TxList (tx_list_res (verify_tx_list (re_ext V) raws root))),
             s\<lparr>sv_tick := sv_tick s + 1\<rparr>))"

definition bind_tx_envelopes ::
    "('pk, 'sg, 'bc) rpc_env \<Rightarrow> rpc_block_header \<Rightarrow> server \<Rightarrow> (int \<times> string, bytes list option) result \<times> server" where
  "bind_tx_envelopes V hdr s =
     (case tx_root_of (re_ext V) hdr of
        Inl e \<Rightarrow> (Inl e, s)
      | Inr root \<Rightarrow>
          if root = EMPTY_TRIE_ROOT then (Inr None, s)
          else
            (rbind (upstream_res (du_block_raw_transactions (re_data V (sv_tick s)) (h_hash hdr))) (\<lambda>raws.
               if raws = [] then Inr None
               else map_ok (\<lambda>_. Some raws) (tx_list_res (verify_tx_list (re_ext V) raws root))),
             s\<lparr>sv_tick := sv_tick s + 1\<rparr>))"

definition bound_block_txs ::
    "('pk, 'sg, 'bc) rpc_env \<Rightarrow> verified_block \<Rightarrow> server \<Rightarrow> (int \<times> string, bound_txs) result \<times> server" where
  "bound_block_txs V local s =
     then_step (load_verified_header V local s) (\<lambda>hdr s.
     then_step (bind_tx_hashes V hdr s) (\<lambda>txs s.
       (Inr \<lparr>bt_header = hdr, bt_txs = txs\<rparr>, s)))"

definition with_rid :: "json \<Rightarrow> (server \<Rightarrow> (int \<times> string, 'a) result \<times> server) \<Rightarrow> 'a handler" where
  "with_rid rid m = (\<lambda>s. case m s of (r, s') \<Rightarrow> (rpc_pair rid r, s'))"

definition verified_header_json :: "('pk, 'sg, 'bc) rpc_env \<Rightarrow> json \<Rightarrow> verified_block \<Rightarrow> json handler" where
  "verified_header_json V rid local =
     hbind (with_rid rid (bound_block_txs V local)) (\<lambda>bound.
       hres (Inr (rpc_ok rid (rpc_block_json V (bt_header bound) (tx_hashes (bt_txs bound))))))"

section \<open>Handlers\<close>

definition get_block_by_number :: "('pk, 'sg, 'bc) rpc_env \<Rightarrow> json \<Rightarrow> json \<Rightarrow> json handler" where
  "get_block_by_number V rid req =
     (let params = req_params req in
      hbind (hcheck (first_param_bad params) (rpc_err rid ERR_PARAMS ''invalid params'')) (\<lambda>_.
      hbind (hcheck (wants_full_txs params) (rpc_err rid ERR_METHOD ''method_unsupported'')) (\<lambda>_.
      hbind (hrefresh V rid) (\<lambda>(tip, safe).
      hbind (hcheck (wallet_block_number_allowed (first_tag params) (sh_number safe) (sh_hash safe) = None)
              (rpc_err rid ERR_NOT_SYNCED WALLET_TAG_ONLY)) (\<lambda>_.
      hbind hchain (\<lambda>chain.
      hbind (hopt (wallet_get_block_by_number (first_tag params) (sh_number safe) (sh_hash safe) chain)
              (rpc_err rid ERR_NOT_SYNCED WALLET_TAG_ONLY)) (\<lambda>local.
        verified_header_json V rid local)))))))"

definition local_block_by_number :: "('pk, 'sg, 'bc) rpc_env \<Rightarrow> json \<Rightarrow> verified_block handler" where
  "local_block_by_number V req =
     (let rid = rid_of req; params = req_params req in
      hbind (hcheck (first_param_bad params) (rpc_err rid ERR_PARAMS ''invalid params'')) (\<lambda>_.
      hbind (hrefresh V rid) (\<lambda>(tip, safe).
      hbind (hcheck (wallet_block_number_allowed (first_tag params) (sh_number safe) (sh_hash safe) = None)
              (rpc_err rid ERR_NOT_SYNCED WALLET_TAG_ONLY)) (\<lambda>_.
      hbind hchain (\<lambda>chain.
        hopt (wallet_get_block_by_number (first_tag params) (sh_number safe) (sh_hash safe) chain)
          (rpc_err rid ERR_NOT_SYNCED WALLET_TAG_ONLY))))))"

definition local_block_by_hash :: "('pk, 'sg, 'bc) rpc_env \<Rightarrow> json \<Rightarrow> verified_block handler" where
  "local_block_by_hash V req =
     (let rid = rid_of req in
      hbind (hopt (req_params req) (rpc_err rid ERR_PARAMS ''invalid params'')) (\<lambda>params.
      hbind (hopt (Option.bind (nth_opt params 0) as_str) (rpc_err rid ERR_PARAMS ''block hash required'')) (\<lambda>hash.
      hbind (hcheck (\<not> is_ok (decode_hex_fixed (re_ext V) 32 hash)) (rpc_err rid ERR_PARAMS ''bad block hash'')) (\<lambda>_.
      hbind (hrefresh V rid) (\<lambda>(tip, safe).
      hbind hchain (\<lambda>chain.
        hopt (wallet_get_block_by_hash (re_ext V) hash (sh_number safe) chain)
          (rpc_err rid ERR_NOT_SYNCED WALLET_HASH_ONLY)))))))"

text \<open>Uncle counts and uncles: constants of Parlia, behind the block lookup.\<close>

definition uncle_count_by_number :: "('pk, 'sg, 'bc) rpc_env \<Rightarrow> json \<Rightarrow> json \<Rightarrow> json handler" where
  "uncle_count_by_number V rid req = hbind (local_block_by_number V req) (\<lambda>_. hres (Inr (rpc_ok rid (JString ''0x0''))))"

definition uncle_count_by_hash :: "('pk, 'sg, 'bc) rpc_env \<Rightarrow> json \<Rightarrow> json \<Rightarrow> json handler" where
  "uncle_count_by_hash V rid req = hbind (local_block_by_hash V req) (\<lambda>_. hres (Inr (rpc_ok rid (JString ''0x0''))))"

definition uncle_by_number :: "('pk, 'sg, 'bc) rpc_env \<Rightarrow> json \<Rightarrow> json \<Rightarrow> json handler" where
  "uncle_by_number V rid req = hbind (local_block_by_number V req) (\<lambda>_. hres (Inr (rpc_ok rid JNull)))"

definition uncle_by_hash :: "('pk, 'sg, 'bc) rpc_env \<Rightarrow> json \<Rightarrow> json \<Rightarrow> json handler" where
  "uncle_by_hash V rid req = hbind (local_block_by_hash V req) (\<lambda>_. hres (Inr (rpc_ok rid JNull)))"

definition get_block_by_hash :: "('pk, 'sg, 'bc) rpc_env \<Rightarrow> json \<Rightarrow> json \<Rightarrow> json handler" where
  "get_block_by_hash V rid req =
     hbind (hopt (req_params req) (rpc_err rid ERR_PARAMS ''invalid params'')) (\<lambda>params.
     hbind (hopt (Option.bind (nth_opt params 0) as_str) (rpc_err rid ERR_PARAMS ''block hash required'')) (\<lambda>hash.
     hbind (hcheck (wants_full_txs (Some params)) (rpc_err rid ERR_METHOD ''method_unsupported'')) (\<lambda>_.
     hbind (hcheck (\<not> is_ok (decode_hex_fixed (re_ext V) 32 hash)) (rpc_err rid ERR_PARAMS ''bad block hash'')) (\<lambda>_.
     hbind (hrefresh V rid) (\<lambda>(tip, safe).
     hbind hchain (\<lambda>chain.
     hbind (hopt (wallet_get_block_by_hash (re_ext V) hash (sh_number safe) chain)
             (rpc_err rid ERR_NOT_SYNCED WALLET_HASH_ONLY)) (\<lambda>local.
       verified_header_json V rid local)))))))"

definition local_block_by_number_or_hash :: "('pk, 'sg, 'bc) rpc_env \<Rightarrow> json \<Rightarrow> verified_block handler" where
  "local_block_by_number_or_hash V req =
     (if (case first_str req of None \<Rightarrow> False | Some t \<Rightarrow> is_ok (decode_hex_fixed (re_ext V) 32 t))
      then local_block_by_hash V req else local_block_by_number V req)"

definition TX_ENVELOPES_UNAVAILABLE :: string where
  "TX_ENVELOPES_UNAVAILABLE = ''proof_verification_failed: upstream served no transaction envelopes''"

definition verified_tx_count :: "('pk, 'sg, 'bc) rpc_env \<Rightarrow> json \<Rightarrow> verified_block \<Rightarrow> json handler" where
  "verified_tx_count V rid local =
     hbind (with_rid rid (bound_block_txs V local)) (\<lambda>bound.
       hres (case bt_txs bound of
               TxEmpty \<Rightarrow> Inr (rpc_ok rid (JString ''0x0''))
             | TxList v \<Rightarrow> Inr (rpc_ok rid (JString (qty (length v))))
             | TxOmitted \<Rightarrow> Inl (rpc_err rid ERR_PROOF_FAILED TX_ENVELOPES_UNAVAILABLE)))"

definition tx_count_by_number :: "('pk, 'sg, 'bc) rpc_env \<Rightarrow> json \<Rightarrow> json \<Rightarrow> json handler" where
  "tx_count_by_number V rid req = hbind (local_block_by_number V req) (verified_tx_count V rid)"

definition tx_count_by_hash :: "('pk, 'sg, 'bc) rpc_env \<Rightarrow> json \<Rightarrow> json \<Rightarrow> json handler" where
  "tx_count_by_hash V rid req = hbind (local_block_by_hash V req) (verified_tx_count V rid)"

text \<open>\<open>usize::try_from\<close> of the index cannot fail on a 64-bit target.\<close>

definition tx_at_index :: "('pk, 'sg, 'bc) rpc_env \<Rightarrow> json \<Rightarrow> verified_block \<Rightarrow> nat \<Rightarrow> json handler" where
  "tx_at_index V rid local index =
     hbind (with_rid rid (bound_block_txs V local)) (\<lambda>bound.
       hres (if bt_txs bound = TxOmitted then Inl (rpc_err rid ERR_PROOF_FAILED TX_ENVELOPES_UNAVAILABLE)
             else
               (case nth_opt (tx_hashes (bt_txs bound)) index of
                  None \<Rightarrow> Inr (rpc_ok rid JNull)
                | Some hash \<Rightarrow>
                    Inr (rpc_ok rid (JObject
                      [(''hash'', JString (hex0x (re_ext V) hash)), (''blockHash'', JString (h_hash (bt_header bound))),
                       (''blockNumber'', JString (h_number (bt_header bound))),
                       (''transactionIndex'', JString (qty index))])))))"

definition tx_by_block_number_and_index :: "('pk, 'sg, 'bc) rpc_env \<Rightarrow> json \<Rightarrow> json \<Rightarrow> json handler" where
  "tx_by_block_number_and_index V rid req =
     hbind (local_block_by_number V req) (\<lambda>local.
     hbind (hres (map_err (rpc_err rid ERR_PARAMS) (parse_tx_index req))) (\<lambda>index.
       tx_at_index V rid local index))"

definition tx_by_block_hash_and_index :: "('pk, 'sg, 'bc) rpc_env \<Rightarrow> json \<Rightarrow> json \<Rightarrow> json handler" where
  "tx_by_block_hash_and_index V rid req =
     hbind (local_block_by_hash V req) (\<lambda>local.
     hbind (hres (map_err (rpc_err rid ERR_PARAMS) (parse_tx_index req))) (\<lambda>index.
       tx_at_index V rid local index))"

end
