(* ===== verification/Rpc_State.thy ===== *)
theory Rpc_State
  imports Rpc_Blocks
begin

text \<open>
  Account state (\<open>rpc_server/state.rs\<close>): balance, nonce, code, storage and \<open>eth_getProof\<close>, each a Merkle
  proof against the state root of a block this client verified.
\<close>

section \<open>Parameters\<close>

definition parse_slot :: "('pk, 'sg) ext \<Rightarrow> string \<Rightarrow> (string, bytes) result" where
  "parse_slot X s =
     (if s = [] then Inl ''storage key is not a hex quantity''
      else
        let raw = trim_all_0x s in
        if \<not> list_all is_hexdigit raw then Inl ''storage key is not a hex quantity''
        else if 64 < length raw then Inl ''storage key is not 32 bytes''
        else
          let even = (if length raw mod 2 = 1 then CHR ''0'' # raw else raw) in
          rbind (map_err (\<lambda>e. ''bad slot: '' @ e) (hex_decode X even)) (\<lambda>b.
            if 32 < length b then Inl ''storage key is not 32 bytes'' else Inr (pad32 b)))"

fun parse_storage_keys :: "('pk, 'sg) ext \<Rightarrow> json option \<Rightarrow> (string, string list) result" where
  "parse_storage_keys X None = Inr []"
| "parse_storage_keys X (Some JNull) = Inr []"
| "parse_storage_keys X (Some (JArray a)) =
     (if Wire.MAX_PROOF_STORAGE_KEYS < length a then Inl ''too many storage keys''
      else rmapM (\<lambda>x.
        rbind (ok_or (as_str x) ''storage key is not a hex quantity'') (\<lambda>s.
        map_ok (\<lambda>_. s) (parse_slot X s))) a)"
| "parse_storage_keys X (Some _) = Inl ''storage keys must be an array''"

datatype account_field_t = Balance | Nonce

section \<open>The block to read at\<close>

definition window_text :: "nat \<Rightarrow> string" where
  "window_text lag = ''proof window exceeded: lag '' @ show_nat lag @ '' > '' @ show_nat PROVIDER_PROOF_LOOKBACK"

definition resolve_wallet_exec_block_in ::
    "('pk, 'sg) ext \<Rightarrow> json \<Rightarrow> string option \<Rightarrow> nat \<Rightarrow> safe_head \<Rightarrow> verified_block list \<Rightarrow> (json, verified_block) result" where
  "resolve_wallet_exec_block_in X rid tag tip safe chain =
     (case (case wallet_get_block_by_number tag (sh_number safe) (sh_hash safe) chain of
              Some b \<Rightarrow> Some b
            | None \<Rightarrow> Option.bind tag (\<lambda>t. wallet_get_block_by_hash X t (sh_number safe) chain)) of
        None \<Rightarrow> Inl (rpc_err rid ERR_NOT_SYNCED WALLET_TAG_ONLY)
      | Some local \<Rightarrow>
          let lag = proof_lag tip (vb_number local) in
          if PROVIDER_PROOF_LOOKBACK < lag then Inl (rpc_err rid ERR_NOT_SYNCED (window_text lag))
          else Inr local)"

definition resolve_wallet_exec_block ::
    "('pk, 'sg) ext \<Rightarrow> json \<Rightarrow> string option \<Rightarrow> nat \<Rightarrow> safe_head \<Rightarrow> verified_block handler" where
  "resolve_wallet_exec_block X rid tag tip safe =
     hbind hchain (\<lambda>chain. hres (resolve_wallet_exec_block_in X rid tag tip safe chain))"

section \<open>Proofs\<close>

definition proof_failed :: "json \<Rightarrow> string \<Rightarrow> json" where
  "proof_failed rid t = rpc_err rid ERR_PROOF_FAILED (''proof_verification_failed: '' @ t)"

text \<open>A failed result counts as a failed proof before it ends the request.\<close>

definition counted :: "json \<Rightarrow> (string, 'a) result \<Rightarrow> 'a handler" where
  "counted rid r =
     (case r of
        Inr a \<Rightarrow> hres (Inr a)
      | Inl t \<Rightarrow> hbind (hupdate bump_proof_fail) (\<lambda>_. hres (Inl (proof_failed rid t))))"

definition verified_proof ::
    "('pk, 'sg, 'bc) rpc_env \<Rightarrow> json \<Rightarrow> string \<Rightarrow> nat \<Rightarrow> verified_block \<Rightarrow> string list \<Rightarrow>
     (verified_account \<times> eth_account_proof) handler" where
  "verified_proof V rid addr tip exec keys =
     (let X = re_ext V; lag = proof_lag tip (vb_number exec) in
      hbind (hcheck (PROVIDER_PROOF_LOOKBACK < lag) (rpc_err rid ERR_NOT_SYNCED (window_text lag))) (\<lambda>_.
      hbind (hask V 3 (\<lambda>up. get_proof_at_safe up addr keys (hex0x X (vb_hash exec)) (vb_number exec))) (\<lambda>answer.
      hbind (counted rid (map_err show_err answer)) (\<lambda>raw.
      hbind (counted rid (sd_proof_from (re_serde V) raw)) (\<lambda>pr.
      hbind (hres (map_err (\<lambda>e. rpc_err rid ERR_PARAMS (''bad address: '' @ show_types_error e))
              (decode_hex_fixed X 20 addr))) (\<lambda>want.
      hbind (counted rid (map_err show_proof_error (verify_eth_get_proof X (vb_state_root exec) want pr))) (\<lambda>acc.
      hbind (hupdate bump_proof_ok) (\<lambda>_.
        hres (Inr (acc, pr))))))))))"

definition verified_account_at ::
    "('pk, 'sg, 'bc) rpc_env \<Rightarrow> json \<Rightarrow> string \<Rightarrow> nat \<Rightarrow> verified_block \<Rightarrow> verified_account handler" where
  "verified_account_at V rid addr tip exec =
     hbind (verified_proof V rid addr tip exec []) (\<lambda>(acc, _). hres (Inr acc))"

section \<open>Handlers\<close>

text \<open>What the state handlers start with: parameters, then the address.\<close>

definition params_and_address ::
    "('pk, 'sg) ext \<Rightarrow> json \<Rightarrow> json \<Rightarrow> (json list \<times> string) handler" where
  "params_and_address X rid req =
     hbind (hopt (req_params req) (rpc_err rid ERR_PARAMS ''invalid params'')) (\<lambda>params.
     hbind (hopt (Option.bind (nth_opt params 0) as_str) (rpc_err rid ERR_PARAMS ''address required'')) (\<lambda>addr.
     hbind (hres (map_err (rpc_err rid ERR_PARAMS) (require_rpc_address X addr))) (\<lambda>_.
       hres (Inr (params, addr)))))"

definition exec_block ::
    "('pk, 'sg, 'bc) rpc_env \<Rightarrow> json \<Rightarrow> string option \<Rightarrow> (nat \<times> verified_block) handler" where
  "exec_block V rid tag =
     hbind (hrefresh V rid) (\<lambda>(tip, safe).
     hbind (resolve_wallet_exec_block (re_ext V) rid tag tip safe) (\<lambda>local.
       hres (Inr (tip, local))))"

definition account_field :: "('pk, 'sg, 'bc) rpc_env \<Rightarrow> json \<Rightarrow> json \<Rightarrow> account_field_t \<Rightarrow> json handler" where
  "account_field V rid req field =
     hbind (params_and_address (re_ext V) rid req) (\<lambda>(params, addr).
     hbind (hres (wallet_block_id_str rid (nth_opt params 1))) (\<lambda>tag.
     hbind (exec_block V rid tag) (\<lambda>(tip, local).
     hbind (verified_account_at V rid addr tip local) (\<lambda>acc.
       hres (Inr (case field of
                    Balance \<Rightarrow> rpc_ok rid (JString (encode_qty (re_ext V) (va_balance_wei acc)))
                  | Nonce \<Rightarrow> rpc_ok rid (JString (qty (va_nonce acc)))))))))"

definition get_code :: "('pk, 'sg, 'bc) rpc_env \<Rightarrow> json \<Rightarrow> json \<Rightarrow> json handler" where
  "get_code V rid req =
     (let X = re_ext V in
      hbind (params_and_address X rid req) (\<lambda>(params, addr).
      hbind (hres (wallet_block_id_str rid (nth_opt params 1))) (\<lambda>tag.
      hbind (exec_block V rid tag) (\<lambda>(tip, local).
      hbind (verified_account_at V rid addr tip local) (\<lambda>acc.
      if va_code_hash acc = EMPTY_CODE_HASH then hres (Inr (rpc_ok rid (JString ''0x'')))
      else
        hbind (hask V 2 (\<lambda>up. get_code_at up addr (hex0x X (vb_hash local)) (qty (vb_number local)))) (\<lambda>answer.
        hbind (hres (map_err (\<lambda>e. proof_failed rid (show_err e)) answer)) (\<lambda>code.
        hbind (hcheck (MAX_CODE_SIZE < length code) (rpc_err rid ERR_PROOF_FAILED ''bytecode exceeds MaxCodeSize'')) (\<lambda>_.
        hbind (hres (map_err (\<lambda>e. proof_failed rid (show_proof_error e)) (verify_account_code X acc code))) (\<lambda>_.
          hres (Inr (rpc_ok rid (JString (hex0x X code)))))))))))))"

text \<open>The slots a caller named, each checked against the response; the first failure counts and ends the request.\<close>

fun check_keys ::
    "('pk, 'sg) ext \<Rightarrow> json \<Rightarrow> verified_account \<Rightarrow> eth_account_proof \<Rightarrow> string list \<Rightarrow> unit handler" where
  "check_keys X rid acc pr [] = hres (Inr ())"
| "check_keys X rid acc pr (k # ks) =
     hbind (hres (map_err (rpc_err rid ERR_PARAMS) (parse_slot X k))) (\<lambda>slot.
     hbind (counted rid (map_err show_proof_error (verify_storage_slot X acc slot pr))) (\<lambda>_.
       check_keys X rid acc pr ks))"

definition get_eth_proof :: "('pk, 'sg, 'bc) rpc_env \<Rightarrow> json \<Rightarrow> json \<Rightarrow> json handler" where
  "get_eth_proof V rid req =
     (let X = re_ext V in
      hbind (params_and_address X rid req) (\<lambda>(params, addr).
      hbind (hres (map_err (rpc_err rid ERR_PARAMS) (parse_storage_keys X (nth_opt params 1)))) (\<lambda>keys.
      hbind (hres (wallet_block_id_str rid (nth_opt params 2))) (\<lambda>tag.
      hbind (exec_block V rid tag) (\<lambda>(tip, local).
      hbind (verified_proof V rid addr tip local keys) (\<lambda>(acc, pr).
      let pr = pr\<lparr>ep_address := hex0x X (va_address acc), ep_nonce := qty (va_nonce acc),
                  ep_balance := encode_qty X (va_balance_wei acc), ep_code_hash := hex0x X (va_code_hash acc),
                  ep_storage_hash := hex0x X (va_storage_root acc)\<rparr> in
      hbind (check_keys X rid acc pr keys) (\<lambda>_.
      hres (map_err (proof_failed rid) (map_ok (rpc_ok rid)
        (sd_proof_to (re_serde V) (retain_requested_storage X pr keys)))))))))))"

definition get_storage :: "('pk, 'sg, 'bc) rpc_env \<Rightarrow> json \<Rightarrow> json \<Rightarrow> json handler" where
  "get_storage V rid req =
     (let X = re_ext V in
      hbind (params_and_address X rid req) (\<lambda>(params, addr).
      hbind (hopt (Option.bind (nth_opt params 1) as_str) (rpc_err rid ERR_PARAMS ''storage slot required'')) (\<lambda>slot_hex.
      hbind (hres (wallet_block_id_str rid (nth_opt params 2))) (\<lambda>tag.
      hbind (hres (map_err (rpc_err rid ERR_PARAMS) (parse_slot X slot_hex))) (\<lambda>slot.
      hbind (exec_block V rid tag) (\<lambda>(tip, local).
      hbind (verified_proof V rid addr tip local [hex0x X slot]) (\<lambda>(acc, pr).
        hres (map_err (\<lambda>e. proof_failed rid (show_proof_error e))
          (map_ok (\<lambda>val. rpc_ok rid (JString (encode_data32 X val))) (verify_storage_slot X acc slot pr))))))))))"

end
