(* ===== verification/Rpc_Receipts.thy ===== *)
theory Rpc_Receipts
  imports Rpc_Blocks
begin

text \<open>
  Receipts, raw transactions and the opt-in unverified passthrough (\<open>rpc_server/receipts.rs\<close>): consensus
  receipts re-encoded from untrusted JSON and bound to the sealed \<open>receiptsRoot\<close>, labels and
  derived fields taken from envelopes bound to the sealed \<open>transactionsRoot\<close>.
\<close>

section \<open>Data\<close>

record bound_receipt =
  br_json :: json
  br_tx_hash :: "bytes option"
  br_logs :: "consensus_log list"

datatype receipt_bind = ReceiptEmpty | ReceiptOmitted | ReceiptList "bound_receipt list"

record parsed_receipt =
  pr_consensus :: consensus_receipt
  pr_tx_hash :: "bytes option"

type_synonym object = "(string \<times> json) list"

text \<open>A string field that must be there: the two error texts.\<close>

definition need_str :: "object \<Rightarrow> string \<Rightarrow> string \<Rightarrow> (string, string) result" where
  "need_str m k missing = (case map_of m k of Some (JString s) \<Rightarrow> Inr s | _ \<Rightarrow> Inl missing)"

section \<open>Logs\<close>

definition rpc_log_json ::
    "('pk, 'sg) ext \<Rightarrow> consensus_log \<Rightarrow> rpc_block_header \<Rightarrow> bytes option \<Rightarrow> nat \<Rightarrow> nat \<Rightarrow> json" where
  "rpc_log_json X log hdr tx_hash tx_index log_index =
     JObject
       [(''address'', JString (hex0x X (log_address log))),
        (''topics'', JArray (map (\<lambda>t. JString (hex0x X t)) (log_topics log))),
        (''data'', JString (hex0x X (log_data log))),
        (''blockNumber'', JString (h_number hdr)),
        (''blockHash'', JString (h_hash hdr)),
        (''transactionHash'', (case tx_hash of None \<Rightarrow> JNull | Some h \<Rightarrow> JString (hex0x X h))),
        (''transactionIndex'', JString (qty tx_index)),
        (''logIndex'', JString (qty log_index)),
        (''removed'', JBool False)]"

definition topics_field :: "('pk, 'sg) ext \<Rightarrow> json option \<Rightarrow> (string, bytes list) result" where
  "topics_field X v =
     (case v of
        None \<Rightarrow> Inr []
      | Some JNull \<Rightarrow> Inr []
      | Some (JArray arr) \<Rightarrow>
          if MAX_LOG_TOPICS < length arr then Inl ''too many log topics''
          else rmapM (topic_bytes X ''log topic not a string'' ''log topic is not 32 bytes'') arr
      | Some _ \<Rightarrow> Inl ''log.topics is not an array'')"

definition data_field :: "('pk, 'sg) ext \<Rightarrow> json option \<Rightarrow> (string, bytes) result" where
  "data_field X v =
     (case v of
        None \<Rightarrow> Inr []
      | Some JNull \<Rightarrow> Inr []
      | Some (JString s) \<Rightarrow>
          rbind (map_err (\<lambda>_. ''log.data is not hex'') (decode_hex X s)) (\<lambda>b.
            if MAX_LOG_DATA < length b then Inl ''log.data too large'' else Inr b)
      | Some _ \<Rightarrow> Inl ''log.data not a hex string'')"

definition parse_consensus_log_json :: "('pk, 'sg) ext \<Rightarrow> json \<Rightarrow> (string, consensus_log) result" where
  "parse_consensus_log_json X v =
     rbind (ok_or (as_object v) ''log is not an object'') (\<lambda>m.
     rbind (need_str m ''address'' ''log.address missing'') (\<lambda>s.
     rbind (map_err (\<lambda>_. ''log.address is not 20 bytes'') (decode_hex_fixed X 20 s)) (\<lambda>address.
     rbind (topics_field X (map_of m ''topics'')) (\<lambda>topics.
     rbind (data_field X (map_of m ''data'')) (\<lambda>data.
       Inr \<lparr>log_address = address, log_topics = topics, log_data = data\<rparr>)))))"

section \<open>Receipts\<close>

definition status_field :: "object \<Rightarrow> (string, nat) result" where
  "status_field m =
     rbind (need_str m ''status'' ''status missing'') (\<lambda>s.
     rbind (map_err (\<lambda>_. ''status invalid'') (decode_u64 s)) (\<lambda>n.
       if 1 < n then Inl ''status is not 0x0 or 0x1'' else Inr n))"

definition type_field :: "object \<Rightarrow> (string, nat) result" where
  "type_field m =
     (case map_of m ''type'' of
        None \<Rightarrow> Inr 0
      | Some JNull \<Rightarrow> Inr 0
      | Some (JString s) \<Rightarrow>
          rbind (map_err (\<lambda>_. ''type invalid'') (decode_u64 s)) (\<lambda>n.
            if 4 < n then Inl ''tx type is not 0x0..=0x4'' else Inr n)
      | Some _ \<Rightarrow> Inl ''type not a hex quantity'')"

definition logs_field :: "('pk, 'sg) ext \<Rightarrow> object \<Rightarrow> (string, consensus_log list) result" where
  "logs_field X m =
     (case map_of m ''logs'' of
        None \<Rightarrow> Inr []
      | Some JNull \<Rightarrow> Inr []
      | Some (JArray arr) \<Rightarrow>
          if MAX_RECEIPT_LOGS < length arr then Inl ''too many logs''
          else rmapM (parse_consensus_log_json X) arr
      | Some _ \<Rightarrow> Inl ''logs not an array'')"

definition tx_hash_field :: "('pk, 'sg) ext \<Rightarrow> object \<Rightarrow> (string, bytes option) result" where
  "tx_hash_field X m =
     (case map_of m ''transactionHash'' of
        None \<Rightarrow> Inr None
      | Some JNull \<Rightarrow> Inr None
      | Some (JString s) \<Rightarrow>
          map_ok Some (map_err (\<lambda>_. ''transactionHash is not a 32-byte hash'') (decode_hex_fixed X 32 s))
      | Some _ \<Rightarrow> Inl ''transactionHash not a string'')"

definition parse_consensus_receipt_json :: "('pk, 'sg) ext \<Rightarrow> json \<Rightarrow> (string, parsed_receipt) result" where
  "parse_consensus_receipt_json X v =
     rbind (ok_or (as_object v) ''receipt is not an object'') (\<lambda>m.
     rbind (status_field m) (\<lambda>status.
     rbind (rbind (need_str m ''cumulativeGasUsed'' ''cumulativeGasUsed missing'') (\<lambda>s.
              map_err (\<lambda>_. ''cumulativeGasUsed is not a hex quantity'') (decode_u64 s))) (\<lambda>cumulative.
     rbind (rbind (need_str m ''logsBloom'' ''logsBloom missing'') (\<lambda>s.
              map_err (\<lambda>_. ''logsBloom is not 256 bytes'') (decode_hex_fixed X 256 s))) (\<lambda>bloom.
     rbind (type_field m) (\<lambda>tx_type.
     rbind (logs_field X m) (\<lambda>logs.
     rbind (tx_hash_field X m) (\<lambda>tx_hash.
     rbind (bind_optional_address X (map_of m ''from'') ''from'' False) (\<lambda>_.
     rbind (bind_optional_address X (map_of m ''to'') ''to'' True) (\<lambda>_.
     rbind (bind_optional_address X (map_of m ''contractAddress'') ''contractAddress'' True) (\<lambda>_.
     rbind (bind_optional_qty (map_of m ''gasUsed'') ''gasUsed'') (\<lambda>_.
     rbind (bind_optional_qty (map_of m ''effectiveGasPrice'') ''effectiveGasPrice'') (\<lambda>_.
       Inr \<lparr>pr_consensus = \<lparr>rc_status = status, rc_cumulative_gas_used = cumulative, rc_logs_bloom = bloom,
                             rc_logs = logs, rc_tx_type = tx_type\<rparr>,
            pr_tx_hash = tx_hash\<rparr>))))))))))))"

text \<open>\<open>enumerate\<close> with a function of the index.\<close>

definition map_indexed :: "(nat \<Rightarrow> 'a \<Rightarrow> 'b) \<Rightarrow> 'a list \<Rightarrow> 'b list" where
  "map_indexed f xs = map (\<lambda>(i, x). f i x) (zip [0..<length xs] xs)"

definition decorate_receipt_json ::
    "('pk, 'sg) ext \<Rightarrow> json \<Rightarrow> rpc_block_header \<Rightarrow> nat \<Rightarrow> bytes option \<Rightarrow> consensus_log list \<Rightarrow> nat \<Rightarrow> nat \<Rightarrow> json" where
  "decorate_receipt_json X v hdr index tx_hash logs first_log_index gas_used =
     (case v of
        JObject m0 \<Rightarrow>
          let m1 = obj_insert ''blockHash'' (JString (h_hash hdr)) m0;
              m2 = obj_insert ''blockNumber'' (JString (h_number hdr)) m1;
              m3 = obj_insert ''transactionIndex'' (JString (qty index)) m2;
              m4 = obj_insert ''gasUsed'' (JString (qty gas_used)) m3;
              m5 = (case tx_hash of
                      None \<Rightarrow> m4
                    | Some h \<Rightarrow> obj_insert ''transactionHash'' (JString (hex0x X h)) m4);
              rebuilt = map_indexed (\<lambda>j log. rpc_log_json X log hdr tx_hash index (sat_add first_log_index j)) logs
          in JObject (obj_insert ''logs'' (JArray rebuilt) m5)
      | _ \<Rightarrow> v)"

definition set_log_hash :: "json \<Rightarrow> json \<Rightarrow> json" where
  "set_log_hash hx log =
     (case log of JObject m \<Rightarrow> JObject (obj_insert ''transactionHash'' hx m) | _ \<Rightarrow> log)"

definition set_transaction_hash :: "('pk, 'sg) ext \<Rightarrow> bytes \<Rightarrow> json \<Rightarrow> json" where
  "set_transaction_hash X h v =
     (let hx = JString (hex0x X h) in
      case v of
        JObject m \<Rightarrow>
          let m = obj_insert ''transactionHash'' hx m in
          (case map_of m ''logs'' of
             Some (JArray logs) \<Rightarrow> JObject (obj_insert ''logs'' (JArray (map (set_log_hash hx) logs)) m)
           | _ \<Rightarrow> JObject m)
      | _ \<Rightarrow> v)"

section \<open>Log filters\<close>

text \<open>A filter object that may be absent.\<close>

definition filter_get :: "object option \<Rightarrow> string \<Rightarrow> json option" where
  "filter_get f k = Option.bind f (\<lambda>m. map_of m k)"

definition address_bytes :: "('pk, 'sg) ext \<Rightarrow> json \<Rightarrow> (string, bytes) result" where
  "address_bytes X x =
     rbind (ok_or (as_str x) ''address is not 20 bytes'') (\<lambda>s.
       map_err (\<lambda>_. ''address is not 20 bytes'') (decode_hex_fixed X 20 s))"

definition parse_log_addresses :: "('pk, 'sg) ext \<Rightarrow> object option \<Rightarrow> (string, bytes list) result" where
  "parse_log_addresses X f =
     (case filter_get f ''address'' of
        None \<Rightarrow> Inr []
      | Some JNull \<Rightarrow> Inr []
      | Some (JString s) \<Rightarrow> map_ok (\<lambda>a. [a]) (address_bytes X (JString s))
      | Some (JArray arr) \<Rightarrow> rmapM (address_bytes X) arr
      | Some _ \<Rightarrow> Inl ''address must be a 20-byte hex or array'')"

definition parse_topic_spec :: "('pk, 'sg) ext \<Rightarrow> json \<Rightarrow> (string, bytes list option) result" where
  "parse_topic_spec X v =
     (case v of
        JNull \<Rightarrow> Inr None
      | JString s \<Rightarrow> map_ok (\<lambda>t. Some [t]) (topic_bytes X ''topic is not 32 bytes'' ''topic is not 32 bytes'' v)
      | JArray arr \<Rightarrow> map_ok Some (rmapM (topic_bytes X ''topic is not 32 bytes'' ''topic is not 32 bytes'') arr)
      | _ \<Rightarrow> Inl ''topic must be null, 32-byte hex, or array of 32-byte hex'')"

definition parse_log_topics :: "('pk, 'sg) ext \<Rightarrow> object option \<Rightarrow> (string, bytes list option list) result" where
  "parse_log_topics X f =
     (case filter_get f ''topics'' of
        None \<Rightarrow> Inr []
      | Some JNull \<Rightarrow> Inr []
      | Some (JArray arr) \<Rightarrow>
          if MAX_LOG_TOPICS < length arr then Inl ''too many topics (max 4)'' else rmapM (parse_topic_spec X) arr
      | Some _ \<Rightarrow> Inl ''topics must be an array'')"

definition topic_matches :: "bytes list option \<Rightarrow> bytes \<Rightarrow> bool" where
  "topic_matches spec t = (case spec of None \<Rightarrow> True | Some ors \<Rightarrow> ors = [] \<or> t \<in> set ors)"

definition log_matches :: "consensus_log \<Rightarrow> bytes list \<Rightarrow> bytes list option list \<Rightarrow> bool" where
  "log_matches log addresses topics =
     (if addresses \<noteq> [] \<and> log_address log \<notin> set addresses then False
      else if length (log_topics log) < length topics then False
      else list_all (\<lambda>(i, spec). topic_matches spec (log_topics log ! i)) (zip [0..<length topics] topics))"

definition log_filter_block_number :: "('pk, 'sg) ext \<Rightarrow> string option \<Rightarrow> nat \<Rightarrow> string \<Rightarrow> nat option" where
  "log_filter_block_number X tag safe_number safe_hash =
     (if safe_tag tag then Some safe_number
      else if refused_tag tag then None
      else
        case tag of
          None \<Rightarrow> Some safe_number
        | Some t \<Rightarrow>
            if eq_ignore_ascii_case t safe_hash then Some safe_number
            else if has_0x t then
              (if is_ok (decode_hex_fixed X 32 t) then None
               else (case decode_u64 t of Inl _ \<Rightarrow> None | Inr n \<Rightarrow> Some n))
            else None)"

section \<open>Binding receipts to the header\<close>

definition receipt_err :: "nat \<Rightarrow> string \<Rightarrow> int \<times> string" where
  "receipt_err i t = (ERR_PROOF_FAILED, ''proof_verification_failed: receipt '' @ show_nat i @ '': '' @ t)"

text \<open>The first pass: consensus encodings and decorated receipts, with the block-wide log counter and the running gas total.\<close>

fun encode_receipts ::
    "('pk, 'sg) ext \<Rightarrow> rpc_block_header \<Rightarrow> nat \<Rightarrow> nat \<Rightarrow> nat \<Rightarrow> json list \<Rightarrow>
     (int \<times> string, (bytes \<times> bound_receipt) list) result" where
  "encode_receipts X hdr i log_index prev [] = Inr []"
| "encode_receipts X hdr i log_index prev (v # vs) =
     rbind (map_err (receipt_err i) (parse_consensus_receipt_json X v)) (\<lambda>parsed.
     let c = pr_consensus parsed in
     rbind (map_err (\<lambda>e. receipt_err i (show_receipt_rlp_error e)) (encode_consensus_receipt c)) (\<lambda>raw.
     let gas_used = sat_sub (rc_cumulative_gas_used c) prev;
         item = \<lparr>br_json = decorate_receipt_json X v hdr i (pr_tx_hash parsed) (rc_logs c) log_index gas_used,
                 br_tx_hash = pr_tx_hash parsed, br_logs = rc_logs c\<rparr>
     in map_ok (\<lambda>rest. (raw, item) # rest)
          (encode_receipts X hdr (Suc i) (sat_add log_index (length (rc_logs c))) (rc_cumulative_gas_used c) vs)))"

text \<open>
  \<open>u128::from_str_radix\<close> of the base fee; a text it refuses counts as zero.
\<close>

fun radix16_u128 :: "nat \<Rightarrow> string \<Rightarrow> nat option" where
  "radix16_u128 acc [] = Some acc"
| "radix16_u128 acc (c # cs) =
     (case to_digit16 c of
        None \<Rightarrow> None
      | Some x \<Rightarrow> if u128_max < acc * 16 + x then None else radix16_u128 (acc * 16 + x) cs)"

definition from_str_radix16_u128 :: "string \<Rightarrow> nat option" where
  "from_str_radix16_u128 s =
     (if s = [] \<or> s = ''+'' \<or> s = ''-'' then None
      else if hd s = CHR ''+'' then radix16_u128 0 (tl s)
      else radix16_u128 0 s)"

definition base_fee_of :: "rpc_block_header \<Rightarrow> nat" where
  "base_fee_of hdr =
     (case Option.bind (h_base_fee_per_gas hdr) (\<lambda>h. from_str_radix16_u128 (trim_start [''0x''] h)) of
        None \<Rightarrow> 0
      | Some n \<Rightarrow> n)"

text \<open>Fields of a receipt that its bound envelope determines.\<close>

definition derive_fields :: "('pk, 'sg) ext \<Rightarrow> nat \<Rightarrow> bytes \<Rightarrow> json \<Rightarrow> json" where
  "derive_fields X base_fee envelope v =
     (case tx_to_address envelope of
        Inl _ \<Rightarrow> v
      | Inr to \<Rightarrow>
          (case v of
             JObject m0 \<Rightarrow>
               let m1 = obj_insert ''to'' (case to of None \<Rightarrow> JNull | Some a \<Rightarrow> JString (hex0x X a)) m0;
                   m2 = (case tx_gas_price envelope of
                           Inl _ \<Rightarrow> m1
                         | Inr price \<Rightarrow> obj_insert ''effectiveGasPrice'' (JString (qty (effective price base_fee))) m1);
                   m3 = (case rbind (map_err (\<lambda>_. ()) (tx_signing_hash X envelope))
                           (\<lambda>(digest, sig). map_err (\<lambda>_. ()) (ecrecover X digest sig)) of
                           Inl _ \<Rightarrow> m2
                         | Inr from \<Rightarrow>
                             let m = obj_insert ''from'' (JString (hex0x X from)) m2 in
                             (case to of
                                Some _ \<Rightarrow> obj_insert ''contractAddress'' JNull m
                              | None \<Rightarrow>
                                  (case tx_nonce envelope of
                                     Inl _ \<Rightarrow> m
                                   | Inr nonce \<Rightarrow>
                                       obj_insert ''contractAddress'' (JString (hex0x X (contract_address X from nonce))) m)))
               in JObject m3
           | _ \<Rightarrow> v))"

text \<open>The second pass: every label is compared with the hash of the envelope at its position, and derived fields are written.\<close>

fun label_receipts ::
    "('pk, 'sg) ext \<Rightarrow> nat \<Rightarrow> bytes list \<Rightarrow> nat \<Rightarrow> bound_receipt list \<Rightarrow> (int \<times> string, bound_receipt list) result" where
  "label_receipts X base_fee envelopes i [] = Inr []"
| "label_receipts X base_fee envelopes i (item # items) =
     (case nth_opt envelopes i of
        None \<Rightarrow> Inl (ERR_PROOF_FAILED, ''proof_verification_failed: more receipts than bound transactions'')
      | Some envelope \<Rightarrow>
          let derived = keccak X envelope in
          if (case br_tx_hash item of None \<Rightarrow> False | Some claimed \<Rightarrow> derived \<noteq> claimed)
          then Inl (ERR_PROOF_FAILED, ''proof_verification_failed: receipt '' @ show_nat i @
                 '': transactionHash does not match transactionsRoot'')
          else
            map_ok (\<lambda>rest. item\<lparr>br_tx_hash := Some derived,
                      br_json := derive_fields X base_fee envelope (set_transaction_hash X derived (br_json item))\<rparr> # rest)
              (label_receipts X base_fee envelopes (Suc i) items))"

definition receipts_root_of :: "('pk, 'sg) ext \<Rightarrow> rpc_block_header \<Rightarrow> (int \<times> string, bytes) result" where
  "receipts_root_of X hdr =
     map_err (\<lambda>e. (ERR_PROOF_FAILED, ''proof_verification_failed: receiptsRoot: '' @ show_types_error e))
       (decode_hex_fixed X 32 (h_receipts_root hdr))"

text \<open>The receipts a response holds, once it is checked against the root.\<close>

definition check_receipts ::
    "('pk, 'sg) ext \<Rightarrow> rpc_block_header \<Rightarrow> bytes \<Rightarrow> json list \<Rightarrow> (int \<times> string, bound_receipt list) result" where
  "check_receipts X hdr root jsons =
     (if MAX_ORDERED_TRIE_ITEMS < length jsons
      then Inl (ERR_PROOF_FAILED, ''proof_verification_failed: too many receipts'')
      else
        rbind (encode_receipts X hdr 0 0 0 jsons) (\<lambda>rs.
        rbind (map_err (\<lambda>e. (ERR_PROOF_FAILED, ''proof_verification_failed: '' @ show_receipt_list_error e))
                (verify_receipt_list X (map fst rs) root)) (\<lambda>_.
          Inr (map snd rs))))"

definition bind_receipts ::
    "('pk, 'sg, 'bc) rpc_env \<Rightarrow> rpc_block_header \<Rightarrow> server \<Rightarrow> (int \<times> string, receipt_bind) result \<times> server" where
  "bind_receipts V hdr s =
     (let X = re_ext V in
      case receipts_root_of X hdr of
        Inl e \<Rightarrow> (Inl e, s)
      | Inr root \<Rightarrow>
          if root = EMPTY_TRIE_ROOT then (Inr ReceiptEmpty, s)
          else
            then_step (upstream_res (du_block_receipts_json (re_data V (sv_tick s)) (h_hash hdr)),
                       s\<lparr>sv_tick := sv_tick s + 1\<rparr>) (\<lambda>jsons s.
            if jsons = [] then (Inr ReceiptOmitted, s)
            else
              then_step (check_receipts X hdr root jsons, s) (\<lambda>items s.
              then_step (bind_tx_envelopes V hdr s) (\<lambda>bound s.
                (map_ok ReceiptList
                   (case bound of
                      None \<Rightarrow> Inr items
                    | Some envelopes \<Rightarrow> label_receipts X (base_fee_of hdr) envelopes 0 items), s)))))"

definition bound_block_receipts ::
    "('pk, 'sg, 'bc) rpc_env \<Rightarrow> verified_block \<Rightarrow> server \<Rightarrow>
     (int \<times> string, rpc_block_header \<times> receipt_bind) result \<times> server" where
  "bound_block_receipts V local s =
     then_step (load_verified_header V local s) (\<lambda>hdr s.
     then_step (bind_receipts V hdr s) (\<lambda>bound s. (Inr (hdr, bound), s)))"

section \<open>Handlers\<close>

definition get_block_receipts :: "('pk, 'sg, 'bc) rpc_env \<Rightarrow> json \<Rightarrow> json \<Rightarrow> json handler" where
  "get_block_receipts V rid req =
     hbind (local_block_by_number_or_hash V req) (\<lambda>local.
     hbind (with_rid rid (bound_block_receipts V local)) (\<lambda>(hdr, bound).
       hres (Inr (rpc_ok rid (JArray (case bound of ReceiptList l \<Rightarrow> map br_json l | _ \<Rightarrow> []))))))"

definition disabled :: "json \<Rightarrow> json" where
  "disabled rid = rpc_err rid ERR_METHOD ''unverified_passthrough_disabled''"

definition passthrough_allowed :: "json \<Rightarrow> unit handler" where
  "passthrough_allowed rid =
     hbind hnode (\<lambda>nd. hcheck (\<not> nd_allow_unverified_passthrough nd) (disabled rid))"

text \<open>An upstream object handed on once it is bound to the local chain.\<close>

definition bound_to_chain :: "('pk, 'sg, 'bc) rpc_env \<Rightarrow> json \<Rightarrow> json \<Rightarrow> bytes \<Rightarrow> json handler" where
  "bound_to_chain V rid raw want =
     hbind (hrefresh V rid) (\<lambda>(tip, safe).
     hbind hchain (\<lambda>chain.
     hbind (hres (map_err (rpc_err rid ERR_NOT_SYNCED) (bind_mined_object (re_ext V) raw safe chain (Some want)))) (\<lambda>_.
       hres (Inr (rpc_ok rid raw)))))"

definition passthrough_mined :: "('pk, 'sg, 'bc) rpc_env \<Rightarrow> json \<Rightarrow> json \<Rightarrow> bytes \<Rightarrow> json handler" where
  "passthrough_mined V rid raw want = hbind (passthrough_allowed rid) (\<lambda>_. bound_to_chain V rid raw want)"

definition raw_params :: "json \<Rightarrow> json" where
  "raw_params req = (case json_get ''params'' req of None \<Rightarrow> JArray [] | Some v \<Rightarrow> v)"

definition ask_upstream :: "('pk, 'sg, 'bc) rpc_env \<Rightarrow> json \<Rightarrow> string \<Rightarrow> json \<Rightarrow> json handler" where
  "ask_upstream V rid method req =
     hbind (hask V 1 (\<lambda>up. du_unverified_call (up 0) method (raw_params req))) (\<lambda>answer.
       hres (map_err (\<lambda>e. rpc_err rid (-32000) (''unverified_upstream: '' @ show_err e)) answer))"

text \<open>The part of \<open>eth_getTransactionReceipt\<close> after the local block is found.\<close>

definition receipt_from_block ::
    "('pk, 'sg, 'bc) rpc_env \<Rightarrow> json \<Rightarrow> json \<Rightarrow> bytes \<Rightarrow> verified_block \<Rightarrow> json handler" where
  "receipt_from_block V rid raw want local =
     hbind (with_rid rid (bound_block_receipts V local)) (\<lambda>(hdr, bound).
       (case bound of
          ReceiptList l \<Rightarrow>
            hres (Inr (rpc_ok rid (case find (\<lambda>r. br_tx_hash r = Some want) l of
                                     None \<Rightarrow> JNull
                                   | Some r \<Rightarrow> br_json r)))
        | ReceiptEmpty \<Rightarrow> hres (Inr (rpc_ok rid JNull))
        | ReceiptOmitted \<Rightarrow> passthrough_mined V rid raw want))"

definition get_transaction_receipt :: "('pk, 'sg, 'bc) rpc_env \<Rightarrow> json \<Rightarrow> json \<Rightarrow> json handler" where
  "get_transaction_receipt V rid req =
     (let X = re_ext V in
      hbind (hres (map_err (rpc_err rid ERR_PARAMS) (query_tx_hash X req))) (\<lambda>want.
      hbind (ask_upstream V rid ''eth_getTransactionReceipt'' req) (\<lambda>raw.
      if is_null raw then hres (Inr (rpc_ok rid JNull))
      else
      hbind (hopt (as_object raw) (rpc_err rid ERR_PROOF_FAILED ''receipt is not an object'')) (\<lambda>m.
      let hash_v = map_of m ''blockHash''; num_v = map_of m ''blockNumber'';
          hash_empty = is_empty_block_hash hash_v; num_empty = is_nullish_json num_v in
      if hash_empty \<and> num_empty then passthrough_mined V rid raw want
      else if hash_empty \<noteq> num_empty then hres (Inl (rpc_err rid ERR_NOT_SYNCED ''receipt/tx pending fields inconsistent''))
      else
      hbind (hopt (Option.bind hash_v as_str) (rpc_err rid ERR_NOT_SYNCED ''receipt/tx blockHash not a string'')) (\<lambda>hash.
      hbind (hrefresh V rid) (\<lambda>(tip, safe).
      hbind hchain (\<lambda>chain.
      hbind (hopt (block_of_hash X chain hash)
              (rpc_err rid ERR_NOT_SYNCED ''receipt/tx blockHash not in local verified chain'')) (\<lambda>local.
      hbind (hcheck (sh_number safe < vb_number local) (rpc_err rid ERR_NOT_SYNCED ''receipt/tx is above local Safe'')) (\<lambda>_.
        receipt_from_block V rid raw want local)))))))))"

definition unverified_mined :: "('pk, 'sg, 'bc) rpc_env \<Rightarrow> json \<Rightarrow> json \<Rightarrow> string \<Rightarrow> json handler" where
  "unverified_mined V rid req method =
     hbind (passthrough_allowed rid) (\<lambda>_.
     hbind (hres (map_err (rpc_err rid ERR_PARAMS) (query_tx_hash (re_ext V) req))) (\<lambda>want.
     hbind (ask_upstream V rid method req) (\<lambda>raw.
       if is_null raw then hres (Inr (rpc_ok rid JNull)) else bound_to_chain V rid raw want)))"

definition unverified_qty :: "('pk, 'sg, 'bc) rpc_env \<Rightarrow> json \<Rightarrow> json \<Rightarrow> string \<Rightarrow> json handler" where
  "unverified_qty V rid req method =
     hbind (passthrough_allowed rid) (\<lambda>_.
     hbind (ask_upstream V rid method req) (\<lambda>v.
     hbind (hres (map_err (rpc_err rid ERR_PARAMS) (bind_fee_result method v))) (\<lambda>_.
     hbind (if method = ''eth_feeHistory'' \<and> json_get ''oldestBlock'' v \<notin> {None, Some JNull} then
              hbind (hrefresh V rid) (\<lambda>(tip, safe).
              hbind hchain (\<lambda>chain. hres (rpc_pair rid (bind_fee_oldest_block v safe chain))))
            else hres (Inr ())) (\<lambda>_.
       hres (Inr (rpc_ok rid v))))))"

definition get_raw_tx_by_hash :: "('pk, 'sg, 'bc) rpc_env \<Rightarrow> json \<Rightarrow> json \<Rightarrow> json handler" where
  "get_raw_tx_by_hash V rid req =
     (let X = re_ext V in
      hbind (passthrough_allowed rid) (\<lambda>_.
      hbind (hres (map_err (rpc_err rid ERR_PARAMS) (query_tx_hash X req))) (\<lambda>want.
      hbind (ask_upstream V rid ''eth_getRawTransactionByHash'' req) (\<lambda>raw.
      if is_null raw then hres (Inr (rpc_ok rid JNull))
      else
      hbind (hopt (as_str raw) (rpc_err rid ERR_PROOF_FAILED ''upstream raw tx is not hex'')) (\<lambda>hx.
      hbind (hres (map_err (\<lambda>e. rpc_err rid ERR_PROOF_FAILED (''upstream raw tx hex: '' @ show_types_error e))
              (decode_hex X hx))) (\<lambda>b.
      hbind (hcheck (MAX_RAW_TX < length b) (rpc_err rid ERR_PROOF_FAILED ''upstream raw tx too large'')) (\<lambda>_.
      let got = (case validate_bsc_raw_tx X b of Inr h \<Rightarrow> h | Inl _ \<Rightarrow> keccak X b) in
      hbind (hcheck (got \<noteq> want) (rpc_err rid ERR_PROOF_FAILED ''upstream raw tx hash mismatch'')) (\<lambda>_.
        hres (Inr (rpc_ok rid (JString (hex0x X b))))))))))))"

definition send_raw :: "('pk, 'sg, 'bc) rpc_env \<Rightarrow> json \<Rightarrow> json \<Rightarrow> json handler" where
  "send_raw V rid req =
     (let X = re_ext V in
      hbind (hopt (first_str req) (rpc_err rid ERR_PARAMS ''raw tx required'')) (\<lambda>raw.
      hbind (hres (map_err (\<lambda>e. rpc_err rid ERR_PARAMS (''invalid hex: '' @ show_types_error e)) (decode_hex X raw))) (\<lambda>b.
      hbind (hres (map_err (\<lambda>e. rpc_err rid ERR_PARAMS (show_raw_tx_error e)) (validate_bsc_raw_tx X b))) (\<lambda>want.
      hbind (hask V 1 (\<lambda>up. du_send_raw_transaction (up 0) raw)) (\<lambda>answer.
      hbind (hres (map_err (\<lambda>e. rpc_err rid (-32000) (''broadcast_failed: '' @ show_err e)) answer)) (\<lambda>got.
      hres (case decode_hex_fixed X 32 got of
              Inr h \<Rightarrow>
                if h = want then Inr (rpc_ok rid (JString (hex0x X want)))
                else Inl (rpc_err rid ERR_PROOF_FAILED ''upstream tx hash mismatch'')
            | Inl e \<Rightarrow> Inl (rpc_err rid ERR_PROOF_FAILED (''upstream tx hash: '' @ show_types_error e)))))))))"

end
