(* ===== verification/Rpc_Logs.thy ===== *)
theory Rpc_Logs
  imports Rpc_Receipts
begin

text \<open>
  Logs and poll-based filters (\<open>rpc_server/logs.rs\<close>): \<open>eth_getLogs\<close> over a range, the filter store, and the
  path from bound receipts to logs that both share.

  The receipts of up to four blocks are fetched at once and consumed in block order; here they
  are fetched in that order, a whole group before any of its results is looked at.
\<close>

section \<open>Constants\<close>

definition MAX_GET_LOGS :: nat where "MAX_GET_LOGS = MAX_RECEIPT_LOGS"
definition MAX_GET_LOGS_RANGE :: nat where "MAX_GET_LOGS_RANGE = 128"
definition LOG_FETCH_PARALLEL :: nat where "LOG_FETCH_PARALLEL = 4"
definition MAX_FILTERS :: nat where "MAX_FILTERS = 64"
definition FILTER_TTL :: nat where "FILTER_TTL = 300000"
definition FILTER_ID_HEX :: string where "FILTER_ID_HEX = ''filter id must be a hex quantity''"
definition FILTER_NOT_FOUND :: string where "FILTER_NOT_FOUND = ''filter not found''"

datatype logs_error = Capped | LogsRpc int string

section \<open>The filter store\<close>

definition sweep :: "nat \<Rightarrow> filter_store \<Rightarrow> filter_store" where
  "sweep now fs = fs\<lparr>fs_map := filter (\<lambda>(k, f). now - sf_touched f < FILTER_TTL) (fs_map fs)\<rparr>"

text \<open>\<open>min_by_key\<close> of the touch times: the first of the least.\<close>

fun oldest :: "(nat \<times> stored_filter) list \<Rightarrow> (nat \<times> stored_filter) option" where
  "oldest [] = None"
| "oldest (e # es) =
     (case oldest es of
        None \<Rightarrow> Some e
      | Some o' \<Rightarrow> if sf_touched (snd o') < sf_touched (snd e) then Some o' else Some e)"

definition store_insert :: "nat \<Rightarrow> filter_kind \<Rightarrow> filter_store \<Rightarrow> (string, nat) result \<times> filter_store" where
  "store_insert now kind fs =
     (let fs = sweep now fs;
          fs = (if MAX_FILTERS \<le> length (fs_map fs)
                then (case oldest (fs_map fs) of
                        None \<Rightarrow> fs
                      | Some (k, _) \<Rightarrow> fs\<lparr>fs_map := filter (\<lambda>e. fst e \<noteq> k) (fs_map fs)\<rparr>)
                else fs)
      in if MAX_FILTERS \<le> length (fs_map fs) then (Inl ''too many filters'', fs)
         else
           let k = sat_add (fs_next_id fs) 1
           in (Inr k, \<lparr>fs_next_id = k,
                       fs_map = AList.update k \<lparr>sf_kind = kind, sf_touched = now\<rparr> (fs_map fs)\<rparr>))"

definition parse_filter_id :: "json \<Rightarrow> nat option" where
  "parse_filter_id req = Option.bind (first_str req) parse_hex_u64"

text \<open>Steps on the store: the clock is read, the store is replaced.\<close>

definition hstore :: "('pk, 'sg, 'bc) rpc_env \<Rightarrow> (nat \<Rightarrow> filter_store \<Rightarrow> (json, 'a) result \<times> filter_store) \<Rightarrow> 'a handler" where
  "hstore V f =
     (\<lambda>s. case f (re_now V (sv_tick s)) (sv_filters s) of (r, fs) \<Rightarrow> (r, s\<lparr>sv_filters := fs, sv_tick := sv_tick s + 1\<rparr>))"

section \<open>Collecting logs\<close>

text \<open>The logs of one block's receipts, numbered over the block; stops at the cap.\<close>

fun logs_of_receipt ::
    "('pk, 'sg) ext \<Rightarrow> rpc_block_header \<Rightarrow> bytes list \<Rightarrow> bytes list option list \<Rightarrow> bytes option \<Rightarrow> nat \<Rightarrow> nat \<Rightarrow>
     consensus_log list \<Rightarrow> json list \<Rightarrow> (logs_error, nat \<times> json list) result" where
  "logs_of_receipt X hdr addresses topics tx_hash tx_i log_index [] out = Inr (log_index, out)"
| "logs_of_receipt X hdr addresses topics tx_hash tx_i log_index (log # logs) out =
     (if log_matches log addresses topics then
        (if MAX_GET_LOGS \<le> length out then Inl Capped
         else logs_of_receipt X hdr addresses topics tx_hash tx_i (sat_add log_index 1) logs
                (out @ [rpc_log_json X log hdr tx_hash tx_i log_index]))
      else logs_of_receipt X hdr addresses topics tx_hash tx_i (sat_add log_index 1) logs out)"

fun logs_of_receipts ::
    "('pk, 'sg) ext \<Rightarrow> rpc_block_header \<Rightarrow> bytes list \<Rightarrow> bytes list option list \<Rightarrow> nat \<Rightarrow> nat \<Rightarrow>
     bound_receipt list \<Rightarrow> json list \<Rightarrow> (logs_error, json list) result" where
  "logs_of_receipts X hdr addresses topics tx_i log_index [] out = Inr out"
| "logs_of_receipts X hdr addresses topics tx_i log_index (rec # recs) out =
     rbind (logs_of_receipt X hdr addresses topics (br_tx_hash rec) tx_i log_index (br_logs rec) out) (\<lambda>(log_index, out).
       logs_of_receipts X hdr addresses topics (Suc tx_i) log_index recs out)"

definition omitted_text :: "nat \<Rightarrow> string" where
  "omitted_text n = ''proof_verification_failed: upstream served no receipts for block '' @ show_nat n @
     '', so its logs cannot be proven absent''"

definition logs_of_block ::
    "('pk, 'sg) ext \<Rightarrow> bytes list \<Rightarrow> bytes list option list \<Rightarrow> verified_block \<Rightarrow>
     (int \<times> string, rpc_block_header \<times> receipt_bind) result \<Rightarrow> json list \<Rightarrow> (logs_error, json list) result" where
  "logs_of_block X addresses topics local res out =
     (case res of
        Inl (code, msg) \<Rightarrow> Inl (LogsRpc code msg)
      | Inr (hdr, bound) \<Rightarrow>
          (case bound of
             ReceiptEmpty \<Rightarrow> Inr out
           | ReceiptOmitted \<Rightarrow> Inl (LogsRpc ERR_PROOF_FAILED (omitted_text (vb_number local)))
           | ReceiptList l \<Rightarrow> logs_of_receipts X hdr addresses topics 0 0 l out))"

fun logs_of_group ::
    "('pk, 'sg) ext \<Rightarrow> bytes list \<Rightarrow> bytes list option list \<Rightarrow>
     (verified_block \<times> (int \<times> string, rpc_block_header \<times> receipt_bind) result) list \<Rightarrow> json list \<Rightarrow>
     (logs_error, json list) result" where
  "logs_of_group X addresses topics [] out = Inr out"
| "logs_of_group X addresses topics ((local, res) # rest) out =
     rbind (logs_of_block X addresses topics local res out) (logs_of_group X addresses topics rest)"

fun fetch_group ::
    "('pk, 'sg, 'bc) rpc_env \<Rightarrow> verified_block list \<Rightarrow> server \<Rightarrow>
     (verified_block \<times> (int \<times> string, rpc_block_header \<times> receipt_bind) result) list \<times> server" where
  "fetch_group V [] s = ([], s)"
| "fetch_group V (b # bs) s =
     (let (r, s) = bound_block_receipts V b s; (rs, s) = fetch_group V bs s in ((b, r) # rs, s))"

function collect_logs ::
    "('pk, 'sg, 'bc) rpc_env \<Rightarrow> verified_block list \<Rightarrow> bytes list \<Rightarrow> bytes list option list \<Rightarrow> json list \<Rightarrow> server \<Rightarrow>
     (logs_error, json list) result \<times> server" where
  "collect_logs V blocks addresses topics out s =
     (if blocks = [] then (Inr out, s)
      else
        case fetch_group V (take LOG_FETCH_PARALLEL blocks) s of (fetched, s') \<Rightarrow>
          (case logs_of_group (re_ext V) addresses topics fetched out of
             Inl e \<Rightarrow> (Inl e, s')
           | Inr out' \<Rightarrow> collect_logs V (drop LOG_FETCH_PARALLEL blocks) addresses topics out' s'))"
  by pat_completeness auto
termination
  by (relation "measure (\<lambda>(V, blocks, addresses, topics, out, s). length blocks)") (auto simp: LOG_FETCH_PARALLEL_def)

declare collect_logs.simps [simp del]

section \<open>The blocks of a range\<close>

definition log_block_number ::
    "('pk, 'sg) ext \<Rightarrow> json \<Rightarrow> string option \<Rightarrow> safe_head \<Rightarrow> (json, nat) result" where
  "log_block_number X rid tag safe =
     ok_or (log_filter_block_number X tag (sh_number safe) (sh_hash safe)) (rpc_err rid ERR_NOT_SYNCED WALLET_TAG_ONLY)"

definition span_text :: "string \<Rightarrow> nat \<Rightarrow> string" where
  "span_text what span = what @ show_nat span @
     '' blocks; this client keeps no log index and serves at most '' @ show_nat MAX_GET_LOGS_RANGE"

text \<open>\<open>span\<close> is computed with a bare \<open>+ 1\<close>, which wraps in a release build.\<close>

definition blocks_of_range ::
    "json \<Rightarrow> nat \<Rightarrow> nat \<Rightarrow> safe_head \<Rightarrow> verified_block list \<Rightarrow> (json, verified_block list) result" where
  "blocks_of_range rid from_n to_n safe chain =
     (if to_n < from_n then Inl (rpc_err rid ERR_PARAMS ''eth_getLogs fromBlock is above toBlock'')
      else
        let span = wrap64 (to_n - from_n + 1) in
        if MAX_GET_LOGS_RANGE < span
        then Inl (rpc_err rid ERR_PARAMS (span_text ''eth_getLogs range is '' span))
        else if sh_number safe < to_n then Inl (rpc_err rid ERR_NOT_SYNCED WALLET_TAG_ONLY)
        else
          let blocks = sort_key vb_number (filter (\<lambda>b. from_n \<le> vb_number b \<and> vb_number b \<le> to_n) chain)
          in if length blocks \<noteq> span
             then Inl (rpc_err rid ERR_NOT_SYNCED ''eth_getLogs range reaches outside the locally verified chain'')
             else Inr blocks)"

definition resolve_get_logs_blocks ::
    "('pk, 'sg, 'bc) rpc_env \<Rightarrow> json \<Rightarrow> object option \<Rightarrow> verified_block list handler" where
  "resolve_get_logs_blocks V rid f =
     (let X = re_ext V; bh = filter_get f ''blockHash''; from_v = filter_get f ''fromBlock''; to_v = filter_get f ''toBlock'';
          has_range = (\<not> is_nullish_json from_v \<or> \<not> is_nullish_json to_v) in
      if \<not> is_nullish_json bh then
        hbind (hcheck has_range (rpc_err rid ERR_PARAMS ''cannot specify both blockHash and fromBlock/toBlock'')) (\<lambda>_.
        hbind (hopt (Option.bind bh as_str) (rpc_err rid ERR_PARAMS ''blockHash must be a string'')) (\<lambda>hash.
        hbind (hcheck (\<not> is_ok (decode_hex_fixed X 32 hash)) (rpc_err rid ERR_PARAMS ''blockHash is not 32 bytes'')) (\<lambda>_.
        hbind (hrefresh V rid) (\<lambda>(tip, safe).
        hbind hchain (\<lambda>chain.
        hbind (hopt (wallet_get_block_by_hash X hash (sh_number safe) chain)
                (rpc_err rid ERR_NOT_SYNCED WALLET_HASH_ONLY)) (\<lambda>b.
          hres (Inr [b])))))))
      else
        hbind (hres (map_err (rpc_err rid ERR_PARAMS) (wallet_block_tag_str from_v))) (\<lambda>from_s.
        hbind (hres (map_err (rpc_err rid ERR_PARAMS) (wallet_block_tag_str to_v))) (\<lambda>to_s.
        hbind (hrefresh V rid) (\<lambda>(tip, safe).
        hbind (hres (log_block_number X rid from_s safe)) (\<lambda>from_n.
        hbind (hres (log_block_number X rid to_s safe)) (\<lambda>to_n.
        hbind hchain (\<lambda>chain.
          hres (blocks_of_range rid from_n to_n safe chain))))))))"

section \<open>eth_getLogs\<close>

definition capped_text :: string where
  "capped_text = ''query matched more than '' @ show_nat MAX_GET_LOGS @
     '' logs; narrow the block range or the address/topic filter''"

definition logs_filter :: "json \<Rightarrow> json \<Rightarrow> (json, object option) result" where
  "logs_filter rid req =
     (case req_params req of
        None \<Rightarrow> Inr None
      | Some p \<Rightarrow>
          (case nth_opt p 0 of
             None \<Rightarrow> Inr None
           | Some (JObject m) \<Rightarrow> Inr (Some m)
           | Some JNull \<Rightarrow> Inr None
           | Some _ \<Rightarrow> Inl (rpc_err rid ERR_PARAMS ''eth_getLogs filter must be an object'')))"

definition get_logs :: "('pk, 'sg, 'bc) rpc_env \<Rightarrow> json \<Rightarrow> json \<Rightarrow> json handler" where
  "get_logs V rid req =
     (let X = re_ext V in
      hbind (hres (logs_filter rid req)) (\<lambda>f.
      hbind (resolve_get_logs_blocks V rid f) (\<lambda>blocks.
      hbind (hres (map_err (rpc_err rid ERR_PARAMS) (parse_log_addresses X f))) (\<lambda>addresses.
      hbind (hres (map_err (rpc_err rid ERR_PARAMS) (parse_log_topics X f))) (\<lambda>topics.
      (\<lambda>s. case collect_logs V blocks addresses topics [] s of
             (Inr out, s') \<Rightarrow> (Inr (rpc_ok rid (JArray out)), s')
           | (Inl Capped, s') \<Rightarrow> (Inl (rpc_err rid ERR_PARAMS capped_text), s')
           | (Inl (LogsRpc code msg), s') \<Rightarrow> (Inl (rpc_err rid code msg), s')))))))"

section \<open>Filters\<close>

definition new_filter_object :: "json \<Rightarrow> json \<Rightarrow> (json, object) result" where
  "new_filter_object rid req =
     (case Option.bind (req_params req) (\<lambda>p. nth_opt p 0) of
        Some (JObject m) \<Rightarrow> Inr m
      | None \<Rightarrow> Inr []
      | Some JNull \<Rightarrow> Inr []
      | Some _ \<Rightarrow> Inl (rpc_err rid ERR_PARAMS ''eth_newFilter filter must be an object''))"

definition filter_id_json :: "json \<Rightarrow> (string, nat) result \<Rightarrow> (json, json) result" where
  "filter_id_json rid r =
     map_err (rpc_err rid ERR_PARAMS) (map_ok (\<lambda>n. rpc_ok rid (JString (qty n))) r)"

definition new_filter :: "('pk, 'sg, 'bc) rpc_env \<Rightarrow> json \<Rightarrow> json \<Rightarrow> json handler" where
  "new_filter V rid req =
     (let X = re_ext V in
      hbind (hres (new_filter_object rid req)) (\<lambda>m.
      hbind (hcheck (\<not> is_nullish_json (map_of m ''blockHash'')) (rpc_err rid ERR_PARAMS
              ''eth_newFilter does not take blockHash: a filter follows a range, so use eth_getLogs for a single block'')) (\<lambda>_.
      hbind (hres (map_err (rpc_err rid ERR_PARAMS) (parse_log_addresses X (Some m)))) (\<lambda>_.
      hbind (hres (map_err (rpc_err rid ERR_PARAMS) (parse_log_topics X (Some m)))) (\<lambda>_.
      hbind (hrefresh V rid) (\<lambda>(tip, safe).
      hbind (hres (map_err (rpc_err rid ERR_PARAMS) (wallet_block_tag_str (map_of m ''fromBlock'')))) (\<lambda>from_s.
      hbind (hres (map_err (rpc_err rid ERR_PARAMS) (wallet_block_tag_str (map_of m ''toBlock'')))) (\<lambda>to_s.
      hbind (hres (log_block_number X rid from_s safe)) (\<lambda>cursor.
      hbind (case to_s of
               Some t \<Rightarrow> if has_0x t then hbind (hres (log_block_number X rid to_s safe)) (\<lambda>n. hres (Inr (Some n)))
                         else hres (Inr None)
             | None \<Rightarrow> hres (Inr None)) (\<lambda>to_block.
        hstore V (\<lambda>now fs. case store_insert now (Logs m cursor to_block cursor) fs of
                             (r, fs') \<Rightarrow> (filter_id_json rid r, fs'))))))))))))"

definition new_block_filter :: "('pk, 'sg, 'bc) rpc_env \<Rightarrow> json \<Rightarrow> json handler" where
  "new_block_filter V rid =
     hbind (hrefresh V rid) (\<lambda>(tip, safe).
       hstore V (\<lambda>now fs. case store_insert now (Blocks (sat_add (sh_number safe) 1)) fs of
                            (r, fs') \<Rightarrow> (filter_id_json rid r, fs')))"

definition uninstall_filter :: "('pk, 'sg, 'bc) rpc_env \<Rightarrow> json \<Rightarrow> json \<Rightarrow> json handler" where
  "uninstall_filter V rid req =
     hbind (hopt (parse_filter_id req) (rpc_err rid ERR_PARAMS FILTER_ID_HEX)) (\<lambda>fid.
       hstore V (\<lambda>now fs.
         let fs = sweep now fs in
         (Inr (rpc_ok rid (JBool (map_of (fs_map fs) fid \<noteq> None))),
          fs\<lparr>fs_map := filter (\<lambda>e. fst e \<noteq> fid) (fs_map fs)\<rparr>)))"

text \<open>A poll touches its filter and copies what it needs.\<close>

definition touch_filter :: "json \<Rightarrow> nat \<Rightarrow> nat \<Rightarrow> filter_store \<Rightarrow> (json, filter_kind) result \<times> filter_store" where
  "touch_filter rid fid now fs =
     (let fs = sweep now fs in
      case map_of (fs_map fs) fid of
        None \<Rightarrow> (Inl (rpc_err rid ERR_PARAMS FILTER_NOT_FOUND), fs)
      | Some f \<Rightarrow> (Inr (sf_kind f), fs\<lparr>fs_map := AList.update fid (f\<lparr>sf_touched := now\<rparr>) (fs_map fs)\<rparr>))"

definition set_cursor :: "nat \<Rightarrow> filter_kind \<Rightarrow> filter_kind" where
  "set_cursor c k = (case k of Logs m f t _ \<Rightarrow> Logs m f t c | Blocks _ \<Rightarrow> Blocks c)"

text \<open>The cursor moves only if the filter is still there and of the same kind.\<close>

definition move_cursor :: "bool \<Rightarrow> nat \<Rightarrow> nat \<Rightarrow> filter_store \<Rightarrow> filter_store" where
  "move_cursor logs fid c fs =
     (case map_of (fs_map fs) fid of
        None \<Rightarrow> fs
      | Some f \<Rightarrow>
          if (case sf_kind f of Logs _ _ _ _ \<Rightarrow> logs | Blocks _ \<Rightarrow> \<not> logs)
          then fs\<lparr>fs_map := AList.update fid (f\<lparr>sf_kind := set_cursor c (sf_kind f)\<rparr>) (fs_map fs)\<rparr>
          else fs)"

definition hmove :: "bool \<Rightarrow> nat \<Rightarrow> nat \<Rightarrow> unit handler" where
  "hmove logs fid c = (\<lambda>s. (Inr (), s\<lparr>sv_filters := move_cursor logs fid c (sv_filters s)\<rparr>))"

definition block_changes ::
    "('pk, 'sg) ext \<Rightarrow> json \<Rightarrow> nat \<Rightarrow> nat \<Rightarrow> nat \<Rightarrow> json handler" where
  "block_changes X rid fid from head =
     (if head < from then hres (Inr (rpc_ok rid (JArray [])))
      else
        let to = min head (sat_add from (MAX_GET_LOGS_RANGE - 1)) in
        hbind hchain (\<lambda>chain.
        let blocks = sort_key vb_number (filter (\<lambda>b. from \<le> vb_number b \<and> vb_number b \<le> to) chain) in
        hbind (hmove False fid (sat_add to 1)) (\<lambda>_.
          hres (Inr (rpc_ok rid (JArray (map (\<lambda>b. JString (hex0x X (vb_hash b))) blocks)))))))"

definition err_code :: "json \<Rightarrow> int" where
  "err_code v =
     (case Option.bind (json_get ''error'' v) (json_get ''code'') of
        Some (JNumber n) \<Rightarrow> (case number_as_i64 n of Some i \<Rightarrow> i | None \<Rightarrow> ERR_PARAMS)
      | _ \<Rightarrow> ERR_PARAMS)"

definition err_message :: "json \<Rightarrow> string" where
  "err_message v =
     (case Option.bind (json_get ''error'' v) (json_get ''message'') of
        Some (JString t) \<Rightarrow> t
      | _ \<Rightarrow> ''filter span unavailable'')"

text \<open>A stored filter over an explicit span: the same path with the bounds replaced.\<close>

definition logs_for_span ::
    "('pk, 'sg, 'bc) rpc_env \<Rightarrow> object \<Rightarrow> nat \<Rightarrow> nat \<Rightarrow> server \<Rightarrow> (logs_error, json list) result \<times> server" where
  "logs_for_span V m from to s =
     (let X = re_ext V; span = sat_add (sat_sub to from) 1 in
      if MAX_GET_LOGS_RANGE < span then (Inl (LogsRpc ERR_PARAMS (span_text ''filter span is '' span)), s)
      else
        let f = obj_insert ''toBlock'' (JString (qty to)) (obj_insert ''fromBlock'' (JString (qty from)) m) in
        then_step (map_err (LogsRpc ERR_PARAMS) (parse_log_addresses X (Some f)), s) (\<lambda>addresses s.
        then_step (map_err (LogsRpc ERR_PARAMS) (parse_log_topics X (Some f)), s) (\<lambda>topics s.
        then_step (case resolve_get_logs_blocks V JNull (Some f) s of
                     (r, s') \<Rightarrow> (map_err (\<lambda>v. LogsRpc (err_code v) (err_message v)) r, s')) (\<lambda>blocks s.
          collect_logs V blocks addresses topics [] s))))"

definition one_block_text :: "nat \<Rightarrow> string" where
  "one_block_text cursor = ''block '' @ show_nat cursor @ '' alone matches more than '' @ show_nat MAX_GET_LOGS @
     '' logs; a poll cannot narrow past a single block, so install a filter with a tighter address/topic filter''"

text \<open>The halving loop of a poll: the logs and the last block they cover.\<close>

function poll_span ::
    "('pk, 'sg, 'bc) rpc_env \<Rightarrow> json \<Rightarrow> object \<Rightarrow> nat \<Rightarrow> nat \<Rightarrow> server \<Rightarrow> (json, json list \<times> nat) result \<times> server" where
  "poll_span V rid m cursor end' s =
     (case logs_for_span V m cursor end' s of
        (Inr v, s') \<Rightarrow> (Inr (v, end'), s')
      | (Inl (LogsRpc code msg), s') \<Rightarrow> (Inl (rpc_err rid code msg), s')
      | (Inl Capped, s') \<Rightarrow>
          if cursor < end' then poll_span V rid m cursor (sat_add cursor ((end' - cursor) div 2)) s'
          else (Inl (rpc_err rid ERR_PARAMS (one_block_text cursor)), s'))"
  by pat_completeness auto
termination
  by (relation "measure (\<lambda>(V, rid, m, cursor, end', s). end' - cursor)") (auto simp: sat_add_def)

declare poll_span.simps [simp del]

definition log_changes ::
    "('pk, 'sg, 'bc) rpc_env \<Rightarrow> json \<Rightarrow> nat \<Rightarrow> object \<Rightarrow> nat option \<Rightarrow> nat \<Rightarrow> nat \<Rightarrow> json handler" where
  "log_changes V rid fid m to_block cursor head =
     (let end0 = min (case to_block of None \<Rightarrow> head | Some t \<Rightarrow> t) head in
      if end0 < cursor then hres (Inr (rpc_ok rid (JArray [])))
      else
        let end1 = min end0 (sat_add cursor (MAX_GET_LOGS_RANGE - 1)) in
        hbind (poll_span V rid m cursor end1) (\<lambda>(logs, end').
        hbind (hmove True fid (sat_add end' 1)) (\<lambda>_.
          hres (Inr (rpc_ok rid (JArray logs))))))"

definition get_filter_changes :: "('pk, 'sg, 'bc) rpc_env \<Rightarrow> json \<Rightarrow> json \<Rightarrow> json handler" where
  "get_filter_changes V rid req =
     hbind (hopt (parse_filter_id req) (rpc_err rid ERR_PARAMS FILTER_ID_HEX)) (\<lambda>fid.
     hbind (hrefresh V rid) (\<lambda>(tip, safe).
     hbind (hstore V (touch_filter rid fid)) (\<lambda>kind.
       (case kind of
          Blocks from \<Rightarrow> block_changes (re_ext V) rid fid from (sh_number safe)
        | Logs m _ to_block cursor \<Rightarrow> log_changes V rid fid m to_block cursor (sh_number safe)))))"

definition filter_logs_text :: string where
  "filter_logs_text = ''filter matched more than '' @ show_nat MAX_GET_LOGS @
     '' logs over its own range; eth_getFilterLogs always answers the whole range, so install a new filter with a narrower fromBlock/toBlock or a tighter address/topic filter''"

definition get_filter_logs :: "('pk, 'sg, 'bc) rpc_env \<Rightarrow> json \<Rightarrow> json \<Rightarrow> json handler" where
  "get_filter_logs V rid req =
     hbind (hopt (parse_filter_id req) (rpc_err rid ERR_PARAMS FILTER_ID_HEX)) (\<lambda>fid.
     hbind (hrefresh V rid) (\<lambda>(tip, safe).
     hbind (hstore V (touch_filter rid fid)) (\<lambda>kind.
       (case kind of
          Blocks _ \<Rightarrow> hres (Inl (rpc_err rid ERR_PARAMS ''eth_getFilterLogs needs a log filter''))
        | Logs m from to_block _ \<Rightarrow>
            let end' = min (case to_block of None \<Rightarrow> sh_number safe | Some t \<Rightarrow> t) (sh_number safe) in
            if end' < from then hres (Inr (rpc_ok rid (JArray [])))
            else
              (\<lambda>s. case logs_for_span V m from end' s of
                     (Inr v, s') \<Rightarrow> (Inr (rpc_ok rid (JArray v)), s')
                   | (Inl Capped, s') \<Rightarrow> (Inl (rpc_err rid ERR_PARAMS filter_logs_text), s')
                   | (Inl (LogsRpc code msg), s') \<Rightarrow> (Inl (rpc_err rid code msg), s'))))))"

end
