(* ===== verification/Rpc_Calls.thy ===== *)
theory Rpc_Calls
  imports Rpc_State
begin

text \<open>
  \<open>eth_call\<close> and \<open>eth_estimateGas\<close> (\<open>rpc_server/calls.rs\<close>): request parsing, the block environment built from
  a verified header, the prover over the untrusted data plane, and the mapping of errors.
\<close>

definition REVERT_MSG_HEX_CAP :: nat where "REVERT_MSG_HEX_CAP = 256"
definition REVERT_DATA_CAP :: nat where "REVERT_DATA_CAP = 32768"

section \<open>Errors\<close>

definition revert_rpc :: "('pk, 'sg) ext \<Rightarrow> bytes \<Rightarrow> int \<times> string \<times> string option" where
  "revert_rpc X data =
     (let truncated = (REVERT_DATA_CAP < length data);
          data_bytes = (if truncated then take REVERT_DATA_CAP data else data);
          msg = (if truncated then ''execution reverted (data truncated)''
                 else if data = [] then ''execution reverted''
                 else if length data \<le> REVERT_MSG_HEX_CAP then ''execution reverted: '' @ hex0x X data
                 else ''execution reverted'')
      in (ERR_EXECUTION, msg, Some (hex0x X data_bytes)))"

definition call_error_rpc :: "('pk, 'sg) ext \<Rightarrow> call_error \<Rightarrow> int \<times> string \<times> string option" where
  "call_error_rpc X e =
     (case e of
        call_error.Invalid msg \<Rightarrow> (ERR_PARAMS, msg, None)
      | UnsupportedPrecompile a \<Rightarrow> (ERR_PROOF_FAILED, ''unsupported_precompile: '' @ hex0x X a, None)
      | CallRevert data \<Rightarrow> revert_rpc X data
      | CallHalt reason \<Rightarrow> (ERR_EXECUTION, ''execution_halt: '' @ reason, None)
      | _ \<Rightarrow> (ERR_PROOF_FAILED, ''proof_verification_failed: '' @ show_call_error e, None))"

fun counts_as_proof_failure :: "call_error \<Rightarrow> bool" where
  "counts_as_proof_failure (Missing _) = True"
| "counts_as_proof_failure (CallProof _) = True"
| "counts_as_proof_failure Budget = True"
| "counts_as_proof_failure _ = False"

definition map_call_error :: "('pk, 'sg, 'bc) rpc_env \<Rightarrow> json \<Rightarrow> call_error \<Rightarrow> json handler" where
  "map_call_error V rid e =
     hbind (if counts_as_proof_failure e then hupdate bump_proof_fail else hres (Inr ())) (\<lambda>_.
       (case call_error_rpc (re_ext V) e of
          (code, msg, Some d) \<Rightarrow> hres (Inl (rpc_err_data rid code msg (JString d)))
        | (code, msg, None) \<Rightarrow> hres (Inl (rpc_err rid code msg))))"

section \<open>The prover\<close>

text \<open>
  \<open>UpstreamProve\<close>: a request of the call takes up to three positions of the environment.
\<close>

definition upstream_prove :: "('pk, 'sg, 'bc) rpc_env \<Rightarrow> nat \<Rightarrow> prover" where
  "upstream_prove V base =
     (let X = re_ext V; up = (\<lambda>n i. re_data V (base + 3 * n + i)) in
      \<lparr>pv_get_proof = (\<lambda>n address slots block_hash block_number.
         rbind (map_err (\<lambda>e. CallProof (ProofJson (show_err e)))
           (get_proof_at_safe (up n) (hex0x X address) (map (hex0x X) slots) (hex0x X block_hash) block_number)) (\<lambda>raw.
         map_err (\<lambda>e. CallProof (ProofJson e)) (sd_proof_from (re_serde V) raw))),
       pv_get_code = (\<lambda>n address block_hash block_number.
         map_err (\<lambda>e. CallProof (ProofJson (show_err e)))
           (get_code_at (up n) (hex0x X address) (hex0x X block_hash) (qty block_number)))\<rparr>)"

section \<open>The block environment\<close>

text \<open>The loop with its \<open>continue\<close>s; it stops once 256 hashes are collected.\<close>

definition historical_hashes_at_safe :: "verified_block list \<Rightarrow> nat \<Rightarrow> (nat \<times> bytes) list" where
  "historical_hashes_at_safe chain safe_number =
     take 256 (map (\<lambda>b. (vb_number b, vb_hash b))
       (filter (\<lambda>b. vb_number b \<le> safe_number \<and> safe_number \<le> sat_add (vb_number b) 256) chain))"

definition nonzero_gas_limit :: "nat \<Rightarrow> nat" where
  "nonzero_gas_limit n = (if n = 0 then CALL_GAS_CAP else n)"

definition decode_qty_pad32 :: "('pk, 'sg) ext \<Rightarrow> string \<Rightarrow> (string, bytes) result" where
  "decode_qty_pad32 X s =
     (let raw = trim_all_0x s in
      if raw = [] then Inr (zeros 32)
      else if \<not> list_all is_hexdigit raw then Inl ''value is not hex''
      else if 64 < length raw then Inl ''value too large''
      else
        let even = (if length raw mod 2 = 1 then CHR ''0'' # raw else raw)
        in map_ok pad32 (map_err (\<lambda>e. ''invalid value: '' @ e) (hex_decode X even)))"

text \<open>\<open>if let Ok(v) = ..\<close>: the old value stays when the field does not decode.\<close>

definition or_keep :: "('e, 'a) result \<Rightarrow> 'a \<Rightarrow> 'a" where
  "or_keep r old = (case r of Inl _ \<Rightarrow> old | Inr v \<Rightarrow> v)"

definition opt_u64 :: "string option \<Rightarrow> nat" where
  "opt_u64 v = (case v of None \<Rightarrow> 0 | Some t \<Rightarrow> or_keep (decode_u64 t) 0)"

definition call_block_from_verified ::
    "('pk, 'sg) ext \<Rightarrow> verified_block \<Rightarrow> verified_block list \<Rightarrow> call_block" where
  "call_block_from_verified X local chain =
     (let block =
        \<lparr>cb_number = vb_number local, cb_hash = vb_hash local, cb_state_root = vb_state_root local,
         cb_timestamp = vb_milli_timestamp local div 1000, cb_beneficiary = vb_miner local,
         cb_gas_limit = nonzero_gas_limit (vb_gas_limit local), cb_difficulty = zeros 32, cb_prevrandao = zeros 32,
         cb_basefee = 0, cb_excess_blob_gas = 0,
         cb_historical_hashes = historical_hashes_at_safe chain (vb_number local)\<rparr>
      in case vb_header local of
           None \<Rightarrow> block
         | Some h \<Rightarrow>
             block\<lparr>cb_timestamp := or_keep (decode_u64 (h_timestamp h)) (cb_timestamp block),
                   cb_gas_limit := or_keep (map_ok nonzero_gas_limit (decode_u64 (h_gas_limit h))) (cb_gas_limit block),
                   cb_beneficiary := or_keep (decode_hex_fixed X 20 (h_miner h)) (cb_beneficiary block),
                   cb_prevrandao := or_keep (decode_hex_fixed X 32 (h_mix_hash h)) (cb_prevrandao block),
                   cb_difficulty := or_keep (decode_qty_pad32 X (h_difficulty h)) (cb_difficulty block),
                   cb_basefee := opt_u64 (h_base_fee_per_gas h),
                   cb_excess_blob_gas := opt_u64 (h_excess_blob_gas h)\<rparr>)"

section \<open>The transaction\<close>

fun opt_hex_str :: "json option \<Rightarrow> string \<Rightarrow> (string, string option) result" where
  "opt_hex_str None bad = Inr None"
| "opt_hex_str (Some JNull) bad = Inr None"
| "opt_hex_str (Some (JString s)) bad = Inr (Some s)"
| "opt_hex_str (Some _) bad = Inl bad"

definition parse_call_data :: "('pk, 'sg) ext \<Rightarrow> (string \<times> json) list \<Rightarrow> (string, bytes) result" where
  "parse_call_data X m =
     rbind (opt_hex_str (map_of m ''data'') ''data is not hex'') (\<lambda>data.
     rbind (opt_hex_str (map_of m ''input'') ''input is not hex'') (\<lambda>input.
     rbind (case (data, input) of
              (Some d, Some i) \<Rightarrow> if \<not> eq_ignore_ascii_case d i then Inl ''data/input mismatch'' else Inr (Some d)
            | (Some d, None) \<Rightarrow> Inr (Some d)
            | (None, i) \<Rightarrow> Inr i) (\<lambda>hx.
     (case hx of
        None \<Rightarrow> Inr []
      | Some t \<Rightarrow>
          rbind (map_err (\<lambda>e. ''invalid data: '' @ show_types_error e) (decode_hex X t)) (\<lambda>b.
            if MAX_CALL_DATA < length b then Inl ''calldata too large'' else Inr b)))))"

definition access_address :: "('pk, 'sg) ext \<Rightarrow> (string \<times> json) list \<Rightarrow> (string, bytes) result" where
  "access_address X m =
     (case map_of m ''address'' of
        None \<Rightarrow> Inl ''accessList address required''
      | Some JNull \<Rightarrow> Inl ''accessList address required''
      | Some (JString s) \<Rightarrow> require_rpc_address X s
      | Some _ \<Rightarrow> Inl ''accessList address is not an address'')"

definition access_slots :: "('pk, 'sg) ext \<Rightarrow> (string \<times> json) list \<Rightarrow> (string, bytes list) result" where
  "access_slots X m =
     (case map_of m ''storageKeys'' of
        None \<Rightarrow> Inr []
      | Some JNull \<Rightarrow> Inr []
      | Some (JArray keys) \<Rightarrow>
          if Wire.MAX_PROOF_STORAGE_KEYS < length keys then Inl ''accessList too large''
          else rmapM (\<lambda>k.
            rbind (ok_or (as_str k) ''accessList storage key is not hex'') (\<lambda>s.
              map_err (\<lambda>_. ''accessList storage key is not hex'') (parse_slot X s))) keys
      | Some _ \<Rightarrow> Inl ''accessList storageKeys must be an array'')"

fun access_items ::
    "('pk, 'sg) ext \<Rightarrow> nat \<Rightarrow> json list \<Rightarrow> (string, (bytes \<times> bytes list) list) result" where
  "access_items X total_keys [] = Inr []"
| "access_items X total_keys (item # items) =
     rbind (ok_or (as_object item) ''accessList entry is not an object'') (\<lambda>m.
     rbind (access_address X m) (\<lambda>address.
     rbind (access_slots X m) (\<lambda>slots.
     let total_keys = sat_add total_keys (length slots) in
     if Wire.MAX_PROOF_STORAGE_KEYS < total_keys then Inl ''accessList too large''
     else map_ok (\<lambda>rest. (address, slots) # rest) (access_items X total_keys items))))"

definition parse_access_list ::
    "('pk, 'sg) ext \<Rightarrow> (string \<times> json) list \<Rightarrow> (string, (bytes \<times> bytes list) list) result" where
  "parse_access_list X m =
     (case map_of m ''accessList'' of
        None \<Rightarrow> Inr []
      | Some JNull \<Rightarrow> Inr []
      | Some (JArray items) \<Rightarrow>
          if MAX_CALL_ACCOUNTS < length items then Inl ''accessList too large'' else access_items X 0 items
      | Some _ \<Rightarrow> Inl ''accessList must be an array'')"

definition call_to :: "('pk, 'sg) ext \<Rightarrow> (string \<times> json) list \<Rightarrow> (string, bytes) result" where
  "call_to X m =
     (case map_of m ''to'' of
        Some (JString s) \<Rightarrow> require_rpc_address X s
      | _ \<Rightarrow> Inl ''to address required'')"

definition call_from :: "('pk, 'sg) ext \<Rightarrow> (string \<times> json) list \<Rightarrow> (string, bytes) result" where
  "call_from X m =
     (case map_of m ''from'' of
        None \<Rightarrow> Inr (zeros 20)
      | Some JNull \<Rightarrow> Inr (zeros 20)
      | Some (JString s) \<Rightarrow> require_rpc_address X s
      | Some _ \<Rightarrow> Inl ''from is not an address'')"

definition call_value :: "('pk, 'sg) ext \<Rightarrow> (string \<times> json) list \<Rightarrow> (string, bytes) result" where
  "call_value X m =
     (case map_of m ''value'' of
        None \<Rightarrow> Inr (zeros 32)
      | Some JNull \<Rightarrow> Inr (zeros 32)
      | Some (JString s) \<Rightarrow> decode_qty_pad32 X s
      | Some _ \<Rightarrow> Inl ''value is not hex'')"

definition call_gas_field :: "(string \<times> json) list \<Rightarrow> (string, nat option) result" where
  "call_gas_field m =
     (case map_of m ''gas'' of
        None \<Rightarrow> Inr None
      | Some JNull \<Rightarrow> Inr None
      | Some (JString s) \<Rightarrow> map_ok Some (map_err (\<lambda>e. ''invalid gas: '' @ show_types_error e) (decode_u64 s))
      | Some _ \<Rightarrow> Inl ''gas is not hex'')"

definition unsupported_keys :: "string list" where
  "unsupported_keys = [''stateOverride'', ''blobVersionedHashes'', ''authorizationList'']"

definition parse_eth_call_tx :: "('pk, 'sg) ext \<Rightarrow> json \<Rightarrow> (string, call_tx) result" where
  "parse_eth_call_tx X req =
     rbind (ok_or (req_params req) ''invalid params'') (\<lambda>params.
     if 2 < length params then Inl ''state overrides not supported''
     else
     rbind (ok_or (Option.bind (nth_opt params 0) as_object) ''tx object required'') (\<lambda>m.
     rbind (case find (\<lambda>k. map_of m k \<noteq> None) unsupported_keys of
              None \<Rightarrow> Inr ()
            | Some k \<Rightarrow> Inl (k @ '' not supported'')) (\<lambda>_.
     rbind (call_to X m) (\<lambda>to.
     rbind (call_from X m) (\<lambda>from.
     rbind (parse_call_data X m) (\<lambda>data.
     rbind (call_value X m) (\<lambda>v.
     rbind (call_gas_field m) (\<lambda>gas.
     rbind (parse_access_list X m) (\<lambda>access_list.
       Inr \<lparr>ct_from = from, ct_to = to, ct_data = data, ct_value = v, ct_gas = gas,
            ct_access_list = access_list\<rparr>)))))))))"

section \<open>Handlers\<close>

definition prepare_verified_call ::
    "('pk, 'sg, 'bc) rpc_env \<Rightarrow> json \<Rightarrow> json \<Rightarrow> (call_tx \<times> call_block) handler" where
  "prepare_verified_call V rid req =
     (let X = re_ext V in
      hbind (hres (map_err (rpc_err rid ERR_PARAMS) (parse_eth_call_tx X req))) (\<lambda>tx.
      hbind (hres (wallet_block_id_str rid (Option.bind (req_params req) (\<lambda>p. nth_opt p 1)))) (\<lambda>tag.
      hbind (hrefresh V rid) (\<lambda>(tip, safe).
      hbind hchain (\<lambda>chain.
      hbind (hres (resolve_wallet_exec_block_in X rid tag tip safe chain)) (\<lambda>local.
        hres (Inr (tx, call_block_from_verified X local chain))))))))"

text \<open>A run of the EVM loop, with the positions its requests take: three for each call of the proof source.\<close>

definition hcall ::
    "('pk, 'sg, 'bc) rpc_env \<Rightarrow> (prover \<Rightarrow> (call_error, 'a) result \<times> 'bc call_state) \<Rightarrow>
     (call_error, 'a) result handler" where
  "hcall V f =
     (\<lambda>s. case f (upstream_prove V (sv_tick s)) of
            (r, cs) \<Rightarrow> (Inr r, s\<lparr>sv_tick := sv_tick s + 3 * cs_calls cs\<rparr>))"

definition eth_call :: "('pk, 'sg, 'bc) rpc_env \<Rightarrow> json \<Rightarrow> json \<Rightarrow> json handler" where
  "eth_call V rid req =
     hbind (prepare_verified_call V rid req) (\<lambda>(tx, block).
     hbind (hcall V (\<lambda>pv. eth_call_run (re_ext V) (re_evm V) pv block tx)) (\<lambda>r.
       (case r of
          Inr out \<Rightarrow>
            hbind (hupdate bump_proof_ok) (\<lambda>_. hres (Inr (rpc_ok rid (JString (hex0x (re_ext V) out)))))
        | Inl e \<Rightarrow> map_call_error V rid e)))"

definition eth_estimate_gas :: "('pk, 'sg, 'bc) rpc_env \<Rightarrow> json \<Rightarrow> json \<Rightarrow> json handler" where
  "eth_estimate_gas V rid req =
     hbind (prepare_verified_call V rid req) (\<lambda>(tx, block).
     hbind (hcall V (\<lambda>pv. estimate_run (re_ext V) (re_evm V) pv block tx)) (\<lambda>r.
       (case r of
          Inr gas \<Rightarrow> hbind (hupdate bump_proof_ok) (\<lambda>_. hres (Inr (rpc_ok rid (JString (qty gas)))))
        | Inl e \<Rightarrow> map_call_error V rid e)))"

end
