(* ===== verification/Rpc_Server.thy ===== *)
theory Rpc_Server
  imports Rpc_State Rpc_Receipts Rpc_Logs Rpc_Calls
begin

text \<open>
  The dispatcher (\<open>rpc_server.rs\<close>): the status report, the method table, single requests, batches and
  notifications, and the body of a request. A request whose handling panics is answered with
  \<open>-32603\<close> by the source; no handler of the model panics, so that answer has no counterpart here.
\<close>

section \<open>Status\<close>

definition json_u64 :: "nat \<Rightarrow> json" where
  "json_u64 n = JNumber (PosInt n)"

definition json_opt :: "('a \<Rightarrow> json) \<Rightarrow> 'a option \<Rightarrow> json" where
  "json_opt f v = (case v of None \<Rightarrow> JNull | Some a \<Rightarrow> f a)"

definition status_fields :: "('pk, 'sg) ext \<Rightarrow> nat \<Rightarrow> safe_head \<Rightarrow> node \<Rightarrow> json" where
  "status_fields X tip0 safe0 nd =
     (let sealing = (nd_snapshot nd \<noteq> None);
          view = nd_finality nd;
          justified = fv_justified view;
          finalized = fv_finalized view;
          finality_head = fv_head view;
          safe = (case fv_read_head view of None \<Rightarrow> safe0 | Some h \<Rightarrow> h);
          tip = (if fv_read_head view \<noteq> None then fv_head view else tip0);
          lag = proof_lag tip (sh_number safe);
          interval_ms = fp_block_interval_ms mainnet_current_fork
      in JObject
        [(''trustClass'', JString ''verified''),
         (''finality'', JString (if finalized \<noteq> None then ''fast-finality'' else ''confirmation-depth'')),
         (''forkId'', JString (nd_fork_id nd)),
         (''tip'', json_u64 tip),
         (''safe'', json_u64 (sh_number safe)),
         (''safeHash'', JString (sh_hash safe)),
         (''lag'', json_u64 lag),
         (''safeLagBlocks'', json_u64 lag),
         (''safeLagSeconds'', json_u64 (safe_lag_seconds lag interval_ms)),
         (''blockIntervalMs'', json_u64 interval_ms),
         (''distinctSealers'', json_u64 (sh_distinct_sealers safe)),
         (''requiredSealers'', json_u64 (sh_required_sealers safe)),
         (''nSeal'', json_u64 mainnet_n_seal),
         (''proofWindow'', json_u64 PROVIDER_PROOF_LOOKBACK),
         (''inProofWindow'', JBool (within_proof_window tip (sh_number safe))),
         (''sealingSetEnforced'', JBool sealing),
         (''originCheckpoint'', json_opt json_u64 (nd_origin_checkpoint nd)),
         (''proofOk'', json_u64 (nd_proof_ok nd)),
         (''proofFail'', json_u64 (nd_proof_fail nd)),
         (''headersVerified'', json_u64 (nd_headers_verified nd)),
         (''unverifiedPassthrough'', JBool (nd_allow_unverified_passthrough nd)),
         (''backupTransport'', JBool (nd_backup_transport nd)),
         (''expectedSafeLagBlocks'', json_u64 expected_safe_lag_blocks),
         (''safeLagWithinBound'', JBool (safe_lag_within_slo lag)),
         (''fastFinalityAvailable'', JBool (fv_available view)),
         (''justifiedBlock'', json_opt (\<lambda>(b, _). json_u64 b) justified),
         (''justifiedHash'', json_opt (\<lambda>(_, h). JString (hex0x X h)) justified),
         (''finalizedBlock'', json_opt (\<lambda>(b, _). json_u64 b) finalized),
         (''finalizedHash'', json_opt (\<lambda>(_, h). JString (hex0x X h)) finalized),
         (''finalizedLagBlocks'', json_opt (\<lambda>(b, _). json_u64 (proof_lag finality_head b)) finalized),
         (''justifiedLagBlocks'', json_opt (\<lambda>(b, _). json_u64 (proof_lag finality_head b)) justified),
         (''finalityHead'', json_u64 finality_head),
         (''finalityMode'', JString (case nd_finality_mode nd of
            Fast \<Rightarrow> ''fast'' | ConfirmationDepth \<Rightarrow> ''confirmation-depth'')),
         (''safeSource'', JString (if fv_read_head_is_fast view then ''fast-finality'' else ''confirmation-depth''))])"

definition verification_status :: "('pk, 'sg, 'bc) rpc_env \<Rightarrow> json \<Rightarrow> json handler" where
  "verification_status V rid =
     hbind (hrefresh V rid) (\<lambda>(tip, safe).
     hbind hnode (\<lambda>nd.
       hres (Inr (rpc_ok rid (status_fields (re_ext V) tip safe nd)))))"

section \<open>Methods of the dispatcher itself\<close>

definition web3_sha3 :: "('pk, 'sg) ext \<Rightarrow> json \<Rightarrow> json \<Rightarrow> json handler" where
  "web3_sha3 X rid req =
     hbind (hopt (first_str req) (rpc_err rid ERR_PARAMS ''data hex required'')) (\<lambda>hx.
     hbind (hres (map_err (\<lambda>e. rpc_err rid ERR_PARAMS (''invalid hex: '' @ show_types_error e)) (decode_hex X hx))) (\<lambda>b.
     hbind (hcheck (MAX_RAW_TX < length b) (rpc_err rid ERR_PARAMS ''web3_sha3 payload too large'')) (\<lambda>_.
       hres (Inr (rpc_ok rid (JString (hex0x X (keccak X b))))))))"

definition syncing_object :: "verified_block list \<Rightarrow> json" where
  "syncing_object chain =
     (let hx = JString (qty (if chain = [] then 0 else vb_number (last chain)))
      in JObject [(''startingBlock'', hx), (''currentBlock'', hx), (''highestBlock'', hx)])"

definition eth_syncing :: "('pk, 'sg, 'bc) rpc_env \<Rightarrow> json \<Rightarrow> json handler" where
  "eth_syncing V rid =
     (\<lambda>s. case server_refresh V s of
            (Inr _, s') \<Rightarrow> (Inr (rpc_ok rid (JBool False)), s')
          | (Inl _, s') \<Rightarrow> (Inr (rpc_ok rid (syncing_object (nd_chain (sv_node s')))), s'))"

definition eth_block_number :: "('pk, 'sg, 'bc) rpc_env \<Rightarrow> json \<Rightarrow> json handler" where
  "eth_block_number V rid =
     hbind (hrefresh V rid) (\<lambda>(tip, safe). hres (Inr (rpc_ok rid (JString (qty (sh_number safe))))))"

text \<open>The background thread's sync, \<open>poll_sync\<close>.\<close>

definition server_poll ::
    "('pk, 'sg, 'bc) rpc_env \<Rightarrow> server \<Rightarrow> (err, nat \<times> safe_head) result \<times> server" where
  "server_poll V s =
     (case refresh_now (re_ext V) (re_sync V (sv_tick s)) (re_now V (sv_tick s)) (sv_node s) of
        (r, w, nd) \<Rightarrow>
          (r, s\<lparr>sv_node := nd, sv_saved := (case w of None \<Rightarrow> sv_saved s | Some c \<Rightarrow> Some c),
                sv_tick := sv_tick s + 1\<rparr>))"

definition server_start :: "node \<Rightarrow> server" where
  "server_start nd =
     \<lparr>sv_node = nd, sv_filters = \<lparr>fs_next_id = 0, fs_map = []\<rparr>, sv_saved = None, sv_tick = 0\<rparr>"

section \<open>The method table\<close>

definition fixed_answer :: "json \<Rightarrow> json \<Rightarrow> json handler" where
  "fixed_answer rid v = hres (Inr (rpc_ok rid v))"

definition method_arms :: "('pk, 'sg, 'bc) rpc_env \<Rightarrow> json \<Rightarrow> json \<Rightarrow> (string \<times> json handler) list" where
  "method_arms V rid req =
     [(''eth_chainId'', fixed_answer rid (JString ''0x38'')),
      (''eth_protocolVersion'', fixed_answer rid (JString ''0x41'')),
      (''net_version'', fixed_answer rid (JString ''56'')),
      (''net_listening'', fixed_answer rid (JBool True)),
      (''net_peerCount'', fixed_answer rid (JString ''0x0'')),
      (''web3_clientVersion'', fixed_answer rid (JString (''helios-bsc/'' @ re_version V))),
      (''eth_accounts'', fixed_answer rid (JArray [])),
      (''eth_mining'', fixed_answer rid (JBool False)),
      (''eth_hashrate'', fixed_answer rid (JString ''0x0'')),
      (''web3_sha3'', web3_sha3 (re_ext V) rid req),
      (''eth_syncing'', eth_syncing V rid),
      (''eth_blockNumber'', eth_block_number V rid),
      (''helios_bsc_syncStatus'', verification_status V rid),
      (''eth_getBalance'', account_field V rid req Balance),
      (''eth_getTransactionCount'', account_field V rid req Nonce),
      (''eth_getCode'', get_code V rid req),
      (''eth_call'', eth_call V rid req),
      (''eth_estimateGas'', eth_estimate_gas V rid req),
      (''eth_getStorageAt'', get_storage V rid req),
      (''eth_getProof'', get_eth_proof V rid req),
      (''eth_getBlockByNumber'', get_block_by_number V rid req),
      (''eth_getBlockByHash'', get_block_by_hash V rid req),
      (''eth_getBlockTransactionCountByNumber'', tx_count_by_number V rid req),
      (''eth_getBlockTransactionCountByHash'', tx_count_by_hash V rid req),
      (''eth_getTransactionByBlockNumberAndIndex'', tx_by_block_number_and_index V rid req),
      (''eth_getTransactionByBlockHashAndIndex'', tx_by_block_hash_and_index V rid req),
      (''eth_getUncleCountByBlockNumber'', uncle_count_by_number V rid req),
      (''eth_getUncleCountByBlockHash'', uncle_count_by_hash V rid req),
      (''eth_getUncleByBlockNumberAndIndex'', uncle_by_number V rid req),
      (''eth_getUncleByBlockHashAndIndex'', uncle_by_hash V rid req),
      (''eth_coinbase'', fixed_answer rid (JString ''0x0000000000000000000000000000000000000000'')),
      (''eth_sendRawTransaction'', send_raw V rid req),
      (''eth_getBlockReceipts'', get_block_receipts V rid req),
      (''eth_getLogs'', get_logs V rid req),
      (''eth_newFilter'', new_filter V rid req),
      (''eth_newBlockFilter'', new_block_filter V rid),
      (''eth_uninstallFilter'', uninstall_filter V rid req),
      (''eth_getFilterChanges'', get_filter_changes V rid req),
      (''eth_getFilterLogs'', get_filter_logs V rid req),
      (''eth_getTransactionReceipt'', get_transaction_receipt V rid req),
      (''eth_getTransactionByHash'', unverified_mined V rid req ''eth_getTransactionByHash''),
      (''eth_getRawTransactionByHash'', get_raw_tx_by_hash V rid req),
      (''eth_gasPrice'', unverified_qty V rid req ''eth_gasPrice''),
      (''eth_maxPriorityFeePerGas'', unverified_qty V rid req ''eth_maxPriorityFeePerGas''),
      (''eth_feeHistory'', unverified_qty V rid req ''eth_feeHistory''),
      (''eth_blobBaseFee'', unverified_qty V rid req ''eth_blobBaseFee''),
      (''helios_bsc_getVerificationStatus'', verification_status V rid)]"

definition method_unsupported :: "json \<Rightarrow> json" where
  "method_unsupported rid = rpc_err rid ERR_METHOD ''method_unsupported''"

definition call_method :: "('pk, 'sg, 'bc) rpc_env \<Rightarrow> json \<Rightarrow> json \<Rightarrow> string \<Rightarrow> json handler" where
  "call_method V rid req method =
     (case map_of (method_arms V rid req) method of
        None \<Rightarrow> hres (Inl (method_unsupported rid))
      | Some h \<Rightarrow> h)"

section \<open>Envelopes\<close>

definition invalid_request :: "json \<Rightarrow> json" where
  "invalid_request rid = rpc_err rid ERR_INVALID ''invalid_request''"

definition is_ascii_graphic :: "char \<Rightarrow> bool" where
  "is_ascii_graphic c \<longleftrightarrow> 33 \<le> (of_char c :: nat) \<and> (of_char c :: nat) \<le> 126"

definition handle :: "('pk, 'sg, 'bc) rpc_env \<Rightarrow> json \<Rightarrow> server \<Rightarrow> json \<times> server" where
  "handle V req =
     (let rid = rid_of req in
      respond (
        hbind (hcheck (json_get ''id'' req \<noteq> None \<and> \<not> jsonrpc_id_ok rid) (invalid_request JNull)) (\<lambda>_.
        hbind (hcheck (\<not> jsonrpc_is_v2 req) (invalid_request rid)) (\<lambda>_.
        hbind (hopt (Option.bind (json_get ''method'' req) as_str) (invalid_request rid)) (\<lambda>method.
        hbind (hcheck (method = [] \<or> MAX_RPC_METHOD < length method \<or> \<not> list_all is_ascii_graphic method)
                (invalid_request rid)) (\<lambda>_.
        hbind (hcheck (\<not> jsonrpc_params_ok req) (rpc_err rid ERR_PARAMS ''params must be an array'')) (\<lambda>_.
        hbind (hcheck (MAX_RPC_PARAMS < jsonrpc_params_len req) (rpc_err rid ERR_PARAMS ''too many params'')) (\<lambda>_.
          call_method V rid req method))))))))"

text \<open>One request object, at the top level or in a batch: \<open>None\<close> for a notification.\<close>

definition dispatch_object :: "('pk, 'sg, 'bc) rpc_env \<Rightarrow> json \<Rightarrow> server \<Rightarrow> json option \<times> server" where
  "dispatch_object V x s =
     (case json_get ''id'' x of
        None \<Rightarrow> (None, s)
      | Some rid \<Rightarrow>
          if \<not> jsonrpc_id_ok rid then (Some (invalid_request JNull), s)
          else if \<not> jsonrpc_is_v2 x then (Some (invalid_request rid), s)
          else (case handle V x s of (v, s') \<Rightarrow> (Some v, s')))"

fun dispatch_items :: "('pk, 'sg, 'bc) rpc_env \<Rightarrow> json list \<Rightarrow> server \<Rightarrow> json list \<times> server" where
  "dispatch_items V [] s = ([], s)"
| "dispatch_items V (x # xs) s =
     (let (out, s1) = (case x of
                         JObject _ \<Rightarrow> (case dispatch_object V x s of
                                         (None, s') \<Rightarrow> ([], s')
                                       | (Some v, s') \<Rightarrow> ([v], s'))
                       | _ \<Rightarrow> ([invalid_request JNull], s));
          (rest, s2) = dispatch_items V xs s1
      in (out @ rest, s2))"

definition dispatch :: "('pk, 'sg, 'bc) rpc_env \<Rightarrow> json \<Rightarrow> server \<Rightarrow> json \<times> server" where
  "dispatch V body s =
     (case body of
        JArray arr \<Rightarrow>
          if arr = [] \<or> MAX_RPC_BATCH < length arr then (invalid_request JNull, s)
          else (case dispatch_items V arr s of (out, s') \<Rightarrow> (JArray out, s'))
      | JObject _ \<Rightarrow>
          (case dispatch_object V body s of
             (None, s') \<Rightarrow> (JNull, s')
           | (Some v, s') \<Rightarrow> (v, s'))
      | _ \<Rightarrow> (invalid_request JNull, s))"

definition dispatch_bytes :: "('pk, 'sg, 'bc) rpc_env \<Rightarrow> bytes \<Rightarrow> server \<Rightarrow> json \<times> server" where
  "dispatch_bytes V buf s =
     (case sd_from_slice (re_serde V) buf of
        Some body \<Rightarrow> dispatch V body s
      | None \<Rightarrow> (rpc_err JNull ERR_PARSE ''parse_error'', s))"

end
