(* ===== verification/Rpc_Inv.thy ===== *)
theory Rpc_Inv
  imports Rpc_Server Call_Sound
begin

text \<open>
  What requests do to the server. Every handler is put together from a few elementary changes (a
  sync, a counter, a position of the environment, an operation of the filter store); a relation between server
  states that holds across each of these and composes holds across every request. The locales name the changes
  in three steps: work that only asks the upstream, work that may also sync, and every request. Instances here are
  the unchanged node and store, the node invariant and the bounds of the filter store.
\<close>

section \<open>Relations that requests keep\<close>

definition stays :: "(server \<Rightarrow> server \<Rightarrow> bool) \<Rightarrow> (server \<Rightarrow> 'r \<times> server) \<Rightarrow> bool" where
  "stays R m \<longleftrightarrow> (\<forall>s. R s (snd (m s)))"

lemma stays_cases:
  "stays R m \<Longrightarrow> stays R n \<Longrightarrow> stays R (if b then m else n)"
  "(\<And>x y. stays R (g x y)) \<Longrightarrow> stays R (case p of (x, y) \<Rightarrow> g x y)"
  "stays R m \<Longrightarrow> (\<And>a. stays R (h a)) \<Longrightarrow> stays R (case v of None \<Rightarrow> m | Some a \<Rightarrow> h a)"
  "(\<And>e. stays R (l e)) \<Longrightarrow> (\<And>a. stays R (h a)) \<Longrightarrow> stays R (case r of Inl e \<Rightarrow> l e | Inr a \<Rightarrow> h a)"
  by (simp_all split: prod.split option.split sum.split)

lemma stays_state_cases:
  "stays R m \<Longrightarrow> stays R n \<Longrightarrow> stays R (\<lambda>s. if b then m s else n s)"
  "stays R m \<Longrightarrow> (\<And>a. stays R (h a)) \<Longrightarrow> stays R (\<lambda>s. case v of None \<Rightarrow> m s | Some a \<Rightarrow> h a s)"
  "(\<And>e. stays R (l e)) \<Longrightarrow> (\<And>a. stays R (h a)) \<Longrightarrow> stays R (\<lambda>s. case r of Inl e \<Rightarrow> l e s | Inr a \<Rightarrow> h a s)"
  by (auto simp: stays_def split: option.split sum.split)

locale asking =
  fixes V :: "('pk, 'sg, 'bc) rpc_env" and R :: "server \<Rightarrow> server \<Rightarrow> bool"
  assumes same: "R s s"
    and trans: "R s t \<Longrightarrow> R t u \<Longrightarrow> R s u"
    and tick: "R s (s\<lparr>sv_tick := sv_tick s + k\<rparr>)"
begin

lemma then_stays: "stays R m \<Longrightarrow> (\<And>a. stays R (f a)) \<Longrightarrow> stays R (\<lambda>s. then_step (m s) f)"
  unfolding stays_def then_step_def by (auto split: prod.splits sum.splits) (metis snd_conv, metis snd_conv trans)

lemma bind_step: "stays R m \<Longrightarrow> (\<And>a. stays R (f a)) \<Longrightarrow> stays R (hbind m f)"
  unfolding hbind_def by (rule then_stays)

lemma return_step: "stays R (Pair r)"
  by (simp add: stays_def same)

lemma pair_step: "stays R m \<Longrightarrow> stays R (\<lambda>s. case m s of (r, s') \<Rightarrow> (g r, s'))"
  by (auto simp: stays_def split: prod.split) (metis snd_conv)

lemma pure_steps [intro!]:
  "stays R (hres r)" "stays R (hopt v e)" "stays R (hcheck b e)" "stays R hnode" "stays R hchain" "stays R (hask V k q)"
  using same tick
  by (simp_all add: stays_def hopt_def hcheck_def hask_def)

lemma call_step: "stays R (hcall V f)"
  using tick by (simp add: stays_def hcall_def split: prod.split)

section \<open>Fetching\<close>

lemma header_step: "stays R (load_verified_header V local)"
  using tick [of _ 1] same by (simp add: stays_def load_verified_header_def split: option.split)

lemma tx_hashes_step: "stays R (bind_tx_hashes V hdr)"
  using tick [of _ 1] same by (simp add: stays_def bind_tx_hashes_def split: sum.split)

lemma envelopes_step: "stays R (bind_tx_envelopes V hdr)"
  using tick [of _ 1] same by (simp add: stays_def bind_tx_envelopes_def split: sum.split)

lemma block_txs_step: "stays R (bound_block_txs V local)"
  unfolding bound_block_txs_def by (intro then_stays header_step tx_hashes_step return_step)

lemma ask_step: "stays R (\<lambda>s. (q s, s\<lparr>sv_tick := sv_tick s + 1\<rparr>))"
  using tick [of _ 1] by (simp add: stays_def)

lemma receipts_step: "stays R (bind_receipts V hdr)"
  unfolding bind_receipts_def Let_def
  by (intro stays_state_cases then_stays ask_step return_step envelopes_step)

lemma block_receipts_step: "stays R (bound_block_receipts V local)"
  unfolding bound_block_receipts_def by (intro then_stays header_step receipts_step return_step)

lemma with_rid_step: "stays R m \<Longrightarrow> stays R (with_rid rid m)"
  unfolding with_rid_def by (rule pair_step)

lemma fetch_group_step: "stays R (fetch_group V bs)"
proof (induction bs)
  case (Cons b bs)
  then show ?case
    using block_receipts_step [of b] trans by (auto simp: stays_def Let_def split: prod.split) (metis snd_conv)
qed (simp add: stays_def same)

lemma collect_logs_step: "stays R (collect_logs V blocks addresses topics out)"
proof (induction "length blocks" arbitrary: blocks out rule: less_induct)
  case less
  show ?case
  proof (unfold stays_def, rule allI)
    fix s :: server
    show "R s (snd (collect_logs V blocks addresses topics out s))"
    proof (cases "blocks = []")
      case True
      then show ?thesis by (simp add: collect_logs.simps same)
    next
      case False
      obtain fetched s' where f: "fetch_group V (take LOG_FETCH_PARALLEL blocks) s = (fetched, s')" by fastforce
      have "R s s'" using fetch_group_step [of "take LOG_FETCH_PARALLEL blocks"] f by (simp add: stays_def) (metis snd_conv)
      moreover have "R s' (snd (collect_logs V (drop LOG_FETCH_PARALLEL blocks) addresses topics out' s'))" for out'
        using less [of "drop LOG_FETCH_PARALLEL blocks" out'] False by (simp add: stays_def LOG_FETCH_PARALLEL_def)
      ultimately show ?thesis using False f trans by (auto simp: collect_logs.simps [of V blocks] split: sum.split)
    qed
  qed
qed

end

text \<open>What finds the blocks of a request syncs first.\<close>

locale fetching = asking +
  assumes sync: "R s (snd (server_refresh V s))"
begin

lemma refresh_step: "stays R (hrefresh V rid)"
  unfolding stays_def hrefresh_def using sync by (auto split: prod.split sum.split) (metis snd_conv)+

lemmas fetch_steps = bind_step pure_steps stays_cases refresh_step call_step

lemma resolve_blocks_step: "stays R (resolve_get_logs_blocks V rid f)"
  unfolding resolve_get_logs_blocks_def Let_def by (intro fetch_steps)+

lemma logs_answer_step:
  assumes "stays R m"
  shows "stays R (\<lambda>s. case m s of
      (Inr out, s') \<Rightarrow> (a out, s') | (Inl Capped, s') \<Rightarrow> (b, s') | (Inl (LogsRpc code msg), s') \<Rightarrow> (c code msg, s'))"
proof -
  have "(case m s of (Inr out, s') \<Rightarrow> (a out, s') | (Inl Capped, s') \<Rightarrow> (b, s') | (Inl (LogsRpc code msg), s') \<Rightarrow> (c code msg, s')) =
    (case m s of (r, s') \<Rightarrow> (case r of Inr out \<Rightarrow> a out | Inl Capped \<Rightarrow> b | Inl (LogsRpc code msg) \<Rightarrow> c code msg, s'))" for s
    by (simp split: prod.split sum.split logs_error.split)
  then show ?thesis using pair_step [OF assms] by simp
qed

lemma span_step: "stays R (logs_for_span V m from to)"
  unfolding logs_for_span_def Let_def
  by (intro stays_state_cases then_stays return_step collect_logs_step pair_step resolve_blocks_step)

lemma poll_step: "stays R (poll_span V rid m cursor end')"
proof (induction "end' - cursor" arbitrary: end' rule: less_induct)
  case less
  show ?case
  proof (unfold stays_def, rule allI)
    fix s :: server
    obtain r s' where f: "logs_for_span V m cursor end' s = (r, s')" by fastforce
    have 1: "R s s'" using span_step [of m cursor end'] f by (simp add: stays_def) (metis snd_conv)
    have 2: "R s' (snd (poll_span V rid m cursor (sat_add cursor ((end' - cursor) div 2)) s'))" if "cursor < end'"
      using less [of "sat_add cursor ((end' - cursor) div 2)"] that by (auto simp: stays_def sat_add_def)
    show "R s (snd (poll_span V rid m cursor end' s))"
      using f 1 trans [OF 1 2] by (auto simp: poll_span.simps [of V rid m cursor end'] split: sum.split logs_error.split)
  qed
qed

end

text \<open>Requests also count proofs and work on the filter store.\<close>

locale server_relation = fetching +
  assumes proof_ok: "R s (s\<lparr>sv_node := bump_proof_ok (sv_node s)\<rparr>)"
    and proof_fail: "R s (s\<lparr>sv_node := bump_proof_fail (sv_node s)\<rparr>)"
    and insertion: "R s (s\<lparr>sv_filters := snd (store_insert now kind (sv_filters s))\<rparr>)"
    and removal: "R s (s\<lparr>sv_filters := sweep now (sv_filters s)\<lparr>fs_map :=
           filter (\<lambda>e. fst e \<noteq> fid) (fs_map (sweep now (sv_filters s)))\<rparr>\<rparr>)"
    and touch: "R s (s\<lparr>sv_filters := snd (touch_filter rid fid now (sv_filters s))\<rparr>)"
    and move: "R s (s\<lparr>sv_filters := move_cursor logs fid c (sv_filters s)\<rparr>)"
begin

lemma count_steps [intro!]: "stays R (hupdate bump_proof_ok)" "stays R (hupdate bump_proof_fail)"
  using proof_ok proof_fail by (simp_all add: stays_def)

lemma store_step:
  assumes "\<And>now fs. \<exists>kind. snd (f now fs) = snd (store_insert now kind fs)"
  shows "stays R (hstore V f)"
proof (unfold stays_def, rule allI)
  fix s :: server
  let ?now = "re_now V (sv_tick s)"
  obtain kind where "snd (f ?now (sv_filters s)) = snd (store_insert ?now kind (sv_filters s))" using assms by blast
  then show "R s (snd (hstore V f s))"
    using trans [OF insertion [of s ?now kind] tick [of _ 1]] by (auto simp: hstore_def split: prod.split)
qed

lemma touch_step: "stays R (hstore V (touch_filter rid fid))"
  using trans [OF touch tick [of _ 1]] by (simp add: stays_def hstore_def split: prod.split) (metis snd_conv)

lemma move_step: "stays R (hmove logs fid c)"
  using move by (simp add: stays_def hmove_def)

lemmas base_steps = fetch_steps count_steps touch_step move_step

section \<open>Handlers\<close>

lemmas more_steps = base_steps with_rid_step block_txs_step block_receipts_step

lemma local_block_steps:
  "stays R (local_block_by_number V req)" "stays R (local_block_by_hash V req)" "stays R (local_block_by_number_or_hash V req)"
  unfolding local_block_by_number_or_hash_def local_block_by_number_def local_block_by_hash_def Let_def
  by (intro more_steps)+

lemma block_handlers:
  "stays R (get_block_by_number V rid req)" "stays R (get_block_by_hash V rid req)"
  "stays R (uncle_count_by_number V rid req)" "stays R (uncle_count_by_hash V rid req)"
  "stays R (uncle_by_number V rid req)" "stays R (uncle_by_hash V rid req)"
  "stays R (tx_count_by_number V rid req)" "stays R (tx_count_by_hash V rid req)"
  "stays R (tx_by_block_number_and_index V rid req)" "stays R (tx_by_block_hash_and_index V rid req)"
  unfolding get_block_by_number_def get_block_by_hash_def verified_header_json_def uncle_count_by_number_def
    uncle_count_by_hash_def uncle_by_number_def uncle_by_hash_def tx_count_by_number_def tx_count_by_hash_def
    verified_tx_count_def tx_by_block_number_and_index_def tx_by_block_hash_and_index_def tx_at_index_def Let_def
  by (intro more_steps local_block_steps)+

lemma counted_step: "stays R (counted rid r)"
  unfolding counted_def by (intro base_steps)

lemma proof_step: "stays R (verified_proof V rid addr tip exec keys)"
  unfolding verified_proof_def Let_def by (intro base_steps counted_step)

lemma exec_steps:
  "stays R (params_and_address X rid req)" "stays R (exec_block V rid tag)" "stays R (verified_account_at V rid addr tip exec)"
  "stays R (check_keys X rid acc pr keys)"
  unfolding params_and_address_def exec_block_def resolve_wallet_exec_block_def verified_account_at_def
     apply (intro base_steps proof_step)+
  by (induction keys) (auto intro!: base_steps counted_step return_step)

lemma state_handlers:
  "stays R (account_field V rid req field)" "stays R (get_code V rid req)" "stays R (get_storage V rid req)"
  "stays R (get_eth_proof V rid req)"
  unfolding account_field_def get_code_def get_storage_def get_eth_proof_def Let_def
  by (intro base_steps exec_steps proof_step)+

lemma upstream_steps:
  "stays R (ask_upstream V rid method req)" "stays R (passthrough_allowed rid)" "stays R (bound_to_chain V rid raw want)"
  "stays R (passthrough_mined V rid raw want)"
  unfolding ask_upstream_def passthrough_allowed_def bound_to_chain_def passthrough_mined_def
  by (intro base_steps)+

lemma receipt_from_block_step: "stays R (receipt_from_block V rid raw want local)"
  unfolding receipt_from_block_def
  by (intro bind_step with_rid_step block_receipts_step stays_cases(2)) (auto split: receipt_bind.split intro: upstream_steps)

lemma receipt_handlers:
  "stays R (get_block_receipts V rid req)" "stays R (get_transaction_receipt V rid req)"
  "stays R (unverified_mined V rid req method)" "stays R (unverified_qty V rid req method)"
  "stays R (get_raw_tx_by_hash V rid req)" "stays R (send_raw V rid req)"
  unfolding get_block_receipts_def get_transaction_receipt_def unverified_mined_def unverified_qty_def
    get_raw_tx_by_hash_def send_raw_def Let_def
  by (intro more_steps local_block_steps upstream_steps receipt_from_block_step)+

lemma removal_step: "stays R (hstore V (\<lambda>now fs. let fs = sweep now fs in (a fs, fs\<lparr>fs_map := filter (\<lambda>e. fst e \<noteq> fid) (fs_map fs)\<rparr>)))"
  using trans [OF removal tick [of _ 1]] by (simp add: stays_def hstore_def Let_def)

lemma changes_steps:
  "stays R (block_changes X rid fid from head)" "stays R (log_changes V rid fid m to_block cursor head)"
  unfolding block_changes_def log_changes_def Let_def by (intro base_steps poll_step)+

lemma logs_handlers:
  "stays R (get_logs V rid req)" "stays R (new_filter V rid req)" "stays R (new_block_filter V rid)"
  "stays R (uninstall_filter V rid req)" "stays R (get_filter_changes V rid req)" "stays R (get_filter_logs V rid req)"
proof -
  show "stays R (get_logs V rid req)"
    unfolding get_logs_def Let_def by (intro base_steps resolve_blocks_step logs_answer_step collect_logs_step)
  have ins: "stays R (hstore V (\<lambda>now fs. case store_insert now kind fs of (r, fs') \<Rightarrow> (g r, fs')))" for kind g
    by (rule store_step) (auto split: prod.split intro!: exI [of _ kind])
  show "stays R (new_filter V rid req)" "stays R (new_block_filter V rid)"
    unfolding new_filter_def new_block_filter_def Let_def by (intro base_steps ins)+
  show "stays R (uninstall_filter V rid req)"
    unfolding uninstall_filter_def by (intro bind_step pure_steps removal_step)
  show "stays R (get_filter_changes V rid req)"
    unfolding get_filter_changes_def
    by (intro bind_step pure_steps refresh_step touch_step stays_cases(2)) (auto split: filter_kind.split intro: changes_steps)
  show "stays R (get_filter_logs V rid req)"
    unfolding get_filter_logs_def Let_def
    by (intro bind_step pure_steps refresh_step touch_step stays_cases(2))
       (auto split: filter_kind.split intro!: logs_answer_step span_step return_step)
qed

lemma call_handlers: "stays R (eth_call V rid req)" "stays R (eth_estimate_gas V rid req)"
  unfolding eth_call_def eth_estimate_gas_def prepare_verified_call_def map_call_error_def Let_def
  by (intro base_steps)+

section \<open>Requests\<close>

lemma method_arms_step: "map_of (method_arms V rid req) method = Some h \<Longrightarrow> stays R h"
proof -
  have "stays R (eth_syncing V rid)"
    using sync by (auto simp: stays_def eth_syncing_def split: prod.split sum.split) (metis snd_conv)+
  moreover have "stays R (eth_block_number V rid)" "stays R (verification_status V rid)" "stays R (web3_sha3 X rid req)" for X
    unfolding eth_block_number_def verification_status_def web3_sha3_def by (intro base_steps)+
  ultimately have "list_all (\<lambda>(name, h). stays R h) (method_arms V rid req)"
    by (simp add: method_arms_def fixed_answer_def block_handlers state_handlers receipt_handlers logs_handlers call_handlers
        return_step pure_steps)
  then show "map_of (method_arms V rid req) method = Some h \<Longrightarrow> stays R h"
    using map_of_SomeD by (fastforce simp: list_all_iff)
qed

lemma handle_step: "stays R (handle V req)"
proof -
  have c: "stays R (call_method V rid req m)" for rid m
    using method_arms_step by (auto simp: call_method_def intro!: pure_steps split: option.split)
  have r: "stays R m \<Longrightarrow> stays R (respond m)" for m
    by (auto simp: stays_def respond_def split: prod.split sum.split) (metis snd_conv)+
  show ?thesis unfolding handle_def Let_def by (intro r c bind_step pure_steps)
qed

lemma object_step: "R s (snd (dispatch_object V x s))"
  using handle_step [of x] same by (auto simp: stays_def dispatch_object_def split: option.split prod.split) (metis snd_conv)

lemma items_step: "R s (snd (dispatch_items V xs s))"
proof (induction xs arbitrary: s)
  case (Cons x xs)
  let ?first = "case x of JObject _ \<Rightarrow> (case dispatch_object V x s of (None, s') \<Rightarrow> ([], s') | (Some v, s') \<Rightarrow> ([v], s'))
                | _ \<Rightarrow> ([invalid_request JNull], s)"
  have "R s (snd ?first)" using object_step [of s x] same by (auto split: json.split prod.split option.split)
  moreover have "R (snd ?first) (snd (dispatch_items V xs (snd ?first)))" by (rule Cons)
  ultimately show ?case using trans by (simp add: Let_def case_prod_beta)
qed (simp add: same)

lemma dispatch_step: "R s (snd (dispatch V body s))"
  using object_step [of s body] items_step [of s] same
  by (auto simp: dispatch_def split: json.split prod.split option.split) (metis snd_conv)+

theorem request_step: "R s (snd (dispatch_bytes V buf s))"
  using dispatch_step same by (simp add: dispatch_bytes_def split: option.split)

end

section \<open>The node behind the server\<close>

text \<open>
  A request takes as many positions of the environment as it has interactions with the outside; each
  is at most one sync, which adds at most \<open>2 * k\<close> to the height.
\<close>

definition bounded_env :: "('pk, 'sg, 'bc) rpc_env \<Rightarrow> nat \<Rightarrow> bool" where
  "bounded_env V k \<longleftrightarrow> (\<forall>t i. serves_at_most k (re_sync V t i))"

definition steps :: "nat \<Rightarrow> server \<Rightarrow> server \<Rightarrow> nat" where
  "steps k s t = 2 * k * (sv_tick t - sv_tick s)"

definition node_kept :: "('pk, 'sg, 'bc) rpc_env \<Rightarrow> nat \<Rightarrow> server \<Rightarrow> server \<Rightarrow> bool" where
  "node_kept V k s t \<longleftrightarrow> sv_tick s \<le> sv_tick t \<and>
     (\<forall>n. bounded_env V k \<and> node_inv (re_ext V) (sv_node s) \<and> node_below n (sv_node s) \<and> n + steps k s t \<le> u64_max \<longrightarrow>
        node_inv (re_ext V) (sv_node t) \<and> node_below (n + steps k s t) (sv_node t))"

lemma node_below_mono: "node_below n nd \<Longrightarrow> n \<le> m \<Longrightarrow> node_below m nd"
  by (auto simp: node_below_def)

lemma node_kept_trans:
  assumes "node_kept V k s t" "node_kept V k t u"
  shows "node_kept V k s u"
proof -
  have le: "sv_tick s \<le> sv_tick t" "sv_tick t \<le> sv_tick u" using assms by (simp_all add: node_kept_def)
  then have "sv_tick u - sv_tick s = (sv_tick t - sv_tick s) + (sv_tick u - sv_tick t)" by simp
  then have st: "steps k s u = steps k s t + steps k t u" by (simp only: steps_def distrib_left)
  show ?thesis
    unfolding node_kept_def
  proof (intro conjI allI impI)
    fix n
    assume h: "bounded_env V k \<and> node_inv (re_ext V) (sv_node s) \<and> node_below n (sv_node s) \<and> n + steps k s u \<le> u64_max"
    then have "n + steps k s t \<le> u64_max" using st by simp
    then have "node_inv (re_ext V) (sv_node t)" "node_below (n + steps k s t) (sv_node t)"
      using assms(1) h by (auto simp: node_kept_def)
    then have "node_inv (re_ext V) (sv_node u) \<and> node_below (n + steps k s t + steps k t u) (sv_node u)"
      using assms(2) h st by (auto simp: node_kept_def add.assoc)
    then show "node_inv (re_ext V) (sv_node u)" "node_below (n + steps k s u) (sv_node u)" by (simp_all add: st add.assoc)
  qed (use le in simp)
qed

text \<open>A change that leaves the chain, the snapshot, the rollback points and the origin alone.\<close>

lemma node_kept_same:
  assumes "sv_tick s \<le> sv_tick t" "nd_chain (sv_node t) = nd_chain (sv_node s)" "nd_snapshot (sv_node t) = nd_snapshot (sv_node s)"
    "nd_rollbacks (sv_node t) = nd_rollbacks (sv_node s)" "nd_origin (sv_node t) = nd_origin (sv_node s)"
  shows "node_kept V k s t"
  using assms(1) node_inv_cong [OF assms(2-5)] node_below_mono [of _ "sv_node s"] by (auto simp: node_kept_def)

lemma node_kept_refresh: "node_kept V k s (snd (server_refresh V s))"
proof -
  obtain r w nd where f: "refresh (re_ext V) (re_sync V (sv_tick s)) (re_now V (sv_tick s)) (sv_node s) = (r, w, nd)"
    by (cases "refresh (re_ext V) (re_sync V (sv_tick s)) (re_now V (sv_tick s)) (sv_node s)") auto
  show ?thesis
    using refresh_inv [OF _ _ _ _ f] f by (auto simp: node_kept_def server_refresh_def steps_def bounded_env_def)
qed

lemma move_fields [simp]: "fs_next_id (move_cursor logs fid c fs) = fs_next_id fs"
  by (simp add: move_cursor_def split: option.split)

interpretation node_rel: server_relation V "node_kept V k" for V :: "('pk, 'sg, 'bc) rpc_env" and k
proof unfold_locales
  show "node_kept V k s t \<Longrightarrow> node_kept V k t u \<Longrightarrow> node_kept V k s u" for s t u by (rule node_kept_trans)
  show "node_kept V k s (snd (server_refresh V s))" for s by (rule node_kept_refresh)
qed (rule node_kept_same; simp add: bump_proof_ok_def bump_proof_fail_def)+

section \<open>The filter store\<close>

definition filters_ok :: "filter_store \<Rightarrow> bool" where
  "filters_ok fs \<longleftrightarrow>
     distinct (map fst (fs_map fs)) \<and> length (fs_map fs) \<le> MAX_FILTERS \<and> (\<forall>e \<in> set (fs_map fs). fst e \<le> fs_next_id fs) \<and>
     is_u64 (fs_next_id fs)"

lemma filters_ok_filter: "filters_ok fs \<Longrightarrow> filters_ok (fs\<lparr>fs_map := filter P (fs_map fs)\<rparr>)"
  using le_trans [OF length_filter_le] by (auto simp: filters_ok_def distinct_map inj_on_def)

lemma filters_ok_sweep: "filters_ok fs \<Longrightarrow> filters_ok (sweep now fs)"
  unfolding sweep_def by (rule filters_ok_filter)

lemma filters_ok_update:
  assumes "filters_ok fs" "k \<in> fst ` set (fs_map fs) \<or> length (fs_map fs) < MAX_FILTERS" "k \<le> m" "fs_next_id fs \<le> m" "is_u64 m"
  shows "filters_ok \<lparr>fs_next_id = m, fs_map = AList.update k f (fs_map fs)\<rparr>"
proof -
  let ?up = "AList.update k f (fs_map fs)"
  have d: "distinct (map fst (fs_map fs))" "distinct (map fst ?up)"
    using assms(1) by (simp_all add: filters_ok_def distinct_update)
  have keys: "fst ` set ?up = insert k (fst ` set (fs_map fs))" by (simp add: dom_update)
  have "length ?up = card (insert k (fst ` set (fs_map fs)))"
    using distinct_card [OF d(2)] keys by simp
  moreover have "length (fs_map fs) = card (fst ` set (fs_map fs))" using distinct_card [OF d(1)] by simp
  ultimately have "length ?up \<le> MAX_FILTERS" using assms(1,2) by (auto simp: filters_ok_def card_insert_if)
  moreover have "fst e \<le> m" if "e \<in> set ?up" for e
  proof -
    have "fst e \<in> insert k (fst ` set (fs_map fs))" using that keys by blast
    then show ?thesis using assms(1,3,4) by (auto simp: filters_ok_def)
  qed
  ultimately show ?thesis using d(2) assms(5) by (simp add: filters_ok_def)
qed

lemma filters_ok_insert:
  assumes "filters_ok fs"
  shows "filters_ok (snd (store_insert now kind fs))"
proof -
  define fs1 where "fs1 = sweep now fs"
  define fs2 where "fs2 = (if MAX_FILTERS \<le> length (fs_map fs1)
    then (case oldest (fs_map fs1) of None \<Rightarrow> fs1 | Some (k, _) \<Rightarrow> fs1\<lparr>fs_map := filter (\<lambda>e. fst e \<noteq> k) (fs_map fs1)\<rparr>) else fs1)"
  have ok: "filters_ok fs2"
    using filters_ok_sweep [OF assms, of now] filters_ok_filter by (auto simp: fs2_def fs1_def split: option.split)
  have m: "fs_next_id fs2 \<le> sat_add (fs_next_id fs2) 1" "is_u64 (sat_add (fs_next_id fs2) 1)"
    using ok by (auto simp: filters_ok_def sat_add_def is_u64_def)
  have "store_insert now kind fs = (if MAX_FILTERS \<le> length (fs_map fs2) then (Inl ''too many filters'', fs2)
    else (Inr (sat_add (fs_next_id fs2) 1), \<lparr>fs_next_id = sat_add (fs_next_id fs2) 1,
      fs_map = AList.update (sat_add (fs_next_id fs2) 1) \<lparr>sf_kind = kind, sf_touched = now\<rparr> (fs_map fs2)\<rparr>))"
    unfolding store_insert_def Let_def fs1_def fs2_def by (rule refl)
  then show ?thesis using ok filters_ok_update [OF ok _ order_refl m] by (simp add: not_le)
qed

lemma filters_ok_set:
  "filters_ok fs \<Longrightarrow> map_of (fs_map fs) fid = Some f \<Longrightarrow> filters_ok (fs\<lparr>fs_map := AList.update fid g (fs_map fs)\<rparr>)"
  using filters_ok_update [of fs fid "fs_next_id fs" g] map_of_SomeD [of "fs_map fs" fid f]
  by (cases fs) (force simp: filters_ok_def)

lemma filters_ok_touch: "filters_ok fs \<Longrightarrow> filters_ok (snd (touch_filter rid fid now fs))"
  using filters_ok_sweep [of fs now] filters_ok_set by (auto simp: touch_filter_def Let_def split: option.split)

lemma filters_ok_move: "filters_ok fs \<Longrightarrow> filters_ok (move_cursor logs fid c fs)"
  using filters_ok_set by (auto simp: move_cursor_def split: option.split)

interpretation store_rel: server_relation V "\<lambda>s t. filters_ok (sv_filters s) \<longrightarrow> filters_ok (sv_filters t)"
  for V :: "('pk, 'sg, 'bc) rpc_env"
  by unfold_locales
    (simp_all add: filters_ok_insert filters_ok_touch filters_ok_move filters_ok_sweep filters_ok_filter server_refresh_def
      split: prod.split)

text \<open>Fetching leaves the filter store alone, and asking for a block's data the node too.\<close>

interpretation same_node: asking V "\<lambda>s t. sv_node t = sv_node s" for V :: "('pk, 'sg, 'bc) rpc_env"
  by unfold_locales simp_all

interpretation same_store: fetching V "\<lambda>s t. sv_filters t = sv_filters s" for V :: "('pk, 'sg, 'bc) rpc_env"
  by unfold_locales (simp_all add: server_refresh_def split: prod.split)

section \<open>Running servers\<close>

lemma node_kept_poll: "node_kept V k s (snd (server_poll V s))"
proof -
  obtain r w nd where f: "refresh_now (re_ext V) (re_sync V (sv_tick s)) (re_now V (sv_tick s)) (sv_node s) = (r, w, nd)"
    by (cases "refresh_now (re_ext V) (re_sync V (sv_tick s)) (re_now V (sv_tick s)) (sv_node s)") auto
  show ?thesis
    using refresh_now_inv [OF _ _ _ _ f] f by (auto simp: node_kept_def server_poll_def steps_def bounded_env_def)
qed

text \<open>
  A server that was started on a reachable node and since then took requests, of any bytes, and background syncs in
  any order.
\<close>

inductive server_run :: "('pk, 'sg, 'bc) rpc_env \<Rightarrow> nat \<Rightarrow> nat \<Rightarrow> server \<Rightarrow> bool"
  for V :: "('pk, 'sg, 'bc) rpc_env" and k n :: nat where
  start: "node_run (re_ext V) k n nd \<Longrightarrow> server_run V k n (server_start nd)"
| request: "server_run V k n s \<Longrightarrow> dispatch_bytes V buf s = (resp, s') \<Longrightarrow> server_run V k n s'"
| poll: "server_run V k n s \<Longrightarrow> server_poll V s = (r, s') \<Longrightarrow> server_run V k n s'"

lemma server_run_facts:
  assumes "server_run V k n s" "n \<le> u64_max"
  shows "\<exists>nd. node_inv (re_ext V) nd \<and> node_below n nd \<and> node_kept V k (server_start nd) s \<and> filters_ok (sv_filters s)"
  using assms
proof induction
  case (start nd)
  then have "node_inv (re_ext V) nd" "node_below n nd" using node_run_facts by blast+
  then show ?case using node_rel.same by (auto simp: server_start_def filters_ok_def is_u64_def)
next
  case (request s buf resp s')
  then have "snd (dispatch_bytes V buf s) = s'" by simp
  then show ?case
    using request.IH [OF request.prems] node_rel.request_step [of V k s buf] store_rel.request_step [of s V buf] node_kept_trans by metis
next
  case (poll s r s')
  then have "snd (server_poll V s) = s'" by simp
  moreover have "sv_filters (snd (server_poll V s)) = sv_filters s" by (simp add: server_poll_def split: prod.split)
  ultimately show ?case using poll.IH [OF poll.prems] node_kept_poll [of V k s] node_kept_trans by metis
qed

text \<open>
  C12. No request can break the node. After any sequence of request bodies, well formed or not, interleaved
  with background syncs, against any upstream answers, the server's chain is linked, signed and
  consecutive, ends at the snapshot's head, and its rollback points are states of that chain;
  and the filter store holds at most 64 filters under distinct ids, none above the id counter.
\<close>

theorem server_run_inv:
  assumes "server_run V k n s" "bounded_env V k" "n + 2 * k * sv_tick s \<le> u64_max"
  shows "node_inv (re_ext V) (sv_node s) \<and> length (fs_map (sv_filters s)) \<le> 64 \<and>
    distinct (map fst (fs_map (sv_filters s))) \<and> (\<forall>e \<in> set (fs_map (sv_filters s)). fst e \<le> fs_next_id (sv_filters s))"
proof -
  obtain nd where nd: "node_inv (re_ext V) nd" "node_below n nd" "node_kept V k (server_start nd) s" "filters_ok (sv_filters s)"
    using server_run_facts [OF assms(1)] assms(3) by auto
  have "node_inv (re_ext V) (sv_node s)"
    using nd(1-3) assms(2,3) by (auto simp: node_kept_def steps_def server_start_def)
  then show ?thesis using nd(4) by (simp add: filters_ok_def MAX_FILTERS_def)
qed

section \<open>A sample server\<close>

text \<open>Environments for witnesses: a body is one fixed request, the upstream serves one proof and stays at block 15.\<close>

definition sample_data :: data_upstream where
  "sample_data = \<lparr>du_get_proof_keys = (\<lambda>a ks b. Inr JNull), du_get_code = (\<lambda>a b. Inr []),
     du_send_raw_transaction = (\<lambda>t. Inl []), du_unverified_call = (\<lambda>m ps. Inl []),
     du_block_raw_transactions = (\<lambda>h. Inr []), du_block_receipts_json = (\<lambda>h. Inr []),
     du_header_by_hash = (\<lambda>h. Inl [])\<rparr>"

definition sample_env :: "(bytes, bytes) ext \<Rightarrow> json \<Rightarrow> (bytes, bytes, bytes) rpc_env" where
  "sample_env X body = \<lparr>re_ext = X, re_evm = toy_evm,
     re_serde = \<lparr>sd_proof_from = (\<lambda>v. Inr sample_proof), sd_proof_to = (\<lambda>p. Inr JNull),
                 sd_header_to = (\<lambda>h. JNull), sd_from_slice = (\<lambda>b. Some body)\<rparr>,
     re_sync = (\<lambda>t i. idle_upstream), re_now = (\<lambda>t. 0), re_data = (\<lambda>t. sample_data), re_version = ''0''\<rparr>"

definition sample_request :: "string \<Rightarrow> json list \<Rightarrow> json" where
  "sample_request method params =
     JObject [(''jsonrpc'', JString ''2.0''), (''id'', JNumber (PosInt 1)), (''method'', JString method),
              (''params'', JArray params)]"

lemma sample_request_get [simp]:
  "json_get ''jsonrpc'' (sample_request m ps) = Some (JString ''2.0'')" "json_get ''id'' (sample_request m ps) = Some (JNumber (PosInt 1))"
  "json_get ''method'' (sample_request m ps) = Some (JString m)" "json_get ''params'' (sample_request m ps) = Some (JArray ps)"
  by (simp_all add: sample_request_def)

lemma handle_sample:
  assumes "m \<noteq> []" "length m \<le> MAX_RPC_METHOD" "list_all is_ascii_graphic m" "length ps \<le> MAX_RPC_PARAMS"
  shows "handle V (sample_request m ps) s = respond (call_method V (JNumber (PosInt 1)) (sample_request m ps) m) s"
proof -
  have "rid_of (sample_request m ps) = JNumber (PosInt 1)" "jsonrpc_is_v2 (sample_request m ps)" "jsonrpc_params_ok (sample_request m ps)"
    "jsonrpc_params_len (sample_request m ps) = length ps"
    by (simp_all add: rid_of_def jsonrpc_is_v2_def jsonrpc_params_ok_def jsonrpc_params_len_def req_params_def)
  then show ?thesis
    using assms by (simp add: handle_def Let_def hbind_def respond_def hcheck_def hopt_def then_step_def i64_max_def)
qed

lemma dispatch_sample:
  assumes "m \<noteq> []" "length m \<le> MAX_RPC_METHOD" "list_all is_ascii_graphic m" "length ps \<le> MAX_RPC_PARAMS"
  shows "dispatch V (sample_request m ps) s = respond (call_method V (JNumber (PosInt 1)) (sample_request m ps) m) s"
proof -
  have "jsonrpc_is_v2 (sample_request m ps)" "jsonrpc_id_ok (JNumber (PosInt 1))"
    by (simp_all add: jsonrpc_is_v2_def i64_max_def)
  then have "dispatch_object V (sample_request m ps) s =
      (Some (fst (handle V (sample_request m ps) s)), snd (handle V (sample_request m ps) s))"
    by (simp add: dispatch_object_def split: prod.split)
  then show ?thesis unfolding handle_sample [OF assms] by (simp add: dispatch_def) (simp add: sample_request_def)
qed

theorem server_run_inv_witness:
  "node_inv refX (sv_node (snd (dispatch_bytes (sample_env refX (sample_request ''eth_newBlockFilter'' [])) [1] (server_start booted_node))))"
proof -
  let ?V = "sample_env refX (sample_request ''eth_newBlockFilter'' [])"
  obtain resp s where d: "dispatch_bytes ?V [1] (server_start booted_node) = (resp, s)" by fastforce
  have "node_run (re_ext ?V) 1 0 booted_node" using booted_node_run by (simp add: sample_env_def)
  then have run: "server_run ?V 1 0 s" using server_run.request [OF server_run.start d] by blast
  have b: "bounded_env ?V 1" by (simp add: bounded_env_def sample_env_def serves_at_most_def idle_upstream_def)
  have "dispatch_bytes ?V [1] (server_start booted_node) =
      respond (new_block_filter ?V (JNumber (PosInt 1))) (server_start booted_node)"
    using dispatch_sample [of "''eth_newBlockFilter''" "[]" ?V]
    by (simp add: dispatch_bytes_def sample_env_def MAX_RPC_METHOD_def is_ascii_graphic_def call_method_def method_arms_def)
  then have "sv_tick s \<le> 2"
    using d by (auto simp: respond_def new_block_filter_def hbind_def then_step_def hrefresh_def server_refresh_def hstore_def server_start_def
        split: prod.splits sum.splits)
  then have "(0::nat) + 2 * 1 * sv_tick s \<le> u64_max" by (simp add: u64_max_def)
  from server_run_inv [OF run b this] d show ?thesis by (simp add: sample_env_def)
qed

end
