(* ===== verification/Rpc_Sound.thy ===== *)
theory Rpc_Sound
  imports Rpc_Inv
begin

text \<open>
  What a state read means. A result that the server returns for a balance, a nonce, code or a
  storage slot was proven against the state root of a block of its verified chain, at or below the head that
  reads resolve to and inside the proof window; no other evidence can prove another result for
  the same root without exhibiting a Keccak collision.
\<close>

section \<open>Errors carry no result\<close>

definition errs :: "'a handler \<Rightarrow> bool" where
  "errs m \<longleftrightarrow> (\<forall>s e t. m s = (Inl e, t) \<longrightarrow> json_get ''result'' e = None)"

lemma no_result [simp]:
  "json_get ''result'' (rpc_err rid code msg) = None" "json_get ''result'' (rpc_err_data rid code msg d) = None"
  "json_get ''result'' (rpc_ok rid v) = Some v" "json_get ''result'' (proof_failed rid t) = None"
  by (simp_all add: rpc_err_def rpc_err_data_def rpc_ok_def proof_failed_def)

lemma errs_bind: "errs m \<Longrightarrow> (\<And>a. errs (f a)) \<Longrightarrow> errs (hbind m f)"
  unfolding errs_def hbind_def then_step_def by (auto split: prod.splits sum.splits)

lemma errs_steps:
  "errs hnode" "errs hchain" "errs (hupdate g)" "errs (hask V k q)" "errs (hrefresh V rid)"
  "json_get ''result'' e = None \<Longrightarrow> errs (hopt v e)" "json_get ''result'' e = None \<Longrightarrow> errs (hcheck b e)"
  "(\<And>e. json_get ''result'' (h e) = None) \<Longrightarrow> errs (hres (map_err h r))" "errs (hres (Inr a))"
  by (auto simp: errs_def hask_def hrefresh_def hopt_def hcheck_def map_err_def split: prod.splits sum.splits option.splits if_splits)

lemma errs_cases:
  "errs m \<Longrightarrow> errs n \<Longrightarrow> errs (if b then m else n)"
  "(\<And>x y. errs (g x y)) \<Longrightarrow> errs (case p of (x, y) \<Rightarrow> g x y)"
  by (simp_all split: prod.split)

lemma errs_counted: "errs (counted rid r)"
  by (auto simp: errs_def counted_def hbind_def then_step_def split: sum.split)

lemma errs_resolve: "errs (resolve_wallet_exec_block X rid tag tip safe)"
  by (auto simp: errs_def resolve_wallet_exec_block_def resolve_wallet_exec_block_in_def hbind_def then_step_def Let_def
      split: option.splits if_splits)

lemma errs_state:
  "errs (account_field V rid req field)" "errs (get_code V rid req)" "errs (get_storage V rid req)"
  unfolding account_field_def get_code_def get_storage_def params_and_address_def exec_block_def verified_account_at_def
    verified_proof_def wallet_block_id_str_def Let_def
  by (intro errs_bind errs_steps errs_cases errs_counted errs_resolve; simp)+

section \<open>Evidence\<close>

text \<open>What an untrusted peer served and the answer it proves for a root: the response, and the code where code is asked for.\<close>

definition proven_read ::
    "('pk, 'sg) ext \<Rightarrow> bytes \<Rightarrow> string \<Rightarrow> json list \<Rightarrow> eth_account_proof \<Rightarrow> bytes \<Rightarrow> json \<Rightarrow> bool" where
  "proven_read X root method params pr code x \<longleftrightarrow>
     (\<exists>addr want acc. nth_opt params 0 = Some (JString addr) \<and> decode_hex_fixed X 20 addr = Inr want \<and>
        verify_eth_get_proof X root want pr = Inr acc \<and>
        (method = ''eth_getBalance'' \<and> x = JString (encode_qty X (va_balance_wei acc)) \<or>
         method = ''eth_getTransactionCount'' \<and> x = JString (qty (va_nonce acc)) \<or>
         method = ''eth_getCode'' \<and> verify_account_code X acc code = Inr () \<and> x = JString (hex0x X code) \<or>
         method = ''eth_getStorageAt'' \<and>
           (\<exists>hx slot w. nth_opt params 1 = Some (JString hx) \<and> parse_slot X hx = Inr slot \<and>
              verify_storage_slot X acc slot pr = Inr w \<and> x = JString (encode_data32 X w))))"

text \<open>Two pieces of evidence that collide: in an account proof, in the proof of a slot, or in code.\<close>

definition read_collision :: "('pk, 'sg) ext \<Rightarrow> eth_account_proof \<Rightarrow> bytes \<Rightarrow> eth_account_proof \<Rightarrow> bytes \<Rightarrow> bool" where
  "read_collision X p c q d \<longleftrightarrow>
     response_broken X (ep_account_proof p) (ep_account_proof q) \<or>
     (\<exists>slot. response_broken X (slot_nodes X slot p) (slot_nodes X slot q)) \<or> collision X c d"

lemma account_code_unique:
  assumes "verify_account_code X acc c = Inr ()" "verify_account_code X acc d = Inr ()"
  shows "c = d \<or> collision X c d"
  using assms
  by (auto simp: verify_account_code_def verify_bytecode_def map_err_def collision_def split: if_splits sum.splits)

lemma proven_read_unique:
  assumes "proven_read X root method params p c x" "proven_read X root method params q d y"
  shows "x = y \<or> read_collision X p c q d"
proof (rule disjCI)
  assume nc: "\<not> read_collision X p c q d"
  obtain addr want acc acc' where w: "nth_opt params 0 = Some (JString addr)" "decode_hex_fixed X 20 addr = Inr want"
    "verify_eth_get_proof X root want p = Inr acc" "verify_eth_get_proof X root want q = Inr acc'"
    using assms by (auto simp: proven_read_def)
  have same: "acc' = acc" using get_proof.binding [OF w(3,4)] nc by (auto simp: read_collision_def)
  show "x = y"
    using assms w same nc account_code_unique [of X acc c d] storage_slot_binding [of X acc _ p _ q]
    by (fastforce simp: proven_read_def read_collision_def)
qed

section \<open>The block a read resolves to\<close>

text \<open>
  A block of the chain as the request's own sync left it, at or below the head that sync returned,
  inside the proof window; a tag that names the head gives the head.
\<close>

definition read_block :: "('pk, 'sg, 'bc) rpc_env \<Rightarrow> server \<Rightarrow> string option \<Rightarrow> verified_block \<Rightarrow> bool" where
  "read_block V s tag b \<longleftrightarrow>
     (\<exists>tip safe w nd. refresh (re_ext V) (re_sync V (sv_tick s)) (re_now V (sv_tick s)) (sv_node s) = (Inr (tip, safe), w, nd) \<and>
        b \<in> set (nd_chain nd) \<and> vb_number b \<le> sh_number safe \<and> (safe_tag tag \<longrightarrow> vb_number b = sh_number safe) \<and>
        tip - vb_number b \<le> PROVIDER_PROOF_LOOKBACK)"

lemma server_refresh_Inr:
  assumes "server_refresh V s = (Inr (tip, safe), t)"
  obtains w where "refresh (re_ext V) (re_sync V (sv_tick s)) (re_now V (sv_tick s)) (sv_node s) = (Inr (tip, safe), w, sv_node t)"
    "sv_filters t = sv_filters s"
  using assms by (auto simp: server_refresh_def split: prod.splits)

lemma hrefresh_Inr: "hrefresh V rid s = (Inr v, t) \<longleftrightarrow> server_refresh V s = (Inr v, t)"
  by (auto simp: hrefresh_def split: prod.splits sum.splits)

lemma safe_tag_not_hash:
  assumes "hex_ok X" "safe_tag (Some t)"
  shows "\<not> is_ok (decode_hex_fixed X 32 t)"
proof -
  have "length (strip_0x t) < 64" using assms(2) by (auto simp: safe_tag_def)
  moreover have "hex_decode X (strip_0x t) = Inr b \<Longrightarrow> length (strip_0x t) = 2 * length b" for b
    using assms(1) by (simp add: hex_ok_def)
  ultimately show ?thesis
    by (fastforce simp: is_ok_def decode_hex_fixed_def decode_hex_def rbind_def map_err_def Let_def split: sum.splits if_splits)
qed

lemma by_number_Some:
  "wallet_get_block_by_number tag n h chain = Some b \<Longrightarrow> b \<in> set chain \<and> vb_number b \<le> n"
  by (auto simp: wallet_get_block_by_number_def find_Some_iff split: option.splits block_id.splits dest: wallet_block_number_le)

lemma by_hash_Some:
  "wallet_get_block_by_hash X t n chain = Some b \<Longrightarrow>
     b \<in> set chain \<and> vb_number b \<le> n \<and> decode_hex_fixed X 32 t = Inr (vb_hash b)"
  by (auto simp: wallet_get_block_by_hash_def find_Some_iff split: sum.splits)

lemma resolve_in:
  assumes "resolve_wallet_exec_block_in X rid tag tip safe chain = Inr b"
  shows "b \<in> set chain" "vb_number b \<le> sh_number safe" "tip - vb_number b \<le> PROVIDER_PROOF_LOOKBACK"
    "hex_ok X \<Longrightarrow> safe_tag tag \<Longrightarrow> vb_number b = sh_number safe"
proof -
  from assms have w: "wallet_get_block_by_number tag (sh_number safe) (sh_hash safe) chain = Some b \<or>
    (\<exists>t. tag = Some t \<and> wallet_get_block_by_hash X t (sh_number safe) chain = Some b)"
    and lag: "tip - vb_number b \<le> PROVIDER_PROOF_LOOKBACK"
    by (auto simp: resolve_wallet_exec_block_in_def proof_lag_def sat_sub_def Let_def bind_eq_Some_conv split: option.splits if_splits)
  show "b \<in> set chain" "vb_number b \<le> sh_number safe" using w by_number_Some by_hash_Some by blast+
  show "tip - vb_number b \<le> PROVIDER_PROOF_LOOKBACK" by (rule lag)
  assume x: "hex_ok X" "safe_tag tag"
  then have "wallet_get_block_by_number tag (sh_number safe) (sh_hash safe) chain = Some b"
    using w safe_tag_not_hash [OF x(1)] by_hash_Some by (fastforce simp: is_ok_def)
  then show "vb_number b = sh_number safe"
    using x(2) by (auto simp: wallet_get_block_by_number_def wallet_block_number_allowed_def find_Some_iff)
qed

lemma exec_block_Inr:
  assumes "exec_block V rid tag s = (Inr (tip, b), t)" "hex_ok (re_ext V)"
  shows "read_block V s tag b"
proof -
  obtain safe where r: "server_refresh V s = (Inr (tip, safe), t)"
    "resolve_wallet_exec_block_in (re_ext V) rid tag tip safe (nd_chain (sv_node t)) = Inr b"
    using assms(1) by (auto simp: exec_block_def resolve_wallet_exec_block_def hbind_Inr hrefresh_Inr)
  then show ?thesis using resolve_in [OF r(2)] assms(2) unfolding read_block_def by (metis server_refresh_Inr)
qed

lemma counted_Inr: "counted rid r s = (Inr a, t) \<longleftrightarrow> r = Inr a \<and> t = s"
  by (auto simp: counted_def hbind_def then_step_def split: sum.splits)

lemma verified_proof_Inr:
  assumes "verified_proof V rid addr tip b keys s = (Inr (acc, pr), t)"
  obtains want where "decode_hex_fixed (re_ext V) 20 addr = Inr want"
    "verify_eth_get_proof (re_ext V) (vb_state_root b) want pr = Inr acc"
  using assms by (auto simp: verified_proof_def Let_def hbind_Inr counted_Inr res_simps)

lemma params_and_address_Inr:
  assumes "params_and_address X rid req s = (Inr (params, addr), t)"
  shows "req_params req = Some params" "nth_opt params 0 = Some (JString addr)" "t = s"
proof -
  have s: "v = JString a" if "as_str v = Some a" for v a using that by (cases v) auto
  show "req_params req = Some params" "nth_opt params 0 = Some (JString addr)" "t = s"
    using assms s by (auto simp: params_and_address_def hbind_Inr bind_eq_Some_conv)
qed

section \<open>State reads\<close>

definition block_param :: "string \<Rightarrow> nat" where
  "block_param method = (if method = ''eth_getStorageAt'' then 2 else 1)"

text \<open>A handler of a state read, once it succeeds.\<close>

definition reads_proven ::
    "('pk, 'sg, 'bc) rpc_env \<Rightarrow> json \<Rightarrow> json \<Rightarrow> string \<Rightarrow> server \<Rightarrow> json \<Rightarrow> bool" where
  "reads_proven V rid req method s v \<longleftrightarrow>
     (\<exists>params tag b pr code x. req_params req = Some params \<and> v = rpc_ok rid x \<and>
        wallet_block_tag_str (nth_opt params (block_param method)) = Inr tag \<and> read_block V s tag b \<and>
        proven_read (re_ext V) (vb_state_root b) method params pr code x)"

lemma wallet_tag_Inr: "wallet_block_id_str rid raw = Inr tag \<longleftrightarrow> wallet_block_tag_str raw = Inr tag"
  by (simp add: wallet_block_id_str_def res_simps)

lemma account_field_proven:
  assumes "account_field V rid req field s = (Inr v, t)" "hex_ok (re_ext V)"
  shows "reads_proven V rid req (case field of Balance \<Rightarrow> ''eth_getBalance'' | Nonce \<Rightarrow> ''eth_getTransactionCount'') s v"
proof -
  obtain params addr tag tip b acc u u' pr where r: "params_and_address (re_ext V) rid req s = (Inr (params, addr), s)"
    "wallet_block_tag_str (nth_opt params 1) = Inr tag" "exec_block V rid tag s = (Inr (tip, b), u)"
    "verified_proof V rid addr tip b [] u = (Inr (acc, pr), u')"
    "v = (case field of Balance \<Rightarrow> rpc_ok rid (JString (encode_qty (re_ext V) (va_balance_wei acc)))
          | Nonce \<Rightarrow> rpc_ok rid (JString (qty (va_nonce acc))))"
    using assms(1) params_and_address_Inr(3)
    by (fastforce simp: account_field_def hbind_Inr wallet_tag_Inr verified_account_at_def)
  obtain want where "decode_hex_fixed (re_ext V) 20 addr = Inr want"
    "verify_eth_get_proof (re_ext V) (vb_state_root b) want pr = Inr acc" using r(4) by (rule verified_proof_Inr)
  then show ?thesis
    using params_and_address_Inr [OF r(1)] r(2,5) exec_block_Inr [OF r(3) assms(2)]
    unfolding reads_proven_def proven_read_def by (cases field) (auto simp: block_param_def)
qed

lemma get_code_proven:
  assumes "get_code V rid req s = (Inr v, t)" "hex_ok (re_ext V)"
  shows "reads_proven V rid req ''eth_getCode'' s v"
proof -
  have "length (hex_encode (re_ext V) []) = 2 * length ([] :: bytes)" using assms(2) unfolding hex_ok_def by blast
  then have e: "hex0x (re_ext V) [] = ''0x''" by (simp add: hex0x_def)
  obtain params addr tag tip b acc u u' pr code where r: "params_and_address (re_ext V) rid req s = (Inr (params, addr), s)"
    "wallet_block_tag_str (nth_opt params 1) = Inr tag" "exec_block V rid tag s = (Inr (tip, b), u)"
    "verified_proof V rid addr tip b [] u = (Inr (acc, pr), u')"
    "verify_account_code (re_ext V) acc code = Inr ()" "v = rpc_ok rid (JString (hex0x (re_ext V) code))"
    using assms(1) params_and_address_Inr(3) e
    by (fastforce simp: get_code_def Let_def hbind_Inr wallet_tag_Inr verified_account_at_def verify_account_code_def res_simps split: if_splits)
  obtain want where "decode_hex_fixed (re_ext V) 20 addr = Inr want"
    "verify_eth_get_proof (re_ext V) (vb_state_root b) want pr = Inr acc" using r(4) by (rule verified_proof_Inr)
  then show ?thesis
    using params_and_address_Inr [OF r(1)] r(2,5,6) exec_block_Inr [OF r(3) assms(2)]
    unfolding reads_proven_def proven_read_def by (fastforce simp: block_param_def)
qed

lemma as_str_Some: "as_str v = Some a \<longleftrightarrow> v = JString a"
  by (cases v) auto

lemma get_storage_proven:
  assumes "get_storage V rid req s = (Inr v, t)" "hex_ok (re_ext V)"
  shows "reads_proven V rid req ''eth_getStorageAt'' s v"
proof -
  obtain params addr hx slot tag tip b acc u u' pr w where r: "params_and_address (re_ext V) rid req s = (Inr (params, addr), s)"
    "nth_opt params 1 = Some (JString hx)" "parse_slot (re_ext V) hx = Inr slot"
    "wallet_block_tag_str (nth_opt params 2) = Inr tag" "exec_block V rid tag s = (Inr (tip, b), u)"
    "verified_proof V rid addr tip b [hex0x (re_ext V) slot] u = (Inr (acc, pr), u')"
    "verify_storage_slot (re_ext V) acc slot pr = Inr w" "v = rpc_ok rid (JString (encode_data32 (re_ext V) w))"
    using assms(1) params_and_address_Inr(3)
    by (fastforce simp: get_storage_def Let_def hbind_Inr wallet_tag_Inr res_simps bind_eq_Some_conv as_str_Some)
  obtain want where "decode_hex_fixed (re_ext V) 20 addr = Inr want"
    "verify_eth_get_proof (re_ext V) (vb_state_root b) want pr = Inr acc" using r(6) by (rule verified_proof_Inr)
  then show ?thesis
    using params_and_address_Inr [OF r(1)] r(2-4,7,8) exec_block_Inr [OF r(5) assms(2)]
    unfolding reads_proven_def proven_read_def by (fastforce simp: block_param_def)
qed

lemma handle_Inr:
  assumes "handle V req s = (resp, t)" "json_get ''method'' req = Some (JString method)" "json_get ''result'' resp = Some x"
    and "errs (call_method V (rid_of req) req method)"
  shows "call_method V (rid_of req) req method s = (Inr resp, t)"
proof -
  have n: "json_get ''result'' (invalid_request rid) = None" for rid by (simp add: invalid_request_def)
  from assms(1-3) n have "respond (call_method V (rid_of req) req method) s = (resp, t)"
    by (auto simp: handle_def Let_def respond_def hbind_def then_step_def hcheck_def hopt_def split: if_splits)
  then show ?thesis using assms(3,4) by (fastforce simp: respond_def errs_def split: prod.splits sum.splits)
qed

text \<open>
  C11. State reads are proven. If the server's response to \<open>eth_getBalance\<close>, \<open>eth_getTransactionCount\<close>,
  \<open>eth_getCode\<close> or \<open>eth_getStorageAt\<close> carries a result, then that result was proven against the state root
  of a block of the verified chain as the request's own sync left it, at or below the head that
  sync returned and at most 256 blocks behind the tip, the head itself when the tag names
  it; and whatever other response or code an upstream could serve, it proves the same result for that root or
  its nodes or code collide under Keccak with those that were used.
\<close>

theorem state_read_sound:
  assumes "hex_ok (re_ext V)" and m: "method \<in> {''eth_getBalance'', ''eth_getTransactionCount'', ''eth_getCode'', ''eth_getStorageAt''}"
    and req: "json_get ''method'' req = Some (JString method)" and h: "handle V req s = (resp, t)"
    and x: "json_get ''result'' resp = Some x"
  shows "\<exists>params tag b pr code. req_params req = Some params \<and>
    wallet_block_tag_str (nth_opt params (block_param method)) = Inr tag \<and> read_block V s tag b \<and>
    proven_read (re_ext V) (vb_state_root b) method params pr code x \<and>
    (\<forall>pr' code' y. proven_read (re_ext V) (vb_state_root b) method params pr' code' y \<longrightarrow>
       x = y \<or> read_collision (re_ext V) pr code pr' code')"
proof -
  let ?rid = "rid_of req"
  have arms: "call_method V ?rid req ''eth_getBalance'' = account_field V ?rid req Balance"
    "call_method V ?rid req ''eth_getTransactionCount'' = account_field V ?rid req Nonce"
    "call_method V ?rid req ''eth_getCode'' = get_code V ?rid req"
    "call_method V ?rid req ''eth_getStorageAt'' = get_storage V ?rid req"
    by (simp_all add: call_method_def method_arms_def)
  have "errs (call_method V ?rid req method)" using m arms errs_state by auto
  then have c: "call_method V ?rid req method s = (Inr resp, t)" by (rule handle_Inr [OF h req x])
  have "reads_proven V ?rid req method s resp"
    using m c arms account_field_proven [OF _ assms(1), of ?rid req Balance s resp t]
      account_field_proven [OF _ assms(1), of ?rid req Nonce s resp t]
      get_code_proven [OF _ assms(1)] get_storage_proven [OF _ assms(1)] by auto
  then show ?thesis using x proven_read_unique unfolding reads_proven_def by fastforce
qed

definition proven_block :: verified_block where
  "proven_block = \<lparr>vb_number = 15, vb_hash = zeros 32, vb_state_root = call_root, vb_miner = zeros 20,
     vb_milli_timestamp = 0, vb_gas_limit = 0, vb_header = None\<rparr>"

definition proven_head :: safe_head where
  "proven_head = \<lparr>sh_number = 15, sh_hash = hex0x refX (zeros 32), sh_state_root = hex0x refX call_root,
     sh_distinct_sealers = 15, sh_required_sealers = 15\<rparr>"

definition proven_server :: server where
  "proven_server = server_start ((from_parts 112 [proven_block])\<lparr>nd_finality := finality_view_default\<lparr>fv_head := 20,
     fv_read_head := Some proven_head, fv_synced_at := Some 0\<rparr>\<rparr>)"

definition balance_request :: json where
  "balance_request = sample_request ''eth_getBalance'' [JString (hex0x refX (zeros 20)), JString ''latest'']"

lemma callX_hex_ok: "hex_ok callX"
  using hex_ok_refX by (simp add: hex_ok_def callX_def)

lemma proven_refresh:
  "refresh callX (\<lambda>i. idle_upstream) 0 (sv_node proven_server) = (Inr (20, proven_head), None, sv_node proven_server)"
  by (simp add: refresh_def published_if_fresh_def proven_server_def server_start_def mainnet_current_fork_def fermi_family_def
      FERMI_BLOCK_INTERVAL_MS_def)

lemma balance_answer:
  "\<exists>t. handle (sample_env callX JNull) balance_request proven_server = (rpc_ok (JNumber (PosInt 1)) (JString ''0x0''), t)"
proof -
  let ?V = "sample_env callX JNull" and ?rid = "JNumber (PosInt 1)"
  have h: "handle ?V balance_request proven_server = respond (account_field ?V ?rid balance_request Balance) proven_server"
    unfolding balance_request_def
    by (subst handle_sample) (simp_all add: MAX_RPC_METHOD_def MAX_RPC_PARAMS_def is_ascii_graphic_def call_method_def method_arms_def)
  have p: "req_params balance_request = Some [JString (hex0x refX (zeros 20)), JString ''latest'']"
    by (simp add: balance_request_def req_params_def)
  have a: "decode_hex_fixed callX 20 (hex0x refX (zeros 20)) = Inr (zeros 20)"
    by (simp add: callX_hex decode_hex_fixed_hex0x)
  have b: "wallet_get_block_by_number (Some ''latest'') 15 h [proven_block] = Some proven_block" for h
    by (simp add: wallet_get_block_by_number_def wallet_block_number_allowed_def safe_tag_def proven_block_def)
  have c: "nd_chain (sv_node proven_server) = [proven_block]"
    by (simp add: proven_server_def server_start_def from_parts_def)
  have e: "encode_qty callX (va_balance_wei (account_view (zeros 20) empty_account)) = ''0x0''"
    by (simp add: account_view_def empty_account_def callX_hex) (simp add: encode_qty_def strip_int_def strip_zeros_def hex_char_def)
  have w: "sv_tick proven_server = 0" "\<not> PROVIDER_PROOF_LOOKBACK < proof_lag 20 (vb_number proven_block)"
    by (simp_all add: proven_server_def server_start_def proven_block_def proof_lag_def sat_sub_def PROVIDER_PROOF_LOOKBACK_def)
  have r: "exec_block ?V ?rid (Some ''latest'') proven_server = (Inr (20, proven_block), proven_server\<lparr>sv_tick := 1\<rparr>)"
    using proven_refresh b c w
    by (simp add: exec_block_def resolve_wallet_exec_block_def hbind_def then_step_def hrefresh_def server_refresh_def sample_env_def
        resolve_wallet_exec_block_in_def proven_head_def Let_def)
  have "\<exists>t. verified_account_at ?V ?rid (hex0x refX (zeros 20)) 20 proven_block u = (Inr (account_view (zeros 20) empty_account), t)" for u
    using toy_proof w(2) a
    by (simp add: verified_account_at_def verified_proof_def hbind_def then_step_def Let_def sample_env_def hask_def counted_def
        get_proof_at_safe_def sample_data_def hcheck_def map_err_def) (simp add: proven_block_def)
  then obtain t where t: "verified_account_at ?V ?rid (hex0x refX (zeros 20)) 20 proven_block (proven_server\<lparr>sv_tick := 1\<rparr>) =
    (Inr (account_view (zeros 20) empty_account), t)" by blast
  have x: "re_ext ?V = callX" by (simp add: sample_env_def)
  show ?thesis
    unfolding h
    by (simp add: respond_def account_field_def params_and_address_def hbind_def then_step_def p hopt_def nth_opt_def x
        require_rpc_address_def a map_err_def wallet_block_id_str_def r t e del: One_nat_def)
qed

theorem state_read_sound_witness:
  "\<exists>b pr code. read_block (sample_env callX JNull) proven_server (Some ''latest'') b \<and>
     proven_read callX (vb_state_root b) ''eth_getBalance'' [JString (hex0x refX (zeros 20)), JString ''latest''] pr code (JString ''0x0'')"
proof -
  obtain t where h: "handle (sample_env callX JNull) balance_request proven_server =
    (rpc_ok (JNumber (PosInt 1)) (JString ''0x0''), t)" using balance_answer by blast
  have m: "json_get ''method'' balance_request = Some (JString ''eth_getBalance'')"
    "req_params balance_request = Some [JString (hex0x refX (zeros 20)), JString ''latest'']" "re_ext (sample_env callX JNull) = callX"
    by (simp_all add: balance_request_def req_params_def sample_env_def)
  show ?thesis
    using state_read_sound [OF _ _ m(1) h, of "JString ''0x0''"] callX_hex_ok m(2,3)
    by (auto simp: block_param_def nth_opt_def)
qed

end
