(* ===== verification/Rpc_Heads.thy ===== *)
theory Rpc_Heads
  imports Rpc_Sound
begin

text \<open>
  The head that reads resolve to is named by a block hash: the text that a sync publishes has the
  66 characters of a 32-byte hash, so it is never mistaken for a block number.
\<close>

definition named_head :: "node \<Rightarrow> bool" where
  "named_head nd \<longleftrightarrow> (case fv_read_head (nd_finality nd) of None \<Rightarrow> True | Some h \<Rightarrow> length (sh_hash h) = 66)"

section \<open>Hashes of a chain\<close>

lemma chain_hash_length:
  assumes "keccak_ok X" "chain_ok X chain" "2 \<le> length chain" "b \<in> set chain"
  shows "length (vb_hash b) = 32"
proof -
  have link: "block_link X (chain ! i) (chain ! Suc i)" if "Suc i < length chain" for i
    using assms(2) that by (auto simp: successively_conv_nth follows_def)
  obtain i where i: "i < length chain" "b = chain ! i" using assms(4) by (auto simp: in_set_conv_nth)
  show ?thesis
  proof (cases i)
    case 0
    then show ?thesis using link [of 0] assms(3) i by (auto simp: block_link_def split: option.splits dest: decode_hex_fixed_length)
  next
    case (Suc j)
    then show ?thesis
      using link [of j] i assms(1) by (auto simp: block_link_def header_hash_def keccak_ok_def res_simps split: option.splits)
  qed
qed

lemma newest_safe_loop_member:
  "newest_safe_loop X chain t seen k = Some sh \<Longrightarrow> k \<le> length chain \<Longrightarrow> \<exists>b \<in> set chain. sh_hash sh = hex0x X (vb_hash b)"
  by (induction k arbitrary: seen) (auto simp: Let_def split: if_splits intro!: bexI [of _ "chain ! (_ - Suc 0)"] nth_mem)

lemma safe_of_member:
  assumes "safe_of X chain = Inr sh"
  shows "2 \<le> length chain \<and> (\<exists>b \<in> set chain. sh_hash sh = hex0x X (vb_hash b))"
  using assms newest_safe_loop_member by (fastforce simp: safe_of_def newest_safe_def split: option.splits if_splits)

lemma resync_finality:
  "resync_locked X ups tip nd = (r, nd') \<Longrightarrow> nd_finality nd' = nd_finality nd"
proof -
  have l: "resync_lookback X ups tip nd = (r, nd') \<Longrightarrow> nd_finality nd' = nd_finality nd" for r nd'
    by (auto simp: resync_lookback_def Let_def split: if_splits sum.splits prod.splits)
  have rc: "recover_from_link_break X ups tip e n = (r, nd') \<Longrightarrow> nd_finality nd' = nd_finality n" for e n r nd'
    by (auto simp: recover_from_link_break_def split: recovery.splits option.splits sum.splits)
  have s: "resync_snapshot X ups tip nd = (r, nd') \<Longrightarrow> nd_finality nd' = nd_finality nd" for r nd'
    by (auto simp: resync_snapshot_def Let_def set_sync_def dest!: rc split: if_splits sum.splits prod.splits option.splits)
  assume "resync_locked X ups tip nd = (r, nd')"
  then show ?thesis by (auto simp: resync_locked_def split: if_splits sum.splits prod.splits dest: l s)
qed

lemma refresh_now_named:
  assumes "hex_ok X" "keccak_ok X" "named_head nd" "refresh_now X ups now nd = (r, w, nd')" "node_inv X nd'"
  shows "named_head nd'"
  using assms(4)
proof (cases rule: refresh_now_cases)
  case (synced tip safe conf verified grew nd1 head)
  note l = resync_locked_Inr [OF synced(1)]
  have c: "nd_chain nd' = nd_chain nd1" "fv_read_head (nd_finality nd') = Some safe"
    using synced(3) by simp_all (simp_all add: publish_def bump_headers_def Let_def split: option.split)
  obtain b where b: "b \<in> set (nd_chain nd1)" "sh_hash safe = hex0x X (vb_hash b)"
    using read_head_cases [of X nd1 conf] l safe_of_member [OF l(1)] by (auto simp: fast_head_def)
  have "length (vb_hash b) = 32"
    using chain_hash_length [OF assms(2) _ _ b(1)] safe_of_member [OF l(1)] assms(5) c(1) by (simp add: node_inv_def sync_inv_def)
  then show ?thesis using b(2) c(2) assms(1) by (simp add: named_head_def hex0x_def hex_ok_def)
next
  case (rejected tip e nd1)
  then show ?thesis using assms(3) resync_finality [OF rejected(1)] by (simp add: named_head_def)
qed (use assms(3) in \<open>simp_all add: named_head_def\<close>)

lemma refresh_named:
  assumes "hex_ok X" "keccak_ok X" "named_head nd" "refresh X ups now nd = (r, w, nd')" "node_inv X nd'"
  shows "named_head nd'"
  using assms refresh_now_named [OF assms(1-3)] by (auto simp: refresh_def split: option.splits)

text \<open>What a sync returns is what is published after it.\<close>

lemma refresh_published:
  assumes "refresh X ups now nd = (Inr (tip, safe), w, nd')"
  shows "fv_read_head (nd_finality nd') = Some safe"
proof (cases "published_if_fresh now nd")
  case None
  then have "refresh_now X ups now nd = (Inr (tip, safe), w, nd')" using assms by (simp add: refresh_def)
  then show ?thesis
    by (cases rule: refresh_now_cases) (auto simp: publish_def bump_headers_def Let_def split: option.split)
next
  case (Some f)
  then show ?thesis using assms by (auto simp: refresh_def published_if_fresh_def split: option.splits if_splits)
qed

section \<open>Requests keep the head named\<close>

definition head_kept :: "('pk, 'sg, 'bc) rpc_env \<Rightarrow> nat \<Rightarrow> server \<Rightarrow> server \<Rightarrow> bool" where
  "head_kept V k s t \<longleftrightarrow> node_kept V k s t \<and>
     (\<forall>n. bounded_env V k \<and> node_inv (re_ext V) (sv_node s) \<and> node_below n (sv_node s) \<and> n + steps k s t \<le> u64_max \<and>
        hex_ok (re_ext V) \<and> keccak_ok (re_ext V) \<and> named_head (sv_node s) \<longrightarrow> named_head (sv_node t))"

lemma steps_add: "sv_tick s \<le> sv_tick t \<Longrightarrow> sv_tick t \<le> sv_tick u \<Longrightarrow> steps k s u = steps k s t + steps k t u"
proof -
  assume "sv_tick s \<le> sv_tick t" "sv_tick t \<le> sv_tick u"
  then have "sv_tick u - sv_tick s = (sv_tick t - sv_tick s) + (sv_tick u - sv_tick t)" by simp
  then show ?thesis by (simp only: steps_def distrib_left)
qed

lemma head_kept_trans:
  assumes "head_kept V k s t" "head_kept V k t u"
  shows "head_kept V k s u"
proof -
  have n: "node_kept V k s t" "node_kept V k t u" using assms by (simp_all add: head_kept_def)
  have st: "steps k s u = steps k s t + steps k t u" using n by (simp add: node_kept_def steps_add)
  have "named_head (sv_node u)" if h: "bounded_env V k" "node_inv (re_ext V) (sv_node s)" "node_below n (sv_node s)"
    "n + steps k s u \<le> u64_max" "hex_ok (re_ext V)" "keccak_ok (re_ext V)" "named_head (sv_node s)" for n
  proof -
    have le: "n + steps k s t \<le> u64_max" "(n + steps k s t) + steps k t u \<le> u64_max" using h(4) st by simp_all
    have "node_inv (re_ext V) (sv_node t)" "node_below (n + steps k s t) (sv_node t)"
      using h(1-3) le(1) n(1) unfolding node_kept_def by blast+
    moreover have "named_head (sv_node t)" using h le(1) assms(1) unfolding head_kept_def by blast
    ultimately show ?thesis using h le(2) assms(2) unfolding head_kept_def by blast
  qed
  then show ?thesis using node_kept_trans [OF n] unfolding head_kept_def by blast
qed

lemma head_kept_same:
  assumes "node_kept V k s t" "nd_finality (sv_node t) = nd_finality (sv_node s)"
  shows "head_kept V k s t"
  using assms by (simp add: head_kept_def named_head_def)

lemma head_kept_refresh: "head_kept V k s (snd (server_refresh V s))"
proof -
  obtain r w nd where f: "refresh (re_ext V) (re_sync V (sv_tick s)) (re_now V (sv_tick s)) (sv_node s) = (r, w, nd)"
    by (cases "refresh (re_ext V) (re_sync V (sv_tick s)) (re_now V (sv_tick s)) (sv_node s)") auto
  then have t: "sv_node (snd (server_refresh V s)) = nd" by (simp add: server_refresh_def)
  show ?thesis
    using node_kept_refresh [of V k s] refresh_named [OF _ _ _ f] unfolding head_kept_def node_kept_def t by blast
qed

interpretation head_rel: server_relation V "head_kept V k" for V :: "('pk, 'sg, 'bc) rpc_env" and k
proof unfold_locales
  show "head_kept V k s t \<Longrightarrow> head_kept V k t u \<Longrightarrow> head_kept V k s u" for s t u by (rule head_kept_trans)
  show "head_kept V k s (snd (server_refresh V s))" for s by (rule head_kept_refresh)
qed (rule head_kept_same, rule node_kept_same; simp add: bump_proof_ok_def bump_proof_fail_def)+

lemma head_kept_poll: "head_kept V k s (snd (server_poll V s))"
proof -
  obtain r w nd where f: "refresh_now (re_ext V) (re_sync V (sv_tick s)) (re_now V (sv_tick s)) (sv_node s) = (r, w, nd)"
    by (cases "refresh_now (re_ext V) (re_sync V (sv_tick s)) (re_now V (sv_tick s)) (sv_node s)") auto
  then have t: "sv_node (snd (server_poll V s)) = nd" by (simp add: server_poll_def)
  show ?thesis
    using node_kept_poll [of V k s] refresh_now_named [OF _ _ _ f] unfolding head_kept_def node_kept_def t by blast
qed

text \<open>Every reachable server publishes a head named by a hash, or none.\<close>

lemma node_run_named:
  assumes "node_run X k n nd" "n \<le> u64_max" "hex_ok X" "keccak_ok X"
  shows "named_head nd"
  using assms
proof (induction rule: node_run.induct)
  case (lookback up lb nd)
  then show ?case by (auto simp: node_bootstrap_def named_head_def finality_view_default_def res_simps)
next
  case (checkpoint up obs lb max_sync cp nd)
  then show ?case by (auto simp: bootstrap_from_checkpoint_def node_from_walk_def named_head_def finality_view_default_def res_simps split: sum.splits)
next
  case (setter n nd nd' m path yes)
  then show ?case
    by (auto simp: named_head_def set_finality_mode_def set_checkpoint_store_def set_allow_unverified_passthrough_def
        set_backup_transport_def set_metrics_enabled_def)
next
  case (sync n nd ups now r w nd')
  have "node_inv X nd'" using node_run_facts [OF node_run.sync [OF sync.hyps] sync.prems(1)] by blast
  then show ?case using refresh_named [OF sync.prems(2,3) _ sync.hyps(3)] sync.IH sync.prems by simp
next
  case (poll n nd ups now r w nd')
  have "node_inv X nd'" using node_run_facts [OF node_run.poll [OF poll.hyps] poll.prems(1)] by blast
  then show ?case using refresh_now_named [OF poll.prems(2,3) _ poll.hyps(3)] poll.IH poll.prems by simp
qed (simp_all add: named_head_def finality_view_default_def from_parts_def from_parts_with_snapshot_def)

lemma server_run_named:
  assumes "server_run V k n s" "bounded_env V k" "n + 2 * k * sv_tick s \<le> u64_max" "hex_ok (re_ext V)" "keccak_ok (re_ext V)"
  shows "named_head (sv_node s)"
proof -
  have "\<exists>nd. node_run (re_ext V) k n nd \<and> head_kept V k (server_start nd) s"
    using assms(1)
  proof induction
    case (request s buf resp s')
    then show ?case using head_rel.request_step [of V k s buf] head_kept_trans by (metis snd_conv)
  next
    case (poll s r s')
    then show ?case using head_kept_poll [of V k s] head_kept_trans by (metis snd_conv)
  qed (use head_rel.same in blast)
  then obtain nd where nd: "node_run (re_ext V) k n nd" "head_kept V k (server_start nd) s" by blast
  have "node_inv (re_ext V) nd" "node_below n nd" "named_head nd"
    using node_run_facts [OF nd(1)] node_run_named [OF nd(1)] assms(3-5) by simp_all
  then show ?thesis using nd(2) assms(2-5) by (auto simp: head_kept_def steps_def server_start_def)
qed

end
