(* ===== verification/Rpc_Logs_Sound.thy ===== *)
theory Rpc_Logs_Sound
  imports Rpc_Heads
begin

text \<open>
  What a log query answers. A list of logs that \<open>eth_getLogs\<close> or a filter poll returns is exactly the
  logs, in order, that match the filter among all receipts of every block of the range, each
  block's receipts being a list whose consensus encodings hash to the \<open>receiptsRoot\<close> of the
  header this client verified; a list that cannot be complete is refused, never cut.
\<close>

section \<open>The specification\<close>

text \<open>The logs of a block's receipts with the index of their transaction and their index in the block.\<close>

fun numbered :: "nat \<Rightarrow> nat \<Rightarrow> (bytes option \<times> consensus_receipt) list \<Rightarrow> (nat \<times> nat \<times> bytes option \<times> consensus_log) list" where
  "numbered tx i [] = []"
| "numbered tx i ((h, r) # rs) =
     map (\<lambda>(j, log). (tx, j, h, log)) (zip [i..<i + length (rc_logs r)] (rc_logs r)) @
     numbered (Suc tx) (i + length (rc_logs r)) rs"

definition matching_logs ::
    "('pk, 'sg) ext \<Rightarrow> bytes list \<Rightarrow> bytes list option list \<Rightarrow>
     rpc_block_header \<times> (bytes option \<times> consensus_receipt) list \<Rightarrow> json list" where
  "matching_logs X addresses topics ev =
     map (\<lambda>(tx, i, h, log). rpc_log_json X log (fst ev) h tx i)
       (filter (\<lambda>(tx, i, h, log). log_matches log addresses topics) (numbered 0 0 (snd ev)))"

text \<open>
  Receipts that prove themselves the receipts of a verified block. The first component is the label of a
  receipt, its transaction hash.
\<close>

definition block_evidence ::
    "('pk, 'sg) ext \<Rightarrow> verified_block \<Rightarrow> rpc_block_header \<times> (bytes option \<times> consensus_receipt) list \<Rightarrow> bool" where
  "block_evidence X b ev \<longleftrightarrow>
     header_matches_local X (fst ev) b = Inr () \<and> h_hash (fst ev) = hex0x X (vb_hash b) \<and>
     (\<exists>root. decode_hex_fixed X 32 (h_receipts_root (fst ev)) = Inr root \<and>
        (if root = EMPTY_TRIE_ROOT then snd ev = []
         else \<exists>encs. list_all2 (\<lambda>r e. encode_consensus_receipt (snd r) = Inr e) (snd ev) encs \<and> encs \<noteq> [] \<and>
                verify_receipt_list X encs root = Inr ()))"

definition complete_logs ::
    "('pk, 'sg) ext \<Rightarrow> verified_block list \<Rightarrow> bytes list \<Rightarrow> bytes list option list \<Rightarrow> json list \<Rightarrow> bool" where
  "complete_logs X blocks addresses topics out \<longleftrightarrow>
     (\<exists>evs. list_all2 (block_evidence X) blocks evs \<and> out = concat (map (matching_logs X addresses topics) evs))"

section \<open>The collecting loops\<close>

lemma logs_of_receipt_Inr:
  assumes "logs_of_receipt X hdr addresses topics h tx i logs out = Inr (i', out')" "i + length logs \<le> u64_max"
  shows "i' = i + length logs \<and> (length out \<le> MAX_GET_LOGS \<longrightarrow> length out' \<le> MAX_GET_LOGS) \<and>
    out' = out @ map (\<lambda>(j, log). rpc_log_json X log hdr h tx j)
      (filter (\<lambda>(j, log). log_matches log addresses topics) (zip [i..<i + length logs] logs))"
  using assms
proof (induction logs arbitrary: i out)
  case (Cons log logs)
  have i: "sat_add i (Suc 0) = Suc i" using Cons.prems(2) by (simp add: sat_add_def)
  have z: "[i..<i + length (log # logs)] = i # [Suc i..<Suc i + length logs]" by (simp add: upt_rec)
  show ?case
  proof (cases "log_matches log addresses topics")
    case True
    then show ?thesis using Cons.IH [of "Suc i"] Cons.prems i unfolding z by (fastforce split: if_splits)
  next
    case False
    then show ?thesis using Cons.IH [of "Suc i"] Cons.prems i unfolding z by fastforce
  qed
qed simp

lemma logs_of_receipts_Inr:
  assumes "logs_of_receipts X hdr addresses topics tx i l out = Inr out'" "map br_logs l = map (rc_logs \<circ> snd) rs"
    "map br_tx_hash l = map fst rs" "i + sum_list (map (length \<circ> br_logs) l) \<le> u64_max"
  shows "(length out \<le> MAX_GET_LOGS \<longrightarrow> length out' \<le> MAX_GET_LOGS) \<and>
    out' = out @ map (\<lambda>(tx, i, h, log). rpc_log_json X log hdr h tx i)
       (filter (\<lambda>(tx, i, h, log). log_matches log addresses topics) (numbered tx i rs))"
  using assms
proof (induction l arbitrary: tx i out rs)
  case (Cons rec l)
  obtain h r rs' where rs: "rs = (h, r) # rs'" "br_logs rec = rc_logs r" "br_tx_hash rec = h"
    using Cons.prems(2,3) by (cases rs) auto
  obtain i1 out1 where 1: "logs_of_receipt X hdr addresses topics h tx i (rc_logs r) out = Inr (i1, out1)"
    "logs_of_receipts X hdr addresses topics (Suc tx) i1 l out1 = Inr out'"
    using Cons.prems(1) rs by (auto simp: rbind_def split: sum.splits)
  have le: "i + length (rc_logs r) \<le> u64_max" using Cons.prems(4) rs(2) by simp
  note f = logs_of_receipt_Inr [OF 1(1) le]
  have "i1 + sum_list (map (length \<circ> br_logs) l) \<le> u64_max" using f Cons.prems(4) rs(2) by (simp add: comp_def)
  note IH = Cons.IH [OF 1(2) _ _ this, of rs']
  have "map br_logs l = map (rc_logs \<circ> snd) rs'" "map br_tx_hash l = map fst rs'" using Cons.prems(2,3) rs(1) by simp_all
  then show ?case using IH f unfolding rs(1) by (auto simp: filter_map comp_def case_prod_unfold)
qed simp

section \<open>Binding\<close>

lemma logs_field_bound: "logs_field X m = Inr ls \<Longrightarrow> length ls \<le> MAX_RECEIPT_LOGS"
  by (auto simp: logs_field_def dest: rmapM_length split: option.splits json.splits if_splits)

lemma encode_receipts_Inr:
  assumes "encode_receipts X hdr i li prev vs = Inr rs"
  shows "\<exists>cs. length rs = length vs \<and> list_all2 (\<lambda>c e. encode_consensus_receipt c = Inr e) cs (map fst rs) \<and>
    map br_logs (map snd rs) = map rc_logs cs \<and> list_all (\<lambda>c. length (rc_logs c) \<le> MAX_RECEIPT_LOGS) cs"
  using assms
proof (induction vs arbitrary: i li prev rs)
  case (Cons v vs)
  obtain p raw rest where p: "parse_consensus_receipt_json X v = Inr p" "encode_consensus_receipt (pr_consensus p) = Inr raw"
    "encode_receipts X hdr (Suc i) (sat_add li (length (rc_logs (pr_consensus p)))) (rc_cumulative_gas_used (pr_consensus p)) vs = Inr rest"
    "map fst rs = raw # map fst rest" "map br_logs (map snd rs) = rc_logs (pr_consensus p) # map br_logs (map snd rest)"
    "length rs = Suc (length rest)"
    using Cons.prems by (auto simp: res_simps Let_def)
  have "length (rc_logs (pr_consensus p)) \<le> MAX_RECEIPT_LOGS"
    using p(1) logs_field_bound by (auto simp: parse_consensus_receipt_json_def res_simps)
  moreover obtain cs where "length rest = length vs" "list_all2 (\<lambda>c e. encode_consensus_receipt c = Inr e) cs (map fst rest)"
    "map br_logs (map snd rest) = map rc_logs cs" "list_all (\<lambda>c. length (rc_logs c) \<le> MAX_RECEIPT_LOGS) cs"
    using Cons.IH [OF p(3)] by blast
  ultimately show ?case using p by (intro exI [of _ "pr_consensus p # cs"]) auto
qed simp

lemma label_receipts_Inr:
  "label_receipts X fee envs i items = Inr items' \<Longrightarrow> map br_logs items' = map br_logs items"
  by (induction items arbitrary: i items') (auto simp: res_simps Let_def split: option.splits if_splits)

lemma header_hash_hash_field: "header_hash X (hdr\<lparr>h_hash := t\<rparr>) = header_hash X hdr"
  unfolding header_hash_def header_encoding_def header_items_def by simp

lemma header_matches_hash_field [simp]: "header_matches_local X (hdr\<lparr>h_hash := t\<rparr>) b = header_matches_local X hdr b"
  unfolding header_matches_local_def header_hash_hash_field by (simp cong: if_cong)

lemma load_verified_header_Inr:
  "load_verified_header V b s = (Inr hdr, t) \<Longrightarrow>
     header_matches_local (re_ext V) hdr b = Inr () \<and> h_hash hdr = hex0x (re_ext V) (vb_hash b)"
  by (auto simp: load_verified_header_def Let_def res_simps split: prod.splits)

definition lists_receipts :: "(bytes option \<times> consensus_receipt) list \<Rightarrow> bound_receipt list \<Rightarrow> bool" where
  "lists_receipts rs l \<longleftrightarrow> map br_logs l = map (rc_logs \<circ> snd) rs \<and> map br_tx_hash l = map fst rs \<and>
     sum_list (map (length \<circ> br_logs) l) \<le> u64_max"

lemma check_receipts_Inr:
  assumes "check_receipts X hdr root jsons = Inr items" "jsons \<noteq> []"
  obtains cs encs where "list_all2 (\<lambda>c e. encode_consensus_receipt c = Inr e) cs encs" "encs \<noteq> []"
    "verify_receipt_list X encs root = Inr ()" "map br_logs items = map rc_logs cs"
    "sum_list (map (length \<circ> br_logs) items) \<le> u64_max"
proof -
  obtain rs where rs: "encode_receipts X hdr 0 0 0 jsons = Inr rs" "verify_receipt_list X (map fst rs) root = Inr ()"
    "items = map snd rs" "length jsons \<le> MAX_ORDERED_TRIE_ITEMS"
    using assms(1) by (auto simp: check_receipts_def res_simps)
  obtain cs where cs: "length rs = length jsons" "list_all2 (\<lambda>c e. encode_consensus_receipt c = Inr e) cs (map fst rs)"
    "map br_logs (map snd rs) = map rc_logs cs" "list_all (\<lambda>c. length (rc_logs c) \<le> MAX_RECEIPT_LOGS) cs"
    using encode_receipts_Inr [OF rs(1)] by blast
  have len: "length cs = length jsons" using cs(1,2) by (simp add: list_all2_lengthD)
  have "sum_list (map (length \<circ> rc_logs) cs) \<le> length cs * MAX_RECEIPT_LOGS"
    using cs(4) by (induction cs) auto
  also have "\<dots> \<le> MAX_ORDERED_TRIE_ITEMS * MAX_RECEIPT_LOGS" using len rs(4) by simp
  also have "\<dots> \<le> u64_max" by (simp add: MAX_ORDERED_TRIE_ITEMS_def MAX_RECEIPT_LOGS_def u64_max_def)
  finally have "sum_list (map length (map rc_logs cs)) \<le> u64_max" by (simp add: comp_def)
  then have "sum_list (map (length \<circ> br_logs) items) \<le> u64_max" using cs(3) rs(3) by (simp flip: map_map)
  moreover have "map fst rs \<noteq> []" using cs(1) assms(2) by auto
  ultimately show thesis using that [OF cs(2)] rs(2,3) cs(3) by blast
qed

lemma receipts_evidence:
  assumes "bound_block_receipts V b s = (Inr (hdr, bound), t)"
  shows "(bound = ReceiptEmpty \<longrightarrow> block_evidence (re_ext V) b (hdr, [])) \<and>
    (\<forall>l. bound = ReceiptList l \<longrightarrow> (\<exists>rs. block_evidence (re_ext V) b (hdr, rs) \<and> lists_receipts rs l))"
proof -
  let ?X = "re_ext V"
  obtain u where u: "load_verified_header V b s = (Inr hdr, u)" "bind_receipts V hdr u = (Inr bound, t)"
    using assms by (auto simp: bound_block_receipts_def then_step_Inr)
  note h = load_verified_header_Inr [OF u(1)]
  obtain root where root: "decode_hex_fixed ?X 32 (h_receipts_root hdr) = Inr root"
    using u(2) by (auto simp: bind_receipts_def Let_def receipts_root_of_def res_simps split: sum.splits)
  show ?thesis
  proof (cases "root = EMPTY_TRIE_ROOT")
    case True
    then have "bound = ReceiptEmpty" using u(2) root by (simp add: bind_receipts_def Let_def receipts_root_of_def map_err_def)
    then show ?thesis using h root True by (simp add: block_evidence_def)
  next
    case False
    have r: "bound = ReceiptOmitted \<or> (\<exists>jsons items l. jsons \<noteq> [] \<and> check_receipts ?X hdr root jsons = Inr items \<and>
        bound = ReceiptList l \<and> map br_logs l = map br_logs items)"
      using u(2) root False label_receipts_Inr
      by (fastforce simp: bind_receipts_def Let_def receipts_root_of_def map_err_def [of _ "Inr _"] then_step_Inr res_simps
          split: if_splits option.splits)
    show ?thesis
    proof (cases "bound = ReceiptOmitted")
      case omitted: False
      then obtain jsons items l where l: "jsons \<noteq> []" "check_receipts ?X hdr root jsons = Inr items" "bound = ReceiptList l"
        "map br_logs l = map br_logs items" using r by blast
      obtain cs encs where cs: "list_all2 (\<lambda>c e. encode_consensus_receipt c = Inr e) cs encs" "encs \<noteq> []"
        "verify_receipt_list ?X encs root = Inr ()" "map br_logs items = map rc_logs cs"
        "sum_list (map (length \<circ> br_logs) items) \<le> u64_max" using check_receipts_Inr [OF l(2,1)] .
      let ?rs = "zip (map br_tx_hash l) cs"
      have len: "length l = length cs" using l(4) cs(4) by (metis length_map)
      have "list_all2 (\<lambda>r e. encode_consensus_receipt (snd r) = Inr e) ?rs encs"
        using cs(1) len by (simp add: list_all2_conv_all_nth)
      then have "block_evidence ?X b (hdr, ?rs)" using h root False cs(2,3) by (auto simp: block_evidence_def)
      moreover have "lists_receipts ?rs l"
        using cs(5) l(4) cs(4) len by (simp add: lists_receipts_def flip: map_map) 
      ultimately show ?thesis using l(3) by blast
    qed simp
  qed
qed

section \<open>Completeness of a collection\<close>

definition fetched_ok :: "('pk, 'sg) ext \<Rightarrow> verified_block \<times> (int \<times> string, rpc_block_header \<times> receipt_bind) result \<Rightarrow> bool" where
  "fetched_ok X e \<longleftrightarrow> (\<forall>hdr bound. snd e = Inr (hdr, bound) \<longrightarrow>
     (bound = ReceiptEmpty \<longrightarrow> block_evidence X (fst e) (hdr, [])) \<and>
     (\<forall>l. bound = ReceiptList l \<longrightarrow> (\<exists>rs. block_evidence X (fst e) (hdr, rs) \<and> lists_receipts rs l)))"

lemma fetch_group_ok:
  "fetch_group V bs s = (fetched, t) \<Longrightarrow> map fst fetched = bs \<and> list_all (fetched_ok (re_ext V)) fetched"
proof (induction bs arbitrary: s fetched)
  case (Cons b bs)
  obtain r u rs where f: "bound_block_receipts V b s = (r, u)" "fetch_group V bs u = (rs, t)" "fetched = (b, r) # rs"
    using Cons.prems by (auto simp: Let_def split: prod.splits)
  have "fetched_ok (re_ext V) (b, r)" using receipts_evidence f(1) by (fastforce simp: fetched_ok_def)
  then show ?case using Cons.IH [OF f(2)] f(3) by simp
qed simp

lemma logs_of_block_Inr:
  assumes "logs_of_block X addresses topics b res out = Inr out'" "fetched_ok X (b, res)"
  obtains ev where "block_evidence X b ev" "out' = out @ matching_logs X addresses topics ev"
    "length out \<le> MAX_GET_LOGS \<longrightarrow> length out' \<le> MAX_GET_LOGS"
proof -
  obtain hdr bound where r: "res = Inr (hdr, bound)" using assms(1) by (auto simp: logs_of_block_def split: sum.splits)
  show thesis
  proof (cases bound)
    case ReceiptEmpty
    then show ?thesis using that [of "(hdr, [])"] assms r by (simp add: fetched_ok_def logs_of_block_def matching_logs_def)
  next
    case ReceiptOmitted
    then show ?thesis using assms(1) r by (simp add: logs_of_block_def)
  next
    case (ReceiptList l)
    then obtain rs where rs: "block_evidence X b (hdr, rs)" "lists_receipts rs l" using assms(2) r by (auto simp: fetched_ok_def)
    have "logs_of_receipts X hdr addresses topics 0 0 l out = Inr out'"
      using assms(1) r ReceiptList by (simp add: logs_of_block_def)
    note f = logs_of_receipts_Inr [OF this, of rs]
    show ?thesis
      by (rule that [OF rs(1)]) (use f rs(2) in \<open>auto simp: lists_receipts_def matching_logs_def\<close>)
  qed
qed

definition collected ::
    "('pk, 'sg) ext \<Rightarrow> verified_block list \<Rightarrow> bytes list \<Rightarrow> bytes list option list \<Rightarrow> json list \<Rightarrow> json list \<Rightarrow> bool" where
  "collected X blocks addresses topics out out' \<longleftrightarrow>
     (\<exists>more. complete_logs X blocks addresses topics more \<and> out' = out @ more) \<and>
     (length out \<le> MAX_GET_LOGS \<longrightarrow> length out' \<le> MAX_GET_LOGS)"

lemma collected_Nil: "collected X [] addresses topics out out"
  by (auto simp: collected_def complete_logs_def)

lemma collected_append:
  assumes "collected X bs addresses topics out out1" "collected X cs addresses topics out1 out2"
  shows "collected X (bs @ cs) addresses topics out out2"
proof -
  obtain evs fs where "list_all2 (block_evidence X) bs evs" "list_all2 (block_evidence X) cs fs"
    "out1 = out @ concat (map (matching_logs X addresses topics) evs)"
    "out2 = out1 @ concat (map (matching_logs X addresses topics) fs)"
    using assms by (auto simp: collected_def complete_logs_def)
  then have "complete_logs X (bs @ cs) addresses topics (concat (map (matching_logs X addresses topics) (evs @ fs)))"
    "out2 = out @ concat (map (matching_logs X addresses topics) (evs @ fs))"
    unfolding complete_logs_def by (auto intro!: exI [of _ "evs @ fs"] list_all2_appendI)
  then show ?thesis using assms by (auto simp: collected_def)
qed

lemma logs_of_group_collected:
  "logs_of_group X addresses topics fetched out = Inr out' \<Longrightarrow> list_all (fetched_ok X) fetched \<Longrightarrow>
     collected X (map fst fetched) addresses topics out out'"
proof (induction fetched arbitrary: out)
  case (Cons e fetched)
  obtain b r where e: "e = (b, r)" by fastforce
  obtain out1 where o: "logs_of_block X addresses topics b r out = Inr out1" "logs_of_group X addresses topics fetched out1 = Inr out'"
    using Cons.prems(1) e by (auto simp: res_simps)
  have ok: "fetched_ok X (b, r)" "list_all (fetched_ok X) fetched" using Cons.prems(2) e by simp_all
  obtain ev where ev: "block_evidence X b ev" "out1 = out @ matching_logs X addresses topics ev"
    "length out \<le> MAX_GET_LOGS \<longrightarrow> length out1 \<le> MAX_GET_LOGS" using o(1) ok(1) by (rule logs_of_block_Inr)
  then have "collected X [b] addresses topics out out1"
    by (auto simp: collected_def complete_logs_def intro!: exI [of _ "[ev]"])
  from collected_append [OF this Cons.IH [OF o(2) ok(2)]] show ?case by (simp add: e)
qed (simp add: collected_Nil)

lemma collect_logs_collected:
  "collect_logs V blocks addresses topics out s = (Inr out', t) \<Longrightarrow> collected (re_ext V) blocks addresses topics out out'"
proof (induction "length blocks" arbitrary: blocks out s rule: less_induct)
  case less
  show ?case
  proof (cases "blocks = []")
    case True
    then show ?thesis using less.prems by (simp add: collect_logs.simps collected_Nil)
  next
    case False
    let ?n = LOG_FETCH_PARALLEL
    obtain fetched u out1 where f: "fetch_group V (take ?n blocks) s = (fetched, u)"
      "logs_of_group (re_ext V) addresses topics fetched out = Inr out1"
      "collect_logs V (drop ?n blocks) addresses topics out1 u = (Inr out', t)"
      using less.prems False by (auto simp: collect_logs.simps [of V blocks] split: prod.splits sum.splits)
    have "collected (re_ext V) (take ?n blocks) addresses topics out out1"
      using logs_of_group_collected [OF f(2)] fetch_group_ok [OF f(1)] by simp
    moreover have "collected (re_ext V) (drop ?n blocks) addresses topics out1 out'"
      using less.hyps [OF _ f(3)] False by (simp add: LOG_FETCH_PARALLEL_def)
    ultimately show ?thesis using collected_append by fastforce
  qed
qed

section \<open>The blocks of a range\<close>

lemma consecutive_nth:
  assumes "chain_ok X chain" "Suc i < length chain"
  shows "vb_number (chain ! Suc i) = (vb_number (chain ! 0) + Suc i) mod 2 ^ 64"
  using assms(2)
proof (induction i)
  case (Suc i)
  have "vb_number (chain ! Suc (Suc i)) = wrap64 (vb_number (chain ! Suc i) + 1)"
    using assms(1) Suc.prems by (auto simp: successively_conv_nth follows_def)
  then show ?case using Suc by (simp add: wrap64_def u64_max_def mod_simps)
qed (use assms(1) in \<open>auto simp: successively_conv_nth follows_def wrap64_def u64_max_def\<close>)

lemma chain_numbers_distinct:
  assumes "chain_ok X chain" "length chain \<le> u64_max"
  shows "distinct (map vb_number chain)"
proof -
  let ?n = "\<lambda>i. vb_number (chain ! i)"
  have ne: "?n i \<noteq> ?n j" if ij: "i < j" "j < length chain" for i j
  proof
    assume eq: "?n i = ?n j"
    obtain j' where j': "j = Suc j'" using ij(1) by (cases j) auto
    have nj: "?n j = (?n 0 + j) mod 2 ^ 64" using consecutive_nth [OF assms(1)] ij(2) j' by simp
    have ni: "?n i = (?n 0 + i) mod 2 ^ 64"
      using consecutive_nth [OF assms(1)] ij eq nj by (cases i) (auto simp: mod_less_divisor)
    have "(2 :: nat) ^ 64 dvd j - i" using eq ni nj ij(1) mod_eq_dvd_iff_nat [of "?n 0 + i" "?n 0 + j" "2 ^ 64"] by simp
    then have "(2 :: nat) ^ 64 \<le> j - i" using ij(1) by (simp add: dvd_imp_le)
    then show False using ij(2) assms(2) by (simp add: u64_max_def)
  qed
  show ?thesis unfolding distinct_conv_nth by (metis ne length_map linorder_neqE_nat nth_map)
qed

definition in_range :: "verified_block list \<Rightarrow> nat \<Rightarrow> nat \<Rightarrow> nat \<Rightarrow> verified_block list \<Rightarrow> bool" where
  "in_range chain head a b blocks \<longleftrightarrow>
     set blocks \<subseteq> set chain \<and> a \<le> b \<and> b \<le> head \<and> (b < u64_max \<longrightarrow> map vb_number blocks = [a..<Suc b])"

lemma blocks_of_range_Inr:
  assumes "blocks_of_range rid a b safe chain = Inr blocks" "distinct (map vb_number chain)"
  shows "in_range chain (sh_number safe) a b blocks"
proof -
  let ?f = "filter (\<lambda>c. a \<le> vb_number c \<and> vb_number c \<le> b) chain"
  have r: "a \<le> b" "b \<le> sh_number safe" "blocks = sort_key vb_number ?f" "length blocks = wrap64 (b - a + 1)"
    using assms(1) by (auto simp: blocks_of_range_def Let_def split: if_splits)
  have "map vb_number blocks = [a..<Suc b]" if "b < u64_max"
  proof (rule sorted_distinct_set_unique)
    have d: "distinct (map vb_number ?f)" using assms(2) by (rule distinct_map_filter)
    have m: "mset (map vb_number blocks) = mset (map vb_number ?f)" by (simp add: r(3))
    then show dd: "distinct (map vb_number blocks)" using d by (rule mset_eq_imp_distinct_iff [THEN iffD2])
    show "sorted (map vb_number blocks)" by (simp add: r(3))
    have len: "length (map vb_number blocks) = Suc b - a" using r(1,4) that by (simp add: wrap64_def u64_max_def)
    have sub: "set (map vb_number blocks) \<subseteq> set [a..<Suc b]" by (auto simp: r(3))
    show "set (map vb_number blocks) = set [a..<Suc b]"
      by (rule card_subset_eq [OF _ sub]) (use distinct_card [OF dd] len in \<open>simp_all del: upt_Suc\<close>)
  qed (simp_all del: upt_Suc)
  moreover have "set blocks \<subseteq> set chain" by (auto simp: r(3))
  ultimately show ?thesis using r(1,2) by (simp add: in_range_def)
qed

text \<open>
  The blocks that a filter object selects from the chain as the request's own sync left it: the block of its
  \<open>blockHash\<close>, or every block from the number of its \<open>fromBlock\<close> to that of its \<open>toBlock\<close>.
\<close>

definition selects :: "('pk, 'sg) ext \<Rightarrow> safe_head \<Rightarrow> verified_block list \<Rightarrow> object option \<Rightarrow> verified_block list \<Rightarrow> bool" where
  "selects X safe chain f blocks \<longleftrightarrow>
     (if \<not> is_nullish_json (filter_get f ''blockHash'') then
        (\<exists>t b. filter_get f ''blockHash'' = Some (JString t) \<and> decode_hex_fixed X 32 t = Inr (vb_hash b) \<and>
           b \<in> set chain \<and> vb_number b \<le> sh_number safe \<and> blocks = [b])
      else
        (\<exists>t u a b. wallet_block_tag_str (filter_get f ''fromBlock'') = Inr t \<and> wallet_block_tag_str (filter_get f ''toBlock'') = Inr u \<and>
           log_filter_block_number X t (sh_number safe) (sh_hash safe) = Some a \<and>
           log_filter_block_number X u (sh_number safe) (sh_hash safe) = Some b \<and> in_range chain (sh_number safe) a b blocks))"

lemma resolve_blocks_selects:
  assumes "resolve_get_logs_blocks V rid f s = (Inr blocks, t)" "node_inv (re_ext V) (sv_node t)" "length (nd_chain (sv_node t)) \<le> u64_max"
  obtains tip safe where "server_refresh V s = (Inr (tip, safe), t)" "selects (re_ext V) safe (nd_chain (sv_node t)) f blocks"
proof -
  have d: "distinct (map vb_number (nd_chain (sv_node t)))"
    using chain_numbers_distinct [of "re_ext V"] assms(2,3) by (simp add: node_inv_def sync_inv_def)
  show thesis
  proof (cases "is_nullish_json (filter_get f ''blockHash'')")
    case False
    then obtain hash tip safe b where "Option.bind (filter_get f ''blockHash'') as_str = Some hash"
      "server_refresh V s = (Inr (tip, safe), t)" "wallet_get_block_by_hash (re_ext V) hash (sh_number safe) (nd_chain (sv_node t)) = Some b"
      "blocks = [b]"
      using assms(1) by (auto simp: resolve_get_logs_blocks_def Let_def hbind_Inr hrefresh_Inr)
    then show ?thesis using that False by_hash_Some by (fastforce simp: selects_def bind_eq_Some_conv as_str_Some)
  next
    case True
    then obtain a b low high tip safe where r: "wallet_block_tag_str (filter_get f ''fromBlock'') = Inr a"
      "wallet_block_tag_str (filter_get f ''toBlock'') = Inr b" "server_refresh V s = (Inr (tip, safe), t)"
      "log_block_number (re_ext V) rid a safe = Inr low" "log_block_number (re_ext V) rid b safe = Inr high"
      "blocks_of_range rid low high safe (nd_chain (sv_node t)) = Inr blocks"
      using assms(1) by (auto simp: resolve_get_logs_blocks_def Let_def hbind_Inr hrefresh_Inr res_simps)
    have "log_filter_block_number (re_ext V) a (sh_number safe) (sh_hash safe) = Some low"
      "log_filter_block_number (re_ext V) b (sh_number safe) (sh_hash safe) = Some high"
      using r(4,5) by (auto simp: log_block_number_def ok_or_def split: option.splits)
    then have "selects (re_ext V) safe (nd_chain (sv_node t)) f blocks"
      unfolding selects_def using True r(1,2) blocks_of_range_Inr [OF r(6) d] by auto
    then show ?thesis using that [OF r(3)] by blast
  qed
qed

section \<open>eth_getLogs\<close>

lemma collect_keeps_node: "collect_logs V blocks addresses topics out s = (r, t) \<Longrightarrow> sv_node t = sv_node s"
  using same_node.collect_logs_step [of V blocks addresses topics out] by (simp add: stays_def) (metis snd_conv)

lemma collect_complete:
  assumes "collect_logs V blocks addresses topics [] s = (Inr out, t)"
  shows "complete_logs (re_ext V) blocks addresses topics out \<and> length out \<le> 1024"
  using collect_logs_collected [OF assms] by (auto simp: collected_def MAX_GET_LOGS_def MAX_RECEIPT_LOGS_def)

lemma logs_answer_Inr:
  "(case r of (Inr out, s') \<Rightarrow> (Inr (g out), s') | (Inl Capped, s') \<Rightarrow> (Inl e, s')
      | (Inl (LogsRpc code msg), s') \<Rightarrow> (Inl (h code msg), s')) = (Inr v, t) \<longleftrightarrow> (\<exists>out. r = (Inr out, t) \<and> v = g out)"
  by (auto split: prod.splits sum.splits logs_error.splits)

lemma errs_logs: "errs (get_logs V rid req)" "errs (get_filter_changes V rid req)"
proof -
  have o: "errs (hres (ok_or v e))" if "json_get ''result'' e = None" for v :: "'x option" and e
    using that by (simp add: errs_def ok_or_def split: option.split)
  have b: "errs (hres (log_block_number X rid tag safe))" for X :: "('pk, 'sg) ext" and tag safe
    unfolding log_block_number_def by (rule o) simp
  have r: "errs (hres (blocks_of_range rid a b safe chain))" for a b safe chain
    by (auto simp: errs_def blocks_of_range_def Let_def split: if_splits)
  have res: "errs (resolve_get_logs_blocks V rid f)" for f
    unfolding resolve_get_logs_blocks_def Let_def by (intro errs_bind errs_steps errs_cases b r; simp)
  have f: "errs (hres (logs_filter rid req))"
    by (auto simp: errs_def logs_filter_def split: option.splits json.splits)
  have c: "errs (\<lambda>s. case collect_logs V blocks addresses topics [] s of
             (Inr out, s') \<Rightarrow> (Inr (rpc_ok rid (JArray out)), s')
           | (Inl Capped, s') \<Rightarrow> (Inl (rpc_err rid ERR_PARAMS capped_text), s')
           | (Inl (LogsRpc code msg), s') \<Rightarrow> (Inl (rpc_err rid code msg), s'))" for blocks addresses topics
    by (auto simp: errs_def split: prod.splits sum.splits logs_error.splits)
  show "errs (get_logs V rid req)"
    unfolding get_logs_def Let_def by (intro errs_bind errs_steps f res c; simp)
  have p: "errs (poll_span V rid m cursor end')" for m cursor end'
  proof (unfold errs_def, intro allI impI)
    fix s e t
    show "poll_span V rid m cursor end' s = (Inl e, t) \<Longrightarrow> json_get ''result'' e = None"
    proof (induction V rid m cursor end' s rule: poll_span.induct)
      case (1 V rid m cursor end' s)
      obtain r u where l: "logs_for_span V m cursor end' s = (r, u)" by fastforce
      show ?case
        using "1.prems" "1.IH" [OF l [symmetric], of Capped] l
        by (auto simp: poll_span.simps [of V rid m cursor end' s] split: sum.splits logs_error.splits if_splits)
    qed
  qed
  have t: "errs (hstore V (touch_filter rid fid))" for fid
    by (auto simp: errs_def hstore_def touch_filter_def Let_def split: prod.splits option.splits)
  have m: "errs (hmove logs fid c)" for logs fid c by (simp add: errs_def hmove_def)
  have ch: "errs (block_changes X rid fid low head)" "errs (log_changes V rid fid f high cursor head)"
    for X :: "('pk, 'sg) ext" and fid low head f high cursor
    unfolding block_changes_def log_changes_def Let_def by (intro errs_bind errs_steps errs_cases p m; simp)+
  show "errs (get_filter_changes V rid req)"
    unfolding get_filter_changes_def
    by (intro errs_bind errs_steps errs_cases t) (auto split: filter_kind.split intro: ch)
qed

text \<open>
  C13. A list that \<open>eth_getLogs\<close> returns is complete. It holds at most 1024 logs, and it is exactly what the
  filter's addresses and topics match, in order and with their indices in the block, among all receipts of every block
  the filter selects: the verified block of its \<open>blockHash\<close>, or one verified block for every number
  from its \<open>fromBlock\<close> to its \<open>toBlock\<close>, none above the head that the request's own sync returned. The
  receipts of each block encode to the \<open>receiptsRoot\<close> of a header whose hash is that block's.
\<close>

theorem get_logs_complete:
  assumes m: "json_get ''method'' req = Some (JString ''eth_getLogs'')" and h: "handle V req s = (resp, t)"
    and x: "json_get ''result'' resp = Some x"
    and inv: "node_inv (re_ext V) (sv_node t)" "length (nd_chain (sv_node t)) \<le> u64_max"
  shows "\<exists>f blocks addresses topics out tip safe u. logs_filter (rid_of req) req = Inr f \<and>
    parse_log_addresses (re_ext V) f = Inr addresses \<and> parse_log_topics (re_ext V) f = Inr topics \<and>
    server_refresh V s = (Inr (tip, safe), u) \<and> selects (re_ext V) safe (nd_chain (sv_node u)) f blocks \<and>
    complete_logs (re_ext V) blocks addresses topics out \<and> length out \<le> 1024 \<and> x = JArray out"
proof -
  let ?rid = "rid_of req"
  have arm: "call_method V ?rid req ''eth_getLogs'' = get_logs V ?rid req" by (simp add: call_method_def method_arms_def)
  then have "errs (call_method V ?rid req ''eth_getLogs'')" using errs_logs(1) by metis
  then have "get_logs V ?rid req s = (Inr resp, t)" using handle_Inr [OF h m x] arm by simp
  then obtain f u blocks addresses topics out where g: "logs_filter ?rid req = Inr f" "resolve_get_logs_blocks V ?rid f s = (Inr blocks, u)"
    "parse_log_addresses (re_ext V) f = Inr addresses" "parse_log_topics (re_ext V) f = Inr topics"
    "collect_logs V blocks addresses topics [] u = (Inr out, t)" "resp = rpc_ok ?rid (JArray out)"
    by (auto simp: get_logs_def Let_def hbind_Inr res_simps logs_answer_Inr)
  have n: "sv_node t = sv_node u" using collect_keeps_node [OF g(5)] .
  obtain tip safe where "server_refresh V s = (Inr (tip, safe), u)" "selects (re_ext V) safe (nd_chain (sv_node u)) f blocks"
    using resolve_blocks_selects [OF g(2)] inv n by auto
  then show ?thesis using g collect_complete [OF g(5)] x by auto
qed

section \<open>Numbers as texts\<close>

lemma length_show_hex: "n < 16 ^ Suc k \<Longrightarrow> length (show_hex n) \<le> Suc k"
proof (induction k arbitrary: n)
  case 0
  then show ?case by (simp add: show_hex.simps [of n])
next
  case (Suc k)
  have "n div 16 < 16 ^ Suc k" using Suc.prems by (simp add: less_mult_imp_div_less)
  then show ?case using Suc.IH [of "n div 16"] by (simp add: show_hex.simps [of n])
qed

lemma length_qty: "is_u64 n \<Longrightarrow> length (qty n) \<le> 18"
  using length_show_hex [of n 15] by (simp add: qty_def is_u64_def u64_max_def)

lemma log_number_qty:
  assumes "hex_ok X" "length safe_hash = 66" "is_u64 n" "log_filter_block_number X (Some (qty n)) k safe_hash = Some v"
  shows "v = n"
proof -
  have tags: "\<not> safe_tag (Some (qty n))" "\<not> refused_tag (Some (qty n))" by (auto simp: safe_tag_def refused_tag_def qty_def)
  have len: "length (qty n) \<noteq> 66" "length (strip_0x (qty n)) \<noteq> 64"
    using length_qty [OF assms(3)] by (auto simp: qty_def)
  have "\<not> eq_ignore_ascii_case (qty n) safe_hash"
    using len(1) assms(2) unfolding eq_ignore_ascii_case_def by (metis length_map)
  moreover have "\<not> is_ok (decode_hex_fixed X 32 (qty n))"
  proof
    assume "is_ok (decode_hex_fixed X 32 (qty n))"
    then obtain b where "hex_decode X (strip_0x (qty n)) = Inr b" "length b = 32"
      by (auto simp: is_ok_def decode_hex_fixed_def decode_hex_def rbind_def map_err_def Let_def split: sum.splits if_splits)
    then show False using assms(1) len(2) by (auto simp: hex_ok_def)
  qed
  moreover have "has_0x (qty n)" by (simp add: has_0x_def qty_def)
  ultimately show ?thesis
    using assms(4) tags decode_u64_qty [OF assms(3)] by (simp add: log_filter_block_number_def)
qed

section \<open>Polls\<close>

lemma trim_start_hd:
  assumes "\<forall>w \<in> set ws. w \<noteq> [] \<longrightarrow> hd w \<noteq> c"
  shows "trim_start ws (c # s) = c # s"
proof -
  have "find (\<lambda>w. w \<noteq> [] \<and> starts_with (c # s) w) ws = None"
    using assms by (auto simp: find_None_iff starts_with_def neq_Nil_conv)
  then show ?thesis by (simp add: trim_start.simps)
qed

lemma trim_qty: "string_trim (qty n) = qty n"
proof -
  have ws: "list_all (\<lambda>w. \<not> is_hexdigit (hd w) \<and> \<not> is_hexdigit (last w)) white_space" by code_simp
  have z: "is_hexdigit (CHR ''0'')" by code_simp
  obtain s c where sc: "qty n = s @ [c]" "is_hexdigit c"
    using show_hex_hd [of n] show_hex_digits [of _ n] unfolding qty_def
    by (metis append.assoc append_butlast_last_id last_in_set)
  have "trim_start white_space (qty n) = qty n"
    unfolding qty_def using ws z by (simp, intro trim_start_hd) (auto simp: list_all_iff)
  moreover have "trim_start (map rev white_space) (rev (qty n)) = rev (qty n)"
    using ws sc by (simp, intro trim_start_hd) (auto simp: list_all_iff hd_rev)
  ultimately show ?thesis by (simp add: string_trim_def)
qed

lemma qty_not_nullish: "\<not> is_nullish_json (Some (JString (qty n)))"
proof -
  have "length (qty n) \<noteq> 0 \<and> length (qty n) \<noteq> 2" using show_hex_hd [of n] by (simp add: qty_def)
  moreover have "eq_ignore_ascii_case (qty n) ''0x'' \<Longrightarrow> length (qty n) = 2"
    unfolding eq_ignore_ascii_case_def by (drule arg_cong [of _ _ length]) simp
  ultimately show ?thesis by (auto simp: trim_qty)
qed

lemma resolve_no_hash:
  assumes "resolve_get_logs_blocks V rid f s = (Inr blocks, t)" "filter_get f ''fromBlock'' = Some (JString (qty a))"
  shows "is_nullish_json (filter_get f ''blockHash'')"
proof (rule ccontr)
  assume "\<not> is_nullish_json (filter_get f ''blockHash'')"
  then show False
    using assms(1) qty_not_nullish [of a] unfolding resolve_get_logs_blocks_def Let_def assms(2) by (simp add: hbind_Inr)
qed

text \<open>What a span of a stored filter gives.\<close>

definition span_logs :: "('pk, 'sg, 'bc) rpc_env \<Rightarrow> server \<Rightarrow> object \<Rightarrow> nat \<Rightarrow> nat \<Rightarrow> json list \<Rightarrow> bool" where
  "span_logs V t m a b out \<longleftrightarrow>
     (\<exists>blocks addresses topics. parse_log_addresses (re_ext V) (Some m) = Inr addresses \<and>
        parse_log_topics (re_ext V) (Some m) = Inr topics \<and> complete_logs (re_ext V) blocks addresses topics out \<and> length out \<le> 1024 \<and>
        set blocks \<subseteq> set (nd_chain (sv_node t)) \<and> (b < u64_max \<longrightarrow> map vb_number blocks = [a..<Suc b]))"

lemma logs_for_span_Inr:
  assumes "logs_for_span V m a b s = (Inr out, t)" "a \<le> b" "hex_ok (re_ext V)"
    and inv: "node_inv (re_ext V) (sv_node t)" "length (nd_chain (sv_node t)) \<le> u64_max" "named_head (sv_node t)"
  shows "span_logs V t m a b out"
proof -
  let ?X = "re_ext V"
  define f where "f = obj_insert ''toBlock'' (JString (qty b)) (obj_insert ''fromBlock'' (JString (qty a)) m)"
  obtain addresses topics blocks u where r: "parse_log_addresses ?X (Some f) = Inr addresses" "parse_log_topics ?X (Some f) = Inr topics"
    "resolve_get_logs_blocks V JNull (Some f) s = (Inr blocks, u)" "collect_logs V blocks addresses topics [] u = (Inr out, t)"
    using assms(1) by (auto simp: logs_for_span_def Let_def then_step_Inr res_simps f_def split: if_splits prod.splits)
  have n: "sv_node t = sv_node u" using collect_keeps_node [OF r(4)] .
  have p: "parse_log_addresses ?X (Some m) = Inr addresses" "parse_log_topics ?X (Some m) = Inr topics"
    using r(1,2) by (simp_all add: parse_log_addresses_def parse_log_topics_def filter_get_def f_def map_of_obj_insert)
  have g: "filter_get (Some f) ''fromBlock'' = Some (JString (qty a))" "filter_get (Some f) ''toBlock'' = Some (JString (qty b))"
    by (simp_all add: filter_get_def f_def map_of_obj_insert)
  obtain tip safe where s: "server_refresh V s = (Inr (tip, safe), u)" "selects ?X safe (nd_chain (sv_node u)) (Some f) blocks"
    using resolve_blocks_selects [OF r(3)] inv n by auto
  obtain low high where lh: "log_filter_block_number ?X (Some (qty a)) (sh_number safe) (sh_hash safe) = Some low"
    "log_filter_block_number ?X (Some (qty b)) (sh_number safe) (sh_hash safe) = Some high"
    "in_range (nd_chain (sv_node u)) (sh_number safe) low high blocks"
    using s(2) resolve_no_hash [OF r(3) g(1)] g by (auto simp: selects_def)
  have "fv_read_head (nd_finality (sv_node u)) = Some safe" using s(1) by (rule server_refresh_Inr) (rule refresh_published)
  then have "length (sh_hash safe) = 66" using inv(3) n by (simp add: named_head_def)
  then have "b < u64_max \<longrightarrow> low = a \<and> high = b"
    using log_number_qty [OF assms(3)] lh(1,2) assms(2) by (simp add: is_u64_def)
  then show ?thesis
    using p lh(3) collect_complete [OF r(4)] n unfolding span_logs_def in_range_def by auto
qed

lemma poll_span_Inr:
  "poll_span V rid m cursor end' s = (Inr (logs, e), t) \<Longrightarrow> cursor \<le> end' \<Longrightarrow> is_u64 cursor \<Longrightarrow>
     \<exists>u. logs_for_span V m cursor e u = (Inr logs, t) \<and> cursor \<le> e \<and> e \<le> end'"
proof (induction V rid m cursor end' s rule: poll_span.induct)
  case (1 V rid m cursor end' s)
  obtain r u where l: "logs_for_span V m cursor end' s = (r, u)" by fastforce
  let ?half = "sat_add cursor ((end' - cursor) div 2)"
  show ?case
  proof (cases "r = Inl Capped \<and> cursor < end'")
    case True
    have h: "cursor \<le> ?half" "?half \<le> end'" using "1.prems"(3) True by (auto simp: sat_add_def is_u64_def)
    have "poll_span V rid m cursor ?half u = (Inr (logs, e), t)"
      using "1.prems"(1) l True by (simp add: poll_span.simps [of V rid m cursor end' s])
    from "1.IH" [OF l [symmetric] _ refl _ this h(1) "1.prems"(3)] True h(2) show ?thesis by fastforce
  next
    case False
    then show ?thesis
      using "1.prems" l by (auto simp: poll_span.simps [of V rid m cursor end' s] split: sum.splits logs_error.splits if_splits)
  qed
qed

text \<open>The kind of a stored filter.\<close>

definition kind_of :: "server \<Rightarrow> nat \<Rightarrow> filter_kind option" where
  "kind_of s fid = map_option sf_kind (map_of (fs_map (sv_filters s)) fid)"

lemma map_of_filter: "distinct (map fst xs) \<Longrightarrow> map_of (filter P xs) k = None \<or> map_of (filter P xs) k = map_of xs k"
  by (induction xs) (auto simp: map_of_eq_None_iff)

lemma touch_kind:
  assumes "hstore V (touch_filter rid fid) s = (r, t)" "distinct (map fst (fs_map (sv_filters s)))"
  shows "(\<forall>e. r = Inl e \<longrightarrow> kind_of t fid = None) \<and> (\<forall>kind. r = Inr kind \<longrightarrow> kind_of s fid = Some kind \<and> kind_of t fid = Some kind)"
proof -
  let ?fs = "sweep (re_now V (sv_tick s)) (sv_filters s)"
  have h: "map_of (fs_map ?fs) fid = None \<or> map_of (fs_map ?fs) fid = map_of (fs_map (sv_filters s)) fid"
    unfolding sweep_def using map_of_filter [OF assms(2)] by simp
  show ?thesis
  proof (cases "map_of (fs_map ?fs) fid")
    case None
    then show ?thesis using assms(1) by (auto simp: hstore_def touch_filter_def Let_def kind_of_def)
  next
    case (Some f)
    then have "map_of (fs_map (sv_filters s)) fid = Some f" using h by simp
    then show ?thesis using assms(1) Some by (auto simp: hstore_def touch_filter_def Let_def kind_of_def update_conv)
  qed
qed

lemma log_changes_cases:
  assumes "log_changes V rid fid m to_block cursor head s = (r, t)" "kind_of s fid = Some (Logs m low to_block cursor)" "is_u64 cursor"
  obtains (failed) e where "r = Inl e" "kind_of t fid = kind_of s fid"
  | (idle) "r = Inr (rpc_ok rid (JArray []))" "t = s" "min (case to_block of None \<Rightarrow> head | Some b \<Rightarrow> b) head < cursor"
  | (moved) out e u v where "r = Inr (rpc_ok rid (JArray out))" "logs_for_span V m cursor e u = (Inr out, v)" "cursor \<le> e"
      "sv_node t = sv_node v" "kind_of t fid = Some (Logs m low to_block (sat_add e 1))"
proof -
  let ?fin = "min (case to_block of None \<Rightarrow> head | Some b \<Rightarrow> b) head"
  define end1 where "end1 = min ?fin (sat_add cursor (MAX_GET_LOGS_RANGE - 1))"
  show thesis
  proof (cases "?fin < cursor")
    case True
    then show ?thesis using idle assms(1) by (simp add: log_changes_def)
  next
    case False
    obtain p v where p: "poll_span V rid m cursor end1 s = (p, v)" by fastforce
    have keep: "sv_filters v = sv_filters s"
      using same_store.poll_step [of V rid m cursor end1] p by (simp add: stays_def) (metis snd_conv)
    have le: "cursor \<le> end1" using False assms(3) by (simp add: end1_def sat_add_def is_u64_def not_less)
    show ?thesis
    proof (cases p)
      case (Inl e)
      then show ?thesis
        using failed [of e] assms(1) False p [unfolded end1_def] keep by (simp add: log_changes_def hbind_def then_step_def kind_of_def)
    next
      case (Inr le)
      obtain out e where oe: "le = (out, e)" by fastforce
      obtain u where u: "logs_for_span V m cursor e u = (Inr out, v)" "cursor \<le> e"
        using poll_span_Inr [OF p [unfolded Inr oe] \<open>cursor \<le> end1\<close> assms(3)] by blast
      have t: "r = Inr (rpc_ok rid (JArray out))" "t = v\<lparr>sv_filters := move_cursor True fid (sat_add e 1) (sv_filters v)\<rparr>"
        using assms(1) False p [unfolded end1_def] Inr oe by (simp_all add: log_changes_def hbind_def then_step_def hmove_def)
      obtain f where f: "map_of (fs_map (sv_filters v)) fid = Some f" "sf_kind f = Logs m low to_block cursor"
        using assms(2) keep by (auto simp: kind_of_def)
      then have "kind_of t fid = Some (Logs m low to_block (sat_add e 1))"
        by (simp add: t(2) kind_of_def move_cursor_def set_cursor_def update_conv)
      then show ?thesis using moved [OF t(1) u] t(2) by simp
    qed
  qed
qed

text \<open>The last block that a poll can ask for.\<close>

definition poll_limit :: "nat option \<Rightarrow> safe_head \<Rightarrow> nat" where
  "poll_limit to_block safe = min (case to_block of None \<Rightarrow> sh_number safe | Some b \<Rightarrow> b) (sh_number safe)"

definition poll_outcome ::
    "('pk, 'sg, 'bc) rpc_env \<Rightarrow> server \<Rightarrow> server \<Rightarrow> nat \<Rightarrow> object \<Rightarrow> nat \<Rightarrow> nat option \<Rightarrow> nat \<Rightarrow> json list \<Rightarrow> bool" where
  "poll_outcome V s t fid m low to_block cursor out \<longleftrightarrow>
     kind_of t fid = Some (Logs m low to_block cursor) \<and> out = [] \<and>
       (\<exists>tip safe u. server_refresh V s = (Inr (tip, safe), u) \<and> poll_limit to_block safe < cursor) \<or>
     (\<exists>last'. cursor \<le> last' \<and> kind_of t fid = Some (Logs m low to_block (sat_add last' 1)) \<and>
        span_logs V t m cursor last' out)"

lemma filter_changes_outcome:
  assumes g: "get_filter_changes V rid req s = (r, t)" and fid: "parse_filter_id req = Some fid"
    and k: "kind_of s fid = Some (Logs m low to_block cursor)" "is_u64 cursor" "distinct (map fst (fs_map (sv_filters s)))"
    and inv: "hex_ok (re_ext V)" "node_inv (re_ext V) (sv_node t)" "length (nd_chain (sv_node t)) \<le> u64_max" "named_head (sv_node t)"
  shows "case r of
      Inl e \<Rightarrow> kind_of t fid = None \<or> kind_of t fid = kind_of s fid
    | Inr v \<Rightarrow> \<exists>out. v = rpc_ok rid (JArray out) \<and> poll_outcome V s t fid m low to_block cursor out"
proof -
  obtain p u where p: "server_refresh V s = (p, u)" by fastforce
  have su: "sv_filters u = sv_filters s" using p by (auto simp: server_refresh_def split: prod.splits)
  show ?thesis
  proof (cases p)
    case (Inl e)
    then have "hrefresh V rid s = (Inl (rpc_err rid ERR_NOT_SYNCED (''not_synced: '' @ show_err e)), u)"
      using p by (simp add: hrefresh_def)
    then have "\<exists>e. r = Inl e" "t = u"
      using g fid by (auto simp: get_filter_changes_def hbind_def then_step_def hopt_def)
    then show ?thesis using su by (auto simp: kind_of_def)
  next
    case (Inr ts)
    obtain tip safe where ts: "ts = (tip, safe)" by fastforce
    have h: "hrefresh V rid s = (Inr (tip, safe), u)" using p Inr ts by (simp add: hrefresh_Inr)
    obtain q w where q: "hstore V (touch_filter rid fid) u = (q, w)" by fastforce
    have tk: "(\<forall>e. q = Inl e \<longrightarrow> kind_of w fid = None) \<and> (\<forall>kind. q = Inr kind \<longrightarrow> kind_of u fid = Some kind \<and> kind_of w fid = Some kind)"
      using touch_kind [OF q] k(3) su by simp
    have ku: "kind_of u fid = kind_of s fid" using su by (simp add: kind_of_def)
    show ?thesis
    proof (cases q)
      case (Inl e)
      then have "r = Inl e" "t = w"
        using g fid h q by (simp_all add: get_filter_changes_def hbind_def then_step_def hopt_def)
      then show ?thesis using tk Inl by simp
    next
      case (Inr kind)
      then have kw: "kind = Logs m low to_block cursor" "kind_of w fid = Some (Logs m low to_block cursor)" using tk ku k(1) by simp_all
      have "log_changes V rid fid m to_block cursor (sh_number safe) w = (r, t)"
        using g fid h q Inr kw(1) by (simp add: get_filter_changes_def hbind_def then_step_def hopt_def)
      from this kw(2) k(2) show ?thesis
      proof (cases rule: log_changes_cases)
        case (failed e)
        then show ?thesis using kw(2) k(1) by simp
      next
        case idle
        then have "poll_outcome V s t fid m low to_block cursor []"
          using kw(2) p \<open>p = Inr ts\<close> ts by (simp add: poll_outcome_def poll_limit_def)
        then show ?thesis using idle(1) by auto
      next
        case (moved out e u' v)
        have "span_logs V v m cursor e out"
          by (rule logs_for_span_Inr [OF moved(2,3) inv(1)]) (use inv moved(4) in simp_all)
        then have "span_logs V t m cursor e out" using moved(4) by (simp add: span_logs_def)
        then have "poll_outcome V s t fid m low to_block cursor out" using moved(3,5) unfolding poll_outcome_def by blast
        then show ?thesis using moved(1) by auto
      qed
    qed
  qed
qed

lemma handle_cases:
  assumes "handle V req s = (resp, t)" "json_get ''method'' req = Some (JString m)"
  shows "t = s \<and> json_get ''result'' resp = None \<or> respond (call_method V (rid_of req) req m) s = (resp, t)"
proof -
  have n: "json_get ''result'' (invalid_request rid) = None" for rid by (simp add: invalid_request_def)
  show ?thesis
    using assms n by (auto simp: handle_def Let_def respond_def hbind_def then_step_def hcheck_def hopt_def split: if_splits)
qed

text \<open>
  C14. A log filter polls without gaps. Whatever the upstream serves, an answer of \<open>eth_getFilterChanges\<close> for a
  log filter at \<open>cursor\<close> is either empty, because the filter's range ends below its cursor, which then stays; or it
  is the complete list of matching logs of one verified block for every number from \<open>cursor\<close> to some
  \<open>last'\<close>, and the cursor becomes the number after \<open>last'\<close>. A request that fails leaves the
  cursor where it was, or finds the filter expired.
\<close>

theorem filter_poll_gapless:
  assumes mt: "json_get ''method'' req = Some (JString ''eth_getFilterChanges'')" "parse_filter_id req = Some fid"
    and h: "handle V req s = (resp, t)"
    and k: "kind_of s fid = Some (Logs m low to_block cursor)" "is_u64 cursor" "distinct (map fst (fs_map (sv_filters s)))"
    and inv: "hex_ok (re_ext V)" "node_inv (re_ext V) (sv_node t)" "length (nd_chain (sv_node t)) \<le> u64_max" "named_head (sv_node t)"
  shows "case json_get ''result'' resp of
      None \<Rightarrow> kind_of t fid = None \<or> kind_of t fid = Some (Logs m low to_block cursor)
    | Some x \<Rightarrow> \<exists>out. x = JArray out \<and> poll_outcome V s t fid m low to_block cursor out"
proof -
  let ?rid = "rid_of req"
  have arm: "call_method V ?rid req ''eth_getFilterChanges'' = get_filter_changes V ?rid req"
    by (simp add: call_method_def method_arms_def)
  obtain r u where g: "get_filter_changes V ?rid req s = (r, u)" by fastforce
  have e: "r = Inl v \<Longrightarrow> json_get ''result'' v = None" for v using errs_logs(2) [of V ?rid req] g by (auto simp: errs_def)
  show ?thesis
  proof (cases "t = s \<and> json_get ''result'' resp = None")
    case True
    then show ?thesis using k(1) by simp
  next
    case False
    then have "respond (get_filter_changes V ?rid req) s = (resp, t)" using handle_cases [OF h mt(1)] arm by auto
    then have r: "t = u" "resp = (case r of Inl v \<Rightarrow> v | Inr v \<Rightarrow> v)" using g by (auto simp: respond_def split: sum.splits)
    show ?thesis
      using filter_changes_outcome [OF g mt(2) k inv(1)] inv(2-4) r e k(1) by (auto split: sum.splits option.splits)
  qed
qed

text \<open>
  A block filter has no such guarantee: a poll answers the hashes of the blocks it finds in the kept chain
  and moves its cursor to the end of the span even if the chain no longer reaches back that far.
\<close>

lemma block_poll_skips:
  assumes "a \<le> head" "\<forall>b \<in> set (nd_chain (sv_node s)). min head (sat_add a 127) < vb_number b" "kind_of s fid = Some (Blocks a)"
  shows "\<exists>t. block_changes X rid fid a head s = (Inr (rpc_ok rid (JArray [])), t) \<and>
    kind_of t fid = Some (Blocks (sat_add (min head (sat_add a 127)) 1))"
proof -
  let ?to = "min head (sat_add a 127)"
  obtain f where f: "map_of (fs_map (sv_filters s)) fid = Some f" "sf_kind f = Blocks a" using assms(3) by (auto simp: kind_of_def)
  have "filter (\<lambda>b. a \<le> vb_number b \<and> vb_number b \<le> ?to) (nd_chain (sv_node s)) = []"
    using assms(2) by (auto simp: filter_empty_conv)
  then have "block_changes X rid fid a head s =
      (Inr (rpc_ok rid (JArray [])), s\<lparr>sv_filters := move_cursor False fid (sat_add ?to 1) (sv_filters s)\<rparr>)"
    using assms(1) by (simp add: block_changes_def hbind_def then_step_def hmove_def MAX_GET_LOGS_RANGE_def Let_def)
  then show ?thesis using f by (simp add: kind_of_def move_cursor_def set_cursor_def update_conv)
qed

section \<open>A sample block with a log\<close>

text \<open>One digest for everything: enough for the hypotheses about Keccak that the theorems need here.\<close>

definition oneX :: "(bytes, bytes) ext" where
  "oneX = refX\<lparr>keccak := (\<lambda>b. zeros 32)\<rparr>"

lemma oneX_simps [simp]:
  "keccak oneX = (\<lambda>b. zeros 32)" "hex_decode oneX = ref_hex_decode" "hex_encode oneX = ref_hex_encode"
  by (simp_all add: oneX_def)

lemma oneX_ok: "hex_ok oneX" "keccak_ok oneX"
  using hex_ok_refX by (simp_all add: hex_ok_def keccak_ok_def)

lemma oneX_fixed: "length b = n \<Longrightarrow> decode_hex_fixed oneX n (hex0x refX b) = Inr b"
  using decode_hex_fixed_hex0x [OF oneX_ok(1), of b n] by (simp add: hex0x_def)

lemma oneX_hex: "decode_hex oneX (hex0x refX b) = Inr b"
  using decode_hex_hex0x [OF oneX_ok(1), of b] by (simp add: hex0x_def)

definition log_header :: rpc_block_header where
  "log_header = sample_body ''0x2'' (zeros 32)"

definition log_block :: verified_block where
  "log_block = \<lparr>vb_number = 2, vb_hash = zeros 32, vb_state_root = zeros 32, vb_miner = zeros 20, vb_milli_timestamp = 0,
     vb_gas_limit = 0, vb_header = Some log_header\<rparr>"

lemma log_header_matches: "header_matches_local oneX log_header log_block = Inr ()"
proof -
  have "header_hash oneX log_header = Inr (zeros 32)"
    by (simp add: header_hash_def header_encoding_def header_items_def push_if_def log_header_def sample_body_def s_defs oneX_fixed
        oneX_hex Let_def)
  then show ?thesis
    by (simp add: header_matches_local_def map_err_def) (simp add: log_header_def sample_body_def log_block_def oneX_fixed)
qed

definition log_receipt_json :: json where
  "log_receipt_json = JObject
     [(''status'', JString ''0x1''), (''cumulativeGasUsed'', JString (qty 21000)), (''logsBloom'', JString (hex0x refX (zeros 256))),
      (''type'', JString ''0x2''),
      (''logs'', JArray [JObject [(''address'', JString (hex0x refX (zeros 20))), (''topics'', JArray [JString (hex0x refX (zeros 32))]),
                                  (''data'', JString (hex0x refX [1, 2]))]])]"

lemma log_receipt_parses:
  "parse_consensus_receipt_json oneX log_receipt_json = Inr \<lparr>pr_consensus = sample_receipt, pr_tx_hash = None\<rparr>"
proof -
  have q: "decode_u64 (qty 21000) = Inr 21000" by (rule decode_u64_qty) (simp add: is_u64_def u64_max_def)
  show ?thesis
    by (simp add: parse_consensus_receipt_json_def log_receipt_json_def status_field_def need_str_def q type_field_def logs_field_def
        tx_hash_field_def oneX_fixed oneX_hex parse_consensus_log_json_def topics_field_def data_field_def topic_bytes_def
        MAX_RECEIPT_LOGS_def MAX_LOG_TOPICS_def MAX_LOG_DATA_def map_err_def map_ok_def sample_receipt_def ok_or_def)
qed

lemma log_receipt_root: "\<exists>b. encode_consensus_receipt sample_receipt = Inr b \<and> verify_receipt_list oneX [b] (zeros 32) = Inr ()"
proof -
  obtain b where b: "encode_consensus_receipt sample_receipt = Inr b" using sample_receipt_encodes by blast
  have "list_ok [b]" using receipt_vec [OF sample_receipt_typed b] by (simp add: list_ok_def MAX_ORDERED_TRIE_ITEMS_def)
  moreover from this obtain e where "encode_node oneX (trie_pairs [b]) 0 = Some e" using root_node [OF oneX_ok(2)] by metis
  ultimately have "ordered_trie_root oneX [b] = Some (zeros 32)" by (simp add: ordered_trie_root_eq)
  then show ?thesis using b by (simp add: verify_receipt_list_def MAX_ORDERED_TRIE_ITEMS_def)
qed

definition log_env :: "(bytes, bytes, bytes) rpc_env" where
  "log_env = (sample_env oneX JNull)\<lparr>re_data := (\<lambda>t. sample_data\<lparr>du_block_receipts_json := (\<lambda>h. Inr [log_receipt_json])\<rparr>)\<rparr>"

definition log_json :: json where
  "log_json = rpc_log_json oneX (hd (rc_logs sample_receipt)) (log_header\<lparr>h_hash := hex0x oneX (zeros 32)\<rparr>) None 0 0"

lemma log_block_receipts:
  "\<exists>item t. bound_block_receipts log_env log_block s = (Inr (log_header\<lparr>h_hash := hex0x oneX (zeros 32)\<rparr>, ReceiptList [item]), t) \<and>
     br_logs item = rc_logs sample_receipt \<and> br_tx_hash item = None"
proof -
  let ?h = "log_header\<lparr>h_hash := hex0x oneX (zeros 32)\<rparr>"
  have x: "re_ext log_env = oneX" "re_data log_env = (\<lambda>t. sample_data\<lparr>du_block_receipts_json := (\<lambda>h. Inr [log_receipt_json])\<rparr>)"
    by (simp_all add: log_env_def sample_env_def)
  have l: "load_verified_header log_env log_block s = (Inr ?h, s)"
    using log_header_matches by (simp add: load_verified_header_def x) (simp add: log_block_def map_ok_def)
  have "hd (zeros 32) \<noteq> hd EMPTY_TRIE_ROOT" by (simp add: EMPTY_TRIE_ROOT_def zeros_def)
  then have z: "zeros 32 \<noteq> EMPTY_TRIE_ROOT" by auto
  have roots: "receipts_root_of oneX ?h = Inr (zeros 32)" "tx_root_of oneX ?h = Inr (zeros 32)"
    by (simp_all add: receipts_root_of_def tx_root_of_def log_header_def sample_body_def oneX_fixed map_err_def)
  obtain b where b: "encode_consensus_receipt sample_receipt = Inr b" "verify_receipt_list oneX [b] (zeros 32) = Inr ()"
    using log_receipt_root by blast
  have c: "\<exists>item. check_receipts oneX ?h (zeros 32) [log_receipt_json] = Inr [item] \<and>
      br_logs item = rc_logs sample_receipt \<and> br_tx_hash item = None"
    by (simp add: check_receipts_def log_receipt_parses b map_err_def map_ok_def Let_def MAX_ORDERED_TRIE_ITEMS_def)
  then show ?thesis
    using z roots
    by (auto simp: bound_block_receipts_def l then_step_def bind_receipts_def x bind_tx_envelopes_def upstream_res_def map_err_def map_ok_def
        sample_data_def)
qed

lemma log_collected: "\<exists>t. collect_logs log_env [log_block] [] [] [] s = (Inr [log_json], t)"
proof -
  obtain item t where b: "bound_block_receipts log_env log_block s = (Inr (log_header\<lparr>h_hash := hex0x oneX (zeros 32)\<rparr>, ReceiptList [item]), t)"
    "br_logs item = rc_logs sample_receipt" "br_tx_hash item = None" using log_block_receipts by blast
  have e: "re_ext log_env = oneX" by (simp add: log_env_def sample_env_def)
  show ?thesis
    by (simp add: collect_logs.simps LOG_FETCH_PARALLEL_def b e logs_of_block_def sample_receipt_def log_matches_def MAX_GET_LOGS_def
        MAX_RECEIPT_LOGS_def) (simp add: log_json_def sample_receipt_def)
qed

definition log_head :: safe_head where
  "log_head = \<lparr>sh_number = 2, sh_hash = hex0x oneX (zeros 32), sh_state_root = hex0x oneX (zeros 32),
     sh_distinct_sealers = 15, sh_required_sealers = 15\<rparr>"

text \<open>A server at block 2 with a log filter whose cursor is there.\<close>

definition log_server :: server where
  "log_server = (server_start ((from_parts 112 [log_block])\<lparr>nd_finality := finality_view_default\<lparr>fv_head := 2,
     fv_read_head := Some log_head, fv_synced_at := Some 0\<rparr>\<rparr>))\<lparr>sv_filters :=
       \<lparr>fs_next_id = 1, fs_map = [(1, \<lparr>sf_kind = Logs [] 2 None 2, sf_touched = 0\<rparr>)]\<rparr>\<rparr>"

lemma log_env_simps [simp]:
  "re_ext log_env = oneX" "re_now log_env = (\<lambda>t. 0)" "re_sync log_env = (\<lambda>t i. idle_upstream)"
  by (simp_all add: log_env_def sample_env_def)

lemma log_refresh:
  assumes "sv_node s = sv_node log_server"
  shows "server_refresh log_env s = (Inr (2, log_head), s\<lparr>sv_tick := sv_tick s + 1\<rparr>)"
proof -
  have "refresh oneX (\<lambda>i. idle_upstream) 0 (sv_node log_server) = (Inr (2, log_head), None, sv_node log_server)"
    by (simp add: refresh_def published_if_fresh_def log_server_def server_start_def mainnet_current_fork_def fermi_family_def
        FERMI_BLOCK_INTERVAL_MS_def)
  then show ?thesis using assms by (simp add: server_refresh_def)
qed

lemma log_chain: "sv_node s = sv_node log_server \<Longrightarrow> nd_chain (sv_node s) = [log_block]"
  by (simp add: log_server_def server_start_def from_parts_def)

lemma log_node: "sv_node s = sv_node log_server \<Longrightarrow> node_inv oneX (sv_node s)" "named_head (sv_node log_server)"
  by (simp_all add: node_inv_def sync_inv_def named_head_def log_server_def server_start_def from_parts_def log_head_def hex0x_def)
     (use oneX_ok(1) in \<open>simp add: hex_ok_def\<close>)

lemma log_range: "blocks_of_range rid 2 2 log_head [log_block] = Inr [log_block]"
  by (simp add: blocks_of_range_def MAX_GET_LOGS_RANGE_def log_head_def log_block_def wrap64_def u64_max_def)

definition logs_request :: json where
  "logs_request = sample_request ''eth_getLogs'' [JObject []]"

lemma logs_answer:
  "\<exists>t. handle log_env logs_request log_server = (rpc_ok (JNumber (PosInt 1)) (JArray [log_json]), t) \<and> sv_node t = sv_node log_server"
proof -
  let ?rid = "JNumber (PosInt 1)" and ?s = "log_server\<lparr>sv_tick := sv_tick log_server + 1\<rparr>"
  have h: "handle log_env logs_request log_server = respond (get_logs log_env ?rid logs_request) log_server"
    unfolding logs_request_def
    by (subst handle_sample) (simp_all add: MAX_RPC_METHOD_def MAX_RPC_PARAMS_def is_ascii_graphic_def call_method_def method_arms_def)
  have f: "logs_filter ?rid logs_request = Inr (Some [])" by (simp add: logs_filter_def logs_request_def req_params_def nth_opt_def)
  have n: "log_block_number oneX rid None log_head = Inr 2" for rid
    by (simp add: log_block_number_def log_filter_block_number_def safe_tag_def ok_or_def log_head_def)
  have b: "resolve_get_logs_blocks log_env ?rid (Some []) log_server = (Inr [log_block], ?s)"
    using log_range log_chain [of ?s]
    by (simp add: resolve_get_logs_blocks_def filter_get_def hbind_def then_step_def hrefresh_def log_refresh n map_err_def)
  obtain t where t: "collect_logs log_env [log_block] [] [] [] ?s = (Inr [log_json], t)" using log_collected by blast
  have "get_logs log_env ?rid logs_request log_server = (Inr (rpc_ok ?rid (JArray [log_json])), t)"
    by (simp add: get_logs_def hbind_def then_step_def f b parse_log_addresses_def parse_log_topics_def filter_get_def map_err_def t
        del: One_nat_def)
  then show ?thesis using h collect_keeps_node [OF t] by (simp add: respond_def)
qed

theorem get_logs_complete_witness:
  "\<exists>blocks. selects oneX log_head [log_block] (Some []) blocks \<and> complete_logs oneX blocks [] [] [log_json]"
proof -
  obtain t where t: "handle log_env logs_request log_server = (rpc_ok (JNumber (PosInt 1)) (JArray [log_json]), t)"
    "sv_node t = sv_node log_server" using logs_answer by blast
  have m: "json_get ''method'' logs_request = Some (JString ''eth_getLogs'')" "logs_filter (rid_of logs_request) logs_request = Inr (Some [])"
    by (simp_all add: logs_request_def logs_filter_def req_params_def nth_opt_def)
  have p: "parse_log_addresses oneX (Some []) = Inr []" "parse_log_topics oneX (Some []) = Inr []"
    by (simp_all add: parse_log_addresses_def parse_log_topics_def filter_get_def)
  show ?thesis
    using get_logs_complete [OF m(1) t(1), of "JArray [log_json]"] log_node(1) [OF t(2)] log_chain [OF t(2)] m(2) p
      log_chain [OF refl] by (auto simp: log_refresh u64_max_def)
qed

definition poll_request :: json where
  "poll_request = sample_request ''eth_getFilterChanges'' [JString ''0x1'']"

lemma poll_answer:
  "\<exists>t. handle log_env poll_request log_server = (rpc_ok (JNumber (PosInt 1)) (JArray [log_json]), t) \<and> sv_node t = sv_node log_server"
proof -
  let ?rid = "JNumber (PosInt 1)" and ?s = "log_server\<lparr>sv_tick := 1\<rparr>"
  have tk: "sv_tick log_server = 0" by (simp add: log_server_def server_start_def)
  have h: "handle log_env poll_request log_server = respond (get_filter_changes log_env ?rid poll_request) log_server"
    unfolding poll_request_def
    by (subst handle_sample) (simp_all add: MAX_RPC_METHOD_def MAX_RPC_PARAMS_def is_ascii_graphic_def call_method_def method_arms_def)
  have fid: "parse_filter_id poll_request = Some 1"
  proof -
    have "parse_hex_u64 ''0x1'' = Some 1" using parse_hex_qty [of 1] by (simp add: qty_def show_hex.simps is_u64_def u64_max_def)
    then show ?thesis by (simp add: parse_filter_id_def poll_request_def first_str_def req_params_def nth_opt_def)
  qed
  define u where "u = ?s\<lparr>sv_filters := \<lparr>fs_next_id = 1, fs_map = [(1, \<lparr>sf_kind = Logs [] 2 None 2, sf_touched = 0\<rparr>)]\<rparr>, sv_tick := 2\<rparr>"
  have un: "sv_node u = sv_node log_server" and ut: "sv_tick u = 2" by (simp_all add: u_def)
  have touch: "hstore log_env (touch_filter ?rid 1) ?s = (Inr (Logs [] 2 None 2), u)"
    by (simp add: hstore_def touch_filter_def sweep_def log_server_def server_start_def FILTER_TTL_def u_def)
  let ?f = "Some [(''fromBlock'', JString (qty 2)), (''toBlock'', JString (qty 2))]"
  have tag: "wallet_block_tag_str (Some (JString (qty 2))) = Inr (Some (qty 2))" by simp
  have q2: "qty 2 = ''0x2''" by (simp add: qty_def show_hex.simps)
  have hl: "length (sh_hash log_head) = 66" using log_node(2) by (simp add: named_head_def log_server_def server_start_def)
  have n: "log_block_number oneX JNull (Some ''0x2'') log_head = Inr 2"
  proof -
    have "\<not> eq_ignore_ascii_case ''0x2'' (sh_hash log_head)"
      using hl by (auto simp: eq_ignore_ascii_case_def dest: arg_cong [of _ _ length])
    moreover have "\<not> is_ok (decode_hex_fixed oneX 32 ''0x2'')" by (simp add: decode_hex_fixed_def decode_hex_def is_ok_def)
    ultimately show ?thesis
      by (simp add: log_block_number_def log_filter_block_number_def safe_tag_def refused_tag_def has_0x_def ok_or_def)
  qed
  have nn: "\<not> is_nullish_json (Some (JString ''0x2''))" using qty_not_nullish [of 2] by (simp only: q2 not_False_eq_True)
  have b: "resolve_get_logs_blocks log_env JNull ?f u = (Inr [log_block], u\<lparr>sv_tick := 3\<rparr>)"
    using log_range [of JNull] log_chain [OF un] un
    by (simp add: resolve_get_logs_blocks_def filter_get_def q2 hbind_def then_step_def hrefresh_def log_refresh [OF un] n map_err_def ut)
  obtain t where t: "collect_logs log_env [log_block] [] [] [] (u\<lparr>sv_tick := 3\<rparr>) = (Inr [log_json], t)" using log_collected by blast
  have span: "logs_for_span log_env [] 2 2 u = (Inr [log_json], t)"
    using b t by (simp add: logs_for_span_def sat_add_def sat_sub_def MAX_GET_LOGS_RANGE_def u64_max_def then_step_def parse_log_addresses_def
        parse_log_topics_def filter_get_def map_err_def)
  let ?fin = "t\<lparr>sv_filters := move_cursor True 1 3 (sv_filters t)\<rparr>"
  have hn: "sh_number log_head = 2" by (simp add: log_head_def)
  have "poll_span log_env ?rid [] 2 2 u = (Inr ([log_json], 2), t)" by (simp add: poll_span.simps span)
  then have lc: "log_changes log_env ?rid 1 [] None 2 2 u = (Inr (rpc_ok ?rid (JArray [log_json])), ?fin)"
    by (simp add: log_changes_def hbind_def then_step_def hmove_def sat_add_def MAX_GET_LOGS_RANGE_def u64_max_def del: One_nat_def)
  have "get_filter_changes log_env ?rid poll_request log_server = (Inr (rpc_ok ?rid (JArray [log_json])), ?fin)"
    using touch lc by (simp add: get_filter_changes_def fid hopt_def hbind_def then_step_def hrefresh_def log_refresh tk hn del: One_nat_def)
  then show ?thesis using h collect_keeps_node [OF t] un by (simp add: respond_def)
qed

theorem filter_poll_gapless_witness:
  "poll_outcome log_env log_server (snd (handle log_env poll_request log_server)) 1 [] 2 None 2 [log_json]"
proof -
  obtain t where t: "handle log_env poll_request log_server = (rpc_ok (JNumber (PosInt 1)) (JArray [log_json]), t)"
    "sv_node t = sv_node log_server" using poll_answer by blast
  have fid: "parse_filter_id poll_request = Some 1"
    using parse_hex_qty [of 1]
    by (simp add: qty_def show_hex.simps is_u64_def u64_max_def parse_filter_id_def poll_request_def first_str_def req_params_def nth_opt_def)
  have m: "json_get ''method'' poll_request = Some (JString ''eth_getFilterChanges'')" by (simp add: poll_request_def)
  have k: "kind_of log_server 1 = Some (Logs [] 2 None 2)" "is_u64 (2 :: nat)" "distinct (map fst (fs_map (sv_filters log_server)))"
    by (simp_all add: kind_of_def log_server_def is_u64_def u64_max_def)
  have inv: "hex_ok (re_ext log_env)" "node_inv (re_ext log_env) (sv_node t)" "length (nd_chain (sv_node t)) \<le> u64_max" "named_head (sv_node t)"
    using oneX_ok(1) log_node(1) [OF refl] log_node(2) t(2) log_chain [OF t(2)] by (simp_all add: u64_max_def)
  show ?thesis using filter_poll_gapless [OF m fid t(1) k inv] t(1) by simp
qed

end
