(* ===== verification/Rpc_Http.thy ===== *)
theory Rpc_Http
  imports Rpc_Server
begin

text \<open>
  The HTTP surface (\<open>rpc_server/http.rs\<close>, \<open>bind.rs\<close>): which hosts, methods, media types and body
  sizes are refused before a request is dispatched, the listen policy, the metrics page and the
  start-up probe of the upstream. Sockets and threads are left out: a request is what the
  listener hands to a worker.
\<close>

section \<open>Strings\<close>

text \<open>\<open>split(c).next()\<close>, \<open>rsplit_once(c)\<close> and \<open>split(c)\<close>.\<close>

definition split_first :: "char \<Rightarrow> string \<Rightarrow> string" where
  "split_first c s = takeWhile (\<lambda>x. x \<noteq> c) s"

definition rsplit_before :: "char \<Rightarrow> string \<Rightarrow> string option" where
  "rsplit_before c s = (if c \<in> set s then Some (rev (tl (dropWhile (\<lambda>x. x \<noteq> c) (rev s)))) else None)"

fun split_on :: "char \<Rightarrow> string \<Rightarrow> string list" where
  "split_on c [] = [[]]"
| "split_on c (x # xs) =
     (if x = c then [] # split_on c xs
      else (case split_on c xs of [] \<Rightarrow> [[x]] | w # ws \<Rightarrow> (x # w) # ws))"

definition trim_brackets :: "string \<Rightarrow> string" where
  "trim_brackets s =
     (let strip = dropWhile (\<lambda>c. c = CHR ''['' \<or> c = CHR '']'') in rev (strip (rev (strip s))))"

text \<open>\<open>str::parse::<u8>\<close>: an optional sign, decimal digits, no overflow.\<close>

definition digit10 :: "char \<Rightarrow> nat option" where
  "digit10 c = (let n = of_char c in if 48 \<le> n \<and> n \<le> 57 then Some (n - 48) else None)"

fun radix10_u8 :: "nat \<Rightarrow> string \<Rightarrow> nat option" where
  "radix10_u8 acc [] = Some acc"
| "radix10_u8 acc (c # cs) =
     (case digit10 c of
        None \<Rightarrow> None
      | Some d \<Rightarrow> if 255 < acc * 10 + d then None else radix10_u8 (acc * 10 + d) cs)"

definition parse_u8 :: "string \<Rightarrow> nat option" where
  "parse_u8 s =
     (if s = [] \<or> s = ''+'' \<or> s = ''-'' then None
      else if hd s = CHR ''+'' then radix10_u8 0 (tl s)
      else radix10_u8 0 s)"

section \<open>Listen policy\<close>

definition listen_host :: "string \<Rightarrow> string" where
  "listen_host listen =
     (let s = string_trim listen in
      if s \<noteq> [] \<and> hd s = CHR ''['' then split_first (CHR '']'') (tl s)
      else (case rsplit_before (CHR '':'') s of Some h \<Rightarrow> h | None \<Rightarrow> s))"

definition host_name :: "string \<Rightarrow> string" where
  "host_name listen = string_trim (trim_brackets (listen_host listen))"

definition listen_is_loopback :: "string \<Rightarrow> bool" where
  "listen_is_loopback listen =
     (let h = host_name listen in
      eq_ignore_ascii_case h ''127.0.0.1'' \<or> eq_ignore_ascii_case h ''localhost'' \<or> h = ''::1'' \<or>
      eq_ignore_ascii_case h ''ip6-localhost'')"

definition http_host_is_loopback :: "string \<Rightarrow> bool" where
  "http_host_is_loopback host =
     (if listen_is_loopback host then True
      else
        (case split_on (CHR ''.'') (host_name (string_trim host)) of
           p # rest \<Rightarrow> p = ''127'' \<and> length rest = 3 \<and> list_all (\<lambda>q. parse_u8 q \<noteq> None) rest
         | [] \<Rightarrow> False))"

definition rpc_http_host_reject :: "string option \<Rightarrow> bool \<Rightarrow> nat option" where
  "rpc_http_host_reject host loopback_only =
     (if \<not> loopback_only then None
      else
        (case host of
           Some h \<Rightarrow> if http_host_is_loopback h then None else Some 403
         | None \<Rightarrow> Some 403))"

text \<open>The warning printed for a permitted open bind is left out.\<close>

definition assert_listen_policy :: "string \<Rightarrow> bool \<Rightarrow> (err, unit) result" where
  "assert_listen_policy listen allow_non_loopback =
     (if listen_is_loopback listen \<or> allow_non_loopback then Inr ()
      else Inl [''refusing non-loopback bind '' @ listen @ ''; pass --allow-non-loopback (no built-in auth)''])"

section \<open>Requests before dispatch\<close>

definition MAX_RPC_BODY :: nat where "MAX_RPC_BODY = 1024 * 1024"

definition rpc_http_reject :: "bool \<Rightarrow> nat \<Rightarrow> nat option" where
  "rpc_http_reject is_post body_len =
     (if \<not> is_post then Some 405 else if MAX_RPC_BODY < body_len then Some 413 else None)"

definition rpc_http_content_type_reject :: "string option \<Rightarrow> nat option" where
  "rpc_http_content_type_reject content_type =
     (case content_type of
        None \<Rightarrow> None
      | Some t \<Rightarrow>
          let raw = string_trim t in
          if raw = [] then None
          else
            let m = map ascii_lower (string_trim (split_first (CHR '';'') raw)) in
            if m = ''application/json'' \<or> m = ''application/json-rpc'' \<or> m = ''application/jsonrequest''
            then None else Some 415)"

section \<open>Metrics\<close>

definition nl :: string where "nl = [char_of (10 :: nat)]"

definition known :: "nat \<Rightarrow> nat option" where
  "known n = (if n \<noteq> NO_BLOCK then Some n else None)"

definition metric :: "string \<Rightarrow> string \<Rightarrow> string \<Rightarrow> string \<Rightarrow> string" where
  "metric kind name help v =
     ''# HELP '' @ name @ '' '' @ help @ nl @ ''# TYPE '' @ name @ '' '' @ kind @ nl @ name @ '' '' @ v @ nl"

definition show_or :: "string \<Rightarrow> nat option \<Rightarrow> string" where
  "show_or d v = (case v of None \<Rightarrow> d | Some n \<Rightarrow> show_nat n)"

definition show_bit :: "bool \<Rightarrow> string" where
  "show_bit b = (if b then ''1'' else ''0'')"

definition lag_between :: "nat option \<Rightarrow> nat option \<Rightarrow> nat option" where
  "lag_between a b = Option.bind a (\<lambda>t. map_option (proof_lag t) b)"

definition metrics_text :: "nat \<Rightarrow> node \<Rightarrow> string" where
  "metrics_text now_secs nd =
     (let tip = known (nd_last_tip nd); safe = known (nd_last_safe nd);
          justified = known (nd_last_justified nd); finalized = known (nd_last_finalized nd);
          interval_ms = fp_block_interval_ms mainnet_current_fork;
          lag = lag_between tip safe; finalized_lag = lag_between tip finalized;
          checkpoint_age = map_option (\<lambda>cp. checkpoint_age_secs (cp_timestamp cp) now_secs) (nd_origin nd)
      in
        metric ''counter'' ''helios_bsc_headers_verified_total''
          ''Headers whose seal and parent link verified since process start.'' (show_nat (nd_headers_verified nd)) @
        metric ''counter'' ''helios_bsc_header_verify_fail_total''
          ''Sync attempts rejected after the tip was fetched (seal, parent link, or no Safe).''
          (show_nat (nd_header_verify_fail nd)) @
        metric ''counter'' ''helios_bsc_proof_success_total''
          ''Merkle proofs that verified against a Safe stateRoot.'' (show_nat (nd_proof_ok nd)) @
        metric ''counter'' ''helios_bsc_proof_fail_total''
          ''Merkle proofs rejected (root mismatch or malformed trie node).'' (show_nat (nd_proof_fail nd)) @
        metric ''counter'' ''helios_bsc_upstream_errors_total''
          ''Upstream transport failures fetching the tip (not a verification failure).'' (show_nat (nd_upstream_errors nd)) @
        metric ''counter'' ''helios_bsc_request_panics_total''
          ''Requests whose handling panicked and was answered -32603. Alert on any increase.'' (show_nat (nd_panics nd)) @
        metric ''gauge'' ''helios_bsc_tip_block''
          ''Highest locally verified block number (-1 before the first sync).'' (show_or ''-1'' tip) @
        metric ''gauge'' ''helios_bsc_safe_block''
          ''Confirmation-depth Safe head (-1 when no Safe head exists yet).'' (show_or ''-1'' safe) @
        metric ''gauge'' ''helios_bsc_safe_lag_blocks''
          ''Tip minus Safe, in blocks (-1 when no Safe head exists yet).'' (show_or ''-1'' lag) @
        metric ''gauge'' ''helios_bsc_safe_lag_seconds''
          ''Tip minus Safe, in seconds (-1 when no Safe head exists yet).''
          (show_or ''-1'' (map_option (\<lambda>l. safe_lag_seconds l interval_ms) lag)) @
        metric ''gauge'' ''helios_bsc_safe_lag_within_bound''
          ''1 when Safe lag is inside the documented SLO bound, else 0.''
          (case lag of None \<Rightarrow> ''0'' | Some l \<Rightarrow> show_bit (safe_lag_within_slo l)) @
        metric ''gauge'' ''helios_bsc_checkpoint_age_seconds''
          ''Age of the origin checkpoint (-1 when running without one).'' (show_or ''-1'' checkpoint_age) @
        metric ''gauge'' ''helios_bsc_finalized_block''
          (''Fast-finality finalized head: the newest attestation'' @ [char_of (39 :: nat)] @
           ''s source (-1 when no attestation has been seen).'') (show_or ''-1'' finalized) @
        metric ''gauge'' ''helios_bsc_finalized_lag_blocks''
          ''Tip minus the fast-finality finalized head, in blocks (-1 when no attestation has been seen).''
          (show_or ''-1'' finalized_lag) @
        metric ''gauge'' ''helios_bsc_justified_block''
          (''Fast-finality justified head: the newest attestation'' @ [char_of (39 :: nat)] @
           ''s target (-1 when no attestation has been seen).'') (show_or ''-1'' justified) @
        metric ''gauge'' ''helios_bsc_finality_mode''
          ''0 = confirmation-depth, 1 = fast finality (BLS attestation, finalized head known).''
          (show_bit (finalized \<noteq> None)) @
        metric ''gauge'' ''helios_bsc_sealing_set_enforced''
          ''1 when a checkpoint supplies the sealing set, else 0 (lookback-only).'' (show_bit (nd_origin_checkpoint nd \<noteq> None)) @
        metric ''gauge'' ''helios_bsc_unverified_passthrough_enabled''
          ''1 when --allow-unverified-passthrough is on, else 0.'' (show_bit (nd_allow_unverified_passthrough nd)))"

section \<open>Serving one request\<close>

datatype http_method = Get | Post | OtherMethod

text \<open>The body is what the socket delivers; a read error ends it.\<close>

record http_request =
  hq_method :: http_method
  hq_url :: string
  hq_host :: "string option"
  hq_content_type :: "string option"
  hq_body :: bytes

datatype http_body = Text string | JsonBody json

record http_response =
  hp_status :: nat
  hp_content_type :: "string option"
  hp_body :: http_body

definition plain :: "nat \<Rightarrow> string \<Rightarrow> http_response" where
  "plain code t = \<lparr>hp_status = code, hp_content_type = None, hp_body = Text t\<rparr>"

definition serve_one ::
    "('pk, 'sg, 'bc) rpc_env \<Rightarrow> bool \<Rightarrow> http_request \<Rightarrow> server \<Rightarrow> http_response \<times> server" where
  "serve_one V loopback_only rq s =
     (case rpc_http_host_reject (hq_host rq) loopback_only of
        Some code \<Rightarrow> (plain code ''forbidden host'', s)
      | None \<Rightarrow>
          if hq_method rq = Get \<and> nd_metrics_enabled (sv_node s) \<and> split_first (CHR ''?'') (hq_url rq) = ''/metrics''
          then (\<lparr>hp_status = 200, hp_content_type = Some ''text/plain; version=0.0.4; charset=utf-8'',
                 hp_body = Text (metrics_text (re_now V (sv_tick s) div 1000) (sv_node s))\<rparr>, s\<lparr>sv_tick := sv_tick s + 1\<rparr>)
          else if rpc_http_reject (hq_method rq = Post) 0 = Some 405 then (plain 405 ''POST only'', s)
          else
            (case rpc_http_content_type_reject (hq_content_type rq) of
               Some code \<Rightarrow> (plain code ''unsupported media type'', s)
             | None \<Rightarrow>
                 let buf = take (MAX_RPC_BODY + 1) (hq_body rq) in
                 (case rpc_http_reject True (length buf) of
                    Some code \<Rightarrow> (plain code ''payload too large'', s)
                  | None \<Rightarrow>
                      (case dispatch_bytes V buf s of
                         (out, s') \<Rightarrow>
                           if is_null out then (plain 204 [], s')
                           else (\<lparr>hp_status = 200, hp_content_type = Some ''application/json'', hp_body = JsonBody out\<rparr>, s')))))"

section \<open>The start-up probe\<close>

text \<open>The two texts are those of \<open>tag_only_upstream_warning\<close> and \<open>proof_refused_warning\<close>, reduced to what they carry.\<close>

datatype proof_warning = TagOnlyUpstream string string | ProofRefused string string

definition zero_address :: string where
  "zero_address = ''0x0000000000000000000000000000000000000000''"

definition proof_capability_warning ::
    "('pk, 'sg, 'bc) rpc_env \<Rightarrow> server \<Rightarrow> proof_warning option \<times> server" where
  "proof_capability_warning V s =
     (let (head, s1) = (case fv_read_head (nd_finality (sv_node s)) of
            Some h \<Rightarrow> (Some h, s)
          | None \<Rightarrow> (case server_poll V s of
                       (Inr (_, safe), s') \<Rightarrow> (Some safe, s')
                     | (Inl _, s') \<Rightarrow> (None, s')))
      in case head of
           None \<Rightarrow> (None, s1)
         | Some h \<Rightarrow>
             (case du_get_proof_keys (re_data V (sv_tick s1)) zero_address [] (qty (sh_number h)) of
                Inr _ \<Rightarrow> (None, s1\<lparr>sv_tick := sv_tick s1 + 1\<rparr>)
              | Inl e \<Rightarrow>
                  let lag = proof_lag (nd_last_tip (sv_node s1)) (sh_number h);
                      at' = ''its own verified head '' @ show_nat (sh_number h) @ '' (lag '' @ show_nat lag @ '')'';
                      s2 = s1\<lparr>sv_tick := sv_tick s1 + 2\<rparr>
                  in if is_ok (du_get_proof_keys (re_data V (sv_tick s1 + 1)) zero_address [] ''latest'')
                     then (Some (TagOnlyUpstream at' (show_err e)), s2)
                     else (Some (ProofRefused at' (show_err e)), s2)))"

end
