(* ===== verification/Upstream.thy ===== *)
theory Upstream
  imports Rpc_Base
begin

text \<open>
  The data-plane client (\<open>bin/helios-bsc/src/upstream.rs\<close>): JSON-RPC over HTTP with retries, batches of
  headers and of raw transactions re-associated by id, and failover to a second upstream.

  What answers a request is a parameter: the response to each attempt at its position in the
  sequence of attempts. Batches that run on three threads are issued here in order, a whole group
  before any of its results is looked at; sleeps and log lines are left out, and so is memory: lists are unbounded here,
  where the source reserves a vector for the whole range at once and panics if its size in bytes overflows.
\<close>

section \<open>Transport\<close>

text \<open>
  The body of a response: the bytes it delivers, then its end or the error that cut it off. The
  rest are the functions of \<open>serde_json\<close> (parsing a body, a header from a value, a value as text) and the escaped
  beginning of an unparsable body that an error message quotes.
\<close>

record http =
  ht_send :: "nat \<Rightarrow> json \<Rightarrow> (string, bytes \<times> string option) result"
  ht_from_slice :: "bytes \<Rightarrow> (string, json) result"
  ht_header :: "json \<Rightarrow> (string, rpc_block_header) result"
  ht_show :: "json \<Rightarrow> string"
  ht_excerpt :: "bytes \<Rightarrow> string"

type_synonym 'a client = "nat \<Rightarrow> (err, 'a) result \<times> nat"

definition MAX_UPSTREAM_RESPONSE_BYTES :: nat where
  "MAX_UPSTREAM_RESPONSE_BYTES = 64 * 1024 * 1024"

definition read_capped :: "http \<Rightarrow> bytes \<times> string option \<Rightarrow> (err, json) result" where
  "read_capped H r =
     (case r of (b, broken) \<Rightarrow>
        let buf = take (MAX_UPSTREAM_RESPONSE_BYTES + 1) b in
        if MAX_UPSTREAM_RESPONSE_BYTES < length buf
        then Inl [''upstream response exceeds '' @ show_nat MAX_UPSTREAM_RESPONSE_BYTES @ '' bytes'']
        else
          case broken of
            Some e \<Rightarrow> Inl [''read response body'', e]
          | None \<Rightarrow>
              map_err (\<lambda>e. [''parse response body ('' @ show_nat (length buf) @ '' bytes, starts: '' @ ht_excerpt H buf @ '')'', e])
                (ht_from_slice H buf))"

definition ATTEMPTS :: nat where "ATTEMPTS = 4"

fun post_attempts :: "http \<Rightarrow> json \<Rightarrow> err \<Rightarrow> nat \<Rightarrow> json client" where
  "post_attempts H body last_err 0 t = (Inl last_err, t)"
| "post_attempts H body last_err (Suc n) t =
     (case ht_send H t body of
        Inr resp \<Rightarrow> (context_res ''upstream JSON'' (read_capped H resp), t + 1)
      | Inl e \<Rightarrow> post_attempts H body [''upstream HTTP: '' @ e] n (t + 1))"

definition post_json :: "http \<Rightarrow> json \<Rightarrow> json client" where
  "post_json H body = post_attempts H body [''no attempt''] ATTEMPTS"

definition rpc_body :: "json \<Rightarrow> string \<Rightarrow> json \<Rightarrow> json" where
  "rpc_body rid name params =
     JObject [(''jsonrpc'', JString ''2.0''), (''id'', rid), (''method'', JString name), (''params'', params)]"

definition rpc_call :: "http \<Rightarrow> string \<Rightarrow> json \<Rightarrow> json client" where
  "rpc_call H name params t =
     then_step (post_json H (rpc_body (JNumber (PosInt 1)) name params) t) (\<lambda>resp t.
       (case json_get ''error'' resp of
          Some e \<Rightarrow> Inl [''rpc error: '' @ ht_show H e]
        | None \<Rightarrow> Inr (case json_get ''result'' resp of None \<Rightarrow> JNull | Some v \<Rightarrow> v), t))"

definition as_u64 :: "json \<Rightarrow> nat option" where
  "as_u64 v = (case v of JNumber n \<Rightarrow> number_as_u64 n | _ \<Rightarrow> None)"

definition anyhow :: "string \<Rightarrow> 'a option \<Rightarrow> (err, 'a) result" where
  "anyhow text v = (case v of None \<Rightarrow> Inl [text] | Some a \<Rightarrow> Inr a)"

section \<open>Headers\<close>

text \<open>Re-association of a batch: rows in the order of arrival, each id in the range and new.\<close>

fun batch_rows :: "http \<Rightarrow> nat \<Rightarrow> nat \<Rightarrow> (nat \<times> rpc_block_header) list \<Rightarrow> json list \<Rightarrow> (err, (nat \<times> rpc_block_header) list) result" where
  "batch_rows H from to rows [] = Inr rows"
| "batch_rows H from to rows (item # items) =
     (case json_get ''error'' item of
        Some e \<Rightarrow> Inl [''batch rpc error: '' @ ht_show H e]
      | None \<Rightarrow>
          (case Option.bind (json_get ''id'' item) as_u64 of
             None \<Rightarrow> Inl [''batch response id outside '' @ show_nat from @ ''..='' @ show_nat to]
           | Some i \<Rightarrow>
               if i < from \<or> to < i then Inl [''batch response id outside '' @ show_nat from @ ''..='' @ show_nat to]
               else if i \<in> fst ` set rows then Inl [''batch response repeats id '' @ show_nat i]
               else
                 (case ht_header H (case json_get ''result'' item of None \<Rightarrow> JNull | Some v \<Rightarrow> v) of
                    Inl e \<Rightarrow> Inl [''header '' @ show_nat i, e]
                  | Inr hdr \<Rightarrow> batch_rows H from to (rows @ [(i, hdr)]) items)))"

definition headers_from_batch :: "http \<Rightarrow> json list \<Rightarrow> nat \<Rightarrow> nat \<Rightarrow> (err, rpc_block_header list) result" where
  "headers_from_batch H arr from to =
     (let want = wrap64 (to - from + 1) in
      if length arr \<noteq> want
      then Inl [''batch returned '' @ show_nat (length arr) @ '' responses for '' @ show_nat want @ '' requests'']
      else map_ok (\<lambda>rows. map snd (sort_key fst rows)) (batch_rows H from to [] arr))"

definition headers_one_batch :: "http \<Rightarrow> nat \<Rightarrow> nat \<Rightarrow> rpc_block_header list client" where
  "headers_one_batch H from to t =
     then_step (post_json H (JArray (map (\<lambda>i. rpc_body (JNumber (PosInt i)) ''eth_getBlockByNumber'' (JArray [JString (qty i), JBool False]))
                  [from..<Suc to])) t) (\<lambda>resp t.
     then_step (anyhow (''batch response not array: '' @ ht_show H resp) (as_array resp), t) (\<lambda>arr t.
       (headers_from_batch H arr from to, t)))"

text \<open>
  The loop that cuts a range into chunks of eight. \<open>n = end + 1\<close> wraps in a release build, so the
  loop need not end; not ending is \<open>None\<close>.
\<close>

partial_function (option) header_chunks_loop :: "nat \<Rightarrow> (nat \<times> nat) list \<Rightarrow> nat \<Rightarrow> (nat \<times> nat) list option" where
  "header_chunks_loop to chunks n =
     (if to < n then Some chunks
      else
        let end' = min (sat_add n 7) to in
        header_chunks_loop to (chunks @ [(n, end')]) (wrap64 (end' + 1)))"

definition header_chunks :: "nat \<Rightarrow> nat \<Rightarrow> (nat \<times> nat) list option" where
  "header_chunks from to = header_chunks_loop to [] from"

fun batches_in_order :: "http \<Rightarrow> (nat \<times> nat) list \<Rightarrow> rpc_block_header list client" where
  "batches_in_order H [] t = (Inr [], t)"
| "batches_in_order H ((a, b) # chunks) t =
     then_step (headers_one_batch H a b t) (\<lambda>hs t.
     then_step (batches_in_order H chunks t) (\<lambda>rest t. (Inr (hs @ rest), t)))"

definition headers_range_batch :: "http \<Rightarrow> nat \<Rightarrow> nat \<Rightarrow> nat \<Rightarrow> ((err, rpc_block_header list) result \<times> nat) option" where
  "headers_range_batch H from to t = map_option (\<lambda>chunks. batches_in_order H chunks t) (header_chunks from to)"

text \<open>A group of concurrent batches: all are run, then the first error in order wins.\<close>

fun group_results :: "http \<Rightarrow> (nat \<times> nat) list \<Rightarrow> nat \<Rightarrow> (err, rpc_block_header list) result list \<times> nat" where
  "group_results H [] t = ([], t)"
| "group_results H ((a, b) # chunks) t =
     (case headers_one_batch H a b t of (r, t) \<Rightarrow>
      case group_results H chunks t of (rs, t) \<Rightarrow> (r # rs, t))"

function chunks_of :: "nat \<Rightarrow> 'a list \<Rightarrow> 'a list list" where
  "chunks_of n xs = (if n = 0 \<or> xs = [] then [] else take n xs # chunks_of n (drop n xs))"
  by pat_completeness auto
termination
  by (relation "measure (\<lambda>(n, xs). length xs)") auto

declare chunks_of.simps [simp del]

definition PARALLEL :: nat where "PARALLEL = 3"

fun groups_in_order :: "http \<Rightarrow> (nat \<times> nat) list list \<Rightarrow> rpc_block_header list client" where
  "groups_in_order H [] t = (Inr [], t)"
| "groups_in_order H (g # gs) t =
     (case group_results H g t of (rs, t) \<Rightarrow>
      then_step (rmapM id rs, t) (\<lambda>batches t.
      then_step (groups_in_order H gs t) (\<lambda>rest t. (Inr (concat batches @ rest), t))))"

definition headers_range_parallel :: "http \<Rightarrow> nat \<Rightarrow> nat \<Rightarrow> nat \<Rightarrow> ((err, rpc_block_header list) result \<times> nat) option" where
  "headers_range_parallel H from to t =
     map_option (\<lambda>chunks. groups_in_order H (chunks_of PARALLEL chunks) t) (header_chunks from to)"

definition http_header_by_number :: "http \<Rightarrow> nat \<Rightarrow> rpc_block_header client" where
  "http_header_by_number H n t =
     then_step (rpc_call H ''eth_getBlockByNumber'' (JArray [JString (qty n), JBool False]) t) (\<lambda>v t.
       (map_err (\<lambda>e. [''decode header'', e]) (ht_header H v), t))"

definition http_header_by_hash :: "http \<Rightarrow> string \<Rightarrow> rpc_block_header client" where
  "http_header_by_hash H hash t =
     then_step (rpc_call H ''eth_getBlockByHash'' (JArray [JString hash, JBool False]) t) (\<lambda>v t.
       (if is_null v then Inl [''eth_getBlockByHash: header not found'']
        else map_err (\<lambda>e. [''decode header'', e]) (ht_header H v), t))"

fun single_headers :: "http \<Rightarrow> nat list \<Rightarrow> rpc_block_header list client" where
  "single_headers H [] t = (Inr [], t)"
| "single_headers H (n # ns) t =
     then_step (http_header_by_number H n t) (\<lambda>hdr t.
     then_step (single_headers H ns t) (\<lambda>rest t. (Inr (hdr # rest), t)))"

text \<open>Concurrent batches, then serial batches, then one call per header.\<close>

definition http_headers_range :: "http \<Rightarrow> nat \<Rightarrow> nat \<Rightarrow> nat \<Rightarrow> ((err, rpc_block_header list) result \<times> nat) option" where
  "http_headers_range H from to t =
     (if to < from then Some (Inr [], t)
      else
        Option.bind (headers_range_parallel H from to t) (\<lambda>(r, t).
          case r of
            Inr hs \<Rightarrow> Some (Inr hs, t)
          | Inl e \<Rightarrow>
              Option.bind (headers_range_batch H from to t) (\<lambda>(r, t).
                case r of
                  Inr hs \<Rightarrow> Some (Inr hs, t)
                | Inl e2 \<Rightarrow> Some (single_headers H [from..<Suc to] t))))"

section \<open>Raw transactions\<close>

definition check_raw_tx :: "('pk, 'sg) ext \<Rightarrow> bytes \<Rightarrow> bytes \<Rightarrow> (err, unit) result" where
  "check_raw_tx X raw want =
     (if MAX_RAW_TX < length raw then Inl [''raw tx too large'']
      else if keccak X raw \<noteq> want then Inl [''raw tx keccak mismatch'']
      else Inr ())"

definition RAW_TX_BATCH :: nat where "RAW_TX_BATCH = 64"

definition hex_err :: "string \<Rightarrow> types_error \<Rightarrow> err" where
  "hex_err what e = [what @ show_types_error e]"

text \<open>The answers of a batch put into their slots.\<close>

fun fill_slots :: "('pk, 'sg) ext \<Rightarrow> bytes option list \<Rightarrow> json list \<Rightarrow> (err, bytes option list) result" where
  "fill_slots X slots [] = Inr slots"
| "fill_slots X slots (item # items) =
     rbind (anyhow ''raw tx batch: answer without an id'' (Option.bind (json_get ''id'' item) as_u64)) (\<lambda>i.
     rbind (anyhow (''raw tx batch: id '' @ show_nat i @ '' was not requested'') (nth_opt slots i)) (\<lambda>slot.
     if slot \<noteq> None then Inl [''raw tx batch: id '' @ show_nat i @ '' answered twice'']
     else
     rbind (anyhow (''raw tx batch: id '' @ show_nat i @ '' has no hex result'') (Option.bind (json_get ''result'' item) as_str)) (\<lambda>s.
     rbind (map_err (hex_err ''raw tx hex: '') (decode_hex X s)) (\<lambda>raw.
       fill_slots X (slots[i := Some raw]) items))))"

fun check_slots :: "('pk, 'sg) ext \<Rightarrow> nat \<Rightarrow> bytes option list \<Rightarrow> bytes list \<Rightarrow> (err, bytes list) result" where
  "check_slots X i (slot # slots) (want # wants) =
     rbind (anyhow (''raw tx batch: id '' @ show_nat i @ '' unanswered'') slot) (\<lambda>raw.
     rbind (check_raw_tx X raw want) (\<lambda>_.
       map_ok (\<lambda>rest. raw # rest) (check_slots X (Suc i) slots wants)))"
| "check_slots X i _ _ = Inr []"

definition raw_tx_chunk :: "('pk, 'sg) ext \<Rightarrow> http \<Rightarrow> bytes list \<Rightarrow> bytes list client" where
  "raw_tx_chunk X H chunk t =
     then_step (post_json H (JArray (map (\<lambda>(i, h). rpc_body (JNumber (PosInt i)) ''eth_getRawTransactionByHash'' (JArray [JString (hex0x X h)]))
                  (zip [0..<length chunk] chunk))) t) (\<lambda>resp t.
     then_step (anyhow (''raw tx batch response not array: '' @ ht_show H resp) (as_array resp), t) (\<lambda>arr t.
       (if length arr \<noteq> length chunk
        then Inl [''raw tx batch: '' @ show_nat (length arr) @ '' answers for '' @ show_nat (length chunk) @ '' requests'']
        else
          rbind (fill_slots X (replicate (length chunk) None) arr) (\<lambda>slots. check_slots X 0 slots chunk), t)))"

fun raw_tx_chunks :: "('pk, 'sg) ext \<Rightarrow> http \<Rightarrow> bytes list list \<Rightarrow> bytes list client" where
  "raw_tx_chunks X H [] t = (Inr [], t)"
| "raw_tx_chunks X H (c # cs) t =
     then_step (raw_tx_chunk X H c t) (\<lambda>raws t.
     then_step (raw_tx_chunks X H cs t) (\<lambda>rest t. (Inr (raws @ rest), t)))"

definition raw_txs_batched :: "('pk, 'sg) ext \<Rightarrow> http \<Rightarrow> bytes list \<Rightarrow> bytes list client" where
  "raw_txs_batched X H hashes = raw_tx_chunks X H (chunks_of RAW_TX_BATCH hashes)"

fun raw_txs_serial :: "('pk, 'sg) ext \<Rightarrow> http \<Rightarrow> bytes list \<Rightarrow> bytes list client" where
  "raw_txs_serial X H [] t = (Inr [], t)"
| "raw_txs_serial X H (h # hs) t =
     (let hx = hex0x X h in
      then_step (rpc_call H ''eth_getRawTransactionByHash'' (JArray [JString hx]) t) (\<lambda>raw_v t.
      then_step (if is_null raw_v then Inl [''eth_getRawTransactionByHash: missing '' @ hx]
                 else rbind (anyhow ''eth_getRawTransactionByHash: expected hex'' (as_str raw_v)) (\<lambda>s.
                      rbind (map_err (hex_err ''raw tx hex: '') (decode_hex X s)) (\<lambda>raw.
                        map_ok (\<lambda>_. raw) (check_raw_tx X raw h))), t) (\<lambda>raw t.
      then_step (raw_txs_serial X H hs t) (\<lambda>rest t. (Inr (raw # rest), t)))))"

text \<open>The hashes that a block lists.\<close>

definition listed_hashes :: "('pk, 'sg) ext \<Rightarrow> json \<Rightarrow> (err, bytes list) result" where
  "listed_hashes X v =
     (if is_null v then Inl [''eth_getBlockByHash: header not found'']
      else
        rbind (anyhow ''eth_getBlockByHash: transactions missing'' (Option.bind (json_get ''transactions'' v) as_array)) (\<lambda>txs.
        if MAX_ORDERED_TRIE_ITEMS < length txs then Inl [''too many transactions'']
        else
          rmapM (\<lambda>t. rbind (anyhow ''eth_getBlockByHash: tx hash not a string'' (as_str t)) (\<lambda>s.
                   map_err (hex_err ''tx hash: '') (decode_hex_fixed X 32 s))) txs))"

definition http_block_raw_transactions :: "('pk, 'sg) ext \<Rightarrow> http \<Rightarrow> string \<Rightarrow> bytes list client" where
  "http_block_raw_transactions X H hash t =
     then_step (rpc_call H ''eth_getBlockByHash'' (JArray [JString hash, JBool False]) t) (\<lambda>v t.
     then_step (listed_hashes X v, t) (\<lambda>hashes t.
       (case raw_txs_batched X H hashes t of
          (Inr raws, t) \<Rightarrow> (Inr raws, t)
        | (Inl e, t) \<Rightarrow> raw_txs_serial X H hashes t)))"

section \<open>The other calls\<close>

definition http_block_number :: "http \<Rightarrow> nat client" where
  "http_block_number H t =
     then_step (rpc_call H ''eth_blockNumber'' (JArray []) t) (\<lambda>v t.
     then_step (anyhow ''blockNumber not hex'' (as_str v), t) (\<lambda>s t.
       (map_err (\<lambda>e. [''parse blockNumber'', e]) (from_str_radix16 (trim_start [''0x''] s)), t)))"

definition http_get_proof_keys :: "http \<Rightarrow> string \<Rightarrow> string list \<Rightarrow> string \<Rightarrow> json client" where
  "http_get_proof_keys H address keys block =
     rpc_call H ''eth_getProof'' (JArray [JString address, JArray (map JString keys), JString block])"

definition http_get_balance :: "http \<Rightarrow> string \<Rightarrow> string \<Rightarrow> string client" where
  "http_get_balance H address block t =
     then_step (rpc_call H ''eth_getBalance'' (JArray [JString address, JString block]) t) (\<lambda>v t.
       (anyhow ''eth_getBalance: expected hex qty'' (as_str v), t))"

definition http_get_transaction_count :: "http \<Rightarrow> string \<Rightarrow> string \<Rightarrow> string client" where
  "http_get_transaction_count H address block t =
     then_step (rpc_call H ''eth_getTransactionCount'' (JArray [JString address, JString block]) t) (\<lambda>v t.
       (anyhow ''eth_getTransactionCount: expected hex qty'' (as_str v), t))"

definition http_get_code :: "('pk, 'sg) ext \<Rightarrow> http \<Rightarrow> string \<Rightarrow> string \<Rightarrow> bytes client" where
  "http_get_code X H address block t =
     then_step (rpc_call H ''eth_getCode'' (JArray [JString address, JString block]) t) (\<lambda>v t.
       (map_err (hex_err ''eth_getCode hex: '') (decode_hex X (case as_str v of None \<Rightarrow> ''0x'' | Some s \<Rightarrow> s)), t))"

definition http_send_raw_transaction :: "http \<Rightarrow> string \<Rightarrow> string client" where
  "http_send_raw_transaction H raw t =
     then_step (rpc_call H ''eth_sendRawTransaction'' (JArray [JString raw]) t) (\<lambda>v t.
       (anyhow ''sendRawTransaction: expected hash'' (as_str v), t))"

definition http_block_receipts_json :: "http \<Rightarrow> string \<Rightarrow> json list client" where
  "http_block_receipts_json H hash t =
     then_step (rpc_call H ''eth_getBlockReceipts'' (JArray [JString hash]) t) (\<lambda>v t.
       (if is_null v then Inr []
        else rbind (anyhow ''eth_getBlockReceipts: expected array'' (as_array v)) (\<lambda>arr.
               if MAX_ORDERED_TRIE_ITEMS < length arr then Inl [''too many receipts''] else Inr arr), t))"

section \<open>The client as a data plane\<close>

text \<open>What the client answers at a position of the sequence of attempts.\<close>

definition http_data :: "('pk, 'sg) ext \<Rightarrow> http \<Rightarrow> nat \<Rightarrow> data_upstream" where
  "http_data X H t =
     \<lparr>du_get_proof_keys = (\<lambda>a ks b. fst (http_get_proof_keys H a ks b t)), du_get_code = (\<lambda>a b. fst (http_get_code X H a b t)),
      du_send_raw_transaction = (\<lambda>raw. fst (http_send_raw_transaction H raw t)),
      du_unverified_call = (\<lambda>m ps. fst (rpc_call H m ps t)),
      du_block_raw_transactions = (\<lambda>h. fst (http_block_raw_transactions X H h t)),
      du_block_receipts_json = (\<lambda>h. fst (http_block_receipts_json H h t)),
      du_header_by_hash = (\<lambda>h. fst (http_header_by_hash H h t))\<rparr>"

definition fallback :: "('u \<Rightarrow> (err, 'a) result) \<Rightarrow> 'u \<Rightarrow> 'u \<Rightarrow> (err, 'a) result" where
  "fallback op primary backup =
     (case op primary of
        Inr v \<Rightarrow> Inr v
      | Inl e1 \<Rightarrow> map_err (\<lambda>e2. [''primary: '' @ show_err e1 @ ''; backup: '' @ show_err e2]) (op backup))"

definition failover_data :: "data_upstream \<Rightarrow> data_upstream \<Rightarrow> data_upstream" where
  "failover_data p b =
     \<lparr>du_get_proof_keys = (\<lambda>a ks n. fallback (\<lambda>u. du_get_proof_keys u a ks n) p b),
      du_get_code = (\<lambda>a n. fallback (\<lambda>u. du_get_code u a n) p b),
      du_send_raw_transaction = (\<lambda>raw. fallback (\<lambda>u. du_send_raw_transaction u raw) p b),
      du_unverified_call = (\<lambda>m ps. fallback (\<lambda>u. du_unverified_call u m ps) p b),
      du_block_raw_transactions = (\<lambda>h. fallback (\<lambda>u. du_block_raw_transactions u h) p b),
      du_block_receipts_json = (\<lambda>h. fallback (\<lambda>u. du_block_receipts_json u h) p b),
      du_header_by_hash = (\<lambda>h. fallback (\<lambda>u. du_header_by_hash u h) p b)\<rparr>"

definition failover_sync :: "upstream \<Rightarrow> upstream \<Rightarrow> upstream" where
  "failover_sync p b =
     \<lparr>up_block_number = fallback up_block_number p b,
      up_header_by_number = (\<lambda>n. fallback (\<lambda>u. up_header_by_number u n) p b),
      up_header_by_hash = (\<lambda>h. fallback (\<lambda>u. up_header_by_hash u h) p b),
      up_headers_range = (\<lambda>from to. fallback (\<lambda>u. up_headers_range u from to) p b)\<rparr>"

text \<open>A backup counts unless its address is blank.\<close>

definition open_data_plane :: "(string \<Rightarrow> 'u) \<Rightarrow> ('u \<Rightarrow> 'u \<Rightarrow> 'u) \<Rightarrow> string \<Rightarrow> string option \<Rightarrow> 'u" where
  "open_data_plane new_client failover primary backup =
     (case backup of
        None \<Rightarrow> new_client primary
      | Some b \<Rightarrow> if string_trim b = [] then new_client primary else failover (new_client primary) (new_client b))"

section \<open>Cutting a range\<close>

definition covered :: "(nat \<times> nat) list \<Rightarrow> nat list" where
  "covered chunks = concat (map (\<lambda>(a, b). [a..<Suc b]) chunks)"

lemma header_chunks_loop_covers:
  assumes "to < u64_max" "n \<le> Suc to"
  shows "\<exists>cs. header_chunks_loop to acc n = Some (acc @ cs) \<and> covered cs = [n..<Suc to] \<and> (\<forall>(a, b) \<in> set cs. a \<le> b \<and> b \<le> a + 7)"
  using assms(2)
proof (induction "Suc to - n" arbitrary: n acc rule: less_induct)
  case less
  show ?case
  proof (cases "to < n")
    case True
    then show ?thesis using less.prems by (simp add: header_chunks_loop.simps [of to acc n] covered_def)
  next
    case False
    define e where "e = min (sat_add n 7) to"
    have e: "n \<le> e" "e \<le> to" "e \<le> n + 7" using False assms(1) by (auto simp: e_def sat_add_def u64_max_def)
    have w: "wrap64 (e + 1) = Suc e" using e(2) assms(1) by (simp add: wrap64_def u64_max_def)
    obtain cs where cs: "header_chunks_loop to (acc @ [(n, e)]) (Suc e) = Some ((acc @ [(n, e)]) @ cs)"
      "covered cs = [Suc e..<Suc to]" "\<forall>(a, b) \<in> set cs. a \<le> b \<and> b \<le> a + 7"
    proof -
      have "Suc to - Suc e < Suc to - n" "Suc e \<le> Suc to" using e by simp_all
      from less.hyps [OF this] that show thesis by blast
    qed
    have "header_chunks_loop to acc n = Some (acc @ (n, e) # cs)"
      using False cs(1) w by (subst header_chunks_loop.simps) (simp add: Let_def flip: e_def)
    moreover have "covered ((n, e) # cs) = [n..<Suc to]"
      using cs(2) e upt_add_eq_append [of n "Suc e" "to - e"] by (simp add: covered_def del: upt_Suc)
    ultimately show ?thesis using cs(3) e by (intro exI [of _ "(n, e) # cs"]) auto
  qed
qed

lemma header_chunks_covers:
  assumes "to < u64_max" "from \<le> to"
  shows "\<exists>cs. header_chunks from to = Some cs \<and> covered cs = [from..<Suc to] \<and> (\<forall>(a, b) \<in> set cs. a \<le> b \<and> b \<le> a + 7)"
  using header_chunks_loop_covers [OF assms(1), of "from" "[]"] assms(2) by (simp add: header_chunks_def)

text \<open>
  A range that ends at the largest block number is never cut: the loop does not end.
\<close>

lemma header_chunks_diverges:
  assumes "from \<le> u64_max"
  shows "header_chunks from u64_max = None"
proof -
  have "to = u64_max \<longrightarrow> u64_max < n" if "header_chunks_loop to acc n = Some y" for to acc n y
  proof (rule header_chunks_loop.raw_induct [OF _ that])
    fix f :: "nat \<Rightarrow> (nat \<times> nat) list \<Rightarrow> nat \<Rightarrow> (nat \<times> nat) list option" and to acc n y
    assume IH: "\<And>to acc n y. f to acc n = Some y \<Longrightarrow> to = u64_max \<longrightarrow> u64_max < n"
      and body: "(if to < n then Some acc
        else let end' = min (sat_add n 7) to in f to (acc @ [(n, end')]) (wrap64 (end' + 1))) = Some y"
    show "to = u64_max \<longrightarrow> u64_max < n"
    proof (cases "to < n")
      case False
      then have "f to (acc @ [(n, min (sat_add n 7) to)]) (wrap64 (min (sat_add n 7) to + 1)) = Some y"
        using body by (simp add: Let_def)
      from IH [OF this] have "to = u64_max \<longrightarrow> u64_max < wrap64 (min (sat_add n 7) to + 1)" .
      moreover have "wrap64 k \<le> u64_max" for k by (simp add: wrap64_def u64_max_def less_Suc_eq_le [symmetric])
      ultimately show ?thesis by (auto simp: not_less [symmetric])
    qed simp
  qed
  from this [of u64_max "[]" "from"] have "header_chunks_loop u64_max [] from \<noteq> Some y" for y using assms by auto
  then show ?thesis by (auto simp: header_chunks_def)
qed

section \<open>Batches\<close>

text \<open>What an answer of a batch says of a header.\<close>

definition answers :: "http \<Rightarrow> json \<Rightarrow> nat \<Rightarrow> rpc_block_header \<Rightarrow> bool" where
  "answers H item i hdr \<longleftrightarrow> json_get ''error'' item = None \<and> Option.bind (json_get ''id'' item) as_u64 = Some i \<and>
     ht_header H (case json_get ''result'' item of None \<Rightarrow> JNull | Some v \<Rightarrow> v) = Inr hdr"

lemma batch_rows_Inr:
  assumes "batch_rows H from to rows items = Inr rows'" "distinct (map fst rows)" "fst ` set rows \<subseteq> {from..to}"
  shows "\<exists>more. rows' = rows @ more \<and> list_all2 (\<lambda>item (i, hdr). answers H item i hdr) items more \<and>
    distinct (map fst rows') \<and> fst ` set rows' \<subseteq> {from..to}"
  using assms
proof (induction items arbitrary: rows)
  case (Cons item items)
  obtain i hdr where i: "answers H item i hdr" "from \<le> i" "i \<le> to" "i \<notin> fst ` set rows"
    "batch_rows H from to (rows @ [(i, hdr)]) items = Inr rows'"
    using Cons.prems(1) by (auto simp: answers_def split: option.splits sum.splits if_splits)
  from Cons.IH [OF i(5)] Cons.prems(2,3) i(2-4)
  obtain more where "rows' = (rows @ [(i, hdr)]) @ more" "list_all2 (\<lambda>item (i, hdr). answers H item i hdr) items more"
    "distinct (map fst rows')" "fst ` set rows' \<subseteq> {from..to}" by auto
  then show ?case using i(1) by (intro exI [of _ "(i, hdr) # more"]) simp
qed simp

lemma headers_from_batch_Inr:
  assumes "headers_from_batch H arr from to = Inr hs" "from \<le> to" "to < u64_max"
  shows "length hs = Suc to - from \<and> (\<forall>i < length hs. \<exists>item \<in> set arr. answers H item (from + i) (hs ! i))"
proof -
  obtain rows where r: "length arr = Suc to - from" "batch_rows H from to [] arr = Inr rows" "hs = map snd (sort_key fst rows)"
    using assms by (auto simp: headers_from_batch_def Let_def res_simps wrap64_def u64_max_def)
  have rows: "list_all2 (\<lambda>item (i, hdr). answers H item i hdr) arr rows" "distinct (map fst rows)" "fst ` set rows \<subseteq> {from..to}"
    using batch_rows_Inr [OF r(2)] by simp_all
  then have len: "length rows = Suc to - from" using r(1) by (simp add: list_all2_lengthD)
  let ?rs = "sort_key fst rows"
  have ids: "map fst ?rs = [from..<Suc to]"
  proof (rule sorted_distinct_set_unique)
    have m: "mset (map fst ?rs) = mset (map fst rows)" by simp
    then show d: "distinct (map fst ?rs)" using rows(2) by (rule mset_eq_imp_distinct_iff [THEN iffD2])
    have sub: "set (map fst ?rs) \<subseteq> set [from..<Suc to]" using rows(3) by auto
    show "set (map fst ?rs) = set [from..<Suc to]"
      by (rule card_subset_eq [OF _ sub]) (use distinct_card [OF d] len assms(2) in simp_all)
  qed (simp_all del: upt_Suc)
  have "\<exists>item \<in> set arr. answers H item (from + i) (hs ! i)" if "i < length hs" for i
  proof -
    have i: "i < length ?rs" using that r(3) by simp
    have "fst (?rs ! i) = from + i" using i len arg_cong [OF ids, of "\<lambda>l. l ! i"] by (simp del: upt_Suc)
    moreover have "?rs ! i \<in> set ?rs" using i by (rule nth_mem)
    then obtain j where j: "j < length rows" "?rs ! i = rows ! j" by (auto simp: in_set_conv_nth)
    moreover have "answers H (arr ! j) (fst (rows ! j)) (snd (rows ! j))"
      using rows(1) j(1) by (auto simp: list_all2_conv_all_nth split: prod.splits)
    moreover have "hs ! i = snd (?rs ! i)" using r(3) i by simp
    moreover have "arr ! j \<in> set arr" using rows(1) j(1) by (simp add: list_all2_lengthD)
    ultimately show ?thesis by auto
  qed
  then show ?thesis using r(3) len by simp
qed

lemma headers_one_batch_Inr:
  assumes "headers_one_batch H a b t = (Inr hs, u)" "a \<le> b" "b < u64_max"
  shows "length hs = Suc b - a"
  using assms headers_from_batch_Inr [OF _ assms(2,3)] by (auto simp: headers_one_batch_def then_step_Inr)

definition chunks_ok :: "(nat \<times> nat) list \<Rightarrow> bool" where
  "chunks_ok cs \<longleftrightarrow> (\<forall>(a, b) \<in> set cs. a \<le> b \<and> b < u64_max)"

lemma covered_end: "(a, b) \<in> set cs \<Longrightarrow> a \<le> b \<Longrightarrow> b \<in> set (covered cs)"
  by (induction cs) (auto simp: covered_def)

lemma chunks_ok_mono: "chunks_ok cs \<Longrightarrow> set ds \<subseteq> set cs \<Longrightarrow> chunks_ok ds"
  unfolding chunks_ok_def by blast

lemma batches_in_order_Inr:
  "batches_in_order H cs t = (Inr hs, u) \<Longrightarrow> chunks_ok cs \<Longrightarrow> length hs = length (covered cs)"
proof (induction H cs t arbitrary: hs u rule: batches_in_order.induct)
  case (2 H a b chunks t)
  then show ?case using headers_one_batch_Inr by (fastforce simp: then_step_Inr chunks_ok_def covered_def)
qed (simp add: covered_def)

lemma group_results_Inr:
  "group_results H cs t = (rs, u) \<Longrightarrow> rmapM id rs = Inr batches \<Longrightarrow> chunks_ok cs \<Longrightarrow> length (concat batches) = length (covered cs)"
proof (induction cs arbitrary: t rs batches u)
  case (Cons c cs)
  obtain a b where c: "c = (a, b)" by fastforce
  obtain r v rs' where g: "headers_one_batch H a b t = (r, v)" "group_results H cs v = (rs', u)" "rs = r # rs'"
    using Cons.prems(1) c by (auto split: prod.splits)
  obtain hs more where m: "r = Inr hs" "rmapM id rs' = Inr more" "batches = hs # more"
    using Cons.prems(2) g(3) by (auto simp: res_simps id_def)
  have ok: "a \<le> b" "b < u64_max" "chunks_ok cs" using Cons.prems(3) c by (auto simp: chunks_ok_def)
  show ?case
    using headers_one_batch_Inr [OF g(1) [unfolded m(1)] ok(1,2)] Cons.IH [OF g(2) m(2) ok(3)] m(3) c
    by (simp add: covered_def del: upt_Suc)
qed (simp add: covered_def)

lemma groups_in_order_Inr:
  "groups_in_order H gs t = (Inr hs, u) \<Longrightarrow> list_all chunks_ok gs \<Longrightarrow> length hs = length (covered (concat gs))"
proof (induction gs arbitrary: t hs u)
  case (Cons g gs)
  obtain rs v batches rest where g: "group_results H g t = (rs, v)" "rmapM id rs = Inr batches"
    "groups_in_order H gs v = (Inr rest, u)" "hs = concat batches @ rest"
    using Cons.prems(1) by (auto simp: then_step_Inr split: prod.splits)
  show ?case using group_results_Inr [OF g(1,2)] Cons.IH [OF g(3)] Cons.prems(2) g(4) by (simp add: covered_def)
qed (simp add: covered_def)

lemma concat_chunks_of: "0 < n \<Longrightarrow> concat (chunks_of n xs) = xs"
  by (induction n xs rule: chunks_of.induct) (subst chunks_of.simps, simp)

lemma set_chunks_of: "c \<in> set (chunks_of n xs) \<Longrightarrow> set c \<subseteq> set xs"
proof (induction n xs rule: chunks_of.induct)
  case (1 n xs)
  then show ?case by (subst (asm) (2) chunks_of.simps) (auto split: if_splits dest: in_set_takeD in_set_dropD)
qed

lemma single_headers_Inr: "single_headers H ns t = (Inr hs, u) \<Longrightarrow> length hs = length ns"
  by (induction ns arbitrary: t hs u) (auto simp: then_step_Inr)

text \<open>
  A fetch of a range below the largest block number ends, and a list it returns has one
  header for each number of the range.
\<close>

lemma headers_range_complete:
  assumes "to < u64_max"
  shows "\<exists>r u. http_headers_range H from to t = Some (r, u) \<and> (\<forall>hs. r = Inr hs \<longrightarrow> length hs = Suc to - from)"
proof (cases "to < from")
  case False
  obtain cs where cs: "header_chunks from to = Some cs" "covered cs = [from..<Suc to]" "\<forall>(a, b) \<in> set cs. a \<le> b \<and> b \<le> a + 7"
    using header_chunks_covers [OF assms, of "from"] False by (auto simp del: upt_Suc)
  have len: "length (covered cs) = Suc to - from" using cs(2) by (simp del: upt_Suc)
  have "a \<le> b \<and> b < u64_max" if ab: "(a, b) \<in> set cs" for a b
  proof -
    have le: "a \<le> b" using ab cs(3) by auto
    then have "b \<in> set [from..<Suc to]" using covered_end [OF ab] by (simp only: cs(2))
    then show ?thesis using le assms by (auto simp del: upt_Suc)
  qed
  then have ok: "chunks_ok cs" by (auto simp: chunks_ok_def)
  then have gs: "list_all chunks_ok (chunks_of PARALLEL cs)"
    using set_chunks_of [of _ PARALLEL cs] chunks_ok_mono by (metis Ball_set)
  have cc: "concat (chunks_of PARALLEL cs) = cs" by (simp add: concat_chunks_of PARALLEL_def)
  obtain r1 t1 where 1: "groups_in_order H (chunks_of PARALLEL cs) t = (r1, t1)" by fastforce
  obtain r2 t2 where 2: "batches_in_order H cs t1 = (r2, t2)" by fastforce
  obtain r3 t3 where 3: "single_headers H [from..<Suc to] t2 = (r3, t3)" by fastforce
  show ?thesis
    using False cs(1) 1 2 3 groups_in_order_Inr [OF _ gs] batches_in_order_Inr [OF _ ok] single_headers_Inr len cc
    by (auto simp: http_headers_range_def headers_range_parallel_def headers_range_batch_def simp del: upt_Suc split: sum.splits)
qed (simp add: http_headers_range_def)

lemma headers_range_diverges: "from \<le> u64_max \<Longrightarrow> http_headers_range H from u64_max t = None"
  by (simp add: http_headers_range_def headers_range_parallel_def header_chunks_diverges)

text \<open>
  C18. A fetch of a range of headers returns, whatever answers the requests, exactly when the range does not end at the
  largest block number \<open>2^64 - 1\<close>, and a list that it returns has as many headers as the range has numbers. At
  the largest number the loop that cuts the range into batches wraps and never ends. (Memory is not modelled, and that
  the headers carry the numbers of the range is left to the caller.)
\<close>

theorem headers_range_verdict:
  assumes "from \<le> u64_max" "to \<le> u64_max"
  shows "(http_headers_range H from to t = None \<longleftrightarrow> to = u64_max) \<and>
    (\<forall>hs u. http_headers_range H from to t = Some (Inr hs, u) \<longrightarrow> length hs = Suc to - from)"
proof (cases "to = u64_max")
  case True
  then show ?thesis using headers_range_diverges [OF assms(1)] by simp
next
  case False
  then show ?thesis using headers_range_complete [of to H "from" t] assms(2) by auto
qed

definition dead_http :: http where
  "dead_http = \<lparr>ht_send = (\<lambda>_ _. Inl ''connection refused''), ht_from_slice = (\<lambda>_. Inl ''eof''),
     ht_header = (\<lambda>_. Inl ''missing field''), ht_show = (\<lambda>_. []), ht_excerpt = (\<lambda>_. [])\<rparr>"

theorem headers_range_verdict_witness:
  "http_headers_range dead_http 5 u64_max 0 = None \<and> http_headers_range dead_http 5 30 0 \<noteq> None"
  using headers_range_verdict [of 5 u64_max dead_http 0] headers_range_verdict [of 5 30 dead_http 0]
  by (simp add: u64_max_def)

section \<open>Raw transactions are bound\<close>

lemma check_raw_tx_Inr: "check_raw_tx X raw want = Inr u \<longleftrightarrow> length raw \<le> MAX_RAW_TX \<and> keccak X raw = want"
  by (simp add: check_raw_tx_def not_less)

definition bound_raws :: "('pk, 'sg) ext \<Rightarrow> bytes list \<Rightarrow> bytes list \<Rightarrow> bool" where
  "bound_raws X hashes raws \<longleftrightarrow> map (keccak X) raws = hashes \<and> (\<forall>raw \<in> set raws. length raw \<le> MAX_RAW_TX)"

lemma anyhow_Inr [res_simps]: "anyhow text v = Inr a \<longleftrightarrow> v = Some a"
  by (simp add: anyhow_def split: option.split)

lemma check_slots_Inr:
  "check_slots X i slots wants = Inr raws \<Longrightarrow> length slots = length wants \<Longrightarrow> bound_raws X wants raws"
proof (induction X i slots wants arbitrary: raws rule: check_slots.induct)
  case (1 X i slot slots want wants)
  then show ?case by (auto simp: res_simps check_raw_tx_Inr bound_raws_def)
qed (auto simp: bound_raws_def)

lemma fill_slots_length: "fill_slots X slots items = Inr slots' \<Longrightarrow> length slots' = length slots"
  by (induction items arbitrary: slots) (auto simp: res_simps split: if_splits)

lemma raw_tx_chunk_Inr: "raw_tx_chunk X H chunk t = (Inr raws, u) \<Longrightarrow> bound_raws X chunk raws"
  using fill_slots_length by (fastforce simp: raw_tx_chunk_def then_step_Inr res_simps intro: check_slots_Inr split: if_splits)

lemma bound_raws_append: "bound_raws X a r \<Longrightarrow> bound_raws X b s \<Longrightarrow> bound_raws X (a @ b) (r @ s)"
  by (auto simp: bound_raws_def)

lemma raw_tx_chunks_Inr: "raw_tx_chunks X H cs t = (Inr raws, u) \<Longrightarrow> bound_raws X (concat cs) raws"
proof (induction cs arbitrary: t raws u)
  case (Cons c cs)
  then obtain v a b where "raw_tx_chunk X H c t = (Inr a, v)" "raw_tx_chunks X H cs v = (Inr b, u)" "raws = a @ b"
    by (auto simp: then_step_Inr)
  then show ?case using Cons.IH raw_tx_chunk_Inr bound_raws_append by fastforce
qed (simp add: bound_raws_def)

lemma raw_txs_serial_Inr: "raw_txs_serial X H hashes t = (Inr raws, u) \<Longrightarrow> bound_raws X hashes raws"
proof (induction hashes arbitrary: t raws u)
  case (Cons h hs)
  then obtain v raw rest where "check_raw_tx X raw h = Inr ()" "raw_txs_serial X H hs v = (Inr rest, u)" "raws = raw # rest"
    by (auto simp: then_step_Inr Let_def res_simps split: if_splits)
  then show ?case using Cons.IH by (auto simp: check_raw_tx_Inr bound_raws_def)
qed (simp add: bound_raws_def)

text \<open>
  Raw transactions that the client returns hash, one by one and in order, to the transaction hashes that the
  upstream listed for the block; there are at most 4096 of them, none over the size cap.
\<close>

theorem block_raw_transactions_bound:
  assumes "http_block_raw_transactions X H hash t = (Inr raws, u)"
  obtains v w hashes where "rpc_call H ''eth_getBlockByHash'' (JArray [JString hash, JBool False]) t = (Inr v, w)"
    "listed_hashes X v = Inr hashes" "map (keccak X) raws = hashes" "length raws \<le> MAX_ORDERED_TRIE_ITEMS"
    "\<forall>raw \<in> set raws. length raw \<le> MAX_RAW_TX"
proof -
  obtain v w hashes where v: "rpc_call H ''eth_getBlockByHash'' (JArray [JString hash, JBool False]) t = (Inr v, w)"
    "listed_hashes X v = Inr hashes"
    "(case raw_txs_batched X H hashes w of (Inr raws, t) \<Rightarrow> (Inr raws, t) | (Inl e, t) \<Rightarrow> raw_txs_serial X H hashes t) = (Inr raws, u)"
    using assms by (auto simp: http_block_raw_transactions_def then_step_Inr)
  have b: "bound_raws X hashes raws"
    using v(3) raw_tx_chunks_Inr [of X H "chunks_of RAW_TX_BATCH hashes"] raw_txs_serial_Inr
    by (auto simp: raw_txs_batched_def concat_chunks_of RAW_TX_BATCH_def split: prod.splits sum.splits)
  have "length hashes \<le> MAX_ORDERED_TRIE_ITEMS"
    using v(2) by (auto simp: listed_hashes_def res_simps not_less dest: rmapM_length split: if_splits)
  then show thesis using that [OF v(1,2)] b unfolding bound_raws_def by (metis length_map)
qed

section \<open>Bounds and failover\<close>

lemma post_attempts_bound:
  assumes "post_attempts H body e n t = (r, u)"
  shows "t \<le> u \<and> u \<le> t + n \<and> (0 < n \<longrightarrow> t < u) \<and> (\<forall>i. t \<le> i \<and> Suc i < u \<longrightarrow> (\<exists>e. ht_send H i body = Inl e))"
  using assms
proof (induction n arbitrary: e t)
  case (Suc n)
  show ?case
  proof (cases "ht_send H t body")
    case (Inl x)
    then have "post_attempts H body [''upstream HTTP: '' @ x] n (Suc t) = (r, u)" using Suc.prems by simp
    note IH = Suc.IH [OF this]
    have "\<exists>e. ht_send H i body = Inl e" if "t \<le> i \<and> Suc i < u" for i
      using that IH Inl by (cases "i = t") simp_all
    then show ?thesis using IH by simp
  next
    case (Inr x)
    then have "u = Suc t" using Suc.prems by simp
    then show ?thesis by auto
  qed
qed auto

text \<open>A request is sent at most four times, and again only after a transport error.\<close>

lemma post_json_attempts:
  assumes "post_json H body t = (r, u)"
  shows "t < u \<and> u \<le> t + 4 \<and> (\<forall>i. t \<le> i \<and> Suc i < u \<longrightarrow> (\<exists>e. ht_send H i body = Inl e))"
  using post_attempts_bound [OF assms [unfolded post_json_def]] by (simp add: ATTEMPTS_def)

text \<open>The backup is asked exactly when the primary fails, and its success is the answer.\<close>

lemma fallback_Inr: "fallback op p b = Inr v \<longleftrightarrow> op p = Inr v \<or> (\<exists>e. op p = Inl e) \<and> op b = Inr v"
  by (auto simp: fallback_def map_err_def split: sum.splits)

end
