(* ===== verification/Operations.thy ===== *)
theory Operations
  imports Rpc_Sound Upstream
begin

text \<open>
  What operators run beside the server: the health probe (\<open>health.rs\<close>), which judges a status report, and the
  resumable soak tally (\<open>soak_state.rs\<close>).
\<close>

section \<open>Health\<close>

definition DEFAULT_MAX_LAG_SECONDS :: nat where "DEFAULT_MAX_LAG_SECONDS = 300"

record health_limits =
  hl_max_lag_seconds :: "nat option"
  hl_max_lag_blocks :: "nat option"

definition health_limits_default :: health_limits where
  "health_limits_default = \<lparr>hl_max_lag_seconds = Some DEFAULT_MAX_LAG_SECONDS, hl_max_lag_blocks = None\<rparr>"

datatype health = Healthy string | Unhealthy string

fun health_is_ok :: "health \<Rightarrow> bool" where
  "health_is_ok (Healthy _) = True"
| "health_is_ok (Unhealthy _) = False"

fun health_message :: "health \<Rightarrow> string" where
  "health_message (Healthy m) = m"
| "health_message (Unhealthy m) = m"

definition u64_field :: "json \<Rightarrow> string \<Rightarrow> nat option" where
  "u64_field status key = Option.bind (json_get key status) as_u64"

definition over :: "nat option \<Rightarrow> nat option \<Rightarrow> bool" where
  "over limit actual = (case (limit, actual) of (Some m, Some a) \<Rightarrow> m < a | _ \<Rightarrow> False)"

definition judge :: "json \<Rightarrow> health_limits \<Rightarrow> health" where
  "judge status limits =
     (if as_object status = None then Unhealthy ''syncStatus did not return an object''
      else
        case u64_field status ''safe'' of
          None \<Rightarrow> Unhealthy ''syncStatus carries no safe head''
        | Some safe \<Rightarrow>
            if safe = 0 then Unhealthy (''safe head is 0 '' @ em_dash @ '' nothing verified yet'')
            else
              let lag_blocks = u64_field status ''safeLagBlocks''; lag_seconds = u64_field status ''safeLagSeconds'' in
              if hl_max_lag_seconds limits \<noteq> None \<and> lag_seconds = None
              then Unhealthy ''syncStatus carries no safeLagSeconds to check''
              else if hl_max_lag_blocks limits \<noteq> None \<and> lag_blocks = None
              then Unhealthy ''syncStatus carries no safeLagBlocks to check''
              else if over (hl_max_lag_seconds limits) lag_seconds
              then Unhealthy (''safe head is '' @ show_nat (the lag_seconds) @ ''s behind the tip (limit '' @
                     show_nat (the (hl_max_lag_seconds limits)) @ ''s) '' @ em_dash @ '' the head is not moving'')
              else if over (hl_max_lag_blocks limits) lag_blocks
              then Unhealthy (''safe head is '' @ show_nat (the lag_blocks) @ '' blocks behind the tip (limit '' @
                     show_nat (the (hl_max_lag_blocks limits)) @ '')'')
              else
                let finality = (case Option.bind (json_get ''safeSource'' status) as_str of None \<Rightarrow> ''unknown'' | Some t \<Rightarrow> t);
                    secs = (case lag_seconds of None \<Rightarrow> 0 | Some n \<Rightarrow> n)
                in Healthy (''safe='' @ show_nat safe @ '' lag='' @ show_nat secs @ ''s source='' @ finality))"

definition show_int :: "int \<Rightarrow> string" where
  "show_int i = (if i < 0 then ''-'' @ show_nat (nat (- i)) else show_nat (nat i))"

definition result_of :: "json \<Rightarrow> (string, json) result" where
  "result_of envelope =
     (case json_get ''error'' envelope of
        Some err \<Rightarrow>
          let code = (case json_get ''code'' err of
                        Some (JNumber n) \<Rightarrow> (case number_as_i64 n of None \<Rightarrow> 0 | Some i \<Rightarrow> i)
                      | _ \<Rightarrow> 0);
              msg = (case Option.bind (json_get ''message'' err) as_str of None \<Rightarrow> ''no message'' | Some t \<Rightarrow> t)
          in Inl (''syncStatus returned error '' @ show_int code @ '': '' @ msg)
      | None \<Rightarrow>
          (case json_get ''result'' envelope of
             None \<Rightarrow> Inl ''syncStatus reply had neither result nor error''
           | Some v \<Rightarrow> Inr v))"

section \<open>What a healthy verdict means\<close>

definition within :: "nat option \<Rightarrow> nat \<Rightarrow> bool" where
  "within limit actual \<longleftrightarrow> (\<forall>m. limit = Some m \<longrightarrow> actual \<le> m)"

text \<open>
  The verdict on a status report of this server: there is a verified head and the distance between the reported tip
  and that head, in blocks and in seconds, is within the limits. Only that distance counts: a tip
  that an upstream no longer moves is not seen.
\<close>

lemma judge_status:
  assumes "fv_read_head (nd_finality nd) = Some h"
  defines "lag \<equiv> proof_lag (fv_head (nd_finality nd)) (sh_number h)"
  shows "health_is_ok (judge (status_fields X tip safe nd) limits) \<longleftrightarrow>
    sh_number h \<noteq> 0 \<and> within (hl_max_lag_seconds limits) (safe_lag_seconds lag (fp_block_interval_ms mainnet_current_fork)) \<and>
    within (hl_max_lag_blocks limits) lag"
proof -
  let ?st = "status_fields X tip safe nd"
  have f: "u64_field ?st ''safe'' = Some (sh_number h)" "u64_field ?st ''safeLagBlocks'' = Some lag"
    "u64_field ?st ''safeLagSeconds'' = Some (safe_lag_seconds lag (fp_block_interval_ms mainnet_current_fork))" "as_object ?st \<noteq> None"
    using assms(1) by (simp_all add: u64_field_def status_fields_def Let_def json_u64_def as_u64_def lag_def)
  show ?thesis
    unfolding judge_def f Let_def using f(4)
    by (cases "hl_max_lag_seconds limits"; cases "hl_max_lag_blocks limits") (auto simp: over_def within_def not_less)
qed

text \<open>A probe of a server whose sync fails is unhealthy: there is no report to judge.\<close>

lemma probe_not_synced:
  assumes "server_refresh V s = (Inl e, t)" "m \<in> {''helios_bsc_syncStatus'', ''helios_bsc_getVerificationStatus''}"
  shows "\<exists>text. result_of (fst (respond (call_method V rid req m) s)) = Inl text"
proof -
  have "call_method V rid req m = verification_status V rid" using assms(2) by (elim insertE emptyE) (simp_all add: call_method_def method_arms_def)
  then have "fst (respond (call_method V rid req m) s) = rpc_err rid ERR_NOT_SYNCED (''not_synced: '' @ show_err e)"
    using assms(1) by (simp add: respond_def verification_status_def hbind_def then_step_def hrefresh_def)
  then show ?thesis by (simp add: result_of_def rpc_err_def Let_def)
qed

section \<open>The soak tally\<close>

definition STATE_VERSION :: nat where "STATE_VERSION = 1"

record soak_fingerprint =
  sf_upstream :: string
  sf_oracle :: string
  sf_fast_finality :: bool
  sf_addresses :: "string list"

definition head_name :: "bool \<Rightarrow> string" where
  "head_name fast = (if fast then ''fast'' else ''confirmation-depth'')"

definition differs_from :: "soak_fingerprint \<Rightarrow> soak_fingerprint \<Rightarrow> string option" where
  "differs_from self other =
     (if sf_upstream self \<noteq> sf_upstream other then Some (''upstream '' @ sf_upstream other @ '' != '' @ sf_upstream self)
      else if sf_oracle self \<noteq> sf_oracle other then Some (''oracle '' @ sf_oracle other @ '' != '' @ sf_oracle self)
      else if sf_fast_finality self \<noteq> sf_fast_finality other
      then Some (''finality '' @ head_name (sf_fast_finality other) @ '' != '' @ head_name (sf_fast_finality self))
      else if sf_addresses self \<noteq> sf_addresses other
      then Some (''address list ('' @ show_nat (length (sf_addresses other)) @ '' stored, '' @ show_nat (length (sf_addresses self)) @ '' now)'')
      else None)"

record soak_session =
  ss_started_unix :: nat
  ss_ended_unix :: nat

definition session_secs :: "soak_session \<Rightarrow> nat" where
  "session_secs w = sat_sub (ss_ended_unix w) (ss_started_unix w)"

record soak_state =
  sk_version :: nat
  sk_fingerprint :: soak_fingerprint
  sk_compared :: nat
  sk_matched :: nat
  sk_mismatched :: nat
  sk_skipped :: nat
  sk_compared_at_fast :: nat
  sk_checked_balance :: nat
  sk_checked_nonce :: nat
  sk_checked_slot0 :: nat
  sk_checked_call :: nat
  sk_checked_finality :: nat
  sk_unique :: "string list"
  sk_sessions :: "soak_session list"

definition soak_state_new :: "soak_fingerprint \<Rightarrow> soak_state" where
  "soak_state_new fp =
     \<lparr>sk_version = STATE_VERSION, sk_fingerprint = fp, sk_compared = 0, sk_matched = 0, sk_mismatched = 0, sk_skipped = 0,
      sk_compared_at_fast = 0, sk_checked_balance = 0, sk_checked_nonce = 0, sk_checked_slot0 = 0, sk_checked_call = 0,
      sk_checked_finality = 0, sk_unique = [], sk_sessions = []\<rparr>"

text \<open>\<open>sum\<close> of \<open>u64\<close> values wraps in a release build.\<close>

definition soaked_secs :: "soak_state \<Rightarrow> nat" where
  "soaked_secs st = wrap64 (sum_list (map session_secs (sk_sessions st)))"

fun session_gaps :: "soak_session list \<Rightarrow> nat list" where
  "session_gaps (a # b # ws) = sat_sub (ss_started_unix b) (ss_ended_unix a) # session_gaps (b # ws)"
| "session_gaps _ = []"

definition largest_gap_secs :: "soak_state \<Rightarrow> nat option" where
  "largest_gap_secs st = (case session_gaps (sk_sessions st) of [] \<Rightarrow> None | g # gs \<Rightarrow> Some (foldl max g gs))"

definition remaining_secs :: "soak_state \<Rightarrow> nat \<Rightarrow> nat" where
  "remaining_secs st target = sat_sub target (soaked_secs st)"

definition done_set :: "soak_state \<Rightarrow> string set" where
  "done_set st = set (sk_unique st)"

definition open_session :: "nat \<Rightarrow> soak_state \<Rightarrow> soak_state" where
  "open_session now st = st\<lparr>sk_sessions := sk_sessions st @ [\<lparr>ss_started_unix = now, ss_ended_unix = now\<rparr>]\<rparr>"

definition touch_session :: "nat \<Rightarrow> soak_state \<Rightarrow> soak_state" where
  "touch_session now st =
     (if sk_sessions st = [] then st
      else
        let w = last (sk_sessions st)
        in st\<lparr>sk_sessions := butlast (sk_sessions st) @ [w\<lparr>ss_ended_unix := max (ss_ended_unix w) now\<rparr>]\<rparr>)"

text \<open>Reading the file: it is not there, cannot be read, or its bytes; parsing is \<open>serde_json\<close>'s.\<close>

datatype file_read = File_missing | File_error string | File_bytes bytes

definition load_soak ::
    "(bytes \<Rightarrow> (string, soak_state) result) \<Rightarrow> string \<Rightarrow> file_read \<Rightarrow> soak_fingerprint \<Rightarrow> (err, soak_state option) result" where
  "load_soak parse path file want =
     (case file of
        File_missing \<Rightarrow> Inr None
      | File_error e \<Rightarrow> Inl [''read '' @ path, e]
      | File_bytes raw \<Rightarrow>
          rbind (map_err (\<lambda>e. [''parse soak state '' @ path, e]) (parse raw)) (\<lambda>st.
          if sk_version st \<noteq> STATE_VERSION
          then Inl [''soak state '' @ path @ '' is version '' @ show_nat (sk_version st) @ '', this build writes '' @
                 show_nat STATE_VERSION @ '' '' @ em_dash @ '' start a new state file or keep the old binary'']
          else
            case differs_from want (sk_fingerprint st) of
              Some diff \<Rightarrow> Inl [''soak state '' @ path @ '' was recorded for a different run ('' @ diff @ '') '' @ em_dash @
                '' resuming would merge two experiments'']
            | None \<Rightarrow> Inr (Some st)))"

text \<open>\<open>{:02}\<close>\<close>

definition two_digits :: "nat \<Rightarrow> string" where
  "two_digits n = (if n < 10 then CHR ''0'' # show_nat n else show_nat n)"

definition human_secs :: "nat \<Rightarrow> string" where
  "human_secs secs =
     (let h = secs div 3600; m = secs mod 3600 div 60; s = secs mod 60 in
      if 0 < h then show_nat h @ ''h '' @ two_digits m @ ''m''
      else if 0 < m then show_nat m @ ''m '' @ two_digits s @ ''s''
      else show_nat s @ ''s'')"

text \<open>Two runs agree exactly when nothing differs, so only a tally of the same run and format is resumed.\<close>

lemma differs_from_None: "differs_from a b = None \<longleftrightarrow> a = b"
  by (cases a; cases b) (simp add: differs_from_def)

lemma load_soak_Some:
  "load_soak parse path file want = Inr (Some st) \<Longrightarrow> sk_version st = STATE_VERSION \<and> sk_fingerprint st = want"
  using differs_from_None by (fastforce simp: load_soak_def res_simps split: file_read.splits if_splits option.splits)

text \<open>Sessions that follow each other: what was soaked and the gaps add up to the whole span, so gaps never count.\<close>

fun sessions_ok :: "soak_session list \<Rightarrow> bool" where
  "sessions_ok [] = True"
| "sessions_ok [w] = (ss_started_unix w \<le> ss_ended_unix w)"
| "sessions_ok (a # b # ws) = (ss_started_unix a \<le> ss_ended_unix a \<and> ss_ended_unix a \<le> ss_started_unix b \<and> sessions_ok (b # ws))"

lemma sessions_span:
  assumes "sessions_ok ws" "ws \<noteq> []"
  shows "ss_started_unix (hd ws) + sum_list (map session_secs ws) + sum_list (session_gaps ws) = ss_ended_unix (last ws)"
  using assms
proof (induction ws rule: sessions_ok.induct)
  case (3 a b ws)
  then show ?case by (simp add: session_secs_def sat_sub_def)
qed (simp_all add: session_secs_def sat_sub_def)

lemma soaked_plus_gaps:
  assumes "sessions_ok (sk_sessions st)" "sk_sessions st \<noteq> []" "is_u64 (ss_ended_unix (last (sk_sessions st)))"
  shows "soaked_secs st + sum_list (session_gaps (sk_sessions st)) =
    ss_ended_unix (last (sk_sessions st)) - ss_started_unix (hd (sk_sessions st))"
proof -
  have "sum_list (map session_secs (sk_sessions st)) \<le> u64_max" using sessions_span [OF assms(1,2)] assms(3) by (simp add: is_u64_def)
  then have "soaked_secs st = sum_list (map session_secs (sk_sessions st))" by (simp add: soaked_secs_def wrap64_def)
  then show ?thesis using sessions_span [OF assms(1,2)] by simp
qed

lemma sessions_ok_append:
  "sessions_ok (ws @ [w]) \<longleftrightarrow> sessions_ok ws \<and> ss_started_unix w \<le> ss_ended_unix w \<and> (ws \<noteq> [] \<longrightarrow> ss_ended_unix (last ws) \<le> ss_started_unix w)"
  by (induction ws rule: sessions_ok.induct) auto

text \<open>With a clock that does not go back, opening and extending sessions keep them in order; opening counts nothing.\<close>

lemma session_steps_ok:
  assumes "sessions_ok (sk_sessions st)"
  shows "sk_sessions st \<noteq> [] \<longrightarrow> ss_ended_unix (last (sk_sessions st)) \<le> now \<Longrightarrow> sessions_ok (sk_sessions (open_session now st))"
    "sessions_ok (sk_sessions (touch_session now st))" "soaked_secs (open_session now st) = soaked_secs st"
proof -
  show "sk_sessions st \<noteq> [] \<longrightarrow> ss_ended_unix (last (sk_sessions st)) \<le> now \<Longrightarrow> sessions_ok (sk_sessions (open_session now st))"
    using assms by (simp add: open_session_def sessions_ok_append)
  show "soaked_secs (open_session now st) = soaked_secs st" by (simp add: soaked_secs_def open_session_def session_secs_def sat_sub_def)
  show "sessions_ok (sk_sessions (touch_session now st))"
  proof (cases "sk_sessions st = []")
    case False
    then obtain ws w where w: "sk_sessions st = ws @ [w]" by (metis append_butlast_last_id)
    then show ?thesis using assms by (auto simp: touch_session_def Let_def sessions_ok_append)
  qed (use assms in \<open>simp add: touch_session_def\<close>)
qed

end
