(* ===== verification/Diff.thy ===== *)
theory Diff
  imports Operations Rpc_Logs_Sound "HOL-Library.Multiset"
begin

text \<open>
  The differential soak (\<open>diff.rs\<close>): verified balances, nonces, storage, calls and finality compared with an
  independent oracle at one verified block, and the tally of the outcomes.

  The oracle is a parameter, one record of answers for each address of a round.
\<close>

section \<open>Addresses\<close>

definition SOAK_ADDRESSES :: "(string \<times> string) list" where
  "SOAK_ADDRESSES =
     [(''WBNB'', ''0xbb4CdB9CBd36B01bD1cBaEBF2De08d9173bc095c''),
      (''USDT'', ''0x55d398326f99059fF775485246999027B3197955''),
      (''USDC'', ''0x8AC76a51cc950d9822D68b83fe1Ad97B32Cd580d''),
      (''Cake'', ''0x0E09FaBB73Bd3Ade0a17ECC321fD13a19e81cE82''),
      (''BUSD'', ''0xe9e7CEA3DedcA5984780Bafc599bD69ADd087D56''),
      (''PancakeRouter'', ''0x10ED43C718714eb63d5aA57B78B54704E256024E''),
      (''PancakeFactory'', ''0xcA143Ce32Fe78f1f7019d7d551a6402fC5350c73''),
      (''VenusUnitroller'', ''0xfD36E2c2a6789Db23113685031d7F16329158384''),
      (''VenusVBNB'', ''0xA07c5b74C9B18179ce657c4d74e5CE8C674C96a3''),
      (''VenusTreasury'', ''0xF322942f644A996A617BD29c16bd7d231d9F35E9''),
      (''BinanceHot'', ''0xe2fc31F816A9b94326492132018C3aEcC4a93aE1''),
      (''TokenHub'', ''0x0000000000000000000000000000000000001004''),
      (''PegETH'', ''0x2170Ed0880ac9A755fd29B2688956BD959F933F8''),
      (''DAI'', ''0x1AF3F329e8BE154074D8769D1FFa4eE058B1DBc3''),
      (''XVS'', ''0xcF6BB5389c92Bdda8a3747Ddb454cB7a64626C63''),
      (''BTCB'', ''0x7130d2A12B9BCbFAe4f2634d864A1Ee1Ce3Ead9c''),
      (''ValidatorSet'', ''0x0000000000000000000000000000000000001000''),
      (''Slash'', ''0x0000000000000000000000000000000000001001''),
      (''SystemReward'', ''0x0000000000000000000000000000000000001002'')]"

record diff_report =
  dr_compared :: nat
  dr_matched :: nat
  dr_mismatched :: nat
  dr_skipped :: nat
  dr_checked_balance :: nat
  dr_checked_nonce :: nat
  dr_checked_slot0 :: nat
  dr_checked_call :: nat
  dr_checked_finality :: nat

definition diff_report_default :: diff_report where
  "diff_report_default = \<lparr>dr_compared = 0, dr_matched = 0, dr_mismatched = 0, dr_skipped = 0, dr_checked_balance = 0,
     dr_checked_nonce = 0, dr_checked_slot0 = 0, dr_checked_call = 0, dr_checked_finality = 0\<rparr>"

definition accumulate :: "diff_report \<Rightarrow> diff_report \<Rightarrow> diff_report" where
  "accumulate r other =
     \<lparr>dr_compared = wrap32 (dr_compared r + dr_compared other), dr_matched = wrap32 (dr_matched r + dr_matched other),
      dr_mismatched = wrap32 (dr_mismatched r + dr_mismatched other), dr_skipped = wrap32 (dr_skipped r + dr_skipped other),
      dr_checked_balance = wrap32 (dr_checked_balance r + dr_checked_balance other),
      dr_checked_nonce = wrap32 (dr_checked_nonce r + dr_checked_nonce other),
      dr_checked_slot0 = wrap32 (dr_checked_slot0 r + dr_checked_slot0 other),
      dr_checked_call = wrap32 (dr_checked_call r + dr_checked_call other),
      dr_checked_finality = wrap32 (dr_checked_finality r + dr_checked_finality other)\<rparr>"

definition addr_key :: "string \<Rightarrow> string" where
  "addr_key addr = to_ascii_lowercase addr"

definition soak_repeat_full_list :: "nat \<Rightarrow> nat \<Rightarrow> nat \<Rightarrow> bool" where
  "soak_repeat_full_list duration_secs uniques n_addrs \<longleftrightarrow> 0 < duration_secs \<and> 0 < n_addrs \<and> n_addrs \<le> uniques"

definition soak_empty_burst :: "bool \<Rightarrow> nat \<Rightarrow> nat \<Rightarrow> bool" where
  "soak_empty_burst visit_all gained compared_this = (if visit_all then compared_this = 0 else gained = 0)"

definition unmatched :: "(string \<times> string) list \<Rightarrow> string set \<Rightarrow> (string \<times> string) list" where
  "unmatched addrs matched = filter (\<lambda>(_, a). addr_key a \<notin> matched) addrs"

definition rotate_front :: "nat \<Rightarrow> 'a list \<Rightarrow> 'a list" where
  "rotate_front k items =
     (let n = min k (length items) in
      if n = 0 \<or> length items \<le> 1 then items else drop n items @ take n items)"

definition soak_list :: "string \<Rightarrow> (string \<times> string) list" where
  "soak_list probe = (''probe'', probe) # filter (\<lambda>(_, a). \<not> eq_ignore_ascii_case a probe) SOAK_ADDRESSES"

section \<open>Outcomes\<close>

record diff_checks =
  dc_nonce :: bool
  dc_slot0 :: bool
  dc_call :: bool
  dc_finality :: bool

definition diff_checks_default :: diff_checks where
  "diff_checks_default = \<lparr>dc_nonce = False, dc_slot0 = False, dc_call = False, dc_finality = False\<rparr>"

definition label :: "diff_checks \<Rightarrow> string" where
  "label c =
     (if dc_call c then ''eth_call''
      else if dc_finality c then ''parlia_finality''
      else ''balance'' @ (if dc_nonce c then '',nonce'' else []) @ (if dc_slot0 c then '',slot0'' else []))"

datatype diff_outcome =
    DiffMatch string string diff_checks
  | Mismatch string string
  | SkipProof string
  | SkipOracle string

definition proof_error_retryable :: "string \<Rightarrow> bool" where
  "proof_error_retryable err =
     (let m = to_ascii_lowercase err in
      \<not> (str_contains m ''proof path mismatch'' \<or> str_contains m ''proof node hash mismatch'' \<or>
         str_contains m ''claimed field mismatch'' \<or> str_contains m ''invalid account leaf'' \<or>
         str_contains m ''key leftover'' \<or> str_contains m ''extra proof nodes'' \<or> str_contains m ''unexpected empty child''))"

definition strip_word :: "string \<Rightarrow> string" where
  "strip_word v =
     (let t = dropWhile (\<lambda>c. c = CHR ''0'') (trim_all_0x v)
      in if t = [] then ''0'' else to_ascii_lowercase t)"

definition storage_word_equal :: "string \<Rightarrow> string \<Rightarrow> bool" where
  "storage_word_equal local remote \<longleftrightarrow> strip_word local = strip_word remote"

section \<open>The oracle\<close>

record diff_oracle =
  or_get_balance :: "string \<Rightarrow> string \<Rightarrow> (err, string) result"
  or_get_transaction_count :: "string \<Rightarrow> string \<Rightarrow> (err, string) result"
  or_unverified_call :: "string \<Rightarrow> json \<Rightarrow> (err, json) result"
  or_header_by_number :: "nat \<Rightarrow> (err, rpc_block_header) result"
  or_show :: "json \<Rightarrow> string"
    \<comment> \<open>a JSON value as text\<close>

text \<open>By hash, then by number; the second error is reported.\<close>

definition by_hash_or_number :: "string \<Rightarrow> safe_head \<Rightarrow> (string \<Rightarrow> (err, 'a) result) \<Rightarrow> (err, 'a) result" where
  "by_hash_or_number skip safe ask =
     map_err (\<lambda>e. [skip @ show_err e])
       (case ask (sh_hash safe) of Inr v \<Rightarrow> Inr v | Inl _ \<Rightarrow> ask (qty (sh_number safe)))"

definition text_answer :: "diff_oracle \<Rightarrow> string \<Rightarrow> json \<Rightarrow> (err, string) result" where
  "text_answer orc name params =
     rbind (or_unverified_call orc name params) (\<lambda>v.
       anyhow (name @ '' returned '' @ or_show orc v) (as_str v))"

definition oracle_balance :: "diff_oracle \<Rightarrow> string \<Rightarrow> safe_head \<Rightarrow> (err, string) result" where
  "oracle_balance orc addr safe = by_hash_or_number ''oracle historical skip: '' safe (or_get_balance orc addr)"

definition oracle_nonce :: "diff_oracle \<Rightarrow> string \<Rightarrow> safe_head \<Rightarrow> (err, string) result" where
  "oracle_nonce orc addr safe = by_hash_or_number ''oracle nonce skip: '' safe (or_get_transaction_count orc addr)"

definition SOAK_STORAGE_SLOT :: bytes where "SOAK_STORAGE_SLOT = zeros 32"

definition slot0_hex :: "('pk, 'sg) ext \<Rightarrow> string" where
  "slot0_hex X = hex0x X SOAK_STORAGE_SLOT"

definition oracle_slot0 :: "('pk, 'sg) ext \<Rightarrow> diff_oracle \<Rightarrow> string \<Rightarrow> safe_head \<Rightarrow> (err, string) result" where
  "oracle_slot0 X orc addr safe =
     by_hash_or_number ''oracle storage skip: '' safe (\<lambda>block.
       text_answer orc ''eth_getStorageAt'' (JArray [JString addr, JString (slot0_hex X), JString block]))"

definition oracle_call :: "('pk, 'sg) ext \<Rightarrow> diff_oracle \<Rightarrow> string \<Rightarrow> bytes \<Rightarrow> safe_head \<Rightarrow> (err, string) result" where
  "oracle_call X orc addr selector safe =
     by_hash_or_number ''oracle call skip: '' safe (\<lambda>block.
       text_answer orc ''eth_call''
         (JArray [JObject [(''to'', JString addr), (''data'', JString (hex0x X selector))], JString block]))"

section \<open>Comparisons\<close>

record verified_qty =
  vq_balance :: string
  vq_nonce :: string
  vq_slot0 :: "string option"

definition proof_carries_slot :: "eth_account_proof \<Rightarrow> string \<Rightarrow> bool" where
  "proof_carries_slot pr slot_hex \<longleftrightarrow> (\<exists>e \<in> set (ep_storage_proof pr). storage_word_equal (se_key e) slot_hex)"

definition soak_account ::
    "('pk, 'sg) ext \<Rightarrow> serde \<Rightarrow> (nat \<Rightarrow> data_upstream) \<Rightarrow> string \<Rightarrow> safe_head \<Rightarrow> (err, verified_qty) result" where
  "soak_account X D proofs addr safe =
     rbind (context_res ''eth_getProof'' (get_proof_at_safe proofs addr [slot0_hex X] (sh_hash safe) (sh_number safe))) (\<lambda>raw.
     rbind (map_err (\<lambda>e. [''decode eth_getProof'', e]) (sd_proof_from D raw)) (\<lambda>pr.
     rbind (map_err (\<lambda>e. [show_types_error e]) (decode_hex_fixed X 32 (sh_state_root safe))) (\<lambda>root.
     rbind (map_err (\<lambda>e. [show_types_error e]) (decode_hex_fixed X 20 addr)) (\<lambda>want.
     rbind (map_err (\<lambda>e. [show_proof_error e]) (verify_eth_get_proof X root want pr)) (\<lambda>acc.
     rbind (if proof_carries_slot pr (slot0_hex X) then
              map_ok (\<lambda>w. Some (encode_qty X w))
                (map_err (\<lambda>e. [''verify storage slot 0'', show_proof_error e]) (verify_storage_slot X acc SOAK_STORAGE_SLOT pr))
            else Inr None) (\<lambda>slot0.
       Inr \<lparr>vq_balance = encode_qty X (va_balance_wei acc), vq_nonce = qty (va_nonce acc), vq_slot0 = slot0\<rparr>))))))"

definition soak_balance ::
    "('pk, 'sg) ext \<Rightarrow> serde \<Rightarrow> (nat \<Rightarrow> data_upstream) \<Rightarrow> string \<Rightarrow> safe_head \<Rightarrow> (err, string) result" where
  "soak_balance X D proofs addr safe = map_ok vq_balance (soak_account X D proofs addr safe)"

text \<open>\<open>{e:#}\<close>: the whole chain.\<close>

fun show_chain :: "err \<Rightarrow> string" where
  "show_chain [] = []"
| "show_chain [t] = t"
| "show_chain (t # ts) = t @ '': '' @ show_chain ts"

definition diff_slot0 ::
    "('pk, 'sg) ext \<Rightarrow> diff_oracle \<Rightarrow> string \<Rightarrow> safe_head \<Rightarrow> verified_qty \<Rightarrow> string \<Rightarrow> diff_checks \<Rightarrow> diff_outcome" where
  "diff_slot0 X orc addr safe local remote_bal checks =
     (case (vq_slot0 local, oracle_slot0 X orc addr safe) of
        (Some local_s, Inr remote_s) \<Rightarrow>
          if \<not> storage_word_equal local_s remote_s then Mismatch (''slot0 '' @ local_s) (''slot0 '' @ remote_s)
          else DiffMatch (vq_balance local) remote_bal (checks\<lparr>dc_slot0 := True\<rparr>)
      | _ \<Rightarrow> DiffMatch (vq_balance local) remote_bal checks)"

definition diff_one ::
    "('pk, 'sg) ext \<Rightarrow> serde \<Rightarrow> (nat \<Rightarrow> data_upstream) \<Rightarrow> diff_oracle \<Rightarrow> string \<Rightarrow> string \<Rightarrow> safe_head \<Rightarrow> diff_outcome" where
  "diff_one X D proofs orc name addr safe =
     (case soak_account X D proofs addr safe of
        Inl e \<Rightarrow> SkipProof (name @ '': '' @ show_chain e)
      | Inr local \<Rightarrow>
          (case oracle_balance orc addr safe of
             Inl e \<Rightarrow> SkipOracle (name @ '': '' @ show_chain e)
           | Inr remote_bal \<Rightarrow>
               if \<not> qty_equal X (vq_balance local) remote_bal then Mismatch (vq_balance local) remote_bal
               else
                 (case oracle_nonce orc addr safe of
                    Inr remote_n \<Rightarrow>
                      if \<not> qty_equal X (vq_nonce local) remote_n
                      then Mismatch (''nonce '' @ vq_nonce local) (''nonce '' @ remote_n)
                      else diff_slot0 X orc addr safe local remote_bal (diff_checks_default\<lparr>dc_nonce := True\<rparr>)
                  | Inl _ \<Rightarrow> diff_slot0 X orc addr safe local remote_bal diff_checks_default)))"

definition count_outcome :: "diff_outcome \<Rightarrow> diff_report \<Rightarrow> diff_report" where
  "count_outcome out r =
     (case out of
        DiffMatch _ _ c \<Rightarrow>
          r\<lparr>dr_compared := wrap32 (dr_compared r + 1), dr_matched := wrap32 (dr_matched r + 1),
            dr_checked_balance := wrap32 (dr_checked_balance r + 1),
            dr_checked_nonce := wrap32 (dr_checked_nonce r + of_bool (dc_nonce c)),
            dr_checked_slot0 := wrap32 (dr_checked_slot0 r + of_bool (dc_slot0 c))\<rparr>
      | Mismatch _ _ \<Rightarrow>
          r\<lparr>dr_compared := wrap32 (dr_compared r + 1), dr_mismatched := wrap32 (dr_mismatched r + 1)\<rparr>
      | SkipProof _ \<Rightarrow> r\<lparr>dr_skipped := wrap32 (dr_skipped r + 1)\<rparr>
      | SkipOracle _ \<Rightarrow> r\<lparr>dr_skipped := wrap32 (dr_skipped r + 1)\<rparr>)"

text \<open>The loop over the addresses; each comparison asks at its own position.\<close>

fun diff_loop ::
    "('pk, 'sg) ext \<Rightarrow> serde \<Rightarrow> (nat \<Rightarrow> nat \<Rightarrow> data_upstream) \<Rightarrow> (nat \<Rightarrow> diff_oracle) \<Rightarrow> nat \<Rightarrow> (string \<times> string) list \<Rightarrow> safe_head \<Rightarrow>
     diff_report \<Rightarrow> diff_report" where
  "diff_loop X D proofs orc i [] safe r = r"
| "diff_loop X D proofs orc i ((name, addr) # addrs) safe r =
     diff_loop X D proofs orc (Suc i) addrs safe (count_outcome (diff_one X D (proofs i) (orc i) name addr safe) r)"

definition diff_vs_oracle ::
    "('pk, 'sg) ext \<Rightarrow> serde \<Rightarrow> (nat \<Rightarrow> nat \<Rightarrow> data_upstream) \<Rightarrow> (nat \<Rightarrow> diff_oracle) \<Rightarrow> (string \<times> string) list \<Rightarrow> safe_head \<Rightarrow> diff_report" where
  "diff_vs_oracle X D proofs orc addresses safe = diff_loop X D proofs orc 0 addresses safe diff_report_default"

section \<open>Calls and finality\<close>

definition TOTAL_SUPPLY_SELECTOR :: bytes where
  "TOTAL_SUPPLY_SELECTOR = [0x18, 0x16, 0x0d, 0xdd]"

definition BEP20 :: "string list" where
  "BEP20 =
     [''0xbb4cdb9cbd36b01bd1cbaebf2de08d9173bc095c'', ''0x55d398326f99059ff775485246999027b3197955'',
      ''0x8ac76a51cc950d9822d68b83fe1ad97b32cd580d'', ''0x0e09fabb73bd3ade0a17ecc321fd13a19e81ce82'',
      ''0xe9e7cea3dedca5984780bafc599bd69add087d56'', ''0x1af3f329e8be154074d8769d1ffa4ee058b1dbc3'',
      ''0xcf6bb5389c92bdda8a3747ddb454cb7a64626c63'', ''0x7130d2a12b9bcbfae4f2634d864a1ee1ce3ead9c'',
      ''0x2170ed0880ac9a755fd29b2688956bd959f933f8'']"

definition call_probe :: "string \<Rightarrow> bytes option" where
  "call_probe addr = (if addr_key addr \<in> set BEP20 then Some TOTAL_SUPPLY_SELECTOR else None)"

definition ok_opt :: "('e, 'a) result \<Rightarrow> 'a option" where
  "ok_opt r = (case r of Inl _ \<Rightarrow> None | Inr a \<Rightarrow> Some a)"

definition diff_call_one ::
    "('pk, 'sg, 'bc) rpc_env \<Rightarrow> nat \<Rightarrow> diff_oracle \<Rightarrow> string \<Rightarrow> safe_head \<Rightarrow> verified_block list \<Rightarrow> diff_outcome option" where
  "diff_call_one V base orc addr safe chain =
     (let X = re_ext V in
      Option.bind (call_probe addr) (\<lambda>selector.
      Option.bind (ok_opt (decode_hex_fixed X 20 addr)) (\<lambda>to.
      Option.bind (ok_opt (decode_hex_fixed X 32 (sh_hash safe))) (\<lambda>hash.
      Option.bind (find (\<lambda>b. vb_number b = sh_number safe \<and> vb_hash b = hash) chain) (\<lambda>local_block.
        let block = call_block_from_verified X local_block chain;
            tx = \<lparr>ct_from = zeros 20, ct_to = to, ct_data = selector, ct_value = zeros 32, ct_gas = None, ct_access_list = []\<rparr>
        in case eth_call_verified X (re_evm V) (upstream_prove V base) block tx of
             Inl e \<Rightarrow> Some (SkipProof (''eth_call: '' @ show_call_error e))
           | Inr out \<Rightarrow>
               let local = hex0x X out in
               (case oracle_call X orc addr selector safe of
                  Inl e \<Rightarrow> Some (SkipOracle (''eth_call: '' @ show_err e))
                | Inr remote \<Rightarrow>
                    if \<not> storage_word_equal local remote
                    then Some (Mismatch (''totalSupply '' @ local) (''totalSupply '' @ remote))
                    else Some (DiffMatch local remote (diff_checks_default\<lparr>dc_call := True\<rparr>))))))))"

definition parlia_number :: "diff_oracle \<Rightarrow> string \<Rightarrow> string \<Rightarrow> (err, nat) result" where
  "parlia_number orc block name =
     rbind (or_unverified_call orc name (JArray [JString block])) (\<lambda>v.
       let returned = name @ '' returned '' @ or_show orc v in
       case v of
         JNumber n \<Rightarrow> anyhow returned (number_as_u64 n)
       | JString t \<Rightarrow> map_err (\<lambda>e. [returned @ '': '' @ e]) (from_str_radix16 (trim_all_0x t))
       | _ \<Rightarrow> Inl [returned])"

definition finality_text :: "nat \<Rightarrow> nat \<Rightarrow> string" where
  "finality_text j f = ''justified '' @ show_nat j @ '' finalized '' @ show_nat f"

definition diff_finality_one :: "('pk, 'sg) ext \<Rightarrow> diff_oracle \<Rightarrow> nat \<Rightarrow> bytes \<Rightarrow> nat \<times> nat \<Rightarrow> diff_outcome option" where
  "diff_finality_one X orc snap_number snap_hash local =
     (let block = qty snap_number; skip = (\<lambda>t. Some (SkipOracle (''finality: '' @ t))) in
      case or_header_by_number orc snap_number of
        Inl e \<Rightarrow> skip (show_err e)
      | Inr h \<Rightarrow>
          (case decode_hex_fixed X 32 (h_hash h) of
             Inl e \<Rightarrow> skip (show_types_error e)
           | Inr remote_hash \<Rightarrow>
               if remote_hash \<noteq> snap_hash then skip ''oracle is on another block at this height''
               else
                 (case parlia_number orc block ''parlia_getJustifiedNumber'' of
                    Inl e \<Rightarrow> skip (show_err e)
                  | Inr remote_justified \<Rightarrow>
                      (case parlia_number orc block ''parlia_getFinalizedNumber'' of
                         Inl e \<Rightarrow> skip (show_err e)
                       | Inr remote_finalized \<Rightarrow>
                           let mine = finality_text (fst local) (snd local); theirs = finality_text remote_justified remote_finalized in
                           if fst local \<noteq> remote_justified \<or> snd local \<noteq> remote_finalized then Some (Mismatch mine theirs)
                           else Some (DiffMatch mine theirs (diff_checks_default\<lparr>dc_finality := True\<rparr>))))))"

section \<open>What an outcome means\<close>

text \<open>
  Every address is counted once: compared and matched, compared and mismatched, or skipped; and a sub-check is
  counted only for a match.
\<close>

definition tally :: "nat \<Rightarrow> diff_report \<Rightarrow> bool" where
  "tally n r \<longleftrightarrow> dr_compared r = dr_matched r + dr_mismatched r \<and> dr_compared r + dr_skipped r = n \<and>
     dr_checked_nonce r \<le> dr_matched r \<and> dr_checked_slot0 r \<le> dr_matched r \<and> dr_checked_balance r = dr_matched r"

lemma wrap32_small: "n < 2 ^ 32 \<Longrightarrow> wrap32 n = n"
  by (simp add: wrap32_def)

lemma count_outcome_tally:
  assumes "tally n r" "Suc n < 2 ^ 32"
  shows "tally (Suc n) (count_outcome out r)"
proof -
  have "dr_compared r < 2 ^ 32 - 1" "dr_matched r < 2 ^ 32 - 1" "dr_mismatched r < 2 ^ 32 - 1" "dr_skipped r < 2 ^ 32 - 1"
    "dr_checked_nonce r < 2 ^ 32 - 1" "dr_checked_slot0 r < 2 ^ 32 - 1" "dr_checked_balance r < 2 ^ 32 - 1"
    using assms unfolding tally_def by linarith+
  then show ?thesis using assms(1)
    by (cases out) (auto simp: tally_def count_outcome_def wrap32_small)
qed

lemma diff_loop_tally:
  assumes "tally n r" "n + length addrs < 2 ^ 32"
  shows "tally (n + length addrs) (diff_loop X D proofs orc i addrs safe r)"
  using assms
proof (induction addrs arbitrary: i n r)
  case (Cons a addrs)
  obtain name addr where a: "a = (name, addr)" by fastforce
  have "Suc n < 2 ^ 32" using Cons.prems(2) by simp
  then show ?case
    using Cons.IH [OF count_outcome_tally [OF Cons.prems(1)]] Cons.prems(2) a by simp
qed simp

lemma diff_vs_oracle_counts:
  assumes "length addresses < 2 ^ 32"
  shows "tally (length addresses) (diff_vs_oracle X D proofs orc addresses safe)"
  using diff_loop_tally [of 0 diff_report_default addresses X D proofs orc 0 safe] assms
  by (simp add: diff_vs_oracle_def tally_def diff_report_default_def)

text \<open>
  A match or a mismatch is never about an unproven value: the local side was verified against the state root
  of the head that was given.
\<close>

lemma soak_account_proven:
  assumes "soak_account X D proofs addr safe = Inr q"
  obtains root want pr acc where "decode_hex_fixed X 32 (sh_state_root safe) = Inr root" "decode_hex_fixed X 20 addr = Inr want"
    "verify_eth_get_proof X root want pr = Inr acc" "vq_balance q = encode_qty X (va_balance_wei acc)" "vq_nonce q = qty (va_nonce acc)"
    "\<forall>t. vq_slot0 q = Some t \<longrightarrow> (\<exists>w. verify_storage_slot X acc SOAK_STORAGE_SLOT pr = Inr w \<and> t = encode_qty X w)"
  using assms by (auto simp: soak_account_def res_simps split: if_splits)

lemma diff_one_match:
  assumes "diff_one X D proofs orc name addr safe = DiffMatch l r checks"
  shows "\<exists>q. soak_account X D proofs addr safe = Inr q \<and> l = vq_balance q \<and> oracle_balance orc addr safe = Inr r \<and> qty_equal X l r \<and>
    (dc_nonce checks \<longrightarrow> (\<exists>n. oracle_nonce orc addr safe = Inr n \<and> qty_equal X (vq_nonce q) n)) \<and>
    (dc_slot0 checks \<longrightarrow> (\<exists>t w. vq_slot0 q = Some t \<and> oracle_slot0 X orc addr safe = Inr w \<and> storage_word_equal t w)) \<and>
    (\<forall>n. oracle_nonce orc addr safe = Inr n \<longrightarrow> dc_nonce checks)"
  using assms
  by (auto simp: diff_one_def diff_slot0_def diff_checks_default_def split: sum.splits if_splits option.splits)

text \<open>
  The finality check compares only on one block: a match or a mismatch says that the oracle's header at that
  height hashes to the local snapshot's block.
\<close>

lemma diff_finality_same_block:
  assumes "diff_finality_one X orc n hash local = Some out" "\<forall>t. out \<noteq> SkipOracle t"
  shows "\<exists>h. or_header_by_number orc n = Inr h \<and> decode_hex_fixed X 32 (h_hash h) = Inr hash \<and>
    (\<exists>j f. parlia_number orc (qty n) ''parlia_getJustifiedNumber'' = Inr j \<and>
       parlia_number orc (qty n) ''parlia_getFinalizedNumber'' = Inr f \<and>
       (local = (j, f) \<longleftrightarrow> (\<exists>l r c. out = DiffMatch l r c)))"
  using assms by (cases local) (auto simp: diff_finality_one_def Let_def split: sum.splits if_splits)

text \<open>The soak list names each address once, and turning it keeps every address.\<close>

lemma rotate_front_rotate: "rotate_front k xs = rotate (min k (length xs)) xs"
proof (cases "length xs \<le> 1 \<or> length xs \<le> k")
  case True
  then have "xs = [] \<or> (\<exists>x. xs = [x]) \<or> length xs \<le> k" by (cases xs) auto
  then show ?thesis by (auto simp: rotate_front_def Let_def rotate_drop_take min_def)
next
  case False
  then show ?thesis by (auto simp: rotate_front_def Let_def rotate_drop_take min_def)
qed

lemma rotate_front_mset: "mset (rotate_front k xs) = mset xs"
proof -
  have "mset (drop n xs @ take n xs) = mset (take n xs @ drop n xs)" for n
    unfolding mset_append by (rule add.commute)
  then show ?thesis by (simp add: rotate_front_def Let_def)
qed

lemma soak_addresses_distinct: "distinct (map (addr_key \<circ> snd) SOAK_ADDRESSES)"
  by code_simp

lemma soak_list_distinct: "distinct (map (addr_key \<circ> snd) (soak_list probe))"
proof -
  have "distinct (map (addr_key \<circ> snd) (filter P SOAK_ADDRESSES))" for P
    using soak_addresses_distinct by (rule distinct_map_filter)
  then show ?thesis
    by (auto simp: soak_list_def addr_key_def eq_ignore_ascii_case_def to_ascii_lowercase_def)
qed

text \<open>
  Rejections of a proof that are still taken for transient, against the comment on the function: a proof that ends before the
  leaf, one with malformed RLP, and a storage leaf that is not an integer.
\<close>

lemma rejected_but_retryable:
  "(\<forall>e \<in> {MptRlp Truncated, MptRlp NonCanonical, Exhausted, BadStorageLeaf}.
      proof_error_retryable (show_proof_error (ProofMpt e))) \<and>
   (\<forall>e \<in> {MptHashMismatch, EmptyChild, ExtraNodes, BadAccount, KeyLeftover}.
      \<not> proof_error_retryable (show_proof_error (ProofMpt e)))"
  by code_simp

end
