(* ===== verification/Commands.thy ===== *)
theory Commands
  imports Diff Rpc_Http
begin

text \<open>
  The commands that set up the root of trust (\<open>main.rs\<close>, with the host comparison and the doctor lines of
  \<open>sync.rs\<close>): loading, confirming, verifying and writing a checkpoint.

  Files, the clock and upstreams enter as arguments: what reading a file gave, the time, and for the upstream of a command
  the answers by position, since two requests may be answered differently. What is only printed is left out,
  except where the text says what was trusted.
\<close>

section \<open>Hosts\<close>

text \<open>\<open>s.split_once("://").map(|(_, r)| r)\<close>\<close>

fun after_scheme :: "string \<Rightarrow> string option" where
  "after_scheme [] = None"
| "after_scheme (c # s) = (if starts_with (c # s) ''://'' then Some (drop 3 (c # s)) else after_scheme s)"

definition trim_end_slash :: "string \<Rightarrow> string" where
  "trim_end_slash s = rev (dropWhile (\<lambda>c. c = CHR ''/'') (rev s))"

definition rpc_host :: "string \<Rightarrow> string" where
  "rpc_host url =
     (let s = trim_end_slash (string_trim url);
          rest = (case after_scheme s of Some r \<Rightarrow> r | None \<Rightarrow> s);
          hostport = split_first (CHR ''/'') rest;
          host = last (split_on (CHR ''@'') hostport)
      in to_ascii_lowercase (split_first (CHR '':'') host))"

definition independent_rpc_hosts :: "string \<Rightarrow> string \<Rightarrow> bool" where
  "independent_rpc_hosts a b \<longleftrightarrow> rpc_host a \<noteq> [] \<and> rpc_host b \<noteq> [] \<and> rpc_host a \<noteq> rpc_host b"

text \<open>\<open>filter(|u| !u.trim().is_empty())\<close>, and the same after \<open>map(str::trim)\<close>.\<close>

definition not_blank :: "string option \<Rightarrow> string option" where
  "not_blank v = (case v of Some u \<Rightarrow> if string_trim u = [] then None else Some u | None \<Rightarrow> None)"

definition trimmed :: "string option \<Rightarrow> string option" where
  "trimmed v = (case v of Some u \<Rightarrow> if string_trim u = [] then None else Some (string_trim u) | None \<Rightarrow> None)"

definition env_opt :: "string option \<Rightarrow> string option" where
  "env_opt v = not_blank v"

definition env_host_line :: "string \<Rightarrow> string option \<Rightarrow> string" where
  "env_host_line var v = (case trimmed v of None \<Rightarrow> var @ '': unset'' | Some u \<Rightarrow> var @ '': host='' @ rpc_host u)"

definition env_independence_line :: "string \<Rightarrow> string option \<Rightarrow> string option \<Rightarrow> string option" where
  "env_independence_line what a b =
     Option.bind (trimmed a) (\<lambda>a. Option.bind (trimmed b) (\<lambda>b.
       Some (what @ (if independent_rpc_hosts a b then '': independent OK''
                     else '': SAME HOST '' @ em_dash @ '' fail-closed for that pair''))))"

text \<open>The file: not there, not readable, or its text; parsing is \<open>serde_json\<close>'s.\<close>

definition doctor_checkpoint_line :: "(bytes \<Rightarrow> (string, checkpoint) result) \<Rightarrow> string \<Rightarrow> file_read \<Rightarrow> nat \<Rightarrow> string" where
  "doctor_checkpoint_line parse name file now =
     (case file of
        File_missing \<Rightarrow> name @ '': absent''
      | File_error _ \<Rightarrow> name @ '': present (unreadable)''
      | File_bytes raw \<Rightarrow>
          (case parse raw of
             Inl _ \<Rightarrow> name @ '': present (invalid JSON)''
           | Inr cp \<Rightarrow>
               let age = sat_sub now (cp_timestamp cp) in
               name @ '': present number='' @ show_nat (cp_number cp) @ '' age='' @ show_nat age @ ''s n_seal='' @
               show_nat (length (cp_sealing_set cp)) @ '' fork='' @ cp_fork_id cp @ '' slo='' @ checkpoint_slo_label age))"

section \<open>Loading and confirming a checkpoint\<close>

definition store_path :: "'p option \<Rightarrow> 'p option \<Rightarrow> bool \<Rightarrow> 'p option" where
  "store_path checkpoint checkpoint_store no_store =
     (if no_store then None else case checkpoint_store of Some p \<Rightarrow> Some p | None \<Rightarrow> checkpoint)"

definition load_checkpoint ::
    "('pk, 'sg) ext \<Rightarrow> (bytes \<Rightarrow> (string, checkpoint) result) \<Rightarrow> string \<Rightarrow> (string, bytes) result \<Rightarrow> nat \<Rightarrow> bool \<Rightarrow> nat \<Rightarrow>
     (err, checkpoint) result" where
  "load_checkpoint X parse path file max_age_hours allow_stale now =
     rbind (map_err (\<lambda>e. [''read '' @ path, e]) file) (\<lambda>raw.
     rbind (map_err (\<lambda>e. [''checkpoint JSON'', e]) (parse raw)) (\<lambda>cp.
     rbind (context_res ''checkpoint'' (types_res (validate_basic X cp))) (\<lambda>_.
       case assert_checkpoint_age (cp_timestamp cp) now (sat_mul max_age_hours 3600) of
         Inl e \<Rightarrow> if allow_stale then Inr cp else Inl [show_consensus_error e]
       | Inr _ \<Rightarrow> Inr cp)))"

definition UNCONFIRMED_CHECKPOINT_WARNING :: string where
  "UNCONFIRMED_CHECKPOINT_WARNING =
     ''warning: checkpoint not confirmed by a second source '' @ em_dash @
     '' it is the whole root of trust here, and every later check is relative to it. '' @
     ''Pass --checkpoint-oracle <other-host> (add --require-multisource-checkpoint to make disagreement fatal).''"

text \<open>The result carries the lines that are printed; \<open>at\<close> is the upstream a URL opens.\<close>

definition confirm_with ::
    "('pk, 'sg) ext \<Rightarrow> (string \<Rightarrow> upstream) \<Rightarrow> checkpoint \<Rightarrow> string \<Rightarrow> (err, string list) result" where
  "confirm_with X at cp url =
     rbind (confirm_checkpoint_with_oracle X cp (at url)) (\<lambda>_. Inr [''checkpoint oracle OK ('' @ rpc_host url @ '')''])"

definition confirm_loaded_checkpoint ::
    "('pk, 'sg) ext \<Rightarrow> (string \<Rightarrow> upstream) \<Rightarrow> checkpoint \<Rightarrow> bool \<Rightarrow> string \<Rightarrow> string option \<Rightarrow> bool \<Rightarrow> (err, string list) result" where
  "confirm_loaded_checkpoint X at cp has_path upstream oracle_url require =
     (if require then
        if \<not> has_path then Inl [''--require-multisource-checkpoint needs --checkpoint'']
        else
          (case not_blank oracle_url of
             None \<Rightarrow> Inl [''--require-multisource-checkpoint needs --checkpoint-oracle / HELIOS_BSC_CHECKPOINT_ORACLE'']
           | Some url \<Rightarrow>
               if \<not> independent_rpc_hosts upstream url
               then Inl [''checkpoint oracle must be a different host than upstream (both '' @ rpc_host url @ '')'']
               else confirm_with X at cp url)
      else
        (case not_blank oracle_url of
           Some url \<Rightarrow>
             if \<not> independent_rpc_hosts upstream url
             then Inr [UNCONFIRMED_CHECKPOINT_WARNING,
                       ''ignoring --checkpoint-oracle: same host as upstream ('' @ rpc_host url @ '')'']
             else confirm_with X at cp url
         | None \<Rightarrow> Inr (if has_path then [UNCONFIRMED_CHECKPOINT_WARNING] else [])))"

definition verify_checkpoint ::
    "('pk, 'sg) ext \<Rightarrow> (bytes \<Rightarrow> (string, checkpoint) result) \<Rightarrow> (string \<Rightarrow> upstream) \<Rightarrow> string \<Rightarrow> (string, bytes) result \<Rightarrow> string \<Rightarrow>
     nat \<Rightarrow> bool \<Rightarrow> string option \<Rightarrow> bool \<Rightarrow> nat \<Rightarrow> (err, checkpoint) result" where
  "verify_checkpoint X parse at path file upstream max_age_hours allow_stale oracle_url require_multisource now =
     rbind (load_checkpoint X parse path file max_age_hours allow_stale now) (\<lambda>cp.
     rbind (context_res ''upstream disagrees with checkpoint'' (confirm_checkpoint_with_oracle X cp (at upstream))) (\<lambda>_.
     rbind (confirm_loaded_checkpoint X at cp True upstream oracle_url require_multisource) (\<lambda>_. Inr cp)))"

datatype finality_arg = ArgConfirmationDepth | ArgFast

definition finality_startup_line :: "finality_arg \<Rightarrow> bool \<Rightarrow> string" where
  "finality_startup_line arg armed =
     (case arg of
        ArgFast \<Rightarrow>
          if armed then ''finality: fast (BEP-126 BLS finalized head, ~2 blocks behind the tip)''
          else ''finality: confirmation-depth (~106-113 blocks) '' @ em_dash @ '' fast is selected but this '' @
               ''checkpoint carries no BLS vote keys, so there is no finalized head to read at. '' @
               ''Write one with `write-checkpoint --sealing-set-from-epoch` to arm it.''
      | ArgConfirmationDepth \<Rightarrow> ''finality: confirmation-depth (~106-113 blocks behind the tip)'')"

section \<open>Writing a checkpoint\<close>

fun check_addresses :: "('pk, 'sg) ext \<Rightarrow> string list \<Rightarrow> (err, unit) result" where
  "check_addresses X [] = Inr ()"
| "check_addresses X (a # as) =
     rbind (context_res (''sealing-set address '' @ a) (types_res (decode_hex_fixed X 20 a))) (\<lambda>_. check_addresses X as)"

definition parse_sealing_set :: "('pk, 'sg) ext \<Rightarrow> string \<Rightarrow> (err, string list) result" where
  "parse_sealing_set X s =
     (let l = filter (\<lambda>a. a \<noteq> []) (map string_trim (split_on (CHR '','') s)) in
      if l = [] then Inl [''sealing-set is empty '' @ em_dash @ '' pass comma-separated validator addresses'']
      else rbind (check_addresses X l) (\<lambda>_. Inr l))"

text \<open>Two positions for each header: the block number is asked for only when the block is \<open>latest\<close>.\<close>

definition fetch_header :: "(nat \<Rightarrow> upstream) \<Rightarrow> nat \<Rightarrow> string \<Rightarrow> (err, rpc_block_header) result" where
  "fetch_header ups k block =
     rbind (if eq_ignore_ascii_case block ''latest'' then up_block_number (ups k)
            else map_err (\<lambda>e. [''block number'', e]) (from_str_radix16 (trim_all_0x block))) (\<lambda>n.
       map_ok snd (up_header_by_number (ups (k + 1)) n))"

definition epoch_window_text :: "nat \<Rightarrow> nat \<Rightarrow> nat \<Rightarrow> string" where
  "epoch_window_text number epoch_block activate_at =
     ''block '' @ show_nat number @ '' is inside epoch '' @ show_nat epoch_block @ [CHR 0x27] @
     ''s activation window (the set announced there takes effect at '' @ show_nat activate_at @ '') '' @ em_dash @
     '' write the checkpoint at block '' @ show_nat (sat_sub epoch_block 1) @ '' instead''"

definition epoch_in_force :: "('pk, 'sg) ext \<Rightarrow> (nat \<Rightarrow> upstream) \<Rightarrow> nat \<Rightarrow> nat \<Rightarrow> nat \<Rightarrow> (err, nat) result" where
  "epoch_in_force X ups k number epoch_length =
     (if epoch_length = 0 then Inl [''cannot derive an epoch: epoch length is 0 for block '' @ show_nat number]
      else
        let epoch_block = number div epoch_length * epoch_length in
        if epoch_block < epoch_length
        then Inl [''block '' @ show_nat number @ '' is in the first epoch; name a sealing set explicitly'']
        else
          rbind (fetch_header ups k (qty epoch_block)) (\<lambda>epoch_header.
          rbind (fetch_header ups (k + 2) (qty (epoch_block - epoch_length))) (\<lambda>prev_header.
          rbind (snapshot_res (epoch_seed_at X number epoch_length epoch_header prev_header)) (\<lambda>seed.
            case seed of
              SeedActive b _ \<Rightarrow> Inr b
            | SeedPendingActivation b activate_at \<Rightarrow> Inl [epoch_window_text number b activate_at]))))"

definition assert_outside_activation_window ::
    "('pk, 'sg) ext \<Rightarrow> (nat \<Rightarrow> upstream) \<Rightarrow> nat \<Rightarrow> nat \<Rightarrow> nat \<Rightarrow> nat option \<Rightarrow> (err, unit) result" where
  "assert_outside_activation_window X ups k number epoch_length chosen_epoch =
     (if epoch_length = 0 then Inr ()
      else
        let epoch_block = number div epoch_length * epoch_length in
        if epoch_block < epoch_length then Inr ()
        else
          rbind (fetch_header ups k (qty epoch_block)) (\<lambda>epoch_header.
          rbind (fetch_header ups (k + 2) (qty (epoch_block - epoch_length))) (\<lambda>prev_header.
          rbind (snapshot_res (epoch_seed_at X number epoch_length epoch_header prev_header)) (\<lambda>seed.
            case seed of
              SeedActive _ _ \<Rightarrow>
                (case chosen_epoch of
                   Some c \<Rightarrow>
                     if c = epoch_block then Inr ()
                     else Inl [''--sealing-set-from-epoch '' @ show_nat c @ '' is not the epoch in force at block '' @ show_nat number @
                            '': that is '' @ show_nat epoch_block @ ''. Epoch '' @ show_nat c @ '' did activate, but '' @
                            show_nat epoch_block @ '' has since superseded it, so the set would be stale.'']
                 | None \<Rightarrow> Inr ())
            | SeedPendingActivation b activate_at \<Rightarrow> Inl [epoch_window_text number b activate_at]))))"

text \<open>The set and the vote keys of an epoch header, for the two ways that name an epoch.\<close>

definition set_from_epoch ::
    "('pk, 'sg) ext \<Rightarrow> rpc_block_header \<Rightarrow> nat \<Rightarrow> nat \<Rightarrow> (err, string list \<times> string list option \<times> nat option) result" where
  "set_from_epoch X epoch_header chosen number =
     rbind (consensus_res (vote_keys_from_activated_epoch X epoch_header number)) (\<lambda>keys.
     rbind (consensus_res (sealing_set_from_activated_epoch X epoch_header number)) (\<lambda>l.
       Inr (l, Some keys, Some chosen)))"

definition choose_set ::
    "('pk, 'sg) ext \<Rightarrow> (nat \<Rightarrow> upstream) \<Rightarrow> nat \<Rightarrow> nat \<Rightarrow> string option \<Rightarrow> string option \<Rightarrow>
     (err, string list \<times> string list option \<times> nat option) result" where
  "choose_set X ups number epoch_length sealing_set from_epoch =
     (case (sealing_set, from_epoch) of
        (Some s, None) \<Rightarrow> rbind (parse_sealing_set X s) (\<lambda>l. Inr (l, None, None))
      | (None, Some epoch_id) \<Rightarrow>
          rbind (fetch_header ups 2 epoch_id) (\<lambda>epoch_header.
          rbind (types_res (decode_u64 (h_number epoch_header))) (\<lambda>chosen.
            set_from_epoch X epoch_header chosen number))
      | (Some _, Some _) \<Rightarrow> Inl [''pass either --sealing-set or --sealing-set-from-epoch, not both'']
      | (None, None) \<Rightarrow>
          rbind (epoch_in_force X ups 2 number epoch_length) (\<lambda>epoch_block.
          rbind (fetch_header ups 6 (qty epoch_block)) (\<lambda>epoch_header.
            set_from_epoch X epoch_header epoch_block number)))"

definition attestation_text :: "nat option \<Rightarrow> string" where
  "attestation_text chosen =
     (if chosen \<noteq> None then ''helios-bsc write-checkpoint from activated epoch extraData'' else ''helios-bsc write-checkpoint'')"

definition confirm_written ::
    "('pk, 'sg) ext \<Rightarrow> (string \<Rightarrow> upstream) \<Rightarrow> checkpoint \<Rightarrow> string \<Rightarrow> string option \<Rightarrow> (err, unit) result" where
  "confirm_written X at cp url checkpoint_oracle =
     (case trimmed checkpoint_oracle of
        Some u \<Rightarrow>
          if \<not> independent_rpc_hosts url u
          then Inl [''--checkpoint-oracle must be a different host than --upstream (both '' @ rpc_host u @ '')'']
          else context_res ''checkpoint oracle disagrees'' (confirm_checkpoint_with_oracle X cp (at u))
      | None \<Rightarrow> Inr ())"

text \<open>The result is the checkpoint that is written to the file.\<close>

definition write_checkpoint ::
    "('pk, 'sg) ext \<Rightarrow> (nat \<Rightarrow> upstream) \<Rightarrow> (string \<Rightarrow> upstream) \<Rightarrow> string \<Rightarrow> string \<Rightarrow> string option \<Rightarrow> string option \<Rightarrow>
     string option \<Rightarrow> (err, checkpoint) result" where
  "write_checkpoint X ups at url block sealing_set from_epoch checkpoint_oracle =
     rbind (fetch_header ups 0 block) (\<lambda>header.
     rbind (types_res (decode_u64 (h_number header))) (\<lambda>number.
     rbind (types_res (decode_u64 (h_timestamp header))) (\<lambda>timestamp.
     let fork = params_at number timestamp in
     rbind (choose_set X ups number (fp_epoch_length fork) sealing_set from_epoch) (\<lambda>(l, vote_keys, chosen).
     rbind (types_res (from_rpc_header header l (fp_name fork) (Some (attestation_text chosen)))) (\<lambda>cp0.
     let cp = (case vote_keys of Some keys \<Rightarrow> with_vote_keys cp0 keys | None \<Rightarrow> cp0) in
     rbind (types_res (validate_basic X cp)) (\<lambda>_.
     rbind (confirm_written X at cp url checkpoint_oracle) (\<lambda>_.
     rbind (assert_outside_activation_window X ups 8 number (fp_epoch_length fork) chosen) (\<lambda>_.
       Inr cp))))))))"

section \<open>What the commands guarantee\<close>

lemma no_prefix:
  assumes "\<forall>x \<in> set s. is_hexdigit x" "\<not> is_hexdigit c"
  shows "\<not> starts_with s [CHR ''0'', c]"
proof
  assume "starts_with s [CHR ''0'', c]"
  then have "c \<in> set (take (Suc (Suc 0)) s)" by (simp add: starts_with_def)
  then show False using assms in_set_takeD by metis
qed

lemma trim_qty_prefix: "trim_all_0x (qty n) = show_hex n"
proof -
  have "\<not> is_hexdigit (CHR ''x'')" "\<not> is_hexdigit (CHR ''X'')" by code_simp+
  then have no_x: "\<not> starts_with (show_hex n) ''0x''" "\<not> starts_with (show_hex n) ''0X''"
    using no_prefix show_hex_digits by auto
  have "trim_start [''0x''] (qty n) = trim_start [''0x''] (show_hex n)"
    by (simp add: trim_start.simps [of _ "CHR ''0'' # CHR ''x'' # show_hex n"] qty_def starts_with_def)
  also have "\<dots> = show_hex n" using no_x(1) by (simp add: trim_start.simps)
  finally show ?thesis using no_x(2) by (simp add: trim_all_0x_def trim_start.simps)
qed

lemma fetch_header_qty:
  assumes "is_u64 n"
  shows "fetch_header ups k (qty n) = map_ok snd (up_header_by_number (ups (k + 1)) n)"
proof -
  have "\<not> eq_ignore_ascii_case (qty n) ''latest''"
    by (simp add: eq_ignore_ascii_case_def qty_def ascii_lower_def)
  then show ?thesis using from_radix_show_hex [OF assms] by (simp add: fetch_header_def trim_qty_prefix)
qed

text \<open>A confirmation: a header served under the URL carries the checkpoint's number, hash, parent and state root.\<close>

definition vouched :: "('pk, 'sg) ext \<Rightarrow> upstream \<Rightarrow> checkpoint \<Rightarrow> bool" where
  "vouched X u cp \<longleftrightarrow>
     (\<exists>now h g. up_header_by_number u (cp_number cp) = Inr (now, h) \<and> up_header_by_hash u (cp_hash cp) = Inr g \<and>
        header_matches_checkpoint X cp h = Inr () \<and> header_matches_checkpoint X cp g = Inr ())"

lemma confirm_vouched: "confirm_checkpoint_with_oracle X cp u = Inr v \<longleftrightarrow> vouched X u cp"
  by (auto simp: confirm_checkpoint_with_oracle_def vouched_def res_simps)

text \<open>
  Loading with \<open>--require-multisource-checkpoint\<close> succeeds only when another host vouches for the
  checkpoint, and without it the warning is printed exactly when nobody did.
\<close>

lemma confirm_loaded_cases:
  "confirm_loaded_checkpoint X at cp has_path upstream oracle_url require = Inr out \<Longrightarrow>
   (\<exists>u. not_blank oracle_url = Some u \<and> independent_rpc_hosts upstream u \<and> vouched X (at u) cp \<and> hd out \<noteq> UNCONFIRMED_CHECKPOINT_WARNING) \<or>
   \<not> require \<and> (has_path \<longrightarrow> hd out = UNCONFIRMED_CHECKPOINT_WARNING)"
  by (auto simp: confirm_loaded_checkpoint_def confirm_with_def confirm_vouched res_simps UNCONFIRMED_CHECKPOINT_WARNING_def
      split: if_splits option.splits)

lemma verify_checkpoint_vouched:
  assumes "verify_checkpoint X parse at path file upstream hours stale oracle require now = Inr cp"
  shows "validate_basic X cp = Inr () \<and> vouched X (at upstream) cp \<and>
    (\<not> stale \<and> 0 < hours \<longrightarrow> now - cp_timestamp cp \<le> sat_mul hours 3600) \<and>
    (require \<longrightarrow> (\<exists>u. not_blank oracle = Some u \<and> independent_rpc_hosts upstream u \<and> vouched X (at u) cp))"
  using assms
  by (auto simp: verify_checkpoint_def load_checkpoint_def confirm_vouched res_simps assert_checkpoint_age_def checkpoint_age_secs_def
      sat_sub_def sat_mul_def u64_max_def Let_def dest!: confirm_loaded_cases split: sum.splits if_splits)

text \<open>
  The set of a written checkpoint. When the operator names it, it is the list as given, and no vote keys are
  stored; otherwise it is announced, with its keys, by an epoch header whose set the epoch's own delay already lets seal at that height.
\<close>

definition announced_by :: "('pk, 'sg) ext \<Rightarrow> rpc_block_header \<Rightarrow> checkpoint \<Rightarrow> bool" where
  "announced_by X h cp \<longleftrightarrow>
     (\<exists>vals. validators_from_activated_epoch X h (cp_number cp) = Inr vals \<and>
        cp_sealing_set cp = map (\<lambda>v. format_address X (sv_address v)) vals \<and>
        cp_vote_keys cp = Some (map (\<lambda>v. hex0x X (sv_vote_key v)) vals))"

definition outside_window :: "('pk, 'sg) ext \<Rightarrow> (nat \<Rightarrow> upstream) \<Rightarrow> nat \<Rightarrow> checkpoint \<Rightarrow> bool" where
  "outside_window X ups k cp \<longleftrightarrow>
     (let l = fp_epoch_length (params_at (cp_number cp) (cp_timestamp cp)); b = cp_number cp div l * l in
      b < l \<or>
      (\<exists>n m h g c turn. up_header_by_number (ups (k + 1)) b = Inr (n, h) \<and> up_header_by_number (ups (k + 3)) (b - l) = Inr (m, g) \<and>
         epoch_seed_at X (cp_number cp) l h g = Inr (SeedActive c turn)))"

lemma assert_outside_Inr:
  assumes "assert_outside_activation_window X ups k number l chosen = Inr v" "is_u64 number" "0 < l" "l \<le> number div l * l"
  shows "\<exists>n m h g c turn. up_header_by_number (ups (k + 1)) (number div l * l) = Inr (n, h) \<and>
    up_header_by_number (ups (k + 3)) (number div l * l - l) = Inr (m, g) \<and>
    epoch_seed_at X number l h g = Inr (SeedActive c turn) \<and> (\<forall>e. chosen = Some e \<longrightarrow> e = number div l * l)"
proof -
  define b where "b = number div l * l"
  have "b \<le> number" unfolding b_def by simp
  then have u: "is_u64 b" "is_u64 (b - l)" using assms(2) unfolding is_u64_def by linarith+
  obtain n m h g seed where hg: "up_header_by_number (ups (k + 1)) b = Inr (n, h)"
    "up_header_by_number (ups (k + 3)) (b - l) = Inr (m, g)" "epoch_seed_at X number l h g = Inr seed"
    using assms(1,3,4) u unfolding assert_outside_activation_window_def b_def [symmetric] Let_def
    by (auto simp: fetch_header_qty res_simps numeral_3_eq_3 split: if_splits)
  then show ?thesis
    using assms(1,3,4) u unfolding assert_outside_activation_window_def b_def [symmetric] Let_def
    by (cases seed) (auto simp: fetch_header_qty res_simps numeral_3_eq_3 split: if_splits option.splits)
qed

lemma assert_outside:
  assumes "assert_outside_activation_window X ups k (cp_number cp)
      (fp_epoch_length (params_at (cp_number cp) (cp_timestamp cp))) chosen = Inr v" "is_u64 (cp_number cp)"
  shows "outside_window X ups k cp"
  using assert_outside_Inr [OF assms epoch_length_pos] unfolding outside_window_def Let_def by (meson leI)

lemma write_checkpoint_Inr:
  assumes "write_checkpoint X ups at url block names epoch oracle = Inr cp"
  obtains header l keys chosen where "fetch_header ups 0 block = Inr header" "decode_u64 (h_number header) = Inr (cp_number cp)"
    "decode_u64 (h_timestamp header) = Inr (cp_timestamp cp)" "cp_hash cp = h_hash header" "cp_state_root cp = h_state_root header"
    "cp_parent_hash cp = h_parent_hash header" "cp_sealing_set cp = l" "cp_vote_keys cp = keys"
    "choose_set X ups (cp_number cp) (fp_epoch_length (params_at (cp_number cp) (cp_timestamp cp))) names epoch = Inr (l, keys, chosen)"
    "validate_basic X cp = Inr ()" "confirm_written X at cp url oracle = Inr ()"
    "assert_outside_activation_window X ups 8 (cp_number cp) (fp_epoch_length (params_at (cp_number cp) (cp_timestamp cp))) chosen = Inr ()"
  using assms
  by (auto simp: write_checkpoint_def res_simps Let_def from_rpc_header_def with_vote_keys_def split: option.splits)

lemma epoch_in_force_Inr: "epoch_in_force X ups k number l = Inr b \<Longrightarrow> l \<le> number div l * l"
  by (auto simp: epoch_in_force_def Let_def split: if_splits)

lemma choose_set_Inr:
  assumes "choose_set X ups number el names epoch = Inr (l, keys, chosen)"
  shows "(\<exists>t. names = Some t \<and> epoch = None \<and> parse_sealing_set X t = Inr l \<and> keys = None \<and> chosen = None) \<or>
    names = None \<and> chosen \<noteq> None \<and>
    (\<exists>h vals. validators_from_activated_epoch X h number = Inr vals \<and>
       l = map (\<lambda>v. format_address X (sv_address v)) vals \<and> keys = Some (map (\<lambda>v. hex0x X (sv_vote_key v)) vals) \<and>
       (case epoch of Some e \<Rightarrow> fetch_header ups 2 e = Inr h \<and> (\<exists>c. chosen = Some c \<and> decode_u64 (h_number h) = Inr c)
        | None \<Rightarrow> fetch_header ups 6 (qty (the chosen)) = Inr h \<and> el \<le> number div el * el))"
  using assms
  by (auto simp: choose_set_def set_from_epoch_def res_simps vote_keys_from_activated_epoch_def sealing_set_from_activated_epoch_def
      dest: epoch_in_force_Inr split: option.splits)

text \<open>
  C9. What a written checkpoint is. It validates and carries the number, hashes and time of one header that the
  upstream served; with a checkpoint oracle given, a host other than the upstream vouches for it; its block is
  outside the activation window that the two served epoch headers show. Where its sealing set comes from: an operator's
  list is taken as given, and then there are no vote keys; without one, the set and its vote keys are those of the epoch header the
  upstream served for the block the operator named, whose number is the epoch in force at the checkpoint (past the first
  epoch), or, with no block named, of the header it served for the epoch in force. In both cases that
  header's set is already active at the checkpoint.
\<close>

theorem written_checkpoint_sound:
  assumes "write_checkpoint X ups at url block names epoch oracle = Inr cp"
  shows "validate_basic X cp = Inr () \<and> outside_window X ups 8 cp \<and>
    (\<exists>h. fetch_header ups 0 block = Inr h \<and> decode_u64 (h_number h) = Inr (cp_number cp) \<and> cp_hash cp = h_hash h \<and>
       cp_parent_hash cp = h_parent_hash h \<and> cp_state_root cp = h_state_root h \<and> decode_u64 (h_timestamp h) = Inr (cp_timestamp cp)) \<and>
    (case trimmed oracle of None \<Rightarrow> True | Some u \<Rightarrow> independent_rpc_hosts url u \<and> vouched X (at u) cp) \<and>
    (let l = fp_epoch_length (params_at (cp_number cp) (cp_timestamp cp)); b = cp_number cp div l * l in
     case (names, epoch) of
       (Some t, _) \<Rightarrow> parse_sealing_set X t = Inr (cp_sealing_set cp) \<and> cp_vote_keys cp = None
     | (None, Some e) \<Rightarrow>
         \<exists>h. fetch_header ups 2 e = Inr h \<and> announced_by X h cp \<and> (l \<le> b \<longrightarrow> decode_u64 (h_number h) = Inr b)
     | (None, None) \<Rightarrow> \<exists>h. fetch_header ups 6 (qty b) = Inr h \<and> announced_by X h cp)"
proof -
  obtain header l keys chosen where w: "fetch_header ups 0 block = Inr header" "decode_u64 (h_number header) = Inr (cp_number cp)"
    "decode_u64 (h_timestamp header) = Inr (cp_timestamp cp)" "cp_hash cp = h_hash header" "cp_state_root cp = h_state_root header"
    "cp_parent_hash cp = h_parent_hash header" "cp_sealing_set cp = l" "cp_vote_keys cp = keys"
    "choose_set X ups (cp_number cp) (fp_epoch_length (params_at (cp_number cp) (cp_timestamp cp))) names epoch = Inr (l, keys, chosen)"
    "validate_basic X cp = Inr ()" "confirm_written X at cp url oracle = Inr ()"
    "assert_outside_activation_window X ups 8 (cp_number cp) (fp_epoch_length (params_at (cp_number cp) (cp_timestamp cp))) chosen = Inr ()"
    using assms by (rule write_checkpoint_Inr)
  have u: "is_u64 (cp_number cp)" using w(2) by (rule decode_u64_is_u64)
  let ?l = "fp_epoch_length (params_at (cp_number cp) (cp_timestamp cp))"
  let ?b = "cp_number cp div ?l * ?l"
  have chosen: "chosen = Some e \<Longrightarrow> ?l \<le> ?b \<Longrightarrow> e = ?b" for e using assert_outside_Inr [OF w(12) u epoch_length_pos] by auto
  have o: "case trimmed oracle of None \<Rightarrow> True | Some u \<Rightarrow> independent_rpc_hosts url u \<and> vouched X (at u) cp"
    using w(11) by (auto simp: confirm_written_def confirm_vouched res_simps split: option.split option.split_asm if_splits)
  have n: "case (names, epoch) of
       (Some t, _) \<Rightarrow> parse_sealing_set X t = Inr (cp_sealing_set cp) \<and> cp_vote_keys cp = None
     | (None, Some e) \<Rightarrow>
         \<exists>h. fetch_header ups 2 e = Inr h \<and> announced_by X h cp \<and> (?l \<le> ?b \<longrightarrow> decode_u64 (h_number h) = Inr ?b)
     | (None, None) \<Rightarrow> \<exists>h. fetch_header ups 6 (qty ?b) = Inr h \<and> announced_by X h cp"
    using choose_set_Inr [OF w(9)] w(7,8) chosen
    unfolding announced_by_def by (cases names; cases epoch) auto
  show ?thesis unfolding Let_def using w(1-6,10) assert_outside [OF w(12) u] o n by blast
qed

text \<open>The turn length a walk from a checkpoint begins with: the fork's, unless the header of its epoch, as served, records another.\<close>

definition first_turn :: "('pk, 'sg) ext \<Rightarrow> upstream \<Rightarrow> checkpoint \<Rightarrow> nat \<Rightarrow> bool" where
  "first_turn X up cp turn \<longleftrightarrow>
     (let fork = params_at (cp_number cp) (cp_timestamp cp); l = fp_epoch_length fork; b = cp_number cp div l * l in
      if b < l then turn = fp_turn_length fork
      else \<exists>now h vals t. up_header_by_number up b = Inr (now, h) \<and> epoch_records X h = Inr (vals, t) \<and>
             turn = (if 0 < t then t else fp_turn_length fork))"

lemma epoch_seed_turn: "epoch_seed_at X n l h g = Inr (SeedActive c turn) \<Longrightarrow> \<exists>vals. epoch_records X h = Inr (vals, turn)"
  by (auto simp: epoch_seed_at_def res_simps Let_def split: if_splits)

lemma seed_in_window:
  assumes window: "outside_window X ups 8 cp"
    and same: "\<forall>n. map_ok snd (up_header_by_number up n) = map_ok snd (up_header_by_number (ups 9) n)"
      "\<forall>n. map_ok snd (up_header_by_number up n) = map_ok snd (up_header_by_number (ups 11) n)"
    and snap: "sn_epoch_length s = fp_epoch_length (params_at (cp_number cp) (cp_timestamp cp))"
      "sn_turn_length s = fp_turn_length (params_at (cp_number cp) (cp_timestamp cp))"
      "sn_number s = cp_number cp" "sn_number s < sn_walk_start s"
  shows "\<exists>turn. first_turn X up cp turn \<and> seed_epoch_state X up (cp_number cp) s = Inr (s\<lparr>sn_turn_length := turn\<rparr>)"
proof -
  define fork where "fork = params_at (cp_number cp) (cp_timestamp cp)"
  define l where "l = fp_epoch_length fork"
  define b where "b = cp_number cp div l * l"
  note folds = fork_def [symmetric] l_def [symmetric] b_def [symmetric]
  note snap = snap [unfolded folds]
  have l: "l \<noteq> 0" unfolding l_def fork_def using epoch_length_pos by (metis less_not_refl)
  consider "b < l" | n m h g c turn where "\<not> b < l" "up_header_by_number (ups 9) b = Inr (n, h)"
    "up_header_by_number (ups 11) (b - l) = Inr (m, g)" "epoch_seed_at X (cp_number cp) l h g = Inr (SeedActive c turn)"
    using window unfolding outside_window_def Let_def folds by (cases "b < l") auto
  then show ?thesis
  proof cases
    case 1
    then have "seed_epoch_state X up (cp_number cp) s = Inr s" unfolding seed_epoch_state_def Let_def snap(1) folds by simp
    moreover have "first_turn X up cp (fp_turn_length fork)" using 1 unfolding first_turn_def Let_def folds by simp
    ultimately show ?thesis using snap(2) by (intro exI [of _ "fp_turn_length fork"]) simp
  next
    case (2 n m h g c turn)
    obtain n' m' where u: "up_header_by_number up b = Inr (n', h)" "up_header_by_number up (b - l) = Inr (m', g)"
      using same(1) [rule_format, of b] same(2) [rule_format, of "b - l"] unfolding 2(2,3) by (auto simp: res_simps)
    then have "seed_epoch_state X up (cp_number cp) s = apply_seed (cp_number cp) (SeedActive c turn) s"
      unfolding seed_epoch_state_def Let_def snap(1) folds using 2(1,4) l by (simp add: context_res_def snapshot_res_def)
    also have "\<dots> = Inr (s\<lparr>sn_turn_length := if 0 < turn then turn else fp_turn_length fork\<rparr>)"
      using snap(2,4) by (simp add: seed_turn_length_def)
    moreover have "first_turn X up cp (if 0 < turn then turn else fp_turn_length fork)"
      using 2(1) u(1) epoch_seed_turn [OF 2(4)] unfolding first_turn_def Let_def folds by auto
    ultimately show ?thesis by metis
  qed
qed

text \<open>
  C10. Writing refuses what starting would refuse. When a checkpoint was written, and the upstream at start serves the same
  headers as when its epoch was checked, then starting from it never fails on the epoch: once the
  checkpoint's own header is accepted, the walk begins from the checkpoint's snapshot with everything but the turn length
  unchanged. The turn length is the one that the served header of the checkpoint's epoch records, and the fork's own in the
  first epoch or where the header records zero.
\<close>

theorem written_checkpoint_starts:
  assumes w: "write_checkpoint X ups at url block names epoch oracle = Inr cp" "cp_number cp < u64_max"
    and same: "\<forall>n. map_ok snd (up_header_by_number up n) = map_ok snd (up_header_by_number (ups 9) n)"
      "\<forall>n. map_ok snd (up_header_by_number up n) = map_ok snd (up_header_by_number (ups 11) n)"
    and start: "sat_sub to (cp_number cp) \<le> max_sync" "up_header_by_number up (cp_number cp) = Inr (now, h)"
      "engine_from_checkpoint_and_header X now cp h = Inr engine"
  shows "\<exists>turn. first_turn X up cp turn \<and> walk_from_checkpoint X up cp to max_sync =
    walk_engine X up to (engine\<lparr>eg_snapshot := (eg_snapshot engine)\<lparr>sn_turn_length := turn\<rparr>\<rparr>)"
proof -
  let ?s = "eg_snapshot engine" and ?fork = "params_at (cp_number cp) (cp_timestamp cp)"
  have snap: "sn_epoch_length ?s = fp_epoch_length ?fork" "sn_turn_length ?s = fp_turn_length ?fork"
    "sn_number ?s = cp_number cp" "sn_number ?s < sn_walk_start ?s" "sn_enforce_inturn ?s"
    using start(3) w(2)
    by (auto simp: engine_from_checkpoint_and_header_def from_checkpoint_def res_simps Let_def sat_add_def)
  have t: "?s\<lparr>sn_enforce_inturn := True\<rparr> = ?s" using snap(5) by simp
  have "outside_window X ups 8 cp"
    using w(1) by (rule write_checkpoint_Inr) (use decode_u64_is_u64 assert_outside in blast)
  then obtain turn where "first_turn X up cp turn" "seed_epoch_state X up (cp_number cp) ?s = Inr (?s\<lparr>sn_turn_length := turn\<rparr>)"
    using seed_in_window [OF _ same snap(1-4)] by blast
  then show ?thesis
    using start t by (auto simp: walk_from_checkpoint_def walk_from_checkpoint_inturn_def Let_def consensus_res_def)
qed

text \<open>
  A checkpoint at block 410, sealed by the one member of its set. The set was announced at block 400 with turn length 8, where the
  fork of block 410 has turn length 1, and takes effect at block 407.
\<close>

definition block_410 :: rpc_block_header where
  "block_410 = sample_header (qty 410) 410 (zeros 32)"

definition epoch_at :: "nat \<Rightarrow> rpc_block_header" where
  "epoch_at n = (sample_body (qty n) (zeros 32))
     \<lparr>h_timestamp := qty BOHR_TIME, h_extra_data := hex0x refX (print_extra Bohr True sample_extra)\<rparr>"

definition up_410 :: upstream where
  "up_410 = \<lparr>up_block_number = Inr 410, up_header_by_number = (\<lambda>n. Inr (0, if n = 410 then block_410 else epoch_at n)),
     up_header_by_hash = (\<lambda>_. Inr block_410), up_headers_range = (\<lambda>_ _. Inr [])\<rparr>"

definition cp_410 :: checkpoint where
  "cp_410 = \<lparr>cp_chain_id = BSC_MAINNET_CHAIN_ID, cp_number = 410, cp_hash = h_hash block_410, cp_parent_hash = h_parent_hash block_410,
     cp_state_root = h_state_root block_410, cp_timestamp = 0, cp_fork_id = ''legacy'', cp_sealing_set = [hex0x refX (zeros 20)],
     cp_vote_keys = Some [hex0x refX (zeros 48)], cp_attestation = Some (attestation_text (Some 400))\<rparr>"

lemma trim_plain:
  assumes "is_ascii_graphic c" "is_ascii_graphic d"
  shows "string_trim (c # s @ [d]) = c # s @ [d]"
proof -
  have "list_all (\<lambda>w. \<not> is_ascii_graphic (hd w) \<and> \<not> is_ascii_graphic (last w)) white_space" by code_simp
  then have "trim_start white_space (c # s @ [d]) = c # s @ [d]"
    "trim_start (map rev white_space) (d # rev s @ [c]) = d # rev s @ [c]"
    using assms by (intro trim_start_hd; auto simp: list_all_iff hd_rev)+
  then show ?thesis by (simp add: string_trim_def)
qed

lemma two_hosts:
  "independent_rpc_hosts ''https://a.example/x'' ''https://b.example''" "trimmed (Some ''https://b.example'') = Some ''https://b.example''"
proof -
  have t: "string_trim ''https://a.example/x'' = ''https://a.example/x''" "string_trim ''https://b.example'' = ''https://b.example''"
    using trim_plain [of "CHR ''h''" "CHR ''x''" "''ttps://a.example/''"] trim_plain [of "CHR ''h''" "CHR ''e''" "''ttps://b.exampl''"]
    by (simp_all add: is_ascii_graphic_def)
  then have "rpc_host ''https://a.example/x'' = ''a.example''" "rpc_host ''https://b.example'' = ''b.example''"
    by (simp_all add: rpc_host_def Let_def trim_end_slash_def starts_with_def split_first_def to_ascii_lowercase_def ascii_lower_def)
  then show "independent_rpc_hosts ''https://a.example/x'' ''https://b.example''" by (simp add: independent_rpc_hosts_def)
  show "trimmed (Some ''https://b.example'') = Some ''https://b.example''" using t(2) by (simp add: trimmed_def)
qed

lemma block_410_fields:
  "decode_u64 (h_number block_410) = Inr 410" "decode_u64 (h_timestamp block_410) = Inr 0"
  "h_hash block_410 = hex0x refX (sample_hash 410 (zeros 32))" "h_parent_hash block_410 = hex0x refX (zeros 32)"
  "h_state_root block_410 = hex0x refX (zeros 32)" "header_hash refX block_410 = Inr (sample_hash 410 (zeros 32))"
  by (simp_all add: block_410_def sample_header_def sample_body_def decode_u64_qty is_u64_def u64_max_def)
     (simp add: header_hash_def header_encoding_def header_items_def push_if_def s_defs decode_hex_hex0x decode_hex_fixed_hex0x Let_def
       sample_hash_def decode_u64_qty is_u64_def u64_max_def)

lemma params_410: "params_at 410 0 = \<lparr>fp_name = ''legacy'', fp_activation_block = Some 0, fp_activation_time = None,
   fp_epoch_length = 200, fp_turn_length = 1, fp_block_interval_ms = 3000, fp_extra_data_version = PreLuban\<rparr>"
  by (simp add: params_at_def fork_times fork_lengths)

lemma params_bohr: "fp_epoch_length (params_at n BOHR_TIME) = 200" "fp_extra_data_version (params_at n BOHR_TIME) = Bohr"
  by (simp_all add: params_at_def fork_times fork_lengths)

lemma epoch_at_fields:
  assumes "is_u64 n"
  shows "decode_u64 (h_number (epoch_at n)) = Inr n" "decode_u64 (h_timestamp (epoch_at n)) = Inr BOHR_TIME"
    "decode_hex refX (h_extra_data (epoch_at n)) = Inr (print_extra Bohr True sample_extra)"
  using assms by (simp_all add: epoch_at_def sample_body_def decode_u64_qty decode_hex_hex0x is_u64_def u64_max_def fork_times)

lemma epoch_at_records:
  assumes "is_u64 n" "n mod 200 = 0"
  shows "epoch_records refX (epoch_at n) = Inr ([\<lparr>sv_address = zeros 20, sv_vote_key = zeros 48\<rparr>], 8)"
    "n + 7 \<le> m \<Longrightarrow> is_u64 m \<Longrightarrow>
     validators_from_activated_epoch refX (epoch_at n) m = Inr [\<lparr>sv_address = zeros 20, sv_vote_key = zeros 48\<rparr>]"
  using assms parse_sample_extra
  by (auto simp: epoch_records_def validators_from_activated_epoch_def n_u64_def n_hex_def c_u64_def epoch_at_fields params_bohr Let_def
      sample_extra_def turn_or_def miner_history_check_len_def wrap32_def wrap64_def wrap_sub_def sat_add_def is_u64_def u64_max_def)

lemma seed_410: "epoch_seed_at refX 410 200 (epoch_at 400) (epoch_at 200) = Inr (SeedActive 400 8)"
  by (simp add: epoch_seed_at_def n_u64_def epoch_at_fields epoch_at_records is_u64_def Let_def
      miner_history_check_len_def wrap32_def wrap64_def wrap_sub_def sat_add_def u64_max_def)

lemma fetch_410:
  "fetch_header (\<lambda>_. up_410) 0 ''latest'' = Inr block_410"
  "is_u64 n \<Longrightarrow> n \<noteq> 410 \<Longrightarrow> fetch_header (\<lambda>_. up_410) k (qty n) = Inr (epoch_at n)"
  by (simp add: fetch_header_def eq_ignore_ascii_case_def up_410_def) (simp add: fetch_header_qty up_410_def)

lemma cp_410_ok:
  "validate_basic refX cp_410 = Inr ()" "header_matches_checkpoint refX cp_410 block_410 = Inr ()" "vouched refX up_410 cp_410"
proof -
  have f: "decode_hex_fixed refX 32 (hex0x refX (zeros 32)) = Inr (zeros 32)" "decode_hex_fixed refX 20 (hex0x refX (zeros 20)) = Inr (zeros 20)"
    "decode_hex_fixed refX 48 (hex0x refX (zeros 48)) = Inr (zeros 48)"
    "decode_hex_fixed refX 32 (hex0x refX (sample_hash 410 (zeros 32))) = Inr (sample_hash 410 (zeros 32))"
    by (simp_all add: decode_hex_fixed_hex0x)
  show "validate_basic refX cp_410 = Inr ()"
    by (simp add: validate_basic_def cp_410_def block_410_fields f check_hash_field_def)
  show m: "header_matches_checkpoint refX cp_410 block_410 = Inr ()"
    by (simp add: header_matches_checkpoint_def cp_410_def block_410_fields f c_u64_def c_fixed_def hex_eq_def eq_ignore_ascii_case_def)
  show "vouched refX up_410 cp_410" using m by (simp add: vouched_def up_410_def cp_410_def)
qed

lemma written_410:
  "write_checkpoint refX (\<lambda>_. up_410) (\<lambda>_. up_410) ''https://a.example/x'' ''latest'' None None (Some ''https://b.example'') = Inr cp_410"
proof -
  have c: "confirm_written refX (\<lambda>_. up_410) cp_410 ''https://a.example/x'' (Some ''https://b.example'') = Inr ()"
    using two_hosts cp_410_ok(3) confirm_vouched [of refX cp_410 up_410 "()"] by (simp add: confirm_written_def context_res_def)
  have o: "assert_outside_activation_window refX (\<lambda>_. up_410) 8 410 200 (Some 400) = Inr ()"
    by (simp add: assert_outside_activation_window_def fetch_410 is_u64_def u64_max_def seed_410 snapshot_res_def Let_def)
  have s: "choose_set refX (\<lambda>_. up_410) 410 200 None None = Inr ([hex0x refX (zeros 20)], Some [hex0x refX (zeros 48)], Some 400)"
    by (simp add: choose_set_def epoch_in_force_def fetch_410 is_u64_def u64_max_def seed_410 snapshot_res_def Let_def set_from_epoch_def
        vote_keys_from_activated_epoch_def sealing_set_from_activated_epoch_def epoch_at_records consensus_res_def format_address_def)
  have f: "from_rpc_header block_410 [hex0x refX (zeros 20)] ''legacy'' (Some (attestation_text (Some 400))) =
      Inr (cp_410\<lparr>cp_vote_keys := None\<rparr>)"
    by (simp add: from_rpc_header_def block_410_fields cp_410_def)
  have v: "with_vote_keys (cp_410\<lparr>cp_vote_keys := None\<rparr>) [hex0x refX (zeros 48)] = cp_410"
    by (simp add: with_vote_keys_def cp_410_def)
  show ?thesis
    using c o cp_410_ok(1)
    by (simp add: write_checkpoint_def fetch_410 block_410_fields types_res_def params_410 s f v Let_def)
qed

theorem written_checkpoint_sound_witness:
  "outside_window refX (\<lambda>_. up_410) 8 cp_410 \<and> vouched refX up_410 cp_410 \<and>
   fetch_header (\<lambda>_. up_410) 6 (qty 400) = Inr (epoch_at 400) \<and> announced_by refX (epoch_at 400) cp_410"
proof -
  have l: "cp_number cp_410 = 410" "fp_epoch_length (params_at 410 (cp_timestamp cp_410)) = 200"
    by (simp_all add: cp_410_def params_410)
  have f: "fetch_header (\<lambda>_. up_410) 6 (qty 400) = Inr (epoch_at 400)" by (simp add: fetch_410 is_u64_def u64_max_def)
  show ?thesis using written_checkpoint_sound [OF written_410] unfolding l two_hosts(2) Let_def by (simp add: f)
qed

theorem written_checkpoint_starts_witness:
  "\<exists>engine. engine_from_checkpoint_and_header refX 0 cp_410 block_410 = Inr engine \<and> sn_turn_length (eg_snapshot engine) = 1 \<and>
     walk_from_checkpoint refX up_410 cp_410 410 10 =
     walk_engine refX up_410 410 (engine\<lparr>eg_snapshot := (eg_snapshot engine)\<lparr>sn_turn_length := 8\<rparr>\<rparr>)"
proof -
  have s: "verify_seal_coinbase refX 0 block_410 = Inr (zeros 20)"
    unfolding block_410_def by (rule sample_header_ok_at) (simp_all add: decode_u64_qty is_u64_def u64_max_def LUBAN_BLOCK_def)
  have f: "decode_hex_fixed refX 32 (cp_hash cp_410) = Inr (sample_hash 410 (zeros 32))" "decode_hex_fixed refX 32 (cp_state_root cp_410) = Inr (zeros 32)"
    "rmapM (n_fixed refX 20) (cp_sealing_set cp_410) = Inr [zeros 20]" "cp_vote_keys cp_410 = Some [hex0x refX (zeros 48)]"
    "decode_hex_fixed refX 48 (hex0x refX (zeros 48)) = Inr (zeros 48)"
    "cp_number cp_410 = 410" "cp_timestamp cp_410 = 0"
    by (simp_all add: cp_410_def block_410_fields decode_hex_fixed_hex0x n_fixed_def)
  have m: "\<exists>m g. milli_timestamp refX block_410 = Inr m \<and> decode_u64 (h_gas_limit block_410) = Inr g"
    by (simp add: milli_timestamp_def block_410_def sample_header_def sample_body_def s_defs decode_hex_fixed_hex0x Let_def)
  have "\<exists>engine. engine_from_checkpoint_and_header refX 0 cp_410 block_410 = Inr engine \<and> sn_turn_length (eg_snapshot engine) = 1"
    using s m cp_410_ok(1,2) f
    by (auto simp: engine_from_checkpoint_and_header_def from_checkpoint_def checkpoint_vote_set_def c_fixed_def c_u64_def n_fixed_def
        params_410 Let_def)
  then obtain engine where e: "engine_from_checkpoint_and_header refX 0 cp_410 block_410 = Inr engine"
    "sn_turn_length (eg_snapshot engine) = 1" by blast
  have t: "first_turn refX up_410 cp_410 t \<longleftrightarrow> t = 8" for t
    by (auto simp: first_turn_def f params_410 up_410_def epoch_at_records is_u64_def u64_max_def Let_def)
  have "\<exists>turn. first_turn refX up_410 cp_410 turn \<and> walk_from_checkpoint refX up_410 cp_410 410 10 =
    walk_engine refX up_410 410 (engine\<lparr>eg_snapshot := (eg_snapshot engine)\<lparr>sn_turn_length := turn\<rparr>\<rparr>)"
    using e(1) by (intro written_checkpoint_starts [OF written_410, of up_410 410 10 0 block_410 engine])
      (simp_all add: f(6) up_410_def u64_max_def sat_sub_def)
  then show ?thesis using e t by auto
qed

end
