(* ===== verification/Soak.thy ===== *)
theory Soak
  imports Diff "HOL-Library.Char_ord"
begin

text \<open>
  One round of the soak (\<open>soak_until\<close> and \<open>persist_soak\<close> in \<open>main.rs\<close>): bursts of comparisons with the oracle at a
  moving safe head, until enough addresses matched, the list is through, or too many bursts gave nothing.

  The environment is a record of what each burst observes: the upstream while the loop waits for a head in the proof
  window, the answers of the oracle, the position of the proofs, and whether saving the tally worked. Sleeps and log
  lines are left out.
\<close>

section \<open>State\<close>

record soak_report =
  rp_compared :: nat
  rp_matched :: nat
  rp_mismatched :: nat
  rp_skipped :: nat
  rp_unique :: nat
  rp_compared_at_fast :: nat
  rp_checked_balance :: nat
  rp_checked_nonce :: nat
  rp_checked_slot0 :: nat
  rp_checked_call :: nat
  rp_checked_finality :: nat

record soak_until_opts =
  so_burst :: nat
  so_min_unique :: nat
  so_max_empty :: nat
  so_lookback :: nat
  so_max_sync :: nat
  so_visit_all :: bool
  so_fast_finality :: bool

text \<open>
  The environment: the RPC side; by burst the observations of one wait; by burst the oracle, at 0 for the finality check
  and then for each address; where the proofs of an address start in \<open>re_data\<close>; what saving gave.
\<close>

record ('pk, 'sg, 'bc) soak_env =
  en_rpc :: "('pk, 'sg, 'bc) rpc_env"
  en_wait :: "nat \<Rightarrow> ((nat \<Rightarrow> upstream) \<times> bool) list"
  en_oracle :: "nat \<Rightarrow> nat \<Rightarrow> diff_oracle"
  en_position :: "nat \<Rightarrow> nat \<Rightarrow> nat"
  en_persist :: "nat \<Rightarrow> (err, unit) result"

text \<open>What a round writes to: the addresses that matched, those given up, and the report.\<close>

record round_state =
  rs_done :: "string set"
  rs_give_up :: "string set"
  rs_report :: soak_report

text \<open>The counters of one burst.\<close>

record burst_count =
  bc_gained :: nat
  bc_compared :: nat

section \<open>One comparison\<close>

definition skip_one :: "soak_report \<Rightarrow> soak_report" where
  "skip_one r = r\<lparr>rp_skipped := wrap32 (rp_skipped r + 1)\<rparr>"

definition match_one :: "bool \<Rightarrow> soak_report \<Rightarrow> soak_report" where
  "match_one at_fast r =
     r\<lparr>rp_compared := wrap32 (rp_compared r + 1), rp_matched := wrap32 (rp_matched r + 1),
       rp_compared_at_fast := (if at_fast then wrap32 (rp_compared_at_fast r + 1) else rp_compared_at_fast r)\<rparr>"

definition account_outcome ::
    "bool \<Rightarrow> string \<Rightarrow> string \<Rightarrow> diff_outcome \<Rightarrow> burst_count \<Rightarrow> round_state \<Rightarrow> (err, burst_count) result \<times> round_state" where
  "account_outcome at_fast name addr out c s =
     (case out of
        DiffMatch _ _ checks \<Rightarrow>
          let r = match_one at_fast (rs_report s); fresh = addr_key addr \<notin> rs_done s in
          (Inr \<lparr>bc_gained = (if fresh then wrap32 (bc_gained c + 1) else bc_gained c), bc_compared = wrap32 (bc_compared c + 1)\<rparr>,
           s\<lparr>rs_done := insert (addr_key addr) (rs_done s),
             rs_report := r\<lparr>rp_checked_balance := wrap32 (rp_checked_balance r + 1),
               rp_checked_nonce := wrap32 (rp_checked_nonce r + of_bool (dc_nonce checks)),
               rp_checked_slot0 := wrap32 (rp_checked_slot0 r + of_bool (dc_slot0 checks))\<rparr>\<rparr>)
      | Mismatch _ _ \<Rightarrow> (Inl [''oracle mismatch on '' @ name @ '' (fail-closed)''], s)
      | SkipProof e \<Rightarrow>
          (Inr c, s\<lparr>rs_report := skip_one (rs_report s),
             rs_give_up := (if proof_error_retryable e then rs_give_up s else insert (addr_key addr) (rs_give_up s))\<rparr>)
      | SkipOracle e \<Rightarrow> (Inr c, s\<lparr>rs_report := skip_one (rs_report s)\<rparr>))"

definition call_outcome ::
    "bool \<Rightarrow> string \<Rightarrow> diff_outcome option \<Rightarrow> burst_count \<Rightarrow> round_state \<Rightarrow> (err, burst_count) result \<times> round_state" where
  "call_outcome at_fast name out c s =
     (case out of
        None \<Rightarrow> (Inr c, s)
      | Some (DiffMatch _ _ _) \<Rightarrow>
          let r = match_one at_fast (rs_report s) in
          (Inr (c\<lparr>bc_compared := wrap32 (bc_compared c + 1)\<rparr>),
           s\<lparr>rs_report := r\<lparr>rp_checked_call := wrap32 (rp_checked_call r + 1)\<rparr>\<rparr>)
      | Some (Mismatch _ _) \<Rightarrow> (Inl [''oracle eth_call mismatch on '' @ name @ '' (fail-closed)''], s)
      | Some (SkipProof e) \<Rightarrow> (Inr c, s\<lparr>rs_report := skip_one (rs_report s)\<rparr>)
      | Some (SkipOracle e) \<Rightarrow> (Inr c, s\<lparr>rs_report := skip_one (rs_report s)\<rparr>))"

text \<open>The account of address \<open>j\<close> of burst \<open>i\<close>; the call is proven at positions after the three of the account.\<close>

definition soak_diff ::
    "('pk, 'sg, 'bc) soak_env \<Rightarrow> nat \<Rightarrow> nat \<Rightarrow> string \<Rightarrow> string \<Rightarrow> safe_head \<Rightarrow> diff_outcome" where
  "soak_diff E i j name addr safe =
     (let V = en_rpc E in
      diff_one (re_ext V) (re_serde V) (\<lambda>k. re_data V (en_position E i j + k)) (en_oracle E i (Suc j)) name addr safe)"

definition soak_call ::
    "('pk, 'sg, 'bc) soak_env \<Rightarrow> nat \<Rightarrow> nat \<Rightarrow> string \<Rightarrow> safe_head \<Rightarrow> verified_block list \<Rightarrow> diff_outcome option" where
  "soak_call E i j addr safe chain =
     diff_call_one (en_rpc E) (en_position E i j + 3) (en_oracle E i (Suc j)) addr safe chain"

fun run_burst ::
    "('pk, 'sg, 'bc) soak_env \<Rightarrow> nat \<Rightarrow> bool \<Rightarrow> safe_head \<Rightarrow> verified_block list \<Rightarrow> nat \<Rightarrow> (string \<times> string) list \<Rightarrow>
     burst_count \<Rightarrow> round_state \<Rightarrow> (err, burst_count) result \<times> round_state" where
  "run_burst E i at_fast safe chain j [] c s = (Inr c, s)"
| "run_burst E i at_fast safe chain j ((name, addr) # rest) c s =
     then_step (account_outcome at_fast name addr (soak_diff E i j name addr safe) c s) (\<lambda>c s.
     then_step (call_outcome at_fast name (soak_call E i j addr safe chain) c s) (\<lambda>c s.
       run_burst E i at_fast safe chain (Suc j) rest c s))"

section \<open>The finality check\<close>

definition FINALITY_ATTEMPTS_PER_ROUND :: nat where
  "FINALITY_ATTEMPTS_PER_ROUND = 3"

text \<open>Whether it gave a verdict this round and how often it was tried.\<close>

type_synonym finality_tries = "bool \<times> nat"

definition soak_finality ::
    "('pk, 'sg, 'bc) soak_env \<Rightarrow> nat \<Rightarrow> snapshot option \<Rightarrow> diff_outcome option" where
  "soak_finality E i snap =
     Option.bind snap (\<lambda>s. Option.bind (justified s) (\<lambda>(j, _). Option.bind (finalized s) (\<lambda>(f, _).
       diff_finality_one (re_ext (en_rpc E)) (en_oracle E i 0) (sn_number s) (sn_hash s) (j, f))))"

definition finality_step ::
    "('pk, 'sg, 'bc) soak_env \<Rightarrow> nat \<Rightarrow> snapshot option \<Rightarrow> finality_tries \<Rightarrow> round_state \<Rightarrow> (err, finality_tries) result \<times> round_state" where
  "finality_step E i snap tries s =
     (case tries of (checked, attempts) \<Rightarrow>
        if checked \<or> FINALITY_ATTEMPTS_PER_ROUND \<le> attempts then (Inr tries, s)
        else
          (case soak_finality E i snap of
             None \<Rightarrow> (Inr tries, s)
           | Some (DiffMatch _ _ _) \<Rightarrow>
               let r = match_one False (rs_report s) in
               (Inr (True, Suc attempts), s\<lparr>rs_report := r\<lparr>rp_checked_finality := wrap32 (rp_checked_finality r + 1)\<rparr>\<rparr>)
           | Some (Mismatch _ _) \<Rightarrow> (Inl [''parlia finality mismatch (fail-closed)''], s)
           | Some (SkipProof _) \<Rightarrow> (Inr (False, Suc attempts), s)
           | Some (SkipOracle _) \<Rightarrow> (Inr (False, Suc attempts), s)))"

section \<open>The round\<close>

definition soak_wait ::
    "('pk, 'sg, 'bc) soak_env \<Rightarrow> soak_until_opts \<Rightarrow> nat \<Rightarrow> sync_state \<Rightarrow> (err, nat \<times> safe_head) result option \<times> sync_state" where
  "soak_wait E opts i st =
     wait_until_in_window_with (re_ext (en_rpc E)) (so_lookback opts) (so_max_sync opts) 20 (so_fast_finality opts) (en_wait E i) st"

definition soak_at_fast :: "('pk, 'sg) ext \<Rightarrow> soak_until_opts \<Rightarrow> verified_block list \<Rightarrow> safe_head \<Rightarrow> bool" where
  "soak_at_fast X opts chain safe \<longleftrightarrow>
     so_fast_finality opts \<and> (case safe_of X chain of Inl _ \<Rightarrow> False | Inr conf \<Rightarrow> sh_number conf \<noteq> sh_number safe)"

definition burst_size :: "soak_until_opts \<Rightarrow> 'a list \<Rightarrow> nat" where
  "burst_size opts pending = min (max (so_burst opts) 1) (length pending)"

text \<open>One burst after a successful wait: finality, the addresses, saving.\<close>

definition soak_burst ::
    "('pk, 'sg, 'bc) soak_env \<Rightarrow> soak_until_opts \<Rightarrow> nat \<Rightarrow> safe_head \<Rightarrow> sync_state \<Rightarrow> (string \<times> string) list \<Rightarrow> finality_tries \<Rightarrow>
     round_state \<Rightarrow> (err, finality_tries \<times> burst_count) result \<times> round_state" where
  "soak_burst E opts i safe st pending tries s =
     then_step (finality_step E i (snd st) tries s) (\<lambda>tries s.
     then_step (run_burst E i (soak_at_fast (re_ext (en_rpc E)) opts (fst st) safe) safe (fst st) 0
                  (take (burst_size opts pending) pending) \<lparr>bc_gained = 0, bc_compared = 0\<rparr> s) (\<lambda>c s.
     then_step (en_persist E i, s) (\<lambda>_ s. (Inr (tries, c), s))))"

definition next_pending ::
    "soak_until_opts \<Rightarrow> (string \<times> string) list \<Rightarrow> round_state \<Rightarrow> (string \<times> string) list" where
  "next_pending opts pending s =
     filter (\<lambda>(_, a). addr_key a \<notin> rs_give_up s)
       (if so_visit_all opts then drop (burst_size opts pending) pending else unmatched pending (rs_done s))"

definition unique_cap :: "soak_until_opts \<Rightarrow> nat" where
  "unique_cap opts = (if so_visit_all opts then u64_max else so_min_unique opts)"

section \<open>What a burst does to the set of matched addresses\<close>

definition soak_matched :: "('pk, 'sg, 'bc) soak_env \<Rightarrow> nat \<Rightarrow> safe_head \<Rightarrow> (string \<times> string) list \<Rightarrow> string \<Rightarrow> bool" where
  "soak_matched E i safe l k \<longleftrightarrow>
     (\<exists>j name addr mine theirs checks. (name, addr) \<in> set l \<and> addr_key addr = k \<and>
        soak_diff E i j name addr safe = DiffMatch mine theirs checks)"

lemma soak_matched_mono: "soak_matched E i safe l k \<Longrightarrow> set l \<subseteq> set m \<Longrightarrow> soak_matched E i safe m k"
  unfolding soak_matched_def by blast

text \<open>From \<open>d\<close> to \<open>d'\<close> only addresses of \<open>l\<close> that matched are added, and the gain changes only if one is.\<close>

definition burst_adds ::
    "('pk, 'sg, 'bc) soak_env \<Rightarrow> nat \<Rightarrow> safe_head \<Rightarrow> (string \<times> string) list \<Rightarrow> burst_count \<Rightarrow> (err, burst_count) result \<Rightarrow> string set \<Rightarrow> string set \<Rightarrow> bool" where
  "burst_adds E i safe l c r d d' \<longleftrightarrow> d \<subseteq> d' \<and> (\<forall>k \<in> d' - d. soak_matched E i safe l k) \<and>
     (d' = d \<longrightarrow> (\<forall>c'. r = Inr c' \<longrightarrow> bc_gained c' = bc_gained c))"

lemma burst_adds_stop: "burst_adds E i safe l c r d d' \<Longrightarrow> set l \<subseteq> set m \<Longrightarrow> burst_adds E i safe m c (Inl e) d d'"
  unfolding burst_adds_def using soak_matched_mono by blast

lemma burst_adds_trans:
  assumes "burst_adds E i safe l c (Inr c1) d d1" "burst_adds E i safe m c1 r d1 d2"
  shows "burst_adds E i safe (l @ m) c r d d2"
proof -
  have "soak_matched E i safe l k \<Longrightarrow> soak_matched E i safe (l @ m) k" "soak_matched E i safe m k \<Longrightarrow> soak_matched E i safe (l @ m) k" for k
    by (erule soak_matched_mono; simp)+
  then show ?thesis using assms unfolding burst_adds_def by (metis Diff_iff subset_antisym subset_trans)
qed

lemma account_outcome_adds:
  assumes "account_outcome at_fast name addr (soak_diff E i j name addr safe) c s = (r, s')"
  shows "burst_adds E i safe [(name, addr)] c r (rs_done s) (rs_done s')"
proof (cases "soak_diff E i j name addr safe")
  case (DiffMatch mine theirs checks)
  then have "soak_matched E i safe [(name, addr)] (addr_key addr)" unfolding soak_matched_def by auto
  then show ?thesis using assms DiffMatch by (auto simp: account_outcome_def Let_def burst_adds_def)
qed (use assms in \<open>auto simp: account_outcome_def Let_def burst_adds_def\<close>)

lemma call_outcome_adds:
  assumes "call_outcome at_fast name out c s = (r, s')"
  shows "burst_adds E i safe [] c r (rs_done s) (rs_done s')"
  using assms by (auto simp: call_outcome_def Let_def burst_adds_def split: option.splits diff_outcome.splits)

lemma run_burst_adds:
  "run_burst E i at_fast safe chain j l c s = (r, s') \<Longrightarrow> burst_adds E i safe l c r (rs_done s) (rs_done s')"
proof (induction E i at_fast safe chain j l c s arbitrary: r s' rule: run_burst.induct)
  case (2 E i at_fast safe chain j name addr rest c s)
  obtain r1 s1 where a: "account_outcome at_fast name addr (soak_diff E i j name addr safe) c s = (r1, s1)" by fastforce
  note acc = account_outcome_adds [OF a]
  show ?case
  proof (cases r1)
    case (Inl e)
    then show ?thesis using "2.prems" a burst_adds_stop [OF acc, of "(name, addr) # rest" e] by (simp add: then_step_def)
  next
    case c1: (Inr c1)
    obtain r2 s2 where b: "call_outcome at_fast name (soak_call E i j addr safe chain) c1 s1 = (r2, s2)" by fastforce
    have two: "burst_adds E i safe [(name, addr)] c r2 (rs_done s) (rs_done s2)"
      using burst_adds_trans [OF acc [unfolded c1] call_outcome_adds [OF b]] by simp
    show ?thesis
    proof (cases r2)
      case (Inl e)
      then show ?thesis using "2.prems" a b c1 burst_adds_stop [OF two, of "(name, addr) # rest" e] by (simp add: then_step_def)
    next
      case (Inr c2)
      then have "run_burst E i at_fast safe chain (Suc j) rest c2 s2 = (r, s')"
        using "2.prems" a b c1 by (simp add: then_step_def)
      then have "burst_adds E i safe rest c2 r (rs_done s2) (rs_done s')" by (rule "2.IH")
      then show ?thesis using burst_adds_trans [OF two [unfolded Inr]] by simp
    qed
  qed
qed (simp add: burst_adds_def)

lemma finality_step_done: "finality_step E i snap tries s = (r, s') \<Longrightarrow> rs_done s' = rs_done s \<and> rs_give_up s' = rs_give_up s"
  by (auto simp: finality_step_def Let_def split: prod.splits if_splits option.splits diff_outcome.splits)

lemma soak_burst_adds:
  assumes "soak_burst E opts i safe st pending tries s = (r, s')"
  shows "rs_done s \<subseteq> rs_done s'" "\<forall>k \<in> rs_done s' - rs_done s. soak_matched E i safe pending k"
    "r = Inr (tries', c) \<Longrightarrow> bc_gained c \<noteq> 0 \<Longrightarrow> rs_done s' \<noteq> rs_done s"
proof -
  obtain r1 s1 where f: "finality_step E i (snd st) tries s = (r1, s1)" by fastforce
  let ?n = "burst_size opts pending" and ?c = "\<lparr>bc_gained = 0, bc_compared = 0\<rparr>"
  let ?b = "run_burst E i (soak_at_fast (re_ext (en_rpc E)) opts (fst st) safe) safe (fst st) 0 (take ?n pending) ?c s1"
  obtain r2 s2 where b: "?b = (r2, s2)" by fastforce
  have adds: "burst_adds E i safe (take ?n pending) ?c r2 (rs_done s) (rs_done s2)"
    using run_burst_adds [OF b] finality_step_done [OF f] by simp
  have sub: "soak_matched E i safe (take ?n pending) k \<Longrightarrow> soak_matched E i safe pending k" for k
    by (erule soak_matched_mono) (rule set_take_subset)
  have "s' = s1 \<and> (\<forall>x. r \<noteq> Inr x) \<or> s' = s2 \<and> (\<forall>tries' c. r = Inr (tries', c) \<longrightarrow> r2 = Inr c)"
    using assms f b by (auto simp: soak_burst_def then_step_def split: sum.splits)
  then show "rs_done s \<subseteq> rs_done s'" "\<forall>k \<in> rs_done s' - rs_done s. soak_matched E i safe pending k"
    "r = Inr (tries', c) \<Longrightarrow> bc_gained c \<noteq> 0 \<Longrightarrow> rs_done s' \<noteq> rs_done s"
    using adds sub finality_step_done [OF f] unfolding burst_adds_def by auto
qed

lemma next_pending_le: "length (next_pending opts pending s) \<le> length pending"
  by (auto simp: next_pending_def unmatched_def intro: order.trans [OF length_filter_le])

lemma next_pending_less:
  assumes "pending \<noteq> []" "so_visit_all opts \<or> (\<exists>(n, a) \<in> set pending. addr_key a \<in> rs_done s)"
  shows "length (next_pending opts pending s) < length pending"
proof (cases "so_visit_all opts")
  case True
  have "length (next_pending opts pending s) \<le> length (drop (burst_size opts pending) pending)"
    unfolding next_pending_def using True by (simp only: if_True length_filter_le)
  also have "\<dots> < length pending" using assms(1) by (simp add: burst_size_def)
  finally show ?thesis .
next
  case False
  then have "length (next_pending opts pending s) \<le> length (unmatched pending (rs_done s))"
    unfolding next_pending_def by (simp only: if_False length_filter_le)
  also have "\<dots> < length pending" using assms(2) False unfolding unmatched_def by (auto intro!: length_filter_less)
  finally show ?thesis .
qed

lemma rotate_front_length [simp]: "length (rotate_front k xs) = length xs"
  by (simp add: rotate_front_rotate)

text \<open>The pending list after a burst that gave nothing.\<close>

definition turn_pending :: "soak_until_opts \<Rightarrow> nat \<Rightarrow> (string \<times> string) list \<Rightarrow> (string \<times> string) list" where
  "turn_pending opts n l = (if so_visit_all opts then l else rotate_front (min n (length l)) l)"

lemma burst_progress:
  assumes "soak_burst E opts i safe st pending tries s = (Inr (tries', c), s')" "pending \<noteq> []"
    "\<not> soak_empty_burst (so_visit_all opts) (bc_gained c) (bc_compared c)"
  shows "length (next_pending opts pending s') < length pending"
proof -
  have "\<exists>(n, a) \<in> set pending. addr_key a \<in> rs_done s'" if "\<not> so_visit_all opts"
  proof -
    have "rs_done s' \<noteq> rs_done s" using soak_burst_adds(3) [OF assms(1)] assms(3) that by (auto simp: soak_empty_burst_def)
    then obtain k where k: "k \<in> rs_done s' - rs_done s" using soak_burst_adds(1) [OF assms(1)] by blast
    then have "soak_matched E i safe pending k" using soak_burst_adds(2) [OF assms(1)] by blast
    then show ?thesis using k unfolding soak_matched_def by auto
  qed
  then show ?thesis using next_pending_less [OF assms(2)] by blast
qed

section \<open>The loop\<close>

text \<open>
  \<open>None\<close> says that the observations of a wait ended before the wait did. The number of bursts without a gain never
  exceeds the limit, a \<open>u32\<close>, so it does not wrap.
\<close>

function soak_loop ::
    "('pk, 'sg, 'bc) soak_env \<Rightarrow> soak_until_opts \<Rightarrow> nat \<Rightarrow> (string \<times> string) list \<Rightarrow> nat \<Rightarrow> finality_tries \<Rightarrow> sync_state \<Rightarrow> round_state \<Rightarrow>
     (err, unit) result option \<times> sync_state \<times> round_state" where
  "soak_loop E opts i pending idle tries st s =
     (if pending = [] \<or> unique_cap opts \<le> card (rs_done s) then (Some (Inr ()), st, s)
      else
        case soak_wait E opts i st of
          (None, st') \<Rightarrow> (None, st', s)
        | (Some (Inl e), st') \<Rightarrow>
            let s' = s\<lparr>rs_report := skip_one (rs_report s)\<rparr> in
            if so_max_empty opts \<le> Suc idle then (Some (Inr ()), st', s')
            else soak_loop E opts (Suc i) pending (Suc idle) tries st' s'
        | (Some (Inr (tip, safe)), st') \<Rightarrow>
            (case soak_burst E opts i safe st' pending tries s of
               (Inl e, s') \<Rightarrow> (Some (Inl e), st', s')
             | (Inr (tries', c), s') \<Rightarrow>
                 let rest = next_pending opts pending s' in
                 if soak_empty_burst (so_visit_all opts) (bc_gained c) (bc_compared c) then
                   if so_max_empty opts \<le> Suc idle then (Some (Inr ()), st', s')
                   else soak_loop E opts (Suc i) (turn_pending opts (burst_size opts pending) rest) (Suc idle) tries' st' s'
                 else soak_loop E opts (Suc i) rest 0 tries' st' s'))"
  by pat_completeness auto
termination
proof (relation "inv_image (less_than <*lex*> less_than)
    (\<lambda>(E, opts, i, pending, idle, tries, st, s). (length pending, so_max_empty opts - idle))", goal_cases)
  case (3 E opts i pending idle tries st s x st' y z tip safe xa s'' w tries' c rest)
  then have "length (turn_pending opts (burst_size opts pending) rest) \<le> length pending"
    using next_pending_le by (simp add: turn_pending_def)
  then show ?case using 3 by auto
next
  case (4 E opts i pending idle tries st s x st' y z tip safe xa s'' w tries' c rest)
  then have "soak_burst E opts i safe st' pending tries s = (Inr (tries', c), s'')" "pending \<noteq> []" by auto
  from burst_progress [OF this] show ?case using 4 by auto
qed auto

declare soak_loop.simps [simp del]

definition soak_until ::
    "('pk, 'sg, 'bc) soak_env \<Rightarrow> soak_until_opts \<Rightarrow> (string \<times> string) list \<Rightarrow> sync_state \<Rightarrow> string set \<Rightarrow> soak_report \<Rightarrow>
     (err, unit) result option \<times> sync_state \<times> round_state" where
  "soak_until E opts addrs st matched report =
     (case soak_loop E opts 0 (if so_visit_all opts then addrs else unmatched addrs matched) 0 (False, 0) st
             \<lparr>rs_done = matched, rs_give_up = {}, rs_report = report\<rparr> of
        (Some (Inr _), st', s) \<Rightarrow>
          (Some (Inr ()), st', s\<lparr>rs_report := (rs_report s)\<lparr>rp_unique := wrap32 (card (rs_done s))\<rparr>\<rparr>)
      | (r, st', s) \<Rightarrow> (r, st', s))"

text \<open>The tally that is saved: what was there before the round and what the round has counted so far.\<close>

definition persist_soak :: "soak_state option \<Rightarrow> diff_report \<Rightarrow> nat \<Rightarrow> soak_report \<Rightarrow> string set \<Rightarrow> nat \<Rightarrow> soak_state option" where
  "persist_soak state base base_fast rd matched now =
     map_option (\<lambda>st. touch_session now
       (st\<lparr>sk_compared := wrap32 (dr_compared base + rp_compared rd), sk_matched := wrap32 (dr_matched base + rp_matched rd),
           sk_mismatched := wrap32 (dr_mismatched base + rp_mismatched rd), sk_skipped := wrap32 (dr_skipped base + rp_skipped rd),
           sk_compared_at_fast := wrap32 (base_fast + rp_compared_at_fast rd),
           sk_checked_balance := wrap32 (dr_checked_balance base + rp_checked_balance rd),
           sk_checked_nonce := wrap32 (dr_checked_nonce base + rp_checked_nonce rd),
           sk_checked_slot0 := wrap32 (dr_checked_slot0 base + rp_checked_slot0 rd),
           sk_checked_call := wrap32 (dr_checked_call base + rp_checked_call rd),
           sk_checked_finality := wrap32 (dr_checked_finality base + rp_checked_finality rd),
           sk_unique := sorted_list_of_set matched\<rparr>)) state"

section \<open>What a round shows\<close>

lemma next_pending_subset: "set (next_pending opts pending s) \<subseteq> set pending"
  by (auto simp: next_pending_def unmatched_def dest: in_set_dropD)

lemma turn_pending_set [simp]: "set (turn_pending opts n l) = set l"
  by (simp add: turn_pending_def rotate_front_rotate)

text \<open>A relation between the states of a round that every burst keeps holds across the round.\<close>

locale round_relation =
  fixes E :: "('pk, 'sg, 'bc) soak_env" and opts :: soak_until_opts and A :: "(string \<times> string) set"
    and R :: "round_state \<Rightarrow> round_state \<Rightarrow> bool"
  assumes same: "R s s"
    and trans: "R s t \<Longrightarrow> R t u \<Longrightarrow> R s u"
    and skip: "R s (s\<lparr>rs_report := skip_one (rs_report s)\<rparr>)"
    and burst: "soak_burst E opts i safe st pending tries s = (r, s') \<Longrightarrow> set pending \<subseteq> A \<Longrightarrow> R s s'"
begin

lemma loop_keeps:
  "E' = E \<Longrightarrow> opts' = opts \<Longrightarrow> set pending \<subseteq> A \<Longrightarrow> R s (snd (snd (soak_loop E' opts' i pending idle tries st s)))"
proof (induction E' opts' i pending idle tries st s rule: soak_loop.induct)
  case (1 E' opts' i pending idle tries st s)
  note IH = "1.IH" and go = soak_loop.simps [of E' opts' i pending idle tries st s]
  show ?case
  proof (cases "pending = [] \<or> unique_cap opts' \<le> card (rs_done s)")
    case True
    then show ?thesis using same by (simp add: go)
  next
    case run: False
    obtain w st' where w: "soak_wait E' opts' i st = (w, st')" by (meson surj_pair)
    consider "w = None" | e where "w = Some (Inl e)" | tip safe where "w = Some (Inr (tip, safe))"
      by (cases w) (auto, metis prod.exhaust sum.exhaust)
    then show ?thesis
    proof cases
      case 1
      then show ?thesis using run w same by (simp add: go)
    next
      case (2 e)
      let ?s = "s\<lparr>rs_report := skip_one (rs_report s)\<rparr>"
      have "R ?s (snd (snd (soak_loop E' opts' (Suc i) pending (Suc idle) tries st' ?s)))" if "\<not> so_max_empty opts' \<le> Suc idle"
        using IH(1) [OF run w [symmetric] 2 refl refl that] "1.prems" by simp
      then show ?thesis using run w 2 skip trans by (auto simp: go Let_def)
    next
      case (3 tip safe)
      obtain r s' where b: "soak_burst E' opts' i safe st' pending tries s = (r, s')" by fastforce
      have R: "R s s'" using burst b "1.prems" by blast
      show ?thesis
      proof (cases r)
        case (Inl e)
        then show ?thesis using run w 3 b R by (simp add: go)
      next
        case (Inr x)
        obtain tries' c where x: "x = (tries', c)" by fastforce
        let ?rest = "next_pending opts' pending s'"
        let ?idle = "soak_empty_burst (so_visit_all opts') (bc_gained c) (bc_compared c)"
        have rest: "set ?rest \<subseteq> A" using next_pending_subset "1.prems"(3) by blast
        have "R s' (snd (snd (soak_loop E' opts' (Suc i) (turn_pending opts' (burst_size opts' pending) ?rest) (Suc idle) tries' st' s')))"
          if "?idle" "\<not> so_max_empty opts' \<le> Suc idle"
          using IH(2) [OF run w [symmetric] 3 refl refl b [symmetric] Inr x [symmetric] refl that] "1.prems" rest by simp
        moreover have "R s' (snd (snd (soak_loop E' opts' (Suc i) ?rest 0 tries' st' s')))" if "\<not> ?idle"
          using IH(3) [OF run w [symmetric] 3 refl refl b [symmetric] Inr x [symmetric] refl that] "1.prems" rest by simp
        ultimately show ?thesis using run w 3 b Inr x R trans by (auto simp: go Let_def)
      qed
    qed
  qed
qed

lemma until_keeps:
  assumes "set addrs \<subseteq> A" "\<And>s n. R s (s\<lparr>rs_report := (rs_report s)\<lparr>rp_unique := n\<rparr>\<rparr>)"
  shows "R \<lparr>rs_done = matched, rs_give_up = {}, rs_report = report\<rparr> (snd (snd (soak_until E opts addrs st matched report)))"
proof -
  let ?l = "if so_visit_all opts then addrs else unmatched addrs matched" and ?s = "\<lparr>rs_done = matched, rs_give_up = {}, rs_report = report\<rparr>"
  let ?x = "soak_loop E opts 0 ?l 0 (False, 0) st ?s"
  have "set ?l \<subseteq> A" using assms(1) by (auto simp: unmatched_def)
  then have R: "R ?s (snd (snd ?x))" by (rule loop_keeps [OF refl refl])
  obtain r st' s' where x: "?x = (r, st', s')" by (rule prod_cases3)
  consider "r = None" | e where "r = Some (Inl e)" | u where "r = Some (Inr u)" by (metis option.exhaust sum.exhaust)
  then have "snd (snd (soak_until E opts addrs st matched report)) = s' \<or>
      (\<exists>n. snd (snd (soak_until E opts addrs st matched report)) = s'\<lparr>rs_report := (rs_report s')\<lparr>rp_unique := n\<rparr>\<rparr>)"
    by cases (auto simp only: soak_until_def x prod.case option.case sum.case snd_conv)
  then show ?thesis using R x assms(2) trans by (auto simp del: split_paired_Ex)
qed

end

text \<open>A round only adds addresses of its list, each after a comparison that matched.\<close>

definition any_match :: "('pk, 'sg, 'bc) soak_env \<Rightarrow> (string \<times> string) set \<Rightarrow> string \<Rightarrow> bool" where
  "any_match E A k \<longleftrightarrow> (\<exists>i safe l. set l \<subseteq> A \<and> soak_matched E i safe l k)"

definition done_grows :: "('pk, 'sg, 'bc) soak_env \<Rightarrow> (string \<times> string) set \<Rightarrow> round_state \<Rightarrow> round_state \<Rightarrow> bool" where
  "done_grows E A s s' \<longleftrightarrow> rs_done s \<subseteq> rs_done s' \<and> (\<forall>k \<in> rs_done s' - rs_done s. any_match E A k)"

interpretation done_round: round_relation E opts A "done_grows E A" for E opts A
proof unfold_locales
  fix i safe st pending tries s r s'
  assume "soak_burst E opts i safe st pending tries s = (r, s')" "set pending \<subseteq> A"
  then show "done_grows E A s s'"
    using soak_burst_adds(1,2) [of E opts i safe st pending tries s r s'] unfolding done_grows_def any_match_def by blast
qed (auto simp: done_grows_def)

lemma soak_until_matched:
  assumes "soak_until E opts addrs st matched report = (r, st', s)" "k \<in> rs_done s - matched"
  shows "any_match E (set addrs) k"
  using done_round.until_keeps [of addrs "set addrs" E matched report opts st] assms by (auto simp: done_grows_def)

text \<open>
  A mismatch is never counted. It ends the round with an error before the tally is saved, so the counter that a resumed
  soak starts from, and that its summary prints, is the one from before the round.
\<close>

definition same_mismatched :: "round_state \<Rightarrow> round_state \<Rightarrow> bool" where
  "same_mismatched s s' \<longleftrightarrow> rp_mismatched (rs_report s') = rp_mismatched (rs_report s)"

lemma same_mismatched_trans: "same_mismatched s t \<Longrightarrow> same_mismatched t u \<Longrightarrow> same_mismatched s u"
  by (simp add: same_mismatched_def)

lemma outcome_mismatched:
  "account_outcome at_fast name addr out c s = (r, s') \<Longrightarrow> same_mismatched s s'"
  "call_outcome at_fast name co c s = (r, s') \<Longrightarrow> same_mismatched s s'"
  "finality_step E i snap tries s = (rf, s') \<Longrightarrow> same_mismatched s s'"
  by (auto simp: account_outcome_def call_outcome_def finality_step_def same_mismatched_def match_one_def skip_one_def Let_def
      split: prod.splits if_splits option.splits diff_outcome.splits)

lemma run_burst_mismatched: "run_burst E i at_fast safe chain j l c s = (r, s') \<Longrightarrow> same_mismatched s s'"
proof (induction E i at_fast safe chain j l c s arbitrary: r s' rule: run_burst.induct)
  case (1 E i at_fast safe chain j c s)
  then show ?case by (simp add: same_mismatched_def)
next
  case (2 E i at_fast safe chain j name addr rest c s)
  then show ?case
    by (auto simp: then_step_def split: prod.splits sum.splits dest!: outcome_mismatched(1,2) intro: same_mismatched_trans)
qed

interpretation mismatch_round: round_relation E opts A same_mismatched for E opts A
proof unfold_locales
  fix i safe st pending tries s r s'
  assume "soak_burst E opts i safe st pending tries s = (r, s')"
  then show "same_mismatched s s'"
    by (auto simp: soak_burst_def then_step_def split: prod.splits sum.splits
        dest!: outcome_mismatched(3) run_burst_mismatched intro: same_mismatched_trans)
qed (auto simp: same_mismatched_def skip_one_def)

lemma mismatch_not_counted:
  assumes "soak_until E opts addrs st matched report = (r, st', s)"
  shows "rp_mismatched (rs_report s) = rp_mismatched report"
  using mismatch_round.until_keeps [of addrs "set addrs" matched report E opts st] assms by (auto simp: same_mismatched_def)

lemma saved_mismatched:
  assumes "soak_until E opts addrs st matched report = (r, st', s)" "rp_mismatched report = 0" "dr_mismatched base < 2 ^ 32"
    "persist_soak (Some state) base base_fast (rs_report s) (rs_done s) now = Some state'"
  shows "sk_mismatched state' = dr_mismatched base"
  using mismatch_not_counted [OF assms(1)] assms(2-4) by (auto simp: persist_soak_def touch_session_def wrap32_def Let_def split: option.splits)

end
