(* ===== verification/Spec2Isabelle.thy ===== *)
theory Spec2Isabelle
  imports Node Proof Receipts Raw_Tx Wire Call_Sound Rpc_Logs_Sound Rpc_Http Upstream Operations Diff Commands Soak
begin

text \<open>
  Verification of helios-bsc, a light client for BNB Smart Chain.

  The program. A light client starts from a checkpoint the operator trusts, asks an untrusted
  upstream for headers, checks every one of them against the rules of the Parlia consensus, and
  answers wallet requests only from what it has checked: a header is accepted when it extends the
  local chain, is signed by a member of the sealing set whose turn and recency allow it,
  and carries a well-formed \<open>extraData\<close>; account state, transactions and receipts are accepted when
  their Merkle proofs lead to a root of an accepted header. Reads resolve to a block that enough
  distinct sealers have built on, or that a quorum of BLS votes has finalized.

  Parts, bottom up, and the theories that model them.

  \<^item> \<open>Prelude\<close>, \<open>Externals\<close>, \<open>Reference\<close>: bytes, results, 64-bit arithmetic with the wrap-around and
    saturation of the source; the third-party code as a record of functions \<open>ext\<close> (hex codec, Keccak,
    secp256k1 recovery, BLS) with its documented laws as named predicates; one concrete instance of
    it for witnesses.
  \<^item> \<open>Types\<close> (\<open>crates/helios-bsc-types\<close>), \<open>Config\<close> and \<open>Extra\<close> (\<open>crates/helios-bsc-config\<close>): decoders,
    checkpoints, fork schedule, \<open>extraData\<close>.
  \<^item> \<open>Rlp_Util\<close>, \<open>Seal\<close>, \<open>Vote\<close>, \<open>Snapshot\<close>, \<open>Finality\<close>, \<open>Engine\<close>: one theory per file of
    \<open>crates/helios-bsc-consensus/src\<close>. The snapshot is a record with one function per mutation, in the order
    in which \<open>apply_header\<close> performs them; the engine adds the kept chain and the safe head.
    \<open>Machine\<close> states, as locales, the contract of a machine that accepts or rejects its inputs, and
    proves what follows for whole logs; \<open>Snapshot_Inv\<close> and \<open>Engine\<close> interpret it.
  \<^item> \<open>Rlp\<close>, \<open>Mpt\<close>, \<open>Proof\<close>, \<open>Ordered_Trie\<close>, \<open>Receipts\<close>, \<open>Raw_Tx\<close>: one theory per file or pair of files
    of \<open>crates/helios-bsc-execution/src\<close>.
  \<^item> \<open>Call\<close>, \<open>Call_Sound\<close> (\<open>call.rs\<close>): the database that answers an EVM only from proven accounts, slots, code and
    block hashes, the loop that proves what a run missed and runs again, gas caps and the search for a gas
    estimate. The EVM is a parameter: a program of database queries.
  \<^item> \<open>Wire\<close> (\<open>crates/helios-bsc-rpc\<close>): the policy of every method, envelopes, block tags, quantities.
  \<^item> \<open>Errors\<close>, \<open>Sync\<close>, \<open>Node\<close>: the error texts, \<open>sync.rs\<close> and the sync half of \<open>rpc_server.rs\<close> of
    \<open>bin/helios-bsc/src\<close>: walking and appending headers, catching up, bootstrap, rollback points,
    recovery from reorganisations, the read head and what is published.
  \<^item> \<open>Upstream\<close> (\<open>upstream.rs\<close>): the JSON-RPC client, its retries and size cap, header ranges in batches and in
    parallel groups, raw transactions, failover. What answers one HTTP request is a parameter.
  \<^item> \<open>Rpc_Base\<close> (state, positions of the environment, error texts), \<open>Rpc_Validate\<close> (\<open>validate.rs\<close>), \<open>Rpc_State\<close>
    (\<open>state.rs\<close>), \<open>Rpc_Calls\<close> (\<open>calls.rs\<close>), \<open>Rpc_Blocks\<close> (\<open>blocks.rs\<close>), \<open>Rpc_Receipts\<close> (\<open>receipts.rs\<close>), \<open>Rpc_Logs\<close>
    (\<open>logs.rs\<close> and the filter store), \<open>Rpc_Server\<close> (dispatch in \<open>rpc_server.rs\<close>), \<open>Rpc_Http\<close> (\<open>http.rs\<close>, \<open>bind.rs\<close>): the
    handlers under \<open>bin/helios-bsc/src/rpc_server\<close>. A handler is a function on the server state that returns an
    error response or a response.
  \<^item> \<open>Rpc_Inv\<close>, \<open>Rpc_Sound\<close>, \<open>Rpc_Heads\<close>, \<open>Rpc_Logs_Sound\<close>: what requests do. \<open>Rpc_Inv\<close> states as locales
    which relations between server states every request keeps; the node invariant, the filter store, the unchanged
    node and the published head are instances.
  \<^item> \<open>Operations\<close> (\<open>health.rs\<close>, \<open>soak_state.rs\<close>) and \<open>Diff\<close> (\<open>diff.rs\<close>): the health verdict, the state of a soak over
    several runs, and the comparison with an independent oracle, which is a parameter.
  \<^item> \<open>Commands\<close> (\<open>main.rs\<close>): loading, confirming and writing the checkpoint a node starts from.
  \<^item> \<open>Soak\<close> (\<open>main.rs\<close>): one round of the soak, in bursts, and the tally it saves. That every relation which a burst keeps
    holds across a round is a locale, with two instances.

  What is shown. Codecs: the decoders accept exactly the canonical encodings, and printing and parsing are
  inverse. Consensus: what an accepted header guarantees, that a rejected one has no effect that any later
  verdict could see, that justified and finalized blocks lie on the walked chain and never go
  back, which accepted epoch headers sealing sets come from and when they change, that two quorums intersect. Proofs: two accepted
  proofs (lists) for one root and key (one root) agree or exhibit two concrete byte strings that
  collide under Keccak; collisions are stated of the strings at hand, never as an assumption that there are
  none. Engine and node: an invariant of every reachable state under every input, failures
  included; the head that reads resolve to; when recovery succeeds; and one way in which a
  reorganisation is not recognised, recorded as a defect. Calls: what \<open>eth_call\<close> returns is one run of the transaction
  on the state that the block's root commits to, a gas estimate is a boundary on it, and both are bounded in
  calls of the proof source and in memory whatever that source and the contract do. Server: after any sequence of
  requests and background syncs the node invariant holds and the filter store is bounded; a state read is
  proven for a verified block inside the proof window; \<open>eth_getLogs\<close> returns every matching log of the
  selected blocks or an error; a log filter polls without gaps. Client: a header range that returns has as many headers as
  numbers, and one range for which it never returns. Operations: when a status is healthy, what a soak
  counts, that a match or mismatch against the oracle is always about a proven value, that a round of a soak ends (given
  observations that end its waits), adds only addresses that matched, and never counts a mismatch. Commands: what a written
  checkpoint is, and that a node started from it never refuses it for its epoch.

  Modelling conventions. Every fallible function returns a sum with the source's error on the left; a
  mutating one returns its state also when it fails. The clock enters as an argument. Release builds
  do not trap overflow, so a bare \<open>+\<close> on \<open>u64\<close> is \<open>wrap64\<close> and \<open>saturating_add\<close> is \<open>sat_add\<close>. Strings are the
  bytes of their UTF-8 form. Panics (index out of range) are values of their own where the source can
  reach them. Recursion on input is structural or has a termination proof; loops that wait for an
  untrusted peer consume a list of observations and return \<open>None\<close> while none ends them, so no fuel
  bounds are needed. Heights are bounded by hypotheses of the form \<open>start + served \<le> u64_max\<close>, which mainnet
  is eleven orders of magnitude away from.

  Not modelled. Requests are sequential: the interleaving of two handlers between their lock sections, the listener's
  threads and the answer to a handler that panics are left out. The EVM (\<open>revm\<close>), JSON parsing and
  decoding of upstream objects (\<open>serde\<close>), the HTTP library (\<open>ureq\<close>), hashing and signatures are
  parameters. Sleeps, log lines and atomic file writes have no counterpart. Of \<open>main.rs\<close>, parsing
  arguments, printing and the outer soak loop are left out; \<open>adversarial.rs\<close> and the mock crate are tests.
\<close>

end
